(* ===== verification/Records.thy ===== *)
theory Records
  imports Base
begin

text \<open>
  The record store, \<^verbatim>\<open>server/workspace/src/records.ts\<close>: the interface \<^verbatim>\<open>IRecordStore\<close> and its two
  selectable backends, \<^verbatim>\<open>RecordStoreSqlite\<close> and \<^verbatim>\<open>RecordStoreDsql\<close>, with the byte metering of
  shared application scopes. The SQL statements of the source are translated to operations on
  the table they address; S3 is the map of blobs the DSQL backend spills large values to.

  Time is the millisecond clock \<^verbatim>\<open>Date.now()\<close>; a stored timestamp is that number where the
  source stores its ISO rendering. A value has any type; its JSON size is the field
  \<^verbatim>\<open>db_size\<close> and \<^verbatim>\<open>JSON.parse(JSON.stringify(v))\<close> is the identity. Faults of the
  network or of the database engine are not modelled.
\<close>

section \<open>The table\<close>

type_synonym addr = "string \<times> string \<times> string" \<comment> \<open>tenant, scope, key\<close>

datatype backend = Sqlite | Dsql

record 'v row =
  rw_value :: "'v option"        \<comment> \<open>NULL in a spilled row\<close>
  rw_spilled :: bool             \<comment> \<open>no such column in SQLite: always False there\<close>
  rw_updated_at :: int
  rw_updated_by :: string
  rw_expires :: "int option"     \<comment> \<open>epoch seconds\<close>
  rw_bytes :: "nat option"       \<comment> \<open>the stamp of shared-scope rows\<close>

record 'v entry =
  en_tenant :: string
  en_scope :: string
  en_key :: string
  en_value :: 'v
  en_updated_at :: int
  en_updated_by :: string

text \<open>The store with its configuration: the backend, whether \<^verbatim>\<open>FS_BUCKET\<close> is set, the JSON size
  of a value and the JSON value \<^verbatim>\<open>null\<close>.\<close>

record 'v db =
  db_backend :: backend
  db_bucket :: bool
  db_size :: "'v \<Rightarrow> nat"
  db_null :: 'v
  db_rows :: "(addr \<times> 'v row) list"
  db_blobs :: "(string \<times> 'v) list"

definition SPILL_THRESHOLD_BYTES :: nat where
  "SPILL_THRESHOLD_BYTES = 350 * 1024"

definition row_live :: "int \<Rightarrow> 'v row \<Rightarrow> bool" where
  "row_live now r = (case rw_expires r of None \<Rightarrow> True | Some e \<Rightarrow> now div 1000 \<le> e)"

fun mk_entry :: "addr \<Rightarrow> 'v \<Rightarrow> int \<Rightarrow> string \<Rightarrow> 'v entry" where
  "mk_entry (t, s, k) v at_ms u =
     \<lparr>en_tenant = t, en_scope = s, en_key = k, en_value = v,
      en_updated_at = at_ms, en_updated_by = u\<rparr>"

section \<open>The LIKE operator\<close>

text \<open>
  \<^verbatim>\<open>text LIKE pattern ESCAPE e\<close>: \<^verbatim>\<open>%\<close> stands for any run of characters, \<^verbatim>\<open>_\<close> for one character, and
  the character after the escape stands for itself. SQLite compares ASCII letters without
  regard to case, PostgreSQL (DSQL) exactly.
\<close>

definition lower_char :: "char \<Rightarrow> char" where
  "lower_char c = (let n = of_char c :: nat in if 65 \<le> n \<and> n \<le> 90 then char_of (n + 32) else c)"

definition like_eq :: "bool \<Rightarrow> char \<Rightarrow> char \<Rightarrow> bool" where
  "like_eq ci a b \<longleftrightarrow> (if ci then lower_char a = lower_char b else a = b)"

fun like :: "bool \<Rightarrow> char \<Rightarrow> string \<Rightarrow> string \<Rightarrow> bool" where
  "like ci e [] t = (t = [])"
| "like ci e (p # ps) t =
     (if p = e then
        (case ps of
           [] \<Rightarrow> False
         | c # ps' \<Rightarrow> (case t of [] \<Rightarrow> False | x # xs \<Rightarrow> like_eq ci c x \<and> like ci e ps' xs))
      else if p = CHR ''%'' then
        like ci e ps t \<or> (case t of [] \<Rightarrow> False | x # xs \<Rightarrow> like ci e (p # ps) xs)
      else (case t of
           [] \<Rightarrow> False
         | x # xs \<Rightarrow> (p = CHR ''_'' \<or> like_eq ci p x) \<and> like ci e ps xs))"

declare like.simps [simp del]

abbreviation backslash :: char where
  "backslash \<equiv> CHR 0x5C"

text \<open>\<^verbatim>\<open>prefix.replace(/[chars]/g, c => escape + c)\<close>.\<close>

fun escape_like :: "char set \<Rightarrow> string \<Rightarrow> string" where
  "escape_like cs [] = []"
| "escape_like cs (c # s) = (if c \<in> cs then backslash # c # escape_like cs s else c # escape_like cs s)"

definition sqlite_prefix_pattern :: "string \<Rightarrow> string" where
  "sqlite_prefix_pattern p = escape_like {CHR ''%'', CHR ''_''} p @ ''%''"

definition dsql_prefix_pattern :: "string \<Rightarrow> string" where
  "dsql_prefix_pattern p = escape_like {CHR ''%'', CHR ''_'', backslash} p @ ''%''"

lemma like_percent: "like ci backslash ''%'' t"
  by (induction t) (simp_all add: like.simps)

lemma like_dsql_prefix:
  "like False backslash (dsql_prefix_pattern p) t \<longleftrightarrow> starts_with t p"
proof (induction p arbitrary: t)
  case Nil
  then show ?case by (simp add: dsql_prefix_pattern_def like_percent)
next
  case (Cons c p)
  then show ?case
    by (cases t) (auto simp: dsql_prefix_pattern_def like.simps(2) like_eq_def)
qed

lemma like_sqlite_prefix:
  "backslash \<notin> set p \<Longrightarrow> like True backslash (sqlite_prefix_pattern p) t
     \<longleftrightarrow> starts_with (map lower_char t) (map lower_char p)"
proof (induction p arbitrary: t)
  case Nil
  then show ?case by (simp add: sqlite_prefix_pattern_def like_percent)
next
  case (Cons c p)
  then show ?case
    by (cases t) (auto simp: sqlite_prefix_pattern_def like.simps(2) like_eq_def)
qed

section \<open>Shared scopes and their metering\<close>

text \<open>\<^verbatim>\<open>/^app#[^#]+#shared#([^#]+)$/\<close>: four fields between hash signs, none empty.\<close>

definition shared_scope_instance_id :: "string \<Rightarrow> string option" where
  "shared_scope_instance_id scope =
     (case split_on CHR ''#'' scope of
        [a, n, s, i] \<Rightarrow>
          if a = ''app'' \<and> n \<noteq> [] \<and> s = ''shared'' \<and> i \<noteq> [] then Some i else None
      | _ \<Rightarrow> None)"

text \<open>\<^verbatim>\<open>reserveInstanceBytes(tenant, instanceId, delta)\<close> of the instances component, over its state.\<close>

type_synonym 'm reserve = "string \<Rightarrow> string \<Rightarrow> int \<Rightarrow> ('m, unit) prog"

definition meter_shared_scope_delta :: "'m reserve \<Rightarrow> string \<Rightarrow> string \<Rightarrow> int \<Rightarrow> ('m, unit) prog" where
  "meter_shared_scope_delta reserve tenant scope delta =
     (case shared_scope_instance_id scope of
        None \<Rightarrow> ret ()
      | Some i \<Rightarrow>
          if delta = 0 then ret ()
          else catchM (reserve tenant i delta)
                 (\<lambda>e. if err_status e = Some 413 then throw e else ret ()))"

definition read_bytes :: "'v db \<Rightarrow> addr \<Rightarrow> nat" where
  "read_bytes db a =
     (case map_of (db_rows db) a of
        None \<Rightarrow> 0
      | Some r \<Rightarrow> (case rw_bytes r of None \<Rightarrow> 0 | Some n \<Rightarrow> n))"

definition meter_set :: "'m reserve \<Rightarrow> addr \<Rightarrow> 'v \<Rightarrow> 'v db \<Rightarrow> ('m, unit) prog" where
  "meter_set reserve a v db m =
     (case a of (t, s, k) \<Rightarrow>
        if shared_scope_instance_id s \<noteq> None
        then meter_shared_scope_delta reserve t s (int (db_size db v) - int (read_bytes db a)) m
        else (Inr (), m))"

section \<open>The SQLite backend\<close>

definition sqlite_open :: "int \<Rightarrow> 'v db \<Rightarrow> 'v db" where
  "sqlite_open now db =
     db\<lparr>db_rows := filter (\<lambda>(a, r). row_live now r) (db_rows db)\<rparr>"

definition sqlite_get :: "int \<Rightarrow> 'v db \<Rightarrow> addr \<Rightarrow> svc_error + 'v entry option" where
  "sqlite_get now db a =
     (case map_of (db_rows db) a of
        None \<Rightarrow> Inr None
      | Some r \<Rightarrow>
          if row_live now r
          then Inr (Some (mk_entry a (case rw_value r of None \<Rightarrow> db_null db | Some v \<Rightarrow> v)
                            (rw_updated_at r) (rw_updated_by r)))
          else Inr None)"

definition sqlite_set ::
  "'m reserve \<Rightarrow> int \<Rightarrow> addr \<Rightarrow> 'v \<Rightarrow> string \<Rightarrow> int option \<Rightarrow> ('v db \<times> 'm, 'v entry) prog" where
  "sqlite_set reserve now a v u ex st =
     (case st of (db, m) \<Rightarrow>
        case meter_set reserve a v db m of
          (Inl e, m') \<Rightarrow> (Inl e, (db, m'))
        | (Inr _, m') \<Rightarrow>
            (Inr (mk_entry a v now u),
             (db\<lparr>db_rows := AList.update a
                  \<lparr>rw_value = Some v, rw_spilled = False, rw_updated_at = now, rw_updated_by = u,
                   rw_expires = ex,
                   rw_bytes = (if shared_scope_instance_id (fst (snd a)) \<noteq> None
                               then Some (db_size db v) else None)\<rparr>
                  (db_rows db)\<rparr>, m')))"

definition sqlite_delete :: "'m reserve \<Rightarrow> addr \<Rightarrow> ('v db \<times> 'm, bool) prog" where
  "sqlite_delete reserve a st =
     (case st of (db, m) \<Rightarrow>
        let old = (if shared_scope_instance_id (fst (snd a)) = None then 0 else read_bytes db a);
            found = map_of (db_rows db) a \<noteq> None;
            db' = db\<lparr>db_rows := AList.delete a (db_rows db)\<rparr>
        in if found \<and> old \<noteq> 0
           then (case meter_shared_scope_delta reserve (fst a) (fst (snd a)) (- int old) m of
                   (Inl e, m') \<Rightarrow> (Inl e, (db', m'))
                 | (Inr _, m') \<Rightarrow> (Inr found, (db', m')))
           else (Inr found, (db', m)))"

definition sqlite_list :: "int \<Rightarrow> 'v db \<Rightarrow> string \<Rightarrow> string \<Rightarrow> string \<Rightarrow> string list" where
  "sqlite_list now db tenant scope pre =
     sort (map (\<lambda>((t, s, k), r). k)
       (filter (\<lambda>((t, s, k), r). t = tenant \<and> s = scope
            \<and> like True backslash (sqlite_prefix_pattern pre) k \<and> row_live now r) (db_rows db)))"

definition sqlite_list_scopes :: "'v db \<Rightarrow> string \<Rightarrow> string \<Rightarrow> string list" where
  "sqlite_list_scopes db tenant pre =
     sort (remdups (map (\<lambda>((t, s, k), r). s)
       (filter (\<lambda>((t, s, k), r). t = tenant
            \<and> like True backslash (sqlite_prefix_pattern pre) s) (db_rows db))))"

section \<open>The DSQL backend\<close>

fun blob_key :: "addr \<Rightarrow> string" where
  "blob_key (t, s, k) = ''records/'' @ t @ ''/'' @ s @ ''/'' @ k"

definition require_bucket :: "'v db \<Rightarrow> svc_error + unit" where
  "require_bucket db =
     (if db_bucket db then Inr ()
      else Inl (PlainError ''FS_BUCKET must be set for the record store to spill large values (records.ts)''))"

definition dsql_get :: "int \<Rightarrow> 'v db \<Rightarrow> addr \<Rightarrow> svc_error + 'v entry option" where
  "dsql_get now db a =
     (case map_of (db_rows db) a of
        None \<Rightarrow> Inr None
      | Some r \<Rightarrow>
          if \<not> row_live now r then Inr None
          else if rw_spilled r then
            (case require_bucket db of
               Inl e \<Rightarrow> Inl e
             | Inr _ \<Rightarrow>
                 (case map_of (db_blobs db) (blob_key a) of
                    None \<Rightarrow> Inl (PlainError ''NoSuchKey'')
                  | Some v \<Rightarrow> Inr (Some (mk_entry a v (rw_updated_at r) (rw_updated_by r)))))
          else Inr (Some (mk_entry a (case rw_value r of None \<Rightarrow> db_null db | Some v \<Rightarrow> v)
                            (rw_updated_at r) (rw_updated_by r))))"

text \<open>\<^verbatim>\<open>options?.expiresAtEpochSeconds ? Math.floor(...) : null\<close>: zero counts as absent.\<close>

definition dsql_expiry :: "int option \<Rightarrow> int option" where
  "dsql_expiry ex = (case ex of None \<Rightarrow> None | Some e \<Rightarrow> if e = 0 then None else Some e)"

definition dsql_set ::
  "'m reserve \<Rightarrow> int \<Rightarrow> addr \<Rightarrow> 'v \<Rightarrow> string \<Rightarrow> int option \<Rightarrow> ('v db \<times> 'm, 'v entry) prog" where
  "dsql_set reserve now a v u ex st =
     (case st of (db, m) \<Rightarrow>
        case meter_set reserve a v db m of
          (Inl e, m') \<Rightarrow> (Inl e, (db, m'))
        | (Inr _, m') \<Rightarrow>
            let spill = db_size db v > SPILL_THRESHOLD_BYTES in
            (case (if spill then require_bucket db else Inr ()) of
               Inl e \<Rightarrow> (Inl e, (db, m'))
             | Inr _ \<Rightarrow>
                 let db1 = (if spill
                            then db\<lparr>db_blobs := AList.update (blob_key a) v (db_blobs db)\<rparr>
                            else db);
                     db2 = db1\<lparr>db_rows := AList.update a
                       \<lparr>rw_value = (if spill then None else Some v), rw_spilled = spill,
                        rw_updated_at = now, rw_updated_by = u, rw_expires = dsql_expiry ex,
                        rw_bytes = (if shared_scope_instance_id (fst (snd a)) \<noteq> None
                                    then Some (db_size db v) else None)\<rparr>
                       (db_rows db1)\<rparr>;
                     db3 = (if \<not> spill \<and> db_bucket db
                            then db2\<lparr>db_blobs := AList.delete (blob_key a) (db_blobs db2)\<rparr>
                            else db2)
                 in (Inr (mk_entry a v now u), (db3, m'))))"

definition dsql_delete :: "'m reserve \<Rightarrow> addr \<Rightarrow> ('v db \<times> 'm, bool) prog" where
  "dsql_delete reserve a st =
     (case st of (db, m) \<Rightarrow>
        case map_of (db_rows db) a of
          None \<Rightarrow> (Inr False, (db, m))
        | Some r \<Rightarrow>
            let db1 = db\<lparr>db_rows := AList.delete a (db_rows db)\<rparr>;
                db2 = (if rw_spilled r \<and> db_bucket db
                       then db1\<lparr>db_blobs := AList.delete (blob_key a) (db_blobs db1)\<rparr> else db1);
                old = (case rw_bytes r of None \<Rightarrow> 0 | Some n \<Rightarrow> n)
            in if old \<noteq> 0
               then (case meter_shared_scope_delta reserve (fst a) (fst (snd a)) (- int old) m of
                       (Inl e, m') \<Rightarrow> (Inl e, (db2, m'))
                     | (Inr _, m') \<Rightarrow> (Inr True, (db2, m')))
               else (Inr True, (db2, m)))"

definition dsql_list :: "int \<Rightarrow> 'v db \<Rightarrow> string \<Rightarrow> string \<Rightarrow> string \<Rightarrow> string list" where
  "dsql_list now db tenant scope pre =
     sort (map (\<lambda>((t, s, k), r). k)
       (filter (\<lambda>((t, s, k), r). t = tenant \<and> s = scope
            \<and> (pre = [] \<or> like False backslash (dsql_prefix_pattern pre) k)
            \<and> row_live now r) (db_rows db)))"

definition dsql_list_scopes :: "'v db \<Rightarrow> string \<Rightarrow> string \<Rightarrow> string list" where
  "dsql_list_scopes db tenant pre =
     sort (remdups (map (\<lambda>((t, s, k), r). s)
       (filter (\<lambda>((t, s, k), r). t = tenant
            \<and> like False backslash (dsql_prefix_pattern pre) s) (db_rows db))))"

definition dsql_sweep_expired :: "int \<Rightarrow> 'v db \<Rightarrow> nat \<times> 'v db" where
  "dsql_sweep_expired now db =
     (length (filter (\<lambda>(a, r). \<not> row_live now r) (db_rows db)),
      db\<lparr>db_rows := filter (\<lambda>(a, r). row_live now r) (db_rows db)\<rparr>)"

section \<open>The store selected by the configuration\<close>

text \<open>\<^verbatim>\<open>getRecordStore()\<close> picks the backend; these are the operations of what it returns.\<close>

definition rs_get :: "int \<Rightarrow> 'v db \<Rightarrow> addr \<Rightarrow> svc_error + 'v entry option" where
  "rs_get now db a = (case db_backend db of Sqlite \<Rightarrow> sqlite_get now db a | Dsql \<Rightarrow> dsql_get now db a)"

definition rs_set ::
  "'m reserve \<Rightarrow> int \<Rightarrow> addr \<Rightarrow> 'v \<Rightarrow> string \<Rightarrow> int option \<Rightarrow> ('v db \<times> 'm, 'v entry) prog" where
  "rs_set reserve now a v u ex st =
     (case db_backend (fst st) of
        Sqlite \<Rightarrow> sqlite_set reserve now a v u ex st
      | Dsql \<Rightarrow> dsql_set reserve now a v u ex st)"

definition rs_delete :: "'m reserve \<Rightarrow> addr \<Rightarrow> ('v db \<times> 'm, bool) prog" where
  "rs_delete reserve a st =
     (case db_backend (fst st) of
        Sqlite \<Rightarrow> sqlite_delete reserve a st
      | Dsql \<Rightarrow> dsql_delete reserve a st)"

definition rs_list :: "int \<Rightarrow> 'v db \<Rightarrow> string \<Rightarrow> string \<Rightarrow> string \<Rightarrow> string list" where
  "rs_list now db tenant scope pre =
     (case db_backend db of
        Sqlite \<Rightarrow> sqlite_list now db tenant scope pre
      | Dsql \<Rightarrow> dsql_list now db tenant scope pre)"

end
