(* ===== verification/Record_Laws.thy ===== *)
theory Record_Laws
  imports Records
begin

text \<open>
  What both backends of the record store promise. The contract is a map from addresses to
  timestamped values with an expiry; \<^verbatim>\<open>abs_db\<close> reads it off a store, whose rows must satisfy
  \<^verbatim>\<open>db_inv\<close> (a spilled row has its blob). The locale \<^verbatim>\<open>record_store\<close> states the laws the other
  components rely on, and is interpreted for the store the configuration selects.
\<close>

section \<open>The abstract store\<close>

record 'v cell =
  ce_value :: 'v
  ce_updated_at :: int
  ce_updated_by :: string
  ce_expires :: "int option"

type_synonym 'v spec = "addr \<Rightarrow> 'v cell option"

definition cell_live :: "int \<Rightarrow> 'v cell \<Rightarrow> bool" where
  "cell_live now c = (case ce_expires c of None \<Rightarrow> True | Some e \<Rightarrow> now div 1000 \<le> e)"

definition spec_get :: "int \<Rightarrow> 'v spec \<Rightarrow> addr \<Rightarrow> 'v entry option" where
  "spec_get now f a =
     (case f a of
        None \<Rightarrow> None
      | Some c \<Rightarrow> if cell_live now c
          then Some (mk_entry a (ce_value c) (ce_updated_at c) (ce_updated_by c)) else None)"

definition spec_set :: "int \<Rightarrow> addr \<Rightarrow> 'v \<Rightarrow> string \<Rightarrow> int option \<Rightarrow> 'v spec \<Rightarrow> 'v spec" where
  "spec_set now a v u ex f =
     f(a \<mapsto> \<lparr>ce_value = v, ce_updated_at = now, ce_updated_by = u, ce_expires = ex\<rparr>)"

definition spec_delete :: "addr \<Rightarrow> 'v spec \<Rightarrow> 'v spec" where
  "spec_delete a f = f(a := None)"

section \<open>Well-formed stores\<close>

text \<open>Blob keys join tenant, scope and key with slashes; they are unambiguous when tenant and
  scope have none. Only the DSQL backend writes blobs.\<close>

definition slash_free :: "addr \<Rightarrow> bool" where
  "slash_free a \<longleftrightarrow> CHR ''/'' \<notin> set (fst a) \<and> CHR ''/'' \<notin> set (fst (snd a))"

definition addr_ok :: "'v db \<Rightarrow> addr \<Rightarrow> bool" where
  "addr_ok db a \<longleftrightarrow> db_backend db = Sqlite \<or> slash_free a"

definition row_ok :: "'v db \<Rightarrow> addr \<Rightarrow> 'v row \<Rightarrow> bool" where
  "row_ok db a r \<longleftrightarrow>
     addr_ok db a \<and>
     (if rw_spilled r
      then db_backend db = Dsql \<and> db_bucket db \<and> map_of (db_blobs db) (blob_key a) \<noteq> None
      else rw_value r \<noteq> None)"

definition db_inv :: "'v db \<Rightarrow> bool" where
  "db_inv db \<longleftrightarrow> wf_map (db_rows db) \<and>
     (\<forall>a r. map_of (db_rows db) a = Some r \<longrightarrow> row_ok db a r)"

lemma db_invD: "db_inv db \<Longrightarrow> map_of (db_rows db) a = Some r \<Longrightarrow> row_ok db a r"
  unfolding db_inv_def by blast

lemma db_inv_wf: "db_inv db \<Longrightarrow> wf_map (db_rows db)"
  unfolding db_inv_def by blast

lemma db_invI:
  "wf_map (db_rows db) \<Longrightarrow> (\<And>a r. map_of (db_rows db) a = Some r \<Longrightarrow> row_ok db a r) \<Longrightarrow> db_inv db"
  unfolding db_inv_def by blast

text \<open>A value the store can hold: a large one needs the bucket on DSQL.\<close>

definition storable :: "'v db \<Rightarrow> 'v \<Rightarrow> bool" where
  "storable db v \<longleftrightarrow> db_backend db = Sqlite \<or> db_bucket db \<or> db_size db v \<le> SPILL_THRESHOLD_BYTES"

text \<open>The expiry a backend stores for the option it is given.\<close>

definition norm_expiry :: "'v db \<Rightarrow> int option \<Rightarrow> int option" where
  "norm_expiry db ex = (case db_backend db of Sqlite \<Rightarrow> ex | Dsql \<Rightarrow> dsql_expiry ex)"

definition row_content :: "'v db \<Rightarrow> addr \<Rightarrow> 'v row \<Rightarrow> 'v" where
  "row_content db a r =
     (if rw_spilled r
      then (case map_of (db_blobs db) (blob_key a) of None \<Rightarrow> db_null db | Some v \<Rightarrow> v)
      else (case rw_value r of None \<Rightarrow> db_null db | Some v \<Rightarrow> v))"

definition abs_db :: "'v db \<Rightarrow> 'v spec" where
  "abs_db db a =
     (case map_of (db_rows db) a of
        None \<Rightarrow> None
      | Some r \<Rightarrow> Some \<lparr>ce_value = row_content db a r, ce_updated_at = rw_updated_at r,
                      ce_updated_by = rw_updated_by r, ce_expires = rw_expires r\<rparr>)"

lemma blob_key_inj:
  assumes "slash_free a" and "slash_free b" and "blob_key a = blob_key b"
  shows "a = b"
proof -
  obtain t s k where a: "a = (t, s, k)" by (cases a)
  obtain t' s' k' where b: "b = (t', s', k')" by (cases b)
  from assms(3) have e: "t @ CHR ''/'' # s @ CHR ''/'' # k = t' @ CHR ''/'' # s' @ CHR ''/'' # k'"
    by (simp add: a b)
  from assms(1,2) have "CHR ''/'' \<notin> set t" "CHR ''/'' \<notin> set t'"
    "CHR ''/'' \<notin> set s" "CHR ''/'' \<notin> set s'"
    by (simp_all add: slash_free_def a b)
  with e show ?thesis unfolding a b by (simp add: append_sep_eq)
qed

text \<open>With a slash in the scope two addresses share one blob.\<close>

lemma blob_key_collision:
  "blob_key (''t'', ''a'', ''b/c'') = blob_key (''t'', ''a/b'', ''c'')"
  by simp

section \<open>The backends refine the abstract store\<close>

lemma meter_set_unshared:
  "shared_scope_instance_id (fst (snd a)) = None \<Longrightarrow> meter_set reserve a v db m = (Inr (), m)"
  by (cases a) (simp add: meter_set_def)

lemma row_live_cell: "row_live now r = cell_live now
    \<lparr>ce_value = v, ce_updated_at = rw_updated_at r, ce_updated_by = rw_updated_by r,
     ce_expires = rw_expires r\<rparr>"
  by (simp add: row_live_def cell_live_def)

lemma rs_get_abs:
  assumes "db_inv db"
  shows "rs_get now db a = Inr (spec_get now (abs_db db) a)"
proof (cases "map_of (db_rows db) a")
  case None
  then show ?thesis
    by (simp add: rs_get_def sqlite_get_def dsql_get_def spec_get_def abs_db_def split: backend.split)
next
  case (Some r)
  with assms have "row_ok db a r" by (rule db_invD)
  with Some show ?thesis
    by (auto simp: rs_get_def sqlite_get_def dsql_get_def spec_get_def abs_db_def row_ok_def
        row_content_def require_bucket_def row_live_cell [symmetric]
        split: backend.split option.splits if_splits)
qed

lemma rs_set_result:
  assumes "rs_set reserve now a v u ex (db, m) = (Inr e, (db', m'))"
  shows "e = mk_entry a v now u" "meter_set reserve a v db m = (Inr (), m')"
  using assms
  by (auto simp: rs_set_def sqlite_set_def dsql_set_def Let_def
      split: backend.splits sum.splits prod.splits if_splits)

text \<open>The row and the blobs a successful \<^verbatim>\<open>set\<close> leaves, read off the two definitions.\<close>

definition new_spill :: "'v db \<Rightarrow> 'v \<Rightarrow> bool" where
  "new_spill db v \<longleftrightarrow> db_backend db = Dsql \<and> db_size db v > SPILL_THRESHOLD_BYTES"

definition new_row :: "'v db \<Rightarrow> int \<Rightarrow> addr \<Rightarrow> 'v \<Rightarrow> string \<Rightarrow> int option \<Rightarrow> 'v row" where
  "new_row db now a v u ex =
     \<lparr>rw_value = (if new_spill db v then None else Some v), rw_spilled = new_spill db v,
      rw_updated_at = now, rw_updated_by = u, rw_expires = norm_expiry db ex,
      rw_bytes = (if shared_scope_instance_id (fst (snd a)) \<noteq> None
                  then Some (db_size db v) else None)\<rparr>"

definition new_blobs :: "'v db \<Rightarrow> addr \<Rightarrow> 'v \<Rightarrow> (string \<times> 'v) list" where
  "new_blobs db a v =
     (if new_spill db v then AList.update (blob_key a) v (db_blobs db)
      else if db_backend db = Dsql \<and> db_bucket db then AList.delete (blob_key a) (db_blobs db)
      else db_blobs db)"

lemma rs_set_effect:
  assumes "rs_set reserve now a v u ex (db, m) = (Inr e, (db', m'))"
  shows "db' = db\<lparr>db_rows := AList.update a (new_row db now a v u ex) (db_rows db),
                db_blobs := new_blobs db a v\<rparr>"
    and "new_spill db v \<longrightarrow> db_bucket db"
proof -
  consider (lite) "db_backend db = Sqlite" | (spill) "db_backend db = Dsql" "new_spill db v"
    | (inline) "db_backend db = Dsql" "\<not> new_spill db v"
    by (cases "db_backend db") auto
  then have "db' = db\<lparr>db_rows := AList.update a (new_row db now a v u ex) (db_rows db),
                db_blobs := new_blobs db a v\<rparr> \<and> (new_spill db v \<longrightarrow> db_bucket db)"
  proof cases
    case lite
    with assms show ?thesis
      by (auto simp: rs_set_def sqlite_set_def new_row_def new_blobs_def new_spill_def
          norm_expiry_def split: sum.splits prod.splits)
  next
    case spill
    with assms show ?thesis
      by (auto simp: rs_set_def dsql_set_def new_row_def new_blobs_def new_spill_def
          norm_expiry_def require_bucket_def Let_def split: sum.splits prod.splits if_splits)
  next
    case inline
    with assms show ?thesis
      by (cases "db_bucket db")
        (auto simp: rs_set_def dsql_set_def new_row_def new_blobs_def new_spill_def
          norm_expiry_def Let_def split: sum.splits prod.splits)
  qed
  then show "db' = db\<lparr>db_rows := AList.update a (new_row db now a v u ex) (db_rows db),
                db_blobs := new_blobs db a v\<rparr>"
    and "new_spill db v \<longrightarrow> db_bucket db" by blast+
qed

lemma new_blobs_other: "k \<noteq> blob_key a \<Longrightarrow> map_of (new_blobs db a v) k = map_of (db_blobs db) k"
  by (simp add: new_blobs_def)

lemma new_blobs_sqlite: "db_backend db = Sqlite \<Longrightarrow> new_blobs db a v = db_blobs db"
  by (simp add: new_blobs_def new_spill_def)

lemma blob_key_other:
  assumes "db_inv db" and "addr_ok db a" and "db_backend db = Dsql"
    and "b \<noteq> a" and "map_of (db_rows db) b = Some r"
  shows "blob_key b \<noteq> blob_key a"
proof -
  from assms(1,5) have "row_ok db b r" by (rule db_invD)
  with assms(3) have "slash_free b" by (simp add: row_ok_def addr_ok_def)
  moreover from assms(2,3) have "slash_free a" by (simp add: addr_ok_def)
  ultimately show ?thesis using assms(4) blob_key_inj by blast
qed

lemma new_blobs_row:
  assumes "db_inv db" and "addr_ok db a" and "b \<noteq> a" and "map_of (db_rows db) b = Some r"
  shows "map_of (new_blobs db a v) (blob_key b) = map_of (db_blobs db) (blob_key b)"
  using assms blob_key_other [of db a b r]
  by (cases "db_backend db") (simp_all add: new_blobs_other new_blobs_sqlite)

lemma rs_set_abs:
  assumes inv: "db_inv db" and ok: "addr_ok db a"
    and set: "rs_set reserve now a v u ex (db, m) = (Inr e, (db', m'))"
  shows "abs_db db' = spec_set now a v u (norm_expiry db ex) (abs_db db)"
proof
  fix b
  note eff = rs_set_effect [OF set]
  show "abs_db db' b = spec_set now a v u (norm_expiry db ex) (abs_db db) b"
  proof (cases "b = a")
    case True
    then show ?thesis
      by (simp add: eff(1) abs_db_def spec_set_def row_content_def new_row_def new_blobs_def)
  next
    case False
    then show ?thesis
      using new_blobs_row [OF inv ok False]
      by (simp add: eff(1) abs_db_def spec_set_def row_content_def split: option.split)
  qed
qed

lemma addr_ok_update [simp]:
  "addr_ok (db\<lparr>db_rows := rs, db_blobs := bs\<rparr>) a = addr_ok db a"
  "addr_ok (db\<lparr>db_rows := rs\<rparr>) a = addr_ok db a"
  by (simp_all add: addr_ok_def)

lemma rs_set_inv:
  assumes inv: "db_inv db" and ok: "addr_ok db a"
    and set: "rs_set reserve now a v u ex (db, m) = (Inr e, (db', m'))"
  shows "db_inv db'"
proof (rule db_invI)
  note eff = rs_set_effect [OF set]
  show "wf_map (db_rows db')" using db_inv_wf [OF inv] by (simp add: eff(1))
  fix b r assume br: "map_of (db_rows db') b = Some r"
  show "row_ok db' b r"
  proof (cases "b = a")
    case True
    with br eff(2) ok show ?thesis
      by (auto simp: eff(1) row_ok_def new_row_def new_spill_def new_blobs_def)
  next
    case False
    with br have r: "map_of (db_rows db) b = Some r" by (simp add: eff(1))
    with db_invD [OF inv r] new_blobs_row [OF inv ok False r] show ?thesis
      by (simp add: eff(1) row_ok_def)
  qed
qed

lemma rs_set_fail:
  "rs_set reserve now a v u ex (db, m) = (Inl e, (db', m')) \<Longrightarrow> db' = db"
  by (auto simp: rs_set_def sqlite_set_def dsql_set_def Let_def
      split: backend.splits sum.splits prod.splits if_splits)

lemma rs_set_total:
  assumes "storable db v" and "meter_set reserve a v db m = (Inr (), m1)"
  shows "\<exists>db'. rs_set reserve now a v u ex (db, m) = (Inr (mk_entry a v now u), (db', m1))"
  using assms
  by (auto simp: rs_set_def sqlite_set_def dsql_set_def storable_def require_bucket_def Let_def
      split: backend.splits)

section \<open>Deletion\<close>

definition del_blobs :: "'v db \<Rightarrow> addr \<Rightarrow> (string \<times> 'v) list" where
  "del_blobs db a =
     (case map_of (db_rows db) a of
        None \<Rightarrow> db_blobs db
      | Some r \<Rightarrow> if db_backend db = Dsql \<and> rw_spilled r \<and> db_bucket db
                  then AList.delete (blob_key a) (db_blobs db) else db_blobs db)"

lemma delete_absent: "map_of m k = None \<Longrightarrow> AList.delete k m = m"
  by (simp add: AList.delete_id map_of_eq_None_iff)

lemma rs_delete_effect:
  assumes "rs_delete reserve a (db, m) = (res, (db', m'))"
  shows "db' = db\<lparr>db_rows := AList.delete a (db_rows db), db_blobs := del_blobs db a\<rparr>"
    and "res = Inr b \<Longrightarrow> b \<longleftrightarrow> map_of (db_rows db) a \<noteq> None"
  using assms
  by (cases "db_backend db"; cases "map_of (db_rows db) a";
      auto simp: rs_delete_def sqlite_delete_def dsql_delete_def del_blobs_def Let_def delete_absent
      split: sum.splits prod.splits if_splits)+

lemma del_blobs_row:
  assumes "db_inv db" and "addr_ok db a" and "b \<noteq> a" and "map_of (db_rows db) b = Some r"
  shows "map_of (del_blobs db a) (blob_key b) = map_of (db_blobs db) (blob_key b)"
  using assms blob_key_other [of db a b r]
  by (cases "map_of (db_rows db) a") (auto simp: del_blobs_def)

lemma rs_delete_abs:
  assumes inv: "db_inv db" and ok: "addr_ok db a"
    and del: "rs_delete reserve a (db, m) = (res, (db', m'))"
  shows "abs_db db' = spec_delete a (abs_db db)"
proof
  fix b
  note eff = rs_delete_effect(1) [OF del]
  show "abs_db db' b = spec_delete a (abs_db db) b"
    using del_blobs_row [OF inv ok, of b]
    by (cases "b = a")
      (simp_all add: eff abs_db_def spec_delete_def row_content_def split: option.split)
qed

lemma rs_delete_inv:
  assumes inv: "db_inv db" and ok: "addr_ok db a"
    and del: "rs_delete reserve a (db, m) = (res, (db', m'))"
  shows "db_inv db'"
proof (rule db_invI)
  note eff = rs_delete_effect(1) [OF del]
  show "wf_map (db_rows db')" using db_inv_wf [OF inv] by (simp add: eff)
  fix b r assume br: "map_of (db_rows db') b = Some r"
  then have ba: "b \<noteq> a" and r: "map_of (db_rows db) b = Some r"
    by (auto simp: eff split: if_splits)
  from db_invD [OF inv r] del_blobs_row [OF inv ok ba r] show "row_ok db' b r"
    by (simp add: eff row_ok_def)
qed

section \<open>Listing\<close>

definition spec_keys :: "int \<Rightarrow> 'v spec \<Rightarrow> string \<Rightarrow> string \<Rightarrow> string \<Rightarrow> string set" where
  "spec_keys now f tenant scope pre =
     {k. starts_with k pre \<and> spec_get now f (tenant, scope, k) \<noteq> None}"

lemma spec_get_live:
  "spec_get now (abs_db db) a \<noteq> None \<longleftrightarrow> (\<exists>r. map_of (db_rows db) a = Some r \<and> row_live now r)"
  by (auto simp: spec_get_def abs_db_def row_live_cell [symmetric] split: option.split)

text \<open>Both scans are the sorted keys of the live rows of one scope whose key passes a test.\<close>

definition scan_keys :: "(string \<Rightarrow> bool) \<Rightarrow> int \<Rightarrow> 'v db \<Rightarrow> string \<Rightarrow> string \<Rightarrow> string list" where
  "scan_keys P now db tenant scope =
     sort (map (\<lambda>((t, s, k), r). k)
       (filter (\<lambda>((t, s, k), r). t = tenant \<and> s = scope \<and> P k \<and> row_live now r) (db_rows db)))"

lemma dsql_list_scan: "dsql_list now db t s pre = scan_keys (\<lambda>k. starts_with k pre) now db t s"
  unfolding dsql_list_def scan_keys_def
  by (rule arg_cong [where f = sort], rule arg_cong [where f = "map _"], rule filter_cong)
    (auto simp: like_dsql_prefix)

lemma sqlite_list_scan:
  "sqlite_list now db t s pre =
     scan_keys (\<lambda>k. like True backslash (sqlite_prefix_pattern pre) k) now db t s"
  by (simp add: sqlite_list_def scan_keys_def)

lemma scan_keys_mem:
  assumes "wf_map (db_rows db)"
  shows "k \<in> set (scan_keys P now db t s) \<longleftrightarrow>
     P k \<and> (\<exists>r. map_of (db_rows db) (t, s, k) = Some r \<and> row_live now r)"
  using assms by (force simp: scan_keys_def wf_map_def)

lemma scan_keys_distinct:
  assumes "wf_map (db_rows db)"
  shows "distinct (scan_keys P now db t s)"
proof -
  let ?Q = "\<lambda>((t', s', k), r). t' = t \<and> s' = s \<and> P k \<and> row_live now r"
  have "inj_on (\<lambda>((t, s, k), r). k) (set (filter ?Q (db_rows db)))"
    using assms by (auto simp: inj_on_def wf_map_def eq_key_imp_eq_value)
  moreover have "distinct (filter ?Q (db_rows db))"
    using assms by (simp add: wf_map_def distinct_map)
  ultimately show ?thesis by (simp add: scan_keys_def distinct_map)
qed

lemma rs_list_scan:
  "rs_list now db t s pre = scan_keys (\<lambda>k. case db_backend db of
       Sqlite \<Rightarrow> like True backslash (sqlite_prefix_pattern pre) k
     | Dsql \<Rightarrow> starts_with k pre) now db t s"
  by (simp add: rs_list_def dsql_list_scan sqlite_list_scan split: backend.split)

lemma rs_list_all_mem:
  assumes "db_inv db"
  shows "k \<in> set (rs_list now db t s []) \<longleftrightarrow> spec_get now (abs_db db) (t, s, k) \<noteq> None"
  unfolding spec_get_live rs_list_scan scan_keys_mem [OF db_inv_wf [OF assms]]
  by (simp add: sqlite_prefix_pattern_def like_percent split: backend.split)

section \<open>The interface\<close>

text \<open>
  The store as the platform's own documents use it: a write outside every shared scope, where
  metering does nothing (\<^verbatim>\<open>meter_set_unshared\<close>).
\<close>

definition put_doc :: "int \<Rightarrow> addr \<Rightarrow> 'v \<Rightarrow> string \<Rightarrow> int option \<Rightarrow> ('v db, 'v entry) prog" where
  "put_doc now a v u ex db =
     (case rs_set (\<lambda>_ _ _. ret ()) now a v u ex (db, ()) of (r, (db', _)) \<Rightarrow> (r, db'))"

definition del_doc :: "addr \<Rightarrow> ('v db, bool) prog" where
  "del_doc a db = (case rs_delete (\<lambda>_ _ _. ret ()) a (db, ()) of (r, (db', _)) \<Rightarrow> (r, db'))"

definition list_docs :: "int \<Rightarrow> 'v db \<Rightarrow> string \<Rightarrow> string \<Rightarrow> string list" where
  "list_docs now db tenant scope = rs_list now db tenant scope []"

definition expiry_live :: "int \<Rightarrow> int option \<Rightarrow> bool" where
  "expiry_live now ex = (case ex of None \<Rightarrow> True | Some e \<Rightarrow> now div 1000 \<le> e)"

lemma expiry_live_None [simp]: "expiry_live now None"
  by (simp add: expiry_live_def)

locale record_store =
  fixes get :: "int \<Rightarrow> 'db \<Rightarrow> addr \<Rightarrow> svc_error + 'v entry option"
    and put :: "int \<Rightarrow> addr \<Rightarrow> 'v \<Rightarrow> string \<Rightarrow> int option \<Rightarrow> ('db, 'v entry) prog"
    and del :: "addr \<Rightarrow> ('db, bool) prog"
    and keys :: "int \<Rightarrow> 'db \<Rightarrow> string \<Rightarrow> string \<Rightarrow> string list"
    and inv :: "'db \<Rightarrow> bool"
    and ok :: "'db \<Rightarrow> addr \<Rightarrow> bool"
    and fits :: "'db \<Rightarrow> 'v \<Rightarrow> bool"
  assumes get_total: "inv db \<Longrightarrow> \<exists>found. get now db a = Inr found"
    and put_total: "fits db v \<Longrightarrow> \<exists>db'. put now a v u ex db = (Inr (mk_entry a v now u), db')"
    and put_fail: "put now a v u ex db = (Inl e, db') \<Longrightarrow> db' = db"
    and put_inv: "inv db \<Longrightarrow> ok db a \<Longrightarrow> put now a v u ex db = (Inr x, db') \<Longrightarrow> inv db'"
    and put_get: "inv db \<Longrightarrow> ok db a \<Longrightarrow> put now a v u ex db = (Inr x, db') \<Longrightarrow>
        expiry_live now' ex \<Longrightarrow> get now' db' a = Inr (Some (mk_entry a v now u))"
    and put_frame: "inv db \<Longrightarrow> ok db a \<Longrightarrow> put now a v u ex db = (Inr x, db') \<Longrightarrow>
        b \<noteq> a \<Longrightarrow> get now' db' b = get now' db b"
    and put_conf: "put now a v u ex db = (res, db') \<Longrightarrow> ok db' = ok db \<and> fits db' = fits db"
    and del_total: "\<exists>b db'. del a db = (Inr b, db')"
    and del_inv: "inv db \<Longrightarrow> ok db a \<Longrightarrow> del a db = (dres, db') \<Longrightarrow> inv db'"
    and del_get: "inv db \<Longrightarrow> ok db a \<Longrightarrow> del a db = (dres, db') \<Longrightarrow> get now' db' a = Inr None"
    and del_frame: "inv db \<Longrightarrow> ok db a \<Longrightarrow> del a db = (dres, db') \<Longrightarrow>
        b \<noteq> a \<Longrightarrow> get now' db' b = get now' db b"
    and del_conf: "del a db = (dres, db') \<Longrightarrow> ok db' = ok db \<and> fits db' = fits db"
    and keys_mem: "inv db \<Longrightarrow>
        k \<in> set (keys now db t s) \<longleftrightarrow> (\<exists>en. get now db (t, s, k) = Inr (Some en))"
    and keys_distinct: "inv db \<Longrightarrow> distinct (keys now db t s)"
begin

text \<open>Deleting every key of a scope, one at a time, as the callers of the store do.\<close>

fun del_keys :: "string \<Rightarrow> string \<Rightarrow> string list \<Rightarrow> 'db \<Rightarrow> 'db" where
  "del_keys t s [] db = db"
| "del_keys t s (k # ks) db = del_keys t s ks (snd (del (t, s, k) db))"

lemma del_step:
  assumes "inv db" and "ok db a"
  shows "inv (snd (del a db))" "ok (snd (del a db)) = ok db" "get now (snd (del a db)) a = Inr None"
    "b \<noteq> a \<Longrightarrow> get now (snd (del a db)) b = get now db b"
  using assms del_inv del_get del_frame del_conf
  by (metis prod.collapse)+

lemma del_keys_get:
  assumes "inv db" and "\<And>k. k \<in> set ks \<Longrightarrow> ok db (t, s, k)"
  shows "inv (del_keys t s ks db) \<and> get now (del_keys t s ks db) b =
     (if \<exists>k \<in> set ks. b = (t, s, k) then Inr None else get now db b)"
  using assms
proof (induction ks arbitrary: db)
  case (Cons k ks)
  have ok: "ok db (t, s, k)" using Cons.prems(2) by simp
  let ?db = "snd (del (t, s, k) db)"
  note step = del_step [OF Cons.prems(1) ok]
  have "\<And>k'. k' \<in> set ks \<Longrightarrow> ok ?db (t, s, k')"
    using Cons.prems(2) step(2) by simp
  from Cons.IH [OF step(1) this] show ?case
    using step(3) [of now] step(4) [of b now] by auto
qed simp

lemma del_all_empty:
  assumes "inv db" and "\<And>k. ok db (t, s, k)"
  shows "get now (del_keys t s (keys now db t s) db) (t, s, k) = Inr None"
proof (cases "k \<in> set (keys now db t s)")
  case True
  with del_keys_get [OF assms(1), of "keys now db t s" t s now "(t, s, k)"] assms(2)
  show ?thesis by auto
next
  case False
  then have "get now db (t, s, k) = Inr None"
    using keys_mem [OF assms(1)] get_total [OF assms(1), of now "(t, s, k)"]
    by (metis not_None_eq)
  with False del_keys_get [OF assms(1), of "keys now db t s" t s now "(t, s, k)"] assms(2)
  show ?thesis by auto
qed

end

lemma rs_delete_noop_total: "\<exists>b db'. rs_delete (\<lambda>_ _ _. ret ()) a (db, ()) = (Inr b, (db', ()))"
  by (cases "db_backend db"; cases "map_of (db_rows db) a")
    (auto simp: rs_delete_def sqlite_delete_def dsql_delete_def Let_def
      meter_shared_scope_delta_def catchM_run split: option.splits)

lemma meter_set_noop: "meter_set (\<lambda>_ _ _. ret ()) a v db m = (Inr (), m)"
  by (cases a) (auto simp: meter_set_def meter_shared_scope_delta_def catchM_run split: option.splits)

lemma put_doc_rs:
  assumes "put_doc now a v u ex db = (r, db')"
  shows "rs_set (\<lambda>_ _ _. ret ()) now a v u ex (db, ()) = (r, (db', ()))"
  using assms by (simp add: put_doc_def split: prod.splits)

lemma del_doc_rs:
  assumes "del_doc a db = (r, db')"
  shows "rs_delete (\<lambda>_ _ _. ret ()) a (db, ()) = (r, (db', ()))"
  using assms by (simp add: del_doc_def split: prod.splits)

lemma conf_update [simp]:
  "addr_ok (db\<lparr>db_rows := rs, db_blobs := bs\<rparr>) = addr_ok db"
  "storable (db\<lparr>db_rows := rs, db_blobs := bs\<rparr>) = storable db"
  by (auto simp: addr_ok_def storable_def fun_eq_iff)

lemma put_doc_conf:
  assumes "put_doc now a v u ex db = (x, db')"
  shows "addr_ok db' = addr_ok db \<and> storable db' = storable db"
proof (cases x)
  case (Inl e)
  with rs_set_fail put_doc_rs [OF assms] show ?thesis by fastforce
next
  case (Inr e)
  with rs_set_effect(1) put_doc_rs [OF assms] show ?thesis by fastforce
qed

lemma cell_live_norm: "expiry_live now ex \<Longrightarrow> cell_live now
    \<lparr>ce_value = v, ce_updated_at = w, ce_updated_by = u, ce_expires = norm_expiry db ex\<rparr>"
  by (auto simp: expiry_live_def cell_live_def norm_expiry_def dsql_expiry_def
      split: backend.split option.splits)

interpretation rs: record_store rs_get put_doc del_doc list_docs db_inv addr_ok storable
proof unfold_locales
  fix db db' :: "'v db" and now now' ex a b v u x e t s k
  show "db_inv db \<Longrightarrow> \<exists>x. rs_get now db a = Inr x"
    by (simp add: rs_get_abs)
  show "storable db v \<Longrightarrow> \<exists>db'. put_doc now a v u ex db = (Inr (mk_entry a v now u), db')"
    using rs_set_total [OF _ meter_set_noop [of a v db "()"], of now u ex]
    by (auto simp: put_doc_def)
  show "put_doc now a v u ex db = (Inl e, db') \<Longrightarrow> db' = db"
    by (drule put_doc_rs) (rule rs_set_fail)
  show "db_inv db \<Longrightarrow> addr_ok db a \<Longrightarrow> put_doc now a v u ex db = (Inr x, db') \<Longrightarrow> db_inv db'"
    by (drule put_doc_rs) (rule rs_set_inv)
  show "put_doc now a v u ex db = (y, db') \<Longrightarrow> addr_ok db' = addr_ok db \<and> storable db' = storable db"
    for y by (rule put_doc_conf)
  show "\<exists>b db'. del_doc a db = (Inr b, db')"
    using rs_delete_noop_total [of a db] by (auto simp: del_doc_def)
  show "db_inv db \<Longrightarrow> addr_ok db a \<Longrightarrow> del_doc a db = (y, db') \<Longrightarrow> db_inv db'" for y
    by (drule del_doc_rs) (rule rs_delete_inv)
  show "del_doc a db = (y, db') \<Longrightarrow> addr_ok db' = addr_ok db \<and> storable db' = storable db" for y
    by (drule del_doc_rs, drule rs_delete_effect(1)) simp
  show "db_inv db \<Longrightarrow> distinct (list_docs now db t s)"
    by (simp add: list_docs_def rs_list_scan scan_keys_distinct db_inv_wf)
  show "db_inv db \<Longrightarrow> k \<in> set (list_docs now db t s) \<longleftrightarrow> (\<exists>x. rs_get now db (t, s, k) = Inr (Some x))"
    by (simp add: list_docs_def rs_list_all_mem rs_get_abs)
  assume inv: "db_inv db" and ok: "addr_ok db a"
  show "rs_get now' db' a = Inr (Some (mk_entry a v now u))"
    if "put_doc now a v u ex db = (Inr x, db')" and "expiry_live now' ex"
  proof -
    note set = put_doc_rs [OF that(1)]
    show ?thesis
      using rs_set_abs [OF inv ok set] rs_set_inv [OF inv ok set] cell_live_norm [OF that(2)]
      by (simp add: rs_get_abs spec_get_def spec_set_def)
  qed
  show "rs_get now' db' b = rs_get now' db b"
    if "put_doc now a v u ex db = (Inr x, db')" and "b \<noteq> a"
  proof -
    note set = put_doc_rs [OF that(1)]
    show ?thesis
      using rs_set_abs [OF inv ok set] rs_set_inv [OF inv ok set] inv that(2)
      by (simp add: rs_get_abs spec_get_def spec_set_def)
  qed
  show "rs_get now' db' a = Inr None" if "del_doc a db = (y, db')" for y
  proof -
    note del = del_doc_rs [OF that]
    show ?thesis
      using rs_delete_abs [OF inv ok del] rs_delete_inv [OF inv ok del]
      by (simp add: rs_get_abs spec_get_def spec_delete_def)
  qed
  show "rs_get now' db' b = rs_get now' db b" if "del_doc a db = (y, db')" and "b \<noteq> a" for y
  proof -
    note del = del_doc_rs [OF that(1)]
    show ?thesis
      using rs_delete_abs [OF inv ok del] rs_delete_inv [OF inv ok del] inv that(2)
      by (simp add: rs_get_abs spec_get_def spec_delete_def)
  qed
qed

end
