(* ===== verification/Js_Number.thy ===== *)
theory Js_Number
  imports Base
begin

text \<open>
  \<^verbatim>\<open>Number(s)\<close> followed by \<^verbatim>\<open>Number.isInteger\<close>, as the cron parser and the sequence keys of
  the source use it: \<^verbatim>\<open>js_number s\<close> is the integer \<^verbatim>\<open>Number(s)\<close> denotes, and \<^verbatim>\<open>None\<close> when it
  is NaN, infinite or fractional. Values are exact: the rounding of literals with more
  than fifteen significant digits to binary64 is not modelled.
\<close>

definition is_js_space :: "char \<Rightarrow> bool" where
  "is_js_space c \<longleftrightarrow> (of_char c :: nat) \<in> {9, 10, 11, 12, 13, 32, 160}"

definition js_trim :: "string \<Rightarrow> string" where
  "js_trim s = rev (dropWhile is_js_space (rev (dropWhile is_js_space s)))"

definition radix_val :: "char \<Rightarrow> nat" where
  "radix_val c = (let n = of_char c :: nat in
     if 48 \<le> n \<and> n \<le> 57 then n - 48
     else if 97 \<le> n \<and> n \<le> 122 then n - 87
     else if 65 \<le> n \<and> n \<le> 90 then n - 55 else 99)"

definition read_radix :: "nat \<Rightarrow> string \<Rightarrow> int option" where
  "read_radix b s =
     (if s \<noteq> [] \<and> (\<forall>c \<in> set s. radix_val c < b)
      then Some (int (foldl (\<lambda>acc c. b * acc + radix_val c) 0 s)) else None)"

definition scale_integer :: "nat \<Rightarrow> int \<Rightarrow> int option" where
  "scale_integer m e =
     (if 0 \<le> e then Some (int m * 10 ^ nat e)
      else if m mod 10 ^ nat (- e) = 0 then Some (int (m div 10 ^ nat (- e))) else None)"

definition read_exponent :: "string \<Rightarrow> int option" where
  "read_exponent s =
     (let neg = starts_with s ''-'';
          d = (if neg \<or> starts_with s ''+'' then tl s else s)
      in if d \<noteq> [] \<and> (\<forall>c \<in> set d. is_digit c)
         then Some (if neg then - int (read_digits d) else int (read_digits d)) else None)"

definition js_decimal :: "string \<Rightarrow> int option" where
  "js_decimal s =
     (let ip = takeWhile is_digit s; r = dropWhile is_digit s;
          fp = (if starts_with r ''.'' then takeWhile is_digit (tl r) else []);
          q = (if starts_with r ''.'' then dropWhile is_digit (tl r) else r)
      in if ip = [] \<and> fp = [] then None
         else if q = [] then scale_integer (read_digits (ip @ fp)) (- int (length fp))
         else if hd q = CHR ''e'' \<or> hd q = CHR ''E'' then
           (case read_exponent (tl q) of
              None \<Rightarrow> None
            | Some x \<Rightarrow> scale_integer (read_digits (ip @ fp)) (x - int (length fp)))
         else None)"

definition js_number :: "string \<Rightarrow> int option" where
  "js_number s =
     (let t = js_trim s in
      if t = [] then Some 0
      else if starts_with t ''0x'' \<or> starts_with t ''0X'' then read_radix 16 (drop 2 t)
      else if starts_with t ''0o'' \<or> starts_with t ''0O'' then read_radix 8 (drop 2 t)
      else if starts_with t ''0b'' \<or> starts_with t ''0B'' then read_radix 2 (drop 2 t)
      else if starts_with t ''-'' then map_option uminus (js_decimal (tl t))
      else if starts_with t ''+'' then js_decimal (tl t)
      else js_decimal t)"

section \<open>Digit strings\<close>

lemma digit_not_space: "is_digit c \<Longrightarrow> \<not> is_js_space c"
  by (auto simp: is_digit_def is_js_space_def)

lemma dropWhile_none: "(\<forall>c \<in> set s. \<not> P c) \<Longrightarrow> dropWhile P s = s"
  by (cases s) auto

lemma js_trim_digits: "\<forall>c \<in> set s. is_digit c \<Longrightarrow> js_trim s = s"
  by (simp add: js_trim_def dropWhile_none digit_not_space)

lemma digit_not_sep: "is_digit c \<Longrightarrow> c \<noteq> CHR ''-'' \<and> c \<noteq> CHR ''+'' \<and> c \<noteq> CHR ''x'' \<and> c \<noteq> CHR ''X''
   \<and> c \<noteq> CHR ''o'' \<and> c \<noteq> CHR ''O'' \<and> c \<noteq> CHR ''b'' \<and> c \<noteq> CHR ''B'' \<and> c \<noteq> CHR ''#''"
  by (auto simp: is_digit_def)

lemma not_starts_two:
  assumes "\<forall>c \<in> set s. is_digit c" and "\<not> is_digit y"
  shows "\<not> starts_with s [x, y]"
  using assms by (auto simp: starts_with_iff)

lemma not_starts_one:
  assumes "\<forall>c \<in> set s. is_digit c" and "\<not> is_digit y"
  shows "\<not> starts_with s [y]"
  using assms by (auto simp: starts_with_iff)

lemma takeWhile_digits: "\<forall>c \<in> set s. is_digit c \<Longrightarrow> takeWhile is_digit s = s \<and> dropWhile is_digit s = []"
  by (simp add: takeWhile_eq_all_conv)

lemma js_number_digits:
  assumes "s \<noteq> []" and d: "\<forall>c \<in> set s. is_digit c"
  shows "js_number s = Some (int (read_digits s))"
proof -
  have nd: "\<not> is_digit CHR ''x''" "\<not> is_digit CHR ''X''" "\<not> is_digit CHR ''o''" "\<not> is_digit CHR ''O''"
    "\<not> is_digit CHR ''b''" "\<not> is_digit CHR ''B''" "\<not> is_digit CHR ''-''" "\<not> is_digit CHR ''+''"
    by (simp_all add: is_digit_def)
  have "js_decimal s = Some (int (read_digits s))"
    unfolding js_decimal_def Let_def conjunct1 [OF takeWhile_digits [OF d]]
      conjunct2 [OF takeWhile_digits [OF d]]
    using assms(1) by (simp add: scale_integer_def)
  then show ?thesis
    using assms(1)
    by (simp add: js_number_def Let_def js_trim_digits [OF d] not_starts_two [OF d] not_starts_one [OF d] nd)
qed

lemma read_digits_Cons: "read_digits (c # s) = digit_val c * 10 ^ length s + read_digits s"
proof (induction s rule: rev_induct)
  case (snoc x xs)
  have "read_digits (c # xs @ [x]) = 10 * read_digits (c # xs) + digit_val x"
    using read_digits_snoc [of "c # xs" x] by simp
  with snoc show ?case by (simp add: algebra_simps)
qed (simp add: read_digits_def)

lemma digit_val_bound: "is_digit c \<Longrightarrow> digit_val c < 10"
  by (auto simp: is_digit_def digit_val_def)

lemma read_digits_bound: "\<forall>c \<in> set s. is_digit c \<Longrightarrow> read_digits s < 10 ^ length s"
proof (induction s)
  case (Cons c s)
  then have "digit_val c < 10" and "read_digits s < 10 ^ length s"
    by (simp_all add: digit_val_bound)
  then have "digit_val c * 10 ^ length s + read_digits s < Suc (digit_val c) * 10 ^ length s"
    by simp
  also have "\<dots> \<le> 10 * 10 ^ length s"
    using \<open>digit_val c < 10\<close> by (intro mult_le_mono1) simp
  finally show ?case by (simp add: read_digits_Cons)
qed (simp add: read_digits_def)

lemma digit_val_less: "is_digit c \<Longrightarrow> is_digit d \<Longrightarrow> digit_val c < digit_val d \<Longrightarrow> c < d"
  by (auto simp: is_digit_def digit_val_def less_char_def)

lemma digit_val_inj: "is_digit c \<Longrightarrow> is_digit d \<Longrightarrow> digit_val c = digit_val d \<Longrightarrow> c = d"
  by (auto simp: is_digit_def digit_val_def of_char_eq_iff dest: eq_diff_iff [THEN iffD1, rotated 2])

text \<open>Numbers written with the same number of digits are ordered as the strings are.\<close>

lemma digits_less_lex:
  assumes "length s = length t" and "\<forall>c \<in> set s. is_digit c" and "\<forall>c \<in> set t. is_digit c"
    and "read_digits s < read_digits t"
  shows "s @ x < t @ y"
  using assms
proof (induction s t rule: list_induct2)
  case Nil
  then show ?case by (simp add: read_digits_def)
next
  case (Cons c s d t)
  have cd: "is_digit c" "is_digit d" and st: "\<forall>c \<in> set s. is_digit c" "\<forall>c \<in> set t. is_digit c"
    using Cons.prems by simp_all
  consider "digit_val c < digit_val d" | "digit_val c = digit_val d" | "digit_val d < digit_val c"
    by linarith
  then show ?case
  proof cases
    case 1
    then show ?thesis using digit_val_less cd by simp
  next
    case 2
    then have "read_digits s < read_digits t"
      using Cons.prems(3) Cons.hyps by (simp add: read_digits_Cons)
    with Cons.IH st have "s @ x < t @ y" by blast
    moreover have "c = d" using 2 cd by (rule digit_val_inj [rotated 2])
    ultimately show ?thesis by simp
  next
    case 3
    have "Suc (digit_val d) * 10 ^ length t \<le> digit_val c * 10 ^ length t"
      using 3 by (intro mult_le_mono1) simp
    then have "read_digits (d # t) < read_digits (c # s)"
      using read_digits_bound [OF st(2)] Cons.hyps by (simp add: read_digits_Cons)
    with Cons.prems(3) show ?thesis by simp
  qed
qed

end
