(* ===== verification/Svc_Records.thy ===== *)
theory Svc_Records
  imports Record_Laws Js_Number
begin

text \<open>
  \<^verbatim>\<open>server/workspace/src/svc-records.ts\<close>: the reserved \<^verbatim>\<open>svc#\<close> scopes of the platform's own
  documents, the guard that keeps callers out of them, the document helpers over the record
  store, and the sequence keys of append logs. Documents of one type live in one table here:
  the scopes of the subsystems are pairwise different, so no operation on one type touches
  the rows of another.
\<close>

section \<open>Scopes\<close>

definition SVC_SCOPE_PREFIX :: string where
  "SVC_SCOPE_PREFIX = ''svc#''"

definition SVC_SYSTEM_USER :: string where
  "SVC_SYSTEM_USER = ''system''"

definition is_system_scope :: "string \<Rightarrow> bool" where
  "is_system_scope scope \<longleftrightarrow> starts_with scope SVC_SCOPE_PREFIX"

definition svc_scope :: "string \<Rightarrow> string list \<Rightarrow> string" where
  "svc_scope subsystem qualifiers = join ''#'' ((SVC_SCOPE_PREFIX @ subsystem) # qualifiers)"

definition user_record_scope :: "string \<Rightarrow> string" where
  "user_record_scope sub = ''user#'' @ sub"

definition assert_caller_scope :: "string \<Rightarrow> string \<Rightarrow> string option \<Rightarrow> svc_error + unit" where
  "assert_caller_scope scope label callerSub =
     (if is_system_scope scope
      then Inl (ServiceError (label @ '' must not address the reserved svc# namespace'') 403)
      else if starts_with scope ''user#'' then
        (let owner = drop (length ''user#'') scope in
         if owner = [] \<or> callerSub = None \<or> callerSub = Some [] \<or> callerSub \<noteq> Some owner
         then Inl (ServiceError (label @ '' user# scope is only addressable by its owner'') 403)
         else Inr ())
      else Inr ())"

section \<open>Documents\<close>

definition read_svc_record :: "int \<Rightarrow> 'v db \<Rightarrow> string \<Rightarrow> string \<Rightarrow> string \<Rightarrow> svc_error + 'v option" where
  "read_svc_record now db ws scope key =
     map_sum id (map_option en_value) (rs_get now db (ws, scope, key))"

definition write_svc_record ::
  "int \<Rightarrow> string \<Rightarrow> string \<Rightarrow> string \<Rightarrow> 'v \<Rightarrow> string \<Rightarrow> ('v db, unit) prog" where
  "write_svc_record now ws scope key v updatedBy =
     thenM (put_doc now (ws, scope, key) v updatedBy None) (ret ())"

definition delete_svc_record :: "string \<Rightarrow> string \<Rightarrow> string \<Rightarrow> ('v db, bool) prog" where
  "delete_svc_record ws scope key = del_doc (ws, scope, key)"

definition list_svc_keys :: "int \<Rightarrow> 'v db \<Rightarrow> string \<Rightarrow> string \<Rightarrow> string \<Rightarrow> string list" where
  "list_svc_keys now db ws scope pre = rs_list now db ws scope pre"

fun collect_docs :: "int \<Rightarrow> 'v db \<Rightarrow> string \<Rightarrow> string \<Rightarrow> string list \<Rightarrow> svc_error + (string \<times> 'v) list" where
  "collect_docs now db ws scope [] = Inr []"
| "collect_docs now db ws scope (k # ks) =
     (case rs_get now db (ws, scope, k) of
        Inl e \<Rightarrow> Inl e
      | Inr hit \<Rightarrow>
          (case collect_docs now db ws scope ks of
             Inl e \<Rightarrow> Inl e
           | Inr rest \<Rightarrow>
               Inr (case hit of None \<Rightarrow> rest | Some en \<Rightarrow> (k, en_value en) # rest)))"

definition list_svc_records ::
  "int \<Rightarrow> 'v db \<Rightarrow> string \<Rightarrow> string \<Rightarrow> string \<Rightarrow> svc_error + (string \<times> 'v) list" where
  "list_svc_records now db ws scope pre = collect_docs now db ws scope (rs_list now db ws scope pre)"

fun delete_docs :: "string \<Rightarrow> string \<Rightarrow> string list \<Rightarrow> ('v db, nat) prog" where
  "delete_docs ws scope [] = ret 0"
| "delete_docs ws scope (k # ks) =
     bindM (del_doc (ws, scope, k)) (\<lambda>gone.
     bindM (delete_docs ws scope ks) (\<lambda>n.
     ret (if gone then Suc n else n)))"

definition delete_svc_scope :: "int \<Rightarrow> string \<Rightarrow> string \<Rightarrow> string \<Rightarrow> ('v db, nat) prog" where
  "delete_svc_scope now ws scope pre db =
     delete_docs ws scope (rs_list now db ws scope pre) db"

section \<open>Sequence keys\<close>

definition SEQ_WIDTH :: nat where
  "SEQ_WIDTH = 10"

definition pad_start :: "nat \<Rightarrow> char \<Rightarrow> string \<Rightarrow> string" where
  "pad_start w c s = replicate (w - length s) c @ s"

definition seq_key :: "nat \<Rightarrow> string \<Rightarrow> string" where
  "seq_key n i = pad_start SEQ_WIDTH CHR ''0'' (show_nat n) @ ''#'' @ i"

text \<open>\<^verbatim>\<open>key.indexOf("#")\<close>; \<^verbatim>\<open>None\<close> for -1.\<close>

definition index_of :: "char \<Rightarrow> string \<Rightarrow> nat option" where
  "index_of c s = (if c \<in> set s then Some (length (takeWhile (\<lambda>x. x \<noteq> c) s)) else None)"

definition parse_seq_key :: "string \<Rightarrow> (int \<times> string) option" where
  "parse_seq_key key =
     (if index_of CHR ''#'' key \<noteq> Some SEQ_WIDTH then None
      else (case js_number (take SEQ_WIDTH key) of
              None \<Rightarrow> None
            | Some n \<Rightarrow> Some (n, drop (Suc SEQ_WIDTH) key)))"

section \<open>Scope lemmas\<close>

lemma split_join_hash:
  assumes "\<And>w. w \<in> set ws \<Longrightarrow> CHR ''#'' \<notin> set w" and "ws \<noteq> []"
  shows "split_on CHR ''#'' (join ''#'' ws) = ws"
  using assms
proof (induction ws)
  case (Cons w ws)
  then show ?case
    by (cases ws) (simp_all add: split_on_free split_on_append)
qed simp

lemma svc_scope_split:
  "split_on CHR ''#'' (''svc#'' @ rest) = ''svc'' # split_on CHR ''#'' rest"
  by simp

lemma svc_scope_prefix: "\<exists>rest. svc_scope sub qs = ''svc#'' @ rest"
  by (cases qs) (simp_all add: svc_scope_def SVC_SCOPE_PREFIX_def)

lemma svc_scope_system: "is_system_scope (svc_scope sub qs)"
  using svc_scope_prefix [of sub qs] by (auto simp: is_system_scope_def SVC_SCOPE_PREFIX_def)

lemma system_scope_not_shared:
  assumes "is_system_scope scope"
  shows "shared_scope_instance_id scope = None"
proof -
  from assms obtain rest where "scope = ''svc#'' @ rest"
    by (auto simp: is_system_scope_def SVC_SCOPE_PREFIX_def starts_with_iff)
  then show ?thesis
    by (auto simp: shared_scope_instance_id_def split: list.splits)
qed

lemma svc_scope_not_shared [simp]: "shared_scope_instance_id (svc_scope sub qs) = None"
  by (rule system_scope_not_shared [OF svc_scope_system])

section \<open>Document lemmas\<close>

lemma read_svc_total: "db_inv db \<Longrightarrow> \<exists>x. read_svc_record now db ws scope key = Inr x"
  using rs.get_total [of db now "(ws, scope, key)"] by (auto simp: read_svc_record_def)

lemma write_svc_total:
  "storable db v \<Longrightarrow> \<exists>db'. write_svc_record now ws scope key v u db = (Inr (), db')"
  using rs.put_total [of db v now "(ws, scope, key)" u None]
  by (auto simp: write_svc_record_def thenM_run)

lemma write_svcE:
  assumes "write_svc_record now ws scope key v u db = (Inr (), db')"
  obtains x where "put_doc now (ws, scope, key) v u None db = (Inr x, db')"
  using assms by (auto simp: write_svc_record_def thenM_Inr_iff)

lemma write_svc_fail: "write_svc_record now ws scope key v u db = (Inl e, db') \<Longrightarrow> db' = db"
  by (auto simp: write_svc_record_def thenM_run dest: rs.put_fail split: sum.splits prod.splits)

lemma en_value_mk [simp]: "en_value (mk_entry a v w u) = v"
  by (cases a) simp

lemma read_after_write:
  assumes "db_inv db" and "addr_ok db (ws, scope, key)"
    and "write_svc_record now ws scope key v u db = (Inr (), db')"
  shows "read_svc_record now' db' ws scope key = Inr (Some v)"
    and "(scope', key') \<noteq> (scope, key) \<or> ws' \<noteq> ws \<Longrightarrow>
      read_svc_record now' db' ws' scope' key' = read_svc_record now' db ws' scope' key'"
    and "db_inv db'" and "addr_ok db' = addr_ok db" and "storable db' = storable db"
proof -
  from assms(3) obtain x where put: "put_doc now (ws, scope, key) v u None db = (Inr x, db')"
    by (rule write_svcE)
  show "read_svc_record now' db' ws scope key = Inr (Some v)"
    using rs.put_get [OF assms(1,2) put] by (simp add: read_svc_record_def)
  show "read_svc_record now' db' ws' scope' key' = read_svc_record now' db ws' scope' key'"
    if "(scope', key') \<noteq> (scope, key) \<or> ws' \<noteq> ws"
  proof -
    have "(ws', scope', key') \<noteq> (ws, scope, key)" using that by auto
    then show ?thesis using rs.put_frame [OF assms(1,2) put] by (simp add: read_svc_record_def)
  qed
  show "db_inv db'" using assms(1,2) put by (rule rs.put_inv)
  show "addr_ok db' = addr_ok db" and "storable db' = storable db"
    using rs.put_conf [OF put] by blast+
qed

lemma collect_docs_mem:
  assumes "db_inv db"
  shows "\<exists>ds. collect_docs now db ws scope ks = Inr ds \<and>
     (\<forall>k v. (k, v) \<in> set ds \<longleftrightarrow> k \<in> set ks \<and> read_svc_record now db ws scope k = Inr (Some v))"
proof (induction ks)
  case (Cons k ks)
  obtain hit where hit: "rs_get now db (ws, scope, k) = Inr hit"
    using rs.get_total [OF assms] by blast
  from Cons obtain ds where ds: "collect_docs now db ws scope ks = Inr ds"
    and mem: "\<And>k v. (k, v) \<in> set ds \<longleftrightarrow> k \<in> set ks \<and> read_svc_record now db ws scope k = Inr (Some v)"
    by blast
  show ?case
    using hit ds mem by (auto simp: read_svc_record_def split: option.splits)
qed simp

lemma list_svc_records_mem:
  assumes "db_inv db"
  shows "\<exists>ds. list_svc_records now db ws scope [] = Inr ds \<and>
     (\<forall>k v. (k, v) \<in> set ds \<longleftrightarrow> read_svc_record now db ws scope k = Inr (Some v))"
proof -
  have "k \<in> set (rs_list now db ws scope [])" if "read_svc_record now db ws scope k = Inr (Some v)" for k v
    using that rs.keys_mem [OF assms, of k now ws scope]
    by (cases "rs_get now db (ws, scope, k)") (auto simp: read_svc_record_def list_docs_def)
  then show ?thesis
    using collect_docs_mem [OF assms, of now ws scope "rs_list now db ws scope []"]
    unfolding list_svc_records_def by blast
qed

lemma delete_docs_del_keys:
  "\<exists>n. delete_docs ws scope ks db = (Inr n, rs.del_keys ws scope ks db)"
proof (induction ks arbitrary: db)
  case (Cons k ks)
  obtain b db' where d: "del_doc (ws, scope, k) db = (Inr b, db')"
    using rs.del_total by blast
  from Cons [of db'] obtain n where "delete_docs ws scope ks db' = (Inr n, rs.del_keys ws scope ks db')"
    by blast
  with d show ?case by (simp add: bindM_run)
qed simp

section \<open>Sequence key lemmas\<close>

lemma pad_digits: "\<forall>c \<in> set (pad_start w CHR ''0'' (show_nat n)). is_digit c"
proof -
  have "is_digit CHR ''0''" by (simp add: is_digit_def)
  then show ?thesis using show_nat_digits [of n] by (auto simp: pad_start_def)
qed

lemma pad_length: "length (show_nat n) \<le> w \<Longrightarrow> length (pad_start w CHR ''0'' (show_nat n)) = w"
  by (simp add: pad_start_def)

lemma read_digits_zeros: "read_digits (replicate k CHR ''0'' @ s) = read_digits s"
  by (induction k) (simp_all add: read_digits_Cons digit_val_def)

lemma pad_value: "read_digits (pad_start w CHR ''0'' (show_nat n)) = n"
  by (simp add: pad_start_def read_digits_zeros read_digits_show_nat)

lemma seq_width_ok: "n < 10 ^ 10 \<Longrightarrow> length (show_nat n) \<le> SEQ_WIDTH"
  using show_nat_length [of n 9] by (simp add: SEQ_WIDTH_def)

lemma no_hash_digits: "\<forall>c \<in> set s. is_digit c \<Longrightarrow> CHR ''#'' \<notin> set s"
  using digit_not_sep by blast

lemma index_of_first: "c \<notin> set s \<Longrightarrow> index_of c (s @ c # t) = Some (length s)"
proof -
  assume "c \<notin> set s"
  then have "takeWhile (\<lambda>x. x \<noteq> c) (s @ c # t) = s @ takeWhile (\<lambda>x. x \<noteq> c) (c # t)"
    by (intro takeWhile_append2) auto
  then show ?thesis by (simp add: index_of_def)
qed

end
