(* ===== verification/Instances.thy ===== *)
theory Instances
  imports Svc_Records
begin

text \<open>
  \<^verbatim>\<open>server/workspace/src/apps/instances.ts\<close>: shared application instances, the participant list
  that is their access control, and the storage metering the record store feeds. The record
  of an install (its hosting mode) and workspace membership belong to other components and
  are arguments; so are the workspace files, of which only the sizes under a directory and
  the removal of a directory are used.
\<close>

section \<open>State\<close>

datatype hosting_mode = Hosted | Managed

record app_instance =
  ai_id :: string
  ai_app :: string
  ai_host_ws :: string
  ai_created_by :: string
  ai_created_at :: int
  ai_updated_at :: int
  ai_participants :: "string list"
  ai_cap :: "int option"
  ai_storage :: int

text \<open>\<^verbatim>\<open>ie_install ws app\<close> is \<^verbatim>\<open>None\<close> when no install record is readable, \<^verbatim>\<open>Some None\<close> when its
  \<^verbatim>\<open>hosting\<close> field is absent.\<close>

record 'f inst_env =
  ie_install :: "string \<Rightarrow> string \<Rightarrow> hosting_mode option option"
  ie_member :: "string \<Rightarrow> string \<Rightarrow> bool"
  ie_file_sizes :: "string \<Rightarrow> string \<Rightarrow> 'f \<Rightarrow> nat list"
  ie_remove_prefix :: "string \<Rightarrow> string \<Rightarrow> 'f \<Rightarrow> 'f"

record ('v, 'f) app_world =
  aw_now :: int
  aw_instances :: "app_instance db"
  aw_kv :: "'v db"
  aw_files :: 'f

definition INSTANCES_SCOPE :: string where
  "INSTANCES_SCOPE = svc_scope ''app-instances'' []"

definition shared_record_scope :: "string \<Rightarrow> string \<Rightarrow> string" where
  "shared_record_scope appId instanceId = ''app#'' @ appId @ ''#shared#'' @ instanceId"

definition shared_data_dir :: "string \<Rightarrow> string \<Rightarrow> string" where
  "shared_data_dir appId instanceId = ''.apps/'' @ appId @ ''/shared/'' @ instanceId"

definition deny_instance :: "string \<Rightarrow> svc_error" where
  "deny_instance instanceId = ServiceError (''Not found: instance '' @ instanceId) 404"

section \<open>Hosting and membership\<close>

definition resolve_hosting_mode :: "'f inst_env \<Rightarrow> string \<Rightarrow> string \<Rightarrow> hosting_mode" where
  "resolve_hosting_mode env hostWs appId =
     (case ie_install env hostWs appId of
        None \<Rightarrow> Managed
      | Some None \<Rightarrow> Managed
      | Some (Some h) \<Rightarrow> h)"

definition assert_hosting_membership :: "'f inst_env \<Rightarrow> string \<Rightarrow> string \<Rightarrow> svc_error + unit" where
  "assert_hosting_membership env hostWs sub =
     (if ie_member env hostWs sub then Inr ()
      else Inl (ServiceError (''User '' @ sub @ '' is not a member of workspace '' @ hostWs @
        '': managed instances require every participant to be a hosting-workspace member'') 400))"

fun assert_members :: "'f inst_env \<Rightarrow> string \<Rightarrow> string list \<Rightarrow> svc_error + unit" where
  "assert_members env hostWs [] = Inr ()"
| "assert_members env hostWs (s # ss) =
     (case assert_hosting_membership env hostWs s of
        Inl e \<Rightarrow> Inl e | Inr _ \<Rightarrow> assert_members env hostWs ss)"

definition assert_participants_allowed ::
  "'f inst_env \<Rightarrow> string \<Rightarrow> string \<Rightarrow> string list \<Rightarrow> svc_error + unit" where
  "assert_participants_allowed env hostWs appId subs =
     (if resolve_hosting_mode env hostWs appId \<noteq> Managed then Inr ()
      else assert_members env hostWs subs)"

section \<open>Operations\<close>

text \<open>The instance records alone are the state of these operations; \<^verbatim>\<open>now\<close> is the clock.\<close>

definition get_instance :: "int \<Rightarrow> string \<Rightarrow> string \<Rightarrow> (app_instance db, app_instance option) prog" where
  "get_instance now ws iid db = (read_svc_record now db ws INSTANCES_SCOPE iid, db)"

definition put_instance ::
  "int \<Rightarrow> string \<Rightarrow> string \<Rightarrow> app_instance \<Rightarrow> string \<Rightarrow> (app_instance db, unit) prog" where
  "put_instance now ws iid rec u = write_svc_record now ws INSTANCES_SCOPE iid rec u"

definition require_instance :: "int \<Rightarrow> string \<Rightarrow> string \<Rightarrow> (app_instance db, app_instance) prog" where
  "require_instance now ws iid =
     bindM (get_instance now ws iid) (\<lambda>r. case r of
         None \<Rightarrow> throw (ServiceError (''Unknown instance: '' @ iid) 404)
       | Some rec \<Rightarrow> ret rec)"

definition create_instance ::
  "'f inst_env \<Rightarrow> int \<Rightarrow> string \<Rightarrow> string \<Rightarrow> string \<Rightarrow> string \<Rightarrow> string list
     \<Rightarrow> (app_instance db, app_instance) prog" where
  "create_instance env now ulid ws appId createdBy participants =
     (let subs = dedup participants;
          rec = \<lparr>ai_id = ulid, ai_app = appId, ai_host_ws = ws, ai_created_by = createdBy,
                 ai_created_at = now, ai_updated_at = now, ai_participants = subs,
                 ai_cap = None, ai_storage = 0\<rparr>
      in bindM (liftE (assert_participants_allowed env ws appId subs)) (\<lambda>_.
         thenM (put_instance now ws ulid rec createdBy) (ret rec)))"

definition list_instances :: "int \<Rightarrow> string \<Rightarrow> string \<Rightarrow> (app_instance db, app_instance list) prog" where
  "list_instances now ws appId db =
     (map_sum id (\<lambda>ds. filter (\<lambda>r. ai_app r = appId) (map snd ds))
        (list_svc_records now db ws INSTANCES_SCOPE []), db)"

definition assert_instance_access ::
  "'f inst_env \<Rightarrow> int \<Rightarrow> string \<Rightarrow> string \<Rightarrow> string \<Rightarrow> string
     \<Rightarrow> (app_instance db, app_instance) prog" where
  "assert_instance_access env now ws appId iid callerSub =
     bindM (get_instance now ws iid) (\<lambda>r. case r of
         None \<Rightarrow> throw (deny_instance iid)
       | Some rec \<Rightarrow>
           if ai_app rec \<noteq> appId \<or> callerSub \<notin> set (ai_participants rec)
           then throw (deny_instance iid)
           else if resolve_hosting_mode env (ai_host_ws rec) (ai_app rec) = Managed
                   \<and> \<not> ie_member env (ai_host_ws rec) callerSub
           then throw (deny_instance iid)
           else ret rec)"

definition add_participant ::
  "'f inst_env \<Rightarrow> int \<Rightarrow> string \<Rightarrow> string \<Rightarrow> string \<Rightarrow> string
     \<Rightarrow> (app_instance db, app_instance) prog" where
  "add_participant env now ws iid sub actor =
     bindM (require_instance now ws iid) (\<lambda>rec.
     bindM (liftE (assert_participants_allowed env (ai_host_ws rec) (ai_app rec) [sub])) (\<lambda>_.
     if sub \<in> set (ai_participants rec) then ret rec
     else let rec' = rec\<lparr>ai_participants := ai_participants rec @ [sub], ai_updated_at := now\<rparr>
          in thenM (put_instance now ws iid rec' actor) (ret rec')))"

definition remove_participant ::
  "int \<Rightarrow> string \<Rightarrow> string \<Rightarrow> string \<Rightarrow> string \<Rightarrow> (app_instance db, app_instance) prog" where
  "remove_participant now ws iid sub actor =
     bindM (require_instance now ws iid) (\<lambda>rec.
     if sub \<in> set (ai_participants rec)
     then let rec' = rec\<lparr>ai_participants := filter (\<lambda>p. p \<noteq> sub) (ai_participants rec),
                         ai_updated_at := now\<rparr>
          in thenM (put_instance now ws iid rec' actor) (ret rec')
     else ret rec)"

section \<open>Storage metering\<close>

text \<open>The cap argument is an integer; \<^verbatim>\<open>Number.isSafeInteger\<close> bounds it by \<^verbatim>\<open>2^53 - 1\<close>.\<close>

definition set_instance_cap ::
  "int \<Rightarrow> string \<Rightarrow> string \<Rightarrow> int option \<Rightarrow> string \<Rightarrow> (app_instance db, app_instance) prog" where
  "set_instance_cap now ws iid cap actor =
     thenM (case cap of
              None \<Rightarrow> ret ()
            | Some c \<Rightarrow> if \<bar>c\<bar> > 2 ^ 53 - 1 \<or> c < 0
                then throw (ServiceError ''storageCapBytes must be a non-negative integer'' 400)
                else ret ())
       (bindM (require_instance now ws iid) (\<lambda>rec.
          let rec' = rec\<lparr>ai_cap := cap, ai_updated_at := now\<rparr>
          in thenM (put_instance now ws iid rec' actor) (ret rec')))"

definition over_cap :: "app_instance \<Rightarrow> int \<Rightarrow> bool" where
  "over_cap rec delta \<longleftrightarrow> delta > 0 \<and>
     (case ai_cap rec of None \<Rightarrow> False | Some c \<Rightarrow> ai_storage rec + delta > c)"

definition cap_exceeded :: "string \<Rightarrow> app_instance \<Rightarrow> int \<Rightarrow> svc_error" where
  "cap_exceeded iid rec delta =
     ServiceError (''Instance '' @ iid @ '' storage cap exceeded: '' @ show_int (ai_storage rec) @
       '' + '' @ show_int delta @ '' > '' @
       (case ai_cap rec of None \<Rightarrow> ''undefined'' | Some c \<Rightarrow> show_int c) @ '' bytes'') 413"

definition reserve_instance_bytes :: "int \<Rightarrow> app_instance db reserve" where
  "reserve_instance_bytes now ws iid delta =
     (if delta = 0 then ret ()
      else bindM (require_instance now ws iid) (\<lambda>rec.
        if over_cap rec delta then throw (cap_exceeded iid rec delta)
        else put_instance now ws iid
               (rec\<lparr>ai_storage := max 0 (ai_storage rec + delta), ai_updated_at := now\<rparr>)
               SVC_SYSTEM_USER))"

section \<open>The application data plane over the record store\<close>

text \<open>Application rows go through the record store, metered by the instance records.\<close>

definition kv_set ::
  "addr \<Rightarrow> 'v \<Rightarrow> string \<Rightarrow> int option \<Rightarrow> (('v, 'f) app_world, 'v entry) prog" where
  "kv_set a v u ex w =
     zoom (\<lambda>w. (aw_kv w, aw_instances w)) (\<lambda>(kv, inst) w. w\<lparr>aw_kv := kv, aw_instances := inst\<rparr>)
       (rs_set (reserve_instance_bytes (aw_now w)) (aw_now w) a v u ex) w"

definition kv_delete :: "addr \<Rightarrow> (('v, 'f) app_world, bool) prog" where
  "kv_delete a w =
     zoom (\<lambda>w. (aw_kv w, aw_instances w)) (\<lambda>(kv, inst) w. w\<lparr>aw_kv := kv, aw_instances := inst\<rparr>)
       (rs_delete (reserve_instance_bytes (aw_now w)) a) w"

definition on_instances :: "(app_instance db, 'a) prog \<Rightarrow> (('v, 'f) app_world, 'a) prog" where
  "on_instances = zoom aw_instances (\<lambda>d w. w\<lparr>aw_instances := d\<rparr>)"

fun sum_row_sizes :: "int \<Rightarrow> 'v db \<Rightarrow> string \<Rightarrow> string \<Rightarrow> string list \<Rightarrow> svc_error + nat" where
  "sum_row_sizes now kv ws scope [] = Inr 0"
| "sum_row_sizes now kv ws scope (k # ks) =
     (case rs_get now kv (ws, scope, k) of
        Inl e \<Rightarrow> Inl e
      | Inr hit \<Rightarrow>
          map_sum id (\<lambda>n. (case hit of None \<Rightarrow> 0 | Some en \<Rightarrow> db_size kv (en_value en)) + n)
            (sum_row_sizes now kv ws scope ks))"

definition recount_instance_usage ::
  "'f inst_env \<Rightarrow> string \<Rightarrow> string \<Rightarrow> (('v, 'f) app_world, nat) prog" where
  "recount_instance_usage env ws iid w =
     bindM (on_instances (require_instance (aw_now w) ws iid)) (\<lambda>rec.
     let scope = shared_record_scope (ai_app rec) iid in
     bindM (liftE (sum_row_sizes (aw_now w) (aw_kv w) ws scope
                     (rs_list (aw_now w) (aw_kv w) ws scope []))) (\<lambda>rows.
     let total = rows + sum_list (ie_file_sizes env ws (shared_data_dir (ai_app rec) iid) (aw_files w))
     in thenM (on_instances (put_instance (aw_now w) ws iid
                 (rec\<lparr>ai_storage := int total, ai_updated_at := aw_now w\<rparr>) SVC_SYSTEM_USER))
          (ret total))) w"

fun kv_delete_all :: "string \<Rightarrow> string \<Rightarrow> string list \<Rightarrow> (('v, 'f) app_world, unit) prog" where
  "kv_delete_all ws scope [] = ret ()"
| "kv_delete_all ws scope (k # ks) =
     bindM (kv_delete (ws, scope, k)) (\<lambda>_. kv_delete_all ws scope ks)"

definition delete_instance ::
  "'f inst_env \<Rightarrow> string \<Rightarrow> string \<Rightarrow> (('v, 'f) app_world, unit) prog" where
  "delete_instance env ws iid w =
     bindM (on_instances (require_instance (aw_now w) ws iid)) (\<lambda>rec.
     let scope = shared_record_scope (ai_app rec) iid in
     thenM (kv_delete_all ws scope (rs_list (aw_now w) (aw_kv w) ws scope []))
       (thenM (modifyM (\<lambda>w. w\<lparr>aw_files :=
            ie_remove_prefix env ws (shared_data_dir (ai_app rec) iid) (aw_files w)\<rparr>))
          (thenM (on_instances (delete_svc_record ws INSTANCES_SCOPE iid)) (ret ())))) w"

section \<open>Access control lemmas\<close>

definition may_access :: "'f inst_env \<Rightarrow> string \<Rightarrow> string \<Rightarrow> app_instance \<Rightarrow> bool" where
  "may_access env appId sub rec \<longleftrightarrow>
     ai_app rec = appId \<and> sub \<in> set (ai_participants rec) \<and>
     (resolve_hosting_mode env (ai_host_ws rec) (ai_app rec) = Managed \<longrightarrow>
        ie_member env (ai_host_ws rec) sub)"

lemma access_result:
  assumes "read_svc_record now db ws INSTANCES_SCOPE iid = Inr found"
  shows "assert_instance_access env now ws appId iid sub db =
     (case found of
        None \<Rightarrow> (Inl (deny_instance iid), db)
      | Some rec \<Rightarrow> if may_access env appId sub rec then (Inr rec, db)
                  else (Inl (deny_instance iid), db))"
  using assms
  by (auto simp: assert_instance_access_def get_instance_def may_access_def bindM_run
      split: option.split)

lemma require_instance_found:
  "read_svc_record now db ws INSTANCES_SCOPE iid = Inr (Some rec) \<Longrightarrow>
     require_instance now ws iid db = (Inr rec, db)"
  by (simp add: require_instance_def get_instance_def bindM_run)

lemma require_instance_missing:
  "read_svc_record now db ws INSTANCES_SCOPE iid = Inr None \<Longrightarrow>
     require_instance now ws iid db = (Inl (ServiceError (''Unknown instance: '' @ iid) 404), db)"
  by (simp add: require_instance_def get_instance_def bindM_run)

lemma assert_members_ok: "assert_members env ws subs = Inr () \<longleftrightarrow> (\<forall>s \<in> set subs. ie_member env ws s)"
  by (induction subs) (auto simp: assert_hosting_membership_def)

end
