(* ===== verification/Metering.thy ===== *)
theory Metering
  imports Instances
begin

text \<open>
  The storage accounting across the record store and the instance records: the counter of an
  instance is the sum of the byte stamps of the rows in its shared scope, whatever sequence
  of writes and deletions the data plane runs, and no write takes it past the cap.
\<close>

section \<open>Sums over tables\<close>

definition stamp :: "'v row \<Rightarrow> nat" where
  "stamp r = (case rw_bytes r of None \<Rightarrow> 0 | Some n \<Rightarrow> n)"

definition shared_weight :: "string \<Rightarrow> string \<Rightarrow> addr \<Rightarrow> 'v row \<Rightarrow> nat" where
  "shared_weight t i a r =
     (if fst a = t \<and> shared_scope_instance_id (fst (snd a)) = Some i then stamp r else 0)"

definition shared_bytes :: "'v db \<Rightarrow> string \<Rightarrow> string \<Rightarrow> nat" where
  "shared_bytes db t i = sum_list (map (\<lambda>(a, r). shared_weight t i a r) (db_rows db))"

definition weight_at :: "('k \<Rightarrow> 'r \<Rightarrow> nat) \<Rightarrow> ('k \<times> 'r) list \<Rightarrow> 'k \<Rightarrow> nat" where
  "weight_at f m k = (case map_of m k of None \<Rightarrow> 0 | Some r \<Rightarrow> f k r)"

lemma sum_update:
  "wf_map m \<Longrightarrow> sum_list (map (\<lambda>(a, r). f a r) (AList.update k v m)) + weight_at f m k
     = sum_list (map (\<lambda>(a, r). f a r) m) + (f k v :: nat)"
proof (induction m)
  case (Cons p m)
  obtain a r where p: "p = (a, r)" by (cases p)
  from Cons.prems have wf: "wf_map m" and a: "a \<notin> fst ` set m"
    by (auto simp: wf_map_def p)
  from a have "map_of m a = None" by (simp add: map_of_eq_None_iff)
  with Cons.IH [OF wf] show ?case
    by (cases "k = a") (auto simp: p weight_at_def)
qed (simp add: weight_at_def)

lemma sum_delete:
  "wf_map m \<Longrightarrow> sum_list (map (\<lambda>(a, r). f a r) (AList.delete k m)) + weight_at f m k
     = (sum_list (map (\<lambda>(a, r). f a r) m) :: nat)"
proof (induction m)
  case (Cons p m)
  obtain a r where p: "p = (a, r)" by (cases p)
  from Cons.prems have wf: "wf_map m" and a: "a \<notin> fst ` set m"
    by (auto simp: wf_map_def p)
  from a have "map_of m a = None" and "AList.delete a m = m"
    by (simp_all add: map_of_eq_None_iff AList.delete_id)
  with Cons.IH [OF wf] show ?case
    by (cases "k = a") (auto simp: p weight_at_def AList.delete_simps)
qed (simp add: weight_at_def)

lemma weight_read_bytes:
  "weight_at (shared_weight t i) (db_rows db) (t', s, k) =
     (if t' = t \<and> shared_scope_instance_id s = Some i then read_bytes db (t', s, k) else 0)"
  by (simp add: weight_at_def shared_weight_def read_bytes_def stamp_def split: option.split)

lemma shared_bytes_set:
  assumes "db_inv db" and "rs_set reserve now (t', s, k) v u ex (db, m) = (Inr e, (db', m'))"
  shows "shared_bytes db' t i +
      (if t' = t \<and> shared_scope_instance_id s = Some i then read_bytes db (t', s, k) else 0)
    = shared_bytes db t i +
      (if t' = t \<and> shared_scope_instance_id s = Some i then db_size db v else 0)"
  using sum_update [OF db_inv_wf [OF assms(1)], where f = "shared_weight t i"
      and k = "(t', s, k)" and v = "new_row db now (t', s, k) v u ex"]
  by (simp add: shared_bytes_def rs_set_effect(1) [OF assms(2)] weight_read_bytes)
    (simp add: shared_weight_def stamp_def new_row_def split: if_splits)

lemma shared_bytes_delete:
  assumes "db_inv db" and "rs_delete reserve (t', s, k) (db, m) = (res, (db', m'))"
  shows "shared_bytes db' t i +
      (if t' = t \<and> shared_scope_instance_id s = Some i then read_bytes db (t', s, k) else 0)
    = shared_bytes db t i"
  using sum_delete [OF db_inv_wf [OF assms(1)], where f = "shared_weight t i" and k = "(t', s, k)"]
  by (simp add: shared_bytes_def rs_delete_effect(1) [OF assms(2)] weight_read_bytes)

section \<open>The invariant\<close>

text \<open>Instance records never expire, so what is read does not depend on the clock.\<close>

definition timeless :: "app_instance db \<Rightarrow> bool" where
  "timeless db \<longleftrightarrow> (\<forall>now now' ws k.
     read_svc_record now db ws INSTANCES_SCOPE k = read_svc_record now' db ws INSTANCES_SCOPE k)"

definition exact :: "app_instance db \<Rightarrow> 'v db \<Rightarrow> bool" where
  "exact inst kv \<longleftrightarrow> (\<forall>now ws i rec.
     read_svc_record now inst ws INSTANCES_SCOPE i = Inr (Some rec) \<longrightarrow>
     ai_storage rec = int (shared_bytes kv ws i))"

definition app_inv :: "('v, 'f) app_world \<Rightarrow> bool" where
  "app_inv w \<longleftrightarrow>
     db_inv (aw_kv w) \<and> db_inv (aw_instances w) \<and>
     db_backend (aw_instances w) = db_backend (aw_kv w) \<and>
     (db_backend (aw_kv w) = Sqlite \<or> db_bucket (aw_kv w) \<and> db_bucket (aw_instances w)) \<and>
     timeless (aw_instances w) \<and> exact (aw_instances w) (aw_kv w)"

lemma scope_slash_free: "CHR ''/'' \<notin> set INSTANCES_SCOPE"
  by (simp add: INSTANCES_SCOPE_def svc_scope_def SVC_SCOPE_PREFIX_def)

definition inst_read :: "app_instance db \<Rightarrow> string \<Rightarrow> string \<Rightarrow> app_instance option" where
  "inst_read db ws i =
     (case read_svc_record 0 db ws INSTANCES_SCOPE i of Inr (Some rec) \<Rightarrow> Some rec | _ \<Rightarrow> None)"

lemma inst_read_iff:
  assumes "db_inv db" and "timeless db"
  shows "read_svc_record now db ws INSTANCES_SCOPE i = Inr (inst_read db ws i)"
proof -
  have "read_svc_record now db ws INSTANCES_SCOPE i = read_svc_record 0 db ws INSTANCES_SCOPE i"
    using assms(2) unfolding timeless_def by blast
  then show ?thesis
    using read_svc_total [OF assms(1), of 0 ws INSTANCES_SCOPE i]
    by (auto simp: inst_read_def split: option.splits)
qed

lemma exact_iff:
  assumes "db_inv inst" and "timeless inst"
  shows "exact inst kv \<longleftrightarrow>
     (\<forall>ws i rec. inst_read inst ws i = Some rec \<longrightarrow> ai_storage rec = int (shared_bytes kv ws i))"
  unfolding exact_def inst_read_iff [OF assms] by auto

text \<open>What writing one instance record does to the reads.\<close>

lemma put_instance_effect:
  assumes inv: "db_inv db" and tl: "timeless db" and ok: "addr_ok db (ws, INSTANCES_SCOPE, i)"
    and put: "put_instance now ws i rec u db = (Inr (), db')"
  shows "db_inv db'" "timeless db'" "addr_ok db' = addr_ok db" "storable db' = storable db"
    "inst_read db' ws' i' = (if ws' = ws \<and> i' = i then Some rec else inst_read db ws' i')"
proof -
  note w = put [unfolded put_instance_def]
  note raw = read_after_write [OF inv ok w]
  show inv': "db_inv db'" and "addr_ok db' = addr_ok db" and "storable db' = storable db"
    by (rule raw)+
  have other: "read_svc_record n db' ws' INSTANCES_SCOPE k = Inr (inst_read db ws' k)"
    if "\<not> (ws' = ws \<and> k = i)" for n ws' k
    using raw(2) [of INSTANCES_SCOPE k ws' n] that inst_read_iff [OF inv tl, of n ws' k] by auto
  show "timeless db'"
    unfolding timeless_def
  proof (intro allI)
    fix n n' ws' k
    show "read_svc_record n db' ws' INSTANCES_SCOPE k = read_svc_record n' db' ws' INSTANCES_SCOPE k"
      using raw(1) [of n] raw(1) [of n'] other [of ws' k n] other [of ws' k n']
      by (cases "ws' = ws \<and> k = i") auto
  qed
  show "inst_read db' ws' i' = (if ws' = ws \<and> i' = i then Some rec else inst_read db ws' i')"
    using raw(1) [of 0] other [of ws' i' 0]
    by (auto simp: inst_read_def [of db'] split: option.splits)
qed

section \<open>Reserving bytes\<close>

definition reserved :: "int \<Rightarrow> app_instance \<Rightarrow> int \<Rightarrow> app_instance" where
  "reserved now rec delta =
     rec\<lparr>ai_storage := max 0 (ai_storage rec + delta), ai_updated_at := now\<rparr>"

lemma put_conf_inst:
  "write_svc_record now ws s k v u db = (r, db') \<Longrightarrow> db_backend db' = db_backend db \<and> db_bucket db' = db_bucket db"
  by (auto simp: write_svc_record_def thenM_run put_doc_def dest!: rs_set_effect(1)
      dest: rs_set_fail split: sum.splits prod.splits)

lemma cap_exceeded_status [simp]: "err_status (cap_exceeded i rec d) = Some 413"
  by (simp add: cap_exceeded_def)

text \<open>The three outcomes of metering one change of a shared row.\<close>

lemma meter_cases:
  assumes inv: "db_inv inst" and tl: "timeless inst"
    and ok: "addr_ok inst (t, INSTANCES_SCOPE, i)" and st: "\<And>rec. storable inst rec"
    and sh: "shared_scope_instance_id s = Some i"
    and m: "meter_shared_scope_delta (reserve_instance_bytes now) t s delta inst = (res, inst')"
  obtains
    (absent) "inst_read inst t i = None \<or> delta = 0" "res = Inr ()" "inst' = inst"
  | (refused) rec where "inst_read inst t i = Some rec" "delta \<noteq> 0" "over_cap rec delta"
      "res = Inl (cap_exceeded i rec delta)" "inst' = inst"
  | (applied) rec where "inst_read inst t i = Some rec" "delta \<noteq> 0" "\<not> over_cap rec delta"
      "res = Inr ()" "put_instance now t i (reserved now rec delta) SVC_SYSTEM_USER inst = (Inr (), inst')"
proof -
  have rd: "read_svc_record now inst t INSTANCES_SCOPE i = Inr (inst_read inst t i)"
    by (rule inst_read_iff [OF inv tl])
  show ?thesis
  proof (cases "inst_read inst t i = None \<or> delta = 0")
    case True
    with m sh rd show ?thesis
      by (intro absent) (auto simp: meter_shared_scope_delta_def reserve_instance_bytes_def
          catchM_run bindM_run require_instance_missing split: if_splits)
  next
    case False
    then obtain rec where rec: "inst_read inst t i = Some rec" and d: "delta \<noteq> 0" by auto
    note req = require_instance_found [OF rd [unfolded rec]]
    show ?thesis
    proof (cases "over_cap rec delta")
      case True
      with m sh req d rec show ?thesis
        by (intro refused) (auto simp: meter_shared_scope_delta_def reserve_instance_bytes_def
            catchM_run bindM_run)
    next
      case no: False
      obtain inst2 where put: "put_instance now t i (reserved now rec delta) SVC_SYSTEM_USER inst
          = (Inr (), inst2)"
        using write_svc_total [OF st] unfolding put_instance_def by blast
      with m sh req d no have "res = Inr ()" "inst' = inst2"
        by (simp_all add: meter_shared_scope_delta_def reserve_instance_bytes_def
            catchM_run bindM_run reserved_def)
      with put rec d no show ?thesis by (intro applied) simp_all
    qed
  qed
qed

lemma app_inv_storable:
  assumes "app_inv w"
  shows "storable (aw_instances w) rec" and "storable (aw_kv w) v"
  using assms by (auto simp: app_inv_def storable_def)

lemma addr_ok_instance:
  assumes "app_inv w" and "addr_ok (aw_kv w) (t, s, k)"
  shows "addr_ok (aw_instances w) (t, INSTANCES_SCOPE, i)"
  using assms scope_slash_free by (auto simp: app_inv_def addr_ok_def slash_free_def)

section \<open>Writes\<close>

lemma rs_set_split:
  assumes "rs_set reserve now (t, s, k) v u ex (kv, m) = (res, (kv', m'))"
    and "shared_scope_instance_id s = Some i"
  shows "\<exists>r. meter_shared_scope_delta reserve t s (int (db_size kv v) - int (read_bytes kv (t, s, k))) m
       = (r, m') \<and> (\<forall>e. r = Inl e \<longrightarrow> res = Inl e \<and> kv' = kv)"
  using assms
  by (auto simp: rs_set_def sqlite_set_def dsql_set_def meter_set_def Let_def
      split: backend.splits sum.splits prod.splits if_splits)

lemma rs_set_after_meter:
  assumes "storable kv v" and "shared_scope_instance_id s = Some i"
    and "meter_shared_scope_delta reserve t s (int (db_size kv v) - int (read_bytes kv (t, s, k))) m
       = (Inr (), m')"
  shows "\<exists>kv'. rs_set reserve now (t, s, k) v u ex (kv, m)
       = (Inr (mk_entry (t, s, k) v now u), (kv', m'))"
  using rs_set_total [OF assms(1), of reserve "(t, s, k)" m m' now u ex] assms(2,3)
  by (simp add: meter_set_def)

lemma rs_set_unshared:
  assumes "storable kv v" and "shared_scope_instance_id s = None"
  shows "\<exists>kv'. rs_set reserve now (t, s, k) v u ex (kv, m)
       = (Inr (mk_entry (t, s, k) v now u), (kv', m))"
  using rs_set_total [OF assms(1), of reserve "(t, s, k)" m m now u ex] assms(2)
  by (simp add: meter_set_def)

lemma rs_set_kv_conf:
  assumes "rs_set reserve now a v u ex (kv, m) = (res, (kv', m'))"
  shows "db_backend kv' = db_backend kv \<and> db_bucket kv' = db_bucket kv
     \<and> db_size kv' = db_size kv \<and> addr_ok kv' = addr_ok kv"
proof (cases res)
  case (Inl e)
  with assms show ?thesis by (auto dest: rs_set_fail)
next
  case (Inr e)
  with assms have "kv' = kv\<lparr>db_rows := AList.update a (new_row kv now a v u ex) (db_rows kv),
      db_blobs := new_blobs kv a v\<rparr>" by (auto dest: rs_set_effect(1))
  then show ?thesis by simp
qed

lemma kv_set_rs:
  assumes "kv_set a v u ex w = (res, w')"
  shows "rs_set (reserve_instance_bytes (aw_now w)) (aw_now w) a v u ex (aw_kv w, aw_instances w)
      = (res, (aw_kv w', aw_instances w'))"
    and "w' = w\<lparr>aw_kv := aw_kv w', aw_instances := aw_instances w'\<rparr>"
  using assms by (auto simp: kv_set_def zoom_run split: prod.splits)

text \<open>What one write does: nothing, an unmetered write, or a write with its reservation.\<close>

lemma kv_set_cases:
  assumes inv: "app_inv w" and ok: "addr_ok (aw_kv w) (t, s, k)"
    and set: "kv_set (t, s, k) v u ex w = (res, w')"
  obtains
    (plain) "\<forall>i. shared_scope_instance_id s = Some i \<longrightarrow> inst_read (aw_instances w) t i = None
        \<or> db_size (aw_kv w) v = read_bytes (aw_kv w) (t, s, k)"
      "res = Inr (mk_entry (t, s, k) v (aw_now w) u)" "aw_instances w' = aw_instances w"
  | (refused) i rec where "shared_scope_instance_id s = Some i"
      "inst_read (aw_instances w) t i = Some rec"
      "over_cap rec (int (db_size (aw_kv w) v) - int (read_bytes (aw_kv w) (t, s, k)))"
      "res = Inl (cap_exceeded i rec (int (db_size (aw_kv w) v) - int (read_bytes (aw_kv w) (t, s, k))))"
      "w' = w"
  | (metered) i rec where "shared_scope_instance_id s = Some i"
      "inst_read (aw_instances w) t i = Some rec"
      "\<not> over_cap rec (int (db_size (aw_kv w) v) - int (read_bytes (aw_kv w) (t, s, k)))"
      "res = Inr (mk_entry (t, s, k) v (aw_now w) u)"
      "put_instance (aw_now w) t i (reserved (aw_now w) rec
         (int (db_size (aw_kv w) v) - int (read_bytes (aw_kv w) (t, s, k)))) SVC_SYSTEM_USER
         (aw_instances w) = (Inr (), aw_instances w')"
proof -
  note rs = kv_set_rs(1) [OF set] and w' = kv_set_rs(2) [OF set]
  have st: "storable (aw_kv w) v" by (rule app_inv_storable [OF inv])
  have ii: "db_inv (aw_instances w)" "timeless (aw_instances w)" using inv by (simp_all add: app_inv_def)
  show ?thesis
  proof (cases "shared_scope_instance_id s")
    case None
    obtain kv1 where "rs_set (reserve_instance_bytes (aw_now w)) (aw_now w) (t, s, k) v u ex
        (aw_kv w, aw_instances w) = (Inr (mk_entry (t, s, k) v (aw_now w) u), (kv1, aw_instances w))"
      using rs_set_unshared [OF st None, where reserve = "reserve_instance_bytes (aw_now w)"
          and now = "aw_now w" and t = t and k = k and u = u and ex = ex and m = "aw_instances w"]
      by blast
    with rs None show ?thesis by (intro plain) simp_all
  next
    case (Some i)
    define d where "d = int (db_size (aw_kv w) v) - int (read_bytes (aw_kv w) (t, s, k))"
    obtain r where m: "meter_shared_scope_delta (reserve_instance_bytes (aw_now w)) t s d (aw_instances w)
        = (r, aw_instances w')" and fail: "\<And>e. r = Inl e \<Longrightarrow> res = Inl e \<and> aw_kv w' = aw_kv w"
      using rs_set_split [OF rs Some] unfolding d_def by blast
    have succ: "res = Inr (mk_entry (t, s, k) v (aw_now w) u)" if "r = Inr ()"
    proof -
      from m that have mr: "meter_shared_scope_delta (reserve_instance_bytes (aw_now w)) t s
          (int (db_size (aw_kv w) v) - int (read_bytes (aw_kv w) (t, s, k))) (aw_instances w)
          = (Inr (), aw_instances w')" by (simp add: d_def)
      obtain kv1 where "rs_set (reserve_instance_bytes (aw_now w)) (aw_now w) (t, s, k) v u ex
          (aw_kv w, aw_instances w) = (Inr (mk_entry (t, s, k) v (aw_now w) u), (kv1, aw_instances w'))"
        using rs_set_after_meter [OF st Some mr, where now = "aw_now w" and u = u and ex = ex] by blast
      with rs show ?thesis by simp
    qed
    from ii addr_ok_instance [OF inv ok] app_inv_storable(1) [OF inv] Some m
    show ?thesis
    proof (cases rule: meter_cases)
      case absent
      then show ?thesis using succ Some by (intro plain) (auto simp: d_def)
    next
      case (refused rec)
      then have "w' = w" using fail w' by simp
      with refused fail Some show ?thesis by (intro that(2)) (auto simp: d_def)
    next
      case (applied rec)
      with succ Some show ?thesis by (intro metered) (auto simp: d_def)
    qed
  qed
qed

lemma exact_put:
  assumes inv: "db_inv inst" and tl: "timeless inst" and ok: "addr_ok inst (t, INSTANCES_SCOPE, i)"
    and ex: "exact inst kv"
    and put: "put_instance now t i rec u inst = (Inr (), inst')"
    and rec: "ai_storage rec = int (shared_bytes kv' t i)"
    and other: "\<And>t' i'. \<not> (t' = t \<and> i' = i) \<Longrightarrow> shared_bytes kv' t' i' = shared_bytes kv t' i'"
  shows "exact inst' kv'"
proof -
  note eff = put_instance_effect [OF inv tl ok put]
  show ?thesis
    using ex rec other unfolding exact_iff [OF eff(1,2)] exact_iff [OF inv tl] eff(5)
    by (metis option.inject)
qed

lemma kv_set_inv:
  assumes inv: "app_inv w" and ok: "addr_ok (aw_kv w) a" and set: "kv_set a v u ex w = (res, w')"
  shows "app_inv w' \<and> addr_ok (aw_kv w') = addr_ok (aw_kv w)"
proof -
  obtain t s k where a: "a = (t, s, k)" by (cases a)
  note rs = kv_set_rs(1) [OF set [unfolded a]]
  have kvi: "db_inv (aw_kv w)" and ii: "db_inv (aw_instances w)" "timeless (aw_instances w)"
    and ex: "exact (aw_instances w) (aw_kv w)" using inv by (simp_all add: app_inv_def)
  note iok = addr_ok_instance [OF inv ok [unfolded a]]
  note conf = rs_set_kv_conf [OF rs]
  from inv ok [unfolded a] set [unfolded a] show ?thesis
  proof (cases rule: kv_set_cases)
    case plain
    note rs = rs [unfolded plain(2)]
    have "exact (aw_instances w') (aw_kv w')"
      unfolding plain(3) exact_iff [OF ii]
    proof (intro allI impI)
      fix ws i rec assume r: "inst_read (aw_instances w) ws i = Some rec"
      then have "shared_bytes (aw_kv w') ws i = shared_bytes (aw_kv w) ws i"
        using shared_bytes_set [OF kvi rs, of ws i] plain(1) by (auto split: if_splits)
      with ex [unfolded exact_iff [OF ii]] r show "ai_storage rec = int (shared_bytes (aw_kv w') ws i)"
        by simp
    qed
    with inv conf plain(3) rs_set_inv [OF kvi ok [unfolded a] rs] show ?thesis
      by (simp add: app_inv_def)
  next
    case (refused i rec)
    with inv show ?thesis by simp
  next
    case (metered i rec)
    note rs = rs [unfolded metered(4)] and sb = shared_bytes_set [OF kvi rs [unfolded metered(4)]]
    have st: "ai_storage rec = int (shared_bytes (aw_kv w) t i)"
      using ex [unfolded exact_iff [OF ii]] metered(2) by blast
    have "ai_storage (reserved (aw_now w) rec
        (int (db_size (aw_kv w) v) - int (read_bytes (aw_kv w) (t, s, k))))
        = int (shared_bytes (aw_kv w') t i)"
      using sb [of t i] st metered(1) by (simp add: reserved_def)
    moreover have "shared_bytes (aw_kv w') t' i' = shared_bytes (aw_kv w) t' i'"
      if "\<not> (t' = t \<and> i' = i)" for t' i'
      using sb [of t' i'] that metered(1) by (auto split: if_splits)
    ultimately have "exact (aw_instances w') (aw_kv w')"
      by (rule exact_put [OF ii iok ex metered(5)])
    moreover note put_instance_effect(1,2) [OF ii iok metered(5)]
    moreover have "db_backend (aw_instances w') = db_backend (aw_instances w)
        \<and> db_bucket (aw_instances w') = db_bucket (aw_instances w)"
      using metered(5) unfolding put_instance_def by (rule put_conf_inst)
    ultimately show ?thesis
      using inv conf rs_set_inv [OF kvi ok [unfolded a] rs] by (simp add: app_inv_def)
  qed
qed

section \<open>Deletions\<close>

lemma kv_delete_rs:
  assumes "kv_delete a w = (res, w')"
  shows "rs_delete (reserve_instance_bytes (aw_now w)) a (aw_kv w, aw_instances w)
      = (res, (aw_kv w', aw_instances w'))"
    and "w' = w\<lparr>aw_kv := aw_kv w', aw_instances := aw_instances w'\<rparr>"
  using assms by (auto simp: kv_delete_def zoom_run split: prod.splits)

lemma meter_unshared [simp]:
  "shared_scope_instance_id s = None \<Longrightarrow> meter_shared_scope_delta reserve t s d m = (Inr (), m)"
  by (simp add: meter_shared_scope_delta_def)

text \<open>A deletion meters the stamp of the row it removes, and only that.\<close>

lemma rs_delete_meter:
  assumes "rs_delete reserve (t, s, k) (kv, m) = (res, (kv', m'))"
  obtains "m' = m" "res = Inr (map_of (db_rows kv) (t, s, k) \<noteq> None)"
      "shared_scope_instance_id s = None \<or> read_bytes kv (t, s, k) = 0"
  | r where "read_bytes kv (t, s, k) > 0"
      "meter_shared_scope_delta reserve t s (- int (read_bytes kv (t, s, k))) m = (r, m')"
      "res = map_sum id (\<lambda>_. True) r"
proof (cases "map_of (db_rows kv) (t, s, k)")
  case None
  with assms that(1) show ?thesis
    by (auto simp: rs_delete_def sqlite_delete_def dsql_delete_def read_bytes_def
        split: backend.splits)
next
  case (Some r)
  show ?thesis
  proof (cases "shared_scope_instance_id s = None \<or> read_bytes kv (t, s, k) = 0")
    case True
    with assms Some that(1) show ?thesis
      by (auto simp: rs_delete_def sqlite_delete_def dsql_delete_def read_bytes_def Let_def
          split: backend.splits option.splits if_splits)
  next
    case False
    with assms Some that(2) show ?thesis
      by (auto simp: rs_delete_def sqlite_delete_def dsql_delete_def read_bytes_def Let_def
          split: backend.splits option.splits if_splits sum.splits prod.splits)
  qed
qed

lemma kv_delete_inv:
  assumes inv: "app_inv w" and ok: "addr_ok (aw_kv w) a" and del: "kv_delete a w = (res, w')"
  shows "app_inv w' \<and> addr_ok (aw_kv w') = addr_ok (aw_kv w)
     \<and> res = Inr (map_of (db_rows (aw_kv w)) a \<noteq> None)"
proof -
  obtain t s k where a: "a = (t, s, k)" by (cases a)
  note rs = kv_delete_rs(1) [OF del [unfolded a]]
  have kvi: "db_inv (aw_kv w)" and ii: "db_inv (aw_instances w)" "timeless (aw_instances w)"
    and ex: "exact (aw_instances w) (aw_kv w)" using inv by (simp_all add: app_inv_def)
  note iok = addr_ok_instance [OF inv ok [unfolded a]]
  note sb = shared_bytes_delete [OF kvi rs]
  have conf: "db_backend (aw_kv w') = db_backend (aw_kv w)" "db_bucket (aw_kv w') = db_bucket (aw_kv w)"
    "addr_ok (aw_kv w') = addr_ok (aw_kv w)"
    using rs_delete_effect(1) [OF rs] by simp_all
  note kvi' = rs_delete_inv [OF kvi ok [unfolded a] rs]
  have found: "map_of (db_rows (aw_kv w)) (t, s, k) \<noteq> None" if "read_bytes (aw_kv w) (t, s, k) > 0"
    using that by (auto simp: read_bytes_def split: option.splits)
  have same: "app_inv w'" if i: "aw_instances w' = aw_instances w"
    and b: "\<And>i. shared_scope_instance_id s = Some i \<Longrightarrow>
        inst_read (aw_instances w) t i = None \<or> read_bytes (aw_kv w) (t, s, k) = 0"
  proof -
    have "exact (aw_instances w') (aw_kv w')"
      unfolding i exact_iff [OF ii]
    proof (intro allI impI)
      fix ws j rec assume r: "inst_read (aw_instances w) ws j = Some rec"
      then have "shared_bytes (aw_kv w') ws j = shared_bytes (aw_kv w) ws j"
        using sb [of ws j] b [of j] by (auto split: if_splits)
      with ex [unfolded exact_iff [OF ii]] r show "ai_storage rec = int (shared_bytes (aw_kv w') ws j)"
        by simp
    qed
    with inv conf i kvi' show ?thesis by (simp add: app_inv_def)
  qed
  from rs show ?thesis
  proof (cases rule: rs_delete_meter)
    case 1
    then have "app_inv w'" by (intro same) auto
    with 1 conf show ?thesis by (simp add: a)
  next
    case (2 r)
    show ?thesis
    proof (cases "shared_scope_instance_id s")
      case None
      with 2(2) have "r = Inr ()" "aw_instances w' = aw_instances w" by simp_all
      with 2 None found show ?thesis using same conf by (simp add: a)
    next
      case (Some i)
      from ii iok app_inv_storable(1) [OF inv] Some 2(2) show ?thesis
      proof (cases rule: meter_cases)
        case absent
        with 2 Some found show ?thesis using same conf by (simp add: a)
      next
        case (refused rec)
        then show ?thesis by (simp add: over_cap_def)
      next
        case (applied rec)
        have st: "ai_storage rec = int (shared_bytes (aw_kv w) t i)"
          using ex [unfolded exact_iff [OF ii]] applied(1) by blast
        have "ai_storage (reserved (aw_now w) rec (- int (read_bytes (aw_kv w) (t, s, k))))
            = int (shared_bytes (aw_kv w') t i)"
          using sb [of t i] st Some by (simp add: reserved_def)
        moreover have "shared_bytes (aw_kv w') t' i' = shared_bytes (aw_kv w) t' i'"
          if "\<not> (t' = t \<and> i' = i)" for t' i'
          using sb [of t' i'] that Some by (auto split: if_splits)
        ultimately have "exact (aw_instances w') (aw_kv w')"
          by (rule exact_put [OF ii iok ex applied(5)])
        moreover note put_instance_effect(1,2) [OF ii iok applied(5)]
        moreover have "db_backend (aw_instances w') = db_backend (aw_instances w)
            \<and> db_bucket (aw_instances w') = db_bucket (aw_instances w)"
          using applied(5) unfolding put_instance_def by (rule put_conf_inst)
        ultimately have "app_inv w'" using inv conf kvi' by (simp add: app_inv_def)
        with applied(4) 2 conf found show ?thesis by (simp add: a)
      qed
    qed
  qed
qed

section \<open>Runs of the data plane\<close>

datatype 'v kv_op = KvSet addr 'v string "int option" | KvDelete addr | Wait int

fun kv_step :: "'v kv_op \<Rightarrow> ('v, 'f) app_world \<Rightarrow> ('v, 'f) app_world" where
  "kv_step (KvSet a v u ex) w = snd (kv_set a v u ex w)"
| "kv_step (KvDelete a) w = snd (kv_delete a w)"
| "kv_step (Wait d) w = w\<lparr>aw_now := aw_now w + d\<rparr>"

fun kv_run :: "'v kv_op list \<Rightarrow> ('v, 'f) app_world \<Rightarrow> ('v, 'f) app_world" where
  "kv_run [] w = w"
| "kv_run (op # ops) w = kv_run ops (kv_step op w)"

fun op_ok :: "'v db \<Rightarrow> 'v kv_op \<Rightarrow> bool" where
  "op_ok db (KvSet a v u ex) = addr_ok db a"
| "op_ok db (KvDelete a) = addr_ok db a"
| "op_ok db (Wait d) = True"

lemma op_ok_cong: "addr_ok db' = addr_ok db \<Longrightarrow> op_ok db' op = op_ok db op"
  by (cases op) simp_all

lemma kv_step_inv:
  assumes "app_inv w" and "op_ok (aw_kv w) op"
  shows "app_inv (kv_step op w) \<and> addr_ok (aw_kv (kv_step op w)) = addr_ok (aw_kv w)"
proof (cases op)
  case (KvSet a v u ex)
  obtain res w' where "kv_set a v u ex w = (res, w')" by (cases "kv_set a v u ex w")
  with kv_set_inv [OF assms(1)] assms(2) KvSet show ?thesis by simp
next
  case (KvDelete a)
  obtain res w' where "kv_delete a w = (res, w')" by (cases "kv_delete a w")
  with kv_delete_inv [OF assms(1)] assms(2) KvDelete show ?thesis by simp
next
  case (Wait d)
  with assms show ?thesis by (simp add: app_inv_def)
qed

text \<open>What one step does to the record of one instance.\<close>

lemma reserved_cap [simp]:
  "ai_cap (reserved now rec d) = ai_cap rec" "ai_app (reserved now rec d) = ai_app rec"
  by (simp_all add: reserved_def)

lemma storage_nonneg:
  assumes "app_inv w" and "inst_read (aw_instances w) ws i = Some rec"
  shows "0 \<le> ai_storage rec"
proof -
  have "db_inv (aw_instances w)" "timeless (aw_instances w)" "exact (aw_instances w) (aw_kv w)"
    using assms(1) by (simp_all add: app_inv_def)
  with assms(2) have "ai_storage rec = int (shared_bytes (aw_kv w) ws i)"
    using exact_iff by blast
  then show ?thesis by simp
qed

lemma kv_step_instance:
  assumes inv: "app_inv w" and ok: "op_ok (aw_kv w) op"
    and rec: "inst_read (aw_instances w) ws i = Some rec"
  shows "\<exists>rec'. inst_read (aw_instances (kv_step op w)) ws i = Some rec' \<and> ai_cap rec' = ai_cap rec \<and> ai_app rec' = ai_app rec
     \<and> (case ai_cap rec of None \<Rightarrow> True | Some c \<Rightarrow> ai_storage rec' \<le> max c (ai_storage rec))"
proof -
  have ii: "db_inv (aw_instances w)" "timeless (aw_instances w)" using inv by (simp_all add: app_inv_def)
  have refl: "\<exists>rec'. inst_read (aw_instances w) ws i = Some rec' \<and> ai_cap rec' = ai_cap rec \<and> ai_app rec' = ai_app rec
     \<and> (case ai_cap rec of None \<Rightarrow> True | Some c \<Rightarrow> ai_storage rec' \<le> max c (ai_storage rec))"
    using rec by (auto split: option.split)
  show ?thesis
  proof (cases op)
    case (KvSet a v u ex)
    obtain t s k where a: "a = (t, s, k)" by (cases a)
    obtain res w' where set: "kv_set (t, s, k) v u ex w = (res, w')"
      by (cases "kv_set (t, s, k) v u ex w")
    have aok: "addr_ok (aw_kv w) (t, s, k)" using ok KvSet a by simp
    have w': "kv_step op w = w'" using KvSet a set by simp
    from inv aok set show ?thesis
    proof (cases rule: kv_set_cases)
      case plain
      with refl w' show ?thesis by simp
    next
      case refused
      with refl w' show ?thesis by simp
    next
      case (metered j rec0)
      note eff = put_instance_effect(5) [OF ii addr_ok_instance [OF inv aok] metered(5)]
      have st: "0 \<le> ai_storage rec" by (rule storage_nonneg [OF inv rec])
      show ?thesis
        using metered(2,3) rec st unfolding w' eff
        by (auto simp: over_cap_def reserved_def split: option.splits)
    qed
  next
    case (KvDelete a)
    obtain t s k where a: "a = (t, s, k)" by (cases a)
    obtain res w' where del: "kv_delete (t, s, k) w = (res, w')" by (cases "kv_delete (t, s, k) w")
    have aok: "addr_ok (aw_kv w) (t, s, k)" using ok KvDelete a by simp
    have w': "kv_step op w = w'" using KvDelete a del by simp
    from kv_delete_rs(1) [OF del] show ?thesis
    proof (cases rule: rs_delete_meter)
      case 1
      with refl w' show ?thesis by simp
    next
      case (2 r)
      show ?thesis
      proof (cases "shared_scope_instance_id s")
        case None
        with 2 refl w' show ?thesis by simp
      next
        case (Some j)
        from ii addr_ok_instance [OF inv aok] app_inv_storable(1) [OF inv] Some 2(2) show ?thesis
        proof (cases rule: meter_cases)
          case absent
          with refl w' show ?thesis by simp
        next
          case (refused rec0)
          then show ?thesis by (simp add: over_cap_def)
        next
          case (applied rec0)
          note eff = put_instance_effect(5) [OF ii addr_ok_instance [OF inv aok] applied(5)]
          have st: "0 \<le> ai_storage rec" by (rule storage_nonneg [OF inv rec])
          show ?thesis
            using applied(1) rec st unfolding w' eff
            by (auto simp: reserved_def split: option.splits)
        qed
      qed
    qed
  next
    case (Wait d)
    with refl show ?thesis by simp
  qed
qed

lemma kv_run_inv:
  "app_inv w \<Longrightarrow> \<forall>op \<in> set ops. op_ok (aw_kv w) op \<Longrightarrow> app_inv (kv_run ops w)"
proof (induction ops arbitrary: w)
  case (Cons op ops)
  have step: "app_inv (kv_step op w)" and ok: "addr_ok (aw_kv (kv_step op w)) = addr_ok (aw_kv w)"
    using kv_step_inv [of w op] Cons.prems by simp_all
  have "\<forall>op' \<in> set ops. op_ok (aw_kv (kv_step op w)) op'"
    using Cons.prems(2) op_ok_cong [OF ok] by simp
  with Cons.IH step show ?case by simp
qed simp

lemma kv_run_cap:
  assumes "app_inv w" and "\<forall>op \<in> set ops. op_ok (aw_kv w) op"
    and "inst_read (aw_instances w) ws i = Some rec" and "ai_cap rec = Some c" and "ai_storage rec \<le> c"
  shows "\<exists>rec'. inst_read (aw_instances (kv_run ops w)) ws i = Some rec' \<and> ai_cap rec' = Some c
     \<and> ai_storage rec' \<le> c"
  using assms
proof (induction ops arbitrary: w rec)
  case (Cons op ops)
  have op: "op_ok (aw_kv w) op" using Cons.prems(2) by simp
  have step: "app_inv (kv_step op w)" and ok: "addr_ok (aw_kv (kv_step op w)) = addr_ok (aw_kv w)"
    using kv_step_inv [OF Cons.prems(1) op] by simp_all
  have ops: "\<forall>op' \<in> set ops. op_ok (aw_kv (kv_step op w)) op'"
    using Cons.prems(2) op_ok_cong [OF ok] by simp
  obtain rec1 where r1: "inst_read (aw_instances (kv_step op w)) ws i = Some rec1"
    "ai_cap rec1 = Some c" "ai_storage rec1 \<le> c"
    using kv_step_instance [OF Cons.prems(1) op Cons.prems(3)] Cons.prems(4,5) by auto
  from Cons.IH [OF step ops r1] show ?case by simp
qed simp

end
