(* ===== verification/Store_Properties.thy ===== *)
theory Store_Properties
  imports Metering
begin

text \<open>
  What the record store, the reserved scopes, the instance records and the metering guarantee,
  stated over the definitions that model \<^verbatim>\<open>records.ts\<close>, \<^verbatim>\<open>svc-records.ts\<close> and
  \<^verbatim>\<open>apps/instances.ts\<close>, with concrete stores on which the hypotheses hold.
\<close>

section \<open>A concrete store\<close>

text \<open>Values are numbers whose JSON size is the number itself.\<close>

definition demo_db :: "backend \<Rightarrow> nat db" where
  "demo_db b = \<lparr>db_backend = b, db_bucket = True, db_size = (\<lambda>n. n), db_null = 0,
     db_rows = [], db_blobs = []\<rparr>"

lemma demo_db_inv [simp]: "db_inv (demo_db b)"
  by (simp add: db_inv_def demo_db_def)

lemma demo_db_storable [simp]: "storable (demo_db b) v"
  by (simp add: storable_def demo_db_def)

lemma demo_db_ok [simp]: "slash_free a \<Longrightarrow> addr_ok (demo_db b) a"
  by (simp add: addr_ok_def)

section \<open>The record store\<close>

text \<open>C1: Both backends of the record store implement the abstract map of timestamped values:
  a read returns what the map holds and is live, a successful write (spilled to the blob
  store or not) and a deletion change the map at the address and nowhere else, and each keeps
  the store well formed.\<close>

theorem record_store_refines:
  assumes inv: "db_inv db" and ok: "addr_ok db a"
    and set: "rs_set reserve now a v u ex (db, m) = (Inr e, (db1, m1))"
    and del: "rs_delete reserve a (db, m) = (res, (db2, m2))"
  shows "rs_get now' db b = Inr (spec_get now' (abs_db db) b)
    \<and> e = mk_entry a v now u \<and> db_inv db1
    \<and> abs_db db1 = spec_set now a v u (norm_expiry db ex) (abs_db db)
    \<and> db_inv db2 \<and> abs_db db2 = spec_delete a (abs_db db)"
  using rs_get_abs [OF inv] rs_set_result(1) [OF set] rs_set_inv [OF inv ok set]
    rs_set_abs [OF inv ok set] rs_delete_inv [OF inv ok del] rs_delete_abs [OF inv ok del]
  by simp

theorem record_store_refines_witness:
  "\<exists>db1 db2. rs_set (\<lambda>_ _ _. ret ()) 5 (''w'', ''s'', ''k'') 400000 ''u'' None (demo_db Dsql, ())
      = (Inr (mk_entry (''w'', ''s'', ''k'') 400000 5 ''u''), (db1, ()))
    \<and> rs_get 9 db1 (''w'', ''s'', ''k'') = Inr (Some (mk_entry (''w'', ''s'', ''k'') 400000 5 ''u''))
    \<and> rw_spilled (snd (hd (db_rows db1)))
    \<and> abs_db (db2 :: nat db) (''w'', ''s'', ''k'') = None"
proof -
  let ?a = "(''w'', ''s'', ''k'')"
  have ok: "addr_ok (demo_db Dsql) ?a" by (simp add: slash_free_def)
  obtain db1 where set: "rs_set (\<lambda>_ _ _. ret ()) 5 ?a 400000 ''u'' None (demo_db Dsql, ())
      = (Inr (mk_entry ?a 400000 5 ''u''), (db1, ()))"
    using rs_set_total [OF demo_db_storable [of Dsql 400000], of "\<lambda>_ _ _. ret ()" ?a "()" "()" 5 "''u''" None]
    by (auto simp: meter_set_noop)
  obtain b db2 where del: "rs_delete (\<lambda>_ _ _. ret ()) ?a (demo_db Dsql, ()) = (Inr b, (db2, ()))"
    using rs_delete_noop_total by blast
  note all = record_store_refines [OF demo_db_inv ok set del]
  have sp: "rw_spilled (snd (hd (db_rows db1)))"
    using rs_set_effect(1) [OF set]
    by (simp add: demo_db_def new_row_def new_spill_def SPILL_THRESHOLD_BYTES_def)
  have "rs_get 9 db1 ?a = Inr (spec_get 9 (abs_db db1) ?a)"
    using all by (intro rs_get_abs) simp
  also have "\<dots> = Inr (Some (mk_entry ?a 400000 5 ''u''))"
    using all by (simp add: spec_get_def spec_set_def cell_live_def norm_expiry_def dsql_expiry_def demo_db_def)
  finally have get: "rs_get 9 db1 ?a = Inr (Some (mk_entry ?a 400000 5 ''u''))" .
  have gone: "abs_db db2 ?a = None" using all by (simp add: spec_delete_def)
  show ?thesis by (intro exI conjI) (rule set get sp gone)+
qed

text \<open>The DSQL prefix scan, whose pattern escapes every character LIKE treats specially,
  returns exactly the live keys of the scope that begin with the literal prefix, sorted and
  without duplicates.\<close>

theorem dsql_list_exact:
  assumes "db_inv db"
  shows "set (dsql_list now db t s pre) = spec_keys now (abs_db db) t s pre
    \<and> sorted (dsql_list now db t s pre) \<and> distinct (dsql_list now db t s pre)"
proof (intro conjI set_eqI)
  fix k
  show "k \<in> set (dsql_list now db t s pre) \<longleftrightarrow> k \<in> spec_keys now (abs_db db) t s pre"
    unfolding dsql_list_scan scan_keys_mem [OF db_inv_wf [OF assms]] spec_keys_def spec_get_live
    by simp
  show "sorted (dsql_list now db t s pre)" by (simp add: dsql_list_def)
  show "distinct (dsql_list now db t s pre)"
    unfolding dsql_list_scan by (rule scan_keys_distinct [OF db_inv_wf [OF assms]])
qed

definition one_row :: "nat \<Rightarrow> nat row" where
  "one_row n = \<lparr>rw_value = Some n, rw_spilled = False, rw_updated_at = 0, rw_updated_by = ''u'',
     rw_expires = None, rw_bytes = None\<rparr>"

lemma one_row_inv:
  "slash_free (t, s, []) \<Longrightarrow> distinct ks \<Longrightarrow>
   db_inv ((demo_db b)\<lparr>db_rows := map (\<lambda>k. ((t, s, k), one_row 1)) ks\<rparr>)"
proof (rule db_invI)
  assume "distinct ks"
  then show "wf_map (db_rows ((demo_db b)\<lparr>db_rows := map (\<lambda>k. ((t, s, k), one_row 1)) ks\<rparr>))"
    by (simp add: wf_map_def o_def distinct_map inj_on_def)
next
  fix a r
  assume sl: "slash_free (t, s, [])"
    and "map_of (db_rows ((demo_db b)\<lparr>db_rows := map (\<lambda>k. ((t, s, k), one_row 1)) ks\<rparr>)) a = Some r"
  then have "r = one_row 1" and "\<exists>k. a = (t, s, k)"
    by (auto dest!: map_of_SomeD)
  with sl show "row_ok ((demo_db b)\<lparr>db_rows := map (\<lambda>k. ((t, s, k), one_row 1)) ks\<rparr>) a r"
    by (auto simp: row_ok_def one_row_def addr_ok_def slash_free_def)
qed

definition scan_demo :: "backend \<Rightarrow> nat db" where
  "scan_demo b = (demo_db b)\<lparr>db_rows := map (\<lambda>k. ((''w'', ''s'', k), one_row 1)) [''a_2'', ''A_1'', ''ab3'']\<rparr>"

lemma scan_demo_inv: "db_inv (scan_demo b)"
  unfolding scan_demo_def by (rule one_row_inv) (simp_all add: slash_free_def)

theorem dsql_list_exact_witness:
  "dsql_list 7 (scan_demo Dsql) ''w'' ''s'' ''a_'' = [''a_2'']
   \<and> ''a_2'' \<in> spec_keys 7 (abs_db (scan_demo Dsql)) ''w'' ''s'' ''a_''"
proof -
  have "dsql_list 7 (scan_demo Dsql) ''w'' ''s'' ''a_'' = [''a_2'']"
    by (simp add: dsql_list_scan scan_keys_def scan_demo_def demo_db_def row_live_def one_row_def)
  then show ?thesis
    using dsql_list_exact [OF scan_demo_inv, of 7 Dsql "''w''" "''s''" "''a_''"] by auto
qed

text \<open>The SQLite scan is not the prefix scan the interface promises: on a store holding
  the keys \<^verbatim>\<open>a_2\<close>, \<^verbatim>\<open>A_1\<close> and \<^verbatim>\<open>ab3\<close>, listing the prefix \<^verbatim>\<open>a_\<close> also returns \<^verbatim>\<open>A_1\<close>, because SQLite's
  LIKE ignores case; the DSQL scan of the same rows does not.\<close>

theorem sqlite_list_ignores_case:
  "sqlite_list 7 (scan_demo Sqlite) ''w'' ''s'' ''a_'' = [''A_1'', ''a_2'']
   \<and> ''A_1'' \<notin> spec_keys 7 (abs_db (scan_demo Sqlite)) ''w'' ''s'' ''a_''
   \<and> dsql_list 7 (scan_demo Dsql) ''w'' ''s'' ''a_'' = [''a_2'']"
proof -
  have p: "like True backslash (sqlite_prefix_pattern ''a_'') k \<longleftrightarrow>
      starts_with (map lower_char k) (map lower_char ''a_'')" for k
    by (rule like_sqlite_prefix) simp
  have lc: "lower_char CHR ''A'' = CHR ''a''" "lower_char CHR ''a'' = CHR ''a''"
    "lower_char CHR ''_'' = CHR ''_''" "lower_char CHR ''1'' = CHR ''1''"
    "lower_char CHR ''2'' = CHR ''2''" "lower_char CHR ''b'' = CHR ''b''"
    "lower_char CHR ''3'' = CHR ''3''"
    by code_simp+
  have lt: "CHR ''A'' < CHR ''a''" by (simp add: less_char_def)
  show ?thesis
    unfolding sqlite_list_scan dsql_list_scan p
    using lt by (simp add: scan_keys_def scan_demo_def demo_db_def row_live_def one_row_def lc
        spec_keys_def less_imp_not_less)
qed

section \<open>Reserved scopes and sequence keys\<close>

text \<open>A caller-supplied scope is accepted exactly when it is outside the reserved namespace
  and, if it is a private user scope, names the caller: no caller, whatever their standing,
  reaches the platform's own records or another user's private scope.\<close>

theorem caller_scope_exact:
  "assert_caller_scope scope label sub = Inr () \<longleftrightarrow>
     \<not> starts_with scope ''svc#'' \<and>
     (if starts_with scope ''user#''
      then \<exists>me. me \<noteq> [] \<and> sub = Some me \<and> scope = user_record_scope me else True)"
proof (cases "starts_with scope ''user#''")
  case True
  then obtain r where "scope = ''user#'' @ r" by (auto simp: starts_with_iff)
  then show ?thesis
    by (auto simp: assert_caller_scope_def is_system_scope_def SVC_SCOPE_PREFIX_def
        user_record_scope_def)
next
  case False
  then show ?thesis
    by (simp add: assert_caller_scope_def is_system_scope_def SVC_SCOPE_PREFIX_def)
qed

text \<open>The keys of append logs: a sequence number below ten to the ten and any id (also one
  with hash signs) are read back from the key, and keys of larger numbers sort after keys of
  smaller ones as strings, so the lexical key order of the store is the append order.\<close>

theorem seq_key_roundtrip_order:
  assumes "n < 10 ^ 10" and "m < 10 ^ 10"
  shows "parse_seq_key (seq_key n i) = Some (int n, i) \<and> (n < m \<longrightarrow> seq_key n i < seq_key m j)"
proof -
  let ?p = "\<lambda>n. pad_start SEQ_WIDTH CHR ''0'' (show_nat n)"
  have len: "length (?p k) = SEQ_WIDTH" if "k < 10 ^ 10" for k
    using that by (intro pad_length seq_width_ok)
  have num: "js_number (?p n) = Some (int n)"
  proof -
    have "?p n \<noteq> []" using len [OF assms(1)] by (cases "?p n") (simp_all add: SEQ_WIDTH_def)
    from js_number_digits [OF this pad_digits] show ?thesis by (simp add: pad_value)
  qed
  have "index_of CHR ''#'' (seq_key n i) = Some SEQ_WIDTH"
    using index_of_first [OF no_hash_digits [OF pad_digits [of SEQ_WIDTH n]], of i] len [OF assms(1)]
    by (simp add: seq_key_def)
  moreover have "take SEQ_WIDTH (seq_key n i) = ?p n" and "drop (Suc SEQ_WIDTH) (seq_key n i) = i"
    using len [OF assms(1)] by (simp_all add: seq_key_def)
  moreover have "seq_key n i < seq_key m j" if "n < m"
    unfolding seq_key_def
    by (rule digits_less_lex) (use that len [OF assms(1)] len [OF assms(2)] pad_digits pad_value in simp_all)
  ultimately show ?thesis using num by (simp add: parse_seq_key_def)
qed

theorem seq_key_roundtrip_order_witness:
  "parse_seq_key (seq_key 9 ''a#b'') = Some (9, ''a#b'') \<and> seq_key 9 ''z'' < seq_key 10 ''a''"
  using seq_key_roundtrip_order [of 9 10 "''a#b''" "[]"] seq_key_roundtrip_order [of 9 10 "''z''" "''a''"]
  by simp

text \<open>Clearing a document scope reports how it went and leaves no readable document in the
  scope, for every document type, while documents of other scopes and workspaces stay as
  they were.\<close>

theorem delete_svc_scope_clears:
  assumes inv: "db_inv db" and ok: "\<And>k. addr_ok db (ws, scope, k)"
  shows "\<exists>n db'. delete_svc_scope now ws scope [] db = (Inr n, db') \<and> db_inv db'
    \<and> read_svc_record now db' ws scope key = Inr None
    \<and> ((ws', scope') \<noteq> (ws, scope) \<longrightarrow>
        read_svc_record now db' ws' scope' key = read_svc_record now db ws' scope' key)"
proof -
  let ?ks = "list_docs now db ws scope"
  let ?db = "rs.del_keys ws scope ?ks db"
  obtain n where "delete_svc_scope now ws scope [] db = (Inr n, ?db)"
    using delete_docs_del_keys [of ws scope ?ks db]
    by (auto simp: delete_svc_scope_def list_docs_def)
  moreover have "db_inv ?db" and "(ws', scope') \<noteq> (ws, scope) \<longrightarrow>
      rs_get now ?db (ws', scope', key) = rs_get now db (ws', scope', key)"
    using rs.del_keys_get [OF inv, of ?ks ws scope now "(ws', scope', key)"] ok by auto
  moreover have "rs_get now ?db (ws, scope, key) = Inr None"
    by (rule rs.del_all_empty [OF inv ok])
  ultimately show ?thesis by (auto simp: read_svc_record_def)
qed

theorem delete_svc_scope_clears_witness:
  "\<exists>n db'. delete_svc_scope 3 ''w'' ''s'' [] (scan_demo Dsql) = (Inr n, db')
    \<and> read_svc_record 3 db' ''w'' ''s'' ''a_2'' = Inr None"
proof -
  have "\<And>k. addr_ok (scan_demo Dsql) (''w'', ''s'', k)"
    by (simp add: addr_ok_def slash_free_def)
  from delete_svc_scope_clears [OF scan_demo_inv this, of 3 "''a_2''" "[]" "[]"]
  show ?thesis by blast
qed

end
