(* ===== verification/Instance_Properties.thy ===== *)
theory Instance_Properties
  imports Store_Properties
begin

text \<open>
  The guarantees of shared application instances: who may open one, what changing the
  participant list does, and the exactness and the bound of the storage metering that ties
  \<^verbatim>\<open>apps/instances.ts\<close> to \<^verbatim>\<open>records.ts\<close>.
\<close>

section \<open>A concrete world\<close>

definition demo_env :: "hosting_mode \<Rightarrow> unit inst_env" where
  "demo_env h = \<lparr>ie_install = (\<lambda>_ _. Some (Some h)), ie_member = (\<lambda>_ s. s = ''ann''),
     ie_file_sizes = (\<lambda>_ _ _. []), ie_remove_prefix = (\<lambda>_ _ f. f)\<rparr>"

definition demo_instance :: app_instance where
  "demo_instance = \<lparr>ai_id = ''i1'', ai_app = ''board'', ai_host_ws = ''w'', ai_created_by = ''ann'',
     ai_created_at = 0, ai_updated_at = 0, ai_participants = [''ann'', ''bob''],
     ai_cap = Some 10, ai_storage = 0\<rparr>"

definition demo_instances :: "backend \<Rightarrow> app_instance db" where
  "demo_instances b = \<lparr>db_backend = b, db_bucket = True, db_size = (\<lambda>_. 100), db_null = demo_instance,
     db_rows = [((''w'', INSTANCES_SCOPE, ''i1''),
       \<lparr>rw_value = Some demo_instance, rw_spilled = False, rw_updated_at = 0, rw_updated_by = ''ann'',
        rw_expires = None, rw_bytes = None\<rparr>)], db_blobs = []\<rparr>"

definition demo_world :: "backend \<Rightarrow> (nat, unit) app_world" where
  "demo_world b = \<lparr>aw_now = 50, aw_instances = demo_instances b, aw_kv = demo_db b, aw_files = ()\<rparr>"

abbreviation board_scope :: string where
  "board_scope \<equiv> ''app#board#shared#i1''"

lemma board_scope_shared [simp]: "shared_scope_instance_id board_scope = Some ''i1''"
  by (simp add: shared_scope_instance_id_def)

lemma demo_instances_inv [simp]: "db_inv (demo_instances b)"
proof (rule db_invI)
  show "wf_map (db_rows (demo_instances b))" by (simp add: demo_instances_def wf_map_def)
  fix a r assume "map_of (db_rows (demo_instances b)) a = Some r"
  with scope_slash_free show "row_ok (demo_instances b) a r"
    by (auto simp: demo_instances_def row_ok_def addr_ok_def slash_free_def split: if_splits)
qed

lemma demo_read: "read_svc_record now (demo_instances b) ws INSTANCES_SCOPE i =
    Inr (if ws = ''w'' \<and> i = ''i1'' then Some demo_instance else None)"
  by (cases b) (auto simp: read_svc_record_def rs_get_def sqlite_get_def dsql_get_def
      demo_instances_def row_live_def)

lemma demo_timeless [simp]: "timeless (demo_instances b)"
  by (simp add: timeless_def demo_read)

lemma demo_world_inv: "app_inv (demo_world b)"
  by (auto simp: app_inv_def demo_world_def exact_def demo_read demo_instance_def
      shared_bytes_def split: if_splits)
    (simp_all add: demo_instances_def demo_db_def)

section \<open>Who may open an instance\<close>

text \<open>Opening an instance succeeds exactly for a listed participant of that app's instance
  who, where the app's hosting is managed, is also a member of the hosting workspace; in every
  other case, an unknown id included, the answer is the same 404 and nothing is changed, so a
  refused caller cannot tell an instance they may not open from one that does not exist.\<close>

theorem instance_access_exact:
  assumes "db_inv db" and "read_svc_record now db ws INSTANCES_SCOPE iid = Inr found"
  shows "assert_instance_access env now ws app iid sub db =
    (case found of
       None \<Rightarrow> (Inl (ServiceError (''Not found: instance '' @ iid) 404), db)
     | Some rec \<Rightarrow>
         if ai_app rec = app \<and> sub \<in> set (ai_participants rec) \<and>
            (ie_install env (ai_host_ws rec) (ai_app rec) = Some (Some Hosted)
             \<or> ie_member env (ai_host_ws rec) sub)
         then (Inr rec, db)
         else (Inl (ServiceError (''Not found: instance '' @ iid) 404), db))"
proof -
  have hosted: "resolve_hosting_mode env hw a \<noteq> Managed \<longleftrightarrow> ie_install env hw a = Some (Some Hosted)"
    for hw a
    by (auto simp: resolve_hosting_mode_def split: option.splits intro: hosting_mode.exhaust)
  show ?thesis
    unfolding access_result [OF assms(2)]
    by (auto simp: may_access_def deny_instance_def hosted [symmetric] split: option.split)
qed

theorem instance_access_exact_witness:
  "assert_instance_access (demo_env Managed) 5 ''w'' ''board'' ''i1'' ''ann'' (demo_instances Dsql)
     = (Inr demo_instance, demo_instances Dsql)
   \<and> assert_instance_access (demo_env Managed) 5 ''w'' ''board'' ''i1'' ''bob'' (demo_instances Dsql)
     = (Inl (ServiceError ''Not found: instance i1'' 404), demo_instances Dsql)"
  by (simp add: instance_access_exact [OF demo_instances_inv demo_read] demo_instance_def demo_env_def)

section \<open>The participant list\<close>

lemma access_inst_read:
  assumes "db_inv db" and "timeless db"
  shows "assert_instance_access env now ws app iid sub db =
    (case inst_read db ws iid of
       None \<Rightarrow> (Inl (deny_instance iid), db)
     | Some rec \<Rightarrow> if may_access env app sub rec then (Inr rec, db)
                 else (Inl (deny_instance iid), db))"
  by (rule access_result [OF inst_read_iff [OF assms]])

lemma require_inst_read:
  assumes "db_inv db" and "timeless db"
  shows "require_instance now ws iid db =
    (case inst_read db ws iid of
       None \<Rightarrow> (Inl (ServiceError (''Unknown instance: '' @ iid) 404), db)
     | Some rec \<Rightarrow> (Inr rec, db))"
  using inst_read_iff [OF assms, of now ws iid]
  by (auto simp: require_instance_found require_instance_missing split: option.split)

lemma remove_effect:
  assumes inv: "db_inv db" "timeless db" "addr_ok db (ws, INSTANCES_SCOPE, iid)"
    and rm: "remove_participant now ws iid sub actor db = (Inr rec', db')"
  obtains rec where "inst_read db ws iid = Some rec" "inst_read db' ws iid = Some rec'"
    "ai_participants rec' = filter (\<lambda>p. p \<noteq> sub) (ai_participants rec)"
    "ai_app rec' = ai_app rec" "ai_host_ws rec' = ai_host_ws rec" "db_inv db'" "timeless db'"
proof -
  from rm obtain rec where rec: "inst_read db ws iid = Some rec"
    by (auto simp: remove_participant_def bindM_run require_inst_read [OF inv(1,2)]
        split: option.splits)
  show ?thesis
  proof (cases "sub \<in> set (ai_participants rec)")
    case True
    let ?r = "rec\<lparr>ai_participants := filter (\<lambda>p. p \<noteq> sub) (ai_participants rec), ai_updated_at := now\<rparr>"
    from rm rec True have put: "put_instance now ws iid ?r actor db = (Inr (), db')" and r: "rec' = ?r"
      by (auto simp: remove_participant_def bindM_run require_inst_read [OF inv(1,2)] Let_def
          thenM_run split: sum.splits prod.splits)
    note eff = put_instance_effect [OF inv put]
    show ?thesis by (rule that [OF rec]) (use eff r in auto)
  next
    case False
    then have "filter (\<lambda>p. p \<noteq> sub) (ai_participants rec) = ai_participants rec"
      by (auto simp: filter_id_conv)
    with rm rec False inv show ?thesis
      by (intro that) (auto simp: remove_participant_def bindM_run require_inst_read [OF inv(1,2)])
  qed
qed

text \<open>Removing a participant revokes exactly that user, whether or not they were listed:
  afterwards they get the 404 of an unknown instance for every app id at any time, and every
  other user may open the instance exactly when they could before.\<close>

theorem remove_participant_revokes:
  assumes inv: "db_inv db" "timeless db" "addr_ok db (ws, INSTANCES_SCOPE, iid)"
    and rm: "remove_participant now ws iid sub actor db = (Inr rec', db')"
  shows "assert_instance_access env now' ws app iid sub db' = (Inl (deny_instance iid), db')
    \<and> (u \<noteq> sub \<longrightarrow> ((\<exists>r. assert_instance_access env now' ws app iid u db' = (Inr r, db'))
        \<longleftrightarrow> (\<exists>r. assert_instance_access env now' ws app iid u db = (Inr r, db))))"
proof -
  obtain rec where r: "inst_read db ws iid = Some rec" "inst_read db' ws iid = Some rec'"
    "ai_participants rec' = filter (\<lambda>p. p \<noteq> sub) (ai_participants rec)"
    "ai_app rec' = ai_app rec" "ai_host_ws rec' = ai_host_ws rec" and inv': "db_inv db'" "timeless db'"
    by (rule remove_effect [OF inv rm]) blast
  show ?thesis
    unfolding access_inst_read [OF inv'] access_inst_read [OF inv(1,2)] r(1,2)
    by (auto simp: may_access_def r(3-5))
qed

lemma demo_ok: "addr_ok (demo_instances b) (''w'', INSTANCES_SCOPE, i)"
  using scope_slash_free by (simp add: addr_ok_def slash_free_def)

theorem remove_participant_revokes_witness:
  "\<exists>rec db'. remove_participant 9 ''w'' ''i1'' ''ann'' ''ann'' (demo_instances Sqlite) = (Inr rec, db')
    \<and> assert_instance_access (demo_env Managed) 10 ''w'' ''board'' ''i1'' ''ann'' db'
      = (Inl (deny_instance ''i1''), db')"
proof -
  let ?r = "demo_instance\<lparr>ai_participants := filter (\<lambda>p. p \<noteq> ''ann'') (ai_participants demo_instance),
      ai_updated_at := 9\<rparr>"
  have "storable (demo_instances Sqlite) v" for v by (simp add: storable_def demo_instances_def)
  from write_svc_total [OF this] obtain db'
    where put: "put_instance 9 ''w'' ''i1'' ?r ''ann'' (demo_instances Sqlite) = (Inr (), db')"
    unfolding put_instance_def by blast
  have listed: "''ann'' \<in> set (ai_participants demo_instance)" by (simp add: demo_instance_def)
  have req: "require_instance 9 ''w'' ''i1'' (demo_instances Sqlite) = (Inr demo_instance, demo_instances Sqlite)"
    by (rule require_instance_found) (simp add: demo_read)
  have rm: "remove_participant 9 ''w'' ''i1'' ''ann'' ''ann'' (demo_instances Sqlite) = (Inr ?r, db')"
    by (simp add: remove_participant_def bindM_run thenM_run req put listed Let_def)
  from rm remove_participant_revokes [OF demo_instances_inv demo_timeless demo_ok rm, of "demo_env Managed" 10 "''board''" "[]"]
  show ?thesis by blast
qed

section \<open>Metering\<close>

text \<open>The bytes an instance really holds: the JSON sizes of the values in the rows of its shared
  scope, wherever the backend put them. The stamps of the rows are those sizes.\<close>

definition held_bytes :: "'v db \<Rightarrow> string \<Rightarrow> string \<Rightarrow> nat" where
  "held_bytes db t i = sum_list (map (\<lambda>(a, r).
     if fst a = t \<and> shared_scope_instance_id (fst (snd a)) = Some i
     then db_size db (row_content db a r) else 0) (db_rows db))"

definition stamps_ok :: "'v db \<Rightarrow> bool" where
  "stamps_ok db \<longleftrightarrow> (\<forall>a r. map_of (db_rows db) a = Some r \<longrightarrow>
     shared_scope_instance_id (fst (snd a)) \<noteq> None \<longrightarrow> rw_bytes r = Some (db_size db (row_content db a r)))"

lemma stamps_okD: "stamps_ok db \<Longrightarrow> map_of (db_rows db) a = Some r \<Longrightarrow>
    shared_scope_instance_id (fst (snd a)) \<noteq> None \<Longrightarrow> rw_bytes r = Some (db_size db (row_content db a r))"
  unfolding stamps_ok_def by blast

lemma stamps_okI: "(\<And>a r. map_of (db_rows db) a = Some r \<Longrightarrow>
    shared_scope_instance_id (fst (snd a)) \<noteq> None \<Longrightarrow> rw_bytes r = Some (db_size db (row_content db a r)))
    \<Longrightarrow> stamps_ok db"
  unfolding stamps_ok_def by blast

lemma held_shared:
  assumes inv: "db_inv db" and st: "stamps_ok db"
  shows "held_bytes db t i = shared_bytes db t i"
proof -
  have "(if fst a = t \<and> shared_scope_instance_id (fst (snd a)) = Some i
      then db_size db (row_content db a r) else 0) = shared_weight t i a r"
    if "(a, r) \<in> set (db_rows db)" for a r
  proof -
    have "map_of (db_rows db) a = Some r"
      using that wf_map_member [OF db_inv_wf [OF inv], of a r] by simp
    from stamps_okD [OF st this] show ?thesis by (auto simp: shared_weight_def stamp_def)
  qed
  then show ?thesis
    unfolding held_bytes_def shared_bytes_def
    by (intro arg_cong [where f = sum_list] map_cong) auto
qed

lemma rs_set_stamps:
  assumes inv: "db_inv db" and ok: "addr_ok db a" and st: "stamps_ok db"
    and set: "rs_set reserve now a v u ex (db, m) = (Inr e, (db', m'))"
  shows "stamps_ok db'"
proof (rule stamps_okI)
  note eff = rs_set_effect [OF set]
  fix b r assume b: "map_of (db_rows db') b = Some r" and sh: "shared_scope_instance_id (fst (snd b)) \<noteq> None"
  show "rw_bytes r = Some (db_size db' (row_content db' b r))"
  proof (cases "b = a")
    case True
    with b sh show ?thesis
      by (auto simp: eff(1) new_row_def row_content_def new_blobs_def)
  next
    case False
    with b have r: "map_of (db_rows db) b = Some r" by (simp add: eff(1))
    from stamps_okD [OF st r sh] new_blobs_row [OF inv ok False r] show ?thesis
      by (auto simp: eff(1) row_content_def split: option.splits)
  qed
qed

lemma rs_delete_stamps:
  assumes inv: "db_inv db" and ok: "addr_ok db a" and st: "stamps_ok db"
    and del: "rs_delete reserve a (db, m) = (res, (db', m'))"
  shows "stamps_ok db'"
proof (rule stamps_okI)
  note eff = rs_delete_effect(1) [OF del]
  fix b r assume b: "map_of (db_rows db') b = Some r" and sh: "shared_scope_instance_id (fst (snd b)) \<noteq> None"
  then have ba: "b \<noteq> a" and r: "map_of (db_rows db) b = Some r" by (auto simp: eff split: if_splits)
  from stamps_okD [OF st r sh] del_blobs_row [OF inv ok ba r]
  show "rw_bytes r = Some (db_size db' (row_content db' b r))"
    by (auto simp: eff row_content_def split: option.splits)
qed

lemma kv_step_stamps:
  assumes inv: "app_inv w" and ok: "op_ok (aw_kv w) op" and st: "stamps_ok (aw_kv w)"
  shows "stamps_ok (aw_kv (kv_step op w))"
proof (cases op)
  case (KvSet a v u ex)
  obtain res w' where s: "kv_set a v u ex w = (res, w')" by (cases "kv_set a v u ex w")
  note rs = kv_set_rs(1) [OF s]
  have kvi: "db_inv (aw_kv w)" using inv by (simp add: app_inv_def)
  show ?thesis
  proof (cases res)
    case (Inl e)
    with rs_set_fail rs st s KvSet show ?thesis by fastforce
  next
    case (Inr x)
    with rs_set_stamps [OF kvi _ st, of a] rs s KvSet ok show ?thesis by simp
  qed
next
  case (KvDelete a)
  obtain res w' where d: "kv_delete a w = (res, w')" by (cases "kv_delete a w")
  have kvi: "db_inv (aw_kv w)" using inv by (simp add: app_inv_def)
  show ?thesis
    using rs_delete_stamps [OF kvi _ st kv_delete_rs(1) [OF d]] d KvDelete ok by simp
next
  case (Wait d)
  with st show ?thesis by simp
qed

lemma kv_run_stamps:
  "app_inv w \<Longrightarrow> \<forall>op \<in> set ops. op_ok (aw_kv w) op \<Longrightarrow> stamps_ok (aw_kv w) \<Longrightarrow>
   stamps_ok (aw_kv (kv_run ops w))"
proof (induction ops arbitrary: w)
  case (Cons op ops)
  have op: "op_ok (aw_kv w) op" using Cons.prems(2) by simp
  have step: "app_inv (kv_step op w)" and ok: "addr_ok (aw_kv (kv_step op w)) = addr_ok (aw_kv w)"
    using kv_step_inv [OF Cons.prems(1) op] by simp_all
  have "\<forall>op' \<in> set ops. op_ok (aw_kv (kv_step op w)) op'"
    using Cons.prems(2) op_ok_cong [OF ok] by simp
  with Cons.IH step kv_step_stamps [OF Cons.prems(1) op Cons.prems(3)] show ?case by simp
qed simp

text \<open>C2: After any sequence of data-plane writes (refused ones included), deletions and waits,
  the storage counter in the record of every instance equals the total JSON size of the values
  its shared scope holds, spilled values included: the incremental accounting never drifts.\<close>

theorem metering_exact:
  assumes inv: "app_inv w" and st: "stamps_ok (aw_kv w)"
    and ok: "\<forall>op \<in> set ops. op_ok (aw_kv w) op"
    and rec: "read_svc_record now (aw_instances (kv_run ops w)) ws INSTANCES_SCOPE i = Inr (Some rec)"
  shows "ai_storage rec = int (held_bytes (aw_kv (kv_run ops w)) ws i)"
proof -
  have inv': "app_inv (kv_run ops w)" by (rule kv_run_inv [OF inv ok])
  then have kvi: "db_inv (aw_kv (kv_run ops w))" and ex: "exact (aw_instances (kv_run ops w)) (aw_kv (kv_run ops w))"
    by (simp_all add: app_inv_def)
  from ex rec have "ai_storage rec = int (shared_bytes (aw_kv (kv_run ops w)) ws i)"
    unfolding exact_def by blast
  then show ?thesis by (simp add: held_shared [OF kvi kv_run_stamps [OF inv ok st]])
qed

definition demo_ops :: "nat kv_op list" where
  "demo_ops = [KvSet (''w'', board_scope, ''a'') 7 ''ann'' None, Wait 5,
     KvSet (''w'', board_scope, ''b'') 4 ''bob'' None, KvSet (''w'', board_scope, ''a'') 3 ''ann'' None,
     KvSet (''w'', board_scope, ''b'') 4 ''bob'' None, KvDelete (''w'', board_scope, ''a'')]"

lemma demo_ops_ok: "\<forall>op \<in> set demo_ops. op_ok (aw_kv (demo_world b)) op"
  by (simp add: demo_ops_def demo_world_def slash_free_def)

lemma demo_read_exists: "inst_read (aw_instances (demo_world b)) ''w'' ''i1'' = Some demo_instance"
  by (simp add: inst_read_def demo_world_def demo_read)

lemma demo_run_record:
  "\<exists>rec. inst_read (aw_instances (kv_run demo_ops (demo_world b))) ''w'' ''i1'' = Some rec
     \<and> ai_cap rec = Some 10 \<and> ai_storage rec \<le> 10"
  by (rule kv_run_cap [OF demo_world_inv demo_ops_ok demo_read_exists]) (simp_all add: demo_instance_def)

theorem metering_exact_witness:
  "\<exists>rec. read_svc_record 60 (aw_instances (kv_run demo_ops (demo_world Dsql))) ''w'' INSTANCES_SCOPE ''i1''
      = Inr (Some rec)
    \<and> ai_storage rec = int (held_bytes (aw_kv (kv_run demo_ops (demo_world Dsql))) ''w'' ''i1'')"
proof -
  have st: "stamps_ok (aw_kv (demo_world Dsql))" by (simp add: stamps_ok_def demo_world_def demo_db_def)
  let ?w = "kv_run demo_ops (demo_world Dsql)"
  have "app_inv ?w" by (rule kv_run_inv [OF demo_world_inv demo_ops_ok])
  then have "db_inv (aw_instances ?w)" "timeless (aw_instances ?w)" by (simp_all add: app_inv_def)
  from inst_read_iff [OF this] demo_run_record [of Dsql] obtain rec
    where rec: "read_svc_record 60 (aw_instances ?w) ''w'' INSTANCES_SCOPE ''i1'' = Inr (Some rec)" by auto
  from rec metering_exact [OF demo_world_inv st demo_ops_ok rec] show ?thesis by blast
qed

text \<open>C3: The cap is a hard bound: an instance whose counter is within its cap stays within it
  through any sequence of writes, overwrites, deletions and waits by any number of users, and
  the cap itself is never changed by the data plane.\<close>

theorem metering_cap_bound:
  assumes "app_inv w" and "\<forall>op \<in> set ops. op_ok (aw_kv w) op"
    and "inst_read (aw_instances w) ws i = Some rec" and "ai_cap rec = Some c" and "ai_storage rec \<le> c"
  shows "\<exists>rec'. inst_read (aw_instances (kv_run ops w)) ws i = Some rec' \<and> ai_cap rec' = Some c
     \<and> ai_storage rec' \<le> c \<and> int (shared_bytes (aw_kv (kv_run ops w)) ws i) \<le> c"
proof -
  obtain rec' where r: "inst_read (aw_instances (kv_run ops w)) ws i = Some rec'" "ai_cap rec' = Some c"
    "ai_storage rec' \<le> c"
    using kv_run_cap [OF assms] by blast
  have "app_inv (kv_run ops w)" by (rule kv_run_inv [OF assms(1,2)])
  then have "db_inv (aw_instances (kv_run ops w))" "timeless (aw_instances (kv_run ops w))"
    "exact (aw_instances (kv_run ops w)) (aw_kv (kv_run ops w))" by (simp_all add: app_inv_def)
  with r exact_iff have "ai_storage rec' = int (shared_bytes (aw_kv (kv_run ops w)) ws i)" by blast
  with r show ?thesis by auto
qed

theorem metering_cap_bound_witness:
  "\<exists>rec'. inst_read (aw_instances (kv_run demo_ops (demo_world Sqlite))) ''w'' ''i1'' = Some rec'
     \<and> ai_storage rec' \<le> 10"
proof -
  have "ai_cap demo_instance = Some 10" "ai_storage demo_instance \<le> 10" by (simp_all add: demo_instance_def)
  from metering_cap_bound [OF demo_world_inv demo_ops_ok demo_read_exists this] show ?thesis by blast
qed

text \<open>
  C4: in a store that can hold every value - SQLite, or DSQL with the bucket for large values - a
  write to the data plane fails only by exceeding the cap of its instance, with status 413 and the
  counter the caller saw, and then leaves rows, blobs and instance records exactly as they were;
  a write that stays within the cap succeeds. Without the bucket a large value fails on DSQL
  after the counter was charged.
\<close>

theorem refused_write_no_effect:
  assumes inv: "app_inv w" and ok: "addr_ok (aw_kv w) (t, s, k)"
    and set: "kv_set (t, s, k) v u ex w = (res, w')"
  shows "(case res of
      Inl e \<Rightarrow> w' = w \<and> (\<exists>i rec. shared_scope_instance_id s = Some i
        \<and> inst_read (aw_instances w) t i = Some rec \<and> err_status e = Some 413
        \<and> over_cap rec (int (db_size (aw_kv w) v) - int (read_bytes (aw_kv w) (t, s, k))))
    | Inr en \<Rightarrow> en = mk_entry (t, s, k) v (aw_now w) u \<and>
        \<not> (\<exists>i rec. shared_scope_instance_id s = Some i \<and> inst_read (aw_instances w) t i = Some rec
          \<and> over_cap rec (int (db_size (aw_kv w) v) - int (read_bytes (aw_kv w) (t, s, k)))))"
  using inv ok set
proof (cases rule: kv_set_cases)
  case plain
  then show ?thesis by (auto simp: over_cap_def)
qed auto

theorem refused_write_no_effect_witness:
  "\<exists>e. kv_set (''w'', board_scope, ''a'') 11 ''ann'' None (demo_world Sqlite) = (Inl e, demo_world Sqlite)
    \<and> err_status e = Some 413"
proof -
  have ok: "addr_ok (aw_kv (demo_world Sqlite)) (''w'', board_scope, ''a'')"
    by (simp add: demo_world_def slash_free_def)
  obtain res w' where set: "kv_set (''w'', board_scope, ''a'') 11 ''ann'' None (demo_world Sqlite) = (res, w')"
    by (cases "kv_set (''w'', board_scope, ''a'') 11 ''ann'' None (demo_world Sqlite)")
  have over: "over_cap demo_instance (int (db_size (aw_kv (demo_world Sqlite)) 11)
      - int (read_bytes (aw_kv (demo_world Sqlite)) (''w'', board_scope, ''a'')))"
    by (simp add: over_cap_def demo_instance_def demo_world_def demo_db_def read_bytes_def)
  show ?thesis
  proof (cases res)
    case (Inl e)
    with refused_write_no_effect [OF demo_world_inv ok set] set show ?thesis by auto
  next
    case (Inr en)
    with refused_write_no_effect [OF demo_world_inv ok set] over demo_read_exists [of Sqlite]
    show ?thesis by auto
  qed
qed

section \<open>Deleting an instance\<close>

lemma kv_delete_effect:
  assumes inv: "app_inv w" and ok: "addr_ok (aw_kv w) a" and del: "kv_delete a w = (res, w')"
  shows "app_inv w'" "addr_ok (aw_kv w') = addr_ok (aw_kv w)" "\<exists>b. res = Inr b"
    "abs_db (aw_kv w') = spec_delete a (abs_db (aw_kv w))" "aw_now w' = aw_now w"
proof -
  have kvi: "db_inv (aw_kv w)" using inv by (simp add: app_inv_def)
  show "app_inv w'" "addr_ok (aw_kv w') = addr_ok (aw_kv w)" "\<exists>b. res = Inr b"
    using kv_delete_inv [OF inv ok del] by auto
  show "abs_db (aw_kv w') = spec_delete a (abs_db (aw_kv w))"
    by (rule rs_delete_abs [OF kvi ok kv_delete_rs(1) [OF del]])
  have "aw_now w' = aw_now (w\<lparr>aw_kv := aw_kv w', aw_instances := aw_instances w'\<rparr>)"
    using kv_delete_rs(2) [OF del] by simp
  then show "aw_now w' = aw_now w" by simp
qed

lemma kv_delete_all_effect:
  assumes "app_inv w" and "\<And>k. addr_ok (aw_kv w) (ws, scope, k)"
  shows "\<exists>w'. kv_delete_all ws scope ks w = (Inr (), w') \<and> app_inv w'
    \<and> addr_ok (aw_kv w') = addr_ok (aw_kv w) \<and> aw_now w' = aw_now w
    \<and> abs_db (aw_kv w') = (\<lambda>b. if \<exists>k \<in> set ks. b = (ws, scope, k) then None else abs_db (aw_kv w) b)"
  using assms
proof (induction ks arbitrary: w)
  case (Cons k ks)
  obtain res w1 where del: "kv_delete (ws, scope, k) w = (res, w1)" by (cases "kv_delete (ws, scope, k) w")
  note eff = kv_delete_effect [OF Cons.prems(1) Cons.prems(2) del]
  from eff(2) Cons.prems(2) have ok1: "\<And>k. addr_ok (aw_kv w1) (ws, scope, k)" by simp
  from Cons.IH [OF eff(1) ok1] obtain w' where w': "kv_delete_all ws scope ks w1 = (Inr (), w')"
    "app_inv w'" "addr_ok (aw_kv w') = addr_ok (aw_kv w1)" "aw_now w' = aw_now w1"
    "abs_db (aw_kv w') = (\<lambda>b. if \<exists>k \<in> set ks. b = (ws, scope, k) then None else abs_db (aw_kv w1) b)"
    by blast
  have "abs_db (aw_kv w') = (\<lambda>b. if \<exists>k' \<in> set (k # ks). b = (ws, scope, k') then None else abs_db (aw_kv w) b)"
    using w'(5) eff(4) by (auto simp: fun_eq_iff spec_delete_def)
  with w' eff del show ?case by (auto simp: bindM_run)
qed simp

lemma live_earlier: "now \<le> now' \<Longrightarrow> cell_live now' c \<Longrightarrow> cell_live now c"
  by (auto simp: cell_live_def split: option.splits intro: order_trans [OF zdiv_mono1])

text \<open>Deleting an instance always succeeds when its record is readable. From then on nobody
  can open it, no row of its shared scope is readable now or later, rows of other scopes are
  as they were, and the accounting of the remaining instances is still exact.\<close>

theorem delete_instance_complete:
  assumes inv: "app_inv w" and rec: "inst_read (aw_instances w) ws iid = Some rec"
    and ok: "\<And>k. addr_ok (aw_kv w) (ws, shared_record_scope (ai_app rec) iid, k)"
    and later: "aw_now w \<le> now'"
  shows "\<exists>w'. delete_instance env ws iid w = (Inr (), w')
    \<and> assert_instance_access env' now' ws app iid sub (aw_instances w') = (Inl (deny_instance iid), aw_instances w')
    \<and> rs_get now' (aw_kv w') (ws, shared_record_scope (ai_app rec) iid, k) = Inr None
    \<and> ((ws', s') \<noteq> (ws, shared_record_scope (ai_app rec) iid) \<longrightarrow>
        rs_get now' (aw_kv w') (ws', s', k) = rs_get now' (aw_kv w) (ws', s', k))
    \<and> exact (aw_instances w') (aw_kv w')"
proof -
  let ?scope = "shared_record_scope (ai_app rec) iid"
  let ?ks = "rs_list (aw_now w) (aw_kv w) ws ?scope []"
  have ii: "db_inv (aw_instances w)" "timeless (aw_instances w)" and kvi: "db_inv (aw_kv w)"
    using inv by (simp_all add: app_inv_def)
  have req: "require_instance (aw_now w) ws iid (aw_instances w) = (Inr rec, aw_instances w)"
    by (simp add: require_inst_read [OF ii] rec)
  obtain w1 where all: "kv_delete_all ws ?scope ?ks w = (Inr (), w1)" and inv1: "app_inv w1"
    and ok1: "addr_ok (aw_kv w1) = addr_ok (aw_kv w)"
    and abs1: "abs_db (aw_kv w1) = (\<lambda>b. if \<exists>k \<in> set ?ks. b = (ws, ?scope, k) then None else abs_db (aw_kv w) b)"
    using kv_delete_all_effect [OF inv ok] by blast
  have kvi1: "db_inv (aw_kv w1)" and ii1: "db_inv (aw_instances w1)" "timeless (aw_instances w1)"
    and ex1: "exact (aw_instances w1) (aw_kv w1)" using inv1 by (simp_all add: app_inv_def)
  have oki: "addr_ok (aw_instances w1) (ws, INSTANCES_SCOPE, iid)"
    using addr_ok_instance [OF inv1, of ws ?scope k iid] ok ok1 by simp
  obtain b inst' where del: "del_doc (ws, INSTANCES_SCOPE, iid) (aw_instances w1) = (Inr b, inst')"
    using rs.del_total by blast
  let ?w' = "w1\<lparr>aw_files := ie_remove_prefix env ws (shared_data_dir (ai_app rec) iid) (aw_files w1),
      aw_instances := inst'\<rparr>"
  have w: "w\<lparr>aw_instances := aw_instances w\<rparr> = w" by simp
  have run: "delete_instance env ws iid w = (Inr (), ?w')"
    using all del
    by (simp add: delete_instance_def bindM_run thenM_run on_instances_def zoom_run req Let_def
        delete_svc_record_def)
  have gone: "read_svc_record n inst' ws INSTANCES_SCOPE iid = Inr None" for n
    using rs.del_get [OF ii1(1) oki del] by (simp add: read_svc_record_def)
  have kept: "read_svc_record n inst' ws' INSTANCES_SCOPE i = read_svc_record n (aw_instances w1) ws' INSTANCES_SCOPE i"
    if "(ws', i) \<noteq> (ws, iid)" for n ws' i
    using rs.del_frame [OF ii1(1) oki del, of "(ws', INSTANCES_SCOPE, i)" n] that
    by (simp add: read_svc_record_def)
  have "spec_get now' (abs_db (aw_kv w1)) (ws, ?scope, k) = None"
  proof (cases "k \<in> set ?ks")
    case True
    then show ?thesis by (simp add: abs1 spec_get_def)
  next
    case False
    then have "spec_get (aw_now w) (abs_db (aw_kv w)) (ws, ?scope, k) = None"
      by (simp add: rs_list_all_mem [OF kvi])
    with False show ?thesis
      using live_earlier [OF later] by (auto simp: abs1 spec_get_def split: option.splits if_splits)
  qed
  then have a: "rs_get now' (aw_kv w1) (ws, ?scope, k) = Inr None"
    by (simp add: rs_get_abs [OF kvi1])
  have c: "rs_get now' (aw_kv w1) (ws', s', k) = rs_get now' (aw_kv w) (ws', s', k)"
    if "(ws', s') \<noteq> (ws, ?scope)"
    using that by (auto simp: rs_get_abs [OF kvi1] rs_get_abs [OF kvi] abs1 spec_get_def)
  have d: "exact inst' (aw_kv w1)"
    unfolding exact_def
  proof (intro allI impI)
    fix n ws' i r assume r: "read_svc_record n inst' ws' INSTANCES_SCOPE i = Inr (Some r)"
    then have "(ws', i) \<noteq> (ws, iid)" using gone [of n] by auto
    with r kept ex1 show "ai_storage r = int (shared_bytes (aw_kv w1) ws' i)"
      unfolding exact_def by (metis (no_types))
  qed
  have b: "assert_instance_access env' now' ws app iid sub inst' = (Inl (deny_instance iid), inst')"
    by (simp add: access_result [OF gone])
  show ?thesis
    by (rule exI [of _ ?w']) (use run a b c d in simp)
qed

theorem delete_instance_complete_witness:
  "\<exists>w'. delete_instance (demo_env Hosted) ''w'' ''i1''
        (kv_step (KvSet (''w'', board_scope, ''a'') 7 ''ann'' None) (demo_world Dsql)) = (Inr (), w')
    \<and> rs_get 60 (aw_kv w') (''w'', board_scope, ''a'') = Inr None"
proof -
  let ?op = "KvSet (''w'', board_scope, ''a'') 7 ''ann'' None"
  let ?w = "kv_step ?op (demo_world Dsql)"
  have op: "op_ok (aw_kv (demo_world Dsql)) ?op" by (simp add: demo_world_def slash_free_def)
  have inv: "app_inv ?w" and ok: "addr_ok (aw_kv ?w) = addr_ok (aw_kv (demo_world Dsql))"
    using kv_step_inv [OF demo_world_inv op] by blast+
  obtain rec where rec: "inst_read (aw_instances ?w) ''w'' ''i1'' = Some rec"
    and app: "ai_app rec = ai_app demo_instance"
    using kv_step_instance [OF demo_world_inv op demo_read_exists] by blast
  from app have app': "ai_app rec = ''board''" by (simp add: demo_instance_def)
  have "\<And>k. addr_ok (aw_kv ?w) (''w'', shared_record_scope (ai_app rec) ''i1'', k)"
    unfolding ok app' by (simp add: demo_world_def slash_free_def shared_record_scope_def)
  moreover have "aw_now ?w \<le> 60"
    by (simp add: kv_set_def zoom_run demo_world_def split: prod.split)
  ultimately show ?thesis
    using delete_instance_complete [OF inv rec, of 60 "demo_env Hosted" "demo_env Hosted" "[]" "[]" "''a''" "[]" "[]"]
    by (auto simp: app' shared_record_scope_def)
qed

end
