(* ===== verification/Patterns.thy ===== *)
theory Patterns
  imports Records
begin

text \<open>
  \<^verbatim>\<open>client/web/src/features/capability-cards/matches-resource-pattern.ts\<close>: the matcher of
  URL-shaped resource patterns, a mirror of the one the server takes from its registry
  package. \<^verbatim>\<open>new URL(value)\<close> of the platform is the argument \<^verbatim>\<open>parse_url\<close>.
\<close>

record url =
  url_protocol :: string
  url_hostname :: string
  url_pathname :: string

definition to_lower :: "string \<Rightarrow> string" where
  "to_lower = map lower_char"

definition host_labels :: "string \<Rightarrow> string list" where
  "host_labels host = (if host = [] then [] else filter (\<lambda>l. l \<noteq> []) (split_on CHR ''.'' host))"

definition path_segments :: "string \<Rightarrow> string list" where
  "path_segments p =
     (if p = [] \<or> p = ''/'' then [] else filter (\<lambda>s. s \<noteq> []) (split_on CHR ''/'' p))"

fun match_labels :: "string list \<Rightarrow> string list \<Rightarrow> bool" where
  "match_labels (p # ps) (r # rs) = (if p = ''*'' then match_labels ps rs
                                     else if p \<noteq> r then False else match_labels ps rs)"
| "match_labels _ _ = True"

definition match_host :: "string \<Rightarrow> string \<Rightarrow> bool" where
  "match_host patternHost resourceHost =
     (let p = host_labels (to_lower patternHost); r = host_labels (to_lower resourceHost)
      in if length p \<noteq> length r then False else match_labels p r)"

text \<open>The two indices of the loop are the two remaining lists.\<close>

fun match_segments :: "string list \<Rightarrow> string list \<Rightarrow> bool" where
  "match_segments [] rs = (rs = [])"
| "match_segments (p # ps) [] = (ps = [] \<and> (p = ''**'' \<or> p = ''*''))"
| "match_segments (p # ps) (r # rs) =
     (if p = ''**'' \<or> p = ''*'' \<and> ps = [] then ps = []
      else if p = ''*'' then match_segments ps rs
      else if p \<noteq> r then False
      else match_segments ps rs)"

definition match_path :: "string \<Rightarrow> string \<Rightarrow> bool" where
  "match_path p r = match_segments (path_segments p) (path_segments r)"

definition matches_resource_pattern :: "(string \<Rightarrow> url option) \<Rightarrow> string \<Rightarrow> string \<Rightarrow> bool" where
  "matches_resource_pattern parse_url pattern resource =
     (if pattern = resource then True
      else (case (parse_url pattern, parse_url resource) of
              (Some p, Some r) \<Rightarrow>
                if to_lower (url_protocol p) \<noteq> to_lower (url_protocol r) then False
                else if \<not> match_host (url_hostname p) (url_hostname r) then False
                else match_path (url_pathname p) (url_pathname r)
            | _ \<Rightarrow> match_segments (path_segments pattern) (path_segments resource)))"

section \<open>What the matcher means\<close>

text \<open>One pattern segment against one resource segment, and the meaning of a whole pattern:
  a final wildcard takes any number of segments, also none; elsewhere a star takes one.\<close>

definition seg_ok :: "string \<Rightarrow> string \<Rightarrow> bool" where
  "seg_ok p r \<longleftrightarrow> p \<noteq> ''**'' \<and> (p = ''*'' \<or> p = r)"

definition pattern_denotes :: "string list \<Rightarrow> string list \<Rightarrow> bool" where
  "pattern_denotes ps rs \<longleftrightarrow>
     (if ps \<noteq> [] \<and> last ps \<in> {''*'', ''**''}
      then length ps \<le> Suc (length rs) \<and> list_all2 seg_ok (butlast ps) (take (length ps - 1) rs)
      else list_all2 seg_ok ps rs)"

lemma match_segments_denotes: "match_segments ps rs \<longleftrightarrow> pattern_denotes ps rs"
proof (induction ps rs rule: match_segments.induct)
  case (1 rs)
  then show ?case by (auto simp: pattern_denotes_def)
next
  case (2 p ps)
  then show ?case by (cases ps) (auto simp: pattern_denotes_def)
next
  case (3 p ps r rs)
  show ?case
  proof (cases "ps = []")
    case True
    then show ?thesis by (auto simp: pattern_denotes_def seg_ok_def)
  next
    case False
    then have "pattern_denotes (p # ps) (r # rs) \<longleftrightarrow> seg_ok p r \<and> pattern_denotes ps rs"
      by (cases ps) (auto simp: pattern_denotes_def)
    with 3 False show ?thesis by (auto simp: seg_ok_def)
  qed
qed

lemma match_labels_all2:
  "length ps = length rs \<Longrightarrow> match_labels ps rs \<longleftrightarrow> list_all2 (\<lambda>p r. p = ''*'' \<or> p = r) ps rs"
  by (induction ps rs rule: list_induct2) auto

text \<open>The segment matcher of resource patterns, a two-index loop with early exits, accepts
  exactly the denotation of the pattern: literal segments and single-segment stars in order,
  and a trailing star or double star standing for any number of further segments; a double
  star before the end of the pattern matches nothing.\<close>

theorem match_segments_spec:
  "match_segments ps rs \<longleftrightarrow>
     (if ps \<noteq> [] \<and> last ps \<in> {''*'', ''**''}
      then length ps \<le> Suc (length rs) \<and> list_all2 seg_ok (butlast ps) (take (length ps - 1) rs)
      else list_all2 seg_ok ps rs)"
  unfolding match_segments_denotes pattern_denotes_def ..

text \<open>A resource pattern that is a URL never opens another origin: when it matches a
  different URL, the schemes agree without regard to case, the hosts have the same number of
  labels and every pattern label is a star or the resource's label.\<close>

theorem resource_pattern_same_origin:
  assumes "matches_resource_pattern parse_url pattern resource" and "pattern \<noteq> resource"
    and "parse_url pattern = Some p" and "parse_url resource = Some r"
  shows "to_lower (url_protocol p) = to_lower (url_protocol r)
    \<and> list_all2 (\<lambda>x y. x = ''*'' \<or> x = y)
        (host_labels (to_lower (url_hostname p))) (host_labels (to_lower (url_hostname r)))
    \<and> pattern_denotes (path_segments (url_pathname p)) (path_segments (url_pathname r))"
proof -
  from assms have host: "match_host (url_hostname p) (url_hostname r)"
    and rest: "to_lower (url_protocol p) = to_lower (url_protocol r)"
      "match_path (url_pathname p) (url_pathname r)"
    by (auto simp: matches_resource_pattern_def split: if_splits)
  from host have len: "length (host_labels (to_lower (url_hostname p)))
      = length (host_labels (to_lower (url_hostname r)))"
    and lab: "match_labels (host_labels (to_lower (url_hostname p)))
      (host_labels (to_lower (url_hostname r)))"
    by (simp_all add: match_host_def Let_def split: if_splits)
  from match_labels_all2 [OF len] lab rest show ?thesis
    by (simp add: match_path_def match_segments_denotes)
qed

text \<open>A URL reader for concrete inputs of the shape \<^verbatim>\<open>scheme://host/path\<close>.\<close>

definition toy_urls :: "string \<Rightarrow> url option" where
  "toy_urls s =
     (if s = ''https://api.x.io/v1/*'' then Some \<lparr>url_protocol = ''https:'', url_hostname = ''api.x.io'',
           url_pathname = ''/v1/*''\<rparr>
      else if s = ''HTTPS://API.x.io/v1/a/b'' then Some \<lparr>url_protocol = ''https:'',
           url_hostname = ''api.x.io'', url_pathname = ''/v1/a/b''\<rparr>
      else None)"

theorem resource_pattern_same_origin_witness:
  "matches_resource_pattern toy_urls ''https://api.x.io/v1/*'' ''HTTPS://API.x.io/v1/a/b''
   \<and> to_lower ''https:'' = to_lower ''https:''"
proof -
  have m: "matches_resource_pattern toy_urls ''https://api.x.io/v1/*'' ''HTTPS://API.x.io/v1/a/b''"
    by code_simp
  have p: "toy_urls ''https://api.x.io/v1/*'' = Some \<lparr>url_protocol = ''https:'',
      url_hostname = ''api.x.io'', url_pathname = ''/v1/*''\<rparr>" by (simp add: toy_urls_def)
  have r: "toy_urls ''HTTPS://API.x.io/v1/a/b'' = Some \<lparr>url_protocol = ''https:'',
      url_hostname = ''api.x.io'', url_pathname = ''/v1/a/b''\<rparr>" by (simp add: toy_urls_def)
  from resource_pattern_same_origin [OF m _ p r] m show ?thesis by simp
qed

end
