(* ===== verification/Doc_Store.thy ===== *)
theory Doc_Store
  imports Svc_Records
begin

text \<open>
  The document view of a record store: the helpers of \<^verbatim>\<open>svc-records.ts\<close> write rows without an
  expiry, so a store they fill is a plain map from workspace, scope and key to documents. The
  components that keep their state in documents are proved over these lemmas.
\<close>

named_theorems doc_simps "reads of document stores"

definition doc_ok :: "'v db \<Rightarrow> bool" where
  "doc_ok db \<longleftrightarrow> db_inv db \<and> (\<forall>a r. map_of (db_rows db) a = Some r \<longrightarrow> rw_expires r = None)"

definition doc_at :: "'v db \<Rightarrow> string \<Rightarrow> string \<Rightarrow> string \<Rightarrow> 'v option" where
  "doc_at db ws scope k = map_option ce_value (abs_db db (ws, scope, k))"

lemma doc_ok_inv [simp]: "doc_ok db \<Longrightarrow> db_inv db"
  unfolding doc_ok_def by blast

lemma doc_okD: "doc_ok db \<Longrightarrow> map_of (db_rows db) a = Some r \<Longrightarrow> rw_expires r = None"
  unfolding doc_ok_def by blast

lemma doc_okI: "db_inv db \<Longrightarrow> (\<And>a r. map_of (db_rows db) a = Some r \<Longrightarrow> rw_expires r = None) \<Longrightarrow> doc_ok db"
  unfolding doc_ok_def by blast

lemma read_doc [doc_simps]:
  assumes "doc_ok db"
  shows "read_svc_record now db ws scope k = Inr (doc_at db ws scope k)"
proof (cases "map_of (db_rows db) (ws, scope, k)")
  case None
  then show ?thesis
    by (simp add: read_svc_record_def rs_get_abs [OF doc_ok_inv [OF assms]] spec_get_def doc_at_def abs_db_def)
next
  case (Some r)
  from doc_okD [OF assms Some] Some show ?thesis
    by (simp add: read_svc_record_def rs_get_abs [OF doc_ok_inv [OF assms]] spec_get_def doc_at_def
        abs_db_def cell_live_def)
qed

lemma write_svc_rs:
  assumes "write_svc_record now ws scope k v u db = (Inr (), db')"
  shows "\<exists>e. rs_set (\<lambda>_ _ _. ret ()) now (ws, scope, k) v u None (db, ()) = (Inr e, (db', ()))"
proof -
  obtain x where "put_doc now (ws, scope, k) v u None db = (Inr x, db')"
    by (rule write_svcE [OF assms])
  from put_doc_rs [OF this] show ?thesis by blast
qed

lemma write_doc:
  assumes ok: "doc_ok db" and a: "addr_ok db (ws, scope, k)"
    and w: "write_svc_record now ws scope k v u db = (Inr (), db')"
  shows "doc_ok db'"
    and "doc_at db' ws' s' k' = (if ws' = ws \<and> s' = scope \<and> k' = k then Some v else doc_at db ws' s' k')"
    and "addr_ok db' = addr_ok db" and "storable db' = storable db"
proof -
  obtain e where set: "rs_set (\<lambda>_ _ _. ret ()) now (ws, scope, k) v u None (db, ()) = (Inr e, (db', ()))"
    using write_svc_rs [OF w] by blast
  note eff = rs_set_effect(1) [OF set]
  show "doc_ok db'"
  proof (rule doc_okI)
    show "db_inv db'" by (rule rs_set_inv [OF doc_ok_inv [OF ok] a set])
    fix b r assume b: "map_of (db_rows db') b = Some r"
    have new: "rw_expires (new_row db now (ws, scope, k) v u None) = None"
      by (cases "db_backend db") (simp_all add: new_row_def norm_expiry_def dsql_expiry_def)
    show "rw_expires r = None"
    proof (cases "b = (ws, scope, k)")
      case True
      with b new show ?thesis by (simp add: eff)
    next
      case False
      with b have "map_of (db_rows db) b = Some r" by (simp add: eff)
      then show ?thesis by (rule doc_okD [OF ok])
    qed
  qed
  show "doc_at db' ws' s' k' = (if ws' = ws \<and> s' = scope \<and> k' = k then Some v else doc_at db ws' s' k')"
    by (simp add: doc_at_def rs_set_abs [OF doc_ok_inv [OF ok] a set] spec_set_def)
  show "addr_ok db' = addr_ok db" and "storable db' = storable db"
    by (simp_all add: eff)
qed

text \<open>A write either fails, and then changes nothing, or has the effect above.\<close>

lemma write_doc_cases:
  assumes ok: "doc_ok db" and a: "addr_ok db (ws, scope, k)"
  obtains
    (fails) e where "write_svc_record now ws scope k v u db = (Inl e, db)" "\<not> storable db v"
  | (writes) db' where "write_svc_record now ws scope k v u db = (Inr (), db')" "doc_ok db'"
      "\<And>ws' s' k'. doc_at db' ws' s' k' = (if ws' = ws \<and> s' = scope \<and> k' = k then Some v else doc_at db ws' s' k')"
      "addr_ok db' = addr_ok db" "storable db' = storable db"
proof (cases "write_svc_record now ws scope k v u db")
  case (Pair r db')
  show thesis
  proof (cases r)
    case (Inl e)
    with Pair have w: "write_svc_record now ws scope k v u db = (Inl e, db')" by simp
    from write_svc_fail [OF w] have db: "db' = db" .
    have "\<not> storable db v"
    proof
      assume "storable db v"
      from write_svc_total [OF this, of now ws scope k u] w show False by simp
    qed
    with w db show thesis by (intro fails) simp_all
  next
    case (Inr x)
    with Pair have w: "write_svc_record now ws scope k v u db = (Inr (), db')" by simp
    from w show thesis by (rule writes) (rule write_doc [OF ok a w])+
  qed
qed

lemma delete_doc:
  assumes ok: "doc_ok db" and a: "addr_ok db (ws, scope, k)"
    and d: "delete_svc_record ws scope k db = (r, db')"
  shows "doc_ok db'"
    and "doc_at db' ws' s' k' = (if ws' = ws \<and> s' = scope \<and> k' = k then None else doc_at db ws' s' k')"
    and "addr_ok db' = addr_ok db" and "storable db' = storable db"
    and "r = Inr (doc_at db ws scope k \<noteq> None)"
proof -
  have del: "rs_delete (\<lambda>_ _ _. ret ()) (ws, scope, k) (db, ()) = (r, (db', ()))"
    using del_doc_rs d by (simp add: delete_svc_record_def)
  note eff = rs_delete_effect(1) [OF del]
  show "doc_ok db'"
  proof (rule doc_okI)
    show "db_inv db'" by (rule rs_delete_inv [OF doc_ok_inv [OF ok] a del])
    fix b r assume b: "map_of (db_rows db') b = Some r"
    then have "map_of (db_rows db) b = Some r" by (cases "b = (ws, scope, k)") (simp_all add: eff)
    then show "rw_expires r = None" by (rule doc_okD [OF ok])
  qed
  show "doc_at db' ws' s' k' = (if ws' = ws \<and> s' = scope \<and> k' = k then None else doc_at db ws' s' k')"
    by (simp add: doc_at_def rs_delete_abs [OF doc_ok_inv [OF ok] a del] spec_delete_def)
  show "addr_ok db' = addr_ok db" and "storable db' = storable db"
    by (simp_all add: eff)
  obtain b where b: "r = Inr b"
    using rs.del_total [of "(ws, scope, k)" db] d by (auto simp: delete_svc_record_def)
  with rs_delete_effect(2) [OF del b] show "r = Inr (doc_at db ws scope k \<noteq> None)"
    by (simp add: doc_at_def abs_db_def split: option.splits)
qed

lemma collect_docs_keys:
  assumes "db_inv db" and "collect_docs now db ws scope ks = Inr ds"
  shows "map fst ds = filter (\<lambda>k. read_svc_record now db ws scope k \<noteq> Inr None) ks"
  using assms(2)
proof (induction ks arbitrary: ds)
  case (Cons k ks)
  obtain hit where hit: "rs_get now db (ws, scope, k) = Inr hit"
    using rs.get_total [OF assms(1)] by blast
  with Cons show ?case
    by (auto simp: read_svc_record_def split: sum.splits option.splits)
qed simp

lemma list_docs_mem:
  assumes "doc_ok db"
  obtains ds where "list_svc_records now db ws scope [] = Inr ds"
    "\<And>k v. (k, v) \<in> set ds \<longleftrightarrow> doc_at db ws scope k = Some v" "distinct (map fst ds)"
proof -
  obtain ds where ds: "list_svc_records now db ws scope [] = Inr ds"
    and mem: "\<And>k v. (k, v) \<in> set ds \<longleftrightarrow> read_svc_record now db ws scope k = Inr (Some v)"
    using list_svc_records_mem [OF doc_ok_inv [OF assms]] by blast
  have "distinct (rs_list now db ws scope [])"
    using rs.keys_distinct [OF doc_ok_inv [OF assms]] by (simp add: list_docs_def)
  then have "distinct (map fst ds)"
    using collect_docs_keys [OF doc_ok_inv [OF assms]] ds by (simp add: list_svc_records_def)
  with ds mem show thesis by (intro that) (simp_all add: read_doc [OF assms])
qed

text \<open>Scopes have no slash, so on DSQL the address of a document is unambiguous when its
  workspace has none.\<close>

definition ws_ok :: "'v db \<Rightarrow> string \<Rightarrow> bool" where
  "ws_ok db ws \<longleftrightarrow> db_backend db = Sqlite \<or> CHR ''/'' \<notin> set ws"

lemma addr_ok_ws: "ws_ok db ws \<Longrightarrow> CHR ''/'' \<notin> set scope \<Longrightarrow> addr_ok db (ws, scope, k)"
  by (auto simp: ws_ok_def addr_ok_def slash_free_def)

lemma doc_at_ws_ok:
  assumes "doc_ok db" and "doc_at db ws scope k = Some v"
  shows "ws_ok db ws" and "addr_ok db (ws, scope, k)"
proof -
  from assms(2) obtain r where "map_of (db_rows db) (ws, scope, k) = Some r"
    by (auto simp: doc_at_def abs_db_def split: option.splits)
  then have "row_ok db (ws, scope, k) r" by (rule db_invD [OF doc_ok_inv [OF assms(1)]])
  then show "ws_ok db ws" and "addr_ok db (ws, scope, k)"
    by (auto simp: row_ok_def addr_ok_def ws_ok_def slash_free_def)
qed

lemma ws_ok_addr: "ws_ok db ws = addr_ok db (ws, [], [])"
  by (simp add: ws_ok_def addr_ok_def slash_free_def)

lemma ws_ok_cong: "addr_ok db' = addr_ok db \<Longrightarrow> ws_ok db' ws = ws_ok db ws"
  by (simp add: ws_ok_addr)

lemma put_doc_abs:
  assumes "db_inv db" and "addr_ok db a" and "put_doc now a v u ex db = (Inr e, db')"
  shows "abs_db db' = spec_set now a v u (norm_expiry db ex) (abs_db db)" "db_inv db'"
    "addr_ok db' = addr_ok db" "storable db' = storable db"
  using rs_set_abs [OF assms(1,2) put_doc_rs [OF assms(3)]] rs_set_inv [OF assms(1,2) put_doc_rs [OF assms(3)]]
    rs.put_conf [OF assms(3)] by blast+

text \<open>A storable document is always written; its scope has no slash.\<close>

lemma write_doc_run:
  assumes "doc_ok db" and "ws_ok db ws" and "CHR ''/'' \<notin> set scope" and "storable db v"
  obtains db' where "write_svc_record now ws scope k v u db = (Inr (), db')" "doc_ok db'"
      "\<And>ws' s' k'. doc_at db' ws' s' k' = (if ws' = ws \<and> s' = scope \<and> k' = k then Some v else doc_at db ws' s' k')"
      "ws_ok db' = ws_ok db" "storable db' = storable db"
proof (rule write_doc_cases [OF assms(1) addr_ok_ws [OF assms(2,3)], of now k v u])
  fix d
  assume d: "write_svc_record now ws scope k v u db = (Inr (), d)" "doc_ok d"
      "\<And>ws' s' k'. doc_at d ws' s' k' = (if ws' = ws \<and> s' = scope \<and> k' = k then Some v else doc_at db ws' s' k')"
      "addr_ok d = addr_ok db" "storable d = storable db"
  have "ws_ok d = ws_ok db" using d(4) by (simp add: fun_eq_iff ws_ok_addr)
  then show thesis using d by (intro that [of d])
qed (use assms(4) in simp)

text \<open>A write with an expiry ahead either fails, and then changes nothing, or stores a live cell.\<close>

lemma put_doc_cases:
  assumes inv: "db_inv db" and a: "addr_ok db a" and ex: "expiry_live now ex"
  obtains
    (fails) e where "put_doc now a v u ex db = (Inl e, db)" "\<not> storable db v"
  | (writes) x db' where "put_doc now a v u ex db = (Inr x, db')" "db_inv db'" "addr_ok db' = addr_ok db" "storable db' = storable db"
      "abs_db db' = spec_set now a v u (norm_expiry db ex) (abs_db db)"
      "cell_live now \<lparr>ce_value = v, ce_updated_at = now, ce_updated_by = u, ce_expires = norm_expiry db ex\<rparr>"
proof -
  obtain r d where p: "put_doc now a v u ex db = (r, d)" by (cases "put_doc now a v u ex db")
  show thesis
  proof (cases r)
    case (Inl e)
    from rs.put_fail [OF p [unfolded Inl]] have d: "d = db" .
    have "\<not> storable db v"
    proof
      assume "storable db v"
      from rs.put_total [OF this, of now a u ex] p Inl show False by simp
    qed
    with p Inl d show thesis by (intro fails) simp_all
  next
    case (Inr x)
    note eff = put_doc_abs [OF inv a p [unfolded Inr]]
    show thesis by (rule writes [OF p [unfolded Inr] eff(2-4) eff(1) cell_live_norm [OF ex]])
  qed
qed

section \<open>Stores holding given documents\<close>

definition doc_row :: "'v \<Rightarrow> 'v row" where
  "doc_row v = \<lparr>rw_value = Some v, rw_spilled = False, rw_updated_at = 0, rw_updated_by = ''u'',
     rw_expires = None, rw_bytes = None\<rparr>"

lemma doc_row_sel [simp]: "rw_value (doc_row v) = Some v" "rw_spilled (doc_row v) = False"
  "rw_expires (doc_row v) = None"
  by (simp_all add: doc_row_def)

definition doc_db :: "'v \<Rightarrow> (addr \<times> 'v) list \<Rightarrow> 'v db" where
  "doc_db d rows = \<lparr>db_backend = Sqlite, db_bucket = False, db_size = (\<lambda>_. 10), db_null = d,
     db_rows = map (\<lambda>(a, v). (a, doc_row v)) rows, db_blobs = []\<rparr>"

lemma map_of_doc_rows: "map_of (map (\<lambda>(a, v). (a, doc_row v)) rows) a = map_option doc_row (map_of rows a)"
  by (induction rows) auto

lemma doc_db_ok: "distinct (map fst rows) \<Longrightarrow> doc_ok (doc_db d rows)"
proof (rule doc_okI)
  assume d: "distinct (map fst rows)"
  have f: "map fst (map (\<lambda>(a, v). (a, doc_row v)) rows) = map fst rows"
    by (simp add: comp_def case_prod_unfold)
  show "db_inv (doc_db d rows)"
  proof (rule db_invI)
    show "wf_map (db_rows (doc_db d rows))"
      unfolding wf_map_def doc_db_def db.simps f by (rule d)
  qed (auto simp: doc_db_def map_of_doc_rows row_ok_def addr_ok_def)
qed (auto simp: doc_db_def map_of_doc_rows)

lemma doc_db_at: "doc_at (doc_db d rows) ws s k = map_of rows (ws, s, k)"
  by (cases "map_of rows (ws, s, k)")
    (simp_all add: doc_at_def abs_db_def doc_db_def map_of_doc_rows row_content_def)

lemma doc_db_conf [simp]: "storable (doc_db d rows) v" "addr_ok (doc_db d rows) a"
  by (simp_all add: storable_def addr_ok_def doc_db_def)

lemma doc_db_ws: "ws_ok (doc_db d rows) ws"
  by (simp add: ws_ok_def doc_db_def)

end
