(* ===== verification/Dispatch.thy ===== *)
theory Dispatch
  imports Doc_Store
begin

text \<open>
  The data of tool dispatch (\<^verbatim>\<open>server/workspace/src/grants.ts\<close>, \<^verbatim>\<open>action-queue.ts\<close>) and the world
  its operations run in. The storage of \<^verbatim>\<open>@aprovan/registry-server\<close>, the identity store's
  permission rows, the installed apps and the resource pattern matcher of that package are
  arguments: a record of programs over an arbitrary state \<open>'r\<close>, each of which may throw.
  Nothing is assumed about them in the definitions.
\<close>

section \<open>Requests and decisions\<close>

datatype tool_effect = Observation | Action

record principal =
  pr_sub :: string
  pr_ws :: string
  pr_role :: string
  pr_groups :: "string list"

record via =
  via_app :: "string option"
  via_profile :: "string option"

record credential_ref =
  cr_level :: string
  cr_id :: string

record tool_ref =
  tl_namespace :: string
  tl_operation :: string
  tl_effect :: tool_effect

record run_ctx =
  rc_run :: string
  rc_dependent :: bool

record dispatch_request =
  dr_principal :: principal
  dr_via :: "via option"
  dr_tool :: tool_ref
  dr_resource :: "string option"
  dr_credential :: "credential_ref option"
  dr_run :: "run_ctx option"

datatype deny_reason = DenyCapability | DenyUnconnected

datatype decision = Allow | Deny deny_reason | Queue string | Ask string

text \<open>\<^verbatim>\<open>req.via?.appId\<close> and its truthiness: the empty string counts as absent.\<close>

definition req_app :: "dispatch_request \<Rightarrow> string option" where
  "req_app req = (case dr_via req of None \<Rightarrow> None | Some v \<Rightarrow> via_app v)"

definition req_profile :: "dispatch_request \<Rightarrow> string option" where
  "req_profile req = (case dr_via req of None \<Rightarrow> None | Some v \<Rightarrow> via_profile v)"

definition req_capability :: "dispatch_request \<Rightarrow> string" where
  "req_capability req = tl_namespace (dr_tool req) @ ''.'' @ tl_operation (dr_tool req)"

definition req_level :: "dispatch_request \<Rightarrow> string option" where
  "req_level req = map_option cr_level (dr_credential req)"

section \<open>Rows of the registry\<close>

datatype subject = UserSubject string | GroupSubject string | AppSubject string | AppInstallSubject string

record grant_row =
  gr_subject :: subject
  gr_capability :: string
  gr_pattern :: "string option"
  gr_level :: string
  gr_by :: string
  gr_revoked :: bool

record new_grant =
  ng_subject :: subject
  ng_capability :: string
  ng_pattern :: "string option"
  ng_level :: string
  ng_by :: string

datatype target_kind = InterfaceTarget | OtherTarget

record profile_row =
  pf_id :: string
  pf_name :: string
  pf_kind :: target_kind
  pf_target :: string
  pf_provider :: "string option"
  pf_credential :: "string option"

record credential_row =
  cd_level :: string
  cd_created_by :: string
  cd_provider :: string
  cd_label :: "string option"

record permission_row =
  pm_provider :: string
  pm_operation :: string

section \<open>The action queue's records\<close>

datatype qa_state = Queued | Released | Discarded | Expired

record audit_triple =
  at_user :: string
  at_via :: "via option"
  at_credential :: "credential_ref option"
  at_approver :: "string option"

record resolution =
  rs_by :: string
  rs_at :: int
  rs_remembered :: "string option"

record queued_action =
  qa_id :: string
  qa_state :: qa_state
  qa_request :: dispatch_request
  qa_attribution :: audit_triple
  qa_created :: int
  qa_expires :: int
  qa_run :: "string option"
  qa_reason :: "string option"
  qa_resolution :: "resolution option"

record audit_entry =
  au_request_id :: string
  au_workspace :: string
  au_caller :: string
  au_provider :: string
  au_operation :: string
  au_status :: nat
  au_transition :: qa_state
  au_attribution :: audit_triple
  au_resource :: "string option"

section \<open>The environment and the world\<close>

record 'r registry =
  rg_open :: "('r, unit) prog"
  rg_ensure :: "string \<Rightarrow> ('r, unit) prog"
  rg_create_grant :: "string \<Rightarrow> new_grant \<Rightarrow> ('r, unit) prog"
  rg_grants_for :: "string \<Rightarrow> subject list \<Rightarrow> ('r, grant_row list) prog"
  rg_grants :: "string \<Rightarrow> ('r, grant_row list) prog"
  rg_profile_by_id :: "string \<Rightarrow> string \<Rightarrow> ('r, profile_row option) prog"
  rg_profile_by_name :: "string \<Rightarrow> target_kind \<Rightarrow> string \<Rightarrow> string \<Rightarrow> ('r, profile_row option) prog"
  rg_profiles :: "string \<Rightarrow> ('r, profile_row list) prog"
  rg_granted_ids :: "string \<Rightarrow> subject list \<Rightarrow> ('r, string list) prog"
  rg_grant_profile :: "string \<Rightarrow> string \<Rightarrow> subject \<Rightarrow> string \<Rightarrow> ('r, unit) prog"
  rg_revoke_profile :: "string \<Rightarrow> string \<Rightarrow> subject \<Rightarrow> ('r, bool) prog"
  rg_credentials :: "string \<Rightarrow> ('r, credential_row list) prog"
  rg_credential :: "string \<Rightarrow> string \<Rightarrow> ('r, credential_row option) prog"
  rg_permissions :: "string \<Rightarrow> string \<Rightarrow> ('r, permission_row list) prog"
  rg_allowed_tools :: "string \<Rightarrow> string \<Rightarrow> ('r, string list option) prog"
  rg_execute :: "dispatch_request \<Rightarrow> ('r, unit) prog"
  rg_matches :: "string \<Rightarrow> string \<Rightarrow> bool"
  rg_collate :: "string \<Rightarrow> string \<Rightarrow> int"   \<comment> \<open>\<^verbatim>\<open>localeCompare\<close>\<close>
  rg_uuid :: "nat \<Rightarrow> string"

record 'r dworld =
  dw_now :: int
  dw_next :: nat
  dw_reg :: 'r
  dw_queue :: "queued_action db"
  dw_latest :: "(string \<times> string) list"
  dw_audit :: "audit_entry list"
  dw_executed :: "dispatch_request list"

text \<open>A call of the registry; the log of executions is written when the executor is called.\<close>

definition on_reg :: "('r, 'a) prog \<Rightarrow> ('r dworld, 'a) prog" where
  "on_reg = zoom dw_reg (\<lambda>r w. w\<lparr>dw_reg := r\<rparr>)"

definition on_queue :: "(queued_action db, 'a) prog \<Rightarrow> ('r dworld, 'a) prog" where
  "on_queue = zoom dw_queue (\<lambda>q w. w\<lparr>dw_queue := q\<rparr>)"

definition random_uuid :: "'r registry \<Rightarrow> ('r dworld, string) prog" where
  "random_uuid env w = (Inr (rg_uuid env (dw_next w)), w\<lparr>dw_next := Suc (dw_next w)\<rparr>)"

text \<open>\<^verbatim>\<open>storage(workspaceId)\<close>: open the registry and make sure the tenant exists.\<close>

definition open_tenant :: "'r registry \<Rightarrow> string \<Rightarrow> ('r, unit) prog" where
  "open_tenant env ws = thenM (rg_open env) (rg_ensure env ws)"

section \<open>Registry calls touch the registry only\<close>

definition same_but_reg :: "'r dworld \<Rightarrow> 'r dworld \<Rightarrow> bool" where
  "same_but_reg w w' \<longleftrightarrow> w' = w\<lparr>dw_reg := dw_reg w'\<rparr>"

lemma same_but_reg_refl [simp]: "same_but_reg w w"
  by (simp add: same_but_reg_def)

lemma same_but_reg_trans: "same_but_reg w w1 \<Longrightarrow> same_but_reg w1 w2 \<Longrightarrow> same_but_reg w w2"
  unfolding same_but_reg_def by (metis dworld.surjective dworld.update_convs(3))

lemma on_reg_same: "on_reg p w = (r, w') \<Longrightarrow> same_but_reg w w'"
  by (auto simp: on_reg_def zoom_run same_but_reg_def split: prod.splits)

lemma same_but_regD:
  assumes "same_but_reg w w'"
  shows "dw_now w' = dw_now w" "dw_next w' = dw_next w" "dw_queue w' = dw_queue w"
    "dw_latest w' = dw_latest w" "dw_audit w' = dw_audit w" "dw_executed w' = dw_executed w"
proof -
  have "w' = w\<lparr>dw_reg := dw_reg w'\<rparr>" using assms by (simp add: same_but_reg_def)
  then show "dw_now w' = dw_now w" "dw_next w' = dw_next w" "dw_queue w' = dw_queue w"
    "dw_latest w' = dw_latest w" "dw_audit w' = dw_audit w" "dw_executed w' = dw_executed w"
    by (metis dworld.select_convs dworld.surjective dworld.update_convs(3))+
qed

text \<open>Programs all of whose effects are on the registry.\<close>

definition reg_only :: "('r dworld, 'a) prog \<Rightarrow> bool" where
  "reg_only p \<longleftrightarrow> (\<forall>w. same_but_reg w (snd (p w)))"

lemma reg_onlyD: "reg_only p \<Longrightarrow> p w = (r, w') \<Longrightarrow> same_but_reg w w'"
  unfolding reg_only_def by (metis snd_conv)

lemma reg_only_on_reg [intro, simp]: "reg_only (on_reg p)"
  unfolding reg_only_def by (metis on_reg_same prod.collapse)

lemma reg_only_ret [intro, simp]: "reg_only (ret x)"
  by (simp add: reg_only_def)

lemma reg_only_throw [intro, simp]: "reg_only (throw e)"
  by (simp add: reg_only_def)

lemma reg_only_gets [intro, simp]: "reg_only (gets f)"
  by (simp add: reg_only_def)

lemma reg_only_bind [intro]:
  assumes "reg_only p" and "\<And>x. reg_only (f x)"
  shows "reg_only (bindM p f)"
  unfolding reg_only_def
proof
  fix w
  obtain r w1 where p: "p w = (r, w1)" by (cases "p w")
  show "same_but_reg w (snd (bindM p f w))"
  proof (cases r)
    case (Inl e)
    then show ?thesis using p reg_onlyD [OF assms(1) p] by (simp add: bindM_run)
  next
    case (Inr x)
    obtain r2 w2 where f: "f x w1 = (r2, w2)" by (cases "f x w1")
    from same_but_reg_trans [OF reg_onlyD [OF assms(1) p] reg_onlyD [OF assms(2) f]]
    show ?thesis using p f Inr by (simp add: bindM_run)
  qed
qed

lemma reg_only_then [intro]: "reg_only p \<Longrightarrow> reg_only q \<Longrightarrow> reg_only (thenM p q)"
  unfolding thenM_def by (rule reg_only_bind)

lemma reg_only_catch [intro]:
  assumes "reg_only p" and "\<And>e. reg_only (h e)"
  shows "reg_only (catchM p h)"
  unfolding reg_only_def
proof
  fix w
  obtain r w1 where p: "p w = (r, w1)" by (cases "p w")
  show "same_but_reg w (snd (catchM p h w))"
  proof (cases r)
    case (Inr x)
    then show ?thesis using p reg_onlyD [OF assms(1) p] by (simp add: catchM_run)
  next
    case (Inl e)
    obtain r2 w2 where h: "h e w1 = (r2, w2)" by (cases "h e w1")
    from same_but_reg_trans [OF reg_onlyD [OF assms(1) p] reg_onlyD [OF assms(2) h]]
    show ?thesis using p h Inl by (simp add: catchM_run)
  qed
qed

end
