(* ===== verification/Profile_Grants.thy ===== *)
theory Profile_Grants
  imports Dispatch
begin

text \<open>
  \<^verbatim>\<open>server/workspace/src/profile-grants.ts\<close>: profiles attached to groups, users and app
  installs, and the tool patterns a caller derives from them. All state is the registry's, so
  the programs run on the registry state alone.
\<close>

record profile_summary =
  ps_id :: string
  ps_name :: string
  ps_kind :: target_kind
  ps_target :: string
  ps_provider :: "string option"
  ps_label :: "string option"

definition some_text :: "string option \<Rightarrow> string option" where
  "some_text x = (if truthy x then x else None)"

definition to_summary :: "'r registry \<Rightarrow> string \<Rightarrow> profile_row \<Rightarrow> ('r, profile_summary) prog" where
  "to_summary env ws row =
     bindM (case some_text (pf_credential row) of
              None \<Rightarrow> ret None
            | Some cid \<Rightarrow>
                bindM (catchM (rg_credential env ws cid) (\<lambda>_. ret None)) (\<lambda>c.
                ret (case c of None \<Rightarrow> None
                     | Some c \<Rightarrow> (case cd_label c of None \<Rightarrow> Some (cd_provider c) | Some l \<Rightarrow> Some l))))
       (\<lambda>label. ret
         \<lparr>ps_id = pf_id row, ps_name = pf_name row, ps_kind = pf_kind row, ps_target = pf_target row,
          ps_provider = (if pf_kind row = InterfaceTarget then some_text (pf_provider row) else None),
          ps_label = some_text label\<rparr>)"

definition profile_line :: "profile_row \<Rightarrow> string" where
  "profile_line row = pf_target row @ ''/'' @ pf_name row @ '' ('' @ pf_id row @ '')''"

definition resolve_profile_ref :: "'r registry \<Rightarrow> string \<Rightarrow> string \<Rightarrow> ('r, profile_row) prog" where
  "resolve_profile_ref env ws ref =
     bindM (rg_profile_by_id env ws ref) (\<lambda>byId. case byId of
         Some row \<Rightarrow> ret row
       | None \<Rightarrow>
           bindM (rg_profiles env ws) (\<lambda>all.
           case filter (\<lambda>row. pf_name row = ref) all of
             [] \<Rightarrow> throw (ServiceError (''Unknown profile: '' @ ref) 404)
           | [row] \<Rightarrow> ret row
           | rows \<Rightarrow> throw (ServiceError (''Profile name '' @ [CHR 0x22] @ ref @ [CHR 0x22] @
               '' is ambiguous - pass the profile id. Candidates: '' @
               join '', '' (map profile_line rows)) 400)))"

definition summary_order :: "'r registry \<Rightarrow> profile_summary \<Rightarrow> profile_summary \<Rightarrow> int" where
  "summary_order env a b =
     (let c = rg_collate env (ps_name a) (ps_name b)
      in if c \<noteq> 0 then c else rg_collate env (ps_target a) (ps_target b))"

definition list_group_profiles :: "'r registry \<Rightarrow> string \<Rightarrow> string \<Rightarrow> ('r, profile_summary list) prog" where
  "list_group_profiles env ws groupId =
     thenM (open_tenant env ws)
       (bindM (rg_granted_ids env ws [GroupSubject groupId]) (\<lambda>granted.
        if granted = [] then ret []
        else bindM (rg_profiles env ws) (\<lambda>rows.
             bindM (mapM (to_summary env ws) (filter (\<lambda>row. pf_id row \<in> set granted) rows)) (\<lambda>ss.
             ret (js_sort (summary_order env) ss)))))"

definition attach_profile_to_group ::
  "'r registry \<Rightarrow> string \<Rightarrow> string \<Rightarrow> string \<Rightarrow> string \<Rightarrow> ('r, profile_summary) prog" where
  "attach_profile_to_group env ws groupId ref grantedBy =
     thenM (open_tenant env ws)
       (bindM (resolve_profile_ref env ws ref) (\<lambda>profile.
        thenM (rg_grant_profile env ws (pf_id profile) (GroupSubject groupId) grantedBy)
          (to_summary env ws profile)))"

definition detach_profile_from_group ::
  "'r registry \<Rightarrow> string \<Rightarrow> string \<Rightarrow> string \<Rightarrow> ('r, bool) prog" where
  "detach_profile_from_group env ws groupId ref =
     thenM (open_tenant env ws)
       (bindM (resolve_profile_ref env ws ref) (\<lambda>profile.
        rg_revoke_profile env ws (pf_id profile) (GroupSubject groupId)))"

definition list_workspace_profiles :: "'r registry \<Rightarrow> string \<Rightarrow> ('r, profile_summary list) prog" where
  "list_workspace_profiles env ws =
     thenM (open_tenant env ws)
       (bindM (rg_profiles env ws) (\<lambda>rows.
        bindM (mapM (to_summary env ws) rows) (\<lambda>ss. ret (js_sort (summary_order env) ss))))"

definition invoker_matched_tool_patterns ::
  "'r registry \<Rightarrow> string \<Rightarrow> string \<Rightarrow> string list \<Rightarrow> ('r, string list) prog" where
  "invoker_matched_tool_patterns env ws sub groupIds =
     catchM
       (thenM (open_tenant env ws)
         (bindM (rg_granted_ids env ws (UserSubject sub # map GroupSubject groupIds)) (\<lambda>granted.
          if granted = [] then ret []
          else bindM (rg_profiles env ws) (\<lambda>rows.
            ret (dedup (map (\<lambda>row. pf_target row @ ''.*'')
                   (filter (\<lambda>row. pf_id row \<in> set granted) rows)))))))
       (\<lambda>_. ret [])"

definition pattern_opens_namespace :: "string \<Rightarrow> string \<Rightarrow> bool" where
  "pattern_opens_namespace namespace pat \<longleftrightarrow>
     pat = ''*'' \<or> pat = namespace @ ''.*'' \<or> pat = namespace \<or>
     (ends_with pat ''.*'' \<and>
        (namespace = drop_end 2 pat \<or> starts_with namespace (drop_end 2 pat @ ''.''))) \<or>
     starts_with pat (namespace @ ''.'')"

definition profile_grant_allows ::
  "'r registry \<Rightarrow> string \<Rightarrow> string \<Rightarrow> string list \<Rightarrow> string \<Rightarrow> ('r, bool) prog" where
  "profile_grant_allows env ws sub groupIds namespace =
     bindM (invoker_matched_tool_patterns env ws sub groupIds) (\<lambda>patterns.
     ret (\<exists>pat \<in> set patterns. pattern_opens_namespace namespace pat))"

section \<open>Grants to app installs\<close>

definition resolve_interface_profile_id ::
  "'r registry \<Rightarrow> string \<Rightarrow> string \<Rightarrow> string \<Rightarrow> ('r, string option) prog" where
  "resolve_interface_profile_id env ws contract profileName =
     catchM
       (thenM (open_tenant env ws)
         (bindM (rg_profile_by_name env ws InterfaceTarget contract profileName) (\<lambda>byName.
          case byName of
            Some row \<Rightarrow> ret (Some (pf_id row))
          | None \<Rightarrow>
              bindM (rg_profile_by_id env ws profileName) (\<lambda>byId.
              case byId of
                None \<Rightarrow> ret None
              | Some row \<Rightarrow>
                  ret (if pf_kind row = InterfaceTarget \<and> pf_target row = contract
                       then Some (pf_id row) else None)))))
       (\<lambda>_. ret None)"

definition grant_profile_to_install ::
  "'r registry \<Rightarrow> string \<Rightarrow> string \<Rightarrow> string \<Rightarrow> string \<Rightarrow> ('r, unit) prog" where
  "grant_profile_to_install env ws profileId installId grantedBy =
     thenM (open_tenant env ws) (rg_grant_profile env ws profileId (AppSubject installId) grantedBy)"

definition revoke_install_profile_grant ::
  "'r registry \<Rightarrow> string \<Rightarrow> string \<Rightarrow> string \<Rightarrow> ('r, bool) prog" where
  "revoke_install_profile_grant env ws profileId installId =
     thenM (open_tenant env ws) (rg_revoke_profile env ws profileId (AppSubject installId))"

definition install_grant_holds ::
  "'r registry \<Rightarrow> string \<Rightarrow> string \<Rightarrow> string \<Rightarrow> ('r, bool) prog" where
  "install_grant_holds env ws installId profileId =
     thenM (open_tenant env ws)
       (bindM (rg_granted_ids env ws [AppSubject installId]) (\<lambda>granted.
        ret (profileId \<in> set granted)))"

definition revoke_all_install_grants ::
  "'r registry \<Rightarrow> string \<Rightarrow> string \<Rightarrow> string list \<Rightarrow> ('r, unit) prog" where
  "revoke_all_install_grants env ws installId profileIds =
     thenM (open_tenant env ws)
       (iterM profileIds (\<lambda>pid.
          bindM (catchM (rg_revoke_profile env ws pid (AppSubject installId)) (\<lambda>_. ret False)) (\<lambda>_. ret ())))"

section \<open>Lemmas\<close>

lemma ends_with_append [simp]: "ends_with (p @ q) q"
  by (auto simp: ends_with_iff)

text \<open>The patterns come from the profiles granted to the caller, or there are none.\<close>

lemma invoker_patterns_source:
  assumes "invoker_matched_tool_patterns env ws sub gs r = (Inr ps, r')" and "p \<in> set ps"
  shows "\<exists>granted rows r1 r2 r3 r4.
     open_tenant env ws r = (Inr (), r1) \<and>
     rg_granted_ids env ws (UserSubject sub # map GroupSubject gs) r1 = (Inr granted, r2) \<and>
     rg_profiles env ws r2 = (Inr rows, r3) \<and>
     (\<exists>row \<in> set rows. pf_id row \<in> set granted \<and> p = pf_target row @ ''.*'')"
  using assms
  by (auto simp: invoker_matched_tool_patterns_def catchM_run thenM_run bindM_run
      split: sum.splits prod.splits if_splits)

lemma invoker_patterns_total:
  "\<exists>ps r'. invoker_matched_tool_patterns env ws sub gs r = (Inr ps, r')"
  by (auto simp: invoker_matched_tool_patterns_def catchM_run split: sum.split prod.split)

lemma profile_grant_allows_total: "\<exists>b r'. profile_grant_allows env ws sub gs ns r = (Inr b, r')"
  using invoker_patterns_total [of env ws sub gs r] by (auto simp: profile_grant_allows_def bindM_run)

end
