(* ===== verification/Queue_Store.thy ===== *)
theory Queue_Store
  imports Dispatch
begin

text \<open>
  The persistent side of \<^verbatim>\<open>server/workspace/src/action-queue.ts\<close>: writing a queued action,
  reading it back with its time limit, the audit trail of its transitions, and the per-run
  index. Releasing needs the dispatch decision and is in \<open>Action_Queue\<close>.
\<close>

definition QUEUE_SCOPE :: string where
  "QUEUE_SCOPE = svc_scope ''actions'' [''queue'']"

definition QUEUE_TTL_MS :: int where
  "QUEUE_TTL_MS = 7 * 24 * 60 * 60 * 1000"

fun state_name :: "qa_state \<Rightarrow> string" where
  "state_name Queued = ''queued''"
| "state_name Released = ''released''"
| "state_name Discarded = ''discarded''"
| "state_name Expired = ''expired''"

definition attribution_from :: "dispatch_request \<Rightarrow> audit_triple" where
  "attribution_from req =
     \<lparr>at_user = pr_sub (dr_principal req), at_via = dr_via req,
      at_credential = dr_credential req, at_approver = None\<rparr>"

definition audit_transition ::
  "queued_action \<Rightarrow> qa_state \<Rightarrow> string option \<Rightarrow> ('r dworld, unit) prog" where
  "audit_transition action tr approver =
     (let att = (if truthy approver then (qa_attribution action)\<lparr>at_approver := approver\<rparr>
                 else qa_attribution action);
          req = qa_request action
      in modifyM (\<lambda>w. w\<lparr>dw_audit := dw_audit w @ [
           \<lparr>au_request_id = qa_id action @ '':'' @ state_name tr,
            au_workspace = pr_ws (dr_principal req), au_caller = at_user att,
            au_provider = tl_namespace (dr_tool req), au_operation = ''queue.'' @ state_name tr,
            au_status = (if tr = Queued then 202 else 200), au_transition = tr,
            au_attribution = att, au_resource = dr_resource req\<rparr>]\<rparr>))"

definition save_action :: "queued_action \<Rightarrow> ('r dworld, unit) prog" where
  "save_action action w =
     on_queue (write_svc_record (dw_now w) (pr_ws (dr_principal (qa_request action))) QUEUE_SCOPE
       (qa_id action) action (at_user (qa_attribution action))) w"

definition run_of :: "dispatch_request \<Rightarrow> string option" where
  "run_of req = (case dr_run req of None \<Rightarrow> None
                 | Some c \<Rightarrow> if rc_run c = [] then None else Some (rc_run c))"

definition new_action :: "int \<Rightarrow> string \<Rightarrow> dispatch_request \<Rightarrow> queued_action" where
  "new_action now i req =
     \<lparr>qa_id = i, qa_state = Queued, qa_request = req, qa_attribution = attribution_from req,
      qa_created = now, qa_expires = now + QUEUE_TTL_MS, qa_run = run_of req,
      qa_reason = None, qa_resolution = None\<rparr>"

definition enqueue_queued_action :: "'r registry \<Rightarrow> dispatch_request \<Rightarrow> ('r dworld, string) prog" where
  "enqueue_queued_action env req =
     bindM (random_uuid env) (\<lambda>i.
     bindM (gets dw_now) (\<lambda>now.
     let action = new_action now i req in
     thenM (save_action action)
       (thenM (case qa_run action of
                 None \<Rightarrow> ret ()
               | Some run \<Rightarrow> modifyM (\<lambda>w. w\<lparr>dw_latest := AList.update run i (dw_latest w)\<rparr>))
          (thenM (audit_transition action Queued None) (ret i)))))"

definition expired_action :: "int \<Rightarrow> queued_action \<Rightarrow> queued_action" where
  "expired_action now action =
     action\<lparr>qa_state := Expired, qa_reason := Some ''expired'',
            qa_resolution := Some \<lparr>rs_by = ''system'', rs_at = now, rs_remembered = None\<rparr>\<rparr>"

definition transition_expired :: "queued_action \<Rightarrow> ('r dworld, queued_action) prog" where
  "transition_expired action =
     bindM (gets dw_now) (\<lambda>now.
     let n = expired_action now action in
     thenM (save_action n) (thenM (audit_transition n Expired None) (ret n)))"

definition maybe_expire :: "queued_action \<Rightarrow> ('r dworld, queued_action) prog" where
  "maybe_expire action =
     (if qa_state action \<noteq> Queued then ret action
      else bindM (gets dw_now) (\<lambda>now.
        if qa_expires action > now then ret action else transition_expired action))"

definition read_action :: "string \<Rightarrow> string \<Rightarrow> ('r dworld, queued_action option) prog" where
  "read_action ws i w = (read_svc_record (dw_now w) (dw_queue w) ws QUEUE_SCOPE i, w)"

definition get_queued_action :: "string \<Rightarrow> string \<Rightarrow> ('r dworld, queued_action option) prog" where
  "get_queued_action ws i =
     bindM (catchM (read_action ws i) (\<lambda>_. ret None)) (\<lambda>r. case r of
         None \<Rightarrow> ret None
       | Some action \<Rightarrow> bindM (maybe_expire action) (\<lambda>a. ret (Some a)))"

definition queue_for_chain :: "string \<Rightarrow> bool \<Rightarrow> ('r dworld, string \<times> bool) prog" where
  "queue_for_chain run resultDependent =
     bindM (gets dw_latest) (\<lambda>m. case map_of m run of
         None \<Rightarrow> throw (ServiceError (''No queued action for run '' @ run) 404)
       | Some i \<Rightarrow> if i = [] then throw (ServiceError (''No queued action for run '' @ run) 404)
                   else ret (i, \<not> resultDependent))"

fun count_live :: "string \<Rightarrow> (string \<times> queued_action) list \<Rightarrow> ('r dworld, nat) prog" where
  "count_live run [] = ret 0"
| "count_live run ((k, v) # rows) =
     bindM (maybe_expire v) (\<lambda>current.
     bindM (count_live run rows) (\<lambda>n.
     ret (if qa_state current = Queued \<and> qa_run current = Some run then Suc n else n)))"

definition count_queued_for_run :: "string \<Rightarrow> string \<Rightarrow> ('r dworld, nat) prog" where
  "count_queued_for_run ws run =
     bindM (catchM (\<lambda>w. (list_svc_records (dw_now w) (dw_queue w) ws QUEUE_SCOPE [], w)) (\<lambda>_. ret []))
       (count_live run)"

definition expire_queued_action :: "string \<Rightarrow> string \<Rightarrow> ('r dworld, queued_action) prog" where
  "expire_queued_action ws i =
     bindM (read_action ws i) (\<lambda>r. case r of
         None \<Rightarrow> throw (ServiceError (''Queued action '' @ i @ '' not found'') 404)
       | Some loaded \<Rightarrow>
           if qa_state loaded \<noteq> Queued
           then throw (ServiceError (''Queued action '' @ i @ '' is already '' @ state_name (qa_state loaded)) 409)
           else transition_expired loaded)"

definition reset_queue_for_chain_index :: "('r dworld, unit) prog" where
  "reset_queue_for_chain_index = modifyM (\<lambda>w. w\<lparr>dw_latest := []\<rparr>)"

section \<open>The queue as a map of actions\<close>

definition qa_at :: "'r dworld \<Rightarrow> string \<Rightarrow> string \<Rightarrow> queued_action option" where
  "qa_at w ws i = doc_at (dw_queue w) ws QUEUE_SCOPE i"

text \<open>Every stored action sits under its own id in the workspace of its request.\<close>

definition queue_inv :: "'r dworld \<Rightarrow> bool" where
  "queue_inv w \<longleftrightarrow> doc_ok (dw_queue w) \<and>
     (\<forall>ws i a. qa_at w ws i = Some a \<longrightarrow> qa_id a = i \<and> pr_ws (dr_principal (qa_request a)) = ws)"

lemma queue_inv_ok [simp]: "queue_inv w \<Longrightarrow> doc_ok (dw_queue w)"
  unfolding queue_inv_def by blast

lemma queue_invD:
  assumes "queue_inv w" and "qa_at w ws i = Some a"
  shows "qa_id a = i" "pr_ws (dr_principal (qa_request a)) = ws"
  using assms unfolding queue_inv_def by blast+

lemma queue_scope_slash: "CHR ''/'' \<notin> set QUEUE_SCOPE"
  by (simp add: QUEUE_SCOPE_def svc_scope_def SVC_SCOPE_PREFIX_def)

definition req_ok :: "'r dworld \<Rightarrow> dispatch_request \<Rightarrow> bool" where
  "req_ok w req \<longleftrightarrow> ws_ok (dw_queue w) (pr_ws (dr_principal req))"

lemma read_action_run: "queue_inv w \<Longrightarrow> read_action ws i w = (Inr (qa_at w ws i), w)"
  by (simp add: read_action_def read_doc qa_at_def)

lemma stored_req_ok:
  assumes "queue_inv w" and "qa_at w ws i = Some a"
  shows "req_ok w (qa_request a)"
  using doc_at_ws_ok(1) [OF queue_inv_ok [OF assms(1)]] assms queue_invD [OF assms]
  by (simp add: qa_at_def req_ok_def)

text \<open>Saving one action: it fails and changes nothing, or only that action changes.\<close>

lemma save_action_cases:
  assumes inv: "queue_inv w" and ok: "req_ok w (qa_request a)"
  obtains
    (fails) e where "save_action a w = (Inl e, w)" "\<not> storable (dw_queue w) a"
  | (saves) q where "save_action a w = (Inr (), w\<lparr>dw_queue := q\<rparr>)" "queue_inv (w\<lparr>dw_queue := q\<rparr>)"
      "\<And>ws i. qa_at (w\<lparr>dw_queue := q\<rparr>) ws i =
         (if ws = pr_ws (dr_principal (qa_request a)) \<and> i = qa_id a then Some a else qa_at w ws i)"
      "addr_ok q = addr_ok (dw_queue w)" "storable q = storable (dw_queue w)"
proof -
  let ?ws = "pr_ws (dr_principal (qa_request a))"
  have a: "addr_ok (dw_queue w) (?ws, QUEUE_SCOPE, qa_id a)"
    using ok queue_scope_slash addr_ok_ws by (simp add: req_ok_def)
  show thesis
  proof (rule write_doc_cases [OF queue_inv_ok [OF inv] a,
        where now = "dw_now w" and v = a and u = "at_user (qa_attribution a)"])
    fix e
    assume "write_svc_record (dw_now w) ?ws QUEUE_SCOPE (qa_id a) a (at_user (qa_attribution a)) (dw_queue w)
        = (Inl e, dw_queue w)" and "\<not> storable (dw_queue w) a"
    then show thesis by (intro fails) (simp_all add: save_action_def on_queue_def zoom_run)
  next
    fix q
    assume w: "write_svc_record (dw_now w) ?ws QUEUE_SCOPE (qa_id a) a (at_user (qa_attribution a)) (dw_queue w)
        = (Inr (), q)" and q: "doc_ok q"
      and at: "\<And>ws' s' k'. doc_at q ws' s' k' =
        (if ws' = ?ws \<and> s' = QUEUE_SCOPE \<and> k' = qa_id a then Some a else doc_at (dw_queue w) ws' s' k')"
      and conf: "addr_ok q = addr_ok (dw_queue w)" "storable q = storable (dw_queue w)"
    have at': "qa_at (w\<lparr>dw_queue := q\<rparr>) ws i =
        (if ws = ?ws \<and> i = qa_id a then Some a else qa_at w ws i)" for ws i
      by (simp add: qa_at_def at)
    have "queue_inv (w\<lparr>dw_queue := q\<rparr>)"
      using inv q unfolding queue_inv_def at' by simp
    with w at' conf show thesis by (intro saves [of q]) (simp_all add: save_action_def on_queue_def zoom_run)
  qed
qed

end
