(* ===== verification/Json.thy ===== *)
theory Json
  imports Base
begin

text \<open>
  Values of \<^verbatim>\<open>unknown\<close> type as handlers receive them from \<^verbatim>\<open>JSON.parse\<close>, with reads of
  properties; \<^verbatim>\<open>undefined\<close> is the value of an absent one. Numbers are integers.
\<close>

datatype json = JUndefined | JNull | JBool bool | JNum int | JStr string | JArr "json list"
  | JObj "(string \<times> json) list"

fun jprop :: "json \<Rightarrow> string \<Rightarrow> json" where
  "jprop (JObj m) k = (case map_of m k of None \<Rightarrow> JUndefined | Some v \<Rightarrow> v)"
| "jprop _ k = JUndefined"

end
