(* ===== verification/Grants.thy ===== *)
theory Grants
  imports Profile_Grants Queue_Store Json
begin

text \<open>
  \<^verbatim>\<open>server/workspace/src/grants.ts\<close>: capability patterns, path grants and their validation, and
  \<^verbatim>\<open>evaluateDispatch\<close>, the one decision every tool call goes through.
\<close>

section \<open>Capability patterns\<close>

definition pattern_matches :: "string \<Rightarrow> string \<Rightarrow> bool" where
  "pattern_matches pat call \<longleftrightarrow>
     (if pat = ''*'' then True
      else if ends_with pat ''.*'' then
        (let base = drop_end 2 pat in call = base \<or> starts_with call (base @ ''.''))
      else call = pat)"

definition matches_capability_pattern :: "string list \<Rightarrow> string \<Rightarrow> string \<Rightarrow> bool" where
  "matches_capability_pattern patterns namespace procedure \<longleftrightarrow>
     (let call = namespace @ ''.'' @ procedure in \<exists>pat \<in> set patterns. pattern_matches pat call)"

section \<open>Path grants\<close>

datatype path_access = NoAccess | ReadOnly | ReadWrite

record path_grant =
  pg_prefix :: string
  pg_access :: path_access

record capability_grants =
  cg_tools :: "string list option"
  cg_paths :: "path_grant list option"

definition strip_trailing :: "string \<Rightarrow> string" where
  "strip_trailing s = rev (dropWhile (\<lambda>c. c = CHR ''/'') (rev s))"

definition strip_leading :: "string \<Rightarrow> string" where
  "strip_leading s = dropWhile (\<lambda>c. c = CHR ''/'') s"

definition prefix_covers :: "string \<Rightarrow> string \<Rightarrow> bool" where
  "prefix_covers p path \<longleftrightarrow> p = [] \<or> path = p \<or> starts_with path (p @ ''/'')"

fun best_grant :: "string \<Rightarrow> (nat \<times> path_access) option \<Rightarrow> path_grant list \<Rightarrow> (nat \<times> path_access) option" where
  "best_grant path best [] = best"
| "best_grant path best (g # gs) =
     (let p = strip_trailing (pg_prefix g) in
      if \<not> prefix_covers p path then best_grant path best gs
      else if (case best of None \<Rightarrow> True | Some (n, _) \<Rightarrow> length p > n)
      then best_grant path (Some (length p, pg_access g)) gs
      else best_grant path best gs)"

definition path_access_of :: "path_grant list \<Rightarrow> string \<Rightarrow> path_access" where
  "path_access_of grants path = (case best_grant path None grants of None \<Rightarrow> NoAccess | Some (_, a) \<Rightarrow> a)"

definition assert_tool_granted :: "capability_grants option \<Rightarrow> string \<Rightarrow> string \<Rightarrow> svc_error + unit" where
  "assert_tool_granted grants namespace procedure =
     (case Option.bind grants cg_tools of
        None \<Rightarrow> Inr ()
      | Some tools \<Rightarrow>
          if matches_capability_pattern tools namespace procedure then Inr ()
          else Inl (ServiceError (''Agent grant denies '' @ namespace @ ''.'' @ procedure @ '' (granted: '' @
                 (if join '', '' tools = [] then ''nothing'' else join '', '' tools) @ '')'') 403))"

definition assert_path_granted :: "capability_grants option \<Rightarrow> string \<Rightarrow> bool \<Rightarrow> svc_error + unit" where
  "assert_path_granted grants path write =
     (case Option.bind grants cg_paths of
        None \<Rightarrow> Inr ()
      | Some paths \<Rightarrow>
          let access = path_access_of paths path in
          if access = NoAccess \<or> (write \<and> access = ReadOnly)
          then Inl (ServiceError (''Agent grant denies '' @ (if write then ''writing'' else ''reading'') @ '' '' @ path) 403)
          else Inr ())"

section \<open>Validation of a grants payload\<close>

definition quoted :: "string \<Rightarrow> string" where
  "quoted s = [CHR 0x22] @ s @ [CHR 0x22]"

definition tools_message :: string where
  "tools_message = ''grants.tools must be an array of tool patterns ('' @ quoted ''keyvalue.*'' @ '', '' @
     quoted ''github.repos.get'' @ '', '' @ quoted ''*'' @ '')''"

definition path_message :: string where
  "path_message = ''each path grant needs { prefix, access: '' @ quoted ''ro'' @ '' | '' @ quoted ''rw'' @ '' }''"

definition is_word_char :: "char \<Rightarrow> bool" where
  "is_word_char c = (let n = of_char c :: nat in
     (48 \<le> n \<and> n \<le> 57) \<or> (65 \<le> n \<and> n \<le> 90) \<or> (97 \<le> n \<and> n \<le> 122) \<or> n = 95)"

text \<open>\<^verbatim>\<open>/^[\w.*-]{1,200}$/\<close>.\<close>

definition tool_pattern_ok :: "string \<Rightarrow> bool" where
  "tool_pattern_ok t \<longleftrightarrow> 1 \<le> length t \<and> length t \<le> 200 \<and>
     (\<forall>c \<in> set t. is_word_char c \<or> c \<in> {CHR ''.'', CHR ''*'', CHR ''-''})"

fun includes_text :: "string \<Rightarrow> string \<Rightarrow> bool" where
  "includes_text [] p = (p = [])"
| "includes_text (x # xs) p = (starts_with (x # xs) p \<or> includes_text xs p)"

fun parse_tools :: "json list \<Rightarrow> string list option" where
  "parse_tools [] = Some []"
| "parse_tools (JStr t # ts) =
     (if tool_pattern_ok t then map_option (\<lambda>r. t # r) (parse_tools ts) else None)"
| "parse_tools (_ # ts) = None"

definition parse_path :: "json \<Rightarrow> svc_error + path_grant" where
  "parse_path entry =
     (let pre = (case jprop entry ''prefix'' of JStr p \<Rightarrow> Some p | _ \<Rightarrow> None);
          access = (case jprop entry ''access'' of
                      JStr a \<Rightarrow> if a = ''ro'' then Some ReadOnly else if a = ''rw'' then Some ReadWrite else None
                    | _ \<Rightarrow> None)
      in case (pre, access) of
           (Some p, Some a) \<Rightarrow>
             (let n = strip_trailing (strip_leading p) in
              if includes_text n ''..'' \<or> starts_with n ''.services''
              then Inl (ServiceError (''Invalid grant prefix: '' @ p) 400)
              else Inr \<lparr>pg_prefix = n, pg_access = a\<rparr>)
         | _ \<Rightarrow> Inl (ServiceError path_message 400))"

fun parse_paths :: "json list \<Rightarrow> svc_error + path_grant list" where
  "parse_paths [] = Inr []"
| "parse_paths (x # xs) =
     (case parse_path x of Inl e \<Rightarrow> Inl e
      | Inr g \<Rightarrow> (case parse_paths xs of Inl e \<Rightarrow> Inl e | Inr gs \<Rightarrow> Inr (g # gs)))"

definition parse_tools_field :: "json \<Rightarrow> svc_error + string list option" where
  "parse_tools_field j =
     (case j of JUndefined \<Rightarrow> Inr None
      | JArr ts \<Rightarrow> (case parse_tools ts of
           None \<Rightarrow> Inl (ServiceError tools_message 400)
         | Some tools \<Rightarrow> Inr (Some tools))
      | _ \<Rightarrow> Inl (ServiceError tools_message 400))"

definition parse_paths_field :: "json \<Rightarrow> svc_error + path_grant list option" where
  "parse_paths_field j =
     (case j of JUndefined \<Rightarrow> Inr None
      | JArr ps \<Rightarrow> map_sum id Some (parse_paths ps)
      | _ \<Rightarrow> Inl (ServiceError ''grants.paths must be an array of { prefix, access }'' 400))"

definition parse_grants :: "json \<Rightarrow> svc_error + capability_grants option" where
  "parse_grants raw =
     (case raw of
        JUndefined \<Rightarrow> Inr None
      | JNull \<Rightarrow> Inr None
      | JObj m \<Rightarrow>
          (case parse_tools_field (jprop raw ''tools'') of
             Inl e \<Rightarrow> Inl e
           | Inr tools \<Rightarrow>
               (case parse_paths_field (jprop raw ''paths'') of
                  Inl e \<Rightarrow> Inl e
                | Inr paths \<Rightarrow>
                    Inr (if tools \<noteq> None \<or> paths \<noteq> None
                         then Some \<lparr>cg_tools = tools, cg_paths = paths\<rparr> else None)))
      | _ \<Rightarrow> Inl (ServiceError ''grants must be an object { tools?, paths? }'' 400))"

section \<open>The dispatch decision\<close>

record eval_options =
  eo_app_ceiling :: "string list option"
  eo_run_tools :: "string list option"
  eo_resource_grants :: "grant_row list option"
  eo_invoker_patterns :: "string list option"

definition no_options :: eval_options where
  "no_options = \<lparr>eo_app_ceiling = None, eo_run_tools = None, eo_resource_grants = None,
     eo_invoker_patterns = None\<rparr>"

definition capability_covered :: "string list option \<Rightarrow> string \<Rightarrow> string \<Rightarrow> bool" where
  "capability_covered patterns namespace operation \<longleftrightarrow>
     (case patterns of None \<Rightarrow> False | Some [] \<Rightarrow> False
      | Some ps \<Rightarrow> matches_capability_pattern ps namespace operation)"

definition permission_pattern :: "permission_row \<Rightarrow> string" where
  "permission_pattern row =
     (if pm_operation row = ''*'' then pm_provider row @ ''.*''
      else pm_provider row @ ''.'' @ pm_operation row)"

definition resolve_invoker_patterns ::
  "'r registry \<Rightarrow> dispatch_request \<Rightarrow> eval_options \<Rightarrow> ('r, string list) prog" where
  "resolve_invoker_patterns env req opts =
     (case eo_invoker_patterns opts of
        Some ps \<Rightarrow> ret ps
      | None \<Rightarrow>
          let p = dr_principal req in
          bindM (rg_permissions env (pr_ws p) (pr_sub p)) (\<lambda>legacy.
          bindM (invoker_matched_tool_patterns env (pr_ws p) (pr_sub p) (pr_groups p)) (\<lambda>profiles.
          ret (dedup (map permission_pattern legacy @ profiles @
                (if pr_role p = ''admin'' \<and> \<not> truthy (req_app req) then [''*''] else []))))))"

definition resolve_app_ceiling ::
  "'r registry \<Rightarrow> dispatch_request \<Rightarrow> eval_options \<Rightarrow> ('r, string list option) prog" where
  "resolve_app_ceiling env req opts =
     (case eo_app_ceiling opts of
        Some c \<Rightarrow> ret (Some c)
      | None \<Rightarrow>
          (case some_text (req_app req) of
             None \<Rightarrow> ret None
           | Some app \<Rightarrow> catchM (rg_allowed_tools env (pr_ws (dr_principal req)) app) (\<lambda>_. ret None)))"

definition resource_grant_subjects :: "dispatch_request \<Rightarrow> subject list" where
  "resource_grant_subjects req =
     UserSubject (pr_sub (dr_principal req)) # map GroupSubject (pr_groups (dr_principal req)) @
     (case some_text (req_app req) of None \<Rightarrow> [] | Some app \<Rightarrow> [AppInstallSubject app])"

definition resource_matches_grant :: "'r registry \<Rightarrow> string option \<Rightarrow> grant_row \<Rightarrow> bool" where
  "resource_matches_grant env resource g \<longleftrightarrow>
     (case gr_pattern g of None \<Rightarrow> True
      | Some pat \<Rightarrow> (case resource of None \<Rightarrow> False | Some r \<Rightarrow> rg_matches env pat r))"

definition grants_for_capability :: "grant_row list \<Rightarrow> string \<Rightarrow> string \<Rightarrow> grant_row list" where
  "grants_for_capability rows namespace operation =
     filter (\<lambda>row. matches_capability_pattern [gr_capability row] namespace operation) rows"

definition is_user_oauth_connected :: "'r registry \<Rightarrow> dispatch_request \<Rightarrow> ('r, bool) prog" where
  "is_user_oauth_connected env req =
     (if truthy (map_option cr_id (dr_credential req)) then ret True
      else catchM
        (thenM (rg_open env)
          (bindM (rg_credentials env (pr_ws (dr_principal req))) (\<lambda>creds.
           ret (\<exists>c \<in> set creds. cd_level c = ''user-oauth'' \<and> cd_created_by c = pr_sub (dr_principal req)
                  \<and> (cd_provider c = tl_namespace (dr_tool req) \<or> tl_namespace (dr_tool req) = [])))))
        (\<lambda>_. ret False))"

text \<open>The gate on user-level credentials and the four capability layers.\<close>

definition oauth_gate :: "'r registry \<Rightarrow> dispatch_request \<Rightarrow> ('r, bool) prog" where
  "oauth_gate env req =
     (if req_level req = Some ''user-oauth'' then is_user_oauth_connected env req else ret True)"

definition profile_pin_ok :: "'r registry \<Rightarrow> dispatch_request \<Rightarrow> ('r, bool) prog" where
  "profile_pin_ok env req =
     (case some_text (req_profile req) of
        None \<Rightarrow> ret True
      | Some pid \<Rightarrow>
          let p = dr_principal req; ns = tl_namespace (dr_tool req) in
          bindM (profile_grant_allows env (pr_ws p) (pr_sub p) (pr_groups p) ns) (\<lambda>allowed.
          catchM
            (thenM (rg_open env)
              (bindM (rg_profile_by_id env (pr_ws p) pid) (\<lambda>profile.
               ret (case profile of
                      None \<Rightarrow> allowed
                    | Some row \<Rightarrow> if pf_target row \<noteq> ns \<and> pf_target row \<noteq> ''*'' then False else allowed))))
            (\<lambda>_. ret False)))"

definition capability_layers ::
  "'r registry \<Rightarrow> dispatch_request \<Rightarrow> eval_options \<Rightarrow> ('r, bool) prog" where
  "capability_layers env req opts =
     (let ns = tl_namespace (dr_tool req); op = tl_operation (dr_tool req) in
      bindM (resolve_invoker_patterns env req opts) (\<lambda>inv.
      bindM (resolve_app_ceiling env req opts) (\<lambda>ceiling.
      bindM (profile_pin_ok env req) (\<lambda>profileOk.
      ret (capability_covered (Some inv) ns op
           \<and> (ceiling = None \<or> capability_covered ceiling ns op)
           \<and> profileOk
           \<and> (eo_run_tools opts = None \<or> capability_covered (eo_run_tools opts) ns op))))))"

definition resource_rows ::
  "'r registry \<Rightarrow> dispatch_request \<Rightarrow> eval_options \<Rightarrow> ('r, grant_row list) prog" where
  "resource_rows env req opts =
     (case eo_resource_grants opts of
        Some rows \<Rightarrow> ret rows
      | None \<Rightarrow>
          catchM
            (thenM (open_tenant env (pr_ws (dr_principal req)))
              (rg_grants_for env (pr_ws (dr_principal req)) (resource_grant_subjects req)))
            (\<lambda>_. ret []))"

text \<open>The two ends of the decision: a capability miss, and the resource axis of an action.\<close>

definition capability_miss :: "'r registry \<Rightarrow> dispatch_request \<Rightarrow> ('r dworld, decision) prog" where
  "capability_miss env req =
     (if dr_run req \<noteq> None then bindM (random_uuid env) (\<lambda>card. ret (Ask card))
      else ret (Deny DenyCapability))"

definition resource_decision ::
  "'r registry \<Rightarrow> dispatch_request \<Rightarrow> grant_row list \<Rightarrow> ('r dworld, decision) prog" where
  "resource_decision env req rows =
     (let forCap = grants_for_capability rows (tl_namespace (dr_tool req)) (tl_operation (dr_tool req));
          matched = filter (resource_matches_grant env (dr_resource req)) forCap
      in if forCap = [] then ret Allow
         else if matched = [] then bindM (enqueue_queued_action env req) (\<lambda>i. ret (Queue i))
         else if truthy (req_level req)
                 \<and> filter (\<lambda>g. Some (gr_level g) = req_level req) matched = []
                 \<and> (\<exists>g \<in> set matched. gr_level g = ''user-oauth'')
              then ret (Deny DenyUnconnected)
         else ret Allow)"

definition evaluate_dispatch ::
  "'r registry \<Rightarrow> dispatch_request \<Rightarrow> eval_options \<Rightarrow> ('r dworld, decision) prog" where
  "evaluate_dispatch env req opts =
     bindM (on_reg (oauth_gate env req)) (\<lambda>connected.
     if \<not> connected then ret (Deny DenyUnconnected)
     else bindM (on_reg (capability_layers env req opts)) (\<lambda>covered.
     if \<not> covered then capability_miss env req
     else if tl_effect (dr_tool req) = Observation then ret Allow
     else bindM (on_reg (resource_rows env req opts)) (resource_decision env req)))"

definition deny_message :: "deny_reason \<Rightarrow> string" where
  "deny_message reason =
     (case reason of
        DenyUnconnected \<Rightarrow> ''Connect and approve this user-oauth credential before invoking''
      | DenyCapability \<Rightarrow> ''Forbidden: caller does not have permission for this operation'')"

end
