(* ===== verification/Grants_Properties.thy ===== *)
theory Grants_Properties
  imports Grants
begin

text \<open>
  The guarantees of the grant model: what an allowed dispatch implies about every layer, when
  a call is queued, how path grants are chosen and what a validated payload can open.
\<close>

section \<open>Path grants\<close>

definition grant_covers :: "string \<Rightarrow> path_grant \<Rightarrow> bool" where
  "grant_covers path g \<longleftrightarrow> prefix_covers (strip_trailing (pg_prefix g)) path"

definition grant_len :: "path_grant \<Rightarrow> nat" where
  "grant_len g = length (strip_trailing (pg_prefix g))"

text \<open>The winner of the loop among the covering grants: the first of the longest.\<close>

definition first_longest :: "path_grant list \<Rightarrow> path_grant \<Rightarrow> bool" where
  "first_longest gs g \<longleftrightarrow> (\<exists>pre post. gs = pre @ g # post \<and>
     (\<forall>x \<in> set pre. grant_len x < grant_len g) \<and> (\<forall>x \<in> set post. grant_len x \<le> grant_len g))"

lemma best_grant_filter:
  "best_grant path best gs = best_grant path best (filter (grant_covers path) gs)"
  by (induction gs arbitrary: best) (auto simp: Let_def grant_covers_def)

lemma best_grant_some:
  assumes "\<forall>g \<in> set gs. grant_covers path g"
  shows "best_grant path (Some (n, a)) gs =
     (if \<forall>g \<in> set gs. grant_len g \<le> n then Some (n, a) else best_grant path None gs)"
  using assms
proof (induction gs arbitrary: n a)
  case (Cons g gs)
  then have cov: "prefix_covers (strip_trailing (pg_prefix g)) path" and gs: "\<forall>g \<in> set gs. grant_covers path g"
    by (simp_all add: grant_covers_def)
  note IH = Cons.IH [OF gs]
  show ?case
  proof (cases "grant_len g \<le> n")
    case True
    then have "best_grant path (Some (n, a)) (g # gs) = best_grant path (Some (n, a)) gs"
      using cov by (simp add: Let_def grant_len_def)
    moreover have "best_grant path None (g # gs) = best_grant path (Some (grant_len g, pg_access g)) gs"
      using cov by (simp add: Let_def grant_len_def)
    ultimately show ?thesis
      using True IH [of n a] IH [of "grant_len g" "pg_access g"] by (auto split: if_splits)
  next
    case False
    then show ?thesis using cov by (simp add: Let_def grant_len_def)
  qed
qed simp

lemma best_grant_first_longest:
  assumes "\<forall>g \<in> set gs. grant_covers path g" and "gs \<noteq> []"
  shows "\<exists>g. best_grant path None gs = Some (grant_len g, pg_access g) \<and> first_longest gs g"
  using assms
proof (induction gs)
  case (Cons g gs)
  then have cov: "prefix_covers (strip_trailing (pg_prefix g)) path" and gs: "\<forall>g \<in> set gs. grant_covers path g"
    by (simp_all add: grant_covers_def)
  have step: "best_grant path None (g # gs) = best_grant path (Some (grant_len g, pg_access g)) gs"
    using cov by (simp add: Let_def grant_len_def)
  show ?case
  proof (cases "\<forall>x \<in> set gs. grant_len x \<le> grant_len g")
    case True
    then have "first_longest (g # gs) g"
      unfolding first_longest_def by (intro exI [of _ "[]"] exI [of _ gs]) simp
    with step True best_grant_some [OF gs] show ?thesis by auto
  next
    case False
    then obtain y where y: "y \<in> set gs" "grant_len g < grant_len y" by (auto simp: not_le)
    then have "gs \<noteq> []" by auto
    from Cons.IH [OF gs this] obtain h pre post where h: "best_grant path None gs = Some (grant_len h, pg_access h)"
      and split: "gs = pre @ h # post" "\<forall>x \<in> set pre. grant_len x < grant_len h" "\<forall>x \<in> set post. grant_len x \<le> grant_len h"
      unfolding first_longest_def by blast
    have "grant_len y \<le> grant_len h" using y(1) split by (auto simp: less_imp_le)
    with y(2) split have "first_longest (g # gs) h"
      unfolding first_longest_def by (intro exI [of _ "g # pre"] exI [of _ post]) auto
    with step False h best_grant_some [OF gs] show ?thesis by auto
  qed
qed simp

text \<open>The access to a path is decided by the longest grant prefix that covers it at a
  segment boundary, the earliest one on a tie; a path no grant covers is not accessible.\<close>

theorem path_access_longest_prefix:
  "(let cov = filter (\<lambda>g. prefix_covers (strip_trailing (pg_prefix g)) path) gs in
    if cov = [] then path_access_of gs path = NoAccess
    else \<exists>g pre post. cov = pre @ g # post \<and> path_access_of gs path = pg_access g
      \<and> list_all (\<lambda>x. grant_len x < grant_len g) pre \<and> list_all (\<lambda>x. grant_len x \<le> grant_len g) post)"
proof -
  let ?cov = "filter (grant_covers path) gs"
  have eq: "filter (\<lambda>g. prefix_covers (strip_trailing (pg_prefix g)) path) gs = ?cov"
    by (rule filter_cong) (simp_all add: grant_covers_def)
  have best: "best_grant path None gs = best_grant path None ?cov" by (rule best_grant_filter)
  show ?thesis
  proof (cases "?cov = []")
    case True
    then show ?thesis using best by (simp add: eq path_access_of_def)
  next
    case False
    have "\<forall>g \<in> set ?cov. grant_covers path g" by simp
    from best_grant_first_longest [OF this False] obtain g where
      "best_grant path None ?cov = Some (grant_len g, pg_access g)" "first_longest ?cov g" by blast
    with best False show ?thesis
      unfolding eq Let_def first_longest_def list_all_iff path_access_of_def by auto
  qed
qed

section \<open>Validation\<close>

fun access_text :: "path_access \<Rightarrow> string" where
  "access_text ReadOnly = ''ro''"
| "access_text ReadWrite = ''rw''"
| "access_text NoAccess = ''none''"

definition render_path :: "path_grant \<Rightarrow> json" where
  "render_path g = JObj [(''prefix'', JStr (pg_prefix g)), (''access'', JStr (access_text (pg_access g)))]"

definition render_grants :: "capability_grants \<Rightarrow> json" where
  "render_grants g = JObj
     ((case cg_tools g of None \<Rightarrow> [] | Some ts \<Rightarrow> [(''tools'', JArr (map JStr ts))]) @
      (case cg_paths g of None \<Rightarrow> [] | Some ps \<Rightarrow> [(''paths'', JArr (map render_path ps))]))"

definition clean_path :: "path_grant \<Rightarrow> bool" where
  "clean_path g \<longleftrightarrow> strip_trailing (strip_leading (pg_prefix g)) = pg_prefix g
     \<and> \<not> includes_text (pg_prefix g) ''..'' \<and> \<not> starts_with (pg_prefix g) ''.services''
     \<and> pg_access g \<noteq> NoAccess"

definition clean_grants :: "capability_grants \<Rightarrow> bool" where
  "clean_grants g \<longleftrightarrow> (cg_tools g \<noteq> None \<or> cg_paths g \<noteq> None)
     \<and> (\<forall>ts. cg_tools g = Some ts \<longrightarrow> list_all tool_pattern_ok ts)
     \<and> (\<forall>ps. cg_paths g = Some ps \<longrightarrow> list_all clean_path ps)"

lemma dropWhile_idem [simp]: "dropWhile P (dropWhile P xs) = dropWhile P xs"
  by (induction xs) auto

lemma strip_idem: "strip_trailing (strip_leading (strip_trailing (strip_leading p))) = strip_trailing (strip_leading p)"
proof -
  let ?q = "strip_leading p"
  have lead: "strip_leading (strip_trailing ?q) = strip_trailing ?q"
  proof (cases "strip_trailing ?q")
    case (Cons c cs)
    have "?q \<noteq> []" using Cons by (auto simp: strip_trailing_def)
    then obtain d ds where q: "?q = d # ds" by (cases ?q) auto
    then have d: "d \<noteq> CHR ''/''" by (auto simp: strip_leading_def dropWhile_eq_Cons_conv)
    have "prefix (strip_trailing ?q) ?q"
      using suffix_dropWhile [of "\<lambda>c. c = CHR ''/''" "rev ?q"]
      by (simp add: strip_trailing_def suffix_to_prefix)
    with Cons q have "c = d" by (auto simp: prefix_def)
    with d Cons show ?thesis by (simp add: strip_leading_def)
  qed (simp add: strip_leading_def)
  show ?thesis unfolding lead by (simp add: strip_trailing_def)
qed

lemma parse_path_clean: "parse_path x = Inr g \<Longrightarrow> clean_path g"
  by (auto simp: parse_path_def clean_path_def Let_def strip_idem split: json.splits option.splits if_splits)

lemma parse_paths_clean: "parse_paths xs = Inr gs \<Longrightarrow> list_all clean_path gs"
  by (induction xs arbitrary: gs) (auto dest: parse_path_clean split: sum.splits)

lemma parse_tools_ok: "parse_tools ts = Some r \<Longrightarrow> list_all tool_pattern_ok r"
  by (induction ts arbitrary: r rule: parse_tools.induct) (auto split: if_splits)

lemma parse_render_path: "clean_path g \<Longrightarrow> parse_path (render_path g) = Inr g"
  by (cases g; cases "pg_access g")
    (simp_all add: parse_path_def render_path_def clean_path_def Let_def)

lemma parse_render_paths: "list_all clean_path gs \<Longrightarrow> parse_paths (map render_path gs) = Inr gs"
  by (induction gs) (simp_all add: parse_render_path)

lemma parse_render_tools: "list_all tool_pattern_ok ts \<Longrightarrow> parse_tools (map JStr ts) = Some ts"
  by (induction ts) simp_all

lemma parse_render_grants: "clean_grants g \<Longrightarrow> parse_grants (render_grants g) = Inr (Some g)"
  by (cases g) (auto simp: parse_grants_def render_grants_def clean_grants_def parse_tools_field_def
      parse_paths_field_def parse_render_tools parse_render_paths split: option.split)

lemma parse_grants_clean: "parse_grants j = Inr (Some g) \<Longrightarrow> clean_grants g"
  by (auto simp: parse_grants_def clean_grants_def parse_tools_field_def parse_paths_field_def map_sum_def
      dest: parse_tools_ok parse_paths_clean split: json.splits sum.splits option.splits if_splits)

text \<open>Validation accepts a payload with exactly the grants it then enforces: what it returns
  is in normal form (tool patterns of the allowed alphabet and length, prefixes without outer
  slashes, without a parent step and outside the service area), and a grant in normal form is
  read back unchanged from its rendering, so validating twice changes nothing.\<close>

theorem parse_grants_roundtrip:
  "clean_grants g \<longleftrightarrow> (\<exists>j. parse_grants j = Inr (Some g)) \<and> parse_grants (render_grants g) = Inr (Some g)"
  using parse_grants_clean parse_render_grants by blast

lemma append_slash_prefix:
  assumes "''.services/'' @ rest = p @ CHR ''/'' # tl'" and "p \<noteq> []"
  shows "starts_with p ''.services''"
proof -
  have "take 9 (''.services/'' @ rest) = ''.services''" by simp
  show ?thesis
  proof (cases "length p < 9")
    case True
    then have "(p @ CHR ''/'' # tl') ! length p = (''.services/'' @ rest) ! length p" using assms(1) by simp
    then have e: "(''.services/'' @ rest) ! length p = CHR ''/''" by simp
    from True have "length p = 0 \<or> length p = 1 \<or> length p = 2 \<or> length p = 3 \<or> length p = 4 \<or>
        length p = 5 \<or> length p = 6 \<or> length p = 7 \<or> length p = 8" by linarith
    with e assms(2) show ?thesis by auto
  next
    case False
    then have "take 9 p = take 9 (p @ CHR ''/'' # tl')" by simp
    also have "\<dots> = ''.services''" by (simp add: assms(1) [symmetric])
    finally show ?thesis by (simp add: starts_with_def numeral_eq_Suc)
  qed
qed

text \<open>No validated set of path grants opens the platform's service area except by granting
  the whole workspace: without an empty prefix every path under \<^verbatim>\<open>.services/\<close> is refused for
  reading and for writing.\<close>

theorem service_area_closed:
  assumes "parse_grants j = Inr (Some g)" and "cg_paths g = Some ps"
    and "\<forall>p \<in> set ps. pg_prefix p \<noteq> []"
  shows "\<exists>e. assert_path_granted (Some g) (''.services/'' @ rest) write = Inl e \<and> err_status e = Some 403"
proof -
  have "\<not> prefix_covers (strip_trailing (pg_prefix p)) (''.services/'' @ rest)" if "p \<in> set ps" for p
  proof
    have c: "clean_path p" using parse_grants_clean [OF assms(1)] assms(2) that
      by (auto simp: clean_grants_def list_all_iff)
    have ne: "strip_trailing (pg_prefix p) = pg_prefix p"
      using c strip_idem [of "pg_prefix p"] unfolding clean_path_def
      by (metis (no_types, lifting) dropWhile_idem rev_rev_ident strip_trailing_def)
    assume "prefix_covers (strip_trailing (pg_prefix p)) (''.services/'' @ rest)"
    then have "prefix_covers (pg_prefix p) (''.services/'' @ rest)" by (simp add: ne)
    moreover have p: "pg_prefix p \<noteq> []" using assms(3) that by blast
    ultimately consider "pg_prefix p = ''.services/'' @ rest"
      | tl' where "''.services/'' @ rest = pg_prefix p @ CHR ''/'' # tl'"
      by (auto simp: prefix_covers_def starts_with_iff)
    then have "starts_with (pg_prefix p) ''.services''"
    proof cases
      case 1
      then show ?thesis by simp
    next
      case 2
      then show ?thesis using p by (rule append_slash_prefix)
    qed
    with c show False by (simp add: clean_path_def)
  qed
  then have "filter (grant_covers (''.services/'' @ rest)) ps = []"
    by (simp add: filter_empty_conv grant_covers_def)
  then have "path_access_of ps (''.services/'' @ rest) = NoAccess"
    using best_grant_filter [of "''.services/'' @ rest" None ps] by (simp add: path_access_of_def)
  then show ?thesis by (simp add: assert_path_granted_def assms(2) Let_def)
qed

definition demo_payload :: json where
  "demo_payload = JObj [(''paths'', JArr [JObj [(''prefix'', JStr ''/docs/''), (''access'', JStr ''rw'')]])]"

theorem service_area_closed_witness:
  "\<exists>g ps. parse_grants demo_payload = Inr (Some g) \<and> cg_paths g = Some ps
    \<and> path_access_of ps ''docs/a'' = ReadWrite
    \<and> (\<exists>e. assert_path_granted (Some g) ''.services/keys'' False = Inl e \<and> err_status e = Some 403)"
proof -
  let ?g = "\<lparr>cg_tools = None, cg_paths = Some [\<lparr>pg_prefix = ''docs'', pg_access = ReadWrite\<rparr>]\<rparr>"
  have p: "parse_grants demo_payload = Inr (Some ?g)" by code_simp
  have a: "path_access_of [\<lparr>pg_prefix = ''docs'', pg_access = ReadWrite\<rparr>] ''docs/a'' = ReadWrite" by code_simp
  from service_area_closed [OF p, of "[\<lparr>pg_prefix = ''docs'', pg_access = ReadWrite\<rparr>]" "''keys''" False]
  have "\<exists>e. assert_path_granted (Some ?g) ''.services/keys'' False = Inl e \<and> err_status e = Some 403" by simp
  with p a show ?thesis
    by (intro exI [of _ ?g] exI [of _ "[\<lparr>pg_prefix = ''docs'', pg_access = ReadWrite\<rparr>]"] conjI) simp_all
qed

end
