(* ===== verification/Action_Queue.thy ===== *)
theory Action_Queue
  imports Grants
begin

text \<open>
  The review side of \<^verbatim>\<open>server/workspace/src/action-queue.ts\<close>: releasing a queued action, with
  the optional remembered grant that must open the allow path, and discarding one. The
  installed executor is the environment's \<^verbatim>\<open>rg_execute\<close>; each call of it is logged.
\<close>

definition remember_subject :: "dispatch_request \<Rightarrow> subject" where
  "remember_subject req =
     (case req_app req of Some app \<Rightarrow> AppInstallSubject app | None \<Rightarrow> UserSubject (pr_sub (dr_principal req)))"

definition remembered_level :: "dispatch_request \<Rightarrow> string" where
  "remembered_level req = (case req_level req of None \<Rightarrow> ''workspace-token'' | Some l \<Rightarrow> l)"

definition remembered_grant :: "dispatch_request \<Rightarrow> string option \<Rightarrow> string \<Rightarrow> new_grant" where
  "remembered_grant req pat reviewer =
     \<lparr>ng_subject = remember_subject req, ng_capability = req_capability req, ng_pattern = pat,
      ng_level = remembered_level req, ng_by = reviewer\<rparr>"

definition release_options :: "dispatch_request \<Rightarrow> eval_options" where
  "release_options req =
     \<lparr>eo_app_ceiling = (if truthy (req_app req) then Some [req_capability req] else None),
      eo_run_tools = None, eo_resource_grants = None,
      eo_invoker_patterns = Some [req_capability req]\<rparr>"

fun decision_kind :: "decision \<Rightarrow> string" where
  "decision_kind Allow = ''allow''"
| "decision_kind (Deny r) = ''deny''"
| "decision_kind (Queue i) = ''queue''"
| "decision_kind (Ask i) = ''ask''"

definition remember_pattern ::
  "'r registry \<Rightarrow> string \<Rightarrow> dispatch_request \<Rightarrow> string \<Rightarrow> string \<Rightarrow> ('r dworld, unit) prog" where
  "remember_pattern env ws req pat reviewer =
     thenM (on_reg (open_tenant env ws))
       (thenM (on_reg (rg_create_grant env ws (remembered_grant req (Some pat) reviewer)))
         (bindM (evaluate_dispatch env req (release_options req)) (\<lambda>d.
          if d \<noteq> Allow
          then throw (ServiceError (''Remembered pattern did not open the allow path (got '' @
                 decision_kind d @ '')'') 500)
          else ret ())))"

definition run_executor :: "'r registry \<Rightarrow> dispatch_request \<Rightarrow> ('r dworld, unit) prog" where
  "run_executor env req =
     thenM (modifyM (\<lambda>w. w\<lparr>dw_executed := dw_executed w @ [req]\<rparr>)) (on_reg (rg_execute env req))"

definition load_queued :: "string \<Rightarrow> string \<Rightarrow> string \<Rightarrow> ('r dworld, queued_action) prog" where
  "load_queued ws i verb =
     bindM (get_queued_action ws i) (\<lambda>r. case r of
         None \<Rightarrow> throw (ServiceError (''Queued action '' @ i @ '' not found'') 404)
       | Some loaded \<Rightarrow>
           if qa_state loaded \<noteq> Queued
           then throw (ServiceError (''Queued action '' @ i @ '' is '' @ state_name (qa_state loaded) @
                  ''; '' @ verb @ '' is a no-op'') 409)
           else ret loaded)"

definition resolved_action ::
  "queued_action \<Rightarrow> qa_state \<Rightarrow> int \<Rightarrow> string \<Rightarrow> string option \<Rightarrow> queued_action" where
  "resolved_action loaded st now reviewer remembered =
     loaded\<lparr>qa_state := st,
            qa_attribution := (qa_attribution loaded)\<lparr>at_approver := Some reviewer\<rparr>,
            qa_resolution := Some \<lparr>rs_by = reviewer, rs_at = now, rs_remembered = remembered\<rparr>\<rparr>"

definition resolve_action ::
  "queued_action \<Rightarrow> qa_state \<Rightarrow> string \<Rightarrow> string option \<Rightarrow> ('r dworld, queued_action) prog" where
  "resolve_action loaded st reviewer remembered =
     bindM (gets dw_now) (\<lambda>now.
     let n = resolved_action loaded st now reviewer remembered in
     thenM (save_action n) (thenM (audit_transition n st (Some reviewer)) (ret n)))"

text \<open>The two halves of a release: up to the state check, and from the remembered grant on. The
  source awaits between them, and within the second.\<close>

definition release_body ::
  "'r registry \<Rightarrow> string \<Rightarrow> queued_action \<Rightarrow> string \<Rightarrow> string option \<Rightarrow> ('r dworld, queued_action) prog" where
  "release_body env ws loaded reviewer remember =
     thenM (case remember of
              None \<Rightarrow> ret ()
            | Some pat \<Rightarrow> remember_pattern env ws (qa_request loaded) pat reviewer)
       (thenM (run_executor env (qa_request loaded))
         (resolve_action loaded Released reviewer remember))"

definition release ::
  "'r registry \<Rightarrow> string \<Rightarrow> string \<Rightarrow> string \<Rightarrow> string option \<Rightarrow> ('r dworld, queued_action) prog" where
  "release env ws i reviewer remember =
     bindM (load_queued ws i ''release'') (\<lambda>loaded. release_body env ws loaded reviewer remember)"

definition discard :: "string \<Rightarrow> string \<Rightarrow> string \<Rightarrow> ('r dworld, queued_action) prog" where
  "discard ws i reviewer =
     bindM (load_queued ws i ''discard'') (\<lambda>loaded. resolve_action loaded Discarded reviewer None)"

end
