(* ===== verification/Queue_Laws.thy ===== *)
theory Queue_Laws
  imports Action_Queue
begin

text \<open>
  How the operations of the action queue change the world. \<^verbatim>\<open>evolves S w w'\<close> says that stored
  actions outside \<open>S\<close> are untouched, that those in \<open>S\<close> only move from queued to a terminal
  state, and that the log of executions only grows; \<^verbatim>\<open>safe\<close> lifts it to programs, with one
  rule per combinator, so that every operation is proved from its text.
\<close>

definition same_order :: "queued_action \<Rightarrow> queued_action \<Rightarrow> bool" where
  "same_order a a' \<longleftrightarrow> qa_id a' = qa_id a \<and> qa_request a' = qa_request a \<and> qa_created a' = qa_created a
     \<and> qa_expires a' = qa_expires a \<and> qa_run a' = qa_run a"

definition moved :: "(string \<times> string) set \<Rightarrow> string \<times> string \<Rightarrow> queued_action \<Rightarrow> queued_action \<Rightarrow> bool" where
  "moved S x a a' \<longleftrightarrow> a' = a \<or> (x \<in> S \<and> qa_state a = Queued \<and> qa_state a' \<noteq> Queued \<and> same_order a a')"

definition evolves :: "(string \<times> string) set \<Rightarrow> 'r dworld \<Rightarrow> 'r dworld \<Rightarrow> bool" where
  "evolves S w w' \<longleftrightarrow>
     addr_ok (dw_queue w') = addr_ok (dw_queue w) \<and> storable (dw_queue w') = storable (dw_queue w) \<and>
     dw_next w \<le> dw_next w' \<and> dw_now w' = dw_now w \<and>
     prefix (dw_executed w) (dw_executed w') \<and>
     (\<forall>ws i a. qa_at w ws i = Some a \<longrightarrow> (\<exists>a'. qa_at w' ws i = Some a' \<and> moved S (ws, i) a a'))"

text \<open>Stored ids come from the random source, which is then past them.\<close>

definition world_inv :: "'r registry \<Rightarrow> 'r dworld \<Rightarrow> bool" where
  "world_inv env w \<longleftrightarrow> queue_inv w \<and>
     (\<forall>ws i. qa_at w ws i \<noteq> None \<longrightarrow> (\<exists>n < dw_next w. i = rg_uuid env n))"

lemma evolves_refl [simp]: "evolves S w w"
  by (simp add: evolves_def moved_def)

lemma moved_trans: "moved S x a b \<Longrightarrow> moved S x b c \<Longrightarrow> moved S x a c"
  by (auto simp: moved_def same_order_def)

lemma evolves_trans:
  assumes "evolves S w w1" and "evolves S w1 w2"
  shows "evolves S w w2"
proof -
  have "\<exists>a'. qa_at w2 ws i = Some a' \<and> moved S (ws, i) a a'" if "qa_at w ws i = Some a" for ws i a
    using assms that moved_trans unfolding evolves_def by meson
  with assms show ?thesis unfolding evolves_def by (auto intro: prefix_order.order_trans)
qed

lemma evolves_mono: "S \<subseteq> T \<Longrightarrow> evolves S w w' \<Longrightarrow> evolves T w w'"
  unfolding evolves_def moved_def by blast

lemma evolvesD:
  assumes "evolves S w w'"
  shows "addr_ok (dw_queue w') = addr_ok (dw_queue w)" "storable (dw_queue w') = storable (dw_queue w)"
    "dw_next w \<le> dw_next w'" "dw_now w' = dw_now w" "prefix (dw_executed w) (dw_executed w')"
  using assms by (simp_all add: evolves_def)

lemma evolves_at: "evolves S w w' \<Longrightarrow> qa_at w ws i = Some a \<Longrightarrow> \<exists>a'. qa_at w' ws i = Some a' \<and> moved S (ws, i) a a'"
  unfolding evolves_def by blast

lemma evolves_empty_at: "evolves {} w w' \<Longrightarrow> qa_at w ws i = Some a \<Longrightarrow> qa_at w' ws i = Some a"
  by (drule (1) evolves_at) (auto simp: moved_def)

lemma world_inv_queue [simp]: "world_inv env w \<Longrightarrow> queue_inv w"
  unfolding world_inv_def by blast

lemma world_inv_fresh:
  assumes "inj (rg_uuid env)" and "world_inv env w" and "dw_next w \<le> n"
  shows "qa_at w ws (rg_uuid env n) = None"
proof (rule ccontr)
  assume "qa_at w ws (rg_uuid env n) \<noteq> None"
  then obtain m where "m < dw_next w" "rg_uuid env n = rg_uuid env m"
    using assms(2) unfolding world_inv_def by metis
  with assms(1,3) show False by (auto dest: injD)
qed

lemma req_ok_evolves: "evolves S w w' \<Longrightarrow> req_ok w' req = req_ok w req"
  unfolding req_ok_def by (rule ws_ok_cong) (rule evolvesD)

section \<open>Programs\<close>

definition safe :: "'r registry \<Rightarrow> (string \<times> string) set \<Rightarrow> 'r dworld \<Rightarrow> ('r dworld, 'a) prog \<Rightarrow> bool" where
  "safe env S w p \<longleftrightarrow> (world_inv env w \<longrightarrow> world_inv env (snd (p w)) \<and> evolves S w (snd (p w)))"

lemma safeD:
  "safe env S w p \<Longrightarrow> world_inv env w \<Longrightarrow> p w = (r, w') \<Longrightarrow> world_inv env w' \<and> evolves S w w'"
  by (simp add: safe_def)

lemma safe_ret [simp]: "safe env S w (ret x)"
  by (simp add: safe_def)

lemma safe_throw [simp]: "safe env S w (throw e)"
  by (simp add: safe_def)

lemma safe_gets [simp]: "safe env S w (gets f)"
  by (simp add: safe_def)

lemma safe_bind:
  assumes p: "safe env S w p"
    and f: "\<And>x w1. p w = (Inr x, w1) \<Longrightarrow> world_inv env w \<Longrightarrow> world_inv env w1 \<Longrightarrow> evolves S w w1 \<Longrightarrow> safe env S w1 (f x)"
  shows "safe env S w (bindM p f)"
  unfolding safe_def
proof
  assume inv: "world_inv env w"
  obtain r w1 where run: "p w = (r, w1)" by (cases "p w")
  note s1 = safeD [OF p inv run]
  show "world_inv env (snd (bindM p f w)) \<and> evolves S w (snd (bindM p f w))"
  proof (cases r)
    case (Inl e)
    then show ?thesis using run s1 by (simp add: bindM_run)
  next
    case (Inr x)
    obtain r2 w2 where run2: "f x w1 = (r2, w2)" by (cases "f x w1")
    have "safe env S w1 (f x)" using f [of x w1] run Inr inv s1 by simp
    from safeD [OF this _ run2] s1 have "world_inv env w2" "evolves S w1 w2" by simp_all
    then show ?thesis using run run2 Inr s1 evolves_trans by (simp add: bindM_run) blast
  qed
qed

lemma safe_then:
  assumes "safe env S w p"
    and "\<And>x w1. p w = (Inr x, w1) \<Longrightarrow> world_inv env w \<Longrightarrow> world_inv env w1 \<Longrightarrow> evolves S w w1 \<Longrightarrow> safe env S w1 q"
  shows "safe env S w (thenM p q)"
  unfolding thenM_def by (rule safe_bind [OF assms]) assumption+

lemma safe_catch_pure:
  assumes "safe env S w p"
  shows "safe env S w (catchM p (\<lambda>_. ret x))"
  using assms by (auto simp: safe_def catchM_run split: sum.split prod.split)

lemma same_reg_world:
  assumes "same_but_reg w w'"
  shows "world_inv env w' = world_inv env w" "evolves S w w'"
  using same_but_regD [OF assms]
  by (simp_all add: world_inv_def queue_inv_def qa_at_def evolves_def moved_def)

lemma safe_reg: "reg_only p \<Longrightarrow> safe env S w p"
  unfolding safe_def using same_reg_world [of w "snd (p w)"] by (auto simp: reg_only_def)

lemma safe_on_reg [simp]: "safe env S w (on_reg p)"
  by (rule safe_reg) simp

lemma safe_uuid [simp]: "safe env S w (random_uuid env)"
proof -
  let ?w = "w\<lparr>dw_next := Suc (dw_next w)\<rparr>"
  have at: "qa_at ?w = qa_at w" by (simp add: fun_eq_iff qa_at_def)
  have "world_inv env w \<Longrightarrow> world_inv env ?w"
    unfolding world_inv_def queue_inv_def at by (simp, meson less_SucI)
  moreover have "evolves S w ?w" unfolding evolves_def at by (simp add: moved_def)
  ultimately show ?thesis by (simp add: safe_def random_uuid_def)
qed

text \<open>Changes of the audit trail, the run index and the execution log.\<close>

lemma safe_modify_other:
  assumes "\<And>w. dw_queue (f w) = dw_queue w" "\<And>w. dw_next (f w) = dw_next w" "\<And>w. dw_now (f w) = dw_now w"
    and "\<And>w. prefix (dw_executed w) (dw_executed (f w))"
  shows "safe env S w (modifyM f)"
  using assms by (simp add: safe_def world_inv_def queue_inv_def qa_at_def evolves_def moved_def)

lemma safe_audit [simp]: "safe env S w (audit_transition a tr ap)"
  by (simp add: audit_transition_def Let_def safe_modify_other)

lemma safe_executor [simp]: "safe env S w (run_executor env req)"
  unfolding run_executor_def by (rule safe_then) (simp_all add: safe_modify_other)

text \<open>Writing an action: a new one under a fresh id, or a queued one moved on.\<close>

lemma safe_save_new:
  assumes "req_ok w (qa_request a)" and "qa_at w (pr_ws (dr_principal (qa_request a))) (qa_id a) = None"
    and "n < dw_next w" and "qa_id a = rg_uuid env n"
  shows "safe env S w (save_action a)"
  unfolding safe_def
proof
  assume inv: "world_inv env w"
  show "world_inv env (snd (save_action a w)) \<and> evolves S w (snd (save_action a w))"
  proof (rule save_action_cases [OF world_inv_queue [OF inv] assms(1)])
    fix e assume "save_action a w = (Inl e, w)"
    then show ?thesis using inv by simp
  next
    fix q
    assume s: "save_action a w = (Inr (), w\<lparr>dw_queue := q\<rparr>)" and qi: "queue_inv (w\<lparr>dw_queue := q\<rparr>)"
      and at: "\<And>ws i. qa_at (w\<lparr>dw_queue := q\<rparr>) ws i =
         (if ws = pr_ws (dr_principal (qa_request a)) \<and> i = qa_id a then Some a else qa_at w ws i)"
      and conf: "addr_ok q = addr_ok (dw_queue w)" "storable q = storable (dw_queue w)"
    have "world_inv env (w\<lparr>dw_queue := q\<rparr>)"
      using inv qi assms(3,4) unfolding world_inv_def at by auto
    moreover have "evolves S w (w\<lparr>dw_queue := q\<rparr>)"
      using conf assms(2) unfolding evolves_def at by (auto simp: moved_def)
    ultimately show ?thesis by (simp add: s)
  qed
qed

lemma safe_save_move:
  assumes at0: "qa_at w ws i = Some a0" and q: "qa_state a0 = Queued"
    and so: "same_order a0 a" and st: "qa_state a \<noteq> Queued" and S: "(ws, i) \<in> S"
  shows "safe env S w (save_action a)"
  unfolding safe_def
proof
  assume inv: "world_inv env w"
  have ids: "pr_ws (dr_principal (qa_request a)) = ws" "qa_id a = i"
    using so queue_invD [OF world_inv_queue [OF inv] at0] by (simp_all add: same_order_def)
  have ok: "req_ok w (qa_request a)"
    using stored_req_ok [OF world_inv_queue [OF inv] at0] so by (simp add: same_order_def)
  show "world_inv env (snd (save_action a w)) \<and> evolves S w (snd (save_action a w))"
  proof (rule save_action_cases [OF world_inv_queue [OF inv] ok])
    fix e assume "save_action a w = (Inl e, w)"
    then show ?thesis using inv by simp
  next
    fix q'
    assume s: "save_action a w = (Inr (), w\<lparr>dw_queue := q'\<rparr>)" and qi: "queue_inv (w\<lparr>dw_queue := q'\<rparr>)"
      and at: "\<And>ws i. qa_at (w\<lparr>dw_queue := q'\<rparr>) ws i =
         (if ws = pr_ws (dr_principal (qa_request a)) \<and> i = qa_id a then Some a else qa_at w ws i)"
      and conf: "addr_ok q' = addr_ok (dw_queue w)" "storable q' = storable (dw_queue w)"
    have "world_inv env (w\<lparr>dw_queue := q'\<rparr>)"
      using inv qi at0 unfolding world_inv_def at ids by auto
    moreover have "evolves S w (w\<lparr>dw_queue := q'\<rparr>)"
      using conf at0 q so st S unfolding evolves_def at ids by (auto simp: moved_def)
    ultimately show ?thesis by (simp add: s)
  qed
qed

section \<open>The operations\<close>

lemma safe_enqueue:
  assumes inj: "inj (rg_uuid env)" and ok: "req_ok w req"
  shows "safe env S w (enqueue_queued_action env req)"
  unfolding enqueue_queued_action_def
proof (rule safe_bind)
  show "safe env S w (random_uuid env)" by simp
  fix i w1
  assume u: "random_uuid env w = (Inr i, w1)" and inv: "world_inv env w" and ev: "evolves S w w1"
  have i: "i = rg_uuid env (dw_next w)" and w1: "w1 = w\<lparr>dw_next := Suc (dw_next w)\<rparr>"
    using u by (simp_all add: random_uuid_def)
  show "safe env S w1 (bindM (gets dw_now) (\<lambda>now. let action = new_action now i req in
      thenM (save_action action)
       (thenM (case qa_run action of
                 None \<Rightarrow> ret ()
               | Some run \<Rightarrow> modifyM (\<lambda>w. w\<lparr>dw_latest := AList.update run i (dw_latest w)\<rparr>))
          (thenM (audit_transition action Queued None) (ret i)))))"
  proof (rule safe_bind)
    fix now w2
    assume "gets dw_now w1 = (Inr now, w2)"
    then have w2: "w2 = w1" by simp
    have r: "req_ok w1 req" using ok req_ok_evolves [OF ev] by simp
    have f: "qa_at w1 (pr_ws (dr_principal req)) i = None"
      using world_inv_fresh [OF inj inv order.refl] by (simp add: i w1 qa_at_def)
    have n: "dw_next w < dw_next w1" by (simp add: w1)
    show "safe env S w2 (let action = new_action now i req in thenM (save_action action)
       (thenM (case qa_run action of
                 None \<Rightarrow> ret ()
               | Some run \<Rightarrow> modifyM (\<lambda>w. w\<lparr>dw_latest := AList.update run i (dw_latest w)\<rparr>))
          (thenM (audit_transition action Queued None) (ret i))))"
      unfolding Let_def w2
      by (intro safe_then safe_save_new [where n = "dw_next w"])
        (use r f n i in \<open>auto simp: new_action_def safe_modify_other split: option.split\<close>)
  qed simp
qed

lemma safe_transition_expired:
  assumes "qa_at w ws i = Some a" and "qa_state a = Queued" and "(ws, i) \<in> S"
  shows "safe env S w (transition_expired a)"
  unfolding transition_expired_def Let_def
proof (rule safe_bind)
  fix now w1
  assume "gets dw_now w = (Inr now, w1)"
  then have w1: "w1 = w" by simp
  show "safe env S w1 (thenM (save_action (expired_action now a))
     (thenM (audit_transition (expired_action now a) Expired None) (ret (expired_action now a))))"
    unfolding w1
    by (intro safe_then safe_save_move [OF assms(1,2) _ _ assms(3)])
      (simp_all add: expired_action_def same_order_def)
qed simp

lemma safe_maybe_expire:
  assumes "qa_at w ws i = Some a" and "(ws, i) \<in> S"
  shows "safe env S w (maybe_expire a)"
proof (cases "qa_state a = Queued")
  case True
  show ?thesis
    unfolding maybe_expire_def
    using safe_transition_expired [OF assms(1) True assms(2)]
    by (auto intro!: safe_bind)
qed (simp add: maybe_expire_def)

lemma safe_read [simp]: "safe env S w (read_action ws i)"
  by (simp add: safe_def read_action_def)

lemma read_action_found:
  assumes "catchM (read_action ws i) (\<lambda>_. ret None) w = (Inr r, w1)" and "world_inv env w"
  shows "w1 = w" "r = qa_at w ws i"
  using assms read_action_run [of w ws i] by (auto simp: catchM_run)

lemma safe_get:
  assumes "(ws, i) \<in> S"
  shows "safe env S w (get_queued_action ws i)"
  unfolding get_queued_action_def
proof (rule safe_bind)
  show "safe env S w (catchM (read_action ws i) (\<lambda>_. ret None))"
    by (rule safe_catch_pure) simp
  fix r w1
  assume "catchM (read_action ws i) (\<lambda>_. ret None) w = (Inr r, w1)" and inv: "world_inv env w"
  note rd = read_action_found [OF this]
  show "safe env S w1 (case r of None \<Rightarrow> ret None | Some action \<Rightarrow> bindM (maybe_expire action) (\<lambda>a. ret (Some a)))"
  proof (cases r)
    case (Some a)
    then have "qa_at w1 ws i = Some a" using rd by simp
    from safe_maybe_expire [OF this assms] Some show ?thesis by (auto intro!: safe_bind)
  qed simp
qed

text \<open>What loading a queued action returns: the stored action, still queued and in time.\<close>

lemma get_queued_result:
  assumes inv: "world_inv env w" and g: "get_queued_action ws i w = (Inr (Some a), w')"
    and st: "qa_state a = Queued"
  shows "w' = w" "qa_at w ws i = Some a" "qa_expires a > dw_now w"
proof -
  have r: "read_action ws i w = (Inr (qa_at w ws i), w)" using inv by (simp add: read_action_run)
  from g r obtain a0 where a0: "qa_at w ws i = Some a0"
    and m: "maybe_expire a0 w = (Inr a, w')"
    by (auto simp: get_queued_action_def bindM_run catchM_run split: option.splits sum.splits prod.splits)
  have "w' = w \<and> a = a0 \<and> qa_expires a > dw_now w"
    using m st
    by (auto simp: maybe_expire_def transition_expired_def bindM_run thenM_run Let_def expired_action_def
        split: if_splits sum.splits prod.splits)
  with a0 show "w' = w" "qa_at w ws i = Some a" "qa_expires a > dw_now w" by auto
qed

lemma load_queued_result:
  assumes inv: "world_inv env w" and l: "load_queued ws i verb w = (Inr a, w')"
  shows "w' = w" "qa_at w ws i = Some a" "qa_expires a > dw_now w" "qa_state a = Queued"
proof -
  from l have g: "get_queued_action ws i w = (Inr (Some a), w')" and st: "qa_state a = Queued"
    by (auto simp: load_queued_def bindM_run split: option.splits sum.splits prod.splits if_splits)
  show "w' = w" "qa_at w ws i = Some a" "qa_expires a > dw_now w" "qa_state a = Queued"
    using get_queued_result [OF inv g st] st by simp_all
qed

lemma safe_load: "(ws, i) \<in> S \<Longrightarrow> safe env S w (load_queued ws i verb)"
  unfolding load_queued_def
  by (rule safe_bind) (auto simp: safe_get split: option.split)

lemma safe_resolve:
  assumes "qa_at w ws i = Some a" and "qa_state a = Queued" and "st \<noteq> Queued" and "(ws, i) \<in> S"
  shows "safe env S w (resolve_action a st reviewer rem)"
  unfolding resolve_action_def Let_def
proof (rule safe_bind)
  fix now w1
  assume "gets dw_now w = (Inr now, w1)"
  then have w1: "w1 = w" by simp
  show "safe env S w1 (thenM (save_action (resolved_action a st now reviewer rem))
      (thenM (audit_transition (resolved_action a st now reviewer rem) st (Some reviewer))
        (ret (resolved_action a st now reviewer rem))))"
    unfolding w1
    by (intro safe_then safe_save_move [OF assms(1,2) _ _ assms(4)])
      (use assms(3) in \<open>simp_all add: resolved_action_def same_order_def\<close>)
qed simp

lemma safe_miss [simp]: "safe env S w (capability_miss env req)"
  unfolding capability_miss_def by (auto intro!: safe_bind)

lemma safe_resource_decision:
  assumes inj: "inj (rg_uuid env)" and ok: "req_ok w req"
  shows "safe env S w (resource_decision env req rows)"
  unfolding resource_decision_def Let_def
  by (auto intro!: safe_bind safe_enqueue [OF inj ok])

lemma safe_evaluate:
  assumes inj: "inj (rg_uuid env)" and ok: "req_ok w req"
  shows "safe env S w (evaluate_dispatch env req opts)"
  unfolding evaluate_dispatch_def
  by (auto intro!: safe_bind safe_resource_decision [OF inj] simp: ok req_ok_evolves)

lemma safe_remember:
  assumes inj: "inj (rg_uuid env)" and ok: "req_ok w req"
  shows "safe env S w (remember_pattern env ws req pat reviewer)"
  unfolding remember_pattern_def
  by (auto intro!: safe_then safe_bind safe_evaluate [OF inj] simp: ok req_ok_evolves)

lemma safe_release_body:
  assumes inj: "inj (rg_uuid env)" and at: "qa_at w ws i = Some a" and q: "qa_state a = Queued"
    and S: "(ws, i) \<in> S"
  shows "safe env S w (release_body env ws a reviewer rem)"
  unfolding release_body_def
proof (intro safe_then, goal_cases)
  case 1
  have "safe env S w (remember_pattern env ws (qa_request a) pat reviewer)"
    if "world_inv env w" for pat
    using that by (intro safe_remember inj stored_req_ok [OF world_inv_queue at])
  then show ?case by (auto simp: safe_def split: option.split)
next
  case (2 x w1)
  show ?case by simp
next
  case (3 x w1 y w2)
  have e1: "safe env {} w (case rem of None \<Rightarrow> ret () | Some pat \<Rightarrow> remember_pattern env ws (qa_request a) pat reviewer)"
    using safe_remember [OF inj stored_req_ok [OF world_inv_queue [OF 3(2)] at], of "{}" ws _ reviewer]
    by (auto split: option.split)
  have "evolves {} w w1" using safeD [OF e1 3(2,1)] by simp
  moreover have "evolves {} w1 w2" using safeD [OF safe_executor 3(6,5)] by simp
  ultimately have "qa_at w2 ws i = Some a" using at evolves_empty_at by blast
  then show ?case by (rule safe_resolve) (use q S in simp_all)
qed

lemma safe_release:
  assumes inj: "inj (rg_uuid env)" and S: "(ws, i) \<in> S"
  shows "safe env S w (release env ws i reviewer rem)"
  unfolding release_def
proof (rule safe_bind)
  show "safe env S w (load_queued ws i ''release'')" by (rule safe_load [OF S])
  fix a w1 assume l: "load_queued ws i ''release'' w = (Inr a, w1)" and inv: "world_inv env w"
  note r = load_queued_result [OF inv l]
  show "safe env S w1 (release_body env ws a reviewer rem)"
    unfolding r(1) by (rule safe_release_body [OF inj r(2,4) S])
qed

lemma safe_discard:
  assumes S: "(ws, i) \<in> S"
  shows "safe env S w (discard ws i reviewer)"
  unfolding discard_def
proof (rule safe_bind)
  show "safe env S w (load_queued ws i ''discard'')" by (rule safe_load [OF S])
  fix a w1 assume l: "load_queued ws i ''discard'' w = (Inr a, w1)" and inv: "world_inv env w"
  note r = load_queued_result [OF inv l]
  show "safe env S w1 (resolve_action a Discarded reviewer None)"
    unfolding r(1) by (rule safe_resolve [OF r(2,4) _ S]) simp
qed

lemma safe_expire:
  assumes S: "(ws, i) \<in> S"
  shows "safe env S w (expire_queued_action ws i)"
  unfolding expire_queued_action_def
proof (rule safe_bind)
  fix r w1 assume "read_action ws i w = (Inr r, w1)" and "world_inv env w"
  then have "w1 = w" "r = qa_at w ws i" using read_action_run [of w ws i] by auto
  with S show "safe env S w1 (case r of
         None \<Rightarrow> throw (ServiceError (''Queued action '' @ i @ '' not found'') 404)
       | Some loaded \<Rightarrow>
           if qa_state loaded \<noteq> Queued
           then throw (ServiceError (''Queued action '' @ i @ '' is already '' @ state_name (qa_state loaded)) 409)
           else transition_expired loaded)"
    by (auto intro: safe_transition_expired split: option.split)
qed simp

text \<open>Counting walks over a snapshot: each row is still stored, or has been moved on, when its
  turn comes; rows are distinct, so none is visited twice.\<close>

lemma safe_count_live:
  assumes "\<And>k v. (k, v) \<in> set rows \<Longrightarrow> qa_at w ws k = Some v" and "distinct (map fst rows)"
  shows "safe env ((\<lambda>k. (ws, k)) ` fst ` set rows) w (count_live run rows)"
  using assms
proof (induction rows arbitrary: w)
  case (Cons row rows)
  obtain k v where row: "row = (k, v)" by (cases row)
  let ?S = "(\<lambda>k. (ws, k)) ` fst ` set (row # rows)"
  have at: "qa_at w ws k = Some v" using Cons.prems(1) by (simp add: row)
  show ?case
    unfolding row count_live.simps(2)
  proof (intro safe_bind, goal_cases)
    case 1
    show ?case by (rule safe_maybe_expire [OF at]) simp
  next
    case (2 current w1)
    have "evolves {(ws, k)} w w1" using safeD [OF safe_maybe_expire [OF at] 2(2,1)] by simp
    then have "qa_at w1 ws k' = Some v'" if "(k', v') \<in> set rows" for k' v'
    proof -
      have "k' \<noteq> k" using Cons.prems(2) that by (force simp: row)
      moreover have "qa_at w ws k' = Some v'" using Cons.prems(1) that by simp
      ultimately show ?thesis
        using evolves_at [OF \<open>evolves {(ws, k)} w w1\<close>] by (auto simp: moved_def)
    qed
    with Cons.IH [of w1] Cons.prems(2) have "safe env ((\<lambda>k. (ws, k)) ` fst ` set rows) w1 (count_live run rows)"
      by simp
    then show ?case
      unfolding safe_def by (auto intro: evolves_mono [rotated])
  next
    case (3 current w1 n w2)
    show ?case by simp
  qed
qed simp

lemma safe_count: "safe env UNIV w (count_queued_for_run ws run)"
  unfolding count_queued_for_run_def
proof (rule safe_bind)
  let ?p = "\<lambda>w. (list_svc_records (dw_now w) (dw_queue w) ws QUEUE_SCOPE [], w)"
  show "safe env UNIV w (catchM ?p (\<lambda>_. ret []))"
    by (rule safe_catch_pure) (simp add: safe_def)
  fix rows w1
  assume c: "catchM ?p (\<lambda>_. ret []) w = (Inr rows, w1)" and inv: "world_inv env w"
  obtain ds where ds: "list_svc_records (dw_now w) (dw_queue w) ws QUEUE_SCOPE [] = Inr ds"
    "\<And>k v. (k, v) \<in> set ds \<longleftrightarrow> doc_at (dw_queue w) ws QUEUE_SCOPE k = Some v" "distinct (map fst ds)"
    using list_docs_mem [OF queue_inv_ok [OF world_inv_queue [OF inv]]] by blast
  with c have "w1 = w" "rows = ds" by (simp_all add: catchM_run)
  with ds safe_count_live [of rows w ws env run] evolves_mono [of _ UNIV]
  show "safe env UNIV w1 (count_live run rows)"
    by (auto simp: safe_def qa_at_def)
qed

section \<open>Who calls the executor\<close>

definition quiet :: "('r dworld, 'a) prog \<Rightarrow> bool" where
  "quiet p \<longleftrightarrow> (\<forall>w. dw_executed (snd (p w)) = dw_executed w)"

lemma quietD: "quiet p \<Longrightarrow> p w = (r, w') \<Longrightarrow> dw_executed w' = dw_executed w"
  unfolding quiet_def by (metis snd_conv)

lemma quiet_basic [simp, intro]:
  "quiet (ret x)" "quiet (throw e)" "quiet (gets f)" "quiet (on_reg p)" "quiet (random_uuid env)"
  "quiet (on_queue q)" "quiet (read_action ws i)"
  by (simp_all add: quiet_def on_reg_def on_queue_def zoom_run random_uuid_def read_action_def split: prod.split)

lemma quiet_modify: "(\<And>w. dw_executed (f w) = dw_executed w) \<Longrightarrow> quiet (modifyM f)"
  by (simp add: quiet_def)

lemma quiet_bind [intro]:
  assumes "quiet p" and "\<And>x. quiet (f x)"
  shows "quiet (bindM p f)"
  using assms by (auto simp: quiet_def bindM_run split: sum.split prod.split) (metis snd_conv)+

lemma quiet_then [intro]: "quiet p \<Longrightarrow> quiet q \<Longrightarrow> quiet (thenM p q)"
  unfolding thenM_def by (rule quiet_bind)

lemma quiet_catch [intro]:
  assumes "quiet p" and "\<And>e. quiet (h e)"
  shows "quiet (catchM p h)"
  using assms by (auto simp: quiet_def catchM_run split: sum.split prod.split) (metis snd_conv)+

lemma quiet_save [simp, intro]: "quiet (save_action a)"
  by (simp add: quiet_def save_action_def on_queue_def zoom_run split: prod.split)

lemma quiet_audit [simp, intro]: "quiet (audit_transition a tr ap)"
  by (simp add: audit_transition_def Let_def quiet_modify)

lemma quiet_expired [simp, intro]: "quiet (transition_expired a)"
  unfolding transition_expired_def Let_def by (auto intro!: quiet_bind quiet_then quiet_catch quiet_modify)

lemma quiet_maybe [simp, intro]: "quiet (maybe_expire a)"
  unfolding maybe_expire_def by (auto intro!: quiet_bind quiet_then quiet_catch quiet_modify)

lemma quiet_get [simp, intro]: "quiet (get_queued_action ws i)"
  unfolding get_queued_action_def by (auto intro!: quiet_bind quiet_then quiet_catch quiet_modify split: option.split)

lemma quiet_load [simp, intro]: "quiet (load_queued ws i v)"
  unfolding load_queued_def by (auto intro!: quiet_bind quiet_then quiet_catch quiet_modify split: option.split)

lemma quiet_resolve [simp, intro]: "quiet (resolve_action a st u rem)"
  unfolding resolve_action_def Let_def by (auto intro!: quiet_bind quiet_then quiet_catch quiet_modify)

lemma quiet_enqueue [simp, intro]: "quiet (enqueue_queued_action env req)"
  unfolding enqueue_queued_action_def Let_def by (auto intro!: quiet_bind quiet_then quiet_catch quiet_modify split: option.split)

lemma quiet_evaluate [simp, intro]: "quiet (evaluate_dispatch env req opts)"
  unfolding evaluate_dispatch_def capability_miss_def resource_decision_def Let_def by (auto intro!: quiet_bind quiet_then quiet_catch quiet_modify)

lemma quiet_remember [simp, intro]: "quiet (remember_pattern env ws req pat u)"
  unfolding remember_pattern_def by (auto intro!: quiet_bind quiet_then quiet_catch quiet_modify)

lemma quiet_discard [simp, intro]: "quiet (discard ws i u)"
  unfolding discard_def by (auto intro!: quiet_bind quiet_then quiet_catch quiet_modify)

end
