(* ===== verification/Queue_Properties.thy ===== *)
theory Queue_Properties
  imports Queue_Laws
begin

text \<open>
  The guarantees of the action queue: a release runs the stored request exactly once, terminal
  records stay as they are through every sequence of operations, an expired action is never
  run, and what two overlapping releases do.
\<close>

section \<open>A concrete registry and world\<close>

text \<open>Grants are kept in a list; the caller holds \<^verbatim>\<open>github.*\<close>; a pattern matches by the segment
  matcher; ids are numbered.\<close>

fun row_of :: "new_grant \<Rightarrow> grant_row" where
  "row_of g = \<lparr>gr_subject = ng_subject g, gr_capability = ng_capability g, gr_pattern = ng_pattern g,
     gr_level = ng_level g, gr_by = ng_by g, gr_revoked = False\<rparr>"

definition demo_registry :: "grant_row list registry" where
  "demo_registry = \<lparr>
     rg_open = ret (), rg_ensure = (\<lambda>_. ret ()),
     rg_create_grant = (\<lambda>_ g. modifyM (\<lambda>r. r @ [row_of g])),
     rg_grants_for = (\<lambda>_ ss. gets (filter (\<lambda>g. gr_subject g \<in> set ss \<and> \<not> gr_revoked g))),
     rg_grants = (\<lambda>_. gets (\<lambda>r. r)),
     rg_profile_by_id = (\<lambda>_ _. ret None), rg_profile_by_name = (\<lambda>_ _ _ _. ret None),
     rg_profiles = (\<lambda>_. ret []), rg_granted_ids = (\<lambda>_ _. ret []),
     rg_grant_profile = (\<lambda>_ _ _ _. ret ()), rg_revoke_profile = (\<lambda>_ _ _. ret False),
     rg_credentials = (\<lambda>_. ret []), rg_credential = (\<lambda>_ _. ret None),
     rg_permissions = (\<lambda>_ _. ret [\<lparr>pm_provider = ''github'', pm_operation = ''*''\<rparr>]),
     rg_allowed_tools = (\<lambda>_ _. ret (Some [''github.*''])),
     rg_execute = (\<lambda>_. ret ()), rg_matches = (\<lambda>p r. p = ''*'' \<or> p = r),
     rg_collate = (\<lambda>_ _. 0), rg_uuid = show_nat\<rparr>"

lemma demo_uuid_inj: "inj (rg_uuid demo_registry)"
proof (rule injI)
  fix m n assume "rg_uuid demo_registry m = rg_uuid demo_registry n"
  then have "read_digits (show_nat m) = read_digits (show_nat n)" by (simp add: demo_registry_def)
  then show "m = n" by (simp add: read_digits_show_nat)
qed

definition demo_request :: dispatch_request where
  "demo_request = \<lparr>dr_principal = \<lparr>pr_sub = ''ann'', pr_ws = ''w'', pr_role = ''member'', pr_groups = []\<rparr>,
     dr_via = None, dr_tool = \<lparr>tl_namespace = ''github'', tl_operation = ''push'', tl_effect = Action\<rparr>,
     dr_resource = Some ''repo/a'', dr_credential = None, dr_run = None\<rparr>"

definition demo_action :: queued_action where
  "demo_action = new_action 1000 (show_nat 0) demo_request"

definition demo_queue :: "queued_action \<Rightarrow> queued_action db" where
  "demo_queue a = \<lparr>db_backend = Sqlite, db_bucket = False, db_size = (\<lambda>_. 10), db_null = demo_action,
     db_rows = [((''w'', QUEUE_SCOPE, show_nat 0), \<lparr>rw_value = Some a, rw_spilled = False,
       rw_updated_at = 0, rw_updated_by = ''ann'', rw_expires = None, rw_bytes = None\<rparr>)], db_blobs = []\<rparr>"

definition demo_dworld :: "int \<Rightarrow> grant_row list dworld" where
  "demo_dworld now = \<lparr>dw_now = now, dw_next = 1, dw_reg = [], dw_queue = demo_queue demo_action,
     dw_latest = [], dw_audit = [], dw_executed = []\<rparr>"

lemma demo_qa_at: "qa_at (demo_dworld now) ws i = (if ws = ''w'' \<and> i = show_nat 0 then Some demo_action else None)"
  by (auto simp: qa_at_def doc_at_def abs_db_def demo_dworld_def demo_queue_def row_content_def)

lemma demo_world_ok: "world_inv demo_registry (demo_dworld now)"
proof -
  have "doc_ok (demo_queue demo_action)"
    by (auto simp: doc_ok_def db_inv_def wf_map_def demo_queue_def row_ok_def addr_ok_def split: if_splits)
  then show ?thesis
    unfolding world_inv_def queue_inv_def demo_qa_at
    by (auto simp: demo_dworld_def demo_action_def new_action_def demo_request_def demo_registry_def
        split: if_splits)
qed

lemma demo_storable [simp]: "storable (dw_queue (demo_dworld now)) a"
  by (simp add: storable_def demo_dworld_def demo_queue_def)

section \<open>Releasing\<close>

lemma resolve_result:
  assumes "resolve_action a st u rem w = (Inr n, w')"
  shows "n = resolved_action a st (dw_now w) u rem"
    "\<exists>w1. save_action n w = (Inr (), w1) \<and> dw_queue w' = dw_queue w1 \<and> dw_now w' = dw_now w1"
  using assms
  by (auto simp: resolve_action_def bindM_run thenM_run Let_def audit_transition_def
      split: sum.splits prod.splits)

lemma resolve_stored:
  assumes inv: "world_inv env w" and at: "qa_at w ws i = Some a"
    and r: "resolve_action a st u rem w = (Inr n, w')"
  shows "qa_at w' ws i = Some n"
proof -
  note res = resolve_result [OF r]
  have ids: "pr_ws (dr_principal (qa_request n)) = ws" "qa_id n = i"
    using queue_invD [OF world_inv_queue [OF inv] at] by (simp_all add: res(1) resolved_action_def)
  have ok: "req_ok w (qa_request n)"
    using stored_req_ok [OF world_inv_queue [OF inv] at] by (simp add: res(1) resolved_action_def)
  obtain w1 where s: "save_action n w = (Inr (), w1)" "dw_queue w' = dw_queue w1" using res(2) by blast
  show ?thesis
  proof (rule save_action_cases [OF world_inv_queue [OF inv] ok])
    fix q assume "save_action n w = (Inr (), w\<lparr>dw_queue := q\<rparr>)"
      and at': "\<And>ws i. qa_at (w\<lparr>dw_queue := q\<rparr>) ws i =
         (if ws = pr_ws (dr_principal (qa_request n)) \<and> i = qa_id n then Some n else qa_at w ws i)"
    with s have "dw_queue w' = q" by auto
    with at' [of ws i] ids show ?thesis by (simp add: qa_at_def)
  qed (use s in simp)
qed

lemma release_again:
  assumes inv: "world_inv env w" and at: "qa_at w ws i = Some a" and st: "qa_state a \<noteq> Queued"
  shows "release env ws i u rem w = (Inl (ServiceError (''Queued action '' @ i @ '' is '' @
      state_name (qa_state a) @ ''; release is a no-op'') 409), w)"
    and "discard ws i u w = (Inl (ServiceError (''Queued action '' @ i @ '' is '' @
      state_name (qa_state a) @ ''; discard is a no-op'') 409), w)"
  using read_action_run [OF world_inv_queue [OF inv], of ws i] at st
  by (simp_all add: release_def discard_def load_queued_def get_queued_action_def maybe_expire_def
      bindM_run catchM_run)

lemma remember_quiet:
  "quiet (case rem of None \<Rightarrow> ret () | Some pat \<Rightarrow> remember_pattern env ws req pat u)"
  by (cases rem) auto

lemma remember_extends:
  assumes "inj (rg_uuid env)" and "world_inv env w" and "qa_at w ws i = Some a"
    and "(case rem of None \<Rightarrow> ret () | Some pat \<Rightarrow> remember_pattern env ws (qa_request a) pat u) w = (x, w1)"
  shows "world_inv env w1" "evolves {} w w1"
proof -
  have "safe env {} w (case rem of None \<Rightarrow> ret () | Some pat \<Rightarrow> remember_pattern env ws (qa_request a) pat u)"
    using safe_remember [OF assms(1) stored_req_ok [OF world_inv_queue [OF assms(2)] assms(3)], of "{}" ws _ u]
    by (auto split: option.split)
  from safeD [OF this assms(2,4)] show "world_inv env w1" "evolves {} w w1" by simp_all
qed

lemma executor_run: "run_executor env req w = (x, w') \<Longrightarrow> dw_executed w' = dw_executed w @ [req]"
  by (auto simp: run_executor_def thenM_run on_reg_def zoom_run split: prod.splits)

text \<open>What a successful run of the second half of a release did.\<close>

lemma release_body_result:
  assumes inj: "inj (rg_uuid env)" and inv: "world_inv env w" and at: "qa_at w ws i = Some a"
    and r: "release_body env ws a u rem w = (Inr n, w')"
  shows "n = resolved_action a Released (dw_now w) u rem" "qa_at w' ws i = Some n"
    "dw_executed w' = dw_executed w @ [qa_request a]"
proof -
  let ?rem = "case rem of None \<Rightarrow> ret () | Some pat \<Rightarrow> remember_pattern env ws (qa_request a) pat u"
  from r obtain w1 w2 where 1: "?rem w = (Inr (), w1)" and 2: "run_executor env (qa_request a) w1 = (Inr (), w2)"
    and 3: "resolve_action a Released u rem w2 = (Inr n, w')"
    by (auto simp: release_body_def thenM_Inr_iff)
  note e1 = remember_extends [OF inj inv at 1]
  have e2: "world_inv env w2" "evolves {} w1 w2" using safeD [OF safe_executor e1(1) 2] by simp_all
  have at2: "qa_at w2 ws i = Some a" using at e1(2) e2(2) evolves_empty_at by blast
  have now: "dw_now w2 = dw_now w" using evolvesD(4) e1(2) e2(2) by metis
  show "n = resolved_action a Released (dw_now w) u rem" using resolve_result(1) [OF 3] now by simp
  show "qa_at w' ws i = Some n" by (rule resolve_stored [OF e2(1) at2 3])
  have "dw_executed w' = dw_executed w2" by (rule quietD [OF quiet_resolve 3])
  moreover have "dw_executed w2 = dw_executed w1 @ [qa_request a]" by (rule executor_run [OF 2])
  moreover have "dw_executed w1 = dw_executed w" by (rule quietD [OF remember_quiet 1])
  ultimately show "dw_executed w' = dw_executed w @ [qa_request a]" by simp
qed

text \<open>C8: A release that succeeds ran the stored request, exactly that one and exactly once; the
  action was queued and in time before, is stored as released with its reviewer after, and any
  further release or discard of it is refused with 409 and runs nothing.\<close>

theorem release_executes_once:
  assumes inj: "inj (rg_uuid env)" and inv: "world_inv env w"
    and r: "release env ws i reviewer rem w = (Inr n, w')"
  shows "\<exists>a. qa_at w ws i = Some a \<and> qa_state a = Queued \<and> dw_now w < qa_expires a
    \<and> dw_executed w' = dw_executed w @ [qa_request a]
    \<and> qa_at w' ws i = Some n \<and> qa_state n = Released \<and> qa_request n = qa_request a
    \<and> at_approver (qa_attribution n) = Some reviewer
    \<and> release env ws i other rem' w' = (Inl (ServiceError (''Queued action '' @ i @
        '' is released; release is a no-op'') 409), w')
    \<and> discard ws i other w' = (Inl (ServiceError (''Queued action '' @ i @
        '' is released; discard is a no-op'') 409), w')"
proof -
  from r obtain a w1 where l: "load_queued ws i ''release'' w = (Inr a, w1)"
    and b: "release_body env ws a reviewer rem w1 = (Inr n, w')"
    by (auto simp: release_def bindM_Inr_iff)
  note ld = load_queued_result [OF inv l]
  note res = release_body_result [OF inj inv ld(2) b [unfolded ld(1)]]
  have inv': "world_inv env w'" using safeD [OF safe_release [OF inj, of ws i UNIV] inv r] by simp
  have st: "qa_state n = Released" by (simp add: res(1) resolved_action_def)
  note again = release_again [OF inv' res(2)]
  show ?thesis
    using ld res(2,3) st again by (auto simp: res(1) resolved_action_def)
qed

lemma demo_load: "load_queued ''w'' (show_nat 0) verb (demo_dworld 2000) = (Inr demo_action, demo_dworld 2000)"
proof -
  have "read_action ''w'' (show_nat 0) (demo_dworld 2000) = (Inr (Some demo_action), demo_dworld 2000)"
    using read_action_run [OF world_inv_queue [OF demo_world_ok], of "''w''" "show_nat 0" 2000]
    by (simp add: demo_qa_at)
  then show ?thesis
    by (simp add: load_queued_def get_queued_action_def maybe_expire_def bindM_run catchM_run
        demo_action_def new_action_def QUEUE_TTL_MS_def) (simp add: demo_dworld_def)
qed

lemma resolve_total:
  assumes inv: "world_inv env w" and at: "qa_at w ws i = Some a"
    and st: "\<And>x. storable (dw_queue w) x"
  shows "\<exists>w'. resolve_action a s u rem w = (Inr (resolved_action a s (dw_now w) u rem), w')"
proof -
  let ?n = "resolved_action a s (dw_now w) u rem"
  have ok: "req_ok w (qa_request ?n)"
    using stored_req_ok [OF world_inv_queue [OF inv] at] by (simp add: resolved_action_def)
  show ?thesis
  proof (rule save_action_cases [OF world_inv_queue [OF inv] ok])
    fix q assume "save_action ?n w = (Inr (), w\<lparr>dw_queue := q\<rparr>)"
    then show ?thesis
      by (simp add: resolve_action_def bindM_run thenM_run Let_def audit_transition_def)
  qed (use st in blast)
qed

text \<open>With an executor that returns, the second half of a release succeeds.\<close>

lemma release_body_total:
  assumes inv: "world_inv env w" and at: "qa_at w ws i = Some a"
    and st: "\<And>x. storable (dw_queue w) x" and ex: "\<And>req r. \<exists>r'. rg_execute env req r = (Inr (), r')"
  shows "\<exists>w'. release_body env ws a u None w = (Inr (resolved_action a Released (dw_now w) u None), w')"
proof -
  obtain r' where "rg_execute env (qa_request a) (dw_reg w) = (Inr (), r')" using ex by blast
  then obtain w1 where w1: "run_executor env (qa_request a) w = (Inr (), w1)"
    by (simp add: run_executor_def thenM_run on_reg_def zoom_run)
  have e: "world_inv env w1" "evolves {} w w1" using safeD [OF safe_executor inv w1] by simp_all
  have at1: "qa_at w1 ws i = Some a" using at e(2) evolves_empty_at by blast
  have "\<And>x. storable (dw_queue w1) x" using st evolvesD(2) [OF e(2)] by simp
  from resolve_total [OF e(1) at1 this, of Released u None] w1 evolvesD(4) [OF e(2)]
  show ?thesis by (auto simp: release_body_def thenM_run)
qed

lemma demo_executor: "\<exists>r'. rg_execute demo_registry req r = (Inr (), r')"
  by (simp add: demo_registry_def)

theorem release_executes_once_witness:
  "\<exists>n w'. release demo_registry ''w'' (show_nat 0) ''rev'' None (demo_dworld 2000) = (Inr n, w')
    \<and> dw_executed w' = [demo_request]"
proof -
  have at: "qa_at (demo_dworld 2000) ''w'' (show_nat 0) = Some demo_action" by (simp add: demo_qa_at)
  obtain n w' where r: "release demo_registry ''w'' (show_nat 0) ''rev'' None (demo_dworld 2000) = (Inr n, w')"
    using release_body_total [OF demo_world_ok at demo_storable demo_executor, of "''rev''"]
    by (auto simp: release_def bindM_run demo_load)
  from release_executes_once [OF demo_uuid_inj demo_world_ok r] obtain a
    where a: "qa_at (demo_dworld 2000) ''w'' (show_nat 0) = Some a"
      and e: "dw_executed w' = dw_executed (demo_dworld 2000) @ [qa_request a]" by blast
  from a at have "a = demo_action" by simp
  with e have "dw_executed w' = [demo_request]"
    by (simp add: demo_dworld_def demo_action_def new_action_def)
  with r show ?thesis by blast
qed

text \<open>Two reviewers whose releases overlap, both having read the action as queued before
  either finishes, both succeed, and the request runs twice: the state check and the write of
  the terminal state are not one step.\<close>

theorem overlapping_releases_run_twice:
  assumes inj: "inj (rg_uuid env)" and inv: "world_inv env w"
    and l: "load_queued ws i ''release'' w = (Inr a, w0)"
    and st: "\<And>x. storable (dw_queue w) x" and ex: "\<And>req r. \<exists>r'. rg_execute env req r = (Inr (), r')"
  shows "\<exists>n1 n2 w1 w2. load_queued ws i ''release'' w0 = (Inr a, w0)
    \<and> release_body env ws a reviewer1 None w0 = (Inr n1, w1)
    \<and> release_body env ws a reviewer2 None w1 = (Inr n2, w2)
    \<and> dw_executed w2 = dw_executed w @ [qa_request a, qa_request a]"
proof -
  note ld = load_queued_result [OF inv l]
  obtain w1 where b1: "release_body env ws a reviewer1 None w = (Inr (resolved_action a Released (dw_now w) reviewer1 None), w1)"
    using release_body_total [OF inv ld(2) st ex] by blast
  note r1 = release_body_result [OF inj inv ld(2) b1]
  have e1: "world_inv env w1" "evolves UNIV w w1"
    using safeD [OF safe_release_body [OF inj ld(2,4)] inv b1, of UNIV] by simp_all
  obtain r' where "rg_execute env (qa_request a) (dw_reg w1) = (Inr (), r')" using ex by blast
  then obtain w2 where x2: "run_executor env (qa_request a) w1 = (Inr (), w2)"
    by (simp add: run_executor_def thenM_run on_reg_def zoom_run)
  have e2: "world_inv env w2" "evolves {} w1 w2" using safeD [OF safe_executor e1(1) x2] by simp_all
  let ?n = "resolved_action a Released (dw_now w2) reviewer2 None"
  have at2: "qa_at w2 ws i = Some (resolved_action a Released (dw_now w) reviewer1 None)"
    using r1(2) e2(2) evolves_empty_at by blast
  have ok: "req_ok w2 (qa_request ?n)"
    using stored_req_ok [OF world_inv_queue [OF e2(1)] at2] by (simp add: resolved_action_def)
  have st2: "storable (dw_queue w2) x" for x using st evolvesD(2) [OF e2(2)] evolvesD(2) [OF e1(2)] by simp
  obtain w3 where b2: "release_body env ws a reviewer2 None w1 = (Inr ?n, w3)"
  proof (rule save_action_cases [OF world_inv_queue [OF e2(1)] ok])
    fix q assume "save_action ?n w2 = (Inr (), w2\<lparr>dw_queue := q\<rparr>)"
    then show thesis
      by (intro that) (simp add: release_body_def thenM_run x2 resolve_action_def bindM_run Let_def audit_transition_def)
  qed (use st2 in blast)
  have "dw_executed w3 = dw_executed w2"
    using b2 x2 quietD [OF quiet_resolve, of a Released reviewer2 None w2]
    by (auto simp: release_body_def thenM_run)
  with executor_run [OF x2] r1(3) have "dw_executed w3 = dw_executed w @ [qa_request a, qa_request a]" by simp
  with b1 b2 l show ?thesis unfolding ld(1) by blast
qed

theorem overlapping_releases_run_twice_witness:
  "\<exists>w2. dw_executed (w2 :: grant_row list dworld) = [demo_request, demo_request]
    \<and> (\<exists>w1 n. release_body demo_registry ''w'' demo_action ''r2'' None w1 = (Inr n, w2))"
  using overlapping_releases_run_twice [OF demo_uuid_inj demo_world_ok demo_load demo_storable demo_executor,
      of "''r1''" "''r2''"]
  by (auto simp: demo_dworld_def demo_action_def new_action_def)

section \<open>Sequences of operations\<close>

text \<open>Everything that happens between two moments: queue operations run to their end one after
  another, time passes, other components change the registry.\<close>

inductive queue_step :: "'r registry \<Rightarrow> 'r dworld \<Rightarrow> 'r dworld \<Rightarrow> bool" for env :: "'r registry" where
  step_enqueue: "req_ok w req \<Longrightarrow> queue_step env w (snd (enqueue_queued_action env req w))"
| step_evaluate: "req_ok w req \<Longrightarrow> queue_step env w (snd (evaluate_dispatch env req opts w))"
| step_get: "queue_step env w (snd (get_queued_action ws i w))"
| step_count: "queue_step env w (snd (count_queued_for_run ws run w))"
| step_release: "queue_step env w (snd (release env ws i u rem w))"
| step_discard: "queue_step env w (snd (discard ws i u w))"
| step_expire: "queue_step env w (snd (expire_queued_action ws i w))"
| step_time: "0 \<le> d \<Longrightarrow> queue_step env w (w\<lparr>dw_now := dw_now w + d\<rparr>)"
| step_registry: "queue_step env w (w\<lparr>dw_reg := r\<rparr>)"

inductive_simps queue_step_iff: "queue_step env w w'"

definition still :: "'r dworld \<Rightarrow> 'r dworld \<Rightarrow> bool" where
  "still w w' \<longleftrightarrow> (\<forall>ws i a. qa_at w ws i = Some a \<longrightarrow> (\<exists>a'. qa_at w' ws i = Some a' \<and> moved UNIV (ws, i) a a'))
     \<and> addr_ok (dw_queue w') = addr_ok (dw_queue w) \<and> storable (dw_queue w') = storable (dw_queue w)
     \<and> prefix (dw_executed w) (dw_executed w')"

lemma evolves_still: "evolves UNIV w w' \<Longrightarrow> still w w'"
  by (simp add: evolves_def still_def)

lemma still_refl: "still w w"
  by (simp add: still_def moved_def)

lemma still_trans:
  assumes "still w w1" and "still w1 w2"
  shows "still w w2"
proof -
  have "\<exists>a'. qa_at w2 ws i = Some a' \<and> moved UNIV (ws, i) a a'" if "qa_at w ws i = Some a" for ws i a
    using assms that moved_trans unfolding still_def by meson
  with assms show ?thesis unfolding still_def by (auto intro: prefix_order.order_trans)
qed

lemma safe_step: "safe env UNIV w p \<Longrightarrow> world_inv env w \<Longrightarrow> world_inv env (snd (p w)) \<and> still w (snd (p w))"
  using evolves_still by (auto simp: safe_def)

lemma queue_step_still:
  assumes inj: "inj (rg_uuid env)" and step: "queue_step env w w'" and inv: "world_inv env w"
  shows "world_inv env w' \<and> still w w'"
  using step
proof cases
  case (step_enqueue req)
  with safe_step [OF safe_enqueue [OF inj] inv] show ?thesis by simp
next
  case (step_evaluate req opts)
  with safe_step [OF safe_evaluate [OF inj] inv] show ?thesis by simp
next
  case (step_get ws i)
  with safe_step [OF safe_get [OF UNIV_I] inv] show ?thesis by simp
next
  case (step_count ws run)
  with safe_step [OF safe_count inv] show ?thesis by simp
next
  case (step_release ws i u rem)
  with safe_step [OF safe_release [OF inj UNIV_I] inv] show ?thesis by simp
next
  case (step_discard ws i u)
  with safe_step [OF safe_discard [OF UNIV_I] inv] show ?thesis by simp
next
  case (step_expire ws i)
  with safe_step [OF safe_expire [OF UNIV_I] inv] show ?thesis by simp
next
  case (step_time d)
  then show ?thesis using inv by (simp add: world_inv_def queue_inv_def qa_at_def still_def moved_def)
next
  case (step_registry r)
  then show ?thesis using inv by (simp add: world_inv_def queue_inv_def qa_at_def still_def moved_def)
qed

lemma queue_steps_still:
  assumes inj: "inj (rg_uuid env)" and steps: "(queue_step env)\<^sup>*\<^sup>* w w'" and inv: "world_inv env w"
  shows "world_inv env w' \<and> still w w'"
  using steps
proof (induction rule: rtranclp_induct)
  case base
  then show ?case using inv still_refl by blast
next
  case (step w1 w2)
  with queue_step_still [OF inj] still_trans show ?case by blast
qed

text \<open>C9: Through every sequence of queue operations a stored action keeps its id, its request,
  its creation time and its deadline, and once released, discarded or expired its record never
  changes again and a release of it runs nothing.\<close>

theorem terminal_actions_final:
  assumes inj: "inj (rg_uuid env)" and inv: "world_inv env w" and steps: "(queue_step env)\<^sup>*\<^sup>* w w'"
    and at: "qa_at w ws i = Some a"
  shows "\<exists>a'. qa_at w' ws i = Some a' \<and> qa_request a' = qa_request a \<and> qa_created a' = qa_created a
    \<and> qa_expires a' = qa_expires a
    \<and> (qa_state a \<noteq> Queued \<longrightarrow> a' = a \<and> (\<exists>e. release env ws i u rem w' = (Inl e, w') \<and> err_status e = Some 409))"
proof -
  have inv': "world_inv env w'" and st: "still w w'" using queue_steps_still [OF inj steps inv] by simp_all
  from st at obtain a' where a': "qa_at w' ws i = Some a'" and m: "moved UNIV (ws, i) a a'"
    unfolding still_def by blast
  have "qa_state a \<noteq> Queued \<Longrightarrow> a' = a" using m by (auto simp: moved_def)
  with release_again(1) [OF inv' a'] a' m show ?thesis by (auto simp: moved_def same_order_def)
qed

theorem terminal_actions_final_witness:
  "\<exists>w a. (queue_step demo_registry)\<^sup>*\<^sup>* (demo_dworld 2000) w \<and> qa_at w ''w'' (show_nat 0) = Some a
    \<and> qa_request a = demo_request"
proof -
  have "(queue_step demo_registry)\<^sup>*\<^sup>* (demo_dworld 2000) (snd (discard ''w'' (show_nat 0) ''r'' (demo_dworld 2000)))"
    by (rule r_into_rtranclp) (rule step_discard)
  moreover have "qa_at (demo_dworld 2000) ''w'' (show_nat 0) = Some demo_action" by (simp add: demo_qa_at)
  ultimately show ?thesis
    using terminal_actions_final [OF demo_uuid_inj demo_world_ok]
    by (fastforce simp: demo_action_def new_action_def)
qed

section \<open>Deadlines\<close>

text \<open>An action past its deadline is never run: releasing (or discarding) it is refused, the
  executor is not called whatever the request, and the record is now expired unless the write
  of that record itself failed.\<close>

theorem expired_never_runs:
  assumes inv: "world_inv env w" and at: "qa_at w ws i = Some a" and q: "qa_state a = Queued"
    and late: "qa_expires a \<le> dw_now w"
  shows "\<exists>e w'. release env ws i u rem w = (Inl e, w') \<and> dw_executed w' = dw_executed w
    \<and> (qa_at w' ws i = Some (expired_action (dw_now w) a) \<and> err_status e = Some 409
       \<or> \<not> storable (dw_queue w) (expired_action (dw_now w) a) \<and> w' = w)"
proof -
  let ?n = "expired_action (dw_now w) a"
  have rd: "read_action ws i w = (Inr (Some a), w)"
    using read_action_run [OF world_inv_queue [OF inv], of ws i] at by simp
  have ids: "pr_ws (dr_principal (qa_request ?n)) = ws" "qa_id ?n = i"
    using queue_invD [OF world_inv_queue [OF inv] at] by (simp_all add: expired_action_def)
  have ok: "req_ok w (qa_request ?n)"
    using stored_req_ok [OF world_inv_queue [OF inv] at] by (simp add: expired_action_def)
  show ?thesis
  proof (rule save_action_cases [OF world_inv_queue [OF inv] ok])
    fix e assume "save_action ?n w = (Inl e, w)" and "\<not> storable (dw_queue w) ?n"
    then show ?thesis
      using rd q late
      by (simp add: release_def load_queued_def get_queued_action_def maybe_expire_def transition_expired_def
          bindM_run catchM_run thenM_run Let_def)
  next
    fix q'
    assume s: "save_action ?n w = (Inr (), w\<lparr>dw_queue := q'\<rparr>)"
      and at': "\<And>ws i. qa_at (w\<lparr>dw_queue := q'\<rparr>) ws i =
         (if ws = pr_ws (dr_principal (qa_request ?n)) \<and> i = qa_id ?n then Some ?n else qa_at w ws i)"
    have n: "qa_state ?n = Expired" by (simp add: expired_action_def)
    obtain w' where au: "audit_transition ?n Expired None (w\<lparr>dw_queue := q'\<rparr>) = (Inr (), w')"
      and w': "dw_queue w' = q'" "dw_executed w' = dw_executed w"
      by (simp add: audit_transition_def Let_def)
    have "release env ws i u rem w = (Inl (ServiceError (''Queued action '' @ i @ '' is '' @
        state_name Expired @ ''; release is a no-op'') 409), w')"
      using rd q late s au n
      by (simp add: release_def load_queued_def get_queued_action_def maybe_expire_def transition_expired_def
          bindM_run catchM_run thenM_run Let_def)
    moreover have "qa_at w' ws i = Some ?n" using at' [of ws i] ids w' by (simp add: qa_at_def)
    ultimately show ?thesis using w' by auto
  qed
qed

theorem expired_never_runs_witness:
  "\<exists>e w'. release demo_registry ''w'' (show_nat 0) ''r'' (Some ''*'') (demo_dworld (1000 + QUEUE_TTL_MS)) = (Inl e, w')
    \<and> dw_executed w' = []"
proof -
  have at: "qa_at (demo_dworld (1000 + QUEUE_TTL_MS)) ''w'' (show_nat 0) = Some demo_action" by (simp add: demo_qa_at)
  have q: "qa_state demo_action = Queued" and l: "qa_expires demo_action \<le> dw_now (demo_dworld (1000 + QUEUE_TTL_MS))"
    and e: "dw_executed (demo_dworld n) = []" for n
    by (simp_all add: demo_action_def new_action_def demo_dworld_def)
  from expired_never_runs [OF demo_world_ok at q l, of "''r''" "Some ''*''"] show ?thesis unfolding e by blast
qed

end
