(* ===== verification/Dispatch_Properties.thy ===== *)
theory Dispatch_Properties
  imports Queue_Properties
begin

text \<open>
  The guarantees of the dispatch decision: what an allowed call proves about every layer, when
  a call is queued, that an app's ceiling binds administrators too, and where the decision
  stays open when the registry cannot be read.
\<close>

section \<open>The stages of a decision\<close>

lemma on_reg_Inr: "on_reg p w = (Inr x, w1) \<longleftrightarrow> (\<exists>r. p (dw_reg w) = (Inr x, r) \<and> w1 = w\<lparr>dw_reg := r\<rparr>)"
  by (auto simp: on_reg_def zoom_run split: prod.splits)

lemma covered_iff: "capability_covered (Some ps) ns op \<longleftrightarrow> matches_capability_pattern ps ns op"
  by (cases ps) (simp_all add: capability_covered_def matches_capability_pattern_def)

lemma layers_run:
  "capability_layers env req opts r = (Inr ok, r') \<longleftrightarrow>
    (\<exists>inv r1 ceiling r2 pin. resolve_invoker_patterns env req opts r = (Inr inv, r1)
      \<and> resolve_app_ceiling env req opts r1 = (Inr ceiling, r2)
      \<and> profile_pin_ok env req r2 = (Inr pin, r')
      \<and> (ok \<longleftrightarrow> matches_capability_pattern inv (tl_namespace (dr_tool req)) (tl_operation (dr_tool req))
          \<and> (ceiling = None \<or> capability_covered ceiling (tl_namespace (dr_tool req)) (tl_operation (dr_tool req)))
          \<and> pin
          \<and> (eo_run_tools opts = None \<or>
              capability_covered (eo_run_tools opts) (tl_namespace (dr_tool req)) (tl_operation (dr_tool req)))))"
  by (auto simp: capability_layers_def Let_def bindM_Inr_iff covered_iff)

lemma opt_covered: "x = None \<or> capability_covered x ns op \<longleftrightarrow>
    (case x of None \<Rightarrow> True | Some ps \<Rightarrow> matches_capability_pattern ps ns op)"
  by (cases x) (simp_all add: covered_iff)

lemma evaluate_stages:
  assumes "evaluate_dispatch env req opts w = (Inr d, w')"
  obtains
    (unconnected) r1 where "oauth_gate env req (dw_reg w) = (Inr False, r1)" "d = Deny DenyUnconnected"
      "w' = w\<lparr>dw_reg := r1\<rparr>"
  | (uncovered) r1 r2 where "oauth_gate env req (dw_reg w) = (Inr True, r1)"
      "capability_layers env req opts r1 = (Inr False, r2)"
      "capability_miss env req (w\<lparr>dw_reg := r2\<rparr>) = (Inr d, w')"
  | (observed) r1 r2 where "oauth_gate env req (dw_reg w) = (Inr True, r1)"
      "capability_layers env req opts r1 = (Inr True, r2)" "tl_effect (dr_tool req) = Observation" "d = Allow"
      "w' = w\<lparr>dw_reg := r2\<rparr>"
  | (acted) r1 r2 rows r3 where "oauth_gate env req (dw_reg w) = (Inr True, r1)"
      "capability_layers env req opts r1 = (Inr True, r2)" "tl_effect (dr_tool req) = Action"
      "resource_rows env req opts r2 = (Inr rows, r3)"
      "resource_decision env req rows (w\<lparr>dw_reg := r3\<rparr>) = (Inr d, w')"
proof -
  from assms obtain connected r1 where g: "oauth_gate env req (dw_reg w) = (Inr connected, r1)"
    and rest1: "(if \<not> connected then ret (Deny DenyUnconnected)
      else bindM (on_reg (capability_layers env req opts)) (\<lambda>covered.
      if \<not> covered then capability_miss env req
      else if tl_effect (dr_tool req) = Observation then ret Allow
      else bindM (on_reg (resource_rows env req opts)) (resource_decision env req))) (w\<lparr>dw_reg := r1\<rparr>) = (Inr d, w')"
    unfolding evaluate_dispatch_def bindM_Inr_iff on_reg_Inr by blast
  show thesis
  proof (cases connected)
    case False
    with rest1 g show thesis by (intro unconnected) auto
  next
    case True
    with rest1 obtain covered r2 where l: "capability_layers env req opts r1 = (Inr covered, r2)"
      and rest2: "(if \<not> covered then capability_miss env req
      else if tl_effect (dr_tool req) = Observation then ret Allow
      else bindM (on_reg (resource_rows env req opts)) (resource_decision env req)) (w\<lparr>dw_reg := r2\<rparr>) = (Inr d, w')"
      by (auto simp: bindM_Inr_iff on_reg_Inr)
    consider "\<not> covered" | "covered" "tl_effect (dr_tool req) = Observation" | "covered" "tl_effect (dr_tool req) = Action"
      by (cases "tl_effect (dr_tool req)") auto
    then show thesis
    proof cases
      case 1
      with rest2 g l True show thesis by (intro uncovered) auto
    next
      case 2
      with rest2 g l True show thesis by (intro observed) auto
    next
      case 3
      with rest2 obtain rows r3 where "resource_rows env req opts r2 = (Inr rows, r3)"
        "resource_decision env req rows (w\<lparr>dw_reg := r3\<rparr>) = (Inr d, w')"
        by (auto simp: bindM_Inr_iff on_reg_Inr)
      with g l True 3 show thesis by (intro acted) auto
    qed
  qed
qed

lemma miss_result:
  assumes "capability_miss env req w = (Inr d, w')"
  shows "d = Deny DenyCapability \<or> (\<exists>c. d = Ask c)" "dw_queue w' = dw_queue w"
  using assms by (auto simp: capability_miss_def bindM_run random_uuid_def split: if_splits)

text \<open>C5: An allowed call has passed every layer, evaluated in this order on the registry of the
  moment: the user credential is connected, the invoker's patterns cover the call, so does the
  app's ceiling if there is one, the pinned profile permits it, so does the run's tool list if
  there is one, and for an action either no standing grant constrains the capability or one
  of them matches the resource.\<close>

theorem allow_passed_every_layer:
  assumes "evaluate_dispatch env req opts w = (Inr Allow, w')"
  shows "\<exists>r1 inv r2 ceiling r3 r4. oauth_gate env req (dw_reg w) = (Inr True, r1)
    \<and> resolve_invoker_patterns env req opts r1 = (Inr inv, r2)
    \<and> matches_capability_pattern inv (tl_namespace (dr_tool req)) (tl_operation (dr_tool req))
    \<and> resolve_app_ceiling env req opts r2 = (Inr ceiling, r3)
    \<and> (case ceiling of None \<Rightarrow> True
        | Some ps \<Rightarrow> matches_capability_pattern ps (tl_namespace (dr_tool req)) (tl_operation (dr_tool req)))
    \<and> profile_pin_ok env req r3 = (Inr True, r4)
    \<and> (case eo_run_tools opts of None \<Rightarrow> True
        | Some ps \<Rightarrow> matches_capability_pattern ps (tl_namespace (dr_tool req)) (tl_operation (dr_tool req)))
    \<and> (if tl_effect (dr_tool req) = Observation then True
       else \<exists>rows r5. resource_rows env req opts r4 = (Inr rows, r5)
         \<and> (let forCap = grants_for_capability rows (tl_namespace (dr_tool req)) (tl_operation (dr_tool req))
            in forCap = [] \<or> (\<exists>g \<in> set forCap. resource_matches_grant env (dr_resource req) g)))"
  using assms
proof (cases rule: evaluate_stages)
  case (uncovered r1 r2)
  with miss_result(1) [OF uncovered(3)] show ?thesis by simp
next
  case (observed r1 r2)
  then show ?thesis unfolding layers_run opt_covered by auto
next
  case (acted r1 r2 rows r3)
  from acted(5) have "(let forCap = grants_for_capability rows (tl_namespace (dr_tool req)) (tl_operation (dr_tool req))
      in forCap = [] \<or> (\<exists>g \<in> set forCap. resource_matches_grant env (dr_resource req) g))"
    by (auto simp: resource_decision_def Let_def filter_empty_conv bindM_run
        split: if_splits sum.splits prod.splits)
  with acted(1-4) show ?thesis unfolding layers_run opt_covered by auto
qed simp_all


text \<open>
  C6: an app's ceiling, given by the caller or read from the app without failure, binds whoever
  invokes it: when it does not cover the call, no role, grant or credential makes the decision
  an allow or a queue entry; it is a refusal or a question, and the queue is untouched. When the
  ceiling cannot be read the call has none (\<^verbatim>\<open>storage_outage_fails_open\<close>).
\<close>

theorem app_ceiling_binds_everyone:
  assumes e: "evaluate_dispatch env req opts w = (Inr d, w')"
    and ceiling: "eo_app_ceiling opts = Some ps \<or>
      eo_app_ceiling opts = None \<and> req_app req = Some app \<and> app \<noteq> [] \<and>
      (\<forall>r. \<exists>r'. rg_allowed_tools env (pr_ws (dr_principal req)) app r = (Inr (Some ps), r'))"
    and not_covered: "\<not> matches_capability_pattern ps (tl_namespace (dr_tool req)) (tl_operation (dr_tool req))"
  shows "(case d of Allow \<Rightarrow> False | Queue i \<Rightarrow> False | Deny r \<Rightarrow> True | Ask c \<Rightarrow> True) \<and> dw_queue w' = dw_queue w"
proof -
  have c: "resolve_app_ceiling env req opts r = (Inr ceil, r') \<Longrightarrow> ceil = Some ps" for r ceil r'
    using ceiling
  proof
    assume "eo_app_ceiling opts = Some ps" and "resolve_app_ceiling env req opts r = (Inr ceil, r')"
    then show ?thesis by (simp add: resolve_app_ceiling_def)
  next
    assume a: "eo_app_ceiling opts = None \<and> req_app req = Some app \<and> app \<noteq> [] \<and>
      (\<forall>r. \<exists>r'. rg_allowed_tools env (pr_ws (dr_principal req)) app r = (Inr (Some ps), r'))"
      and r: "resolve_app_ceiling env req opts r = (Inr ceil, r')"
    obtain r'' where "rg_allowed_tools env (pr_ws (dr_principal req)) app r = (Inr (Some ps), r'')" using a by blast
    with a r show ?thesis
      by (simp add: resolve_app_ceiling_def some_text_def truthy_def catchM_run)
  qed
  have no: "capability_layers env req opts r \<noteq> (Inr True, r')" for r r'
    unfolding layers_run opt_covered using c not_covered by fastforce
  from e show ?thesis
  proof (cases rule: evaluate_stages)
    case (uncovered r1 r2)
    from miss_result [OF uncovered(3)] show ?thesis by auto
  qed (use no in auto)
qed

section \<open>Concrete decisions\<close>

definition other_repo :: grant_row where
  "other_repo = \<lparr>gr_subject = UserSubject ''ann'', gr_capability = ''github.push'', gr_pattern = Some ''repo/b'',
     gr_level = ''workspace-token'', gr_by = ''root'', gr_revoked = False\<rparr>"

definition app_request :: dispatch_request where
  "app_request = demo_request\<lparr>dr_principal := \<lparr>pr_sub = ''ann'', pr_ws = ''w'', pr_role = ''admin'', pr_groups = []\<rparr>,
     dr_via := Some \<lparr>via_app = Some ''board'', via_profile = None\<rparr>\<rparr>"

lemma demo_allow: "fst (evaluate_dispatch demo_registry demo_request no_options (demo_dworld 5)) = Inr Allow"
  by code_simp

lemma demo_queue_decision:
  "fst (evaluate_dispatch demo_registry demo_request no_options ((demo_dworld 5)\<lparr>dw_reg := [other_repo]\<rparr>)) = Inr (Queue ''1'')"
  by code_simp

lemma demo_app_decision:
  "fst (evaluate_dispatch demo_registry app_request (no_options\<lparr>eo_app_ceiling := Some [''slack.*'']\<rparr>) (demo_dworld 5))
    = Inr (Deny DenyCapability)"
  by code_simp

lemma run_of_fst: "fst (p w) = r \<Longrightarrow> \<exists>w'. p w = (r, w')"
  by (cases "p w") auto

theorem allow_passed_every_layer_witness:
  "\<exists>w' r1 inv r2. evaluate_dispatch demo_registry demo_request no_options (demo_dworld 5) = (Inr Allow, w')
    \<and> resolve_invoker_patterns demo_registry demo_request no_options r1 = (Inr inv, r2)
    \<and> matches_capability_pattern inv ''github'' ''push''"
proof -
  obtain w' where e: "evaluate_dispatch demo_registry demo_request no_options (demo_dworld 5) = (Inr Allow, w')"
    using run_of_fst [where p = "evaluate_dispatch demo_registry demo_request no_options", OF demo_allow] by blast
  have t: "tl_namespace (dr_tool demo_request) = ''github''" "tl_operation (dr_tool demo_request) = ''push''"
    by (simp_all add: demo_request_def)
  from allow_passed_every_layer [OF e] e show ?thesis unfolding t by blast
qed


theorem app_ceiling_binds_everyone_witness:
  "\<exists>w'. evaluate_dispatch demo_registry app_request (no_options\<lparr>eo_app_ceiling := Some [''slack.*'']\<rparr>) (demo_dworld 5)
      = (Inr (Deny DenyCapability), w') \<and> dw_queue w' = dw_queue (demo_dworld 5)"
proof -
  let ?o = "no_options\<lparr>eo_app_ceiling := Some [''slack.*'']\<rparr>"
  obtain w' where e: "evaluate_dispatch demo_registry app_request ?o (demo_dworld 5) = (Inr (Deny DenyCapability), w')"
    using run_of_fst [where p = "evaluate_dispatch demo_registry app_request ?o", OF demo_app_decision] by blast
  have n: "\<not> matches_capability_pattern [''slack.*''] (tl_namespace (dr_tool app_request)) (tl_operation (dr_tool app_request))"
    by code_simp
  have c: "eo_app_ceiling ?o = Some [''slack.*''] \<or> eo_app_ceiling ?o = None \<and> req_app app_request = Some [] \<and> [] \<noteq> [] \<and>
      (\<forall>r. \<exists>r'. rg_allowed_tools demo_registry (pr_ws (dr_principal app_request)) [] r = (Inr (Some [''slack.*'']), r'))"
    by simp
  from app_ceiling_binds_everyone [OF e c n] e show ?thesis by auto
qed

section \<open>Where the decision stays open\<close>

text \<open>When the registry's storage cannot be opened, and the app record cannot be read, an
  action that the caller's permission rows cover is allowed whatever standing resource grants
  constrain it and whatever ceiling the app declares: both axes fall back to unconstrained,
  where a pinned profile falls back to a refusal.\<close>

theorem storage_outage_fails_open:
  assumes down: "\<And>r. rg_open env r = (Inl e, r)"
    and app_down: "\<And>app r. \<exists>e. rg_allowed_tools env (pr_ws (dr_principal req)) app r = (Inl e, r)"
    and perms: "\<And>r. rg_permissions env (pr_ws (dr_principal req)) (pr_sub (dr_principal req)) r = (Inr rows, r)"
    and covered: "matches_capability_pattern (map permission_pattern rows)
      (tl_namespace (dr_tool req)) (tl_operation (dr_tool req))"
    and plain: "req_level req \<noteq> Some ''user-oauth''" "\<not> truthy (req_profile req)"
  shows "evaluate_dispatch env req no_options w = (Inr Allow, w)"
proof -
  let ?ns = "tl_namespace (dr_tool req)" and ?op = "tl_operation (dr_tool req)"
  have opent: "open_tenant env ws r = (Inl e, r)" for ws r by (simp add: open_tenant_def thenM_run down)
  have gate: "oauth_gate env req r = (Inr True, r)" for r using plain(1) by (simp add: oauth_gate_def)
  have prof: "invoker_matched_tool_patterns env ws sub gs r = (Inr [], r)" for ws sub gs r
    by (simp add: invoker_matched_tool_patterns_def catchM_run thenM_run opent)
  define inv where "inv = dedup (map permission_pattern rows @ [] @
      (if pr_role (dr_principal req) = ''admin'' \<and> \<not> truthy (req_app req) then [''*''] else []))"
  have r1: "resolve_invoker_patterns env req no_options r = (Inr inv, r)" for r
    by (simp add: resolve_invoker_patterns_def no_options_def Let_def bindM_run perms prof inv_def)
  have cov: "matches_capability_pattern inv ?ns ?op"
    using covered by (auto simp: matches_capability_pattern_def inv_def Let_def)
  have r2: "resolve_app_ceiling env req no_options r = (Inr None, r)" for r
  proof (cases "some_text (req_app req)")
    case (Some app)
    obtain e' where "rg_allowed_tools env (pr_ws (dr_principal req)) app r = (Inl e', r)" using app_down by blast
    with Some show ?thesis by (simp add: resolve_app_ceiling_def no_options_def catchM_run)
  qed (simp add: resolve_app_ceiling_def no_options_def)
  have r3: "profile_pin_ok env req r = (Inr True, r)" for r
    using plain(2) by (simp add: profile_pin_ok_def some_text_def)
  have layers: "capability_layers env req no_options r = (Inr True, r)" for r
    unfolding layers_run using r1 r2 r3 cov by (auto simp: no_options_def)
  have res: "resource_rows env req no_options r = (Inr [], r)" for r
    by (simp add: resource_rows_def no_options_def catchM_run thenM_run opent)
  have on: "on_reg p w = (Inr x, w)" if "\<And>r. p r = (Inr x, r)" for p :: "('r, 'x) prog" and x and w :: "'r dworld"
    using that by (simp add: on_reg_def zoom_run)
  show ?thesis
    by (simp add: evaluate_dispatch_def bindM_run on [OF gate] on [OF layers] on [OF res]
        resource_decision_def grants_for_capability_def)
qed

definition broken_registry :: "grant_row list registry" where
  "broken_registry = demo_registry\<lparr>rg_open := throw (PlainError ''down''),
     rg_allowed_tools := (\<lambda>_ _. throw (PlainError ''down''))\<rparr>"

theorem storage_outage_fails_open_witness:
  "evaluate_dispatch broken_registry app_request no_options ((demo_dworld 5)\<lparr>dw_reg := [other_repo]\<rparr>)
     = (Inr Allow, (demo_dworld 5)\<lparr>dw_reg := [other_repo]\<rparr>)"
proof (rule storage_outage_fails_open)
  show "\<And>r. rg_open broken_registry r = (Inl (PlainError ''down''), r)"
    by (simp add: broken_registry_def)
  show "\<And>app r. \<exists>e. rg_allowed_tools broken_registry (pr_ws (dr_principal app_request)) app r = (Inl e, r)"
    by (simp add: broken_registry_def)
  show "\<And>r. rg_permissions broken_registry (pr_ws (dr_principal app_request)) (pr_sub (dr_principal app_request)) r
      = (Inr [\<lparr>pm_provider = ''github'', pm_operation = ''*''\<rparr>], r)"
    by (simp add: broken_registry_def demo_registry_def)
  show "matches_capability_pattern (map permission_pattern [\<lparr>pm_provider = ''github'', pm_operation = ''*''\<rparr>])
      (tl_namespace (dr_tool app_request)) (tl_operation (dr_tool app_request))"
    by code_simp
  show "req_level app_request \<noteq> Some ''user-oauth''" "\<not> truthy (req_profile app_request)"
    by (simp_all add: app_request_def demo_request_def req_level_def req_profile_def truthy_def)
qed

text \<open>Releasing with a remembered pattern that does not match the request's resource fails
  with 500 and runs nothing, but is not without effect: the grant stays in the registry and a
  second queued action for the same request is stored beside the first.\<close>

theorem mismatched_remember_leaves_grant:
  "case release demo_registry ''w'' (show_nat 0) ''rev'' (Some ''repo/b'') (demo_dworld 2000) of (res, w') \<Rightarrow>
     (case res of Inl e \<Rightarrow> err_status e | Inr a \<Rightarrow> None) = Some 500
     \<and> length (dw_executed w') = 0 \<and> map gr_pattern (dw_reg w') = [Some ''repo/b'']
     \<and> map (\<lambda>(a, r). snd (snd a)) (db_rows (dw_queue w')) = [''0'', ''1'']"
  by code_simp

end
