(* ===== verification/Capability_Cards.thy ===== *)
theory Capability_Cards
  imports Action_Queue
begin

text \<open>
  \<^verbatim>\<open>server/workspace/src/capability-cards.ts\<close>: approval cards (install ceilings, questions raised
  during a run), the policy of classes that always ask, and agents' install drafts. The scan
  of an app's sources for the tool namespaces it uses (\<^verbatim>\<open>@utdk/remote\<close>) is the argument \<^verbatim>\<open>scan\<close>;
  the resumption of a run is the argument \<^verbatim>\<open>resume\<close>.
\<close>

section \<open>Data\<close>

datatype card_kind = InstallCard | JitCard | AskCard | DraftCard

datatype card_state = Pending | Accepted | Declined | Answered | Blocked

datatype row_flag = Undeclared | Unused

record proposal =
  pp_capability :: string
  pp_effect :: tool_effect
  pp_flag :: "row_flag option"
  pp_level :: "string option"

record draft_proposal =
  dp_origin_app :: string
  dp_origin_ws :: "string option"
  dp_slug :: "string option"
  dp_declared :: "string list option"
  dp_sources :: "string list option"
  dp_by :: string

record card_resolution =
  ca_by :: string
  ca_at :: int

record capability_card =
  cc_id :: string
  cc_kind :: card_kind
  cc_ws :: string
  cc_invoker :: string
  cc_state :: card_state
  cc_created :: int
  cc_proposals :: "proposal list option"
  cc_blocked :: bool
  cc_request :: "dispatch_request option"
  cc_queued :: "string list option"
  cc_count :: "nat option"
  cc_always :: bool
  cc_run :: "string option"
  cc_turn :: "int option"
  cc_question :: json
  cc_payload :: json
  cc_answer :: json
  cc_draft :: "draft_proposal option"
  cc_resolution :: "card_resolution option"

record always_ask_policy =
  ap_app :: string
  ap_declared :: "string list"
  ap_added :: "string list"

record draft_record =
  df_draft :: draft_proposal
  df_created :: int

record 'r card_world =
  cw_base :: "'r dworld"
  cw_cards :: "capability_card db"
  cw_policies :: "always_ask_policy db"
  cw_drafts :: "draft_record db"

definition CARDS_SCOPE :: string where
  "CARDS_SCOPE = svc_scope ''capabilities'' [''cards'']"

definition ALWAYS_ASK_SCOPE :: string where
  "ALWAYS_ASK_SCOPE = svc_scope ''capabilities'' [''always-ask'']"

definition DRAFTS_SCOPE :: string where
  "DRAFTS_SCOPE = svc_scope ''capabilities'' [''drafts'']"

definition on_base :: "('r dworld, 'a) prog \<Rightarrow> ('r card_world, 'a) prog" where
  "on_base = zoom cw_base (\<lambda>b w. w\<lparr>cw_base := b\<rparr>)"

definition on_cards :: "(capability_card db, 'a) prog \<Rightarrow> ('r card_world, 'a) prog" where
  "on_cards = zoom cw_cards (\<lambda>d w. w\<lparr>cw_cards := d\<rparr>)"

definition on_policies :: "(always_ask_policy db, 'a) prog \<Rightarrow> ('r card_world, 'a) prog" where
  "on_policies = zoom cw_policies (\<lambda>d w. w\<lparr>cw_policies := d\<rparr>)"

definition on_drafts :: "(draft_record db, 'a) prog \<Rightarrow> ('r card_world, 'a) prog" where
  "on_drafts = zoom cw_drafts (\<lambda>d w. w\<lparr>cw_drafts := d\<rparr>)"

abbreviation cw_now :: "'r card_world \<Rightarrow> int" where
  "cw_now w \<equiv> dw_now (cw_base w)"

section \<open>Namespaces\<close>

text \<open>\<^verbatim>\<open>s.indexOf(p)\<close>; \<^verbatim>\<open>None\<close> for -1.\<close>

fun find_text :: "string \<Rightarrow> string \<Rightarrow> nat option" where
  "find_text [] p = (if p = [] then Some 0 else None)"
| "find_text (x # xs) p = (if starts_with (x # xs) p then Some 0 else map_option Suc (find_text xs p))"

definition capability_namespace :: "string \<Rightarrow> string" where
  "capability_namespace capability =
     (case find_text capability ''.*'' of
        Some (Suc n) \<Rightarrow> take (Suc n) capability
      | _ \<Rightarrow> (case find_text capability ''.'' of None \<Rightarrow> capability | Some d \<Rightarrow> take d capability))"

definition declaration_covers_namespace :: "string \<Rightarrow> string \<Rightarrow> bool" where
  "declaration_covers_namespace declaration namespace \<longleftrightarrow>
     declaration = ''*'' \<or> declaration = namespace \<or> declaration = namespace @ ''.*'' \<or>
     starts_with declaration (namespace @ ''.'')"

section \<open>Card storage\<close>

definition save_card :: "capability_card \<Rightarrow> ('r card_world, unit) prog" where
  "save_card crd w =
     on_cards (write_svc_record (cw_now w) (cc_ws crd) CARDS_SCOPE (cc_id crd) crd (cc_invoker crd)) w"

definition get_capability_card :: "string \<Rightarrow> string \<Rightarrow> ('r card_world, capability_card option) prog" where
  "get_capability_card ws i =
     catchM (\<lambda>w. (read_svc_record (cw_now w) (cw_cards w) ws CARDS_SCOPE i, w)) (\<lambda>_. ret None)"

definition list_capability_cards ::
  "string \<Rightarrow> string option \<Rightarrow> card_state option \<Rightarrow> card_kind option \<Rightarrow> ('r card_world, capability_card list) prog" where
  "list_capability_cards ws invoker state kind =
     bindM (catchM (\<lambda>w. (list_svc_records (cw_now w) (cw_cards w) ws CARDS_SCOPE [], w)) (\<lambda>_. ret [])) (\<lambda>rows.
     ret (filter (\<lambda>crd.
            (truthy invoker \<longrightarrow> Some (cc_invoker crd) = invoker) \<and>
            (state \<noteq> None \<longrightarrow> Some (cc_state crd) = state) \<and>
            (kind \<noteq> None \<longrightarrow> Some (cc_kind crd) = kind)) (map snd rows)))"

definition new_card :: "string \<Rightarrow> card_kind \<Rightarrow> string \<Rightarrow> string \<Rightarrow> int \<Rightarrow> capability_card" where
  "new_card i kind ws invoker now =
     \<lparr>cc_id = i, cc_kind = kind, cc_ws = ws, cc_invoker = invoker, cc_state = Pending, cc_created = now,
      cc_proposals = None, cc_blocked = False, cc_request = None, cc_queued = None, cc_count = None,
      cc_always = False, cc_run = None, cc_turn = None, cc_question = JUndefined, cc_payload = JUndefined,
      cc_answer = JUndefined, cc_draft = None, cc_resolution = None\<rparr>"

section \<open>Install ceilings\<close>

definition declared_row :: "string list \<Rightarrow> string \<Rightarrow> string \<Rightarrow> proposal" where
  "declared_row scanned level capability =
     \<lparr>pp_capability = capability, pp_effect = Action,
      pp_flag = (if capability_namespace capability \<in> set scanned then None else Some Unused),
      pp_level = Some level\<rparr>"

definition undeclared_row :: "string \<Rightarrow> string \<Rightarrow> proposal" where
  "undeclared_row level ns =
     \<lparr>pp_capability = ns @ ''.*'', pp_effect = Action, pp_flag = Some Undeclared, pp_level = Some level\<rparr>"

definition flag_rank :: "proposal \<Rightarrow> int" where
  "flag_rank p = (case pp_flag p of Some Undeclared \<Rightarrow> 2 | Some Unused \<Rightarrow> 1 | None \<Rightarrow> 0)"

definition proposal_order :: "'r registry \<Rightarrow> proposal \<Rightarrow> proposal \<Rightarrow> int" where
  "proposal_order env a b =
     (let d = flag_rank a - flag_rank b
      in if d \<noteq> 0 then d else rg_collate env (pp_capability a) (pp_capability b))"

definition install_proposals ::
  "'r registry \<Rightarrow> (string \<Rightarrow> string list) \<Rightarrow> string list \<Rightarrow> string list \<Rightarrow> string \<Rightarrow> proposal list" where
  "install_proposals env scan sources declared level =
     (let scanned = dedup (concat (map scan sources))
      in js_sort (proposal_order env)
           (map (declared_row scanned level) declared @
            map (undeclared_row level)
              (filter (\<lambda>ns. \<not> (\<exists>d \<in> set declared. declaration_covers_namespace d ns)) scanned)))"

definition propose_install_ceiling ::
  "'r registry \<Rightarrow> (string \<Rightarrow> string list) \<Rightarrow> string \<Rightarrow> string \<Rightarrow> string list \<Rightarrow> string list
     \<Rightarrow> string option \<Rightarrow> card_kind option \<Rightarrow> draft_proposal option \<Rightarrow> ('r dworld, capability_card) prog" where
  "propose_install_ceiling env scan ws invoker sources declared level kind draft =
     (let lv = (case level of None \<Rightarrow> ''workspace-token'' | Some l \<Rightarrow> l);
          ps = install_proposals env scan sources declared lv;
          blocked = (\<exists>p \<in> set ps. pp_flag p = Some Undeclared)
      in bindM (random_uuid env) (\<lambda>i.
         bindM (gets dw_now) (\<lambda>now.
         ret ((new_card i (case kind of None \<Rightarrow> InstallCard | Some k \<Rightarrow> k) ws invoker now)
           \<lparr>cc_state := (if blocked then Blocked else Pending), cc_proposals := Some ps,
            cc_blocked := blocked, cc_draft := draft\<rparr>))))"

definition save_install_card :: "capability_card \<Rightarrow> ('r card_world, capability_card) prog" where
  "save_install_card crd = thenM (save_card crd) (ret crd)"

fun card_state_name :: "card_state \<Rightarrow> string" where
  "card_state_name Pending = ''pending''"
| "card_state_name Accepted = ''accepted''"
| "card_state_name Declined = ''declined''"
| "card_state_name Answered = ''answered''"
| "card_state_name Blocked = ''blocked''"

definition unknown_card :: "string \<Rightarrow> svc_error" where
  "unknown_card i = ServiceError (''Unknown capability card: '' @ i) 404"

definition card_settled :: "string \<Rightarrow> capability_card \<Rightarrow> svc_error" where
  "card_settled i crd = ServiceError (''Card '' @ i @ '' is '' @ card_state_name (cc_state crd)) 409"

definition require_card :: "string \<Rightarrow> string \<Rightarrow> ('r card_world, capability_card) prog" where
  "require_card ws i =
     bindM (get_capability_card ws i) (\<lambda>r. case r of None \<Rightarrow> throw (unknown_card i) | Some crd \<Rightarrow> ret crd)"

definition settle_card ::
  "capability_card \<Rightarrow> card_state \<Rightarrow> string \<Rightarrow> ('r card_world, capability_card) prog" where
  "settle_card crd st reviewer =
     bindM (gets cw_now) (\<lambda>now.
     let n = crd\<lparr>cc_state := st, cc_resolution := Some \<lparr>ca_by = reviewer, ca_at = now\<rparr>\<rparr>
     in thenM (save_card n) (ret n))"

definition ceiling_grant :: "subject \<Rightarrow> string \<Rightarrow> proposal \<Rightarrow> new_grant" where
  "ceiling_grant subj reviewer row =
     \<lparr>ng_subject = subj, ng_capability = pp_capability row, ng_pattern = None,
      ng_level = (case pp_level row of None \<Rightarrow> ''workspace-token'' | Some l \<Rightarrow> l), ng_by = reviewer\<rparr>"

definition ceiling_grants :: "capability_card \<Rightarrow> subject \<Rightarrow> string \<Rightarrow> new_grant list" where
  "ceiling_grants crd subj reviewer =
     map (ceiling_grant subj reviewer)
       (filter (\<lambda>row. pp_flag row = None) (case cc_proposals crd of None \<Rightarrow> [] | Some ps \<Rightarrow> ps))"

definition confirm_install_ceiling ::
  "'r registry \<Rightarrow> string \<Rightarrow> string \<Rightarrow> string \<Rightarrow> subject option \<Rightarrow> ('r card_world, capability_card) prog" where
  "confirm_install_ceiling env ws i reviewer subj =
     bindM (require_card ws i) (\<lambda>crd.
     if cc_kind crd \<noteq> InstallCard \<and> cc_kind crd \<noteq> DraftCard
     then throw (ServiceError (''Card '' @ i @ '' is not an install/draft card'') 400)
     else if cc_blocked crd \<or> cc_state crd = Blocked
     then throw (ServiceError
       ''Install blocked: undeclared capability use must be declared in app.yaml or removed from code'' 400)
     else if cc_state crd \<noteq> Pending then throw (card_settled i crd)
     else thenM (on_base (on_reg (open_tenant env ws)))
       (thenM (on_base (on_reg (iterM
          (ceiling_grants crd (case subj of None \<Rightarrow> UserSubject reviewer | Some s \<Rightarrow> s) reviewer)
          (rg_create_grant env ws))))
         (settle_card crd Accepted reviewer)))"

section \<open>Cards raised during a run\<close>

definition raise_jit_card ::
  "'r registry \<Rightarrow> string \<Rightarrow> string \<Rightarrow> dispatch_request \<Rightarrow> string option \<Rightarrow> int option \<Rightarrow> string list option
     \<Rightarrow> bool \<Rightarrow> string option \<Rightarrow> ('r card_world, capability_card) prog" where
  "raise_jit_card env ws invoker req run turn ids always cardId =
     bindM (case ids of
              Some q \<Rightarrow> ret (length q)
            | None \<Rightarrow> (case some_text run of None \<Rightarrow> ret 0
                       | Some r \<Rightarrow> on_base (count_queued_for_run ws r))) (\<lambda>n.
     bindM (case cardId of Some i \<Rightarrow> ret i | None \<Rightarrow> on_base (random_uuid env)) (\<lambda>i.
     bindM (gets cw_now) (\<lambda>now.
     let crd = (new_card i JitCard ws invoker now)
           \<lparr>cc_request := Some req, cc_queued := ids, cc_count := Some n, cc_always := always,
            cc_run := some_text run, cc_turn := turn\<rparr>
     in thenM (save_card crd) (ret crd))))"

definition queued_actions_message :: "nat \<Rightarrow> string" where
  "queued_actions_message n = ''queued '' @ show_nat n @ '' actions''"

definition benign_release_error :: "svc_error \<Rightarrow> bool" where
  "benign_release_error e \<longleftrightarrow> err_status e = Some 404 \<or> err_status e = Some 409"

fun release_all ::
  "'r registry \<Rightarrow> string \<Rightarrow> string \<Rightarrow> string option \<Rightarrow> string list \<Rightarrow> ('r dworld, queued_action list) prog" where
  "release_all env ws reviewer remember [] = ret []"
| "release_all env ws reviewer remember (i # ids) =
     bindM (catchM (bindM (release env ws i reviewer remember) (\<lambda>a. ret [a]))
              (\<lambda>e. if benign_release_error e then ret [] else throw e)) (\<lambda>one.
     bindM (release_all env ws reviewer remember ids) (\<lambda>rest. ret (one @ rest)))"

text \<open>The option \<^verbatim>\<open>rememberPattern\<close>: absent, null, or a pattern.\<close>

definition jit_remember :: "dispatch_request \<Rightarrow> string option option \<Rightarrow> string option" where
  "jit_remember req opt = (case opt of None \<Rightarrow> dr_resource req | Some p \<Rightarrow> p)"

definition accept_jit_card ::
  "'r registry \<Rightarrow> string \<Rightarrow> string \<Rightarrow> string \<Rightarrow> string option option \<Rightarrow> (string \<Rightarrow> ('r card_world, unit) prog) option
     \<Rightarrow> ('r card_world, capability_card \<times> queued_action list) prog" where
  "accept_jit_card env ws i reviewer rememberOpt resume =
     bindM (require_card ws i) (\<lambda>crd.
     if cc_kind crd \<noteq> JitCard then throw (ServiceError (''Card '' @ i @ '' is not a JIT card'') 400)
     else if cc_state crd \<noteq> Pending then throw (card_settled i crd)
     else (case cc_request crd of
         None \<Rightarrow> throw (ServiceError (''Card '' @ i @ '' has no dispatch request'') 500)
       | Some req \<Rightarrow>
           let remember = jit_remember req rememberOpt;
               ids = (case cc_queued crd of None \<Rightarrow> [] | Some q \<Rightarrow> q)
           in bindM (if \<not> cc_always crd then
                (if ids = []
                 then thenM (on_base (on_reg (open_tenant env ws)))
                        (thenM (on_base (on_reg (rg_create_grant env ws (remembered_grant req remember reviewer))))
                          (ret []))
                 else on_base (release_all env ws reviewer remember ids))
              else on_base (release_all env ws reviewer None ids)) (\<lambda>released.
              bindM (settle_card crd Accepted reviewer) (\<lambda>n.
              thenM (case (some_text (cc_run crd), resume) of (Some run, Some f) \<Rightarrow> f run | _ \<Rightarrow> ret ())
                (ret (n, released))))))"

definition decline_jit_card :: "string \<Rightarrow> string \<Rightarrow> string \<Rightarrow> ('r card_world, capability_card) prog" where
  "decline_jit_card ws i reviewer =
     bindM (require_card ws i) (\<lambda>crd.
     if cc_state crd \<noteq> Pending then throw (card_settled i crd)
     else settle_card crd Declined reviewer)"

definition raise_ask_card ::
  "'r registry \<Rightarrow> string \<Rightarrow> string \<Rightarrow> json \<Rightarrow> json \<Rightarrow> string option \<Rightarrow> ('r card_world, capability_card) prog" where
  "raise_ask_card env ws invoker question payload run =
     bindM (on_base (random_uuid env)) (\<lambda>i.
     bindM (gets cw_now) (\<lambda>now.
     let crd = (new_card i AskCard ws invoker now)
           \<lparr>cc_question := question, cc_payload := payload, cc_run := some_text run\<rparr>
     in thenM (save_card crd) (ret crd)))"

definition answer_ask_card :: "string \<Rightarrow> string \<Rightarrow> string \<Rightarrow> json \<Rightarrow> ('r card_world, capability_card) prog" where
  "answer_ask_card ws i reviewer answer =
     bindM (require_card ws i) (\<lambda>crd.
     if cc_kind crd \<noteq> AskCard then throw (ServiceError (''Card '' @ i @ '' is not an ask card'') 400)
     else if cc_state crd \<noteq> Pending then throw (card_settled i crd)
     else settle_card (crd\<lparr>cc_answer := answer\<rparr>) Answered reviewer)"

section \<open>Classes that always ask\<close>

definition load_always_ask :: "string \<Rightarrow> string \<Rightarrow> ('r card_world, always_ask_policy) prog" where
  "load_always_ask ws app =
     bindM (catchM (\<lambda>w. (read_svc_record (cw_now w) (cw_policies w) ws ALWAYS_ASK_SCOPE app, w)) (\<lambda>_. ret None))
       (\<lambda>r. ret (case r of Some p \<Rightarrow> p | None \<Rightarrow> \<lparr>ap_app = app, ap_declared = [], ap_added = []\<rparr>))"

definition write_policy :: "string \<Rightarrow> string \<Rightarrow> always_ask_policy \<Rightarrow> ('r card_world, always_ask_policy) prog" where
  "write_policy ws app p =
     bindM (gets cw_now) (\<lambda>now.
     thenM (on_policies (write_svc_record now ws ALWAYS_ASK_SCOPE app p SVC_SYSTEM_USER)) (ret p))"

definition declare_app_always_ask ::
  "string \<Rightarrow> string \<Rightarrow> string list \<Rightarrow> ('r card_world, always_ask_policy) prog" where
  "declare_app_always_ask ws app classes =
     bindM (load_always_ask ws app) (\<lambda>current. write_policy ws app (current\<lparr>ap_declared := dedup classes\<rparr>))"

definition cannot_clear :: "string \<Rightarrow> string \<Rightarrow> svc_error" where
  "cannot_clear app declared =
     ServiceError (''Workspace policy cannot clear app-declared always-ask class '' @ quoted declared @
       '' (app '' @ app @ '')'') 400"

definition set_workspace_always_ask ::
  "string \<Rightarrow> string \<Rightarrow> string list \<Rightarrow> ('r card_world, always_ask_policy) prog" where
  "set_workspace_always_ask ws app classes =
     bindM (load_always_ask ws app) (\<lambda>current.
     case filter (\<lambda>d. d \<notin> set classes) (ap_declared current) of
       d # _ \<Rightarrow> throw (cannot_clear app d)
     | [] \<Rightarrow> write_policy ws app
         (current\<lparr>ap_added := filter (\<lambda>c. c \<notin> set (ap_declared current)) classes\<rparr>))"

definition get_always_ask_policy :: "string \<Rightarrow> string \<Rightarrow> ('r card_world, always_ask_policy) prog" where
  "get_always_ask_policy ws app = load_always_ask ws app"

definition is_always_ask :: "string \<Rightarrow> string option \<Rightarrow> string \<Rightarrow> ('r card_world, bool) prog" where
  "is_always_ask ws app capability =
     (case some_text app of
        None \<Rightarrow> ret False
      | Some a \<Rightarrow>
          bindM (load_always_ask ws a) (\<lambda>p.
          let asks = ap_declared p @ ap_added p
          in ret (capability \<in> set asks \<or> capability_namespace capability @ ''.*'' \<in> set asks)))"

section \<open>Drafts by agents\<close>

definition propose_draft_install ::
  "'r registry \<Rightarrow> (string \<Rightarrow> string list) \<Rightarrow> string \<Rightarrow> string \<Rightarrow> string \<Rightarrow> string \<Rightarrow> string option \<Rightarrow> string option
     \<Rightarrow> string list option \<Rightarrow> string list option \<Rightarrow> ('r card_world, capability_card) prog" where
  "propose_draft_install env scan ws proposer owner originApp originWs slug sources declared =
     (let draft = \<lparr>dp_origin_app = originApp, dp_origin_ws = some_text originWs, dp_slug = some_text slug,
                   dp_declared = declared, dp_sources = sources, dp_by = proposer\<rparr>
      in bindM (on_base (random_uuid env)) (\<lambda>did.
         bindM (gets cw_now) (\<lambda>now.
         thenM (on_drafts (write_svc_record now ws DRAFTS_SCOPE did
                  \<lparr>df_draft = draft, df_created = now\<rparr> SVC_SYSTEM_USER))
           (bindM (case (sources, declared) of
                     (Some srcs, Some decl) \<Rightarrow>
                       on_base (propose_install_ceiling env scan ws owner srcs decl None (Some DraftCard) (Some draft))
                   | _ \<Rightarrow>
                       bindM (on_base (random_uuid env)) (\<lambda>i.
                       ret ((new_card i DraftCard ws owner now)
                         \<lparr>cc_draft := Some draft,
                          cc_proposals := Some (map (\<lambda>c. \<lparr>pp_capability = c, pp_effect = Action,
                              pp_flag = None, pp_level = None\<rparr>)
                            (case declared of None \<Rightarrow> [] | Some d \<Rightarrow> d))\<rparr>))) (\<lambda>crd.
            thenM (save_card crd) (ret crd))))))"

definition draft_capabilities :: "capability_card \<Rightarrow> draft_proposal \<Rightarrow> string list" where
  "draft_capabilities crd draft =
     (let caps = map pp_capability (filter (\<lambda>p. pp_flag p = None)
                   (case cc_proposals crd of None \<Rightarrow> [] | Some ps \<Rightarrow> ps))
      in if caps = [] then (case dp_declared draft of None \<Rightarrow> [] | Some d \<Rightarrow> d) else caps)"

definition draft_has_no_grants :: "'r registry \<Rightarrow> string \<Rightarrow> string \<Rightarrow> ('r card_world, bool) prog" where
  "draft_has_no_grants env ws i =
     bindM (get_capability_card ws i) (\<lambda>r.
     case r of
       None \<Rightarrow> ret True
     | Some crd \<Rightarrow>
         (case cc_draft crd of
            None \<Rightarrow> ret True
          | Some draft \<Rightarrow>
              thenM (on_base (on_reg (open_tenant env ws)))
                (bindM (on_base (on_reg (rg_grants env ws))) (\<lambda>rows.
                 ret (\<not> (\<exists>g \<in> set rows. gr_capability g \<in> set (draft_capabilities crd draft)
                           \<and> \<not> gr_revoked g))))))"

end
