(* ===== verification/Card_Properties.thy ===== *)
theory Card_Properties
  imports Capability_Cards Queue_Properties
begin

text \<open>
  The guarantees of approval cards: an install card says exactly what the code uses beyond its
  declaration, confirming one writes capability grants for its clean rows and nothing else,
  a settled card stays settled, and a workspace can only tighten an app's always-ask classes.
\<close>

section \<open>Cards as documents\<close>

definition card_at :: "'r card_world \<Rightarrow> string \<Rightarrow> string \<Rightarrow> capability_card option" where
  "card_at w ws i = doc_at (cw_cards w) ws CARDS_SCOPE i"

definition cards_inv :: "'r card_world \<Rightarrow> bool" where
  "cards_inv w \<longleftrightarrow> doc_ok (cw_cards w) \<and>
     (\<forall>ws i c. card_at w ws i = Some c \<longrightarrow> cc_id c = i \<and> cc_ws c = ws)"

lemma cards_inv_ok [simp]: "cards_inv w \<Longrightarrow> doc_ok (cw_cards w)"
  unfolding cards_inv_def by blast

lemma cards_invD:
  assumes "cards_inv w" and "card_at w ws i = Some c"
  shows "cc_id c = i" "cc_ws c = ws"
  using assms unfolding cards_inv_def by blast+

lemma get_card_run: "cards_inv w \<Longrightarrow> get_capability_card ws i w = (Inr (card_at w ws i), w)"
  by (simp add: get_capability_card_def catchM_run read_doc card_at_def)

lemma require_card_run:
  "cards_inv w \<Longrightarrow> require_card ws i w =
     (case card_at w ws i of None \<Rightarrow> (Inl (unknown_card i), w) | Some c \<Rightarrow> (Inr c, w))"
  by (simp add: require_card_def bindM_run get_card_run split: option.split)

text \<open>Settling a stored card writes exactly that card.\<close>

lemma settle_card_result:
  assumes inv: "cards_inv w" and at: "card_at w ws i = Some c"
    and same: "cc_id c' = cc_id c" "cc_ws c' = cc_ws c"
    and s: "settle_card c' st u w = (Inr n, w')"
  shows "n = c'\<lparr>cc_state := st, cc_resolution := Some \<lparr>ca_by = u, ca_at = cw_now w\<rparr>\<rparr>"
    "card_at w' ws i = Some n" "cw_base w' = cw_base w" "cards_inv w'"
    "(ws', i') \<noteq> (ws, i) \<Longrightarrow> card_at w' ws' i' = card_at w ws' i'"
proof -
  show n: "n = c'\<lparr>cc_state := st, cc_resolution := Some \<lparr>ca_by = u, ca_at = cw_now w\<rparr>\<rparr>"
    using s by (auto simp: settle_card_def bindM_run thenM_run Let_def split: sum.splits prod.splits)
  have ids: "cc_ws n = ws" "cc_id n = i" using cards_invD [OF inv at] same by (simp_all add: n)
  from s obtain q where w: "write_svc_record (cw_now w) ws CARDS_SCOPE i n (cc_invoker n) (cw_cards w) = (Inr (), q)"
    and w': "w' = w\<lparr>cw_cards := q\<rparr>"
    by (auto simp: settle_card_def bindM_run thenM_run Let_def save_card_def on_cards_def zoom_run n
        ids [unfolded n] same cards_invD [OF inv at] split: sum.splits prod.splits)
  have a: "addr_ok (cw_cards w) (ws, CARDS_SCOPE, i)"
    using doc_at_ws_ok(2) [OF cards_inv_ok [OF inv]] at by (simp add: card_at_def)
  note eff = write_doc [OF cards_inv_ok [OF inv] a w]
  show "card_at w' ws i = Some n" and "cw_base w' = cw_base w"
    by (simp_all add: card_at_def w' eff(2))
  have at': "card_at w' ws' i' = (if ws' = ws \<and> i' = i then Some n else card_at w ws' i')" for ws' i'
    by (simp add: card_at_def w' eff(2))
  show "(ws', i') \<noteq> (ws, i) \<Longrightarrow> card_at w' ws' i' = card_at w ws' i'" by (auto simp: at')
  have "doc_ok (cw_cards w')" by (simp add: w' eff(1))
  then show "cards_inv w'"
    using inv ids unfolding cards_inv_def at' by simp
qed

section \<open>Install ceilings\<close>

lemma row_flags [simp]:
  "pp_flag (declared_row scanned lv cap) = (if capability_namespace cap \<in> set scanned then None else Some Unused)"
  "pp_flag (undeclared_row lv ns) = Some Undeclared"
  "pp_capability (declared_row scanned lv cap) = cap"
  by (simp_all add: declared_row_def undeclared_row_def)

lemma set_install: "set (install_proposals env scan sources decl lv) =
    declared_row (dedup (concat (map scan sources))) lv ` set decl \<union>
    undeclared_row lv ` {ns. (\<exists>src \<in> set sources. ns \<in> set (scan src)) \<and>
      \<not> (\<exists>d \<in> set decl. declaration_covers_namespace d ns)}"
  by (simp add: install_proposals_def Let_def)

lemma blocked_rows:
  "(\<exists>p \<in> set (install_proposals env scan sources decl lv). pp_flag p = Some Undeclared) \<longleftrightarrow>
   (\<exists>src \<in> set sources. \<exists>ns \<in> set (scan src). \<not> (\<exists>d \<in> set decl. declaration_covers_namespace d ns))"
proof
  assume "\<exists>p \<in> set (install_proposals env scan sources decl lv). pp_flag p = Some Undeclared"
  then show "\<exists>src \<in> set sources. \<exists>ns \<in> set (scan src). \<not> (\<exists>d \<in> set decl. declaration_covers_namespace d ns)"
    unfolding set_install by (auto split: if_splits)
next
  assume "\<exists>src \<in> set sources. \<exists>ns \<in> set (scan src). \<not> (\<exists>d \<in> set decl. declaration_covers_namespace d ns)"
  then obtain ns where "undeclared_row lv ns \<in> set (install_proposals env scan sources decl lv)"
    unfolding set_install by blast
  then show "\<exists>p \<in> set (install_proposals env scan sources decl lv). pp_flag p = Some Undeclared"
    using row_flags(2) by blast
qed

lemma clean_rows: "pp_capability ` set (filter (\<lambda>p. pp_flag p = None) (install_proposals env scan sources decl lv)) =
    {cap \<in> set decl. \<exists>src \<in> set sources. capability_namespace cap \<in> set (scan src)}"
proof -
  have "set (filter (\<lambda>p. pp_flag p = None) (install_proposals env scan sources decl lv)) =
      declared_row (dedup (concat (map scan sources))) lv `
        {cap \<in> set decl. \<exists>src \<in> set sources. capability_namespace cap \<in> set (scan src)}"
    unfolding set_filter set_install by (auto split: if_splits)
  then show ?thesis by (auto simp: image_image)
qed

text \<open>A proposed install card is blocked exactly when the code uses a tool namespace that no
  declaration covers; the rows a confirmation will grant are exactly the declared capabilities
  whose namespace the code uses; and proposing writes neither grants nor queue entries.\<close>

theorem install_card_exact:
  "\<exists>c ps. propose_install_ceiling env scan ws invoker sources decl level kind draft w
       = (Inr c, w\<lparr>dw_next := Suc (dw_next w)\<rparr>) \<and> cc_proposals c = Some ps
    \<and> (cc_blocked c \<longleftrightarrow> (\<exists>src \<in> set sources. \<exists>ns \<in> set (scan src).
          \<not> (\<exists>d \<in> set decl. declaration_covers_namespace d ns)))
    \<and> cc_state c = (if cc_blocked c then Blocked else Pending)
    \<and> pp_capability ` set (filter (\<lambda>p. pp_flag p = None) ps) =
        {cap \<in> set decl. \<exists>src \<in> set sources. capability_namespace cap \<in> set (scan src)}"
proof -
  let ?lv = "case level of None \<Rightarrow> ''workspace-token'' | Some l \<Rightarrow> l"
  let ?ps = "install_proposals env scan sources decl ?lv"
  show ?thesis
    unfolding clean_rows [of env scan sources decl ?lv, symmetric]
    by (simp add: propose_install_ceiling_def Let_def bindM_run random_uuid_def blocked_rows new_card_def)
qed

text \<open>Confirming an install or draft card succeeds only for a pending, unblocked card; it then
  grants the card's unflagged capabilities, each once, in order and on any resource, to the
  subject it was given (the reviewer by default), marks the card accepted, and cannot be
  repeated: a second confirmation is refused with 409 and grants nothing.\<close>

theorem confirm_grants_clean_rows:
  assumes inv: "cards_inv w" and c: "confirm_install_ceiling env ws i reviewer subj w = (Inr n, w')"
  shows "\<exists>crd r1. card_at w ws i = Some crd \<and> cc_state crd = Pending \<and> \<not> cc_blocked crd
    \<and> (cc_kind crd = InstallCard \<or> cc_kind crd = DraftCard)
    \<and> open_tenant env ws (dw_reg (cw_base w)) = (Inr (), r1)
    \<and> iterM (map (\<lambda>row. \<lparr>ng_subject = (case subj of None \<Rightarrow> UserSubject reviewer | Some s \<Rightarrow> s),
             ng_capability = pp_capability row, ng_pattern = None,
             ng_level = (case pp_level row of None \<Rightarrow> ''workspace-token'' | Some l \<Rightarrow> l), ng_by = reviewer\<rparr>)
          (filter (\<lambda>row. pp_flag row = None) (case cc_proposals crd of None \<Rightarrow> [] | Some ps \<Rightarrow> ps)))
        (rg_create_grant env ws) r1 = (Inr (), dw_reg (cw_base w'))
    \<and> card_at w' ws i = Some n \<and> cc_state n = Accepted
    \<and> confirm_install_ceiling env ws i other subj' w' =
        (Inl (ServiceError (''Card '' @ i @ '' is accepted'') 409), w')"
proof -
  from c obtain crd where at: "card_at w ws i = Some crd"
    by (auto simp: confirm_install_ceiling_def bindM_run require_card_run [OF inv] split: option.splits)
  from c at have ok: "cc_kind crd = InstallCard \<or> cc_kind crd = DraftCard" "\<not> cc_blocked crd"
      "cc_state crd = Pending"
    by (auto simp: confirm_install_ceiling_def bindM_run require_card_run [OF inv] split: if_splits)
  let ?gs = "ceiling_grants crd (case subj of None \<Rightarrow> UserSubject reviewer | Some s \<Rightarrow> s) reviewer"
  from c at ok obtain r1 r2 where o: "open_tenant env ws (dw_reg (cw_base w)) = (Inr (), r1)"
    and g: "iterM ?gs (rg_create_grant env ws) r1 = (Inr (), r2)"
    and s: "settle_card crd Accepted reviewer (w\<lparr>cw_base := (cw_base w)\<lparr>dw_reg := r2\<rparr>\<rparr>) = (Inr n, w')"
    by (auto simp: confirm_install_ceiling_def bindM_run require_card_run [OF inv] thenM_run on_base_def
        on_reg_def zoom_run split: sum.splits prod.splits if_splits)
  let ?w = "w\<lparr>cw_base := (cw_base w)\<lparr>dw_reg := r2\<rparr>\<rparr>"
  have inv1: "cards_inv ?w" and at1: "card_at ?w ws i = Some crd"
    using inv at by (simp_all add: cards_inv_def card_at_def)
  note st = settle_card_result [OF inv1 at1 refl refl s]
  have again: "confirm_install_ceiling env ws i other subj' w' =
        (Inl (ServiceError (''Card '' @ i @ '' is accepted'') 409), w')"
    using ok by (auto simp: confirm_install_ceiling_def bindM_run require_card_run [OF st(4)] st(2)
        st(1) card_settled_def)
  have gs: "?gs = map (\<lambda>row. \<lparr>ng_subject = (case subj of None \<Rightarrow> UserSubject reviewer | Some s \<Rightarrow> s),
             ng_capability = pp_capability row, ng_pattern = None,
             ng_level = (case pp_level row of None \<Rightarrow> ''workspace-token'' | Some l \<Rightarrow> l), ng_by = reviewer\<rparr>)
          (filter (\<lambda>row. pp_flag row = None) (case cc_proposals crd of None \<Rightarrow> [] | Some ps \<Rightarrow> ps))"
    by (simp add: ceiling_grants_def ceiling_grant_def)
  have "iterM ?gs (rg_create_grant env ws) r1 = (Inr (), dw_reg (cw_base w'))"
    using g st(3) by simp
  moreover have "cc_state n = Accepted" by (simp add: st(1))
  ultimately show ?thesis
    using at ok o st(2) again unfolding gs by blast
qed

section \<open>A concrete card\<close>

definition demo_card :: capability_card where
  "demo_card = (new_card ''c1'' InstallCard ''w'' ''ann'' 0)\<lparr>cc_proposals := Some
     [\<lparr>pp_capability = ''github.*'', pp_effect = Action, pp_flag = None, pp_level = None\<rparr>,
      \<lparr>pp_capability = ''slack.*'', pp_effect = Action, pp_flag = Some Unused, pp_level = None\<rparr>]\<rparr>"

definition demo_jit :: capability_card where
  "demo_jit = (new_card ''j1'' JitCard ''w'' ''ann'' 0)
     \<lparr>cc_request := Some (demo_request\<lparr>dr_resource := None\<rparr>)\<rparr>"

definition demo_policy :: always_ask_policy where
  "demo_policy = \<lparr>ap_app = ''board'', ap_declared = [''github.*''], ap_added = [''slack.*'']\<rparr>"

definition demo_cards :: "grant_row list card_world" where
  "demo_cards = \<lparr>cw_base = demo_dworld 5,
     cw_cards = doc_db demo_card [((''w'', CARDS_SCOPE, ''c1''), demo_card), ((''w'', CARDS_SCOPE, ''j1''), demo_jit)],
     cw_policies = doc_db demo_policy [((''w'', ALWAYS_ASK_SCOPE, ''board''), demo_policy)],
     cw_drafts = doc_db undefined []\<rparr>"

lemma demo_card_at: "card_at demo_cards ws i = (if ws = ''w'' \<and> i = ''c1'' then Some demo_card
    else if ws = ''w'' \<and> i = ''j1'' then Some demo_jit else None)"
  by (simp add: card_at_def demo_cards_def doc_db_at)

lemma demo_cards_inv: "cards_inv demo_cards"
proof -
  have "doc_ok (cw_cards demo_cards)" by (simp add: demo_cards_def doc_db_ok)
  then show ?thesis
    unfolding cards_inv_def demo_card_at by (auto simp: demo_card_def demo_jit_def new_card_def split: if_splits)
qed

lemma settle_total:
  assumes "\<And>v. storable (cw_cards w) v"
  shows "\<exists>w'. settle_card c st u w = (Inr (c\<lparr>cc_state := st, cc_resolution := Some \<lparr>ca_by = u, ca_at = cw_now w\<rparr>\<rparr>), w')"
proof -
  let ?n = "c\<lparr>cc_state := st, cc_resolution := Some \<lparr>ca_by = u, ca_at = cw_now w\<rparr>\<rparr>"
  obtain q where "write_svc_record (cw_now w) (cc_ws c) CARDS_SCOPE (cc_id c) ?n (cc_invoker c) (cw_cards w) = (Inr (), q)"
    using write_svc_total [OF assms] by blast
  then show ?thesis
    by (simp add: settle_card_def bindM_run thenM_run Let_def save_card_def on_cards_def zoom_run)
qed

lemma demo_registry_run [simp]:
  "open_tenant demo_registry ws r = (Inr (), r)" "rg_create_grant demo_registry ws g r = (Inr (), r @ [row_of g])"
  by (simp_all add: open_tenant_def demo_registry_def thenM_run)

theorem confirm_grants_clean_rows_witness:
  "\<exists>n w'. confirm_install_ceiling demo_registry ''w'' ''c1'' ''root'' None demo_cards = (Inr n, w')
    \<and> map gr_capability (dw_reg (cw_base w')) = [''github.*''] \<and> cc_state n = Accepted"
proof -
  have st: "\<And>v. storable (cw_cards (demo_cards\<lparr>cw_base := b\<rparr>)) v" for b by (simp add: demo_cards_def)
  have reg: "dw_reg (cw_base demo_cards) = []" by (simp add: demo_cards_def demo_dworld_def)
  have at: "card_at demo_cards ''w'' ''c1'' = Some demo_card" by (simp add: demo_card_at)
  have kind: "cc_kind demo_card = InstallCard" "cc_blocked demo_card = False" "cc_state demo_card = Pending"
    "cc_proposals demo_card = Some
       [\<lparr>pp_capability = ''github.*'', pp_effect = Action, pp_flag = None, pp_level = None\<rparr>,
        \<lparr>pp_capability = ''slack.*'', pp_effect = Action, pp_flag = Some Unused, pp_level = None\<rparr>]"
    by (simp_all add: demo_card_def new_card_def)
  obtain n w' where c: "confirm_install_ceiling demo_registry ''w'' ''c1'' ''root'' None demo_cards = (Inr n, w')"
    using settle_total [OF st, where c = demo_card and st = Accepted and u = "''root''"]
    by (fastforce simp: confirm_install_ceiling_def bindM_run thenM_run require_card_run [OF demo_cards_inv] at
        kind on_base_def on_reg_def zoom_run ceiling_grants_def)
  from confirm_grants_clean_rows [OF demo_cards_inv c] obtain crd r1
    where crd: "card_at demo_cards ''w'' ''c1'' = Some crd"
      and o: "open_tenant demo_registry ''w'' (dw_reg (cw_base demo_cards)) = (Inr (), r1)"
      and g: "iterM (map (\<lambda>row. \<lparr>ng_subject = (case None of None \<Rightarrow> UserSubject ''root'' | Some s \<Rightarrow> s),
             ng_capability = pp_capability row, ng_pattern = None,
             ng_level = (case pp_level row of None \<Rightarrow> ''workspace-token'' | Some l \<Rightarrow> l), ng_by = ''root''\<rparr>)
          (filter (\<lambda>row. pp_flag row = None) (case cc_proposals crd of None \<Rightarrow> [] | Some ps \<Rightarrow> ps)))
        (rg_create_grant demo_registry ''w'') r1 = (Inr (), dw_reg (cw_base w'))"
      and n: "cc_state n = Accepted" by blast
  from crd at have "crd = demo_card" by simp
  with g o reg have "map gr_capability (dw_reg (cw_base w')) = [''github.*'']"
    by (simp add: kind bindM_run) (drule sym, simp)
  with c n show ?thesis by (intro exI conjI)
qed

section \<open>Settled cards\<close>

text \<open>A card that is not pending stays as it is: confirming, accepting, declining or answering
  it is refused and changes nothing at all, neither cards nor grants nor the queue.\<close>

theorem settled_cards_final:
  assumes inv: "cards_inv w" and at: "card_at w ws i = Some c" and st: "cc_state c \<noteq> Pending"
  shows "(\<exists>e. confirm_install_ceiling env ws i u subj w = (Inl e, w))
    \<and> (\<exists>e. accept_jit_card env ws i u opt resume w = (Inl e, w))
    \<and> (\<exists>e. decline_jit_card ws i u w = (Inl e, w))
    \<and> (\<exists>e. answer_ask_card ws i u answer w = (Inl e, w))"
  using st
  by (simp add: confirm_install_ceiling_def accept_jit_card_def decline_jit_card_def answer_ask_card_def
      bindM_run require_card_run [OF inv] at)

theorem settled_cards_final_witness:
  "\<exists>w n. decline_jit_card ''w'' ''j1'' ''u'' demo_cards = (Inr n, w)
    \<and> (\<exists>e. accept_jit_card demo_registry ''w'' ''j1'' ''u'' None None w = (Inl e, w))"
proof -
  have st: "\<And>v. storable (cw_cards demo_cards) v" by (simp add: demo_cards_def)
  have at: "card_at demo_cards ''w'' ''j1'' = Some demo_jit" by (simp add: demo_card_at)
  obtain n w where s: "settle_card demo_jit Declined ''u'' demo_cards = (Inr n, w)"
    using settle_total [OF st] by blast
  have d: "decline_jit_card ''w'' ''j1'' ''u'' demo_cards = (Inr n, w)"
    using s by (simp add: decline_jit_card_def bindM_run require_card_run [OF demo_cards_inv] at)
      (simp add: demo_jit_def new_card_def)
  note r = settle_card_result [OF demo_cards_inv at refl refl s]
  have "cc_state n \<noteq> Pending" by (simp add: r(1))
  from settled_cards_final [OF r(4,2) this] d show ?thesis by blast
qed

section \<open>Accepting a card raised during a run\<close>

text \<open>Accepting a card for a capability miss without a pattern to remember, whether the option
  is absent or null, is not an allow-once: for a request that names no resource it executes
  and releases nothing, and writes a standing grant of the capability on any resource.\<close>

theorem accept_without_pattern_is_standing:
  assumes inv: "cards_inv w" and at: "card_at w ws i = Some c" and kind: "cc_kind c = JitCard"
    and plain: "\<not> cc_always c" "cc_queued c = None" and req: "cc_request c = Some req" "dr_resource req = None"
    and opt: "opt \<in> {None, Some None}"
    and acc: "accept_jit_card env ws i u opt None w = (Inr (n, released), w')"
  shows "released = [] \<and> dw_executed (cw_base w') = dw_executed (cw_base w)
    \<and> (\<exists>r1 g. open_tenant env ws (dw_reg (cw_base w)) = (Inr (), r1)
      \<and> rg_create_grant env ws g r1 = (Inr (), dw_reg (cw_base w'))
      \<and> ng_capability g = req_capability req \<and> ng_pattern g = None \<and> ng_subject g = remember_subject req)
    \<and> cc_state n = Accepted \<and> card_at w' ws i = Some n"
proof -
  have rem: "jit_remember req opt = None" using opt req(2) by (auto simp: jit_remember_def)
  from acc have pend: "cc_state c = Pending"
    by (auto simp: accept_jit_card_def bindM_run require_card_run [OF inv] at kind split: if_splits)
  from acc obtain r1 r2 where o: "open_tenant env ws (dw_reg (cw_base w)) = (Inr (), r1)"
    and g: "rg_create_grant env ws (remembered_grant req None u) r1 = (Inr (), r2)"
    and s: "settle_card c Accepted u (w\<lparr>cw_base := (cw_base w)\<lparr>dw_reg := r2\<rparr>\<rparr>) = (Inr n, w')"
    and rel: "released = []"
    by (auto simp: accept_jit_card_def bindM_run require_card_run [OF inv] at kind pend plain req rem Let_def
        thenM_run on_base_def on_reg_def zoom_run split: sum.splits prod.splits option.splits)
  let ?w = "w\<lparr>cw_base := (cw_base w)\<lparr>dw_reg := r2\<rparr>\<rparr>"
  have inv1: "cards_inv ?w" and at1: "card_at ?w ws i = Some c"
    using inv at by (simp_all add: cards_inv_def card_at_def)
  note st = settle_card_result [OF inv1 at1 refl refl s]
  have "rg_create_grant env ws (remembered_grant req None u) r1 = (Inr (), dw_reg (cw_base w'))"
    using g st(3) by simp
  moreover have "ng_capability (remembered_grant req None u) = req_capability req"
    "ng_pattern (remembered_grant req None u) = None" "ng_subject (remembered_grant req None u) = remember_subject req"
    by (simp_all add: remembered_grant_def)
  ultimately have "\<exists>r1 g. open_tenant env ws (dw_reg (cw_base w)) = (Inr (), r1)
      \<and> rg_create_grant env ws g r1 = (Inr (), dw_reg (cw_base w'))
      \<and> ng_capability g = req_capability req \<and> ng_pattern g = None \<and> ng_subject g = remember_subject req"
    using o by blast
  moreover have "dw_executed (cw_base w') = dw_executed (cw_base w)" by (simp add: st(3))
  moreover have "cc_state n = Accepted" by (simp add: st(1))
  ultimately show ?thesis using rel st(2) by blast
qed

theorem accept_without_pattern_is_standing_witness:
  "\<exists>n rel w'. accept_jit_card demo_registry ''w'' ''j1'' ''u'' (Some None) None demo_cards = (Inr (n, rel), w')
    \<and> rel = [] \<and> cc_state n = Accepted"
proof -
  have st: "\<And>v. storable (cw_cards (demo_cards\<lparr>cw_base := b\<rparr>)) v" for b by (simp add: demo_cards_def)
  have at: "card_at demo_cards ''w'' ''j1'' = Some demo_jit" by (simp add: demo_card_at)
  have kind: "cc_kind demo_jit = JitCard" "\<not> cc_always demo_jit" "cc_queued demo_jit = None"
    "cc_request demo_jit = Some (demo_request\<lparr>dr_resource := None\<rparr>)"
    "dr_resource (demo_request\<lparr>dr_resource := None\<rparr>) = None" "cc_state demo_jit = Pending"
    by (simp_all add: demo_jit_def new_card_def)
  let ?b = "(cw_base demo_cards)\<lparr>dw_reg := dw_reg (cw_base demo_cards) @
      [row_of (remembered_grant (demo_request\<lparr>dr_resource := None\<rparr>) None ''u'')]\<rparr>"
  obtain m w' where "settle_card demo_jit Accepted ''u'' (demo_cards\<lparr>cw_base := ?b\<rparr>) = (Inr m, w')"
    using settle_total [where w = "demo_cards\<lparr>cw_base := ?b\<rparr>" and c = demo_jit and st = Accepted
        and u = "''u''", OF st] by blast
  then have a: "accept_jit_card demo_registry ''w'' ''j1'' ''u'' (Some None) None demo_cards = (Inr (m, []), w')"
    by (simp add: accept_jit_card_def bindM_run thenM_run require_card_run [OF demo_cards_inv] at kind
        jit_remember_def Let_def on_base_def on_reg_def zoom_run split: option.split)
  from accept_without_pattern_is_standing [OF demo_cards_inv at kind(1-5) _ a] a show ?thesis by blast
qed

section \<open>Classes that always ask\<close>

definition policy_at :: "'r card_world \<Rightarrow> string \<Rightarrow> string \<Rightarrow> always_ask_policy" where
  "policy_at w ws app =
     (case doc_at (cw_policies w) ws ALWAYS_ASK_SCOPE app of
        Some p \<Rightarrow> p | None \<Rightarrow> \<lparr>ap_app = app, ap_declared = [], ap_added = []\<rparr>)"

lemma load_policy_run: "doc_ok (cw_policies w) \<Longrightarrow> load_always_ask ws app w = (Inr (policy_at w ws app), w)"
  by (simp add: load_always_ask_def bindM_run catchM_run read_doc policy_at_def)

text \<open>A workspace can only tighten what an app declared: an update that leaves out a declared
  class is refused and changes nothing; an accepted one makes exactly the listed classes (and
  the capabilities of their namespaces) ask, every declared class among them, and keeps the
  declaration itself.\<close>

theorem workspace_only_tightens:
  assumes ok: "doc_ok (cw_policies w)" and a: "ws_ok (cw_policies w) ws" and app: "app \<noteq> []"
    and s: "set_workspace_always_ask ws app classes w = (res, w')"
  shows "case res of
      Inl e \<Rightarrow> w' = w \<and> (\<not> set (ap_declared (policy_at w ws app)) \<subseteq> set classes \<or> (\<exists>p. \<not> storable (cw_policies w) p))
    | Inr p \<Rightarrow> set (ap_declared (policy_at w ws app)) \<subseteq> set classes
        \<and> ap_declared (policy_at w' ws app) = ap_declared (policy_at w ws app)
        \<and> is_always_ask ws (Some app) capability w' =
            (Inr (capability \<in> set classes \<or> capability_namespace capability @ ''.*'' \<in> set classes), w')"
proof (cases "filter (\<lambda>d. d \<notin> set classes) (ap_declared (policy_at w ws app))")
  case (Cons d ds)
  then have "d \<in> set (filter (\<lambda>d. d \<notin> set classes) (ap_declared (policy_at w ws app)))" by simp
  then have "d \<in> set (ap_declared (policy_at w ws app))" "d \<notin> set classes" by simp_all
  with s Cons show ?thesis
    by (auto simp: set_workspace_always_ask_def bindM_run load_policy_run [OF ok])
next
  case Nil
  let ?cur = "policy_at w ws app"
  let ?n = "?cur\<lparr>ap_added := filter (\<lambda>c. c \<notin> set (ap_declared ?cur)) classes\<rparr>"
  have sub: "set (ap_declared ?cur) \<subseteq> set classes" using Nil by (auto simp: filter_empty_conv)
  have run: "set_workspace_always_ask ws app classes w = write_policy ws app ?n w"
    by (simp add: set_workspace_always_ask_def bindM_run load_policy_run [OF ok] Nil)
  have addr: "addr_ok (cw_policies w) (ws, ALWAYS_ASK_SCOPE, app)"
    by (rule addr_ok_ws [OF a]) (simp add: ALWAYS_ASK_SCOPE_def svc_scope_def SVC_SCOPE_PREFIX_def)
  show ?thesis
  proof (rule write_doc_cases [OF ok addr, where now = "cw_now w" and v = ?n and u = SVC_SYSTEM_USER])
    fix e assume "write_svc_record (cw_now w) ws ALWAYS_ASK_SCOPE app ?n SVC_SYSTEM_USER (cw_policies w)
        = (Inl e, cw_policies w)" and "\<not> storable (cw_policies w) ?n"
    with s run show ?thesis by (auto simp: write_policy_def bindM_run thenM_run on_policies_def zoom_run)
  next
    fix q assume w: "write_svc_record (cw_now w) ws ALWAYS_ASK_SCOPE app ?n SVC_SYSTEM_USER (cw_policies w)
        = (Inr (), q)" and q: "doc_ok q"
      and at: "\<And>ws' s' k'. doc_at q ws' s' k' = (if ws' = ws \<and> s' = ALWAYS_ASK_SCOPE \<and> k' = app
          then Some ?n else doc_at (cw_policies w) ws' s' k')"
    from s run w have res: "res = Inr ?n" and w': "w' = w\<lparr>cw_policies := q\<rparr>"
      by (auto simp: write_policy_def bindM_run thenM_run on_policies_def zoom_run)
    have p: "policy_at w' ws app = ?n" by (simp add: policy_at_def w' at)
    have "doc_ok (cw_policies w')" by (simp add: w' q)
    note l = load_policy_run [OF this, of ws app]
    have "is_always_ask ws (Some app) capability w' =
        (Inr (capability \<in> set classes \<or> capability_namespace capability @ ''.*'' \<in> set classes), w')"
      using sub app by (auto simp: is_always_ask_def some_text_def truthy_def bindM_run l p Let_def)
    with res p sub show ?thesis by simp
  qed
qed

theorem workspace_only_tightens_witness:
  "\<exists>e. set_workspace_always_ask ''w'' ''board'' [''slack.*''] demo_cards = (Inl e, demo_cards)"
proof -
  have ok: "doc_ok (cw_policies demo_cards)" and a: "ws_ok (cw_policies demo_cards) ''w''"
    and p: "policy_at demo_cards ''w'' ''board'' = demo_policy" and st: "\<And>p. storable (cw_policies demo_cards) p"
    by (simp_all add: demo_cards_def doc_db_ok ws_ok_addr policy_at_def doc_db_at)
  obtain res w' where s: "set_workspace_always_ask ''w'' ''board'' [''slack.*''] demo_cards = (res, w')"
    by (cases "set_workspace_always_ask ''w'' ''board'' [''slack.*''] demo_cards")
  have d: "ap_declared demo_policy = [''github.*'']" by (simp add: demo_policy_def)
  from workspace_only_tightens [OF ok a _ s] s show ?thesis by (cases res) (auto simp: p d)
qed

end
