(* ===== verification/Derived_Authority.thy ===== *)
theory Derived_Authority
  imports Queue_Properties
begin

text \<open>
  \<^verbatim>\<open>server/workspace/src/derived-authority.ts\<close>: standing automations hold their owner's identity
  and no grants; every dispatch resolves the owner's standing anew, a departed owner's
  automations are deactivated, and only an administrator's reassignment revives one. The
  process-local map and set are association list and list; the cache invalidator is a log.
\<close>

section \<open>State\<close>

datatype automation_kind = WorkflowAutomation | ScheduleAutomation | AgentProfileAutomation

datatype automation_status = ActiveAutomation | Deactivated

record automation =
  sa_id :: string
  sa_ws :: string
  sa_kind :: automation_kind
  sa_name :: string
  sa_owner :: string
  sa_status :: automation_status
  sa_reason :: "string option"
  sa_stopped_at :: "int option"
  sa_created :: int
  sa_updated :: int

datatype automation_result = Decided decision | Skipped

record 'r auto_world =
  az_base :: "'r dworld"
  az_autos :: "(string \<times> automation) list"
  az_departed :: "string list"
  az_invalidated :: "string list"

definition OWNER_DEPARTED_REASON :: string where
  "OWNER_DEPARTED_REASON = ''owner departed''"

definition automation_key :: "string \<Rightarrow> string \<Rightarrow> string" where
  "automation_key ws i = ws @ '':'' @ i"

definition departed_key :: "string \<Rightarrow> string \<Rightarrow> string" where
  "departed_key ws user = ws @ '':'' @ user"

definition on_dispatch :: "('r dworld, 'a) prog \<Rightarrow> ('r auto_world, 'a) prog" where
  "on_dispatch = zoom az_base (\<lambda>b w. w\<lparr>az_base := b\<rparr>)"

section \<open>Operations\<close>

definition register_standing_automation ::
  "'r registry \<Rightarrow> string \<Rightarrow> automation_kind \<Rightarrow> string \<Rightarrow> string \<Rightarrow> string option
     \<Rightarrow> ('r auto_world, automation) prog" where
  "register_standing_automation env ws kind name owner given =
     bindM (case given of Some i \<Rightarrow> ret i | None \<Rightarrow> on_dispatch (random_uuid env)) (\<lambda>i.
     bindM (gets (\<lambda>w. w)) (\<lambda>w.
     let now = dw_now (az_base w);
         existing = map_of (az_autos w) (automation_key ws i);
         rec = \<lparr>sa_id = i, sa_ws = ws, sa_kind = kind, sa_name = name, sa_owner = owner,
                sa_status = (case existing of None \<Rightarrow> ActiveAutomation | Some e \<Rightarrow> sa_status e),
                sa_reason = Option.bind existing sa_reason,
                sa_stopped_at = Option.bind existing sa_stopped_at,
                sa_created = (case existing of None \<Rightarrow> now | Some e \<Rightarrow> sa_created e),
                sa_updated = now\<rparr>
     in thenM (modifyM (\<lambda>w. w\<lparr>az_autos := AList.update (automation_key ws i) rec (az_autos w)\<rparr>))
          (ret rec)))"

definition get_standing_automation :: "'r auto_world \<Rightarrow> string \<Rightarrow> string \<Rightarrow> automation option" where
  "get_standing_automation w ws i = map_of (az_autos w) (automation_key ws i)"

definition list_standing_automations ::
  "'r auto_world \<Rightarrow> string \<Rightarrow> string option \<Rightarrow> automation_status option \<Rightarrow> automation list" where
  "list_standing_automations w ws owner st =
     filter (\<lambda>r. sa_ws r = ws \<and> (owner \<noteq> None \<longrightarrow> Some (sa_owner r) = owner)
               \<and> (st \<noteq> None \<longrightarrow> Some (sa_status r) = st)) (map snd (az_autos w))"

definition user_level_resolvable :: "'r auto_world \<Rightarrow> string \<Rightarrow> string \<Rightarrow> bool" where
  "user_level_resolvable w ws user \<longleftrightarrow> departed_key ws user \<notin> set (az_departed w)"

definition can_run_standing_automation :: "'r auto_world \<Rightarrow> string \<Rightarrow> string \<Rightarrow> bool" where
  "can_run_standing_automation w ws i =
     (case map_of (az_autos w) (automation_key ws i) of None \<Rightarrow> False | Some r \<Rightarrow> sa_status r = ActiveAutomation)"

record automation_call =
  ac_ws :: string
  ac_automation :: string
  ac_tool :: tool_ref
  ac_resource :: "string option"
  ac_credential :: "credential_ref option"
  ac_via :: "via option"
  ac_run :: "run_ctx option"
  ac_groups :: "string list option"
  ac_role :: "string option"

definition automation_request :: "automation_call \<Rightarrow> string \<Rightarrow> dispatch_request" where
  "automation_request c owner =
     \<lparr>dr_principal = \<lparr>pr_sub = owner, pr_ws = ac_ws c,
        pr_role = (case ac_role c of None \<Rightarrow> ''member'' | Some r \<Rightarrow> r),
        pr_groups = (case ac_groups c of None \<Rightarrow> [] | Some g \<Rightarrow> g)\<rparr>,
      dr_via = ac_via c, dr_tool = ac_tool c, dr_resource = ac_resource c,
      dr_credential = ac_credential c, dr_run = ac_run c\<rparr>"

definition not_found :: "string \<Rightarrow> svc_error" where
  "not_found i = ServiceError (''Standing automation '' @ i @ '' not found'') 404"

definition resolve_automation_dispatch ::
  "'r registry \<Rightarrow> automation_call \<Rightarrow> eval_options \<Rightarrow> ('r auto_world, automation_result) prog" where
  "resolve_automation_dispatch env c opts =
     bindM (gets (\<lambda>w. w)) (\<lambda>w.
     case map_of (az_autos w) (automation_key (ac_ws c) (ac_automation c)) of
       None \<Rightarrow> throw (not_found (ac_automation c))
     | Some r \<Rightarrow>
         if sa_status r \<noteq> ActiveAutomation then ret Skipped
         else if map_option cr_level (ac_credential c) = Some ''user-oauth''
                 \<and> \<not> user_level_resolvable w (ac_ws c) (sa_owner r)
         then ret (Decided (Deny DenyUnconnected))
         else bindM (on_dispatch (evaluate_dispatch env (automation_request c (sa_owner r)) opts)) (\<lambda>d.
              ret (Decided d)))"

definition departed_record :: "int \<Rightarrow> automation \<Rightarrow> automation" where
  "departed_record now r =
     r\<lparr>sa_status := Deactivated, sa_reason := Some OWNER_DEPARTED_REASON,
       sa_stopped_at := Some now, sa_updated := now\<rparr>"

definition depart_one :: "int \<Rightarrow> string \<Rightarrow> string \<Rightarrow> automation \<Rightarrow> automation" where
  "depart_one now ws user r =
     (if sa_ws r \<noteq> ws \<or> sa_owner r \<noteq> user then r
      else if sa_status r = Deactivated \<and> sa_reason r = Some OWNER_DEPARTED_REASON then r
      else departed_record now r)"

definition on_membership_departure :: "string \<Rightarrow> string \<Rightarrow> ('r auto_world, automation list) prog" where
  "on_membership_departure ws user w =
     (let autos = map (\<lambda>(k, r). (k, depart_one (dw_now (az_base w)) ws user r)) (az_autos w)
      in (Inr (filter (\<lambda>r. sa_ws r = ws \<and> sa_owner r = user) (map snd autos)),
          w\<lparr>az_departed := set_add (departed_key ws user) (az_departed w), az_autos := autos\<rparr>))"

definition reassign_automation ::
  "string \<Rightarrow> string \<Rightarrow> string \<Rightarrow> principal \<Rightarrow> ('r auto_world, automation) prog" where
  "reassign_automation ws i newOwner actor =
     (if pr_role actor \<noteq> ''admin''
      then throw (ServiceError ''Only workspace admins can reassign standing automations'' 403)
      else if pr_ws actor \<noteq> ws
      then throw (ServiceError (''Admin must act within the automation'' @ [CHR 0x27] @ ''s workspace'') 403)
      else bindM (gets (\<lambda>w. w)) (\<lambda>w.
        case map_of (az_autos w) (automation_key ws i) of
          None \<Rightarrow> throw (not_found i)
        | Some r \<Rightarrow>
            let n = \<lparr>sa_id = sa_id r, sa_ws = sa_ws r, sa_kind = sa_kind r, sa_name = sa_name r,
                     sa_owner = newOwner, sa_status = ActiveAutomation, sa_reason = None,
                     sa_stopped_at = None, sa_created = sa_created r, sa_updated = dw_now (az_base w)\<rparr>
            in thenM (modifyM (\<lambda>w. w\<lparr>az_autos := AList.update (automation_key ws i) n (az_autos w)\<rparr>))
                 (ret n)))"

definition on_grant_revoked :: "string \<Rightarrow> ('r auto_world, unit) prog" where
  "on_grant_revoked ws = modifyM (\<lambda>w. w\<lparr>az_invalidated := az_invalidated w @ [ws]\<rparr>)"

definition on_credential_revoked :: "string \<Rightarrow> ('r auto_world, unit) prog" where
  "on_credential_revoked ws = modifyM (\<lambda>w. w\<lparr>az_invalidated := az_invalidated w @ [ws]\<rparr>)"

section \<open>Departure\<close>

lemma map_of_map_value: "map_of (map (\<lambda>(k, r). (k, f r)) m) k = map_option f (map_of m k)"
  by (induction m) auto

lemma depart_one_status:
  "sa_ws r = ws \<Longrightarrow> sa_owner r = user \<Longrightarrow> sa_status (depart_one now ws user r) = Deactivated"
  "sa_status r = Deactivated \<Longrightarrow> sa_status (depart_one now ws user r) = Deactivated"
  by (simp_all add: depart_one_def departed_record_def)

text \<open>When a member departs, every automation they own in the workspace is stopped at once:
  it can no longer run and a dispatch for it is skipped before any grant is read; automations
  of other owners and other workspaces are unchanged, and the departed user's own credentials
  no longer resolve there.\<close>

theorem departure_stops_automations:
  assumes at: "map_of (az_autos w) (automation_key ws i) = Some r"
    and own: "sa_ws r = ws'" "sa_owner r = user'"
    and dep: "on_membership_departure ws user w = (res, w')"
  shows "\<not> user_level_resolvable w' ws user
    \<and> (if ws' = ws \<and> user' = user
       then \<not> can_run_standing_automation w' ws i
         \<and> resolve_automation_dispatch env (c\<lparr>ac_ws := ws, ac_automation := i\<rparr>) opts w' = (Inr Skipped, w')
       else get_standing_automation w' ws i = Some r)
    \<and> az_base w' = az_base w"
proof -
  have w': "w' = w\<lparr>az_departed := set_add (departed_key ws user) (az_departed w),
      az_autos := map (\<lambda>(k, r). (k, depart_one (dw_now (az_base w)) ws user r)) (az_autos w)\<rparr>"
    using dep by (simp add: on_membership_departure_def Let_def)
  have at': "map_of (az_autos w') (automation_key ws i) = Some (depart_one (dw_now (az_base w)) ws user r)"
    by (simp add: w' map_of_map_value at)
  have "user_level_resolvable w' ws user = False" by (simp add: w' user_level_resolvable_def)
  moreover have "az_base w' = az_base w" by (simp add: w')
  moreover have "if ws' = ws \<and> user' = user
       then \<not> can_run_standing_automation w' ws i
         \<and> resolve_automation_dispatch env (c\<lparr>ac_ws := ws, ac_automation := i\<rparr>) opts w' = (Inr Skipped, w')
       else get_standing_automation w' ws i = Some r"
  proof (cases "ws' = ws \<and> user' = user")
    case True
    with own have "sa_status (depart_one (dw_now (az_base w)) ws user r) = Deactivated"
      by (simp add: depart_one_status)
    with True at' show ?thesis
      by (simp add: can_run_standing_automation_def resolve_automation_dispatch_def bindM_run)
  next
    case False
    with own at' show ?thesis by (auto simp: get_standing_automation_def depart_one_def)
  qed
  ultimately show ?thesis by blast
qed

definition demo_automation :: automation where
  "demo_automation = \<lparr>sa_id = ''a1'', sa_ws = ''w'', sa_kind = ScheduleAutomation, sa_name = ''nightly'',
     sa_owner = ''ann'', sa_status = ActiveAutomation, sa_reason = None, sa_stopped_at = None,
     sa_created = 0, sa_updated = 0\<rparr>"

definition demo_autos :: "grant_row list auto_world" where
  "demo_autos = \<lparr>az_base = demo_dworld 5, az_autos = [(automation_key ''w'' ''a1'', demo_automation)],
     az_departed = [], az_invalidated = []\<rparr>"

definition demo_call :: automation_call where
  "demo_call = \<lparr>ac_ws = ''w'', ac_automation = ''a1'', ac_tool = dr_tool demo_request, ac_resource = None,
     ac_credential = Some \<lparr>cr_level = ''user-oauth'', cr_id = ''k''\<rparr>, ac_via = None, ac_run = None,
     ac_groups = None, ac_role = Some ''admin''\<rparr>"

lemma demo_auto_at: "map_of (az_autos demo_autos) (automation_key ''w'' ''a1'') = Some demo_automation"
  by (simp add: demo_autos_def)

lemma demo_call_keys [simp]: "demo_call\<lparr>ac_ws := ''w'', ac_automation := ''a1''\<rparr> = demo_call"
  by (simp add: demo_call_def)

theorem departure_stops_automations_witness:
  "can_run_standing_automation demo_autos ''w'' ''a1'' \<and>
   (\<exists>ds w'. on_membership_departure ''w'' ''ann'' demo_autos = (Inr ds, w')
     \<and> \<not> can_run_standing_automation w' ''w'' ''a1''
     \<and> resolve_automation_dispatch demo_registry demo_call no_options w' = (Inr Skipped, w'))"
proof -
  have own: "sa_ws demo_automation = ''w''" "sa_owner demo_automation = ''ann''"
    and act: "can_run_standing_automation demo_autos ''w'' ''a1''"
    by (simp_all add: demo_automation_def can_run_standing_automation_def demo_auto_at)
  obtain ds w' where d: "on_membership_departure ''w'' ''ann'' demo_autos = (Inr ds, w')"
    by (simp add: on_membership_departure_def Let_def)
  from departure_stops_automations [OF demo_auto_at own d, of demo_registry demo_call no_options] d act
  show ?thesis by auto
qed

section \<open>Sequences of operations\<close>

inductive auto_step :: "'r registry \<Rightarrow> 'r auto_world \<Rightarrow> 'r auto_world \<Rightarrow> bool" for env :: "'r registry" where
  auto_register: "auto_step env w (snd (register_standing_automation env ws kind name owner given w))"
| auto_depart: "auto_step env w (snd (on_membership_departure ws user w))"
| auto_reassign: "auto_step env w (snd (reassign_automation ws i newOwner actor w))"
| auto_resolve: "auto_step env w (snd (resolve_automation_dispatch env c opts w))"
| auto_revoked: "auto_step env w (snd (on_grant_revoked ws w))"
| auto_other: "auto_step env w (w\<lparr>az_base := b\<rparr>)"

inductive_cases auto_stepE: "auto_step env w w'"

text \<open>The same steps without a successful reassignment of one automation.\<close>

inductive auto_step_not :: "string \<Rightarrow> 'r registry \<Rightarrow> 'r auto_world \<Rightarrow> 'r auto_world \<Rightarrow> bool"
  for key :: string and env :: "'r registry" where
  not_register: "auto_step_not key env w (snd (register_standing_automation env ws kind name owner given w))"
| not_depart: "auto_step_not key env w (snd (on_membership_departure ws user w))"
| not_reassign: "automation_key ws i \<noteq> key \<or> pr_role actor \<noteq> ''admin'' \<or> pr_ws actor \<noteq> ws \<Longrightarrow>
    auto_step_not key env w (snd (reassign_automation ws i newOwner actor w))"
| not_resolve: "auto_step_not key env w (snd (resolve_automation_dispatch env c opts w))"
| not_revoked: "auto_step_not key env w (snd (on_grant_revoked ws w))"
| not_other: "auto_step_not key env w (w\<lparr>az_base := b\<rparr>)"

definition stopped :: "string \<Rightarrow> 'r auto_world \<Rightarrow> bool" where
  "stopped key w \<longleftrightarrow> (\<exists>r. map_of (az_autos w) key = Some r \<and> sa_status r = Deactivated)"

lemma resolve_keeps: "az_autos (snd (resolve_automation_dispatch env c opts w)) = az_autos w"
  "az_departed (snd (resolve_automation_dispatch env c opts w)) = az_departed w"
  by (auto simp: resolve_automation_dispatch_def bindM_run on_dispatch_def zoom_run
      split: option.splits sum.splits prod.splits)

lemma register_effect:
  "\<exists>i rec. az_autos (snd (register_standing_automation env ws kind name owner given w))
      = AList.update (automation_key ws i) rec (az_autos w)
    \<and> (\<forall>e. map_of (az_autos w) (automation_key ws i) = Some e \<longrightarrow> sa_status rec = sa_status e)
    \<and> az_departed (snd (register_standing_automation env ws kind name owner given w)) = az_departed w"
proof -
  obtain i w1 where i: "(case given of Some i \<Rightarrow> ret i | None \<Rightarrow> on_dispatch (random_uuid env)) w = (Inr i, w1)"
    and w1: "az_autos w1 = az_autos w" "az_departed w1 = az_departed w"
    by (cases given) (auto simp: on_dispatch_def zoom_run random_uuid_def)
  show ?thesis
    by (rule exI [of _ i], cases "map_of (az_autos w) (automation_key ws i)")
      (auto simp: register_standing_automation_def bindM_run i thenM_run Let_def w1)
qed

lemma stopped_step:
  assumes "auto_step_not key env w w'" and "stopped key w"
  shows "stopped key w'"
  using assms(1)
proof cases
  case (not_register ws kind name owner given)
  from register_effect [of env ws kind name owner given w] assms(2) not_register
  show ?thesis by (fastforce simp: stopped_def)
next
  case (not_depart ws user)
  with assms(2) show ?thesis
    by (auto simp: stopped_def on_membership_departure_def Let_def map_of_map_value depart_one_status(2))
next
  case (not_reassign ws i actor newOwner)
  with assms(2) show ?thesis
    by (auto simp: stopped_def reassign_automation_def bindM_run thenM_run Let_def split: option.splits)
next
  case (not_resolve c opts)
  with assms(2) show ?thesis by (simp add: stopped_def resolve_keeps)
next
  case (not_revoked ws)
  with assms(2) show ?thesis by (simp add: stopped_def on_grant_revoked_def)
next
  case (not_other b)
  with assms(2) show ?thesis by (simp add: stopped_def)
qed

text \<open>A deactivated automation is revived by nothing but its reassignment by an administrator
  of its workspace: registering it again, under whatever owner, other members' departures and
  refused reassignments all leave it stopped, and every dispatch for it is skipped.\<close>

theorem deactivated_until_reassigned:
  assumes steps: "(auto_step_not (automation_key ws i) env)\<^sup>*\<^sup>* w w'"
    and at: "map_of (az_autos w) (automation_key ws i) = Some r" and st: "sa_status r = Deactivated"
  shows "\<not> can_run_standing_automation w' ws i
    \<and> resolve_automation_dispatch env (c\<lparr>ac_ws := ws, ac_automation := i\<rparr>) opts w' = (Inr Skipped, w')"
proof -
  have "stopped (automation_key ws i) w" using at st by (simp add: stopped_def)
  with steps have "stopped (automation_key ws i) w'"
    by (induction rule: rtranclp_induct) (auto intro: stopped_step)
  then show ?thesis
    by (auto simp: stopped_def can_run_standing_automation_def resolve_automation_dispatch_def bindM_run)
qed

definition stopped_autos :: "grant_row list auto_world" where
  "stopped_autos = demo_autos\<lparr>az_autos := [(automation_key ''w'' ''a1'', departed_record 9 demo_automation)]\<rparr>"

theorem deactivated_until_reassigned_witness:
  "\<exists>w'. w' = snd (register_standing_automation demo_registry ''w'' ScheduleAutomation ''again'' ''eve'' (Some ''a1'') stopped_autos)
    \<and> \<not> can_run_standing_automation w' ''w'' ''a1''"
proof -
  let ?w = "snd (register_standing_automation demo_registry ''w'' ScheduleAutomation ''again'' ''eve'' (Some ''a1'') stopped_autos)"
  have s: "(auto_step_not (automation_key ''w'' ''a1'') demo_registry)\<^sup>*\<^sup>* stopped_autos ?w"
    by (rule r_into_rtranclp) (rule not_register)
  have r: "map_of (az_autos stopped_autos) (automation_key ''w'' ''a1'') = Some (departed_record 9 demo_automation)"
    and d: "sa_status (departed_record 9 demo_automation) = Deactivated"
    by (simp_all add: stopped_autos_def departed_record_def)
  from deactivated_until_reassigned [OF s r d] show ?thesis by (intro exI [of _ ?w] conjI) simp_all
qed

section \<open>Rejoining\<close>

lemma departed_step:
  assumes "auto_step env w w'" and "k \<in> set (az_departed w)"
  shows "k \<in> set (az_departed w')"
  using assms(1)
proof (rule auto_stepE, goal_cases)
  case (1 ws kind name owner given)
  then show ?case using register_effect [of env ws kind name owner given w] assms(2) by auto
next
  case (2 ws user)
  then show ?case using assms(2) by (simp add: on_membership_departure_def Let_def)
next
  case (3 ws i newOwner actor)
  then show ?case
    using assms(2) by (auto simp: reassign_automation_def bindM_run thenM_run Let_def split: option.split)
next
  case (4 c opts)
  then show ?case using assms(2) by (simp add: resolve_keeps)
next
  case (5 ws)
  then show ?case using assms(2) by (simp add: on_grant_revoked_def)
next
  case (6 b)
  then show ?case using assms(2) by simp
qed

text \<open>A departure is never forgotten: no operation makes the departed user's own credentials
  resolve again, so an automation that is active and owned by them, for instance reassigned to
  them after they rejoined, keeps being denied on every call with a user-level credential.\<close>

theorem departed_marker_permanent:
  assumes steps: "(auto_step env)\<^sup>*\<^sup>* (snd (on_membership_departure ws user w)) w'"
    and at: "map_of (az_autos w') (automation_key ws i) = Some r" and own: "sa_owner r = user"
    and st: "sa_status r = ActiveAutomation" and cred: "map_option cr_level (ac_credential c) = Some ''user-oauth''"
  shows "resolve_automation_dispatch env (c\<lparr>ac_ws := ws, ac_automation := i\<rparr>) opts w'
    = (Inr (Decided (Deny DenyUnconnected)), w')"
proof -
  have "departed_key ws user \<in> set (az_departed (snd (on_membership_departure ws user w)))"
    by (simp add: on_membership_departure_def Let_def)
  with steps have "departed_key ws user \<in> set (az_departed w')"
    by (induction rule: rtranclp_induct) (auto intro: departed_step)
  then show ?thesis
    using at own st cred by (simp add: resolve_automation_dispatch_def bindM_run user_level_resolvable_def)
qed

definition admin :: principal where
  "admin = \<lparr>pr_sub = ''root'', pr_ws = ''w'', pr_role = ''admin'', pr_groups = []\<rparr>"

theorem departed_marker_permanent_witness:
  "\<exists>w'. can_run_standing_automation w' ''w'' ''a1''
    \<and> resolve_automation_dispatch demo_registry demo_call no_options (w' :: grant_row list auto_world)
      = (Inr (Decided (Deny DenyUnconnected)), w')"
proof -
  let ?w1 = "snd (on_membership_departure ''w'' ''ann'' demo_autos)"
  let ?w2 = "snd (reassign_automation ''w'' ''a1'' ''ann'' admin ?w1)"
  have steps: "(auto_step demo_registry)\<^sup>*\<^sup>* ?w1 ?w2"
    by (rule r_into_rtranclp) (rule auto_reassign)
  obtain r where r: "map_of (az_autos ?w2) (automation_key ''w'' ''a1'') = Some r" "sa_owner r = ''ann''"
    "sa_status r = ActiveAutomation"
    by (simp add: reassign_automation_def admin_def bindM_run thenM_run Let_def on_membership_departure_def
        map_of_map_value demo_auto_at)
  have cred: "map_option cr_level (ac_credential demo_call) = Some ''user-oauth''" by (simp add: demo_call_def)
  from departed_marker_permanent [OF steps r cred] r show ?thesis
    by (intro exI [of _ ?w2]) (simp add: can_run_standing_automation_def)
qed

end
