(* ===== verification/Js_Date.thy ===== *)
theory Js_Date
  imports Svc_Records
begin

text \<open>
  The calendar of \<^verbatim>\<open>Date\<close>: civil dates of epoch milliseconds, ISO time stamps and the UTC
  fields the cron matcher reads.
\<close>

section \<open>ISO time stamps\<close>

text \<open>\<^verbatim>\<open>new Date(ms).toISOString()\<close> for years 0 to 9999, with the proleptic Gregorian calendar.\<close>

definition pad0 :: "nat \<Rightarrow> int \<Rightarrow> string" where
  "pad0 w n = pad_start w CHR ''0'' (show_nat (nat n))"

definition civil_of_days :: "int \<Rightarrow> int \<times> int \<times> int" where
  "civil_of_days days =
     (let z = days + 719468; era = z div 146097; doe = z mod 146097;
          yoe = (doe - doe div 1460 + doe div 36524 - doe div 146096) div 365;
          doy = doe - (365 * yoe + yoe div 4 - yoe div 100);
          mp = (5 * doy + 2) div 153; d = doy - (153 * mp + 2) div 5 + 1;
          m = (if mp < 10 then mp + 3 else mp - 9); y = yoe + era * 400
      in (if m \<le> 2 then y + 1 else y, m, d))"

definition iso_of :: "int \<Rightarrow> string" where
  "iso_of ms =
     (let (y, m, d) = civil_of_days (ms div 86400000); t = ms mod 86400000
      in pad0 4 y @ ''-'' @ pad0 2 m @ ''-'' @ pad0 2 d @ ''T'' @ pad0 2 (t div 3600000) @ '':'' @
         pad0 2 (t div 60000 mod 60) @ '':'' @ pad0 2 (t div 1000 mod 60) @ ''.'' @ pad0 3 (t mod 1000) @ ''Z'')"

section \<open>UTC fields\<close>

definition utc_minute :: "int \<Rightarrow> int" where
  "utc_minute ms = ms div 60000 mod 60"

definition utc_hour :: "int \<Rightarrow> int" where
  "utc_hour ms = ms div 3600000 mod 24"

definition utc_date :: "int \<Rightarrow> int" where
  "utc_date ms = snd (snd (civil_of_days (ms div 86400000)))"

definition utc_month :: "int \<Rightarrow> int" where
  "utc_month ms = fst (snd (civil_of_days (ms div 86400000))) - 1"

definition utc_day :: "int \<Rightarrow> int" where
  "utc_day ms = (ms div 86400000 + 4) mod 7"

end
