(* ===== verification/Sandbox_Queue.thy ===== *)
theory Sandbox_Queue
  imports Doc_Store Grants Js_Date
begin

text \<open>
  \<^verbatim>\<open>server/workspace/src/sandboxes/queue.ts\<close>: scheduled sandbox runs are offered under a key that
  begins with their image, and hosts claim them. Queue and history are two scopes of one store
  of runs; a claim scan is the source's, the wait between polls advances the clock.
\<close>

section \<open>Runs and hosts\<close>

datatype run_status = RunPending | RunClaimed | RunRunning | RunSucceeded | RunFailed | RunCancelled

record sandbox_run =
  sr_id :: string
  sr_image :: string
  sr_workflow :: "string option"
  sr_input :: json
  sr_mounts :: "json list"
  sr_agent :: "string option"
  sr_limits :: json
  sr_session :: "string option"
  sr_tools :: "string list"
  sr_status :: run_status
  sr_host :: "string option"
  sr_sandbox :: "string option"
  sr_workflow_run :: "string option"
  sr_agent_run :: "string option"
  sr_error :: "string option"
  sr_created_by :: string
  sr_created :: string
  sr_claimed :: "string option"
  sr_finished :: "string option"

record sandbox_host =
  sh_id :: string
  sh_images :: "string list option"
  sh_verified :: "string list option"
  sh_tools :: "string list option"

record sandbox_world =
  sw_now :: int
  sw_next :: nat
  sw_runs :: "sandbox_run db"

definition SANDBOX_SCOPE :: string where
  "SANDBOX_SCOPE = svc_scope ''sandboxes'' [''queue'']"

definition RUNS_SCOPE :: string where
  "RUNS_SCOPE = svc_scope ''sandboxes'' [''runs'']"

definition QUEUE_TTL_SECONDS :: int where
  "QUEUE_TTL_SECONDS = 24 * 60 * 60"

definition MAX_CLAIM_WAIT_MS :: int where
  "MAX_CLAIM_WAIT_MS = 25000"

definition POLL_INTERVAL_MS :: int where
  "POLL_INTERVAL_MS = 500"

definition image_key :: "string \<Rightarrow> string" where
  "image_key spec =
     map (\<lambda>c. if c = CHR ''/'' then CHR ''~'' else c)
       (if starts_with spec [CHR 0x40] then tl spec else spec)"

definition queue_key :: "sandbox_run \<Rightarrow> string" where
  "queue_key run = image_key (sr_image run) @ ''/'' @ sr_created run @ ''/'' @ sr_id run"

section \<open>Operations\<close>

definition queue_expiry :: "int \<Rightarrow> int" where
  "queue_expiry now = now div 1000 + QUEUE_TTL_SECONDS"

definition on_runs :: "(sandbox_run db, 'a) prog \<Rightarrow> (sandbox_world, 'a) prog" where
  "on_runs = zoom sw_runs (\<lambda>d w. w\<lparr>sw_runs := d\<rparr>)"

definition write_queued :: "string \<Rightarrow> sandbox_run \<Rightarrow> (sandbox_world, unit) prog" where
  "write_queued ws run w =
     thenM (on_runs
       (put_doc (sw_now w) (ws, SANDBOX_SCOPE, queue_key run) run (sr_created_by run)
          (Some (queue_expiry (sw_now w))))) (ret ()) w"

definition fetch_run :: "string \<Rightarrow> string \<Rightarrow> (sandbox_world, sandbox_run option) prog" where
  "fetch_run ws key w =
     (map_sum id (map_option en_value) (rs_get (sw_now w) (sw_runs w) (ws, SANDBOX_SCOPE, key)), w)"

definition list_queue :: "string \<Rightarrow> string \<Rightarrow> (sandbox_world, string list) prog" where
  "list_queue ws pre = gets (\<lambda>w. rs_list (sw_now w) (sw_runs w) ws SANDBOX_SCOPE pre)"

text \<open>The random part of the id is the argument \<^verbatim>\<open>uuid\<close>, applied to a counter.\<close>

definition enqueue_run ::
  "(nat \<Rightarrow> string) \<Rightarrow> string \<Rightarrow> sandbox_run \<Rightarrow> (sandbox_world, sandbox_run) prog" where
  "enqueue_run uuid ws run w =
     (let queued = run\<lparr>sr_id := ''sbr_'' @ take 20 (filter (\<lambda>c. c \<noteq> CHR ''-'') (uuid (sw_next w))),
                       sr_status := RunPending, sr_created := iso_of (sw_now w)\<rparr>
      in thenM (write_queued ws queued) (ret queued) (w\<lparr>sw_next := Suc (sw_next w)\<rparr>))"

fun find_queued :: "string \<Rightarrow> string \<Rightarrow> string list \<Rightarrow> (sandbox_world, sandbox_run option) prog" where
  "find_queued ws i [] = ret None"
| "find_queued ws i (k # ks) =
     (if \<not> ends_with k (''/'' @ i) then find_queued ws i ks
      else bindM (fetch_run ws k) (\<lambda>r. case r of Some run \<Rightarrow> ret (Some run) | None \<Rightarrow> find_queued ws i ks))"

definition read_queued_run :: "string \<Rightarrow> string \<Rightarrow> (sandbox_world, sandbox_run option) prog" where
  "read_queued_run ws i = bindM (list_queue ws []) (find_queued ws i)"

definition update_queued_run :: "string \<Rightarrow> sandbox_run \<Rightarrow> (sandbox_world, unit) prog" where
  "update_queued_run ws run = write_queued ws run"

record run_outcome =
  ro_status :: run_status
  ro_error :: "string option"
  ro_workflow_run :: "string option"
  ro_agent_run :: "string option"

definition or_else :: "string option \<Rightarrow> string option \<Rightarrow> string option" where
  "or_else new old = (if truthy new then new else old)"

definition finish_run ::
  "string \<Rightarrow> sandbox_run \<Rightarrow> run_outcome \<Rightarrow> (sandbox_world, sandbox_run) prog" where
  "finish_run ws run out w =
     (let finished = run\<lparr>sr_status := ro_status out, sr_error := or_else (ro_error out) (sr_error run),
            sr_workflow_run := or_else (ro_workflow_run out) (sr_workflow_run run),
            sr_agent_run := or_else (ro_agent_run out) (sr_agent_run run),
            sr_finished := Some (iso_of (sw_now w))\<rparr>
      in thenM (on_runs (write_svc_record (sw_now w) ws RUNS_SCOPE (sr_id finished) finished (sr_created_by finished)))
           (thenM (catchM (on_runs (del_doc (ws, SANDBOX_SCOPE, queue_key run))) (\<lambda>_. ret False))
             (ret finished))) w"

fun fetch_all :: "string \<Rightarrow> string list \<Rightarrow> (sandbox_world, sandbox_run list) prog" where
  "fetch_all ws [] = ret []"
| "fetch_all ws (k # ks) =
     bindM (fetch_run ws k) (\<lambda>r. bindM (fetch_all ws ks) (\<lambda>rest.
     ret (case r of None \<Rightarrow> rest | Some run \<Rightarrow> run # rest)))"

text \<open>\<^verbatim>\<open>xs.slice(0, n)\<close>.\<close>

definition slice_to :: "int \<Rightarrow> 'a list \<Rightarrow> 'a list" where
  "slice_to n xs = (if 0 \<le> n then take (nat n) xs else take (length xs - nat (- n)) xs)"

definition list_runs ::
  "(string \<Rightarrow> string \<Rightarrow> int) \<Rightarrow> string \<Rightarrow> run_status option \<Rightarrow> int option \<Rightarrow> (sandbox_world, sandbox_run list) prog" where
  "list_runs collate ws status limit =
     bindM (list_queue ws []) (\<lambda>keys.
     bindM (fetch_all ws keys) (\<lambda>queued.
     bindM (catchM (\<lambda>w. (list_svc_records (sw_now w) (sw_runs w) ws RUNS_SCOPE [], w)) (\<lambda>_. ret [])) (\<lambda>history.
     ret (slice_to (case limit of None \<Rightarrow> 100 | Some n \<Rightarrow> n)
           (js_sort (\<lambda>a b. collate (sr_created b) (sr_created a))
             (filter (\<lambda>r. status = None \<or> status = Some (sr_status r)) (queued @ map snd history)))))))"

definition host_images :: "sandbox_host \<Rightarrow> string list" where
  "host_images h =
     (case sh_verified h of Some v \<Rightarrow> v | None \<Rightarrow> (case sh_images h of Some i \<Rightarrow> i | None \<Rightarrow> []))"

definition host_satisfies :: "sandbox_host \<Rightarrow> sandbox_run \<Rightarrow> bool" where
  "host_satisfies h run \<longleftrightarrow>
     (if sr_image run \<notin> set (host_images h) then False
      else if sr_tools run = [] then True
      else set (sr_tools run) \<subseteq> set (case sh_tools h of None \<Rightarrow> [] | Some t \<Rightarrow> t))"

definition claimed_run :: "int \<Rightarrow> sandbox_host \<Rightarrow> sandbox_run \<Rightarrow> sandbox_run" where
  "claimed_run now h run = run\<lparr>sr_status := RunClaimed, sr_host := Some (sh_id h), sr_claimed := Some (iso_of now)\<rparr>"

definition claimable :: "sandbox_host \<Rightarrow> sandbox_run option \<Rightarrow> sandbox_run option" where
  "claimable h r =
     (case r of None \<Rightarrow> None
      | Some run \<Rightarrow> if sr_status run \<noteq> RunPending \<or> \<not> host_satisfies h run then None else Some run)"

text \<open>The write of a claim and the read-back that confirms it.\<close>

definition claim_write :: "string \<Rightarrow> sandbox_host \<Rightarrow> sandbox_run \<Rightarrow> (sandbox_world, unit) prog" where
  "claim_write ws h run = bindM (gets sw_now) (\<lambda>now. write_queued ws (claimed_run now h run))"

definition claim_read_back :: "string \<Rightarrow> sandbox_host \<Rightarrow> string \<Rightarrow> (sandbox_world, sandbox_run option) prog" where
  "claim_read_back ws h key =
     bindM (fetch_run ws key) (\<lambda>r. ret (case r of None \<Rightarrow> None
       | Some run \<Rightarrow> if sr_host run = Some (sh_id h) then Some run else None))"

fun claim_keys :: "string \<Rightarrow> sandbox_host \<Rightarrow> string list \<Rightarrow> (sandbox_world, sandbox_run option) prog" where
  "claim_keys ws h [] = ret None"
| "claim_keys ws h (k # ks) =
     bindM (fetch_run ws k) (\<lambda>r.
     case claimable h r of
       None \<Rightarrow> claim_keys ws h ks
     | Some run \<Rightarrow>
         thenM (claim_write ws h run)
           (bindM (claim_read_back ws h k) (\<lambda>got.
            case got of Some run' \<Rightarrow> ret (Some run') | None \<Rightarrow> claim_keys ws h ks)))"

fun claim_images :: "string \<Rightarrow> sandbox_host \<Rightarrow> string list \<Rightarrow> (sandbox_world, sandbox_run option) prog" where
  "claim_images ws h [] = ret None"
| "claim_images ws h (img # imgs) =
     bindM (list_queue ws (image_key img @ ''/'')) (\<lambda>keys.
     bindM (claim_keys ws h (sort keys)) (\<lambda>r.
     case r of Some run \<Rightarrow> ret (Some run) | None \<Rightarrow> claim_images ws h imgs))"

text \<open>Each failed scan before the deadline waits one poll interval.\<close>

function claim_loop :: "string \<Rightarrow> sandbox_host \<Rightarrow> int \<Rightarrow> (sandbox_world, sandbox_run option) prog" where
  "claim_loop ws h deadline w =
     (case claim_images ws h (host_images h) w of
        (Inl e, w') \<Rightarrow> (Inl e, w')
      | (Inr (Some run), w') \<Rightarrow> (Inr (Some run), w')
      | (Inr None, w') \<Rightarrow>
          if deadline \<le> sw_now w then (Inr None, w')
          else claim_loop ws h deadline (w'\<lparr>sw_now := sw_now w + POLL_INTERVAL_MS\<rparr>))"
  by pat_completeness auto

termination
  by (relation "measure (\<lambda>(ws, h, deadline, w). nat (deadline - sw_now w))")
    (auto simp: POLL_INTERVAL_MS_def)

declare claim_loop.simps [simp del]

definition claim_run ::
  "string \<Rightarrow> sandbox_host \<Rightarrow> int option \<Rightarrow> (sandbox_world, sandbox_run option) prog" where
  "claim_run ws h maxWait w =
     (if host_images h = [] then (Inr None, w)
      else claim_loop ws h
             (sw_now w + min (case maxWait of None \<Rightarrow> MAX_CLAIM_WAIT_MS | Some m \<Rightarrow> m) MAX_CLAIM_WAIT_MS) w)"

definition require_runnable_workflow :: "json \<Rightarrow> svc_error + string" where
  "require_runnable_workflow name =
     (case name of
        JStr s \<Rightarrow> if js_trim s = []
          then Inl (ServiceError ''schedule requires { workflow } or { agent } - the work to run in the sandbox'' 400)
          else Inr s
      | _ \<Rightarrow> Inl (ServiceError ''schedule requires { workflow } or { agent } - the work to run in the sandbox'' 400))"

end
