(* ===== verification/Sandbox_Properties.thy ===== *)
theory Sandbox_Properties
  imports Sandbox_Queue
begin

text \<open>
  The guarantees of the sandbox queue: what a claimed run was, that a claim finds work when
  there is some, that one claim after another never returns the same run, and that overlapping
  claims can, the read-back notwithstanding.
\<close>

section \<open>The queue as a map\<close>

definition live_run :: "sandbox_world \<Rightarrow> string \<Rightarrow> string \<Rightarrow> sandbox_run option" where
  "live_run w ws k = map_option en_value (spec_get (sw_now w) (abs_db (sw_runs w)) (ws, SANDBOX_SCOPE, k))"

definition sq_inv :: "sandbox_world \<Rightarrow> bool" where
  "sq_inv w \<longleftrightarrow> db_inv (sw_runs w) \<and>
     (\<forall>ws k c. abs_db (sw_runs w) (ws, SANDBOX_SCOPE, k) = Some c \<longrightarrow> queue_key (ce_value c) = k)"

lemma sq_inv_db [simp]: "sq_inv w \<Longrightarrow> db_inv (sw_runs w)"
  unfolding sq_inv_def by blast

lemma sq_inv_time [simp]: "sq_inv (w\<lparr>sw_now := t\<rparr>) = sq_inv w"
  by (simp add: sq_inv_def)

lemma fetch_run_live: "sq_inv w \<Longrightarrow> fetch_run ws k w = (Inr (live_run w ws k), w)"
  by (simp add: fetch_run_def rs_get_abs live_run_def)

lemma live_run_key: "sq_inv w \<Longrightarrow> live_run w ws k = Some r \<Longrightarrow> queue_key r = k"
  by (auto simp: live_run_def spec_get_def sq_inv_def split: option.splits if_splits)

lemma scope_slash: "CHR ''/'' \<notin> set SANDBOX_SCOPE" "CHR ''/'' \<notin> set RUNS_SCOPE"
  by (simp_all add: SANDBOX_SCOPE_def RUNS_SCOPE_def svc_scope_def SVC_SCOPE_PREFIX_def)

lemma scope_ne: "RUNS_SCOPE \<noteq> SANDBOX_SCOPE"
  by (simp add: SANDBOX_SCOPE_def RUNS_SCOPE_def svc_scope_def SVC_SCOPE_PREFIX_def)

text \<open>Writing a run: it fails and changes nothing, or that key alone changes.\<close>

lemma write_queued_cases:
  assumes inv: "sq_inv w" and ok: "ws_ok (sw_runs w) ws"
  obtains
    (fails) e where "write_queued ws run w = (Inl e, w)" "\<not> storable (sw_runs w) run"
  | (writes) d where "write_queued ws run w = (Inr (), w\<lparr>sw_runs := d\<rparr>)" "sq_inv (w\<lparr>sw_runs := d\<rparr>)"
      "\<And>k. live_run (w\<lparr>sw_runs := d\<rparr>) ws k = (if k = queue_key run then Some run else live_run w ws k)"
      "addr_ok d = addr_ok (sw_runs w)" "storable d = storable (sw_runs w)"
      "\<And>t k. k \<noteq> queue_key run \<Longrightarrow> live_run (w\<lparr>sw_runs := d, sw_now := t\<rparr>) ws k = live_run (w\<lparr>sw_now := t\<rparr>) ws k"
      "\<And>t r. live_run (w\<lparr>sw_runs := d, sw_now := t\<rparr>) ws (queue_key run) = Some r \<Longrightarrow> r = run"
proof -
  let ?a = "(ws, SANDBOX_SCOPE, queue_key run)"
  let ?ex = "Some (queue_expiry (sw_now w))"
  have a: "addr_ok (sw_runs w) ?a" by (rule addr_ok_ws [OF ok scope_slash(1)])
  obtain r d where p: "put_doc (sw_now w) ?a run (sr_created_by run) ?ex (sw_runs w) = (r, d)"
    by (cases "put_doc (sw_now w) ?a run (sr_created_by run) ?ex (sw_runs w)")
  show thesis
  proof (cases r)
    case (Inl e)
    from rs.put_fail [OF p [unfolded Inl]] have "d = sw_runs w" .
    moreover have "\<not> storable (sw_runs w) run"
    proof
      assume "storable (sw_runs w) run"
      from rs.put_total [OF this, of "sw_now w" ?a "sr_created_by run" ?ex] p Inl show False by simp
    qed
    ultimately show thesis
      using p Inl by (intro fails) (simp_all add: write_queued_def on_runs_def zoom_run thenM_run)
  next
    case (Inr en)
    note p' = p [unfolded Inr]
    note eff = put_doc_abs [OF sq_inv_db [OF inv] a p']
    have live: "cell_live (sw_now w) \<lparr>ce_value = run, ce_updated_at = sw_now w, ce_updated_by = sr_created_by run,
        ce_expires = norm_expiry (sw_runs w) ?ex\<rparr>"
      by (rule cell_live_norm) (simp add: expiry_live_def queue_expiry_def QUEUE_TTL_SECONDS_def)
    show thesis
    proof (rule writes)
      show "write_queued ws run w = (Inr (), w\<lparr>sw_runs := d\<rparr>)"
        using p Inr by (simp add: write_queued_def on_runs_def zoom_run thenM_run)
      show "sq_inv (w\<lparr>sw_runs := d\<rparr>)"
        using inv eff(2) by (auto simp: sq_inv_def eff(1) spec_set_def)
      show "live_run (w\<lparr>sw_runs := d\<rparr>) ws k = (if k = queue_key run then Some run else live_run w ws k)" for k
        using live by (simp add: live_run_def eff(1) spec_get_def spec_set_def)
      show "live_run (w\<lparr>sw_runs := d, sw_now := t\<rparr>) ws k = live_run (w\<lparr>sw_now := t\<rparr>) ws k"
        if "k \<noteq> queue_key run" for t k
        using that by (simp add: live_run_def eff(1) spec_get_def spec_set_def)
      show "r = run" if "live_run (w\<lparr>sw_runs := d, sw_now := t\<rparr>) ws (queue_key run) = Some r" for t r
        using that by (auto simp: live_run_def eff(1) spec_get_def spec_set_def split: if_splits)
      show "addr_ok d = addr_ok (sw_runs w)" "storable d = storable (sw_runs w)" by (rule eff)+
    qed
  qed
qed

section \<open>A scan\<close>

lemma claimable_Some: "claimable h x = Some r \<longleftrightarrow> x = Some r \<and> sr_status r = RunPending \<and> host_satisfies h r"
  by (auto simp: claimable_def split: option.splits)

lemma claimed_key [simp]: "queue_key (claimed_run now h r) = queue_key r"
  by (simp add: queue_key_def claimed_run_def)

text \<open>A scan of keys takes the first claimable run and keeps it, or changes nothing.\<close>

lemma claim_keys_cases:
  assumes inv: "sq_inv w" and ok: "ws_ok (sw_runs w) ws" and run: "claim_keys ws h ks w = (res, w')"
  shows "(res = Inr None \<and> w' = w \<and> (\<forall>k \<in> set ks. claimable h (live_run w ws k) = None))
    \<or> (\<exists>e r. res = Inl e \<and> w' = w \<and> \<not> storable (sw_runs w) (claimed_run (sw_now w) h r))
    \<or> (\<exists>r. res = Inr (Some (claimed_run (sw_now w) h r)) \<and> live_run w ws (queue_key r) = Some r
        \<and> queue_key r \<in> set ks \<and> sr_status r = RunPending \<and> host_satisfies h r
        \<and> write_queued ws (claimed_run (sw_now w) h r) w = (Inr (), w'))"
  using run
proof (induction ks)
  case (Cons k ks)
  show ?case
  proof (cases "claimable h (live_run w ws k)")
    case None
    with Cons show ?thesis by (auto simp: bindM_run fetch_run_live [OF inv])
  next
    case (Some r)
    then have r: "live_run w ws k = Some r" "sr_status r = RunPending" "host_satisfies h r"
      by (simp_all add: claimable_Some)
    have k: "queue_key r = k" by (rule live_run_key [OF inv r(1)])
    show ?thesis
    proof (rule write_queued_cases [OF inv ok, of "claimed_run (sw_now w) h r"])
      fix e assume "write_queued ws (claimed_run (sw_now w) h r) w = (Inl e, w)"
        and "\<not> storable (sw_runs w) (claimed_run (sw_now w) h r)"
      with Cons.prems Some show ?thesis
        by (auto simp: bindM_run thenM_run fetch_run_live [OF inv] claim_write_def)
    next
      fix d assume wr: "write_queued ws (claimed_run (sw_now w) h r) w = (Inr (), w\<lparr>sw_runs := d\<rparr>)"
        and inv': "sq_inv (w\<lparr>sw_runs := d\<rparr>)"
        and lv: "\<And>k. live_run (w\<lparr>sw_runs := d\<rparr>) ws k =
          (if k = queue_key (claimed_run (sw_now w) h r) then Some (claimed_run (sw_now w) h r) else live_run w ws k)"
      have "live_run (w\<lparr>sw_runs := d\<rparr>) ws k = Some (claimed_run (sw_now w) h r)" using lv [of k] k by simp
      then have "claim_read_back ws h k (w\<lparr>sw_runs := d\<rparr>) = (Inr (Some (claimed_run (sw_now w) h r)), w\<lparr>sw_runs := d\<rparr>)"
        by (simp add: claim_read_back_def bindM_run fetch_run_live [OF inv']) (simp add: claimed_run_def)
      with Cons.prems Some wr have "res = Inr (Some (claimed_run (sw_now w) h r))" "w' = w\<lparr>sw_runs := d\<rparr>"
        by (simp_all add: bindM_run thenM_run fetch_run_live [OF inv] claim_write_def)
      with wr r k show ?thesis by auto
    qed
  qed
qed simp

lemma claim_images_cases:
  assumes inv: "sq_inv w" and ok: "ws_ok (sw_runs w) ws" and run: "claim_images ws h imgs w = (res, w')"
  shows "(res = Inr None \<and> w' = w \<and> (\<forall>img \<in> set imgs. \<forall>k \<in> set (rs_list (sw_now w) (sw_runs w) ws SANDBOX_SCOPE (image_key img @ ''/'')).
            claimable h (live_run w ws k) = None))
    \<or> (\<exists>e r. res = Inl e \<and> w' = w \<and> \<not> storable (sw_runs w) (claimed_run (sw_now w) h r))
    \<or> (\<exists>r. res = Inr (Some (claimed_run (sw_now w) h r)) \<and> live_run w ws (queue_key r) = Some r
        \<and> sr_status r = RunPending \<and> host_satisfies h r
        \<and> write_queued ws (claimed_run (sw_now w) h r) w = (Inr (), w'))"
  using run
proof (induction imgs)
  case (Cons img imgs)
  let ?keys = "rs_list (sw_now w) (sw_runs w) ws SANDBOX_SCOPE (image_key img @ ''/'')"
  obtain r1 w1 where 1: "claim_keys ws h (sort ?keys) w = (r1, w1)" by (cases "claim_keys ws h (sort ?keys) w")
  from claim_keys_cases [OF inv ok 1] Cons 1 show ?case
    by (auto simp: bindM_run list_queue_def)
qed simp

text \<open>The loop is one successful scan at some later time over the same queue.\<close>

lemma claim_loop_cases:
  assumes "sq_inv w" and "ws_ok (sw_runs w) ws" and "claim_loop ws h deadline w = (res, w')"
  shows "\<exists>t \<ge> sw_now w. claim_images ws h (host_images h) (w\<lparr>sw_now := t\<rparr>) = (res, w')
    \<and> (res = Inr None \<longrightarrow> (\<exists>w1. claim_images ws h (host_images h) w = (Inr None, w1)))"
  using assms
proof (induction ws h deadline w arbitrary: res w' rule: claim_loop.induct)
  case (1 ws h deadline w)
  obtain r1 w1 where s: "claim_images ws h (host_images h) w = (r1, w1)"
    by (cases "claim_images ws h (host_images h) w")
  have same: "w\<lparr>sw_now := sw_now w\<rparr> = w" by simp
  show ?case
  proof (cases "r1 = Inr None \<and> \<not> deadline \<le> sw_now w")
    case False
    then have "res = r1" "w' = w1"
      using 1(4) s by (auto simp: claim_loop.simps [of ws h deadline w] split: sum.splits option.splits if_splits)
    with s show ?thesis by (intro exI [of _ "sw_now w"]) auto
  next
    case True
    with s have w1: "w1 = w" using claim_images_cases [OF 1(2,3) s] by auto
    let ?w = "w1\<lparr>sw_now := sw_now w + POLL_INTERVAL_MS\<rparr>"
    from True s w1 1(4) have l: "claim_loop ws h deadline ?w = (res, w')"
      by (simp add: claim_loop.simps [of ws h deadline w])
    from True have none: "r1 = Inr None" and d: "\<not> deadline \<le> sw_now w" by simp_all
    have i: "sq_inv ?w" "ws_ok (sw_runs ?w) ws" using 1(2,3) w1 by simp_all
    from 1(1) [OF s [symmetric] none refl d i l]
    obtain t where "t \<ge> sw_now ?w" "claim_images ws h (host_images h) (w\<lparr>sw_now := t\<rparr>) = (res, w')"
      unfolding w1 by auto
    with s True show ?thesis
      by (intro exI [of _ t]) (auto simp: POLL_INTERVAL_MS_def)
  qed
qed

lemma claim_images_time:
  assumes "sq_inv w" and "ws_ok (sw_runs w) ws" and run: "claim_images ws h imgs w = (res, w')"
  shows "sw_now w' = sw_now w"
proof -
  have "sw_now w1 = sw_now w" if "write_queued ws r w = (Inr (), w1)" for r w1
    by (rule write_queued_cases [OF assms(1,2), of r]) (use that in auto)
  with claim_images_cases [OF assms] show ?thesis by auto
qed

text \<open>The loop ends before a poll interval after its deadline, and gives up only after it.\<close>

lemma claim_loop_time:
  assumes "sq_inv w" and "ws_ok (sw_runs w) ws" and "claim_loop ws h deadline w = (res, w')"
  shows "sw_now w \<le> sw_now w' \<and> sw_now w' \<le> max (sw_now w) (deadline + 499)
    \<and> (res = Inr None \<longrightarrow> deadline \<le> sw_now w' \<and> w' = w\<lparr>sw_now := sw_now w'\<rparr>)"
  using assms
proof (induction ws h deadline w arbitrary: res w' rule: claim_loop.induct)
  case (1 ws h deadline w)
  obtain r1 w1 where s: "claim_images ws h (host_images h) w = (r1, w1)"
    by (cases "claim_images ws h (host_images h) w")
  note time = claim_images_time [OF 1(2,3) s]
  have idle: "r1 = Inr None \<Longrightarrow> w1 = w" using claim_images_cases [OF 1(2,3) s] by auto
  show ?case
  proof (cases "r1 = Inr None \<and> \<not> deadline \<le> sw_now w")
    case False
    then have "res = r1" "w' = w1" "r1 = Inr None \<Longrightarrow> deadline \<le> sw_now w"
      using 1(4) s by (auto simp: claim_loop.simps [of ws h deadline w] split: sum.splits option.splits if_splits)
    with time idle show ?thesis by auto
  next
    case True
    let ?w = "w1\<lparr>sw_now := sw_now w + POLL_INTERVAL_MS\<rparr>"
    have w1: "w1 = w" using True idle by simp
    from True s 1(4) have l: "claim_loop ws h deadline ?w = (res, w')"
      by (simp add: claim_loop.simps [of ws h deadline w])
    from True have none: "r1 = Inr None" and d: "\<not> deadline \<le> sw_now w" by simp_all
    have i: "sq_inv ?w" "ws_ok (sw_runs ?w) ws" using 1(2,3) w1 by simp_all
    from 1(1) [OF s [symmetric] none refl d i l] d show ?thesis
      unfolding w1 by (auto simp: POLL_INTERVAL_MS_def)
  qed
qed

lemma claim_run_from:
  assumes inv: "sq_inv w" and ok: "ws_ok (sw_runs w) ws"
    and c: "claim_run ws h maxWait w = (Inr (Some run), w')"
  obtains t r where "sw_now w \<le> t" "run = claimed_run t h r"
    "live_run (w\<lparr>sw_now := t\<rparr>) ws (queue_key r) = Some r" "sr_status r = RunPending" "host_satisfies h r"
    "write_queued ws (claimed_run t h r) (w\<lparr>sw_now := t\<rparr>) = (Inr (), w')"
proof -
  from c obtain deadline where l: "claim_loop ws h deadline w = (Inr (Some run), w')"
    by (auto simp: claim_run_def split: if_splits)
  from claim_loop_cases [OF inv ok l] obtain t where t: "sw_now w \<le> t"
    and s: "claim_images ws h (host_images h) (w\<lparr>sw_now := t\<rparr>) = (Inr (Some run), w')" by blast
  have i: "sq_inv (w\<lparr>sw_now := t\<rparr>)" "ws_ok (sw_runs (w\<lparr>sw_now := t\<rparr>)) ws" using inv ok by simp_all
  from claim_images_cases [OF i s] t show thesis by (auto intro: that)
qed

text \<open>A claim that returns a run, and one that must.\<close>

lemma claim_run_effect:
  assumes inv: "sq_inv w" and ok: "ws_ok (sw_runs w) ws"
    and c: "claim_run ws h maxWait w = (Inr (Some run), w')"
  shows "\<exists>t r. sw_now w \<le> t \<and> live_run (w\<lparr>sw_now := t\<rparr>) ws (queue_key r) = Some r
    \<and> sr_status r = RunPending \<and> sr_image r \<in> set (host_images h)
    \<and> set (sr_tools r) \<subseteq> set (case sh_tools h of None \<Rightarrow> [] | Some ts \<Rightarrow> ts)
    \<and> run = r\<lparr>sr_status := RunClaimed, sr_host := Some (sh_id h), sr_claimed := Some (iso_of t)\<rparr>
    \<and> live_run w' ws (queue_key run) = Some run \<and> sq_inv w'
    \<and> (k \<noteq> queue_key run \<longrightarrow> live_run w' ws k = live_run (w\<lparr>sw_now := t\<rparr>) ws k)"
proof -
  from claim_run_from [OF inv ok c] obtain t r where t: "sw_now w \<le> t"
    and r: "run = claimed_run t h r" "live_run (w\<lparr>sw_now := t\<rparr>) ws (queue_key r) = Some r"
      "sr_status r = RunPending" "host_satisfies h r"
      "write_queued ws (claimed_run t h r) (w\<lparr>sw_now := t\<rparr>) = (Inr (), w')" .
  let ?w = "w\<lparr>sw_now := t\<rparr>"
  have inv1: "sq_inv ?w" and ok1: "ws_ok (sw_runs ?w) ws" using inv ok by simp_all
  have sat: "sr_image r \<in> set (host_images h)" "set (sr_tools r) \<subseteq> set (case sh_tools h of None \<Rightarrow> [] | Some ts \<Rightarrow> ts)"
    using r(4) by (auto simp: host_satisfies_def split: if_splits)
  have "live_run w' ws (queue_key run) = Some run \<and> sq_inv w'
      \<and> (k \<noteq> queue_key run \<longrightarrow> live_run w' ws k = live_run ?w ws k)"
  proof (rule write_queued_cases [OF inv1 ok1, of "claimed_run t h r"])
    fix d assume "write_queued ws (claimed_run t h r) ?w = (Inr (), ?w\<lparr>sw_runs := d\<rparr>)" and "sq_inv (?w\<lparr>sw_runs := d\<rparr>)"
      and "\<And>k. live_run (?w\<lparr>sw_runs := d\<rparr>) ws k = (if k = queue_key (claimed_run t h r) then Some (claimed_run t h r) else live_run ?w ws k)"
    with r show ?thesis by auto
  qed (use r in simp)
  with t r sat show ?thesis by (auto simp: claimed_run_def)
qed

lemma rs_list_prefix:
  assumes "db_inv db" and "spec_get now (abs_db db) (ws, s, k) \<noteq> None" and "starts_with k pre" and "backslash \<notin> set pre"
  shows "k \<in> set (rs_list now db ws s pre)"
proof -
  have "like True backslash (sqlite_prefix_pattern pre) k"
    unfolding like_sqlite_prefix [OF assms(4)] using assms(3) by (auto simp: starts_with_iff)
  then show ?thesis
    using assms(2,3) unfolding rs_list_scan scan_keys_mem [OF db_inv_wf [OF assms(1)]] spec_get_live
    by (simp split: backend.split)
qed

lemma claim_run_some:
  assumes inv: "sq_inv w" and ok: "ws_ok (sw_runs w) ws" and st: "\<And>v. storable (sw_runs w) v"
    and r: "live_run w ws k = Some r" "sr_status r = RunPending" "host_satisfies h r"
    and img: "backslash \<notin> set (sr_image r)"
  shows "\<exists>run w'. claim_run ws h maxWait w = (Inr (Some run), w') \<and> sw_now w' = sw_now w"
proof -
  have k: "queue_key r = k" by (rule live_run_key [OF inv r(1)])
  have im: "sr_image r \<in> set (host_images h)" using r(3) by (auto simp: host_satisfies_def split: if_splits)
  have "k \<in> set (rs_list (sw_now w) (sw_runs w) ws SANDBOX_SCOPE (image_key (sr_image r) @ ''/''))"
  proof (rule rs_list_prefix)
    show "spec_get (sw_now w) (abs_db (sw_runs w)) (ws, SANDBOX_SCOPE, k) \<noteq> None"
      using r(1) by (auto simp: live_run_def)
    show "starts_with k (image_key (sr_image r) @ ''/'')"
      by (auto simp: k [symmetric] queue_key_def starts_with_iff)
    show "backslash \<notin> set (image_key (sr_image r) @ ''/'')"
      using img by (cases "sr_image r") (auto simp: image_key_def)
  qed (use inv in simp)
  moreover have "claimable h (live_run w ws k) \<noteq> None" using r by (simp add: claimable_def)
  ultimately have hit: "\<exists>img \<in> set (host_images h). \<exists>k \<in> set (rs_list (sw_now w) (sw_runs w) ws SANDBOX_SCOPE (image_key img @ ''/'')).
      claimable h (live_run w ws k) \<noteq> None" using im by blast
  obtain res w' where s: "claim_images ws h (host_images h) w = (res, w')"
    by (cases "claim_images ws h (host_images h) w")
  have busy: "\<not> (\<forall>img \<in> set (host_images h). \<forall>k \<in> set (rs_list (sw_now w) (sw_runs w) ws SANDBOX_SCOPE (image_key img @ ''/'')).
      claimable h (live_run w ws k) = None)" using hit by simp
  have st': "\<forall>v. storable (sw_runs w) v" using st by blast
  from claim_images_cases [OF inv ok s] busy st' obtain r' where
    res: "res = Inr (Some (claimed_run (sw_now w) h r'))"
    and wr: "write_queued ws (claimed_run (sw_now w) h r') w = (Inr (), w')"
    by (elim disjE conjE exE) simp_all
  have "sw_now w' = sw_now w"
    by (rule write_queued_cases [OF inv ok, of "claimed_run (sw_now w) h r'"]) (use wr in auto)
  moreover from res s have "claim_loop ws h deadline w = (Inr (Some (claimed_run (sw_now w) h r')), w')" for deadline
    by (simp add: claim_loop.simps [of ws h deadline w])
  moreover have "host_images h \<noteq> []" using im by auto
  ultimately show ?thesis by (auto simp: claim_run_def)
qed

lemma claim_run_conf:
  assumes inv: "sq_inv w" and ok: "ws_ok (sw_runs w) ws"
    and c: "claim_run ws h maxWait w = (Inr (Some run), w')"
  shows "addr_ok (sw_runs w') = addr_ok (sw_runs w)" "storable (sw_runs w') = storable (sw_runs w)"
proof -
  from claim_run_from [OF inv ok c] obtain t r
    where wr: "write_queued ws (claimed_run t h r) (w\<lparr>sw_now := t\<rparr>) = (Inr (), w')" .
  have i: "sq_inv (w\<lparr>sw_now := t\<rparr>)" "ws_ok (sw_runs (w\<lparr>sw_now := t\<rparr>)) ws" using inv ok by simp_all
  have "addr_ok (sw_runs w') = addr_ok (sw_runs w) \<and> storable (sw_runs w') = storable (sw_runs w)"
    by (rule write_queued_cases [OF i, of "claimed_run t h r"]) (use wr in auto)
  then show "addr_ok (sw_runs w') = addr_ok (sw_runs w)" "storable (sw_runs w') = storable (sw_runs w)" by blast+
qed

section \<open>A concrete queue\<close>

definition demo_run :: "string \<Rightarrow> sandbox_run" where
  "demo_run i = \<lparr>sr_id = i, sr_image = ''@acme/py'', sr_workflow = Some ''etl'', sr_input = JNull, sr_mounts = [],
     sr_agent = None, sr_limits = JNull, sr_session = None, sr_tools = [], sr_status = RunPending, sr_host = None,
     sr_sandbox = None, sr_workflow_run = None, sr_agent_run = None, sr_error = None, sr_created_by = ''ann'',
     sr_created = iso_of 0, sr_claimed = None, sr_finished = None\<rparr>"

definition demo_host :: "string \<Rightarrow> sandbox_host" where
  "demo_host i = \<lparr>sh_id = i, sh_images = None, sh_verified = Some [''@acme/py''], sh_tools = None\<rparr>"

definition demo_runs :: sandbox_world where
  "demo_runs = \<lparr>sw_now = 5, sw_next = 1, sw_runs = doc_db (demo_run ''a'')
     [((''w'', SANDBOX_SCOPE, queue_key (demo_run ''a'')), demo_run ''a''),
      ((''w'', SANDBOX_SCOPE, queue_key (demo_run ''b'')), demo_run ''b'')]\<rparr>"

lemma demo_keys: "queue_key (demo_run ''a'') \<noteq> queue_key (demo_run ''b'')"
  by (simp add: queue_key_def demo_run_def)

lemma demo_runs_inv: "sq_inv demo_runs" "ws_ok (sw_runs demo_runs) ''w''" "storable (sw_runs demo_runs) v"
proof -
  have "doc_ok (sw_runs demo_runs)"
    unfolding demo_runs_def sandbox_world.simps using demo_keys by (intro doc_db_ok) simp
  then show "sq_inv demo_runs"
    by (auto simp: sq_inv_def demo_runs_def abs_db_def doc_db_def map_of_doc_rows row_content_def split: if_splits)
qed (simp_all add: demo_runs_def doc_db_def ws_ok_def storable_def)

lemma demo_live:
  assumes "i \<in> {''a'', ''b''}"
  shows "live_run (demo_runs\<lparr>sw_now := t\<rparr>) ''w'' (queue_key (demo_run i)) = Some (demo_run i)"
  using assms demo_keys
  by (auto simp: live_run_def demo_runs_def spec_get_def abs_db_def doc_db_def row_content_def cell_live_def)

lemma demo_fit: "sr_status (demo_run i) = RunPending" "host_satisfies (demo_host j) (demo_run i)"
  "backslash \<notin> set (sr_image (demo_run i))"
  by (simp_all add: demo_run_def demo_host_def host_satisfies_def host_images_def)

lemma demo_claim: "\<exists>run w'. claim_run ''w'' (demo_host j) wait demo_runs = (Inr (Some run), w')"
proof -
  have "live_run demo_runs ''w'' (queue_key (demo_run ''a'')) = Some (demo_run ''a'')"
    using demo_live [of "''a''" 5] by (simp add: demo_runs_def)
  from claim_run_some [OF demo_runs_inv(1,2,3) this demo_fit] show ?thesis by blast
qed

section \<open>Claims\<close>

text \<open>A claimed run was, at some moment from the call on, a live entry of the queue that was
  pending, whose image the host verified and whose extra tools it has; what the caller gets is
  that run with only the status, the host and the claim time set, it is what the queue now
  holds under its key, and nothing else in the queue changed.\<close>

theorem claim_sound:
  assumes inv: "sq_inv w" and ok: "ws_ok (sw_runs w) ws"
    and c: "claim_run ws h maxWait w = (Inr (Some run), w')"
  shows "\<exists>t r. sw_now w \<le> t \<and> live_run (w\<lparr>sw_now := t\<rparr>) ws (queue_key r) = Some r
    \<and> sr_status r = RunPending \<and> sr_image r \<in> set (host_images h)
    \<and> set (sr_tools r) \<subseteq> set (case sh_tools h of None \<Rightarrow> [] | Some ts \<Rightarrow> ts)
    \<and> run = r\<lparr>sr_status := RunClaimed, sr_host := Some (sh_id h), sr_claimed := Some (iso_of t)\<rparr>
    \<and> live_run w' ws (queue_key run) = Some run \<and> sq_inv w'
    \<and> (k \<noteq> queue_key run \<longrightarrow> live_run w' ws k = live_run (w\<lparr>sw_now := t\<rparr>) ws k)"
  by (rule claim_run_effect [OF inv ok c])

theorem claim_sound_witness:
  "\<exists>run w'. claim_run ''w'' (demo_host ''h'') None demo_runs = (Inr (Some run), w')
    \<and> sr_status run = RunClaimed \<and> live_run w' ''w'' (queue_key run) = Some run"
proof -
  obtain run w' where c: "claim_run ''w'' (demo_host ''h'') None demo_runs = (Inr (Some run), w')"
    using demo_claim by blast
  from claim_sound [OF demo_runs_inv(1,2) c, of "[]"] obtain t r where
    x: "run = r\<lparr>sr_status := RunClaimed, sr_host := Some (sh_id (demo_host ''h'')), sr_claimed := Some (iso_of t)\<rparr>"
    and l: "live_run w' ''w'' (queue_key run) = Some run" by blast
  have q: "sr_status run = RunClaimed" by (simp add: x)
  show ?thesis by (intro exI conjI) (fact c q l)+
qed

text \<open>C10: A claim finds work when there is some: if the queue holds a live pending run whose image
  the host offers and whose tools it has, the claim returns a run rather than nothing, without
  waiting.\<close>

theorem claim_finds_work:
  assumes inv: "sq_inv w" and ok: "ws_ok (sw_runs w) ws" and st: "\<And>v. storable (sw_runs w) v"
    and r: "live_run w ws k = Some r" "sr_status r = RunPending" "host_satisfies h r"
    and img: "backslash \<notin> set (sr_image r)"
  shows "\<exists>run w'. claim_run ws h maxWait w = (Inr (Some run), w') \<and> sw_now w' = sw_now w"
  by (rule claim_run_some [OF inv ok st r img])

theorem claim_finds_work_witness:
  "\<exists>run w'. claim_run ''w'' (demo_host ''h'') (Some 0) demo_runs = (Inr (Some run), w')"
proof -
  have "live_run demo_runs ''w'' (queue_key (demo_run ''a'')) = Some (demo_run ''a'')"
    using demo_live [of "''a''" 5] by (simp add: demo_runs_def)
  from claim_finds_work [OF demo_runs_inv(1,2,3) this demo_fit] show ?thesis by blast
qed

text \<open>A claim always returns: within its wait, capped at 25 seconds, plus less than one poll
  interval; and it comes back empty-handed only after the whole wait, or at once from a host that
  offers no image, leaving the queue as it was.\<close>

theorem claim_run_returns:
  assumes inv: "sq_inv w" and ok: "ws_ok (sw_runs w) ws"
    and wait: "wait = min (case maxWait of None \<Rightarrow> 25000 | Some m \<Rightarrow> m) 25000"
  shows "\<exists>res w'. claim_run ws h maxWait w = (res, w') \<and> sw_now w \<le> sw_now w' \<and> sw_now w' < sw_now w + max 0 wait + 500 \<and>
    (res = Inr None \<longrightarrow> (host_images h = [] \<or> sw_now w + wait \<le> sw_now w') \<and> w' = w\<lparr>sw_now := sw_now w'\<rparr>)"
proof (cases "host_images h = []")
  case False
  obtain res w' where l: "claim_loop ws h (sw_now w + wait) w = (res, w')" by (cases "claim_loop ws h (sw_now w + wait) w")
  then have "claim_run ws h maxWait w = (res, w')" using False by (simp add: claim_run_def wait MAX_CLAIM_WAIT_MS_def cong: option.case_cong)
  with claim_loop_time [OF inv ok l] show ?thesis by auto
qed (simp add: claim_run_def)

theorem claim_run_returns_witness:
  "\<exists>res w'. claim_run ''w'' (demo_host ''h'') (Some 1200) demo_runs = (res, w') \<and> sw_now w' < sw_now demo_runs + 1700"
  using claim_run_returns [OF demo_runs_inv(1,2) refl, of "demo_host ''h''" "Some 1200"] by auto

text \<open>Two claims one after the other, by any hosts and however much later, never return the
  same run.\<close>

theorem successive_claims_differ:
  assumes inv: "sq_inv w" and ok: "ws_ok (sw_runs w) ws"
    and a: "claim_run ws hostA waitA w = (Inr (Some runA), w1)" and later: "sw_now w1 \<le> t"
    and b: "claim_run ws hostB waitB (w1\<lparr>sw_now := t\<rparr>) = (Inr (Some runB), w2)"
  shows "queue_key runB \<noteq> queue_key runA"
proof
  assume same: "queue_key runB = queue_key runA"
  from claim_run_from [OF inv ok a] obtain t0 r where r: "runA = claimed_run t0 hostA r"
    and wr: "write_queued ws (claimed_run t0 hostA r) (w\<lparr>sw_now := t0\<rparr>) = (Inr (), w1)" .
  let ?w = "w\<lparr>sw_now := t0\<rparr>"
  have inv0: "sq_inv ?w" and ok0: "ws_ok (sw_runs ?w) ws" using inv ok by simp_all
  have facts: "sq_inv w1 \<and> ws_ok (sw_runs w1) ws \<and>
      (\<forall>u x. live_run (w1\<lparr>sw_now := u\<rparr>) ws (queue_key runA) = Some x \<longrightarrow> x = runA)"
  proof (rule write_queued_cases [OF inv0 ok0, of "claimed_run t0 hostA r"])
    fix d assume 1: "write_queued ws (claimed_run t0 hostA r) ?w = (Inr (), ?w\<lparr>sw_runs := d\<rparr>)"
      and 2: "sq_inv (?w\<lparr>sw_runs := d\<rparr>)" and 3: "addr_ok d = addr_ok (sw_runs ?w)"
      and 4: "\<And>t x. live_run (?w\<lparr>sw_runs := d, sw_now := t\<rparr>) ws (queue_key (claimed_run t0 hostA r)) = Some x
          \<Longrightarrow> x = claimed_run t0 hostA r"
    from 1 wr have w1: "w1 = ?w\<lparr>sw_runs := d\<rparr>" by simp
    have "ws_ok (sw_runs w1) ws" using ok ws_ok_cong [of d "sw_runs w"] 3 by (simp add: w1)
    with 2 4 show ?thesis by (auto simp: w1 r)
  qed (use wr in simp)
  have inv1: "sq_inv (w1\<lparr>sw_now := t\<rparr>)" and ok1: "ws_ok (sw_runs (w1\<lparr>sw_now := t\<rparr>)) ws" using facts by simp_all
  from claim_run_from [OF inv1 ok1 b] obtain t' r' where b': "runB = claimed_run t' hostB r'"
    "live_run (w1\<lparr>sw_now := t\<rparr>\<lparr>sw_now := t'\<rparr>) ws (queue_key r') = Some r'" "sr_status r' = RunPending" .
  with same have "r' = runA" using facts by simp
  with b'(3) show False by (simp add: r claimed_run_def)
qed

theorem successive_claims_differ_witness:
  "\<exists>runA w1 runB w2. claim_run ''w'' (demo_host ''g'') None demo_runs = (Inr (Some runA), w1)
    \<and> claim_run ''w'' (demo_host ''h'') None w1 = (Inr (Some runB), w2) \<and> queue_key runB \<noteq> queue_key runA"
proof -
  obtain runA w1 where a: "claim_run ''w'' (demo_host ''g'') None demo_runs = (Inr (Some runA), w1)"
    using demo_claim by blast
  define other where "other = (if queue_key runA = queue_key (demo_run ''a'') then ''b'' else ''a'')"
  have o: "other \<in> {''a'', ''b''}" "queue_key (demo_run other) \<noteq> queue_key runA"
    using demo_keys by (auto simp: other_def)
  from claim_run_effect [OF demo_runs_inv(1,2) a, of "queue_key (demo_run other)"] o(2) obtain t where
    i: "sq_inv w1" and l: "live_run w1 ''w'' (queue_key (demo_run other)) =
      live_run (demo_runs\<lparr>sw_now := t\<rparr>) ''w'' (queue_key (demo_run other))" by blast
  from claim_run_conf [OF demo_runs_inv(1,2) a] have cf: "ws_ok (sw_runs w1) ''w''" "\<And>v. storable (sw_runs w1) v"
    using demo_runs_inv(2,3) ws_ok_cong by auto
  obtain runB w2 where b: "claim_run ''w'' (demo_host ''h'') None w1 = (Inr (Some runB), w2)"
    using claim_run_some [OF i cf, OF trans [OF l demo_live [OF o(1)]] demo_fit] by blast
  have same: "w1\<lparr>sw_now := sw_now w1\<rparr> = w1" by simp
  from successive_claims_differ [OF demo_runs_inv(1,2) a order_refl, unfolded same, OF b] a b show ?thesis by blast
qed

text \<open>The read-back does not close the race between two claimants that both read a run as
  pending: when one writes and reads back before the other writes, both keep the run.\<close>

theorem overlapping_claims_both_keep:
  assumes inv: "sq_inv w" and ok: "ws_ok (sw_runs w) ws" and st: "\<And>v. storable (sw_runs w) v"
    and r: "live_run w ws k = Some r" "claimable hostA (Some r) = Some r" "claimable hostB (Some r) = Some r"
  shows "\<exists>w1 w2. claim_write ws hostA r w = (Inr (), w1)
    \<and> claim_read_back ws hostA k w1 = (Inr (Some (claimed_run (sw_now w) hostA r)), w1)
    \<and> claim_write ws hostB r w1 = (Inr (), w2)
    \<and> claim_read_back ws hostB k w2 = (Inr (Some (claimed_run (sw_now w) hostB r)), w2)"
proof -
  have k: "queue_key r = k" by (rule live_run_key [OF inv r(1)])
  have one: "\<exists>w1. claim_write ws h r w = (Inr (), w1)
      \<and> claim_read_back ws h k w1 = (Inr (Some (claimed_run (sw_now w) h r)), w1)
      \<and> sq_inv w1 \<and> ws_ok (sw_runs w1) ws \<and> (\<forall>v. storable (sw_runs w1) v) \<and> sw_now w1 = sw_now w"
    if "sq_inv w" "ws_ok (sw_runs w) ws" "\<forall>v. storable (sw_runs w) v" for w h
  proof (rule write_queued_cases [OF that(1,2), of "claimed_run (sw_now w) h r"])
    fix d assume wr: "write_queued ws (claimed_run (sw_now w) h r) w = (Inr (), w\<lparr>sw_runs := d\<rparr>)"
      and i: "sq_inv (w\<lparr>sw_runs := d\<rparr>)"
      and lv: "\<And>k. live_run (w\<lparr>sw_runs := d\<rparr>) ws k =
        (if k = queue_key (claimed_run (sw_now w) h r) then Some (claimed_run (sw_now w) h r) else live_run w ws k)"
      and conf: "addr_ok d = addr_ok (sw_runs w)" "storable d = storable (sw_runs w)"
    have "live_run (w\<lparr>sw_runs := d\<rparr>) ws k = Some (claimed_run (sw_now w) h r)" using lv [of k] k by simp
    then have "claim_read_back ws h k (w\<lparr>sw_runs := d\<rparr>) = (Inr (Some (claimed_run (sw_now w) h r)), w\<lparr>sw_runs := d\<rparr>)"
      by (simp add: claim_read_back_def bindM_run fetch_run_live [OF i]) (simp add: claimed_run_def)
    with wr i conf that ws_ok_cong [OF conf(1)] show ?thesis
      by (intro exI [of _ "w\<lparr>sw_runs := d\<rparr>"]) (simp add: claim_write_def bindM_run)
  qed (use that in blast)
  from one [OF inv ok] st obtain w1 where 1: "claim_write ws hostA r w = (Inr (), w1)"
    "claim_read_back ws hostA k w1 = (Inr (Some (claimed_run (sw_now w) hostA r)), w1)"
    "sq_inv w1" "ws_ok (sw_runs w1) ws" "\<forall>v. storable (sw_runs w1) v" "sw_now w1 = sw_now w" by blast
  from one [OF 1(3,4,5), of hostB] 1(1,2,6) show ?thesis by fastforce
qed

theorem overlapping_claims_both_keep_witness:
  "\<exists>w1 w2. claim_read_back ''w'' (demo_host ''g'') (queue_key (demo_run ''a'')) w1
      = (Inr (Some (claimed_run 5 (demo_host ''g'') (demo_run ''a''))), w1)
    \<and> claim_write ''w'' (demo_host ''h'') (demo_run ''a'') w1 = (Inr (), w2)
    \<and> claim_read_back ''w'' (demo_host ''h'') (queue_key (demo_run ''a'')) w2
      = (Inr (Some (claimed_run 5 (demo_host ''h'') (demo_run ''a''))), w2)"
proof -
  have l: "live_run demo_runs ''w'' (queue_key (demo_run ''a'')) = Some (demo_run ''a'')"
    using demo_live [of "''a''" 5] by (simp add: demo_runs_def)
  have c: "claimable (demo_host j) (Some (demo_run ''a'')) = Some (demo_run ''a'')" for j
    by (simp add: claimable_Some demo_fit)
  have now: "sw_now demo_runs = 5" by (simp add: demo_runs_def)
  from overlapping_claims_both_keep [OF demo_runs_inv(1,2,3) l c c, unfolded now] show ?thesis by blast
qed

end
