(* ===== verification/Leader.thy ===== *)
theory Leader
  imports Doc_Store Grants
begin

text \<open>
  \<^verbatim>\<open>server/workspace/src/runtime/leader.ts\<close> and the tick of \<^verbatim>\<open>runtime/cron.ts\<close>: the lease that
  elects the process which runs the cron tick. Processes share one record store; each keeps a
  flag and a timer. The theorems: while a lease runs, nobody else gets it, and a process that
  missed its own expiry takes a successor's lease away when it stops.
\<close>

definition LEASE_TENANT :: string where
  "LEASE_TENANT = ''_runtime''"

definition LEASE_SCOPE :: string where
  "LEASE_SCOPE = ''leader''"

definition LEASE_TTL_MS :: int where
  "LEASE_TTL_MS = 90000"

definition LEASE_RENEW_MS :: int where
  "LEASE_RENEW_MS = 30000"

record lease_record =
  lr_holder :: string
  lr_expires :: int

definition is_lease :: "json \<Rightarrow> lease_record option" where
  "is_lease value =
     (case (jprop value ''holder'', jprop value ''expiresAt'') of
        (JStr h, JNum e) \<Rightarrow> Some \<lparr>lr_holder = h, lr_expires = e\<rparr>
      | _ \<Rightarrow> None)"

definition lease_doc :: "lease_record \<Rightarrow> json" where
  "lease_doc l = JObj [(''holder'', JStr (lr_holder l)), (''expiresAt'', JNum (lr_expires l))]"

text \<open>A lease object: its process id, whether it believes to hold the lease, and its timer.\<close>

record lease_proc =
  lp_holder :: string
  lp_has :: bool
  lp_timer :: bool

type_synonym lease_state = "lease_proc \<times> json db"

abbreviation lease_addr :: "string \<Rightarrow> addr" where
  "lease_addr name \<equiv> (LEASE_TENANT, LEASE_SCOPE, name)"

definition set_has :: "bool \<Rightarrow> lease_state \<Rightarrow> lease_state" where
  "set_has b = apfst (\<lambda>p. p\<lparr>lp_has := b\<rparr>)"

definition set_timer :: "bool \<Rightarrow> lease_state \<Rightarrow> lease_state" where
  "set_timer b = apfst (\<lambda>p. p\<lparr>lp_timer := b\<rparr>)"

definition on_lease_store :: "(json db, 'a) prog \<Rightarrow> (lease_state, 'a) prog" where
  "on_lease_store = zoom snd (\<lambda>d (p, _). (p, d))"

text \<open>\<^verbatim>\<open>acquire\<close> in its two halves, since it awaits the read: a failed read counts as no lease.\<close>

definition read_lease :: "string \<Rightarrow> int \<Rightarrow> json db \<Rightarrow> lease_record option" where
  "read_lease name now db =
     (case rs_get now db (lease_addr name) of
        Inr (Some en) \<Rightarrow> is_lease (en_value en)
      | _ \<Rightarrow> None)"

definition may_take :: "string \<Rightarrow> int \<Rightarrow> lease_record option \<Rightarrow> bool" where
  "may_take holder now lease =
     (case lease of None \<Rightarrow> True | Some l \<Rightarrow> lr_holder l = holder \<or> lr_expires l \<le> now)"

definition take_lease :: "string \<Rightarrow> int \<Rightarrow> lease_record option \<Rightarrow> (lease_state, bool) prog" where
  "take_lease name now lease =
     bindM (gets (\<lambda>s. lp_holder (fst s))) (\<lambda>holder.
     if \<not> may_take holder now lease then thenM (modifyM (set_has False)) (ret False)
     else (let expiresAt = now + LEASE_TTL_MS in
       thenM (bindM (on_lease_store (put_doc now (lease_addr name)
               (lease_doc \<lparr>lr_holder = holder, lr_expires = expiresAt\<rparr>) holder
               (Some ((expiresAt + LEASE_TTL_MS) div 1000)))) (\<lambda>_. ret ()))
         (thenM (modifyM (set_has True)) (ret True))))"

definition acquire :: "string \<Rightarrow> int \<Rightarrow> (lease_state, bool) prog" where
  "acquire name now = bindM (gets (\<lambda>s. read_lease name now (snd s))) (take_lease name now)"

text \<open>The interval callback of \<^verbatim>\<open>start\<close>: a failed renewal clears the flag.\<close>

definition renew :: "string \<Rightarrow> int \<Rightarrow> (lease_state, unit) prog" where
  "renew name now =
     catchM (bindM (acquire name now) (\<lambda>_. ret ())) (\<lambda>_. modifyM (set_has False))"

definition start_lease :: "string \<Rightarrow> int \<Rightarrow> (lease_state, unit) prog" where
  "start_lease name now =
     bindM (gets (\<lambda>s. lp_timer (fst s))) (\<lambda>running.
     if running then ret ()
     else thenM (catchM (bindM (acquire name now) (\<lambda>_. ret ())) (\<lambda>_. ret ())) (modifyM (set_timer True)))"

definition release_lease :: "string \<Rightarrow> (lease_state, unit) prog" where
  "release_lease name =
     thenM (modifyM (set_timer False))
       (bindM (gets (\<lambda>s. lp_has (fst s))) (\<lambda>has.
        if \<not> has then ret ()
        else thenM (modifyM (set_has False))
               (catchM (bindM (on_lease_store (del_doc (lease_addr name))) (\<lambda>_. ret ())) (\<lambda>_. ret ()))))"

text \<open>Whether the minute tick of \<^verbatim>\<open>startCronScheduler\<close> runs, and how long it waits for it.\<close>

definition cron_tick_runs :: "bool \<Rightarrow> lease_proc \<Rightarrow> bool" where
  "cron_tick_runs stopped p \<longleftrightarrow> \<not> (stopped \<or> \<not> lp_has p)"

definition next_minute_delay :: "int \<Rightarrow> int" where
  "next_minute_delay now = 60000 - now mod 60000 + 50"

section \<open>A deployment\<close>

record deployment =
  dp_now :: int
  dp_store :: "json db"
  dp_proc :: "string \<Rightarrow> lease_proc"

definition on_proc :: "string \<Rightarrow> (lease_state, 'a) prog \<Rightarrow> (deployment, 'a) prog" where
  "on_proc h p w =
     (case p (dp_proc w h, dp_store w) of
        (r, (q, db)) \<Rightarrow> (r, w\<lparr>dp_proc := (dp_proc w)(h := q), dp_store := db\<rparr>))"

inductive lease_step :: "string \<Rightarrow> string \<Rightarrow> deployment \<Rightarrow> deployment \<Rightarrow> bool" for name leader where
  wait: "0 \<le> d \<Longrightarrow> lease_step name leader w (w\<lparr>dp_now := dp_now w + d\<rparr>)"
| tick: "lease_step name leader w (snd (on_proc h (renew name (dp_now w)) w))"
| begin_renewing: "lease_step name leader w (snd (on_proc h (start_lease name (dp_now w)) w))"
| stop: "h \<noteq> leader \<Longrightarrow> lease_step name leader w (snd (on_proc h (release_lease name) w))"

definition dp_ok :: "string \<Rightarrow> deployment \<Rightarrow> bool" where
  "dp_ok name w \<longleftrightarrow> db_inv (dp_store w) \<and> addr_ok (dp_store w) (lease_addr name) \<and>
     (\<forall>h. lp_holder (dp_proc w h) = h)"

text \<open>Until the deadline every read of the store finds the leader's lease, and no other process
  believes to hold it.\<close>

definition lease_kept :: "string \<Rightarrow> string \<Rightarrow> int \<Rightarrow> deployment \<Rightarrow> bool" where
  "lease_kept name leader deadline w \<longleftrightarrow> dp_ok name w \<and> deadline \<le> dp_now w + LEASE_TTL_MS \<and>
     (\<exists>l. lr_holder l = leader \<and> deadline \<le> lr_expires l \<and>
        (\<forall>t < deadline. read_lease name t (dp_store w) = Some l)) \<and>
     (\<forall>h. h \<noteq> leader \<longrightarrow> \<not> lp_has (dp_proc w h))"

lemma is_lease_doc [simp]: "is_lease (lease_doc l) = Some l"
  by (simp add: is_lease_def lease_doc_def)

lemma acquire_cases:
  assumes ok: "dp_ok name w" and a: "on_proc h (acquire name (dp_now w)) w = (res, w')"
  obtains
    (refused) "\<not> may_take h (dp_now w) (read_lease name (dp_now w) (dp_store w))" "res = Inr False"
      "w' = w\<lparr>dp_proc := (dp_proc w)(h := (dp_proc w h)\<lparr>lp_has := False\<rparr>)\<rparr>"
  | (failed) e where "may_take h (dp_now w) (read_lease name (dp_now w) (dp_store w))" "res = Inl e" "w' = w"
      "\<not> storable (dp_store w) (lease_doc \<lparr>lr_holder = h, lr_expires = dp_now w + LEASE_TTL_MS\<rparr>)"
  | (taken) d where "may_take h (dp_now w) (read_lease name (dp_now w) (dp_store w))" "res = Inr True"
      "w' = w\<lparr>dp_store := d, dp_proc := (dp_proc w)(h := (dp_proc w h)\<lparr>lp_has := True\<rparr>)\<rparr>"
      "dp_ok name w'" "storable d = storable (dp_store w)"
      "\<And>t. t < dp_now w + LEASE_TTL_MS \<Longrightarrow> read_lease name t d = Some \<lparr>lr_holder = h, lr_expires = dp_now w + LEASE_TTL_MS\<rparr>"
      "\<And>t. read_lease name t d \<in> {None, Some \<lparr>lr_holder = h, lr_expires = dp_now w + LEASE_TTL_MS\<rparr>}"
proof -
  let ?l = "\<lparr>lr_holder = h, lr_expires = dp_now w + LEASE_TTL_MS\<rparr>"
  let ?ex = "Some ((dp_now w + LEASE_TTL_MS + LEASE_TTL_MS) div 1000)"
  have h: "lp_holder (dp_proc w h) = h" and inv: "db_inv (dp_store w)" and ad: "addr_ok (dp_store w) (lease_addr name)"
    using ok by (simp_all add: dp_ok_def)
  obtain r d where p: "put_doc (dp_now w) (lease_addr name) (lease_doc ?l) h ?ex (dp_store w) = (r, d)"
    by (cases "put_doc (dp_now w) (lease_addr name) (lease_doc ?l) h ?ex (dp_store w)")
  show thesis
  proof (cases "may_take h (dp_now w) (read_lease name (dp_now w) (dp_store w))")
    case False
    with a show thesis
      by (intro refused) (auto simp: on_proc_def acquire_def take_lease_def bindM_run thenM_run h set_has_def)
  next
    case True
    show thesis
    proof (cases r)
      case (Inl e)
      with True a p h rs.put_fail [OF p [unfolded Inl]] have "res = Inl e" "w' = w"
        by (auto simp: on_proc_def acquire_def take_lease_def bindM_run thenM_run Let_def on_lease_store_def zoom_run)
      moreover have "\<not> storable (dp_store w) (lease_doc ?l)"
        using rs.put_total [of "dp_store w" "lease_doc ?l" "dp_now w" "lease_addr name" h ?ex] p Inl by auto
      ultimately show thesis using True by (intro failed)
    next
      case (Inr en)
      note p' = p [unfolded Inr]
      from True a p' h have eq: "res = Inr True"
        "w' = w\<lparr>dp_store := d, dp_proc := (dp_proc w)(h := (dp_proc w h)\<lparr>lp_has := True\<rparr>)\<rparr>"
        by (auto simp: on_proc_def acquire_def take_lease_def bindM_run thenM_run Let_def on_lease_store_def
            zoom_run set_has_def)
      have conf: "addr_ok d = addr_ok (dp_store w)" "storable d = storable (dp_store w)"
        using rs.put_conf [OF p'] by blast+
      show thesis
      proof (rule taken [OF True eq _ conf(2)])
        show "dp_ok name w'"
          using ok rs.put_inv [OF inv ad p'] by (simp add: dp_ok_def eq(2) conf(1))
        show "read_lease name t d \<in> {None, Some ?l}" for t
          using put_doc_abs(1) [OF inv ad p']
          by (auto simp: read_lease_def rs_get_abs [OF rs.put_inv [OF inv ad p']] spec_get_def spec_set_def)
        fix t assume t: "t < dp_now w + LEASE_TTL_MS"
        have "expiry_live t ?ex" using t by (simp add: expiry_live_def LEASE_TTL_MS_def)
        from rs.put_get [OF inv ad p' this] show "read_lease name t d = Some ?l"
          by (simp add: read_lease_def)
      qed
    qed
  qed
qed

lemma renew_run:
  assumes "on_proc h (acquire name now) w = (r, w1)"
  shows "snd (on_proc h (renew name now) w) =
    (case r of Inr b \<Rightarrow> w1 | Inl e \<Rightarrow> w1\<lparr>dp_proc := (dp_proc w1)(h := (dp_proc w1 h)\<lparr>lp_has := False\<rparr>)\<rparr>)"
  using assms by (auto simp: on_proc_def renew_def catchM_run bindM_run set_has_def split: prod.splits sum.splits)

lemma start_run:
  assumes "on_proc h (acquire name now) w = (r, w1)"
  shows "snd (on_proc h (start_lease name now) w) =
    (if lp_timer (dp_proc w h) then w
     else w1\<lparr>dp_proc := (dp_proc w1)(h := (dp_proc w1 h)\<lparr>lp_timer := True\<rparr>)\<rparr>)"
  using assms by (auto simp: on_proc_def start_lease_def catchM_run bindM_run thenM_run set_timer_def
      split: prod.splits sum.splits)

lemma release_run:
  "snd (on_proc h (release_lease name) w) =
    (if lp_has (dp_proc w h)
     then w\<lparr>dp_proc := (dp_proc w)(h := (dp_proc w h)\<lparr>lp_timer := False, lp_has := False\<rparr>),
            dp_store := snd (del_doc (lease_addr name) (dp_store w))\<rparr>
     else w\<lparr>dp_proc := (dp_proc w)(h := (dp_proc w h)\<lparr>lp_timer := False\<rparr>)\<rparr>)"
  by (auto simp: on_proc_def release_lease_def catchM_run bindM_run thenM_run set_timer_def set_has_def
      on_lease_store_def zoom_run split: prod.splits sum.splits)

lemma now_on_proc [simp]: "dp_now (snd (on_proc h p w)) = dp_now w"
  by (simp add: on_proc_def split: prod.splits)

lemma kept_refuses:
  assumes "lease_kept name leader dl w" and "dp_now w < dl" and "h \<noteq> leader"
  shows "\<not> may_take h (dp_now w) (read_lease name (dp_now w) (dp_store w))"
  using assms by (auto simp: lease_kept_def may_take_def)

lemma kept_procs:
  assumes "lease_kept name leader dl w" and "\<And>k. lp_holder (f k) = k" and "\<And>k. k \<noteq> leader \<Longrightarrow> \<not> lp_has (f k)"
  shows "lease_kept name leader dl (w\<lparr>dp_proc := f\<rparr>)"
  using assms by (auto simp: lease_kept_def dp_ok_def)

lemma kept_acquire:
  assumes k: "lease_kept name leader dl w" and now: "dp_now w < dl"
    and a: "on_proc h (acquire name (dp_now w)) w = (r, w')"
  shows "lease_kept name leader dl w'"
proof -
  have ok: "dp_ok name w" and dl: "dl \<le> dp_now w + LEASE_TTL_MS"
    and off: "\<And>k. k \<noteq> leader \<Longrightarrow> \<not> lp_has (dp_proc w k)" and hol: "\<And>k. lp_holder (dp_proc w k) = k"
    using k by (auto simp: lease_kept_def dp_ok_def)
  from ok a show ?thesis
  proof (cases rule: acquire_cases)
    case refused
    then show ?thesis using k off hol by (auto intro!: kept_procs split: if_splits)
  next
    case failed
    with k show ?thesis by simp
  next
    case (taken d)
    have "h = leader" using kept_refuses [OF k now, of h] taken(1) by blast
    with taken dl off hol show ?thesis
      by (auto simp: lease_kept_def intro!: exI [of _ "\<lparr>lr_holder = leader, lr_expires = dp_now w + LEASE_TTL_MS\<rparr>"])
  qed
qed

lemma kept_step:
  assumes k: "lease_kept name leader dl w" and s: "lease_step name leader w w'" and now: "dp_now w' < dl"
  shows "lease_kept name leader dl w' \<and> dp_now w \<le> dp_now w'"
proof -
  have off: "\<And>k. k \<noteq> leader \<Longrightarrow> \<not> lp_has (dp_proc v k)" and hol: "\<And>k. lp_holder (dp_proc v k) = k"
    if "lease_kept name leader dl v" for v
    using that by (auto simp: lease_kept_def dp_ok_def)
  from s show ?thesis
  proof cases
    case (wait d)
    with k show ?thesis by (auto simp: lease_kept_def dp_ok_def)
  next
    case (tick h)
    obtain r w1 where a: "on_proc h (acquire name (dp_now w)) w = (r, w1)"
      by (cases "on_proc h (acquire name (dp_now w)) w")
    have "dp_now w < dl" using now by (simp add: tick)
    note k1 = kept_acquire [OF k this a]
    have n1: "dp_now w1 = dp_now w" using now_on_proc [of h "acquire name (dp_now w)" w] a by simp
    show ?thesis
      using k1 off [OF k1] hol [OF k1] n1
      by (auto simp: tick renew_run [OF a] intro!: kept_procs split: sum.splits if_splits)
  next
    case (begin_renewing h)
    obtain r w1 where a: "on_proc h (acquire name (dp_now w)) w = (r, w1)"
      by (cases "on_proc h (acquire name (dp_now w)) w")
    have "dp_now w < dl" using now by (simp add: begin_renewing)
    note k1 = kept_acquire [OF k this a]
    have n1: "dp_now w1 = dp_now w" using now_on_proc [of h "acquire name (dp_now w)" w] a by simp
    show ?thesis
      using k k1 off [OF k1] hol [OF k1] n1
      by (auto simp: begin_renewing start_run [OF a] intro!: kept_procs split: sum.splits if_splits)
  next
    case (stop h)
    with off [OF k, of h] have "\<not> lp_has (dp_proc w h)" by blast
    with k off [OF k] hol [OF k] show ?thesis
      by (auto simp: stop(1) release_run intro!: kept_procs split: if_splits)
  qed
qed

lemma kept_steps:
  assumes "(lease_step name leader)\<^sup>*\<^sup>* w w'" and "lease_kept name leader dl w" and "dp_now w' < dl"
  shows "lease_kept name leader dl w' \<and> dp_now w \<le> dp_now w'"
  using assms
proof (induction rule: converse_rtranclp_induct)
  case (step w v)
  have later: "dp_now x \<le> dp_now y" if "(lease_step name leader)\<^sup>*\<^sup>* x y" for x y
    using that
  proof (induction rule: rtranclp_induct)
    case (step y z)
    from step.hyps(2) have "dp_now y \<le> dp_now z" by cases auto
    with step.IH show ?case by simp
  qed simp
  from kept_step [OF step.prems(1) step.hyps(1)] later [OF step.hyps(2)] step.prems(2)
  have "lease_kept name leader dl v" "dp_now w \<le> dp_now v" by auto
  with step.IH step.prems(2) show ?case by auto
qed simp

lemma acquire_free:
  assumes ok: "dp_ok name w" and fits: "\<And>v. storable (dp_store w) v"
    and free: "may_take h (dp_now w) (read_lease name (dp_now w) (dp_store w))"
  shows "\<exists>w'. on_proc h (acquire name (dp_now w)) w = (Inr True, w') \<and> lp_has (dp_proc w' h)
    \<and> (\<forall>k. k \<noteq> h \<longrightarrow> dp_proc w' k = dp_proc w k)"
proof -
  obtain r w' where a: "on_proc h (acquire name (dp_now w)) w = (r, w')"
    by (cases "on_proc h (acquire name (dp_now w)) w")
  from ok a show ?thesis
  proof (cases rule: acquire_cases)
    case (taken d)
    with a show ?thesis by auto
  qed (use free fits in blast)+
qed

lemma release_vacates:
  assumes ok: "dp_ok name w" and has: "lp_has (dp_proc w h)"
  shows "dp_ok name (snd (on_proc h (release_lease name) w))"
    "read_lease name t (dp_store (snd (on_proc h (release_lease name) w))) = None"
    "storable (dp_store (snd (on_proc h (release_lease name) w))) = storable (dp_store w)"
proof -
  obtain b d where d: "del_doc (lease_addr name) (dp_store w) = (b, d)"
    by (cases "del_doc (lease_addr name) (dp_store w)")
  have inv: "db_inv (dp_store w)" and ad: "addr_ok (dp_store w) (lease_addr name)"
    and hol: "\<And>k. lp_holder (dp_proc w k) = k" using ok by (simp_all add: dp_ok_def)
  have conf: "addr_ok d = addr_ok (dp_store w)" "storable d = storable (dp_store w)"
    using rs.del_conf [OF d] by blast+
  have st: "dp_store (snd (on_proc h (release_lease name) w)) = d" using has by (simp add: release_run d)
  show "dp_ok name (snd (on_proc h (release_lease name) w))"
    using rs.del_inv [OF inv ad d] ad conf hol has by (simp add: dp_ok_def release_run d)
  show "read_lease name t (dp_store (snd (on_proc h (release_lease name) w))) = None"
    unfolding st read_lease_def rs.del_get [OF inv ad d] by simp
  show "storable (dp_store (snd (on_proc h (release_lease name) w))) = storable (dp_store w)"
    unfolding st by (rule conf(2))
qed

section \<open>A concrete deployment\<close>

definition demo_deployment :: deployment where
  "demo_deployment = \<lparr>dp_now = 0, dp_store = doc_db JNull [], dp_proc = (\<lambda>h. \<lparr>lp_holder = h, lp_has = False, lp_timer = False\<rparr>)\<rparr>"

lemma demo_now [simp]: "dp_now demo_deployment = 0"
  by (simp add: demo_deployment_def)

lemma demo_lease: "read_lease ''cron'' t (dp_store demo_deployment) = None"
proof -
  have inv: "db_inv (doc_db JNull [])" by (intro doc_ok_inv doc_db_ok) simp
  show ?thesis
    by (simp add: demo_deployment_def read_lease_def rs_get_abs [OF inv] spec_get_def) (simp add: abs_db_def doc_db_def)
qed

lemma demo_deployment_ok: "dp_ok ''cron'' demo_deployment" "\<not> lp_has (dp_proc demo_deployment h)"
  "storable (dp_store demo_deployment) v"
proof -
  have "db_inv (doc_db JNull [])" by (intro doc_ok_inv doc_db_ok) simp
  then show "dp_ok ''cron'' demo_deployment" by (simp add: dp_ok_def demo_deployment_def)
qed (simp_all add: demo_deployment_def)

lemma demo_acquire: "\<exists>w1. on_proc h (acquire ''cron'' (dp_now demo_deployment)) demo_deployment = (Inr True, w1)"
proof -
  have "may_take h (dp_now demo_deployment) (read_lease ''cron'' (dp_now demo_deployment) (dp_store demo_deployment))"
    by (simp add: demo_lease may_take_def)
  from acquire_free [OF demo_deployment_ok(1) demo_deployment_ok(3) this] show ?thesis by blast
qed

section \<open>One leader at a time\<close>



text \<open>The lease is handed over: as soon as the process that took it stops, and equally once
  ninety seconds have passed without a renewal, the next process that asks gets it.\<close>

theorem lease_handover:
  assumes ok: "dp_ok name w" and fits: "\<And>v. storable (dp_store w) v"
    and take: "on_proc leader (acquire name (dp_now w)) w = (Inr True, w1)"
  shows "(\<exists>w2. on_proc h (acquire name t) (snd (on_proc leader (release_lease name) (w1\<lparr>dp_now := t\<rparr>))) = (Inr True, w2))
    \<and> (dp_now w + LEASE_TTL_MS \<le> t \<longrightarrow> (\<exists>w2. on_proc h (acquire name t) (w1\<lparr>dp_now := t\<rparr>) = (Inr True, w2)))"
  using ok take
proof (cases rule: acquire_cases)
  case (taken d)
  let ?w = "w1\<lparr>dp_now := t\<rparr>"
  have ok1: "dp_ok name ?w" using taken(4) by (simp add: dp_ok_def)
  have has: "lp_has (dp_proc ?w leader)" and fits1: "\<And>v. storable (dp_store ?w) v"
    and now: "dp_now ?w = t" using taken fits by simp_all
  let ?r = "snd (on_proc leader (release_lease name) ?w)"
  have "\<exists>w2. on_proc h (acquire name (dp_now ?r)) ?r = (Inr True, w2)"
    using acquire_free [OF release_vacates(1) [OF ok1 has], of h] release_vacates(2,3) [OF ok1 has] fits1
    by (auto simp: may_take_def)
  moreover have "\<exists>w2. on_proc h (acquire name (dp_now ?w)) ?w = (Inr True, w2)" if "dp_now w + LEASE_TTL_MS \<le> t"
  proof -
    have "may_take h (dp_now ?w) (read_lease name (dp_now ?w) (dp_store ?w))"
      using taken(7) [of t] that by (auto simp: may_take_def taken(3))
    from acquire_free [OF ok1 fits1 this] show ?thesis by blast
  qed
  ultimately show ?thesis by simp
qed auto

theorem lease_handover_witness:
  "\<exists>w1 w2. on_proc ''a'' (acquire ''cron'' 0) demo_deployment = (Inr True, w1)
    \<and> on_proc ''b'' (acquire ''cron'' 5) (snd (on_proc ''a'' (release_lease ''cron'') (w1\<lparr>dp_now := 5\<rparr>))) = (Inr True, w2)"
proof -
  obtain w1 where a: "on_proc ''a'' (acquire ''cron'' (dp_now demo_deployment)) demo_deployment = (Inr True, w1)"
    using demo_acquire by blast
  from lease_handover [OF demo_deployment_ok(1) demo_deployment_ok(3) a, where h = "''b''" and t = 5] a
  show ?thesis unfolding demo_now by blast
qed

text \<open>Exclusion is lost when a process that missed its own expiry stops: it deletes the lease
  of its successor, so a third process leads beside the successor at once.\<close>

theorem stale_stop_splits_leadership:
  assumes ok: "dp_ok name w" and fits: "\<And>v. storable (dp_store w) v" and stale: "lp_has (dp_proc w old)"
    and take: "on_proc successor (acquire name (dp_now w)) w = (Inr True, w1)"
    and ne: "old \<noteq> successor" "third \<noteq> successor"
  shows "\<exists>w2. on_proc third (acquire name (dp_now w)) (snd (on_proc old (release_lease name) w1)) = (Inr True, w2)
    \<and> cron_tick_runs False (dp_proc w2 successor) \<and> cron_tick_runs False (dp_proc w2 third)"
  using ok take
proof (cases rule: acquire_cases)
  case (taken d)
  have has: "lp_has (dp_proc w1 old)" "lp_has (dp_proc w1 successor)" using taken(3) stale ne by simp_all
  let ?r = "snd (on_proc old (release_lease name) w1)"
  have fits1: "\<And>v. storable (dp_store ?r) v"
    using release_vacates(3) [OF taken(4) has(1)] taken(3,5) fits by simp
  have free: "may_take third (dp_now ?r) (read_lease name (dp_now ?r) (dp_store ?r))"
    using release_vacates(2) [OF taken(4) has(1)] by (simp add: may_take_def)
  have now: "dp_now ?r = dp_now w" using taken(3) by simp
  have "lp_has (dp_proc ?r successor)" using has ne by (simp add: release_run)
  with acquire_free [OF release_vacates(1) [OF taken(4) has(1)] fits1 free] ne(2) show ?thesis
    unfolding now by (auto simp: cron_tick_runs_def)
qed auto

theorem stale_stop_splits_leadership_witness:
  "\<exists>w w1 w2. on_proc ''b'' (acquire ''cron'' 90000) w = (Inr True, w1)
    \<and> on_proc ''c'' (acquire ''cron'' 90000) (snd (on_proc ''a'' (release_lease ''cron'') w1)) = (Inr True, w2)
    \<and> lp_has (dp_proc w2 ''b'') \<and> lp_has (dp_proc w2 ''c'')"
proof -
  let ?w = "demo_deployment\<lparr>dp_now := 90000, dp_proc := (dp_proc demo_deployment)(''a'' := \<lparr>lp_holder = ''a'', lp_has = True, lp_timer = True\<rparr>)\<rparr>"
  have ok: "dp_ok ''cron'' ?w" using demo_deployment_ok(1) by (simp add: dp_ok_def)
  have fits: "\<And>v. storable (dp_store ?w) v" using demo_deployment_ok(3) by simp
  have "may_take ''b'' (dp_now ?w) (read_lease ''cron'' (dp_now ?w) (dp_store ?w))"
    using demo_lease by (simp add: may_take_def)
  from acquire_free [OF ok fits this] obtain w1 where a: "on_proc ''b'' (acquire ''cron'' (dp_now ?w)) ?w = (Inr True, w1)"
    by blast
  from stale_stop_splits_leadership [OF ok fits _ a, of "''a''" "''c''"] a show ?thesis
    by (auto simp: cron_tick_runs_def)
qed

text \<open>Two contenders that both read the lease before either writes it both lead.\<close>

lemma both_readers_lead:
  assumes ok: "dp_ok name w" and fits: "\<And>v. storable (dp_store w) v" and ne: "a \<noteq> b"
    and free: "may_take a now lease" "may_take b now lease"
  shows "\<exists>w1 w2. on_proc a (take_lease name now lease) w = (Inr True, w1)
    \<and> on_proc b (take_lease name now lease) w1 = (Inr True, w2) \<and> lp_has (dp_proc w2 a) \<and> lp_has (dp_proc w2 b)"
proof -
  have one: "\<exists>d. on_proc h (take_lease name now lease) v =
      (Inr True, v\<lparr>dp_store := d, dp_proc := (dp_proc v)(h := (dp_proc v h)\<lparr>lp_has := True\<rparr>)\<rparr>)
      \<and> storable d = storable (dp_store v)"
    if hol: "lp_holder (dp_proc v h) = h" and f: "\<And>x. storable (dp_store v) x" and m: "may_take h now lease" for v h
  proof -
    let ?v = "lease_doc \<lparr>lr_holder = h, lr_expires = now + LEASE_TTL_MS\<rparr>"
    obtain d where p: "put_doc now (lease_addr name) ?v h (Some ((now + LEASE_TTL_MS + LEASE_TTL_MS) div 1000)) (dp_store v)
        = (Inr (mk_entry (lease_addr name) ?v now h), d)"
      using rs.put_total [OF f] by blast
    with m hol rs.put_conf [OF p] show ?thesis
      by (intro exI [of _ d]) (auto simp: on_proc_def take_lease_def bindM_run thenM_run Let_def on_lease_store_def zoom_run set_has_def)
  qed
  have hol: "\<And>h. lp_holder (dp_proc w h) = h" using ok by (simp add: dp_ok_def)
  from one [OF hol fits free(1)] obtain d where 1: "on_proc a (take_lease name now lease) w =
      (Inr True, w\<lparr>dp_store := d, dp_proc := (dp_proc w)(a := (dp_proc w a)\<lparr>lp_has := True\<rparr>)\<rparr>)"
    and f: "storable d = storable (dp_store w)" by blast
  let ?w1 = "w\<lparr>dp_store := d, dp_proc := (dp_proc w)(a := (dp_proc w a)\<lparr>lp_has := True\<rparr>)\<rparr>"
  have "lp_holder (dp_proc ?w1 b) = b" "\<And>x. storable (dp_store ?w1) x" using hol f fits ne by simp_all
  from one [OF this free(2)] obtain d2 where 2: "on_proc b (take_lease name now lease) ?w1 =
      (Inr True, ?w1\<lparr>dp_store := d2, dp_proc := (dp_proc ?w1)(b := (dp_proc ?w1 b)\<lparr>lp_has := True\<rparr>)\<rparr>)" by blast
  show ?thesis by (rule exI [of _ ?w1], rule exI, intro conjI, rule 1, rule 2) (use ne in simp_all)
qed

end
