(* ===== verification/Cron.thy ===== *)
theory Cron
  imports Js_Date
begin

text \<open>
  \<^verbatim>\<open>server/workspace/src/workflows/cron.ts\<close>: the five-field cron matcher. The parser works on
  the text as the source does, with \<^verbatim>\<open>Number\<close> reading the numbers; the theorem relates it to a
  grammar of schedules and their meaning.
\<close>

section \<open>The parser\<close>

definition FIELD_RANGES :: "(int \<times> int) list" where
  "FIELD_RANGES = [(0, 59), (0, 23), (1, 31), (1, 12), (0, 6)]"

definition invalid_step :: "string \<Rightarrow> svc_error" where
  "invalid_step part = ServiceError (''Invalid cron step in '' @ [CHR 34] @ part @ [CHR 34]) 400"

definition invalid_range :: "string \<Rightarrow> int \<times> int \<Rightarrow> svc_error" where
  "invalid_range part rng =
     ServiceError (''Invalid cron range '' @ [CHR 34] @ part @ [CHR 34] @ '' ('' @ show_int (fst rng) @
       ''-'' @ show_int (snd rng) @ '')'') 400"

text \<open>\<^verbatim>\<open>for (let v = lo; v <= hi; v += step)\<close>, for a step the parser has checked.\<close>

function count_up :: "int \<Rightarrow> int \<Rightarrow> int \<Rightarrow> int list" where
  "count_up v hi step = (if step < 1 \<or> hi < v then [] else v # count_up (v + step) hi step)"
  by pat_completeness auto

termination
  by (relation "measure (\<lambda>(v, hi, step). nat (hi - v + 1))") auto

declare count_up.simps [simp del]

text \<open>\<^verbatim>\<open>const [a, b] = s.split(c)\<close>: later pieces are dropped.\<close>

definition first_two :: "char \<Rightarrow> string \<Rightarrow> string \<times> string option" where
  "first_two c s = (case split_on c s of a # b # rest \<Rightarrow> (a, Some b) | a # rest \<Rightarrow> (a, None) | [] \<Rightarrow> ([], None))"

definition part_step :: "string option \<Rightarrow> int option" where
  "part_step stepPart = (case stepPart of None \<Rightarrow> Some 1 | Some s \<Rightarrow>
     (case js_number s of None \<Rightarrow> None | Some n \<Rightarrow> if n < 1 then None else Some n))"

definition part_bounds :: "string \<Rightarrow> bool \<Rightarrow> int \<times> int \<Rightarrow> (int \<times> int) option" where
  "part_bounds rangePart stepped rng =
     (if rangePart = ''*'' \<or> rangePart = [] then Some rng
      else case first_two CHR ''-'' rangePart of (a, b) \<Rightarrow>
        (case (js_number a, case b of None \<Rightarrow> if stepped then Some (snd rng) else js_number a
                                    | Some t \<Rightarrow> js_number t) of
           (Some lo, Some hi) \<Rightarrow>
             if lo < fst rng \<or> hi > snd rng \<or> lo > hi then None else Some (lo, hi)
         | _ \<Rightarrow> None))"

definition parse_part :: "string \<Rightarrow> int \<times> int \<Rightarrow> svc_error + int list" where
  "parse_part part rng =
     (case first_two CHR ''/'' part of (rangePart, stepPart) \<Rightarrow>
        (case part_step stepPart of
           None \<Rightarrow> Inl (invalid_step part)
         | Some step \<Rightarrow>
             (case part_bounds rangePart (stepPart \<noteq> None) rng of
                None \<Rightarrow> Inl (invalid_range part rng)
              | Some (lo, hi) \<Rightarrow> Inr (count_up lo hi step))))"

fun parse_parts :: "string list \<Rightarrow> int \<times> int \<Rightarrow> svc_error + int list" where
  "parse_parts [] rng = Inr []"
| "parse_parts (part # parts) rng =
     (case parse_part part rng of
        Inl e \<Rightarrow> Inl e
      | Inr vs \<Rightarrow> map_sum id (\<lambda>rest. vs @ rest) (parse_parts parts rng))"

definition parse_field :: "string \<Rightarrow> int \<times> int \<Rightarrow> svc_error + int list" where
  "parse_field field rng = parse_parts (split_on CHR '','' field) rng"

lemma dropWhile_shorter: "r = dropWhile (\<lambda>c. \<not> P c) s \<Longrightarrow> r \<noteq> [] \<Longrightarrow> length (dropWhile P r) < length s"
proof -
  assume r: "r = dropWhile (\<lambda>c. \<not> P c) s" and ne: "r \<noteq> []"
  then have "P (hd r)" using hd_dropWhile [of "\<lambda>c. \<not> P c" s] by simp
  then have "length (dropWhile P r) < length r" using ne
    by (cases r) (auto simp: length_dropWhile_le less_Suc_eq_le)
  also have "length r \<le> length s" unfolding r by (rule length_dropWhile_le)
  finally show ?thesis .
qed

text \<open>\<^verbatim>\<open>s.split(/\s+/)\<close>.\<close>

function split_spaces :: "string \<Rightarrow> string list" where
  "split_spaces s =
     (let w = takeWhile (\<lambda>c. \<not> is_js_space c) s; r = dropWhile (\<lambda>c. \<not> is_js_space c) s
      in if r = [] then [w] else w # split_spaces (dropWhile is_js_space r))"
  by pat_completeness auto

termination
  by (relation "measure length") (auto intro: dropWhile_shorter)

declare split_spaces.simps [simp del]

record cron_schedule =
  cs_minute :: "int list"
  cs_hour :: "int list"
  cs_day_of_month :: "int list"
  cs_month :: "int list"
  cs_day_of_week :: "int list"

fun parse_fields :: "string list \<Rightarrow> (int \<times> int) list \<Rightarrow> svc_error + int list list" where
  "parse_fields (f # fs) (r # rs) =
     (case parse_field f r of
        Inl e \<Rightarrow> Inl e
      | Inr vs \<Rightarrow> map_sum id (\<lambda>rest. vs # rest) (parse_fields fs rs))"
| "parse_fields _ _ = Inr []"

definition parse_cron :: "string \<Rightarrow> svc_error + cron_schedule" where
  "parse_cron expression =
     (let fields = split_spaces (js_trim expression) in
      if length fields \<noteq> 5
      then Inl (ServiceError (''Cron expression must have 5 fields (minute hour dom month dow): '' @
             [CHR 34] @ expression @ [CHR 34]) 400)
      else (case parse_fields fields FIELD_RANGES of
              Inl e \<Rightarrow> Inl e
            | Inr vss \<Rightarrow> Inr \<lparr>cs_minute = vss ! 0, cs_hour = vss ! 1, cs_day_of_month = vss ! 2,
                             cs_month = vss ! 3, cs_day_of_week = vss ! 4\<rparr>))"

definition cron_matches :: "string \<Rightarrow> int \<Rightarrow> svc_error + bool" where
  "cron_matches expression date =
     map_sum id (\<lambda>s.
       utc_minute date \<in> set (cs_minute s) \<and> utc_hour date \<in> set (cs_hour s) \<and>
       utc_date date \<in> set (cs_day_of_month s) \<and> utc_month date + 1 \<in> set (cs_month s) \<and>
       utc_day date \<in> set (cs_day_of_week s)) (parse_cron expression)"

section \<open>The grammar and its meaning\<close>

datatype cron_item = Star "nat option" | From nat "nat option" | Span nat nat "nat option"

definition show_step :: "nat option \<Rightarrow> string" where
  "show_step st = (case st of None \<Rightarrow> [] | Some n \<Rightarrow> CHR ''/'' # show_nat n)"

fun show_item :: "cron_item \<Rightarrow> string" where
  "show_item (Star st) = ''*'' @ show_step st"
| "show_item (From n st) = show_nat n @ show_step st"
| "show_item (Span a b st) = show_nat a @ ''-'' @ show_nat b @ show_step st"

definition show_field :: "cron_item list \<Rightarrow> string" where
  "show_field items = join '','' (map show_item items)"

text \<open>A lone number is that value, and with a step it runs to the end of the field.\<close>

fun item_bounds :: "cron_item \<Rightarrow> int \<times> int \<Rightarrow> int \<times> int" where
  "item_bounds (Star st) rng = rng"
| "item_bounds (From n st) rng = (int n, if st = None then int n else snd rng)"
| "item_bounds (Span a b st) rng = (int a, int b)"

fun item_step :: "cron_item \<Rightarrow> nat option" where
  "item_step (Star st) = st"
| "item_step (From n st) = st"
| "item_step (Span a b st) = st"

definition stride :: "nat option \<Rightarrow> int" where
  "stride st = (case st of None \<Rightarrow> 1 | Some n \<Rightarrow> int n)"

definition item_ok :: "int \<times> int \<Rightarrow> cron_item \<Rightarrow> bool" where
  "item_ok rng it \<longleftrightarrow> item_step it \<noteq> Some 0 \<and> fst rng \<le> fst (item_bounds it rng) \<and>
     fst (item_bounds it rng) \<le> snd (item_bounds it rng) \<and> snd (item_bounds it rng) \<le> snd rng"

definition fires :: "int \<times> int \<Rightarrow> int \<Rightarrow> cron_item \<Rightarrow> bool" where
  "fires rng v it \<longleftrightarrow>
     fst (item_bounds it rng) \<le> v \<and> v \<le> snd (item_bounds it rng) \<and>
     stride (item_step it) dvd v - fst (item_bounds it rng)"

lemma count_up_mem: "1 \<le> step \<Longrightarrow> v \<in> set (count_up lo hi step) \<longleftrightarrow> lo \<le> v \<and> v \<le> hi \<and> step dvd v - lo"
proof (induction lo hi step rule: count_up.induct)
  case (1 lo hi step)
  show ?case
  proof (cases "hi < lo")
    case True
    then show ?thesis by (simp add: count_up.simps [of lo])
  next
    case False
    have up: "(lo + step \<le> v \<and> step dvd v - (lo + step)) \<longleftrightarrow> (lo < v \<and> step dvd v - lo)"
    proof -
      have eq: "step dvd v - (lo + step) \<longleftrightarrow> step dvd v - lo"
      proof -
        have "v - lo = (v - (lo + step)) + step" by simp
        then show ?thesis by (metis dvd_add_triv_right_iff)
      qed
      have "lo + step \<le> v" if "lo < v" "step dvd v - lo"
        using zdvd_imp_le [OF that(2)] that(1) by simp
      with eq 1(2) show ?thesis by auto
    qed
    from False 1 have "v \<in> set (count_up lo hi step) \<longleftrightarrow> v = lo \<or> (lo + step \<le> v \<and> v \<le> hi \<and> step dvd v - (lo + step))"
      by (simp add: count_up.simps [of lo])
    with up False show ?thesis by auto
  qed
qed

section \<open>Reading a shown schedule\<close>

lemma show_nat_free: "\<not> is_digit c \<Longrightarrow> c \<notin> set (show_nat n)"
  using show_nat_digits by blast

lemma not_digit [simp]: "\<not> is_digit CHR ''/''" "\<not> is_digit CHR ''-''" "\<not> is_digit CHR '',''" "\<not> is_digit CHR ''*''"
  by (simp_all add: is_digit_def)

lemma js_number_show [simp]: "js_number (show_nat n) = Some (int n)"
  by (simp add: js_number_digits show_nat_digits read_digits_show_nat)

lemma first_two_free: "c \<notin> set a \<Longrightarrow> first_two c a = (a, None)"
  by (simp add: first_two_def split_on_free)

lemma first_two_pair: "c \<notin> set a \<Longrightarrow> c \<notin> set b \<Longrightarrow> first_two c (a @ c # b) = (a, Some b)"
  by (simp add: first_two_def split_on_append split_on_free)

fun show_bounds :: "cron_item \<Rightarrow> string" where
  "show_bounds (Star st) = ''*''"
| "show_bounds (From n st) = show_nat n"
| "show_bounds (Span a b st) = show_nat a @ CHR ''-'' # show_nat b"

lemma show_item_split: "show_item it = show_bounds it @ show_step (item_step it)"
  by (cases it) simp_all

lemma show_bounds_free: "\<not> is_digit c \<Longrightarrow> c \<noteq> CHR ''-'' \<Longrightarrow> c \<noteq> CHR ''*'' \<Longrightarrow> c \<notin> set (show_bounds it)"
  by (cases it) (auto dest: show_nat_free)

lemma show_item_free:
  "\<not> is_digit c \<Longrightarrow> c \<noteq> CHR ''-'' \<Longrightarrow> c \<noteq> CHR ''*'' \<Longrightarrow> c \<noteq> CHR ''/'' \<Longrightarrow> c \<notin> set (show_item it)"
  unfolding show_item_split using show_bounds_free [of c it] show_nat_free [of c]
  by (auto simp: show_step_def split: option.splits)

lemma part_bounds_shown:
  assumes "item_ok rng it"
  shows "part_bounds (show_bounds it) (item_step it \<noteq> None) rng = Some (item_bounds it rng)"
proof -
  have star: "show_nat n \<noteq> ''*''" "show_nat n @ CHR ''-'' # t \<noteq> ''*''" for n t
    using show_nat_digits [of n] by (auto simp: append_eq_Cons_conv)
  show ?thesis
    using assms star show_nat_free [of "CHR ''-''"]
    by (cases it) (auto simp: part_bounds_def item_ok_def first_two_free first_two_pair prod_eq_iff)
qed

lemma parse_part_shown:
  assumes ok: "item_ok rng it"
  shows "parse_part (show_item it) rng =
    Inr (count_up (fst (item_bounds it rng)) (snd (item_bounds it rng)) (stride (item_step it)))"
proof -
  have free: "CHR ''/'' \<notin> set (show_bounds it)" by (rule show_bounds_free) simp_all
  have two: "first_two CHR ''/'' (show_item it) = (show_bounds it, map_option show_nat (item_step it))"
    unfolding show_item_split show_step_def using free show_nat_free [of "CHR ''/''"]
    by (auto simp: first_two_free first_two_pair split: option.split)
  have "part_step (map_option show_nat (item_step it)) = Some (stride (item_step it))"
    using ok by (auto simp: part_step_def stride_def item_ok_def split: option.splits)
  with two part_bounds_shown [OF ok] show ?thesis by (auto simp: parse_part_def split: prod.splits)
qed

lemma fires_count_up:
  "item_ok rng it \<Longrightarrow> v \<in> set (count_up (fst (item_bounds it rng)) (snd (item_bounds it rng)) (stride (item_step it)))
    \<longleftrightarrow> fires rng v it"
  by (subst count_up_mem) (auto simp: fires_def stride_def item_ok_def split: option.splits)

lemma split_on_join:
  "ws \<noteq> [] \<Longrightarrow> \<forall>w \<in> set ws. c \<notin> set w \<Longrightarrow> split_on c (join [c] ws) = ws"
proof (induction ws)
  case (Cons w ws)
  then show ?case by (cases ws) (simp_all add: split_on_free split_on_append)
qed simp

lemma parse_field_shown:
  assumes "items \<noteq> []" and "\<forall>it \<in> set items. item_ok rng it"
  shows "\<exists>vs. parse_field (show_field items) rng = Inr vs \<and> (\<forall>v. v \<in> set vs \<longleftrightarrow> (\<exists>it \<in> set items. fires rng v it))"
proof -
  have "split_on CHR '','' (show_field items) = map show_item items"
    unfolding show_field_def using assms(1) by (intro split_on_join) (auto simp: show_item_free)
  moreover have "\<exists>vs. parse_parts (map show_item xs) rng = Inr vs \<and> (\<forall>v. v \<in> set vs \<longleftrightarrow> (\<exists>it \<in> set xs. fires rng v it))"
    if "\<forall>it \<in> set xs. item_ok rng it" for xs
    using that
  proof (induction xs)
    case (Cons it xs)
    then obtain vs where "parse_parts (map show_item xs) rng = Inr vs"
      "\<forall>v. v \<in> set vs \<longleftrightarrow> (\<exists>it \<in> set xs. fires rng v it)" by auto
    with Cons.prems show ?case by (simp add: parse_part_shown fires_count_up)
  qed simp
  ultimately show ?thesis using assms(2) by (simp add: parse_field_def)
qed

lemma js_trim_id: "s \<noteq> [] \<Longrightarrow> \<not> is_js_space (hd s) \<Longrightarrow> \<not> is_js_space (last s) \<Longrightarrow> js_trim s = s"
proof -
  assume ne: "s \<noteq> []" and h: "\<not> is_js_space (hd s)" and l: "\<not> is_js_space (last s)"
  have "dropWhile is_js_space s = s" using ne h by (cases s) auto
  moreover have "dropWhile is_js_space (rev s) = rev s" using ne l by (cases s rule: rev_cases) auto
  ultimately show ?thesis by (simp add: js_trim_def)
qed

lemma join_ends:
  "ws \<noteq> [] \<Longrightarrow> \<forall>w \<in> set ws. w \<noteq> [] \<Longrightarrow> join sep ws \<noteq> [] \<and> hd (join sep ws) = hd (hd ws) \<and> last (join sep ws) = last (last ws)"
proof (induction ws)
  case (Cons w ws)
  then show ?case by (cases ws) auto
qed simp

lemma split_spaces_join:
  "ws \<noteq> [] \<Longrightarrow> \<forall>w \<in> set ws. w \<noteq> [] \<and> (\<forall>c \<in> set w. \<not> is_js_space c) \<Longrightarrow> split_spaces (join '' '' ws) = ws"
proof (induction ws)
  case (Cons w ws)
  have w: "takeWhile (\<lambda>c. \<not> is_js_space c) w = w" "dropWhile (\<lambda>c. \<not> is_js_space c) w = []"
    using Cons.prems by (auto simp: takeWhile_eq_all_conv)
  show ?case
  proof (cases ws)
    case Nil
    with w show ?thesis by (simp add: split_spaces.simps [of w])
  next
    case (Cons v vs)
    have sp: "is_js_space CHR '' ''" by (simp add: is_js_space_def)
    have "\<forall>x \<in> set ws. x \<noteq> []" using Cons.prems by simp
    with join_ends [of ws "'' ''"] Cons have ne: "join '' '' ws \<noteq> []" "hd (join '' '' ws) = hd v" by auto
    have "\<not> is_js_space (hd v)" using Cons.prems Cons by auto
    with ne have d: "dropWhile is_js_space (join '' '' ws) = join '' '' ws"
      by (cases "join '' '' ws") auto
    have j: "join '' '' (w # ws) = w @ CHR '' '' # join '' '' ws" by (simp add: Cons)
    have "split_spaces (join '' '' (w # ws)) = w # split_spaces (join '' '' ws)"
      using Cons.prems d sp unfolding j by (subst split_spaces.simps) (simp add: takeWhile_append dropWhile_append w)
    with Cons.IH Cons.prems Cons show ?thesis by simp
  qed
qed simp

lemma show_field_word:
  assumes "items \<noteq> []"
  shows "show_field items \<noteq> [] \<and> (\<forall>c \<in> set (show_field items). \<not> is_js_space c)"
proof -
  have sp: "\<not> is_js_space CHR ''-''" "\<not> is_js_space CHR ''*''" "\<not> is_js_space CHR ''/''" "\<not> is_js_space CHR '',''"
    by (simp_all add: is_js_space_def)
  have item: "show_item it \<noteq> [] \<and> (\<forall>c \<in> set (show_item it). \<not> is_js_space c)" for it
  proof -
    have "\<not> is_js_space c" if "c \<in> set (show_item it)" for c
      using that show_item_free [of c it] digit_not_space [of c] sp by (cases "is_digit c") auto
    then show ?thesis by (cases it) auto
  qed
  show ?thesis
    unfolding show_field_def using assms
  proof (induction items)
    case (Cons it items)
    with item [of it] sp show ?case by (cases items) auto
  qed simp
qed

section \<open>The matcher\<close>

text \<open>C12: A five-field expression written in the grammar matches exactly the dates at which each
  of its fields fires: a field fires on a value that some item reaches by its steps from the
  start of its range; the expression is accepted whenever its numbers are in range.\<close>

theorem cron_expression_exact:
  assumes "length fds = 5" and "\<forall>f \<in> set fds. f \<noteq> []"
    and "list_all2 (\<lambda>f rng. \<forall>it \<in> set f. item_ok rng it) fds FIELD_RANGES"
  shows "cron_matches (join '' '' (map show_field fds)) date = Inr
    (list_all2 (\<lambda>(f, rng) v. \<exists>it \<in> set f. fires rng v it) (zip fds FIELD_RANGES)
      [utc_minute date, utc_hour date, utc_date date, utc_month date + 1, utc_day date])"
proof -
  have words: "split_spaces (js_trim (join '' '' (map show_field fds))) = map show_field fds"
  proof -
    let ?ws = "map show_field fds"
    have ne: "?ws \<noteq> []" using assms(1) by auto
    have ws: "\<forall>w \<in> set ?ws. w \<noteq> [] \<and> (\<forall>c \<in> set w. \<not> is_js_space c)" using assms(2) show_field_word by auto
    from join_ends [OF ne, of "'' ''"] ws have j: "join '' '' ?ws \<noteq> []"
      "hd (join '' '' ?ws) = hd (hd ?ws)" "last (join '' '' ?ws) = last (last ?ws)" by auto
    have "\<not> is_js_space (hd (hd ?ws))" "\<not> is_js_space (last (last ?ws))"
      using bspec [OF ws hd_in_set [OF ne]] bspec [OF ws last_in_set [OF ne]] by (blast intro: hd_in_set last_in_set)+
    with j have "js_trim (join '' '' ?ws) = join '' '' ?ws" by (intro js_trim_id) auto
    with split_spaces_join [OF ne ws] show ?thesis by simp
  qed
  obtain f1 f2 f3 f4 f5 where f: "fds = [f1, f2, f3, f4, f5]"
    using assms(1) by (auto simp: length_Suc_conv numeral_eq_Suc)
  from assms(2,3) have ok: "f1 \<noteq> []" "\<forall>it \<in> set f1. item_ok (0, 59) it" "f2 \<noteq> []" "\<forall>it \<in> set f2. item_ok (0, 23) it"
    "f3 \<noteq> []" "\<forall>it \<in> set f3. item_ok (1, 31) it" "f4 \<noteq> []" "\<forall>it \<in> set f4. item_ok (1, 12) it"
    "f5 \<noteq> []" "\<forall>it \<in> set f5. item_ok (0, 6) it"
    by (simp_all add: f FIELD_RANGES_def)
  note p = parse_field_shown [OF ok(1,2)] parse_field_shown [OF ok(3,4)] parse_field_shown [OF ok(5,6)]
    parse_field_shown [OF ok(7,8)] parse_field_shown [OF ok(9,10)]
  obtain v1 v2 v3 v4 v5 where v: "parse_fields (map show_field fds) FIELD_RANGES = Inr [v1, v2, v3, v4, v5]"
    "\<And>v. v \<in> set v1 \<longleftrightarrow> (\<exists>it \<in> set f1. fires (0, 59) v it)" "\<And>v. v \<in> set v2 \<longleftrightarrow> (\<exists>it \<in> set f2. fires (0, 23) v it)"
    "\<And>v. v \<in> set v3 \<longleftrightarrow> (\<exists>it \<in> set f3. fires (1, 31) v it)" "\<And>v. v \<in> set v4 \<longleftrightarrow> (\<exists>it \<in> set f4. fires (1, 12) v it)"
    "\<And>v. v \<in> set v5 \<longleftrightarrow> (\<exists>it \<in> set f5. fires (0, 6) v it)"
    using p by (auto simp: f FIELD_RANGES_def)
  have "parse_cron (join '' '' (map show_field fds)) = Inr \<lparr>cs_minute = v1, cs_hour = v2, cs_day_of_month = v3,
      cs_month = v4, cs_day_of_week = v5\<rparr>"
    unfolding parse_cron_def Let_def words v(1) using assms(1) by (simp add: eval_nat_numeral)
  then show ?thesis
    by (simp add: cron_matches_def f FIELD_RANGES_def v(2-6))
qed

text \<open>Whatever is accepted fires inside the ranges of its fds only.\<close>

lemma parse_part_bounds:
  assumes "parse_part part rng = Inr vs" and "v \<in> set vs"
  shows "fst rng \<le> v \<and> v \<le> snd rng"
proof -
  obtain rp st where f: "first_two CHR ''/'' part = (rp, st)" by (cases "first_two CHR ''/'' part")
  with assms(1) obtain n lo hi where 1: "part_step st = Some n" "part_bounds rp (st \<noteq> None) rng = Some (lo, hi)"
    "vs = count_up lo hi n"
    by (auto simp: parse_part_def split: option.splits)
  have "1 \<le> n" using 1(1) by (auto simp: part_step_def split: option.splits if_splits)
  moreover have "fst rng \<le> lo" "hi \<le> snd rng"
    using 1(2) by (auto simp: part_bounds_def split: if_splits option.splits prod.splits)
  ultimately show ?thesis using assms(2) 1(3) count_up_mem by auto
qed

lemma parse_field_bounds:
  assumes "parse_field field rng = Inr vs" and "v \<in> set vs"
  shows "fst rng \<le> v \<and> v \<le> snd rng"
proof -
  have "fst rng \<le> v \<and> v \<le> snd rng" if "parse_parts ps rng = Inr us" "v \<in> set us" for ps us
    using that
  proof (induction ps arbitrary: us)
    case (Cons p ps)
    from Cons.prems(1) obtain a b where ab: "parse_part p rng = Inr a" "parse_parts ps rng = Inr b" "us = a @ b"
      by (cases "parse_part p rng"; cases "parse_parts ps rng") auto
    with Cons.IH [OF ab(2)] parse_part_bounds [OF ab(1)] Cons.prems(2) show ?case by auto
  qed simp
  with assms show ?thesis by (simp add: parse_field_def)
qed

theorem cron_expression_exact_witness:
  "cron_matches (join '' '' (map show_field [[Star (Some 15)], [Span 9 17 None], [Star None], [Star None], [Span 1 5 None]]))
      (9 * 3600000 + 30 * 60000) = Inr True
   \<and> cron_matches ''*/15 9-17 * * 1-5'' (9 * 3600000 + 31 * 60000) = Inr False"
proof -
  let ?f = "[[Star (Some 15)], [Span 9 17 None], [Star None], [Star None], [Span 1 5 None]]"
  have ok: "length ?f = 5" "\<forall>f \<in> set ?f. f \<noteq> []"
    "list_all2 (\<lambda>f rng. \<forall>it \<in> set f. item_ok rng it) ?f FIELD_RANGES"
    by (simp_all add: FIELD_RANGES_def item_ok_def)
  let ?m = "\<lambda>date. list_all2 (\<lambda>(f, rng) v. \<exists>it \<in> set f. fires rng v it) (zip ?f FIELD_RANGES)
      [utc_minute date, utc_hour date, utc_date date, utc_month date + 1, utc_day date]"
  have m: "?m (9 * 3600000 + 30 * 60000) = True" "?m (9 * 3600000 + 31 * 60000) = False" by code_simp+
  have shown: "join '' '' (map show_field ?f) = ''*/15 9-17 * * 1-5''" by code_simp
  from cron_expression_exact [OF ok, of "9 * 3600000 + 30 * 60000"] cron_expression_exact [OF ok, of "9 * 3600000 + 31 * 60000"]
  show ?thesis unfolding m shown by blast
qed

text \<open>An empty bound is read as zero, and a third number of a range is ignored.\<close>

lemma cron_empty_bound: "parse_field ''-3'' (0, 59) = Inr [0, 1, 2, 3]" "parse_field ''1-2-9'' (0, 59) = Inr [1, 2]"
  by code_simp+

end
