(* ===== verification/Agent_Policy.thy ===== *)
theory Agent_Policy
  imports Base
begin

text \<open>
  \<^verbatim>\<open>server/workspace/src/agents/policy.ts\<close>: the choice of one model instance among a
  profile's candidates. Costs are values of any linear order (the source compares numbers).
\<close>

datatype llm_tier = Fast | Balanced | Deep

datatype agent_effort = MinimalEffort | LowEffort | OtherEffort | HighEffort | MaxEffort

record llm_pin =
  pin_interface :: string
  pin_profile :: "string option"

record 'c llm_candidate =
  lc_instance :: string
  lc_pin :: "llm_pin option"
  lc_tier :: "llm_tier option"
  lc_cost :: "'c option"

record 'c model_policy =
  mp_effort :: "agent_effort option"
  mp_max_cost :: "'c option"
  mp_deadline :: "int option"

text \<open>\<^verbatim>\<open>TIER_ORDER.indexOf\<close>.\<close>

fun tier_index :: "llm_tier \<Rightarrow> int" where
  "tier_index Fast = 0"
| "tier_index Balanced = 1"
| "tier_index Deep = 2"

definition parse_llm_tier :: "string option \<Rightarrow> llm_tier option" where
  "parse_llm_tier value =
     (if value = Some ''fast'' then Some Fast
      else if value = Some ''balanced'' then Some Balanced
      else if value = Some ''deep'' then Some Deep else None)"

fun tier_for_effort :: "agent_effort option \<Rightarrow> llm_tier" where
  "tier_for_effort (Some MinimalEffort) = Fast"
| "tier_for_effort (Some LowEffort) = Fast"
| "tier_for_effort (Some HighEffort) = Deep"
| "tier_for_effort (Some MaxEffort) = Deep"
| "tier_for_effort _ = Balanced"

definition affordable :: "'c::linorder model_policy \<Rightarrow> 'c llm_candidate \<Rightarrow> bool" where
  "affordable policy c \<longleftrightarrow>
     (case (mp_max_cost policy, lc_cost c) of (Some m, Some k) \<Rightarrow> k \<le> m | _ \<Rightarrow> True)"

definition candidate_index :: "'c llm_candidate \<Rightarrow> int" where
  "candidate_index c = tier_index (case lc_tier c of None \<Rightarrow> Balanced | Some t \<Rightarrow> t)"

definition desired_tier :: "'c model_policy \<Rightarrow> llm_tier" where
  "desired_tier policy = (if mp_deadline policy \<noteq> None then Fast else tier_for_effort (mp_effort policy))"

text \<open>The scan keeps the best candidate; with none yet, the source's distances are infinite.\<close>

fun scan_best :: "int \<Rightarrow> 'c llm_candidate option \<Rightarrow> 'c llm_candidate list \<Rightarrow> 'c llm_candidate option" where
  "scan_best target best [] = best"
| "scan_best target best (c # cs) =
     (let tierIndex = candidate_index c; distance = \<bar>tierIndex - target\<bar>
      in scan_best target
           (case best of
              None \<Rightarrow> Some c
            | Some b \<Rightarrow>
                if distance < \<bar>candidate_index b - target\<bar> \<or>
                   distance = \<bar>candidate_index b - target\<bar> \<and> tierIndex < candidate_index b
                then Some c else best) cs)"

definition select_llm_instance :: "'c::linorder llm_candidate list \<Rightarrow> 'c model_policy \<Rightarrow> string option" where
  "select_llm_instance candidates policy =
     (let cs = filter (affordable policy) candidates
      in if cs = [] then None
         else map_option lc_instance (scan_best (tier_index (desired_tier policy)) None cs))"

section \<open>The rules\<close>

text \<open>Rank of a candidate: distance to the wanted tier first, then the cheaper tier.\<close>

definition rank :: "int \<Rightarrow> 'c llm_candidate \<Rightarrow> int" where
  "rank target c = 3 * \<bar>candidate_index c - target\<bar> + candidate_index c"

lemma candidate_index_bounds: "0 \<le> candidate_index c" "candidate_index c \<le> 2"
  by (cases "case lc_tier c of None \<Rightarrow> Balanced | Some t \<Rightarrow> t"; simp add: candidate_index_def)+

lemma lex_rank: "0 \<le> a \<Longrightarrow> a \<le> 2 \<Longrightarrow> 0 \<le> b \<Longrightarrow> b \<le> 2 \<Longrightarrow>
    (3 * x + a < 3 * y + b) = (x < y \<or> x = y \<and> a < b)" for a b x y :: int
  by presburger

lemma rank_less:
  "rank target c < rank target b \<longleftrightarrow>
    \<bar>candidate_index c - target\<bar> < \<bar>candidate_index b - target\<bar> \<or>
    \<bar>candidate_index c - target\<bar> = \<bar>candidate_index b - target\<bar> \<and> candidate_index c < candidate_index b"
  unfolding rank_def by (intro lex_rank candidate_index_bounds)

lemma scan_best_step:
  "scan_best target (Some b) (c # cs) = scan_best target (Some (if rank target c < rank target b then c else b)) cs"
  by (simp add: rank_less Let_def)

lemma scan_best_first_minimum:
  "\<exists>pre c post. b # cs = pre @ c # post \<and> scan_best target (Some b) cs = Some c
    \<and> (\<forall>x \<in> set pre. rank target c < rank target x) \<and> (\<forall>x \<in> set post. rank target c \<le> rank target x)"
proof (induction cs arbitrary: b)
  case Nil
  then show ?case by (intro exI [of _ "[]"] exI [of _ b]) simp
next
  case (Cons d cs)
  show ?case
  proof (cases "rank target d < rank target b")
    case True
    obtain pre c post where 1: "d # cs = pre @ c # post" "scan_best target (Some d) cs = Some c"
      "\<forall>x \<in> set pre. rank target c < rank target x" "\<forall>x \<in> set post. rank target c \<le> rank target x"
      using Cons.IH [of d] by blast
    have "rank target c \<le> rank target d" using 1 by (cases pre) force+
    with True have lt: "rank target c < rank target b" by simp
    have st: "scan_best target (Some b) (d # cs) = Some c" using True 1(2) by (simp only: scan_best_step if_True)
    show ?thesis
      by (rule exI [of _ "b # pre"], rule exI [of _ c], rule exI [of _ post]) (use 1 st lt in simp)
  next
    case False
    obtain pre c post where 1: "b # cs = pre @ c # post" "scan_best target (Some b) cs = Some c"
      "\<forall>x \<in> set pre. rank target c < rank target x" "\<forall>x \<in> set post. rank target c \<le> rank target x"
      using Cons.IH [of b] by blast
    show ?thesis
    proof (cases pre)
      case Nil
      show ?thesis
        by (rule exI [of _ "[]"], rule exI [of _ b], rule exI [of _ "d # cs"]) (use 1 False Nil in \<open>auto simp: scan_best_step simp del: scan_best.simps\<close>)
    next
      case (Cons p ps)
      show ?thesis
        by (rule exI [of _ "b # d # ps"], rule exI [of _ c], rule exI [of _ post])
          (use 1 False Cons in \<open>auto simp: scan_best_step simp del: scan_best.simps\<close>)
    qed
  qed
qed

text \<open>The selection follows its documented rules: it returns nothing exactly when every
  candidate declares a cost above the cap; otherwise the instance of an affordable candidate
  whose tier is nearest to the wanted one, the cheaper tier on equal distance, the first
  declared on equal tiers. A deadline asks for the fast tier whatever the effort.\<close>

theorem select_llm_exact:
  "(let cs = filter (\<lambda>c. case (mp_max_cost policy, lc_cost c) of (Some m, Some k) \<Rightarrow> k \<le> m | _ \<Rightarrow> True) candidates;
        target = (case mp_deadline policy of Some d \<Rightarrow> 0 | None \<Rightarrow> tier_index (tier_for_effort (mp_effort policy)));
        dist = (\<lambda>c. \<bar>candidate_index c - target\<bar>)
    in if cs = [] then select_llm_instance candidates policy = None
       else \<exists>pre c post. cs = pre @ c # post \<and> select_llm_instance candidates policy = Some (lc_instance c)
         \<and> list_all (\<lambda>x. dist c < dist x \<or> dist c = dist x \<and> candidate_index c < candidate_index x) pre
         \<and> list_all (\<lambda>x. dist c < dist x \<or> dist c = dist x \<and> candidate_index c \<le> candidate_index x) post)"
proof -
  let ?cs = "filter (\<lambda>c. case (mp_max_cost policy, lc_cost c) of (Some m, Some k) \<Rightarrow> k \<le> m | _ \<Rightarrow> True) candidates"
  let ?t = "case mp_deadline policy of Some d \<Rightarrow> 0 | None \<Rightarrow> tier_index (tier_for_effort (mp_effort policy))"
  have cs: "filter (affordable policy) candidates = ?cs" by (simp add: affordable_def [abs_def])
  have t: "tier_index (desired_tier policy) = ?t" by (simp add: desired_tier_def split: option.split)
  have le: "rank ?t c \<le> rank ?t x \<longleftrightarrow> \<bar>candidate_index c - ?t\<bar> < \<bar>candidate_index x - ?t\<bar> \<or>
      \<bar>candidate_index c - ?t\<bar> = \<bar>candidate_index x - ?t\<bar> \<and> candidate_index c \<le> candidate_index x" for c x :: "'a llm_candidate"
    using rank_less [of ?t x c] by auto
  show ?thesis
  proof (cases ?cs)
    case Nil
    then show ?thesis by (simp add: select_llm_instance_def cs)
  next
    case (Cons b bs)
    have "scan_best ?t None ?cs = scan_best ?t (Some b) bs" unfolding Cons by (simp add: Let_def)
    with scan_best_first_minimum [of b bs ?t] obtain pre c post where
      1: "?cs = pre @ c # post" "scan_best ?t None ?cs = Some c"
      "\<forall>x \<in> set pre. rank ?t c < rank ?t x" "\<forall>x \<in> set post. rank ?t c \<le> rank ?t x"
      unfolding Cons by metis
    have "select_llm_instance candidates policy = Some (lc_instance c)"
      unfolding select_llm_instance_def cs t Let_def using 1(2) Cons by simp
    moreover have "\<forall>x \<in> set pre. \<bar>candidate_index c - ?t\<bar> < \<bar>candidate_index x - ?t\<bar> \<or>
        \<bar>candidate_index c - ?t\<bar> = \<bar>candidate_index x - ?t\<bar> \<and> candidate_index c < candidate_index x"
      using 1(3) by (simp only: rank_less)
    moreover have "\<forall>x \<in> set post. \<bar>candidate_index c - ?t\<bar> < \<bar>candidate_index x - ?t\<bar> \<or>
        \<bar>candidate_index c - ?t\<bar> = \<bar>candidate_index x - ?t\<bar> \<and> candidate_index c \<le> candidate_index x"
      using 1(4) by (simp only: le)
    moreover have "?cs \<noteq> []" using Cons by simp
    ultimately show ?thesis
      using 1(1) unfolding Let_def list_all_iff by (simp only: if_False) blast
  qed
qed

end
