(* ===== verification/Auth_Cache.thy ===== *)
theory Auth_Cache
  imports Dispatch
begin

text \<open>
  \<^verbatim>\<open>server/workspace/src/auth-cache.ts\<close>: the cache of resolved principals. The token hash is
  an argument, and so is the lifetime \<^verbatim>\<open>AUTH_CACHE_TTL_MS\<close> sets, when it is a number.
\<close>

definition DEFAULT_TTL_MS :: int where
  "DEFAULT_TTL_MS = 60000"

definition ttl_ms :: "int option \<Rightarrow> int" where
  "ttl_ms raw = (case raw of None \<Rightarrow> DEFAULT_TTL_MS | Some n \<Rightarrow> if n > 0 then n else DEFAULT_TTL_MS)"

record cache_entry =
  ce_principal :: principal
  ce_until :: int

type_synonym auth_cache = "(string \<times> cache_entry) list"

definition cache_key :: "string \<Rightarrow> string \<Rightarrow> string" where
  "cache_key tokenHash workspaceHint = tokenHash @ '':'' @ workspaceHint"

definition get_cached_principal :: "int \<Rightarrow> string \<Rightarrow> string \<Rightarrow> auth_cache \<Rightarrow> principal option \<times> auth_cache" where
  "get_cached_principal now tokenHash workspaceHint cache =
     (case map_of cache (cache_key tokenHash workspaceHint) of
        None \<Rightarrow> (None, cache)
      | Some entry \<Rightarrow>
          if ce_until entry \<le> now then (None, AList.delete (cache_key tokenHash workspaceHint) cache)
          else (Some (ce_principal entry), cache))"

definition set_cached_principal ::
  "int option \<Rightarrow> int \<Rightarrow> string \<Rightarrow> string \<Rightarrow> principal \<Rightarrow> auth_cache \<Rightarrow> auth_cache" where
  "set_cached_principal raw now tokenHash workspaceHint p cache =
     AList.update (cache_key tokenHash workspaceHint) \<lparr>ce_principal = p, ce_until = now + ttl_ms raw\<rparr> cache"

definition names_principal :: "string \<Rightarrow> cache_entry \<Rightarrow> bool" where
  "names_principal x entry \<longleftrightarrow> pr_sub (ce_principal entry) = x \<or> pr_ws (ce_principal entry) = x"

definition invalidate_principal :: "string \<Rightarrow> auth_cache \<Rightarrow> auth_cache" where
  "invalidate_principal x cache = filter (\<lambda>(k, entry). \<not> names_principal x entry) cache"

definition reset_auth_cache :: "auth_cache \<Rightarrow> auth_cache" where
  "reset_auth_cache cache = []"

section \<open>Histories\<close>

datatype cache_event = Lookup string string | Store string string principal | Invalidate string | Reset

text \<open>A history runs against a clock: each event comes with the time it happens at.\<close>

fun run_event :: "int option \<Rightarrow> int \<times> cache_event \<Rightarrow> auth_cache \<Rightarrow> auth_cache" where
  "run_event raw (now, Lookup t h) c = snd (get_cached_principal now t h c)"
| "run_event raw (now, Store t h p) c = set_cached_principal raw now t h p c"
| "run_event raw (now, Invalidate x) c = invalidate_principal x c"
| "run_event raw (now, Reset) c = reset_auth_cache c"

definition run_history :: "int option \<Rightarrow> (int \<times> cache_event) list \<Rightarrow> auth_cache" where
  "run_history raw es = fold (run_event raw) es []"

text \<open>What a slot may answer: the last principal stored in it, unless it was invalidated, the
  cache was reset, or its time has passed.\<close>

fun justified :: "int option \<Rightarrow> string \<Rightarrow> (int \<times> cache_event) list \<Rightarrow> (principal \<times> int) option" where
  "justified raw k [] = None"
| "justified raw k ((at, e) # rest) =
     (case e of
        Lookup t h \<Rightarrow> (case justified raw k rest of
            Some (p, u) \<Rightarrow> if cache_key t h = k \<and> u \<le> at then None else Some (p, u)
          | None \<Rightarrow> None)
      | Store t h p \<Rightarrow> if cache_key t h = k then Some (p, at + ttl_ms raw) else justified raw k rest
      | Invalidate x \<Rightarrow> (case justified raw k rest of
            Some (p, u) \<Rightarrow> if pr_sub p = x \<or> pr_ws p = x then None else Some (p, u)
          | None \<Rightarrow> None)
      | Reset \<Rightarrow> None)"

lemma map_of_filter_distinct:
  "wf_map m \<Longrightarrow> map_of (filter (\<lambda>(k, v). P v) m) k = (case map_of m k of None \<Rightarrow> None | Some v \<Rightarrow> if P v then Some v else None)"
  unfolding wf_map_def
proof (induction m)
  case (Cons a m)
  then show ?case by (cases a) (auto split: option.splits dest: map_of_SomeD simp: rev_image_eqI)
qed simp

lemma wf_filter: "wf_map m \<Longrightarrow> wf_map (filter P m)"
  unfolding wf_map_def by (rule distinct_map_filter)

lemma run_history_slot:
  "wf_map (fold (run_event raw) (rev es) []) \<and>
   map_of (fold (run_event raw) (rev es) []) k =
     map_option (\<lambda>(p, u). \<lparr>ce_principal = p, ce_until = u\<rparr>) (justified raw k es)"
proof (induction es)
  case (Cons ev es)
  obtain at e where ev: "ev = (at, e)" by (cases ev)
  let ?c = "fold (run_event raw) (rev es) []"
  have wf: "wf_map ?c" and at: "map_of ?c k = map_option (\<lambda>(p, u). \<lparr>ce_principal = p, ce_until = u\<rparr>) (justified raw k es)"
    using Cons.IH by simp_all
  show ?case
    using wf at unfolding ev
    by (cases e) (auto simp: get_cached_principal_def set_cached_principal_def invalidate_principal_def
        reset_auth_cache_def map_of_filter_distinct wf_filter names_principal_def split: option.splits)
qed simp

text \<open>Through any history of lookups, stores, invalidations and resets, a lookup answers
  exactly when the last store into its slot was within the lifetime and no later event
  invalidated its user or its workspace or reset the cache; the answer is the principal that
  was stored. (The events are given latest first.)\<close>

theorem auth_cache_exact:
  "fst (get_cached_principal now t h (run_history raw (rev es))) =
    (case justified raw (cache_key t h) es of
       Some (p, u) \<Rightarrow> if u \<le> now then None else Some p
     | None \<Rightarrow> None)"
  using run_history_slot [of raw es "cache_key t h"]
  by (auto simp: get_cached_principal_def run_history_def split: option.splits)

end
