(* ===== verification/Change_Journal.thy ===== *)
theory Change_Journal
  imports Base
begin

text \<open>
  \<^verbatim>\<open>server/workspace/src/change-journal.ts\<close>: the in-memory ring of file changes behind
  \<^verbatim>\<open>/fs/changes\<close>. The theorems relate the ring to the full history of the process, and show
  what a restart does to a cursor of the process before.
\<close>

datatype change_kind = Update | Delete

record fs_change =
  fc_path :: string
  fc_kind :: change_kind

record journal_entry =
  je_change :: fs_change
  je_cursor :: nat
  je_scope :: string

record journal =
  jr_cursor :: nat
  jr_entries :: "journal_entry list"

type_synonym journals = "(string \<times> journal) list"

definition RING_CAPACITY :: nat where
  "RING_CAPACITY = 1000"

definition get_journal :: "string \<Rightarrow> journals \<Rightarrow> journal \<times> journals" where
  "get_journal ws js =
     (case map_of js ws of
        Some j \<Rightarrow> (j, js)
      | None \<Rightarrow> (let j = \<lparr>jr_cursor = 0, jr_entries = []\<rparr> in (j, AList.update ws j js)))"

definition record_change :: "string \<Rightarrow> string \<Rightarrow> string \<Rightarrow> change_kind \<Rightarrow> journals \<Rightarrow> journals" where
  "record_change ws scope path kind js =
     (case get_journal ws js of (j, js') \<Rightarrow>
        let cursor = jr_cursor j + 1;
            entries = jr_entries j @ [\<lparr>je_change = \<lparr>fc_path = path, fc_kind = kind\<rparr>, je_cursor = cursor, je_scope = scope\<rparr>]
        in AList.update ws
             \<lparr>jr_cursor = cursor,
              jr_entries = (if length entries > RING_CAPACITY then drop (length entries - RING_CAPACITY) entries
                            else entries)\<rparr> js')"

definition current_cursor :: "string \<Rightarrow> journals \<Rightarrow> nat" where
  "current_cursor ws js = (case map_of js ws of None \<Rightarrow> 0 | Some j \<Rightarrow> jr_cursor j)"

record changes_result =
  cr_cursor :: nat
  cr_reset :: bool
  cr_changes :: "fs_change list"

text \<open>\<^verbatim>\<open>since\<close> is \<^verbatim>\<open>None\<close> when the query has none or it is not a number.\<close>

definition changes_since :: "string \<Rightarrow> string \<Rightarrow> int option \<Rightarrow> journals \<Rightarrow> changes_result \<times> journals" where
  "changes_since ws scope since js =
     (case get_journal ws js of (j, js') \<Rightarrow>
        let cursor = jr_cursor j; reset = \<lparr>cr_cursor = cursor, cr_reset = True, cr_changes = []\<rparr>
        in (case since of
              None \<Rightarrow> (reset, js')
            | Some s \<Rightarrow>
                if s < 0 \<or> s > int cursor then (reset, js')
                else (let oldestRetained = (case jr_entries j of [] \<Rightarrow> cursor + 1 | e # es \<Rightarrow> je_cursor e)
                      in if s < int oldestRetained - 1 then (reset, js')
                         else (\<lparr>cr_cursor = cursor, cr_reset = False,
                                cr_changes = map je_change (filter (\<lambda>e. int (je_cursor e) > s \<and>
                                  (je_scope e = [] \<or> je_scope e = scope)) (jr_entries j))\<rparr>, js'))))"

definition reset_change_journal :: "journals \<Rightarrow> journals" where
  "reset_change_journal js = []"

section \<open>The full history\<close>

text \<open>What a process recorded, oldest first: workspace, scope and change. The abstract feed of a
  workspace is the list of its changes; a cursor is a position in it.\<close>

type_synonym recorded = "string \<times> string \<times> fs_change"

definition replay :: "recorded list \<Rightarrow> journals" where
  "replay hs = fold (\<lambda>(ws, scope, c). record_change ws scope (fc_path c) (fc_kind c)) hs []"

definition feed :: "string \<Rightarrow> recorded list \<Rightarrow> (string \<times> fs_change) list" where
  "feed ws hs = map snd (filter (\<lambda>h. fst h = ws) hs)"

definition visible :: "string \<Rightarrow> (string \<times> fs_change) list \<Rightarrow> fs_change list" where
  "visible scope fd = map snd (filter (\<lambda>(sc, c). sc = [] \<or> sc = scope) fd)"

definition numbered :: "nat \<Rightarrow> (string \<times> fs_change) list \<Rightarrow> journal_entry list" where
  "numbered n fd = map (\<lambda>(i, sc, c). \<lparr>je_change = c, je_cursor = Suc i, je_scope = sc\<rparr>) (enumerate n fd)"

definition ring_of :: "(string \<times> fs_change) list \<Rightarrow> journal_entry list" where
  "ring_of fd = drop (length fd - RING_CAPACITY) (numbered 0 fd)"

lemma length_numbered [simp]: "length (numbered n fd) = length fd"
  by (simp add: numbered_def)

lemma numbered_snoc: "numbered n (fd @ [(sc, c)]) = numbered n fd @ [\<lparr>je_change = c, je_cursor = Suc (n + length fd), je_scope = sc\<rparr>]"
  by (simp add: numbered_def enumerate_append_eq)

lemma drop_numbered: "drop k (numbered n fd) = numbered (n + k) (drop k fd)"
  by (cases "k \<le> length fd") (simp_all add: numbered_def drop_map enumerate_eq_zip drop_zip drop_upt)

lemma ring_snoc:
  "ring_of (fd @ [(sc, c)]) =
    (let es = ring_of fd @ [\<lparr>je_change = c, je_cursor = Suc (length fd), je_scope = sc\<rparr>]
     in if length es > RING_CAPACITY then drop (length es - RING_CAPACITY) es else es)"
proof (cases "length fd < 1000")
  case False
  then have "length fd - 999 = Suc (length fd - 1000)" by simp
  with False show ?thesis by (simp add: ring_of_def numbered_snoc Let_def RING_CAPACITY_def)
qed (simp add: ring_of_def numbered_snoc Let_def RING_CAPACITY_def)

lemma rebuild_change [simp]: "\<lparr>fc_path = fc_path c, fc_kind = fc_kind c\<rparr> = c"
  by (cases c) simp

text \<open>The journal of a workspace is the end of its feed, numbered from one.\<close>

lemma replay_journal:
  "map_of (replay hs) ws =
    (if feed ws hs = [] then None else Some \<lparr>jr_cursor = length (feed ws hs), jr_entries = ring_of (feed ws hs)\<rparr>)"
proof (induction hs rule: rev_induct)
  case (snoc h hs)
  obtain w sc c where h: "h = (w, sc, c)" by (cases h)
  have r: "replay (hs @ [h]) = record_change w sc (fc_path c) (fc_kind c) (replay hs)"
    by (simp add: replay_def h)
  have f: "feed ws (hs @ [h]) = (if w = ws then feed ws hs @ [(sc, c)] else feed ws hs)"
    by (simp add: feed_def h)
  show ?case
  proof (cases "w = ws")
    case True
    have "ring_of [] = []" by (simp add: ring_of_def numbered_def)
    then show ?thesis
      unfolding r f using True snoc ring_snoc [of "feed ws hs" sc c]
      by (auto simp: record_change_def get_journal_def Let_def split: prod.splits)
  next
    case False
    then show ?thesis
      unfolding r f using snoc
      by (auto simp: record_change_def get_journal_def Let_def split: option.splits)
  qed
qed (simp add: replay_def feed_def)

lemma filter_numbered:
  "filter (\<lambda>e. n + k < je_cursor e \<and> P (je_scope e)) (numbered n fd) = filter (\<lambda>e. P (je_scope e)) (numbered (n + k) (drop k fd))"
proof (induction k arbitrary: n fd)
  case 0
  have "\<forall>e \<in> set (numbered n fd). n < je_cursor e"
    by (auto simp: numbered_def in_set_enumerate_eq)
  then show ?case by (auto intro: filter_cong)
next
  case (Suc k)
  show ?case
  proof (cases fd)
    case Nil
    then show ?thesis by (simp add: numbered_def)
  next
    case (Cons a fd')
    have "numbered n (a # fd') = \<lparr>je_change = snd a, je_cursor = Suc n, je_scope = fst a\<rparr> # numbered (Suc n) fd'"
      by (cases a) (simp add: numbered_def)
    with Cons Suc.IH [of "Suc n" fd'] show ?thesis by simp
  qed
qed

lemma visible_numbered:
  "map je_change (filter (\<lambda>e. je_scope e = [] \<or> je_scope e = scope) (numbered n fd)) = visible scope fd"
  by (induction fd arbitrary: n) (auto simp: numbered_def visible_def)

text \<open>C13: Within one process the ring answers as the full history would: a cursor at most a
  thousand changes old gets exactly the changes after it that its scope may see, each once and
  in order, and any other value gets a reset; the new cursor is the length of the history.\<close>

theorem changes_since_exact:
  "fst (changes_since ws scope since (replay hs)) =
    (let fd = feed ws hs; n = length fd
     in case since of
          None \<Rightarrow> \<lparr>cr_cursor = n, cr_reset = True, cr_changes = []\<rparr>
        | Some s \<Rightarrow>
            if 0 \<le> s \<and> s \<le> int n \<and> int n \<le> s + 1000
            then \<lparr>cr_cursor = n, cr_reset = False, cr_changes = visible scope (drop (nat s) fd)\<rparr>
            else \<lparr>cr_cursor = n, cr_reset = True, cr_changes = []\<rparr>)"
proof -
  let ?fd = "feed ws hs"
  let ?j = "\<lparr>jr_cursor = length ?fd, jr_entries = ring_of ?fd\<rparr>"
  have j: "fst (get_journal ws (replay hs)) = ?j"
    using replay_journal [of hs ws] by (auto simp: get_journal_def Let_def ring_of_def numbered_def split: option.splits)
  have ring: "ring_of ?fd = numbered (length ?fd - 1000) (drop (length ?fd - 1000) ?fd)"
    by (simp add: ring_of_def RING_CAPACITY_def drop_numbered)
  have oldest: "(case ring_of ?fd of [] \<Rightarrow> length ?fd + 1 | e # es \<Rightarrow> je_cursor e) = Suc (length ?fd - 1000)"
  proof (cases "drop (length ?fd - 1000) ?fd")
    case Nil
    then have le: "length ?fd \<le> length ?fd - 1000" by (simp only: drop_eq_Nil)
    have "n \<le> n - 1000 \<Longrightarrow> n = 0" for n :: nat by arith
    from this [OF le] show ?thesis unfolding ring by (simp add: numbered_def)
  next
    case (Cons a xs)
    then show ?thesis unfolding ring by (cases a) (simp add: numbered_def)
  qed
  have seen: "map je_change (filter (\<lambda>e. s < int (je_cursor e) \<and> (je_scope e = [] \<or> je_scope e = scope)) (ring_of ?fd))
      = visible scope (drop (nat s) ?fd)" if "0 \<le> s" "int (length ?fd) \<le> s + 1000" for s
  proof -
    let ?n = "length ?fd - 1000"
    have "?n \<le> nat s" using that by arith
    then obtain k where k: "nat s = ?n + k" using le_Suc_ex by blast
    have eq: "(\<lambda>e. s < int (je_cursor e) \<and> (je_scope e = [] \<or> je_scope e = scope)) =
        (\<lambda>e. ?n + k < je_cursor e \<and> (je_scope e = [] \<or> je_scope e = scope))" proof -
      have "s < int m \<longleftrightarrow> ?n + k < m" for m using that(1) k by linarith
      then show ?thesis by simp
    qed
    show ?thesis
      unfolding ring eq using filter_numbered [of ?n k "\<lambda>sc. sc = [] \<or> sc = scope" "drop ?n ?fd"]
        visible_numbered [of scope "?n + k" "drop (?n + k) ?fd"] by (simp add: k add.commute)
  qed
  have fst_case: "fst (changes_since ws scope since (replay hs)) =
    (let cursor = jr_cursor ?j; reset = \<lparr>cr_cursor = cursor, cr_reset = True, cr_changes = []\<rparr>
     in case since of None \<Rightarrow> reset
        | Some s \<Rightarrow> if s < 0 \<or> s > int cursor then reset
            else if s < int (case jr_entries ?j of [] \<Rightarrow> cursor + 1 | e # es \<Rightarrow> je_cursor e) - 1 then reset
            else \<lparr>cr_cursor = cursor, cr_reset = False, cr_changes = map je_change (filter (\<lambda>e. int (je_cursor e) > s \<and>
                 (je_scope e = [] \<or> je_scope e = scope)) (jr_entries ?j))\<rparr>)"
  proof -
    obtain js' where "get_journal ws (replay hs) = (?j, js')" using j by (cases "get_journal ws (replay hs)") auto
    from this show ?thesis
      unfolding changes_since_def Let_def journal.simps by (simp only: prod.case journal.simps) (simp split: option.split)
  qed
  show ?thesis
    unfolding fst_case journal.simps oldest Let_def using seen
    by (auto split: option.split)
qed

text \<open>A cursor of the process before: once the new process has recorded as many changes, it is
  answered without a reset, and the changes up to that count are never delivered.\<close>

lemma stale_cursor_skips:
  assumes "length (feed ws hs) = 2" and "feed ws hs = [([], a), ([], b)]"
  shows "fst (changes_since ws [] (Some 1) (replay hs)) = \<lparr>cr_cursor = 2, cr_reset = False, cr_changes = [b]\<rparr>"
  using assms by (simp add: changes_since_exact visible_def)

end
