(* ===== verification/Realtime.thy ===== *)
theory Realtime
  imports Json
begin

text \<open>
  The realtime broker: \<^verbatim>\<open>realtime/protocol.ts\<close> (topics and client messages), \<^verbatim>\<open>realtime/store.ts\<close>
  (the ephemeral stores of the namespaces) and \<^verbatim>\<open>realtime/broker.ts\<close> (connections,
  subscriptions and fan-out). Every message is handled to its end before the next one; the
  handlers of the namespaces are programs over the broker, and what a connection is sent is
  recorded in the order of the sends.
\<close>

section \<open>Protocol\<close>

definition is_lower :: "char \<Rightarrow> bool" where
  "is_lower c \<longleftrightarrow> (let n = of_char c :: nat in 97 \<le> n \<and> n \<le> 122)"

definition is_ns_char :: "char \<Rightarrow> bool" where
  "is_ns_char c \<longleftrightarrow> is_lower c \<or> is_digit c \<or> c = CHR ''-''"

definition is_line_end :: "char \<Rightarrow> bool" where
  "is_line_end c \<longleftrightarrow> c = CHR 10 \<or> c = CHR 13"

text \<open>\<^verbatim>\<open>/^([a-z][a-z0-9-]*):(.+)$/\<close>.\<close>

definition parse_topic :: "string \<Rightarrow> (string \<times> string) option" where
  "parse_topic topic =
     (let ns = takeWhile is_ns_char topic; r = dropWhile is_ns_char topic
      in if ns \<noteq> [] \<and> is_lower (hd ns) \<and> starts_with r '':'' \<and> tl r \<noteq> [] \<and> \<not> (\<exists>c \<in> set (tl r). is_line_end c)
         then Some (ns, tl r) else None)"

definition RESERVED_NAMESPACES :: "string list" where
  "RESERVED_NAMESPACES = [''fs'']"

datatype error_code = BadMessage | UnknownNamespace | ReservedNamespace | BadTopic | BadBody

datatype client_message = Subscribe string | Unsubscribe string | Publish string json

datatype server_message =
    Subscribed string "json option"
  | Event string json
  | ErrorMessage error_code string "string option"

text \<open>The message schema, on the parsed frame (\<^verbatim>\<open>None\<close> when \<^verbatim>\<open>JSON.parse\<close> throws).\<close>

definition parse_client_message :: "json option \<Rightarrow> client_message option" where
  "parse_client_message frame =
     (case frame of None \<Rightarrow> None
      | Some v \<Rightarrow>
          (case (jprop v ''type'', jprop v ''topic'') of
             (JStr ty, JStr topic) \<Rightarrow>
               if parse_topic topic = None then None
               else if ty = ''subscribe'' then Some (Subscribe topic)
               else if ty = ''unsubscribe'' then Some (Unsubscribe topic)
               else if ty = ''publish'' then Some (Publish topic (jprop v ''body''))
               else None
           | _ \<Rightarrow> None))"

section \<open>State\<close>

record rt_conn =
  cn_id :: string
  cn_user :: string
  cn_ws :: string

record rt_workspace =
  rw_conns :: "(string \<times> rt_conn) list"
  rw_subs :: "(string \<times> string list) list"
  rw_topics :: "(string \<times> string list) list"

type_synonym 'v ns_store = "(string \<times> 'v) list"

record 'v broker =
  bk_now :: int
  bk_spaces :: "(string \<times> rt_workspace) list"
  bk_stores :: "(string \<times> 'v ns_store) list"
  bk_sent :: "(string \<times> server_message) list"

record 'v ns_handler =
  nh_subscribe :: "rt_conn \<Rightarrow> string \<Rightarrow> ('v broker, json option) prog"
  nh_publish :: "rt_conn \<Rightarrow> string \<Rightarrow> json \<Rightarrow> ('v broker, unit) prog"
  nh_disconnect :: "rt_conn \<Rightarrow> ('v broker, unit) prog"

text \<open>A namespace may decide per event and subscriber, from the broker's state alone.\<close>

type_synonym 'v authorizer = "string \<Rightarrow> (rt_conn \<Rightarrow> string \<Rightarrow> 'v broker \<Rightarrow> bool) option"

record 'v rt_env =
  re_handlers :: "(string \<times> 'v ns_handler) list"
  re_authorize :: "'v authorizer"

section \<open>Namespace stores\<close>

definition NUL :: char where
  "NUL = CHR 0x00"

definition store_key :: "string \<Rightarrow> string \<Rightarrow> string" where
  "store_key ws namespace = ws @ [NUL] @ namespace"

definition store_of :: "string \<Rightarrow> string \<Rightarrow> 'v broker \<Rightarrow> 'v ns_store" where
  "store_of ws namespace b = (case map_of (bk_stores b) (store_key ws namespace) of None \<Rightarrow> [] | Some st \<Rightarrow> st)"

definition put_store :: "string \<Rightarrow> string \<Rightarrow> 'v ns_store \<Rightarrow> 'v broker \<Rightarrow> 'v broker" where
  "put_store ws namespace st b = b\<lparr>bk_stores := AList.update (store_key ws namespace) st (bk_stores b)\<rparr>"

definition ns_get :: "string \<Rightarrow> string \<Rightarrow> string \<Rightarrow> ('v broker, 'v option) prog" where
  "ns_get ws namespace key = gets (\<lambda>b. map_of (store_of ws namespace b) key)"

definition ns_set :: "string \<Rightarrow> string \<Rightarrow> string \<Rightarrow> 'v \<Rightarrow> ('v broker, unit) prog" where
  "ns_set ws namespace key v =
     modifyM (\<lambda>b. put_store ws namespace (AList.update key v (store_of ws namespace b)) b)"

definition ns_delete :: "string \<Rightarrow> string \<Rightarrow> string \<Rightarrow> ('v broker, bool) prog" where
  "ns_delete ws namespace key b =
     (Inr (map_of (store_of ws namespace b) key \<noteq> None),
      put_store ws namespace (AList.delete key (store_of ws namespace b)) b)"

definition ns_list :: "string \<Rightarrow> string \<Rightarrow> string \<Rightarrow> ('v broker, (string \<times> 'v) list) prog" where
  "ns_list ws namespace pre = gets (\<lambda>b. filter (\<lambda>(k, v). starts_with k pre) (store_of ws namespace b))"

definition drop_stores :: "string \<Rightarrow> 'v broker \<Rightarrow> 'v broker" where
  "drop_stores ws b = b\<lparr>bk_stores := filter (\<lambda>(k, st). \<not> starts_with k (ws @ [NUL])) (bk_stores b)\<rparr>"

section \<open>Broker\<close>

definition empty_space :: rt_workspace where
  "empty_space = \<lparr>rw_conns = [], rw_subs = [], rw_topics = []\<rparr>"

definition space_of :: "string \<Rightarrow> 'v broker \<Rightarrow> rt_workspace" where
  "space_of ws b = (case map_of (bk_spaces b) ws of None \<Rightarrow> empty_space | Some st \<Rightarrow> st)"

definition put_space :: "string \<Rightarrow> rt_workspace \<Rightarrow> 'v broker \<Rightarrow> 'v broker" where
  "put_space ws st b = b\<lparr>bk_spaces := AList.update ws st (bk_spaces b)\<rparr>"

definition drop_empty_workspace :: "string \<Rightarrow> 'v broker \<Rightarrow> 'v broker" where
  "drop_empty_workspace ws b =
     (let st = space_of ws b in
      if rw_conns st = [] \<and> rw_subs st = []
      then drop_stores ws (b\<lparr>bk_spaces := AList.delete ws (bk_spaces b)\<rparr>) else b)"

definition send_to :: "rt_conn \<Rightarrow> server_message \<Rightarrow> ('v broker, unit) prog" where
  "send_to c msg = modifyM (\<lambda>b. b\<lparr>bk_sent := bk_sent b @ [(cn_id c, msg)]\<rparr>)"

definition send_error :: "rt_conn \<Rightarrow> error_code \<Rightarrow> string \<Rightarrow> string \<Rightarrow> ('v broker, unit) prog" where
  "send_error c code message topic =
     send_to c (ErrorMessage code message (if topic = [] then None else Some topic))"

definition resolve_handler :: "'v rt_env \<Rightarrow> rt_conn \<Rightarrow> string \<Rightarrow> ('v broker, 'v ns_handler option) prog" where
  "resolve_handler env c topic =
     (case parse_topic topic of
        None \<Rightarrow> thenM (send_error c BadMessage ''invalid topic'' topic) (ret None)
      | Some (namespace, r) \<Rightarrow>
          if namespace \<in> set RESERVED_NAMESPACES
          then thenM (send_error c ReservedNamespace (''namespace '' @ [CHR 34] @ namespace @ [CHR 34] @ '' is reserved'') topic) (ret None)
          else (case map_of (re_handlers env) namespace of
                  None \<Rightarrow> thenM (send_error c UnknownNamespace (''unknown namespace '' @ [CHR 34] @ namespace @ [CHR 34]) topic) (ret None)
                | Some h \<Rightarrow> ret (Some h)))"

text \<open>Taking one connection out of, and putting it into, the subscribers of a topic.\<close>

definition drop_sub :: "string \<Rightarrow> string \<Rightarrow> rt_workspace \<Rightarrow> rt_workspace" where
  "drop_sub cid topic st =
     (case map_of (rw_subs st) topic of
        None \<Rightarrow> st
      | Some ids \<Rightarrow> (let rest = removeAll cid ids in
          st\<lparr>rw_subs := (if rest = [] then AList.delete topic (rw_subs st) else AList.update topic rest (rw_subs st))\<rparr>))"

definition add_sub :: "string \<Rightarrow> string \<Rightarrow> rt_workspace \<Rightarrow> rt_workspace" where
  "add_sub cid topic st =
     st\<lparr>rw_subs := AList.update topic
          (set_add cid (case map_of (rw_subs st) topic of None \<Rightarrow> [] | Some ids \<Rightarrow> ids)) (rw_subs st)\<rparr>"

definition topics_of :: "string \<Rightarrow> rt_workspace \<Rightarrow> string list" where
  "topics_of cid st = (case map_of (rw_topics st) cid of None \<Rightarrow> [] | Some ts \<Rightarrow> ts)"

definition set_topics :: "string \<Rightarrow> string list \<Rightarrow> rt_workspace \<Rightarrow> rt_workspace" where
  "set_topics cid ts st = st\<lparr>rw_topics := AList.update cid ts (rw_topics st)\<rparr>"

definition leave_topic :: "string \<Rightarrow> string \<Rightarrow> rt_workspace \<Rightarrow> rt_workspace" where
  "leave_topic cid topic st = drop_sub cid topic (set_topics cid (removeAll topic (topics_of cid st)) st)"

definition enter_topic :: "string \<Rightarrow> string \<Rightarrow> rt_workspace \<Rightarrow> rt_workspace" where
  "enter_topic cid topic st =
     (let ts = topics_of cid st in
      if topic \<in> set ts then set_topics cid ts st
      else add_sub cid topic (set_topics cid (set_add topic ts) st))"

definition add_connection :: "rt_conn \<Rightarrow> 'v broker \<Rightarrow> 'v broker" where
  "add_connection c b =
     (let st = space_of (cn_ws c) b in
      put_space (cn_ws c)
        (set_topics (cn_id c) [] (st\<lparr>rw_conns := AList.update (cn_id c) c (rw_conns st)\<rparr>)) b)"

definition forget_connection :: "string \<Rightarrow> rt_workspace \<Rightarrow> rt_workspace" where
  "forget_connection cid st =
     (let st' = foldl (\<lambda>s topic. drop_sub cid topic s) st (topics_of cid st)
      in st'\<lparr>rw_topics := AList.delete cid (rw_topics st'), rw_conns := AList.delete cid (rw_conns st')\<rparr>)"

text \<open>\<^verbatim>\<open>Promise.resolve(p).catch(() => undefined)\<close>.\<close>

definition attempt :: "('s, unit) prog \<Rightarrow> ('s, unit) prog" where
  "attempt p = catchM p (\<lambda>_. ret ())"

definition disconnect_handlers :: "'v rt_env \<Rightarrow> rt_conn \<Rightarrow> ('v broker, unit) prog" where
  "disconnect_handlers env c =
     iterM (map snd (re_handlers env)) (\<lambda>h. attempt (nh_disconnect h c))"

definition remove_connection :: "'v rt_env \<Rightarrow> rt_conn \<Rightarrow> 'v broker \<Rightarrow> 'v broker" where
  "remove_connection env c b =
     (case map_of (bk_spaces b) (cn_ws c) of
        None \<Rightarrow> b
      | Some st \<Rightarrow>
          drop_empty_workspace (cn_ws c)
            (snd (disconnect_handlers env c (put_space (cn_ws c) (forget_connection (cn_id c) st) b))))"

fun error_text :: "svc_error \<Rightarrow> string" where
  "error_text (ServiceError m s) = m"
| "error_text (PlainError m) = m"

definition subscribe_message :: "'v ns_handler \<Rightarrow> rt_conn \<Rightarrow> string \<Rightarrow> ('v broker, unit) prog" where
  "subscribe_message h c topic =
     bindM (gets (\<lambda>b. topic \<in> set (topics_of (cn_id c) (space_of (cn_ws c) b)))) (\<lambda>already.
     thenM (modifyM (\<lambda>b. put_space (cn_ws c) (enter_topic (cn_id c) topic (space_of (cn_ws c) b)) b))
       (catchM (bindM (nh_subscribe h c topic) (\<lambda>body. send_to c (Subscribed topic body)))
         (\<lambda>e. thenM (if already then ret ()
                    else modifyM (\<lambda>b. put_space (cn_ws c) (leave_topic (cn_id c) topic (space_of (cn_ws c) b)) b))
               (send_error c BadTopic (error_text e) topic))))"

definition unsubscribe_message :: "rt_conn \<Rightarrow> string \<Rightarrow> ('v broker, unit) prog" where
  "unsubscribe_message c topic =
     modifyM (\<lambda>b. let st = space_of (cn_ws c) b in
       if topic \<in> set (topics_of (cn_id c) st) then put_space (cn_ws c) (leave_topic (cn_id c) topic st) b else b)"

definition publish_message :: "'v ns_handler \<Rightarrow> rt_conn \<Rightarrow> string \<Rightarrow> json \<Rightarrow> ('v broker, unit) prog" where
  "publish_message h c topic body =
     catchM (nh_publish h c topic body) (\<lambda>e. send_error c BadBody (error_text e) topic)"

definition handle_client_message :: "'v rt_env \<Rightarrow> rt_conn \<Rightarrow> client_message \<Rightarrow> ('v broker, unit) prog" where
  "handle_client_message env c msg =
     thenM (modifyM (\<lambda>b. put_space (cn_ws c) (space_of (cn_ws c) b) b))
       (case msg of
          Unsubscribe topic \<Rightarrow> unsubscribe_message c topic
        | Subscribe topic \<Rightarrow> bindM (resolve_handler env c topic) (\<lambda>r. case r of
            None \<Rightarrow> ret () | Some h \<Rightarrow> subscribe_message h c topic)
        | Publish topic body \<Rightarrow> bindM (resolve_handler env c topic) (\<lambda>r. case r of
            None \<Rightarrow> ret () | Some h \<Rightarrow> publish_message h c topic body))"

text \<open>Fan-out: the subscribers of the topic in one workspace, less the excepted connection, the
  connections that are gone and those the namespace does not authorize.\<close>

definition may_receive :: "'v authorizer \<Rightarrow> string \<Rightarrow> 'v broker \<Rightarrow> rt_conn \<Rightarrow> bool" where
  "may_receive auth topic b c \<longleftrightarrow>
     (case parse_topic topic of None \<Rightarrow> True
      | Some (namespace, r) \<Rightarrow> (case auth namespace of None \<Rightarrow> True | Some ok \<Rightarrow> ok c topic b))"

definition recipients :: "'v authorizer \<Rightarrow> string \<Rightarrow> string \<Rightarrow> string option \<Rightarrow> 'v broker \<Rightarrow> string list" where
  "recipients auth ws topic except b =
     (let st = space_of ws b in
      filter (\<lambda>cid. Some cid \<noteq> except \<and>
          (case map_of (rw_conns st) cid of None \<Rightarrow> False | Some c \<Rightarrow> may_receive auth topic b c))
        (case map_of (rw_subs st) topic of None \<Rightarrow> [] | Some ids \<Rightarrow> ids))"

definition publish_to_topic ::
  "'v authorizer \<Rightarrow> string \<Rightarrow> string \<Rightarrow> json \<Rightarrow> string option \<Rightarrow> ('v broker, unit) prog" where
  "publish_to_topic auth ws topic body except =
     modifyM (\<lambda>b. b\<lparr>bk_sent := bk_sent b @ map (\<lambda>cid. (cid, Event topic body)) (recipients auth ws topic except b)\<rparr>)"

end
