(* ===== verification/Fs_Path.thy ===== *)
theory Fs_Path
  imports Base
begin

text \<open>The canonical form of workspace paths, \<^verbatim>\<open>normalizeFsPath\<close> of \<^verbatim>\<open>fs-store.ts\<close>.\<close>

definition MAX_FS_PATH_BYTES :: nat where
  "MAX_FS_PATH_BYTES = 900"

definition strip_slashes :: "string \<Rightarrow> string" where
  "strip_slashes s = rev (dropWhile (\<lambda>c. c = CHR ''/'') (rev (dropWhile (\<lambda>c. c = CHR ''/'') s)))"

definition normalize_fs_path :: "string \<Rightarrow> string option" where
  "normalize_fs_path raw =
     (let path = strip_slashes raw in
      if path = [] then None
      else if length path > MAX_FS_PATH_BYTES then None
      else (let segments = split_on CHR ''/'' path in
        if \<exists>s \<in> set segments. s = [] \<or> s = ''.'' \<or> s = ''..'' then None
        else Some (join ''/'' segments)))"

end
