(* ===== verification/Presence.thy ===== *)
theory Presence
  imports Realtime_Laws Js_Date Fs_Path
begin

text \<open>
  \<^verbatim>\<open>realtime/presence.ts\<close>: rosters of the users looking at a path, kept in the broker's store
  of the namespace. Each connection has one focus; each user of a path has one membership
  entry with the connections that focus it. Paths must be in the canonical form of
  \<^verbatim>\<open>normalizeFsPath\<close>.
\<close>

datatype presence_value = FocusEntry string string | MemberEntry "string list" string

record presence_peer =
  pe_user :: string
  pe_path :: string
  pe_active :: string

definition assert_canonical_path :: "string \<Rightarrow> svc_error + string" where
  "assert_canonical_path r =
     (if normalize_fs_path r = Some r then Inr r else Inl (PlainError ''non-canonical presence path''))"

definition path_from_topic :: "string \<Rightarrow> svc_error + string" where
  "path_from_topic topic =
     (case parse_topic topic of
        Some (namespace, r) \<Rightarrow>
          if namespace = ''presence'' then assert_canonical_path r else Inl (PlainError ''invalid presence topic'')
      | None \<Rightarrow> Inl (PlainError ''invalid presence topic''))"

definition presence_topic :: "string \<Rightarrow> string" where
  "presence_topic path = ''presence:'' @ path"

definition focus_key :: "string \<Rightarrow> string" where
  "focus_key cid = ''focus:'' @ cid"

definition member_prefix :: "string \<Rightarrow> string" where
  "member_prefix path = ''member:'' @ path @ [NUL]"

definition member_key :: "string \<Rightarrow> string \<Rightarrow> string" where
  "member_key path user = member_prefix path @ user"

definition roster :: "string \<Rightarrow> string \<Rightarrow> (presence_value broker, presence_peer list) prog" where
  "roster ws path =
     bindM (ns_list ws ''presence'' (member_prefix path)) (\<lambda>entries.
     ret (map (\<lambda>(key, v). \<lparr>pe_user = drop (length (member_prefix path)) key, pe_path = path,
                pe_active = (case v of MemberEntry ids la \<Rightarrow> la | FocusEntry p la \<Rightarrow> la)\<rparr>) entries))"

definition peer_json :: "presence_peer \<Rightarrow> json" where
  "peer_json p = JObj [(''userId'', JStr (pe_user p)), (''path'', JStr (pe_path p)), (''lastActive'', JStr (pe_active p))]"

definition emit_delta ::
  "presence_value authorizer \<Rightarrow> string \<Rightarrow> string \<Rightarrow> string \<Rightarrow> presence_peer \<Rightarrow> (presence_value broker, unit) prog" where
  "emit_delta auth ws path kind peer =
     publish_to_topic auth ws (presence_topic path) (JObj [(''kind'', JStr kind), (''peer'', peer_json peer)]) None"

text \<open>An entry of the other kind cannot be under these keys; those branches do nothing.\<close>

definition clear_focus :: "presence_value authorizer \<Rightarrow> rt_conn \<Rightarrow> (presence_value broker, unit) prog" where
  "clear_focus auth c =
     bindM (ns_get (cn_ws c) ''presence'' (focus_key (cn_id c))) (\<lambda>current. case current of
       Some (FocusEntry path la) \<Rightarrow>
         bindM (ns_delete (cn_ws c) ''presence'' (focus_key (cn_id c))) (\<lambda>_.
         bindM (ns_get (cn_ws c) ''presence'' (member_key path (cn_user c))) (\<lambda>membership. case membership of
           Some (MemberEntry ids mla) \<Rightarrow>
             (let rest = filter (\<lambda>i. i \<noteq> cn_id c) ids in
              if rest \<noteq> []
              then ns_set (cn_ws c) ''presence'' (member_key path (cn_user c)) (MemberEntry rest mla)
              else bindM (ns_delete (cn_ws c) ''presence'' (member_key path (cn_user c))) (\<lambda>_.
                   emit_delta auth (cn_ws c) path ''leave''
                     \<lparr>pe_user = cn_user c, pe_path = path, pe_active = la\<rparr>))
         | _ \<Rightarrow> ret ()))
     | _ \<Rightarrow> ret ())"

definition set_focus :: "presence_value authorizer \<Rightarrow> rt_conn \<Rightarrow> string \<Rightarrow> (presence_value broker, unit) prog" where
  "set_focus auth c path =
     bindM (gets (\<lambda>b. iso_of (bk_now b))) (\<lambda>now.
     bindM (ns_get (cn_ws c) ''presence'' (focus_key (cn_id c))) (\<lambda>current.
     let peer = \<lparr>pe_user = cn_user c, pe_path = path, pe_active = now\<rparr>;
         mkey = member_key path (cn_user c);
         focused = (case current of Some (FocusEntry p la) \<Rightarrow> Some p | _ \<Rightarrow> None)
     in if focused = Some path
        then thenM (ns_set (cn_ws c) ''presence'' (focus_key (cn_id c)) (FocusEntry path now))
               (bindM (ns_get (cn_ws c) ''presence'' mkey) (\<lambda>membership.
                thenM (case membership of
                         Some (MemberEntry ids la) \<Rightarrow> ns_set (cn_ws c) ''presence'' mkey (MemberEntry ids now)
                       | _ \<Rightarrow> ret ())
                  (emit_delta auth (cn_ws c) path ''update'' peer)))
        else thenM (if focused = None then ret () else clear_focus auth c)
               (thenM (ns_set (cn_ws c) ''presence'' (focus_key (cn_id c)) (FocusEntry path now))
                 (bindM (ns_get (cn_ws c) ''presence'' mkey) (\<lambda>membership. case membership of
                    Some (MemberEntry ids la) \<Rightarrow>
                      thenM (ns_set (cn_ws c) ''presence'' mkey (MemberEntry (ids @ [cn_id c]) now))
                        (emit_delta auth (cn_ws c) path ''update'' peer)
                  | _ \<Rightarrow>
                      thenM (ns_set (cn_ws c) ''presence'' mkey (MemberEntry [cn_id c] now))
                        (emit_delta auth (cn_ws c) path ''join'' peer))))))"

definition presence_subscribe :: "rt_conn \<Rightarrow> string \<Rightarrow> (presence_value broker, json option) prog" where
  "presence_subscribe c topic =
     bindM (liftE (path_from_topic topic)) (\<lambda>path.
     bindM (roster (cn_ws c) path) (\<lambda>peers. ret (Some (JObj [(''peers'', JArr (map peer_json peers))]))))"

definition presence_publish ::
  "presence_value authorizer \<Rightarrow> rt_conn \<Rightarrow> string \<Rightarrow> json \<Rightarrow> (presence_value broker, unit) prog" where
  "presence_publish auth c topic body =
     bindM (liftE (path_from_topic topic)) (\<lambda>path.
     if jprop body ''action'' = JStr ''focus'' then set_focus auth c path
     else if jprop body ''action'' = JStr ''blur'' then clear_focus auth c
     else throw (PlainError (''presence body must be {action:'' @ [CHR 34] @ ''focus'' @ [CHR 34] @ ''|'' @
            [CHR 34] @ ''blur'' @ [CHR 34] @ ''}'')))"

definition presence_handler :: "presence_value authorizer \<Rightarrow> presence_value ns_handler" where
  "presence_handler auth =
     \<lparr>nh_subscribe = presence_subscribe, nh_publish = presence_publish auth, nh_disconnect = clear_focus auth\<rparr>"

definition presence_env :: "presence_value rt_env" where
  "presence_env = \<lparr>re_handlers = [(''presence'', presence_handler (\<lambda>_. None))], re_authorize = (\<lambda>_. None)\<rparr>"

section \<open>The handler leaves connections and subscriptions alone\<close>

definition still_prog :: "('v broker, 'a) prog \<Rightarrow> bool" where
  "still_prog p \<longleftrightarrow> (\<forall>b. bk_spaces (snd (p b)) = bk_spaces b)"

lemma still_basic [simp]: "still_prog (ret x)" "still_prog (throw e)" "still_prog (gets f)" "still_prog (liftE r)"
  "still_prog (ns_get ws n k)" "still_prog (ns_set ws n k v)" "still_prog (ns_delete ws n k)" "still_prog (ns_list ws n p)"
  "still_prog (publish_to_topic auth ws topic body ex)"
  by (simp_all add: still_prog_def ns_get_def ns_set_def ns_delete_def ns_list_def put_store_def publish_to_topic_def
      ret_def throw_def liftE_def)

lemma still_bind [simp]: "still_prog p \<Longrightarrow> (\<And>x. still_prog (f x)) \<Longrightarrow> still_prog (bindM p f)"
  unfolding still_prog_def by (simp add: bindM_run split: prod.split sum.split) (metis snd_conv)

lemma still_then [simp]: "still_prog p \<Longrightarrow> still_prog q \<Longrightarrow> still_prog (thenM p q)"
  by (simp add: thenM_def)

lemma quiet_presence: "still_prog (clear_focus auth c)" "still_prog (set_focus auth c path)"
  "still_prog (presence_subscribe c topic)" "still_prog (presence_publish auth c topic body)"
proof -
  show cf: "still_prog (clear_focus auth c)"
    unfolding clear_focus_def emit_delta_def Let_def
    by (intro still_bind still_basic) (simp split: option.split presence_value.split)
  show sf: "still_prog (set_focus auth c path)" for path
    unfolding set_focus_def emit_delta_def Let_def
    by (intro still_bind still_basic) (simp add: cf split: option.split presence_value.split)
  show "still_prog (presence_subscribe c topic)"
    by (simp add: presence_subscribe_def roster_def)
  show "still_prog (presence_publish auth c topic body)"
    by (simp add: presence_publish_def cf sf)
qed

lemma presence_env_quiet: "handlers_quiet presence_env"
  using quiet_presence by (auto simp: handlers_quiet_def presence_env_def presence_handler_def still_prog_def)

interpretation presence: quiet_handlers presence_env
  by unfold_locales (rule presence_env_quiet)

end
