(* ===== verification/Presence_Laws.thy ===== *)
theory Presence_Laws
  imports Presence
begin

text \<open>
  The entries of the presence store follow the focus of every connection: the invariant
  \<^verbatim>\<open>presence_ok\<close> and its preservation by \<^verbatim>\<open>setFocus\<close> and \<^verbatim>\<open>clearFocus\<close>. A
  path and a user id are joined by a NUL in the key of a membership, so the paths are free of NUL.
\<close>

lemma store_of_put [simp]: "store_of ws ns (put_store ws ns st b) = st"
  by (simp add: store_of_def put_store_def)

lemma publish_stores: "store_of ws ns (snd (publish_to_topic auth w t body ex b)) = store_of ws ns b"
  by (simp add: publish_to_topic_def store_of_def)

lemma publish_run: "fst (publish_to_topic auth w t body ex b) = Inr ()"
  by (simp add: publish_to_topic_def)

section \<open>Keys\<close>

lemma member_key_inj: "NUL \<notin> set p \<Longrightarrow> NUL \<notin> set p' \<Longrightarrow> member_key p u = member_key p' u' \<longleftrightarrow> p = p' \<and> u = u'"
  by (auto simp: member_key_def member_prefix_def append_sep_eq)

lemma focus_key_inj [simp]: "focus_key c = focus_key c' \<longleftrightarrow> c = c'"
  by (simp add: focus_key_def)

lemma focus_member [simp]: "focus_key c \<noteq> member_key p u" "member_key p u \<noteq> focus_key c"
  by (simp_all add: focus_key_def member_key_def member_prefix_def)

section \<open>The invariant\<close>

definition focused :: "(string \<Rightarrow> string option) \<Rightarrow> (string \<Rightarrow> string) \<Rightarrow> string \<Rightarrow> string \<Rightarrow> string set" where
  "focused foc owner p u = {cid. foc cid = Some p \<and> owner cid = u}"

definition focus_entry :: "presence_value option \<Rightarrow> string option \<Rightarrow> bool" where
  "focus_entry v p \<longleftrightarrow> (v = None \<and> p = None) \<or> (\<exists>q la. v = Some (FocusEntry q la) \<and> p = Some q)"

definition member_entry :: "presence_value option \<Rightarrow> string set \<Rightarrow> bool" where
  "member_entry v cs \<longleftrightarrow> (v = None \<and> cs = {}) \<or> (\<exists>ids la. v = Some (MemberEntry ids la) \<and> set ids = cs \<and> cs \<noteq> {})"

definition presence_ok :: "(string \<Rightarrow> string) \<Rightarrow> (string \<Rightarrow> string option) \<Rightarrow> presence_value ns_store \<Rightarrow> bool" where
  "presence_ok owner foc st \<longleftrightarrow> wf_map st \<and>
     (\<forall>cid. focus_entry (map_of st (focus_key cid)) (foc cid)) \<and>
     (\<forall>p u. NUL \<notin> set p \<longrightarrow> member_entry (map_of st (member_key p u)) (focused foc owner p u)) \<and>
     (\<forall>cid p. foc cid = Some p \<longrightarrow> NUL \<notin> set p)"

lemma presence_okI:
  assumes "wf_map st" and "\<And>cid. focus_entry (map_of st (focus_key cid)) (foc cid)"
    and "\<And>p u. NUL \<notin> set p \<Longrightarrow> member_entry (map_of st (member_key p u)) (focused foc owner p u)"
    and "\<And>cid p. foc cid = Some p \<Longrightarrow> NUL \<notin> set p"
  shows "presence_ok owner foc st"
  using assms unfolding presence_ok_def by blast

lemma presence_okD:
  assumes "presence_ok owner foc st"
  shows "wf_map st" "focus_entry (map_of st (focus_key cid)) (foc cid)"
    "NUL \<notin> set p \<Longrightarrow> member_entry (map_of st (member_key p u)) (focused foc owner p u)"
    "foc cid = Some p \<Longrightarrow> NUL \<notin> set p"
  using assms unfolding presence_ok_def by blast+

lemma focus_entry_simps [simp]: "focus_entry None p \<longleftrightarrow> p = None" "focus_entry (Some (FocusEntry q la)) p \<longleftrightarrow> p = Some q"
  "focus_entry v None \<longleftrightarrow> v = None" "\<not> focus_entry (Some (MemberEntry ids la)) p"
  by (auto simp: focus_entry_def)

lemma member_entry_simps [simp]: "member_entry None cs \<longleftrightarrow> cs = {}"
  "member_entry (Some (MemberEntry ids la)) cs \<longleftrightarrow> set ids = cs \<and> ids \<noteq> []" "\<not> member_entry (Some (FocusEntry q la)) cs"
  by (auto simp: member_entry_def)

lemma focused_clear:
  "focused (foc(cid := None)) owner p u = focused foc owner p u - {cid}"
  by (auto simp: focused_def)

lemma focused_set:
  "foc cid = None \<Longrightarrow> focused (foc(cid := Some q)) owner p u =
    (if q = p \<and> owner cid = u then insert cid (focused foc owner p u) else focused foc owner p u)"
  by (auto simp: focused_def)

text \<open>Taking the focus of a connection away, and setting it, on the entries of the store.\<close>

definition cleared :: "string \<Rightarrow> string \<Rightarrow> string list \<Rightarrow> string \<Rightarrow> string \<Rightarrow> presence_value ns_store \<Rightarrow> presence_value ns_store" where
  "cleared cid p ids la u st =
     (let st' = AList.delete (focus_key cid) st; rest = filter (\<lambda>i. i \<noteq> cid) ids
      in if rest \<noteq> [] then AList.update (member_key p u) (MemberEntry rest la) st' else AList.delete (member_key p u) st')"

lemma cleared_ok:
  assumes ok: "presence_ok owner foc st" and f: "foc cid = Some p"
    and m: "map_of st (member_key p (owner cid)) = Some (MemberEntry ids la)"
  shows "presence_ok owner (foc(cid := None)) (cleared cid p ids la (owner cid) st)"
proof (rule presence_okI)
  note d = presence_okD [OF ok]
  have free: "NUL \<notin> set p" by (rule d(4) [OF f])
  show "wf_map (cleared cid p ids la (owner cid) st)" using d(1) by (simp add: cleared_def Let_def)
  show "focus_entry (map_of (cleared cid p ids la (owner cid) st) (focus_key c)) ((foc(cid := None)) c)" for c
    using d(2) [of c] by (simp add: cleared_def Let_def)
  show "(foc(cid := None)) c = Some q \<Longrightarrow> NUL \<notin> set q" for c q
    using d(4) by (simp split: if_splits)
  show "member_entry (map_of (cleared cid p ids la (owner cid) st) (member_key q u)) (focused (foc(cid := None)) owner q u)"
    if q: "NUL \<notin> set q" for q u
  proof (cases "q = p \<and> u = owner cid")
    case True
    have "set ids = focused foc owner p (owner cid)" using d(3) [OF free, of "owner cid"] m by simp
    then have "set (filter (\<lambda>i. i \<noteq> cid) ids) = focused (foc(cid := None)) owner p (owner cid)"
      by (auto simp: focused_clear)
    then show ?thesis using True by (auto simp: cleared_def Let_def simp del: set_filter)
  next
    case False
    then have "cid \<notin> focused foc owner q u" using f by (auto simp: focused_def)
    then show ?thesis using False d(3) [OF q, of u]
      by (auto simp: cleared_def Let_def member_key_inj [OF q free] focused_clear)
  qed
qed

definition joined :: "string \<Rightarrow> string \<Rightarrow> string list \<Rightarrow> string \<Rightarrow> string \<Rightarrow> presence_value ns_store \<Rightarrow> presence_value ns_store" where
  "joined cid p ids now u st =
     AList.update (member_key p u) (MemberEntry (ids @ [cid]) now) (AList.update (focus_key cid) (FocusEntry p now) st)"

lemma joined_ok:
  assumes ok: "presence_ok owner foc st" and f: "foc cid = None" and free: "NUL \<notin> set p"
    and ids: "set ids = focused foc owner p (owner cid)"
  shows "presence_ok owner (foc(cid := Some p)) (joined cid p ids now (owner cid) st)"
proof (rule presence_okI)
  note d = presence_okD [OF ok]
  show "wf_map (joined cid p ids now (owner cid) st)" using d(1) by (simp add: joined_def)
  show "focus_entry (map_of (joined cid p ids now (owner cid) st) (focus_key c)) ((foc(cid := Some p)) c)" for c
    using d(2) [of c] by (simp add: joined_def)
  show "(foc(cid := Some p)) c = Some q \<Longrightarrow> NUL \<notin> set q" for c q
    using d(4) free by (auto split: if_splits)
  show "member_entry (map_of (joined cid p ids now (owner cid) st) (member_key q u)) (focused (foc(cid := Some p)) owner q u)"
    if q: "NUL \<notin> set q" for q u
    using d(3) [OF q, of u] ids by (auto simp: joined_def member_key_inj [OF q free] focused_set [of foc cid, OF f])
qed

text \<open>A refreshed entry stands for the same focus.\<close>

lemma refreshed_ok:
  assumes ok: "presence_ok owner foc st" and f: "foc cid = Some p"
    and m: "map_of st (member_key p (owner cid)) = Some (MemberEntry ids la)"
  shows "presence_ok owner foc (AList.update (member_key p (owner cid)) (MemberEntry ids now)
    (AList.update (focus_key cid) (FocusEntry p now) st))"
proof (rule presence_okI)
  note d = presence_okD [OF ok]
  have free: "NUL \<notin> set p" by (rule d(4) [OF f])
  let ?st = "AList.update (member_key p (owner cid)) (MemberEntry ids now) (AList.update (focus_key cid) (FocusEntry p now) st)"
  show "wf_map ?st" using d(1) by simp
  show "focus_entry (map_of ?st (focus_key c)) (foc c)" for c using d(2) [of c] f by simp
  show "member_entry (map_of ?st (member_key q u)) (focused foc owner q u)" if q: "NUL \<notin> set q" for q u
    using d(3) [OF q, of u] d(3) [OF free, of "owner cid"] m by (auto simp: member_key_inj [OF q free])
qed (rule presence_okD(4) [OF ok])

section \<open>The operations\<close>

lemma focused_member:
  assumes ok: "presence_ok owner foc st" and f: "foc cid = Some p"
  obtains ids la where "map_of st (member_key p (owner cid)) = Some (MemberEntry ids la)"
proof -
  have "cid \<in> focused foc owner p (owner cid)" using f by (simp add: focused_def)
  moreover have "member_entry (map_of st (member_key p (owner cid))) (focused foc owner p (owner cid))"
    by (rule presence_okD(3) [OF ok presence_okD(4) [OF ok f]])
  ultimately show ?thesis using that unfolding member_entry_def by blast
qed

lemma clear_focus_run:
  assumes ok: "presence_ok owner foc (store_of (cn_ws c) ''presence'' b)" and o: "owner (cn_id c) = cn_user c"
  shows "fst (clear_focus auth c b) = Inr () \<and>
    presence_ok owner (foc(cn_id c := None)) (store_of (cn_ws c) ''presence'' (snd (clear_focus auth c b)))"
proof (cases "foc (cn_id c)")
  case None
  then have "map_of (store_of (cn_ws c) ''presence'' b) (focus_key (cn_id c)) = None"
    using presence_okD(2) [OF ok, of "cn_id c"] by simp
  with None ok show ?thesis by (simp add: clear_focus_def bindM_run ns_get_def fun_upd_idem)
next
  case (Some p)
  let ?st = "store_of (cn_ws c) ''presence'' b"
  obtain la where fe: "map_of ?st (focus_key (cn_id c)) = Some (FocusEntry p la)"
    using presence_okD(2) [OF ok, of "cn_id c"] Some by (auto simp: focus_entry_def)
  obtain ids mla where m: "map_of ?st (member_key p (cn_user c)) = Some (MemberEntry ids mla)"
    using focused_member [OF ok Some] o by metis
  have "fst (clear_focus auth c b) = Inr () \<and>
    store_of (cn_ws c) ''presence'' (snd (clear_focus auth c b)) = cleared (cn_id c) p ids mla (cn_user c) ?st"
    by (simp add: clear_focus_def bindM_run ns_get_def fe ns_delete_def m Let_def ns_set_def cleared_def emit_delta_def
        publish_run publish_stores)
  with cleared_ok [OF ok Some] m o show ?thesis by simp
qed

lemma set_focus_run:
  assumes ok: "presence_ok owner foc (store_of (cn_ws c) ''presence'' b)" and o: "owner (cn_id c) = cn_user c"
    and free: "NUL \<notin> set p"
  shows "fst (set_focus auth c p b) = Inr () \<and>
    presence_ok owner (foc(cn_id c := Some p)) (store_of (cn_ws c) ''presence'' (snd (set_focus auth c p b)))"
proof (cases "foc (cn_id c) = Some p")
  case True
  let ?st = "store_of (cn_ws c) ''presence'' b"
  obtain la where fe: "map_of ?st (focus_key (cn_id c)) = Some (FocusEntry p la)"
    using presence_okD(2) [OF ok, of "cn_id c"] True by (auto simp: focus_entry_def)
  obtain ids mla where m: "map_of ?st (member_key p (cn_user c)) = Some (MemberEntry ids mla)"
    using focused_member [OF ok True] o by metis
  have "fst (set_focus auth c p b) = Inr () \<and> store_of (cn_ws c) ''presence'' (snd (set_focus auth c p b)) =
    AList.update (member_key p (cn_user c)) (MemberEntry ids (iso_of (bk_now b)))
      (AList.update (focus_key (cn_id c)) (FocusEntry p (iso_of (bk_now b))) ?st)"
    by (simp add: set_focus_def bindM_run thenM_run ns_get_def fe m Let_def ns_set_def emit_delta_def publish_run publish_stores)
  with refreshed_ok [OF ok True] m o True show ?thesis by (simp add: fun_upd_idem)
next
  case False
  obtain r b1 where r: "(if foc (cn_id c) = None then ret () else clear_focus auth c) b = (r, b1)" by fastforce
  have b1: "r = Inr ()" "presence_ok owner (foc(cn_id c := None)) (store_of (cn_ws c) ''presence'' b1)"
    using r clear_focus_run [OF ok o, of auth] ok by (auto simp: fun_upd_idem split: if_splits)
  let ?st = "store_of (cn_ws c) ''presence'' b1"
  let ?now = "iso_of (bk_now b)"
  have cur: "(case map_of (store_of (cn_ws c) ''presence'' b) (focus_key (cn_id c)) of
      Some (FocusEntry p la) \<Rightarrow> Some p | _ \<Rightarrow> None) = foc (cn_id c)"
    using presence_okD(2) [OF ok, of "cn_id c"] by (auto simp: focus_entry_def)
  have run: "set_focus auth c p b =
      thenM (ns_set (cn_ws c) ''presence'' (focus_key (cn_id c)) (FocusEntry p ?now))
        (bindM (ns_get (cn_ws c) ''presence'' (member_key p (cn_user c))) (\<lambda>membership. case membership of
           Some (MemberEntry ids la) \<Rightarrow>
             thenM (ns_set (cn_ws c) ''presence'' (member_key p (cn_user c)) (MemberEntry (ids @ [cn_id c]) ?now))
               (emit_delta auth (cn_ws c) p ''update'' \<lparr>pe_user = cn_user c, pe_path = p, pe_active = ?now\<rparr>)
         | _ \<Rightarrow>
             thenM (ns_set (cn_ws c) ''presence'' (member_key p (cn_user c)) (MemberEntry [cn_id c] ?now))
               (emit_delta auth (cn_ws c) p ''join'' \<lparr>pe_user = cn_user c, pe_path = p, pe_active = ?now\<rparr>))) b1"
    using False r b1(1) unfolding set_focus_def Let_def
    by (simp add: bindM_run [of "gets _"] bindM_run [of "ns_get _ _ _", of _ _ "focus_key _"] ns_get_def cur thenM_run [of "if _ then _ else _"])
  have me: "member_entry (map_of ?st (member_key p (cn_user c))) (focused (foc(cn_id c := None)) owner p (cn_user c))"
    by (rule presence_okD(3) [OF b1(2) free])
  have "\<exists>ids. set ids = focused (foc(cn_id c := None)) owner p (cn_user c) \<and> fst (set_focus auth c p b) = Inr () \<and>
      store_of (cn_ws c) ''presence'' (snd (set_focus auth c p b)) = joined (cn_id c) p ids ?now (cn_user c) ?st"
  proof (cases "map_of ?st (member_key p (cn_user c))")
    case None
    show ?thesis
      by (rule exI [of _ "[]"]) (use me None in \<open>simp add: run thenM_run bindM_run ns_get_def ns_set_def emit_delta_def
        publish_run publish_stores joined_def\<close>)
  next
    case (Some v)
    with me obtain ids la where v: "v = MemberEntry ids la" by (auto simp: member_entry_def)
    show ?thesis
      by (rule exI [of _ ids]) (use me Some v in \<open>simp add: run thenM_run bindM_run ns_get_def ns_set_def emit_delta_def
        publish_run publish_stores joined_def\<close>)
  qed
  then show ?thesis using joined_ok [OF b1(2) _ free, of "cn_id c"] o by auto
qed

lemma first_focus_run:
  assumes "map_of (store_of (cn_ws c) ''presence'' b) (focus_key (cn_id c)) = None"
    and "map_of (store_of (cn_ws c) ''presence'' b) (member_key p (cn_user c)) = None"
  shows "store_of (cn_ws c) ''presence'' (snd (set_focus auth c p b)) =
    joined (cn_id c) p [] (iso_of (bk_now b)) (cn_user c) (store_of (cn_ws c) ''presence'' b)"
  using assms
  by (simp add: set_focus_def bindM_run thenM_run ns_get_def ns_set_def Let_def emit_delta_def publish_run publish_stores joined_def)

section \<open>Histories\<close>

datatype presence_event = Focus rt_conn string | Blur rt_conn string | Gone rt_conn

fun event_conn :: "presence_event \<Rightarrow> rt_conn" where
  "event_conn (Focus c t) = c"
| "event_conn (Blur c t) = c"
| "event_conn (Gone c) = c"

fun event_topic :: "presence_event \<Rightarrow> string" where
  "event_topic (Focus c t) = t"
| "event_topic (Blur c t) = t"
| "event_topic (Gone c) = []"

fun apply_event :: "presence_value authorizer \<Rightarrow> presence_event \<Rightarrow> presence_value broker \<Rightarrow> presence_value broker" where
  "apply_event auth (Focus c t) b = snd (presence_publish auth c t (JObj [(''action'', JStr ''focus'')]) b)"
| "apply_event auth (Blur c t) b = snd (presence_publish auth c t (JObj [(''action'', JStr ''blur'')]) b)"
| "apply_event auth (Gone c) b = snd (nh_disconnect (presence_handler auth) c b)"

text \<open>What the events mean: each connection looks at the path it last focused, until it blurs or goes.\<close>

fun track :: "(string \<Rightarrow> string option) \<Rightarrow> presence_event \<Rightarrow> (string \<Rightarrow> string option)" where
  "track foc (Focus c t) = (case path_from_topic t of Inr p \<Rightarrow> foc(cn_id c := Some p) | Inl e \<Rightarrow> foc)"
| "track foc (Blur c t) = (case path_from_topic t of Inr p \<Rightarrow> foc(cn_id c := None) | Inl e \<Rightarrow> foc)"
| "track foc (Gone c) = foc(cn_id c := None)"

lemma tl_dropWhile_set: "x \<in> set (tl (dropWhile P xs)) \<Longrightarrow> x \<in> set xs"
  by (metis set_dropWhileD list.set_sel(2) tl_Nil)

lemma path_from_topic_free: "path_from_topic t = Inr p \<Longrightarrow> NUL \<notin> set t \<Longrightarrow> NUL \<notin> set p"
  by (auto simp: path_from_topic_def parse_topic_def assert_canonical_path_def Let_def
      dest: tl_dropWhile_set split: option.splits if_splits)

definition event_fits :: "string \<Rightarrow> (string \<Rightarrow> string) \<Rightarrow> presence_event \<Rightarrow> bool" where
  "event_fits ws owner e \<longleftrightarrow>
     cn_ws (event_conn e) = ws \<and> owner (cn_id (event_conn e)) = cn_user (event_conn e) \<and> NUL \<notin> set (event_topic e)"

lemma apply_event_ok:
  assumes fits: "event_fits ws owner e" and ok: "presence_ok owner foc (store_of ws ''presence'' b)"
  shows "presence_ok owner (track foc e) (store_of ws ''presence'' (apply_event auth e b))"
proof (cases e)
  case (Focus c t)
  have f: "cn_ws c = ws" "owner (cn_id c) = cn_user c" "NUL \<notin> set t" using fits by (simp_all add: event_fits_def Focus)
  show ?thesis
  proof (cases "path_from_topic t")
    case (Inr p)
    then show ?thesis
      using set_focus_run [of owner foc c b p auth] f ok path_from_topic_free [OF Inr f(3)]
      by (simp add: Focus presence_publish_def bindM_run)
  qed (use ok in \<open>simp add: Focus presence_publish_def bindM_run\<close>)
next
  case (Blur c t)
  have f: "cn_ws c = ws" "owner (cn_id c) = cn_user c" using fits by (simp_all add: event_fits_def Blur)
  show ?thesis
    using clear_focus_run [of owner foc c b auth] f ok
    by (cases "path_from_topic t") (simp_all add: Blur presence_publish_def bindM_run)
next
  case (Gone c)
  have f: "cn_ws c = ws" "owner (cn_id c) = cn_user c" using fits by (simp_all add: event_fits_def Gone)
  then show ?thesis
    using clear_focus_run [of owner foc c b auth] ok by (simp add: Gone presence_handler_def)
qed

lemma history_ok:
  "list_all (event_fits ws owner) evs \<Longrightarrow> presence_ok owner foc (store_of ws ''presence'' b) \<Longrightarrow>
    presence_ok owner (foldl track foc evs) (store_of ws ''presence'' (fold (apply_event auth) evs b))"
proof (induction evs arbitrary: foc b)
  case (Cons e evs)
  then show ?case using apply_event_ok [of ws owner e foc b auth] by simp
qed simp

lemma empty_presence_ok: "presence_ok owner (\<lambda>_. None) (store_of ws ns (new_broker now))"
  by (rule presence_okI) (simp_all add: store_of_def new_broker_def focused_def)

lemma roster_exact:
  assumes ok: "presence_ok owner foc (store_of ws ''presence'' b)" and free: "NUL \<notin> set path"
  shows "\<exists>peers. roster ws path b = (Inr peers, b) \<and> list_all (\<lambda>p. pe_path p = path) peers \<and>
    distinct (map pe_user peers) \<and> set (map pe_user peers) = owner ` {cid. foc cid = Some path}"
proof -
  let ?st = "store_of ws ''presence'' b" and ?p = "member_prefix path"
  let ?es = "filter (\<lambda>(k, v). starts_with k ?p) ?st"
  obtain peers where r: "roster ws path b = (Inr peers, b)" and u: "map pe_user peers = map (drop (length ?p) \<circ> fst) ?es"
    and pp: "list_all (\<lambda>p. pe_path p = path) peers"
    by (simp add: roster_def bindM_run ns_list_def case_prod_beta list_all_iff comp_def)
  have wf: "wf_map ?st" by (rule presence_okD(1) [OF ok])
  have "distinct (map fst ?es)" using wf by (simp add: wf_map_def distinct_map_filter)
  moreover have "inj_on (drop (length ?p)) (fst ` set ?es)"
    by (auto simp: inj_on_def starts_with_iff)
  ultimately have "distinct (map pe_user peers)" unfolding u by (simp add: distinct_map comp_inj_on_iff)
  moreover have "x \<in> set (map pe_user peers) \<longleftrightarrow> x \<in> owner ` {cid. foc cid = Some path}" for x
  proof -
    have "x \<in> set (map pe_user peers) \<longleftrightarrow> (\<exists>v. (member_key path x, v) \<in> set ?st)"
      unfolding u by (force simp: member_key_def starts_with_iff)
    also have "\<dots> \<longleftrightarrow> map_of ?st (member_key path x) \<noteq> None" using wf_map_member [OF wf] by auto
    also have "\<dots> \<longleftrightarrow> focused foc owner path x \<noteq> {}"
      using presence_okD(3) [OF ok free, of x] by (auto simp: member_entry_def)
    also have "\<dots> \<longleftrightarrow> x \<in> owner ` {cid. foc cid = Some path}" unfolding focused_def by blast
    finally show ?thesis .
  qed
  ultimately show ?thesis using r pp by blast
qed

end
