(* ===== verification/Realtime_Properties.thy ===== *)
theory Realtime_Properties
  imports Presence_Laws
begin

text \<open>
  What the realtime broker and the presence rosters promise: the subscription index of every
  reachable broker mirrors the topic lists, fan-out reaches exactly the authorized subscribers
  of the workspace, and a roster names exactly the users with a connection focused on the path.
\<close>

section \<open>Subscriptions\<close>

lemma reached_ok:
  assumes "handlers_quiet env" and "(rt_step env)\<^sup>*\<^sup>* (new_broker now) b"
  shows "broker_ok b"
  by (rule quiet_handlers.reachable_ok [OF quiet_handlers.intro [OF assms(1)] assms(2)])

lemma reached_at_home:
  assumes "handlers_quiet env" and "(rt_step env)\<^sup>*\<^sup>* (new_broker now) b"
  shows "at_home b"
  by (rule quiet_handlers.reachable_at_home [OF quiet_handlers.intro [OF assms(1)] assms(2)])

text \<open>
  whatever connections, disconnections, messages and events a broker has been through, a
  connection has a topic on its list exactly when the topic's subscribers list the connection,
  once; every subscriber is connected; and no workspace without connections is kept.
\<close>

theorem subscriptions_mirror:
  assumes "handlers_quiet env" and "(rt_step env)\<^sup>*\<^sup>* (new_broker now) b"
  shows "(topic \<in> set (topics_of cid (space_of ws b)) \<longleftrightarrow> cid \<in> set (subs_of topic (space_of ws b))) \<and>
    distinct (subs_of topic (space_of ws b)) \<and>
    set (subs_of topic (space_of ws b)) \<subseteq> set (map fst (rw_conns (space_of ws b))) \<and>
    (map_of (bk_spaces b) ws = Some st \<longrightarrow> rw_conns st \<noteq> [])"
proof -
  have ok: "broker_ok b" using assms by (rule reached_ok)
  note sp = space_of_ok [OF ok, of ws]
  have "distinct (subs_of topic (space_of ws b))"
    by (rule distinct_subs_of [OF space_okD(1) [OF sp]])
  moreover have "c \<in> set (map fst (rw_conns (space_of ws b)))" if "c \<in> set (subs_of topic (space_of ws b))" for c
  proof -
    have "topic \<in> set (topics_of c (space_of ws b))" using that space_okD(2) [OF sp] by blast
    then have "map_of (rw_topics (space_of ws b)) c \<noteq> None"
      by (cases "map_of (rw_topics (space_of ws b)) c") (simp_all add: topics_of_def)
    then have "map_of (rw_conns (space_of ws b)) c \<noteq> None" by (rule space_okD(3) [OF sp])
    then show ?thesis by (auto simp: map_of_eq_None_iff)
  qed
  moreover have "map_of (bk_spaces b) ws = Some st \<longrightarrow> rw_conns st \<noteq> []" using ok by (auto simp: broker_ok_def)
  ultimately show ?thesis using space_okD(2) [OF sp, of cid topic] by (intro conjI subsetI) simp_all
qed

text \<open>Two users of one workspace, one of them subscribed to the presence of a file.\<close>

definition ann :: rt_conn where
  "ann = \<lparr>cn_id = ''c1'', cn_user = ''ann'', cn_ws = ''w''\<rparr>"

definition bob :: rt_conn where
  "bob = \<lparr>cn_id = ''c2'', cn_user = ''bob'', cn_ws = ''w''\<rparr>"

definition room :: "presence_value broker" where
  "room = snd (handle_client_message presence_env ann (Subscribe ''presence:a'')
     (add_connection bob (add_connection ann (new_broker 0))))"

lemma room_space: "space_of ''w'' room =
  \<lparr>rw_conns = [(''c1'', ann), (''c2'', bob)], rw_subs = [(''presence:a'', [''c1''])],
   rw_topics = [(''c1'', [''presence:a'']), (''c2'', [])]\<rparr>"
  unfolding ann_def bob_def room_def by code_simp

lemma room_reached: "(rt_step presence_env)\<^sup>*\<^sup>* (new_broker 0) room"
proof -
  let ?a = "add_connection ann (new_broker 0)"
  have "rt_step presence_env (new_broker 0) ?a" by (rule rt_step.connect) (simp add: new_broker_def space_of_def empty_space_def)
  moreover have "rt_step presence_env ?a (add_connection bob ?a)"
    by (rule rt_step.connect) (unfold ann_def bob_def, code_simp)
  moreover have "rt_step presence_env (add_connection bob ?a) room"
    unfolding room_def by (rule rt_step.message) (unfold ann_def bob_def, code_simp)
  ultimately show ?thesis by (meson rtranclp.rtrancl_into_rtrancl rtranclp.rtrancl_refl)
qed

theorem subscriptions_mirror_witness:
  "set (subs_of ''presence:a'' (space_of ''w'' room)) \<subseteq> {''c1'', ''c2''} \<and> subs_of ''presence:a'' (space_of ''w'' room) = [''c1'']"
  using subscriptions_mirror [OF presence_env_quiet room_reached, of "''presence:a''" "''c1''" "''w''"]
  by (simp add: room_space subs_of_def)

section \<open>Fan-out\<close>

text \<open>The connection an id stands for in a workspace, when an event of the topic is for it.\<close>

definition receives :: "'v rt_env \<Rightarrow> string \<Rightarrow> string \<Rightarrow> string option \<Rightarrow> 'v broker \<Rightarrow> rt_conn \<Rightarrow> bool" where
  "receives env ws topic except b c \<longleftrightarrow>
     map_of (rw_conns (space_of ws b)) (cn_id c) = Some c \<and> cn_ws c = ws \<and>
     topic \<in> set (topics_of (cn_id c) (space_of ws b)) \<and> Some (cn_id c) \<noteq> except \<and>
     may_receive (re_authorize env) topic b c"

text \<open>
  C14: in every broker reachable with namespace handlers that leave its tables alone, as presence does,
  publishing an event in a workspace hands it, once each, to the outgoing queues of exactly the
  connections of that workspace that subscribe to the topic, are not the excepted connection and
  are authorized by the topic's namespace at that moment, and changes nothing else of the broker.
  Delivery from there is up to the socket, which may drop.
\<close>

theorem fanout_exact:
  assumes "handlers_quiet env" and "(rt_step env)\<^sup>*\<^sup>* (new_broker now) b"
  shows "\<exists>ids. publish_to_topic (re_authorize env) ws topic body except b =
      (Inr (), b\<lparr>bk_sent := bk_sent b @ map (\<lambda>cid. (cid, Event topic body)) ids\<rparr>) \<and>
    distinct ids \<and> set ids = cn_id ` {c. receives env ws topic except b c}"
proof (intro exI conjI)
  let ?st = "space_of ws b" and ?ids = "recipients (re_authorize env) ws topic except b"
  note sp = space_of_ok [OF reached_ok [OF assms], of ws]
  have subs: "(case map_of (rw_subs ?st) topic of None \<Rightarrow> [] | Some ids \<Rightarrow> ids) = subs_of topic ?st"
    by (simp add: subs_of_def)
  show "publish_to_topic (re_authorize env) ws topic body except b =
      (Inr (), b\<lparr>bk_sent := bk_sent b @ map (\<lambda>cid. (cid, Event topic body)) ?ids\<rparr>)"
    by (simp add: publish_to_topic_def)
  show "distinct ?ids"
    using distinct_subs_of [OF space_okD(1) [OF sp]] by (simp only: recipients_def Let_def subs distinct_filter)
  have home: "map_of (rw_conns ?st) cid = Some c \<Longrightarrow> cn_ws c = ws \<and> cn_id c = cid" for cid c
    using reached_at_home [OF assms] unfolding at_home_def by blast
  have mem: "cid \<in> set ?ids \<longleftrightarrow> topic \<in> set (topics_of cid ?st) \<and> Some cid \<noteq> except \<and>
      (\<exists>c. map_of (rw_conns ?st) cid = Some c \<and> may_receive (re_authorize env) topic b c)" for cid
    unfolding recipients_def Let_def subs space_okD(2) [OF sp, symmetric]
    by (cases "map_of (rw_conns ?st) cid") simp_all
  show "set ?ids = cn_id ` {c. receives env ws topic except b c}"
  proof (intro set_eqI iffI)
    fix cid assume "cid \<in> set ?ids"
    then obtain c where "map_of (rw_conns ?st) cid = Some c" "receives env ws topic except b c"
      using mem home unfolding receives_def by metis
    then show "cid \<in> cn_id ` {c. receives env ws topic except b c}" using home by blast
  next
    fix cid assume "cid \<in> cn_id ` {c. receives env ws topic except b c}"
    then show "cid \<in> set ?ids" using mem unfolding receives_def by blast
  qed
qed

theorem fanout_exact_witness:
  "\<exists>ids. publish_to_topic (re_authorize presence_env) ''w'' ''presence:a'' JNull None room =
      (Inr (), room\<lparr>bk_sent := bk_sent room @ map (\<lambda>cid. (cid, Event ''presence:a'' JNull)) ids\<rparr>) \<and>
    ''c1'' \<in> set ids \<and> ''c2'' \<notin> set ids"
proof -
  have "receives presence_env ''w'' ''presence:a'' None room c \<longleftrightarrow> c = ann" for c
    by (auto simp: receives_def room_space topics_of_def may_receive_def presence_env_def ann_def bob_def
        split: option.split if_splits)
  then show ?thesis
    using fanout_exact [OF presence_env_quiet room_reached, of "''w''" "''presence:a''" JNull None]
    by (auto simp: ann_def)
qed

section \<open>Rosters\<close>

text \<open>
  C15: after any history of focus and blur messages and disconnections in a workspace in which no
  topic holds a NUL, the roster of a path without a NUL names exactly the users with a connection
  that looks at the path, each once however many of their connections do; \<^verbatim>\<open>owner\<close> is the user of
  a connection. (With a NUL a roster can name a user who is not there, \<^verbatim>\<open>nul_path_shows_ghost\<close>.)
\<close>

theorem presence_roster_exact:
  assumes "list_all (event_fits ws owner) evs" and "NUL \<notin> set path"
  shows "\<exists>peers. fst (roster ws path (fold (apply_event auth) evs (new_broker now))) = Inr peers \<and>
    list_all (\<lambda>p. pe_path p = path) peers \<and> distinct (map pe_user peers) \<and>
    set (map pe_user peers) = owner ` {cid. foldl track (\<lambda>_. None) evs cid = Some path}"
  using roster_exact [OF history_ok [OF assms(1) empty_presence_ok] assms(2), of auth now] by auto

theorem presence_roster_exact_witness:
  "\<exists>peers. fst (roster ''w'' ''a'' (fold (apply_event (\<lambda>_. None))
      [Focus ann ''presence:a'', Focus bob ''presence:a'', Blur ann ''presence:a''] (new_broker 0))) = Inr peers \<and>
    set (map pe_user peers) = {''bob''}"
proof -
  let ?evs = "[Focus ann ''presence:a'', Focus bob ''presence:a'', Blur ann ''presence:a'']"
  let ?owner = "\<lambda>cid. if cid = ''c1'' then ''ann'' else ''bob''"
  have fits: "list_all (event_fits ''w'' ?owner) ?evs"
    by (simp add: event_fits_def ann_def bob_def NUL_def)
  have path: "path_from_topic ''presence:a'' = Inr ''a''" by code_simp
  have "foldl track (\<lambda>_. None) ?evs cid = Some ''a'' \<longleftrightarrow> cid = ''c2''" for cid
    by (simp add: path ann_def bob_def)
  then have "{cid. foldl track (\<lambda>_. None) ?evs cid = Some ''a''} = {''c2''}" by blast
  moreover have "NUL \<notin> set ''a''" by (simp add: NUL_def)
  ultimately show ?thesis
    using presence_roster_exact [OF fits, of "''a''" "\<lambda>_. None" 0] by (simp del: fold.simps foldl.simps) blast
qed

text \<open>With a NUL in a path the roster of its first part shows a user who is not there.\<close>

lemma nul_path_shows_ghost:
  "fst (roster ''w'' ''a'' (fold (apply_event (\<lambda>_. None)) [Focus bob (''presence:a'' @ [NUL] @ ''eve'')] (new_broker 0))) =
    Inr [\<lparr>pe_user = ''eve'' @ [NUL] @ ''bob'', pe_path = ''a'', pe_active = iso_of 0\<rparr>]"
proof -
  have "path_from_topic (''presence:a'' @ [NUL] @ ''eve'') = Inr (''a'' @ [NUL] @ ''eve'')" by code_simp
  then have "apply_event (\<lambda>_. None) (Focus bob (''presence:a'' @ [NUL] @ ''eve'')) b =
      snd (set_focus (\<lambda>_. None) bob (''a'' @ [NUL] @ ''eve'') b)" for b
    by (simp add: presence_publish_def bindM_run)
  moreover have "store_of ''w'' ''presence'' (snd (set_focus (\<lambda>_. None) bob (''a'' @ [NUL] @ ''eve'') (new_broker 0))) =
      joined ''c2'' (''a'' @ [NUL] @ ''eve'') [] (iso_of 0) ''bob'' []"
    using first_focus_run [of bob "new_broker 0" "''a'' @ [NUL] @ ''eve''"]
    by (simp add: bob_def store_of_def [of "''w''" "''presence''" "\<lparr>bk_now = 0, bk_spaces = [], bk_stores = [], bk_sent = []\<rparr>"] new_broker_def)
  ultimately show ?thesis
    by (simp add: roster_def bindM_run ns_list_def joined_def member_key_def member_prefix_def focus_key_def)
qed

end
