(* ===== verification/Fs_Store.thy ===== *)
theory Fs_Store
  imports Fs_Path Records
begin

text \<open>
  The workspace file store, \<^verbatim>\<open>server/workspace/src/fs-store.ts\<close>: content-hash versioned files
  under paths, on SQLite (one table of versions) or on DSQL and S3 (a table of latest pointers,
  a table of versions and content blobs under \<^verbatim>\<open>blobs/<workspace>/<hash>\<close>), with the batching of
  \<^verbatim>\<open>db/dsql.ts\<close>. The SQL statements are translated to operations on the tables; the SHA-256 of
  a content is an argument. Times are milliseconds where the source stores the ISO rendering,
  sizes count characters as bytes. A SQLite table keeps its rows in rowid order.
\<close>

section \<open>Data\<close>

record fs_entry =
  fe_path :: string
  fe_hash :: string
  fe_mime :: string
  fe_size :: nat
  fe_updated :: int

record fs_file = fs_entry +
  ff_content :: string

record fs_page =
  fp_entries :: "fs_entry list"
  fp_cursor :: "string option"

definition entry_of :: "fs_file \<Rightarrow> fs_entry" where
  "entry_of f = \<lparr>fe_path = fe_path f, fe_hash = fe_hash f, fe_mime = fe_mime f, fe_size = fe_size f, fe_updated = fe_updated f\<rparr>"

definition file_of :: "fs_entry \<Rightarrow> string \<Rightarrow> fs_file" where
  "file_of e content = \<lparr>fe_path = fe_path e, fe_hash = fe_hash e, fe_mime = fe_mime e, fe_size = fe_size e,
     fe_updated = fe_updated e, ff_content = content\<rparr>"

text \<open>The SQLite table: a workspace and a file version per row.\<close>

type_synonym sqlite_fs = "(string \<times> fs_file) list"

text \<open>\<^verbatim>\<open>fs_latest\<close>, \<^verbatim>\<open>fs_files\<close> and the bucket of the DSQL backend.\<close>

record dsql_fs =
  fd_latest :: "((string \<times> string) \<times> fs_entry) list"
  fd_files :: "((string \<times> string \<times> string) \<times> fs_entry) list"
  fd_blobs :: "(string \<times> string) list"

definition is_service_path :: "string \<Rightarrow> bool" where
  "is_service_path path \<longleftrightarrow> path = ''.services'' \<or> starts_with path ''.services/''"

definition in_prefix :: "string \<Rightarrow> string \<Rightarrow> bool" where
  "in_prefix path pre \<longleftrightarrow> pre = [] \<or> path = pre \<or> starts_with path (pre @ ''/'')"

text \<open>A write keeps its version unless the caller or the service area says otherwise.\<close>

definition write_versioned :: "bool option \<Rightarrow> string \<Rightarrow> bool" where
  "write_versioned opt path = (case opt of Some v \<Rightarrow> v | None \<Rightarrow> \<not> is_service_path path)"

definition new_file :: "(string \<Rightarrow> string) \<Rightarrow> int \<Rightarrow> string \<Rightarrow> string \<Rightarrow> string \<Rightarrow> fs_file" where
  "new_file sha now path content mime =
     \<lparr>fe_path = path, fe_hash = sha content, fe_mime = mime, fe_size = length content, fe_updated = now, ff_content = content\<rparr>"

text \<open>One page of the sorted rows; with a limit one row more is fetched. A limit of zero has no
  last entry to take the cursor from.\<close>

definition fs_page_of :: "nat option \<Rightarrow> fs_entry list \<Rightarrow> svc_error + fs_page" where
  "fs_page_of limit matching =
     (let rows = (case limit of Some n \<Rightarrow> if n = 0 then matching else take (n + 1) matching | None \<Rightarrow> matching);
          truncated = (case limit of Some n \<Rightarrow> length rows > n | None \<Rightarrow> False);
          page = (case limit of Some n \<Rightarrow> if truncated then take n rows else rows | None \<Rightarrow> rows)
      in if truncated
         then (if page = [] then Inl (PlainError ''Cannot read properties of undefined (reading 'path')'')
               else Inr \<lparr>fp_entries = page, fp_cursor = Some (fe_path (last page))\<rparr>)
         else Inr \<lparr>fp_entries = page, fp_cursor = None\<rparr>)"

section \<open>SQLite\<close>

definition sq_versions :: "sqlite_fs \<Rightarrow> string \<Rightarrow> string \<Rightarrow> fs_file list" where
  "sq_versions s ws path = map snd (filter (\<lambda>(w, f). w = ws \<and> fe_path f = path) s)"

text \<open>\<^verbatim>\<open>ORDER BY updated_at DESC, rowid DESC\<close>.\<close>

fun insert_newest :: "fs_file \<Rightarrow> fs_file list \<Rightarrow> fs_file list" where
  "insert_newest f [] = [f]"
| "insert_newest f (g # gs) = (if fe_updated f \<ge> fe_updated g then f # g # gs else g # insert_newest f gs)"

definition newest_first :: "fs_file list \<Rightarrow> fs_file list" where
  "newest_first fs = foldl (\<lambda>acc f. insert_newest f acc) [] fs"

definition sq_list_versions :: "sqlite_fs \<Rightarrow> string \<Rightarrow> string \<Rightarrow> fs_entry list" where
  "sq_list_versions s ws path = map entry_of (newest_first (sq_versions s ws path))"

definition sq_read :: "sqlite_fs \<Rightarrow> string \<Rightarrow> string \<Rightarrow> string option \<Rightarrow> fs_file option" where
  "sq_read s ws path hash =
     (let fs = (case hash of
          Some h \<Rightarrow> if h \<noteq> [] then filter (\<lambda>f. fe_hash f = h) (sq_versions s ws path)
                    else newest_first (sq_versions s ws path)
        | None \<Rightarrow> newest_first (sq_versions s ws path))
      in case fs of [] \<Rightarrow> None | f # r \<Rightarrow> Some f)"

definition sq_write ::
  "(string \<Rightarrow> string) \<Rightarrow> int \<Rightarrow> string \<Rightarrow> string \<Rightarrow> string \<Rightarrow> string \<Rightarrow> bool option \<Rightarrow> sqlite_fs \<Rightarrow> fs_file \<times> sqlite_fs" where
  "sq_write sha now ws path content mime opt s =
     (let f = new_file sha now path content mime;
          s' = (if write_versioned opt path then s
                else filter (\<lambda>(w, g). \<not> (w = ws \<and> fe_path g = path \<and> fe_hash g \<noteq> fe_hash f)) s)
      in (f, filter (\<lambda>(w, g). \<not> (w = ws \<and> fe_path g = path \<and> fe_hash g = fe_hash f)) s' @ [(ws, f)]))"

definition sq_remove :: "string \<Rightarrow> string \<Rightarrow> sqlite_fs \<Rightarrow> bool \<times> sqlite_fs" where
  "sq_remove ws path s =
     (sq_versions s ws path \<noteq> [], filter (\<lambda>(w, g). \<not> (w = ws \<and> fe_path g = path)) s)"

definition sq_like :: "string \<Rightarrow> string \<Rightarrow> bool" where
  "sq_like pre path \<longleftrightarrow> like True backslash (escape_like {CHR ''%'', CHR ''_''} pre @ ''/%'') path"

definition sq_remove_prefix :: "string \<Rightarrow> string \<Rightarrow> sqlite_fs \<Rightarrow> nat \<times> sqlite_fs" where
  "sq_remove_prefix ws pre s =
     (let hit = (\<lambda>(w, g). w = ws \<and> (fe_path g = pre \<or> sq_like pre (fe_path g)))
      in (length (filter hit s), filter (\<lambda>r. \<not> hit r) s))"

text \<open>\<^verbatim>\<open>GROUP BY path\<close> with \<^verbatim>\<open>MAX(updated_at)\<close>: the bare columns come from a row with the
  maximum; which one, when several have it, is the engine's choice.\<close>

definition sq_group_row :: "(fs_file list \<Rightarrow> fs_file) \<Rightarrow> fs_file list \<Rightarrow> fs_entry" where
  "sq_group_row pick fs = entry_of (pick (filter (\<lambda>f. \<forall>g \<in> set fs. fe_updated g \<le> fe_updated f) fs))"

definition sq_list ::
  "(fs_file list \<Rightarrow> fs_file) \<Rightarrow> sqlite_fs \<Rightarrow> string \<Rightarrow> string \<Rightarrow> string option \<Rightarrow> nat option \<Rightarrow> svc_error + fs_page" where
  "sq_list pick s ws pre cursor limit =
     (let after = (case cursor of None \<Rightarrow> [] | Some c \<Rightarrow> c);
          paths = remdups (map (fe_path \<circ> snd) (filter (\<lambda>(w, f). w = ws) s));
          hit = sort (filter (\<lambda>p. (pre = [] \<or> p = pre \<or> sq_like pre p) \<and> (after = [] \<or> p > after)) paths)
      in fs_page_of limit (map (\<lambda>p. sq_group_row pick (sq_versions s ws p)) hit))"

section \<open>DSQL and S3\<close>

definition fs_blob_key :: "string \<Rightarrow> string \<Rightarrow> string" where
  "fs_blob_key ws hash = ''blobs/'' @ ws @ ''/'' @ hash"

definition ds_like :: "string \<Rightarrow> string \<Rightarrow> bool" where
  "ds_like pre path \<longleftrightarrow> like False backslash (escape_like {CHR ''%'', CHR ''_'', backslash} pre @ ''/%'') path"

definition ds_list :: "dsql_fs \<Rightarrow> string \<Rightarrow> string \<Rightarrow> string option \<Rightarrow> nat option \<Rightarrow> svc_error + fs_page" where
  "ds_list s ws pre cursor limit =
     (let after = (case cursor of None \<Rightarrow> [] | Some c \<Rightarrow> c);
          rows = map snd (filter (\<lambda>((w, p), e). w = ws \<and> (pre = [] \<or> p = pre \<or> ds_like pre p) \<and> (after = [] \<or> p > after))
                   (fd_latest s))
      in fs_page_of limit (sort_key fe_path rows))"

text \<open>\<^verbatim>\<open>ORDER BY updated_at DESC\<close>; the order of equal times is the engine's, here that of the table.\<close>

definition ds_list_versions :: "dsql_fs \<Rightarrow> string \<Rightarrow> string \<Rightarrow> fs_entry list" where
  "ds_list_versions s ws path =
     sort_key (\<lambda>e. - fe_updated e) (map snd (filter (\<lambda>((w, p, h), e). w = ws \<and> p = path) (fd_files s)))"

definition ds_read :: "dsql_fs \<Rightarrow> string \<Rightarrow> string \<Rightarrow> string option \<Rightarrow> svc_error + fs_file option" where
  "ds_read s ws path hash =
     (let row = (case hash of
          Some h \<Rightarrow> if h \<noteq> [] then map_of (fd_files s) (ws, path, h) else map_of (fd_latest s) (ws, path)
        | None \<Rightarrow> map_of (fd_latest s) (ws, path))
      in case row of None \<Rightarrow> Inr None
         | Some e \<Rightarrow> (case map_of (fd_blobs s) (fs_blob_key ws (fe_hash e)) of
             None \<Rightarrow> Inl (PlainError ''NoSuchKey'')
           | Some content \<Rightarrow> Inr (Some (file_of e content))))"

definition put_index :: "string \<Rightarrow> string \<Rightarrow> fs_entry \<Rightarrow> bool \<Rightarrow> dsql_fs \<Rightarrow> dsql_fs" where
  "put_index ws path e versioned s =
     (let s' = s\<lparr>fd_latest := AList.update (ws, path) e (fd_latest s)\<rparr>
      in if versioned then s'\<lparr>fd_files := AList.update (ws, path, fe_hash e) e (fd_files s')\<rparr>
         else s'\<lparr>fd_files := filter (\<lambda>((w, p, h), v). \<not> (w = ws \<and> p = path)) (fd_files s')\<rparr>)"

definition ds_write ::
  "(string \<Rightarrow> string) \<Rightarrow> int \<Rightarrow> string \<Rightarrow> string \<Rightarrow> string \<Rightarrow> string \<Rightarrow> bool option \<Rightarrow> dsql_fs \<Rightarrow> fs_file \<times> dsql_fs" where
  "ds_write sha now ws path content mime opt s =
     (let f = new_file sha now path content mime;
          s' = s\<lparr>fd_blobs := AList.update (fs_blob_key ws (fe_hash f)) content (fd_blobs s)\<rparr>
      in (f, put_index ws path (entry_of f) (write_versioned opt path) s'))"

definition ds_drop_paths :: "string \<Rightarrow> string list \<Rightarrow> dsql_fs \<Rightarrow> dsql_fs" where
  "ds_drop_paths ws paths s =
     s\<lparr>fd_latest := filter (\<lambda>((w, p), e). \<not> (w = ws \<and> p \<in> set paths)) (fd_latest s),
       fd_files := filter (\<lambda>((w, p, h), e). \<not> (w = ws \<and> p \<in> set paths)) (fd_files s)\<rparr>"

definition ds_remove :: "string \<Rightarrow> string \<Rightarrow> dsql_fs \<Rightarrow> bool \<times> dsql_fs" where
  "ds_remove ws path s = (map_of (fd_latest s) (ws, path) \<noteq> None, ds_drop_paths ws [path] s)"

text \<open>\<^verbatim>\<open>chunkRows\<close> of \<^verbatim>\<open>db/dsql.ts\<close>.\<close>

fun chunk_loop :: "nat \<Rightarrow> nat \<Rightarrow> ('a \<Rightarrow> nat) \<Rightarrow> 'a list \<Rightarrow> nat \<Rightarrow> 'a list \<Rightarrow> 'a list list" where
  "chunk_loop maxRows maxBytes sizeOf batch bytes [] = (if batch = [] then [] else [batch])"
| "chunk_loop maxRows maxBytes sizeOf batch bytes (r # rs) =
     (if batch \<noteq> [] \<and> (length batch \<ge> maxRows \<or> bytes + sizeOf r > maxBytes)
      then batch # chunk_loop maxRows maxBytes sizeOf [r] (sizeOf r) rs
      else chunk_loop maxRows maxBytes sizeOf (batch @ [r]) (bytes + sizeOf r) rs)"

definition DSQL_MAX_ROWS_PER_TXN :: nat where
  "DSQL_MAX_ROWS_PER_TXN = 3000"

definition DSQL_MAX_BYTES_PER_TXN :: nat where
  "DSQL_MAX_BYTES_PER_TXN = 10 * 1024 * 1024"

definition chunk_rows :: "nat option \<Rightarrow> nat option \<Rightarrow> ('a \<Rightarrow> nat) \<Rightarrow> 'a list \<Rightarrow> 'a list list" where
  "chunk_rows maxRows maxBytes sizeOf rows =
     chunk_loop (min (case maxRows of None \<Rightarrow> DSQL_MAX_ROWS_PER_TXN | Some n \<Rightarrow> n) DSQL_MAX_ROWS_PER_TXN)
       (min (case maxBytes of None \<Rightarrow> DSQL_MAX_BYTES_PER_TXN | Some n \<Rightarrow> n) DSQL_MAX_BYTES_PER_TXN) sizeOf [] 0 rows"

text \<open>\<^verbatim>\<open>listAll\<close>: pages are fetched until one has no cursor; \<^verbatim>\<open>None\<close> when the fuel runs out first.\<close>

fun list_all_pages :: "nat \<Rightarrow> (string option \<Rightarrow> svc_error + fs_page) \<Rightarrow> string option \<Rightarrow> (svc_error + fs_entry list) option" where
  "list_all_pages 0 fetch cursor = None"
| "list_all_pages (Suc n) fetch cursor =
     (case fetch cursor of
        Inl e \<Rightarrow> Some (Inl e)
      | Inr page \<Rightarrow>
          (case fp_cursor page of
             Some (c # cs) \<Rightarrow>
               (case list_all_pages n fetch (Some (c # cs)) of
                  None \<Rightarrow> None
                | Some (Inl e) \<Rightarrow> Some (Inl e)
                | Some (Inr es) \<Rightarrow> Some (Inr (fp_entries page @ es)))
           | _ \<Rightarrow> Some (Inr (fp_entries page))))"

text \<open>A listing without limit is one page.\<close>

definition fs_list_all :: "(string option \<Rightarrow> nat option \<Rightarrow> svc_error + fs_page) \<Rightarrow> (svc_error + fs_entry list) option" where
  "fs_list_all lister = list_all_pages 1 (\<lambda>c. lister c None) None"

definition ds_remove_prefix :: "(fs_entry \<Rightarrow> nat) \<Rightarrow> string \<Rightarrow> string \<Rightarrow> (dsql_fs, nat) prog" where
  "ds_remove_prefix sizeOf ws pre s =
     (case fs_list_all (ds_list s ws pre) of
        Some (Inr entries) \<Rightarrow>
          (let batches = chunk_rows (Some 500) None sizeOf entries
           in (Inr (sum_list (map length batches)),
               fold (\<lambda>batch. ds_drop_paths ws (map fe_path batch)) batches s))
      | Some (Inl e) \<Rightarrow> (Inl e, s)
      | None \<Rightarrow> (Inl (PlainError ''unreachable''), s))"

text \<open>The client's PUT through a presigned URL, and its registration: the blob must exist.\<close>

definition ds_upload_blob :: "string \<Rightarrow> string \<Rightarrow> string \<Rightarrow> dsql_fs \<Rightarrow> dsql_fs" where
  "ds_upload_blob ws hash content s = s\<lparr>fd_blobs := AList.update (fs_blob_key ws hash) content (fd_blobs s)\<rparr>"

definition ds_complete_upload :: "int \<Rightarrow> string \<Rightarrow> string \<Rightarrow> string \<Rightarrow> string \<Rightarrow> dsql_fs \<Rightarrow> fs_entry option \<times> dsql_fs" where
  "ds_complete_upload now ws path hash mime s =
     (case map_of (fd_blobs s) (fs_blob_key ws hash) of
        None \<Rightarrow> (None, s)
      | Some content \<Rightarrow>
          (let e = \<lparr>fe_path = path, fe_hash = hash, fe_mime = mime, fe_size = length content, fe_updated = now\<rparr>
           in (Some e, put_index ws path e (\<not> is_service_path path) s)))"

end
