(* ===== verification/Fs_Laws.thy ===== *)
theory Fs_Laws
  imports Fs_Store
begin

text \<open>
  The contract both backends of the file store implement, as the locale \<^verbatim>\<open>file_tree\<close>: the
  latest version of every path behaves as a map that writes update and removals erase, and the
  pages of a listing come from its sorted paths. Histories and the following of cursors are
  proved once from the contract.
\<close>

section \<open>Patterns\<close>

lemma like_escaped:
  "like False backslash (escape_like {CHR ''%'', CHR ''_'', backslash} p @ q) t \<longleftrightarrow> (\<exists>r. t = p @ r \<and> like False backslash q r)"
proof (induction p arbitrary: t)
  case (Cons c p)
  then show ?case by (cases t) (auto simp: like.simps(2) like_eq_def)
qed simp

lemma ds_like_exact: "ds_like pre path \<longleftrightarrow> starts_with path (pre @ ''/'')"
proof -
  have "like False backslash ''/%'' r \<longleftrightarrow> (\<exists>x. r = CHR ''/'' # x)" for r
    by (cases r) (auto simp: like.simps(2) [of _ _ "CHR ''/''"] like_eq_def like_percent)
  then show ?thesis by (auto simp: ds_like_def like_escaped starts_with_iff)
qed

section \<open>The contract\<close>

definition list_spec :: "(string \<Rightarrow> fs_file option) \<Rightarrow> (string \<Rightarrow> bool) \<Rightarrow> string \<Rightarrow> fs_entry list \<Rightarrow> bool" where
  "list_spec latest hit after rows \<longleftrightarrow>
     sorted_wrt (<) (map fe_path rows) \<and>
     set (map fe_path rows) = {p. latest p \<noteq> None \<and> hit p \<and> (after = [] \<or> p > after)} \<and>
     (\<forall>e \<in> set rows. map_option fe_updated (latest (fe_path e)) = Some (fe_updated e))"

locale file_tree =
  fixes sha :: "string \<Rightarrow> string"
    and inv :: "int \<Rightarrow> 's \<Rightarrow> bool"
    and latest :: "'s \<Rightarrow> string \<Rightarrow> string \<Rightarrow> fs_file option"
    and wr :: "int \<Rightarrow> string \<Rightarrow> string \<Rightarrow> string \<Rightarrow> string \<Rightarrow> bool option \<Rightarrow> 's \<Rightarrow> fs_file \<times> 's"
    and rm :: "string \<Rightarrow> string \<Rightarrow> 's \<Rightarrow> bool \<times> 's"
    and lst :: "'s \<Rightarrow> string \<Rightarrow> string \<Rightarrow> string option \<Rightarrow> nat option \<Rightarrow> svc_error + fs_page"
    and hits :: "string \<Rightarrow> string \<Rightarrow> bool"
  assumes later: "inv now s \<Longrightarrow> now \<le> t \<Longrightarrow> inv t s"
    and wr_inv: "inv now s \<Longrightarrow> inv now (snd (wr now ws p c m v s))"
    and wr_result: "fst (wr now ws p c m v s) = new_file sha now p c m"
    and latest_wr: "inv now s \<Longrightarrow> latest (snd (wr now ws p c m v s)) ws' p' =
      (if ws' = ws \<and> p' = p then Some (new_file sha now p c m) else latest s ws' p')"
    and rm_inv: "inv now s \<Longrightarrow> inv now (snd (rm ws p s))"
    and rm_result: "inv now s \<Longrightarrow> fst (rm ws p s) \<longleftrightarrow> latest s ws p \<noteq> None"
    and latest_rm: "inv now s \<Longrightarrow> latest (snd (rm ws p s)) ws' p' = (if ws' = ws \<and> p' = p then None else latest s ws' p')"
    and lst_rows: "inv now s \<Longrightarrow> \<exists>rows. list_spec (latest s ws) (hits pre) (case cursor of None \<Rightarrow> [] | Some c \<Rightarrow> c) rows \<and>
      (\<forall>limit. lst s ws pre cursor limit = fs_page_of limit rows)"

text \<open>Timed histories and what they mean for the latest version of every path.\<close>

datatype fs_op = WriteOp int string string string string "bool option" | RemoveOp string string

fun op_spec :: "(string \<Rightarrow> string) \<Rightarrow> fs_op \<Rightarrow> (string \<times> string \<Rightarrow> fs_file option) \<Rightarrow> (string \<times> string \<Rightarrow> fs_file option)" where
  "op_spec sha (WriteOp t ws p c m v) tree = tree((ws, p) \<mapsto> new_file sha t p c m)"
| "op_spec sha (RemoveOp ws p) tree = tree((ws, p) := None)"

fun op_time :: "fs_op \<Rightarrow> int option" where
  "op_time (WriteOp t ws p c m v) = Some t"
| "op_time (RemoveOp ws p) = None"

text \<open>The clock does not run backwards through the writes.\<close>

fun clock_ok :: "int \<Rightarrow> fs_op list \<Rightarrow> bool" where
  "clock_ok now [] = True"
| "clock_ok now (x # xs) =
     (case op_time x of None \<Rightarrow> clock_ok now xs | Some t \<Rightarrow> now \<le> t \<and> clock_ok t xs)"

definition run_op ::
  "(int \<Rightarrow> string \<Rightarrow> string \<Rightarrow> string \<Rightarrow> string \<Rightarrow> bool option \<Rightarrow> 's \<Rightarrow> fs_file \<times> 's) \<Rightarrow>
   (string \<Rightarrow> string \<Rightarrow> 's \<Rightarrow> bool \<times> 's) \<Rightarrow> fs_op \<Rightarrow> 's \<Rightarrow> 's" where
  "run_op wr rm x s = (case x of WriteOp t ws p c m v \<Rightarrow> snd (wr t ws p c m v s) | RemoveOp ws p \<Rightarrow> snd (rm ws p s))"

section \<open>Pages\<close>

lemma list_spec_all:
  assumes "list_spec f hit after rows" and "list_spec f hit after rows'"
  shows "map fe_path rows = map fe_path rows'"
proof -
  have "sorted (map fe_path rows)" "distinct (map fe_path rows)" "sorted (map fe_path rows')" "distinct (map fe_path rows')"
    using assms unfolding list_spec_def by (auto simp: strict_sorted_iff)
  moreover have "set (map fe_path rows) = set (map fe_path rows')" using assms unfolding list_spec_def by simp
  ultimately show ?thesis using sorted_distinct_set_unique by blast
qed

lemma list_spec_paths:
  assumes "list_spec f hit after rows" and "map fe_path es = map fe_path rows"
    and "list_all (\<lambda>e. map_option fe_updated (f (fe_path e)) = Some (fe_updated e)) es"
  shows "list_spec f hit after es"
  using assms unfolding list_spec_def list_all_iff by simp

text \<open>What is after the last entry of a page is the rest of the listing.\<close>

lemma list_spec_rest:
  assumes spec: "list_spec f hit after rows" and n: "0 < n" "n < length rows"
    and rest: "list_spec f hit (fe_path (last (take n rows))) rest" and ne: "fe_path (last (take n rows)) \<noteq> []"
  shows "map fe_path rest = map fe_path (drop n rows)"
proof -
  let ?ps = "map fe_path rows" and ?c = "fe_path (last (take n rows))"
  have srt: "sorted_wrt (<) ?ps" using spec by (simp add: list_spec_def)
  have c: "?c = ?ps ! (n - 1)" using n by (subst last_conv_nth) (use n in auto)
  have after: "after = [] \<or> after < p" if "p \<in> set ?ps" for p using spec that unfolding list_spec_def by auto
  have c_in: "?c \<in> set ?ps" using n c by simp
  have lt: "p \<in> set (drop n ?ps) \<longleftrightarrow> p \<in> set ?ps \<and> ?c < p" for p
  proof
    assume "p \<in> set (drop n ?ps)"
    then obtain i where i: "n \<le> i" "i < length ?ps" "p = ?ps ! i" by (auto simp: in_set_conv_nth) (metis add.commute le_add1 less_diff_conv nth_map)
    have "?ps ! (n - 1) < ?ps ! i" by (rule sorted_wrt_nth_less [OF srt]) (use i n in auto)
    with i c show "p \<in> set ?ps \<and> ?c < p" by simp
  next
    assume p: "p \<in> set ?ps \<and> ?c < p"
    then obtain i where i: "i < length ?ps" "p = ?ps ! i" by (metis in_set_conv_nth)
    have "\<not> i < n"
    proof
      assume "i < n"
      then have "i = n - 1 \<or> i < n - 1" by linarith
      then have "?ps ! i \<le> ?ps ! (n - 1)"
      proof
        assume "i < n - 1"
        moreover have "n - 1 < length ?ps" using n by simp
        ultimately have "?ps ! i < ?ps ! (n - 1)" by (rule sorted_wrt_nth_less [OF srt])
        then show ?thesis by (rule order_less_imp_le)
      qed simp
      with p i c show False by auto
    qed
    then have "drop n ?ps ! (i - n) = p" and "i - n < length (drop n ?ps)" using i by auto
    then show "p \<in> set (drop n ?ps)" by (metis nth_mem)
  qed
  have "sorted_wrt (<) (drop n ?ps)" using srt by (metis append_take_drop_id sorted_wrt_append)
  moreover have "set (drop n ?ps) = set (map fe_path rest)"
  proof (rule set_eqI)
    fix p
    have "p \<in> set (map fe_path rest) \<longleftrightarrow> f p \<noteq> None \<and> hit p \<and> ?c < p"
      using rest ne unfolding list_spec_def by auto
    also have "\<dots> \<longleftrightarrow> p \<in> set ?ps \<and> ?c < p"
    proof -
      have "after = [] \<or> after < p" if "?c < p"
        using after [OF c_in] that by (meson order_less_trans)
      then show ?thesis using spec unfolding list_spec_def by auto
    qed
    finally show "p \<in> set (drop n ?ps) \<longleftrightarrow> p \<in> set (map fe_path rest)" using lt by simp
  qed
  moreover have "sorted_wrt (<) (map fe_path rest)" using rest by (simp add: list_spec_def)
  ultimately show ?thesis
    by (metis drop_map sorted_distinct_set_unique strict_sorted_iff)
qed

lemma fs_page_small: "limit = None \<or> (\<exists>n. limit = Some n \<and> 0 < n \<and> length rows \<le> n) \<Longrightarrow>
    fs_page_of limit rows = Inr \<lparr>fp_entries = rows, fp_cursor = None\<rparr>"
  by (auto simp: fs_page_of_def Let_def)

lemma fs_page_big: "0 < n \<Longrightarrow> n < length rows \<Longrightarrow>
    fs_page_of (Some n) rows = Inr \<lparr>fp_entries = take n rows, fp_cursor = Some (fe_path (last (take n rows)))\<rparr>"
  by (auto simp: fs_page_of_def Let_def min_def)

context file_tree
begin

lemma run_inv: "inv now s \<Longrightarrow> clock_ok now [x] \<Longrightarrow>
    \<exists>t. inv t (run_op wr rm x s) \<and> (case op_time x of None \<Rightarrow> t = now | Some t' \<Rightarrow> t = t')"
  using later wr_inv rm_inv by (cases x) (fastforce simp: run_op_def)+

lemma run_latest: "inv now s \<Longrightarrow> clock_ok now [x] \<Longrightarrow>
    latest (run_op wr rm x s) ws p = op_spec sha x (\<lambda>(ws, p). latest s ws p) (ws, p)"
  by (cases x) (auto simp: run_op_def latest_rm intro: latest_wr [OF later, THEN trans])

theorem history: "inv now s \<Longrightarrow> clock_ok now xs \<Longrightarrow>
    (\<exists>t. inv t (fold (run_op wr rm) xs s)) \<and>
    latest (fold (run_op wr rm) xs s) ws p = fold (op_spec sha) xs (\<lambda>(ws, p). latest s ws p) (ws, p)"
proof (induction xs arbitrary: now s)
  case (Cons x xs)
  have one: "clock_ok now [x]" using Cons.prems(2) by (auto split: option.splits)
  from run_inv [OF Cons.prems(1) one] obtain t where t: "inv t (run_op wr rm x s)" "clock_ok t xs"
    using Cons.prems(2) by (auto split: option.splits)
  have "(\<lambda>(ws, p). latest (run_op wr rm x s) ws p) = op_spec sha x (\<lambda>(ws, p). latest s ws p)"
    by (auto simp: run_latest [OF Cons.prems(1) one])
  with Cons.IH [OF t] show ?case by simp
qed auto

text \<open>Following the cursors of a limited listing collects the whole listing.\<close>

lemma follow:
  assumes inv: "inv now s" and ne: "\<And>p. latest s ws p \<noteq> None \<Longrightarrow> p \<noteq> []" and n: "limit \<noteq> Some 0"
    and spec: "list_spec (latest s ws) (hits pre) (case cursor of None \<Rightarrow> [] | Some c \<Rightarrow> c) rows"
    and fuel: "length rows < fuel"
  shows "\<exists>es. list_all_pages fuel (\<lambda>c. lst s ws pre c limit) cursor = Some (Inr es) \<and> map fe_path es = map fe_path rows \<and>
    list_all (\<lambda>e. map_option fe_updated (latest s ws (fe_path e)) = Some (fe_updated e)) es"
  using spec fuel
proof (induction fuel arbitrary: cursor rows)
  case (Suc fuel)
  from lst_rows [OF inv] obtain rows' where rows': "list_spec (latest s ws) (hits pre) (case cursor of None \<Rightarrow> [] | Some c \<Rightarrow> c) rows'"
    and page: "lst s ws pre cursor limit = fs_page_of limit rows'" by blast
  have eq: "map fe_path rows' = map fe_path rows" by (rule list_spec_all [OF rows' Suc.prems(1)])
  then have len: "length rows' = length rows" by (metis length_map)
  have times: "list_all (\<lambda>e. map_option fe_updated (latest s ws (fe_path e)) = Some (fe_updated e)) rows'"
    using rows' by (simp add: list_spec_def list_all_iff)
  show ?case
  proof (cases "\<exists>k. limit = Some k \<and> k < length rows'")
    case False
    then have "limit = None \<or> (\<exists>n. limit = Some n \<and> 0 < n \<and> length rows' \<le> n)"
      using n by (cases limit) auto
    from fs_page_small [OF this] eq times show ?thesis by (simp add: page)
  next
    case True
    then obtain k where k: "limit = Some k" "0 < k" "k < length rows'" using n by auto
    let ?l = "last (take k rows')"
    have l_in: "?l \<in> set rows'" using k by (metis in_set_takeD last_in_set length_greater_0_conv list.size(3) not_less_zero take_eq_Nil)
    then have "latest s ws (fe_path ?l) \<noteq> None" using rows' unfolding list_spec_def by auto
    then have cne: "fe_path ?l \<noteq> []" by (rule ne)
    from lst_rows [OF inv] obtain rest where rest: "list_spec (latest s ws) (hits pre) (fe_path ?l) rest"
      by (metis option.simps(5))
    have tail: "map fe_path rest = map fe_path (drop k rows')"
      by (rule list_spec_rest [OF rows' k(2,3) rest cne])
    have "length rest = length rows' - k" using tail by (metis length_drop length_map)
    then have "length rest < fuel" using Suc.prems(2) k len by simp
    from Suc.IH [of "Some (fe_path ?l)", OF _ this] rest obtain es where
      es: "list_all_pages fuel (\<lambda>c. lst s ws pre c limit) (Some (fe_path ?l)) = Some (Inr es)" "map fe_path es = map fe_path rest"
        "list_all (\<lambda>e. map_option fe_updated (latest s ws (fe_path e)) = Some (fe_updated e)) es" by auto
    have "list_all (\<lambda>e. map_option fe_updated (latest s ws (fe_path e)) = Some (fe_updated e)) (take k rows')"
      using times by (simp add: list_all_iff) (meson in_set_takeD)
    moreover have "map fe_path (take k rows' @ es) = map fe_path rows"
      using es tail eq by (metis append_take_drop_id map_append)
    moreover obtain d ds where "fe_path ?l = d # ds" using cne by (cases "fe_path ?l") auto
    then have "list_all_pages (Suc fuel) (\<lambda>c. lst s ws pre c limit) cursor = Some (Inr (take k rows' @ es))"
      using es(1) by (simp add: page [unfolded k(1)] k(1) fs_page_big [OF k(2,3)])
    ultimately show ?thesis using es by auto
  qed
qed simp

lemma pages:
  assumes inv: "inv now s" and ne: "\<forall>p. latest s ws p \<noteq> None \<longrightarrow> p \<noteq> []" and n: "limit \<noteq> Some 0"
  shows "\<exists>rows. list_spec (latest s ws) (hits pre) [] rows \<and>
    (\<forall>fuel > length rows. \<exists>es. list_all_pages fuel (\<lambda>c. lst s ws pre c limit) None = Some (Inr es) \<and>
       list_spec (latest s ws) (hits pre) [] es)"
proof -
  from lst_rows [OF inv, of ws pre None] obtain rows where rows: "list_spec (latest s ws) (hits pre) [] rows" by auto
  have "\<exists>es. list_all_pages fuel (\<lambda>c. lst s ws pre c limit) None = Some (Inr es) \<and> list_spec (latest s ws) (hits pre) [] es"
    if "length rows < fuel" for fuel
  proof -
    from follow [OF inv ne [rule_format] n, where cursor = None and pre = pre and rows = rows and fuel = fuel] rows that obtain es where
      "list_all_pages fuel (\<lambda>c. lst s ws pre c limit) None = Some (Inr es)" "map fe_path es = map fe_path rows"
      "list_all (\<lambda>e. map_option fe_updated (latest s ws (fe_path e)) = Some (fe_updated e)) es" by auto
    with list_spec_paths [OF rows] show ?thesis by blast
  qed
  with rows show ?thesis by blast
qed

text \<open>\<^verbatim>\<open>listAll\<close> asks without a limit and gets everything in one page.\<close>

lemma unlimited:
  assumes "inv now s"
  shows "\<exists>es. fs_list_all (lst s ws pre) = Some (Inr es) \<and> list_spec (latest s ws) (hits pre) [] es"
proof -
  from lst_rows [OF assms, of ws pre None] obtain rows where
    "list_spec (latest s ws) (hits pre) [] rows" "\<And>limit. lst s ws pre None limit = fs_page_of limit rows" by auto
  then show ?thesis by (auto simp: fs_list_all_def fs_page_of_def Let_def)
qed

end

end
