(* ===== verification/Fs_Backends.thy ===== *)
theory Fs_Backends
  imports Fs_Laws
begin

text \<open>
  Both backends of the file store implement the contract \<^verbatim>\<open>file_tree\<close>. DSQL relies on the
  digest: two contents have the same hash only when they are equal, and a hash has no slash.
\<close>

section \<open>SQLite\<close>

lemma set_insert_newest [simp]: "set (insert_newest f fs) = insert f (set fs)"
  by (induction fs) auto

lemma newest_first_set_gen: "set (foldl (\<lambda>acc f. insert_newest f acc) acc fs) = set acc \<union> set fs"
  by (induction fs arbitrary: acc) auto

lemma set_newest_first [simp]: "set (newest_first fs) = set fs"
  by (simp add: newest_first_def newest_first_set_gen)

lemma newest_first_ne [simp]: "newest_first fs = [] \<longleftrightarrow> fs = []"
  by (metis set_empty set_newest_first)

lemma insert_newest_max: "(\<And>g. g \<in> set fs \<Longrightarrow> fe_updated g \<le> fe_updated f) \<Longrightarrow> insert_newest f fs = f # fs"
  by (cases fs) auto

lemma newest_first_snoc: "(\<And>g. g \<in> set fs \<Longrightarrow> fe_updated g \<le> fe_updated f) \<Longrightarrow> newest_first (fs @ [f]) = f # newest_first fs"
  using insert_newest_max [of "newest_first fs" f] by (simp add: newest_first_def [of "fs @ [f]"]) (simp add: newest_first_def [symmetric])

lemma insert_newest_sorted: "sorted_wrt (\<lambda>a b. fe_updated a \<ge> fe_updated b) fs \<Longrightarrow>
    sorted_wrt (\<lambda>a b. fe_updated a \<ge> fe_updated b) (insert_newest f fs)"
  by (induction fs) auto

lemma newest_first_sorted: "sorted_wrt (\<lambda>a b. fe_updated a \<ge> fe_updated b) (newest_first fs)"
proof -
  have "sorted_wrt (\<lambda>a b. fe_updated a \<ge> fe_updated b) acc \<Longrightarrow>
      sorted_wrt (\<lambda>a b. fe_updated a \<ge> fe_updated b) (foldl (\<lambda>acc f. insert_newest f acc) acc fs)" for acc
    by (induction fs arbitrary: acc) (simp_all add: insert_newest_sorted)
  then show ?thesis by (simp add: newest_first_def)
qed

lemma newest_first_head: "newest_first fs = f # r \<Longrightarrow> g \<in> set fs \<Longrightarrow> fe_updated g \<le> fe_updated f"
  using newest_first_sorted [of fs] set_newest_first [of fs] by auto

definition sq_latest :: "sqlite_fs \<Rightarrow> string \<Rightarrow> string \<Rightarrow> fs_file option" where
  "sq_latest s ws p = sq_read s ws p None"

lemma sq_latest_alt: "sq_latest s ws p = (case newest_first (sq_versions s ws p) of [] \<Rightarrow> None | f # r \<Rightarrow> Some f)"
  by (simp add: sq_latest_def sq_read_def)

lemma sq_latest_None: "sq_latest s ws p = None \<longleftrightarrow> sq_versions s ws p = []"
  by (simp add: sq_latest_alt split: list.split) (metis list.distinct(1) newest_first_ne)

lemma sq_versions_path: "f \<in> set (sq_versions s ws p) \<Longrightarrow> fe_path f = p \<and> (ws, f) \<in> set s"
  by (auto simp: sq_versions_def)

definition pick_ok :: "(fs_file list \<Rightarrow> fs_file) \<Rightarrow> bool" where
  "pick_ok pick \<longleftrightarrow> (\<forall>fs. fs \<noteq> [] \<longrightarrow> pick fs \<in> set fs)"

definition sqfs_inv :: "(fs_file list \<Rightarrow> fs_file) \<Rightarrow> int \<Rightarrow> sqlite_fs \<Rightarrow> bool" where
  "sqfs_inv pick now s \<longleftrightarrow> (\<forall>r \<in> set s. fe_updated (snd r) \<le> now) \<and> pick_ok pick"

lemma sq_write_versions:
  "sq_versions (snd (sq_write sha now ws p c m v s)) ws' p' =
    (if ws' = ws \<and> p' = p
     then filter (\<lambda>g. fe_hash g \<noteq> sha c \<and> write_versioned v p) (sq_versions s ws p) @ [new_file sha now p c m]
     else sq_versions s ws' p')"
proof (cases "ws' = ws \<and> p' = p")
  case True
  then show ?thesis
    by (auto simp: sq_write_def Let_def sq_versions_def new_file_def filter_map case_prod_beta comp_def filter_empty_conv
        intro!: arg_cong [where f = "map snd"] filter_cong)
next
  case False
  then show ?thesis
    by (auto simp: sq_write_def Let_def sq_versions_def new_file_def case_prod_beta intro!: arg_cong [where f = "map snd"] filter_cong)
qed

lemma sq_latest_write:
  assumes "sqfs_inv pick now s"
  shows "sq_latest (snd (sq_write sha now ws p c m v s)) ws' p' =
    (if ws' = ws \<and> p' = p then Some (new_file sha now p c m) else sq_latest s ws' p')"
proof (cases "ws' = ws \<and> p' = p")
  case True
  have "fe_updated g \<le> fe_updated (new_file sha now p c m)" if "g \<in> set (sq_versions s ws p)" for g
    using assms sq_versions_path [OF that] by (auto simp: sqfs_inv_def new_file_def)
  then have "newest_first (filter (\<lambda>g. fe_hash g \<noteq> sha c \<and> write_versioned v p) (sq_versions s ws p) @ [new_file sha now p c m]) =
      new_file sha now p c m # newest_first (filter (\<lambda>g. fe_hash g \<noteq> sha c \<and> write_versioned v p) (sq_versions s ws p))"
    by (intro newest_first_snoc) simp
  then show ?thesis using True by (simp add: sq_latest_alt sq_write_versions)
next
  case False
  then show ?thesis by (simp only: sq_latest_alt sq_write_versions if_False)
qed

lemma sq_remove_versions:
  "sq_versions (snd (sq_remove ws p s)) ws' p' = (if ws' = ws \<and> p' = p then [] else sq_versions s ws' p')"
  by (auto simp: sq_remove_def sq_versions_def case_prod_beta filter_empty_conv intro!: arg_cong [where f = "map snd"] filter_cong)

definition sq_hits :: "string \<Rightarrow> string \<Rightarrow> bool" where
  "sq_hits pre p \<longleftrightarrow> pre = [] \<or> p = pre \<or> sq_like pre p"

text \<open>The row of a path in a listing has the time of its latest version.\<close>

lemma sq_group_row_latest:
  assumes "pick_ok pick" and ne: "sq_versions s ws p \<noteq> []"
  shows "fe_path (sq_group_row pick (sq_versions s ws p)) = p"
    "map_option fe_updated (sq_latest s ws p) = Some (fe_updated (sq_group_row pick (sq_versions s ws p)))"
proof -
  let ?vs = "sq_versions s ws p" and ?max = "\<lambda>f. \<forall>g \<in> set (sq_versions s ws p). fe_updated g \<le> fe_updated f"
  obtain f r where f: "newest_first ?vs = f # r" using ne by (metis newest_first_ne neq_Nil_conv)
  have fin: "f \<in> set ?vs" using f by (metis list.set_intros(1) set_newest_first)
  have fmax: "?max f" using newest_first_head [OF f] by blast
  have "filter ?max ?vs \<noteq> []" using fin fmax by (auto simp: filter_empty_conv)
  then have "pick (filter ?max ?vs) \<in> set (filter ?max ?vs)" using assms(1) unfolding pick_ok_def by blast
  then have g: "pick (filter ?max ?vs) \<in> set ?vs" "?max (pick (filter ?max ?vs))" by simp_all
  show "fe_path (sq_group_row pick ?vs) = p" using sq_versions_path [OF g(1)] by (simp add: sq_group_row_def entry_of_def)
  have "fe_updated (pick (filter ?max ?vs)) = fe_updated f" using g fmax fin by (meson order_antisym)
  then show "map_option fe_updated (sq_latest s ws p) = Some (fe_updated (sq_group_row pick ?vs))"
    by (simp add: sq_latest_alt f sq_group_row_def entry_of_def)
qed

lemma sq_list_rows:
  assumes "pick_ok pick"
  shows "\<exists>rows. list_spec (sq_latest s ws) (sq_hits pre) (case cursor of None \<Rightarrow> [] | Some c \<Rightarrow> c) rows \<and>
    (\<forall>limit. sq_list pick s ws pre cursor limit = fs_page_of limit rows)"
proof -
  let ?after = "case cursor of None \<Rightarrow> [] | Some c \<Rightarrow> c"
  let ?ps = "sort (filter (\<lambda>p. (pre = [] \<or> p = pre \<or> sq_like pre p) \<and> (?after = [] \<or> p > ?after))
      (remdups (map (fe_path \<circ> snd) (filter (\<lambda>(w, f). w = ws) s))))"
  let ?rows = "map (\<lambda>p. sq_group_row pick (sq_versions s ws p)) ?ps"
  have known: "p \<in> set (map (fe_path \<circ> snd) (filter (\<lambda>(w, f). w = ws) s)) \<longleftrightarrow> sq_versions s ws p \<noteq> []" for p
    by (force simp: sq_versions_def filter_empty_conv)
  have mem: "p \<in> set ?ps \<longleftrightarrow> sq_latest s ws p \<noteq> None \<and> sq_hits pre p \<and> (?after = [] \<or> p > ?after)" for p
    unfolding set_sort set_filter set_remdups known [symmetric] sq_latest_None sq_hits_def by auto
  have row: "fe_path (sq_group_row pick (sq_versions s ws p)) = p"
    "map_option fe_updated (sq_latest s ws p) = Some (fe_updated (sq_group_row pick (sq_versions s ws p)))" if "p \<in> set ?ps" for p
    using sq_group_row_latest [OF assms] that mem [of p] sq_latest_None by metis+
  have paths: "map fe_path ?rows = ?ps" unfolding map_map by (rule map_idI) (simp only: comp_def row(1))
  have "list_spec (sq_latest s ws) (sq_hits pre) ?after ?rows"
    unfolding list_spec_def
  proof (intro conjI ballI)
    show "sorted_wrt (<) (map fe_path ?rows)" unfolding paths by (simp add: strict_sorted_iff)
    show "set (map fe_path ?rows) = {p. sq_latest s ws p \<noteq> None \<and> sq_hits pre p \<and> (?after = [] \<or> p > ?after)}"
      unfolding paths using mem by blast
    fix e assume "e \<in> set ?rows"
    then obtain p where p: "p \<in> set ?ps" and e: "e = sq_group_row pick (sq_versions s ws p)" unfolding list.set_map by blast
    show "map_option fe_updated (sq_latest s ws (fe_path e)) = Some (fe_updated e)"
      unfolding e row(1) [OF p] by (rule row(2) [OF p])
  qed
  moreover have "\<forall>limit. sq_list pick s ws pre cursor limit = fs_page_of limit ?rows" by (simp add: sq_list_def Let_def)
  ultimately show ?thesis by blast
qed

interpretation sq: file_tree sha "sqfs_inv pick" sq_latest "sq_write sha" sq_remove "sq_list pick" sq_hits for sha pick
proof unfold_locales
  show "sqfs_inv pick now s \<Longrightarrow> now \<le> t \<Longrightarrow> sqfs_inv pick t s" for now s t
    by (auto simp: sqfs_inv_def)
  show "sqfs_inv pick now s \<Longrightarrow> sqfs_inv pick now (snd (sq_write sha now ws p c m v s))" for now s ws p c m v
    by (auto simp: sqfs_inv_def sq_write_def Let_def new_file_def)
  show "fst (sq_write sha now ws p c m v s) = new_file sha now p c m" for now ws p c m v s
    by (simp add: sq_write_def Let_def)
  show "sqfs_inv pick now s \<Longrightarrow> sqfs_inv pick now (snd (sq_remove ws p s))" for now s ws p
    by (auto simp: sqfs_inv_def sq_remove_def)
  show "sqfs_inv pick now s \<Longrightarrow> fst (sq_remove ws p s) = (sq_latest s ws p \<noteq> None)" for now s ws p
    by (simp add: sq_remove_def sq_latest_None)
  show "sqfs_inv pick now s \<Longrightarrow> sq_latest (snd (sq_remove ws p s)) ws' p' = (if ws' = ws \<and> p' = p then None else sq_latest s ws' p')"
    for now s ws p ws' p'
    by (simp add: sq_latest_alt sq_remove_versions newest_first_def)
  show "sqfs_inv pick now s \<Longrightarrow> \<exists>rows. list_spec (sq_latest s ws) (sq_hits pre) (case cursor of None \<Rightarrow> [] | Some c \<Rightarrow> c) rows \<and>
      (\<forall>limit. sq_list pick s ws pre cursor limit = fs_page_of limit rows)" for now s ws pre cursor
    by (rule sq_list_rows) (simp add: sqfs_inv_def)
qed (rule sq_latest_write)

section \<open>DSQL\<close>

definition hash_ok :: "(string \<Rightarrow> string) \<Rightarrow> bool" where
  "hash_ok sha \<longleftrightarrow> inj sha \<and> (\<forall>c. CHR ''/'' \<notin> set (sha c))"

lemma fs_blob_key_inj:
  assumes "CHR ''/'' \<notin> set h" and "CHR ''/'' \<notin> set h'"
  shows "fs_blob_key ws h = fs_blob_key ws' h' \<longleftrightarrow> ws = ws' \<and> h = h'"
proof
  assume "fs_blob_key ws h = fs_blob_key ws' h'"
  then have "rev (ws @ CHR ''/'' # h) = rev (ws' @ CHR ''/'' # h')" by (simp add: fs_blob_key_def)
  then have "rev h @ CHR ''/'' # rev ws = rev h' @ CHR ''/'' # rev ws'" by simp
  with assms show "ws = ws' \<and> h = h'" by (auto simp: append_sep_eq)
qed simp

text \<open>Every latest pointer names a blob with the content of its hash.\<close>

definition blob_ok :: "(string \<Rightarrow> string) \<Rightarrow> dsql_fs \<Rightarrow> string \<Rightarrow> string \<Rightarrow> fs_entry \<Rightarrow> bool" where
  "blob_ok sha s ws p e \<longleftrightarrow> fe_path e = p \<and>
     (\<exists>c. map_of (fd_blobs s) (fs_blob_key ws (fe_hash e)) = Some c \<and> fe_hash e = sha c)"

definition ds_inv :: "(string \<Rightarrow> string) \<Rightarrow> int \<Rightarrow> dsql_fs \<Rightarrow> bool" where
  "ds_inv sha now s \<longleftrightarrow> hash_ok sha \<and> wf_map (fd_latest s) \<and>
     (\<forall>ws p e. map_of (fd_latest s) (ws, p) = Some e \<longrightarrow> blob_ok sha s ws p e)"

lemma ds_invD:
  assumes "ds_inv sha now s"
  shows "hash_ok sha" "wf_map (fd_latest s)" "map_of (fd_latest s) (ws, p) = Some e \<Longrightarrow> blob_ok sha s ws p e"
  using assms unfolding ds_inv_def by blast+

definition ds_latest :: "dsql_fs \<Rightarrow> string \<Rightarrow> string \<Rightarrow> fs_file option" where
  "ds_latest s ws p = (case ds_read s ws p None of Inr r \<Rightarrow> r | Inl e \<Rightarrow> None)"

lemma ds_latest_entry:
  assumes inv: "ds_inv sha now s" and e: "map_of (fd_latest s) (ws, p) = Some e"
  shows "\<exists>c. ds_latest s ws p = Some (file_of e c)"
proof -
  obtain c where "map_of (fd_blobs s) (fs_blob_key ws (fe_hash e)) = Some c"
    using ds_invD(3) [OF inv e] by (auto simp: blob_ok_def)
  with e have "ds_latest s ws p = Some (file_of e c)" by (simp add: ds_latest_def ds_read_def)
  then show ?thesis by blast
qed

lemma ds_latest_None:
  assumes inv: "ds_inv sha now s"
  shows "ds_latest s ws p = None \<longleftrightarrow> map_of (fd_latest s) (ws, p) = None"
proof (cases "map_of (fd_latest s) (ws, p)")
  case (Some e)
  with ds_latest_entry [OF inv Some] show ?thesis by auto
qed (simp add: ds_latest_def ds_read_def)

lemma map_of_drop: "map_of (filter (\<lambda>((w, p), e). \<not> (w = ws \<and> p \<in> set ps)) m) (ws', p') =
    (if ws' = ws \<and> p' \<in> set ps then None else map_of m (ws', p'))"
  by (induction m) auto

lemma put_index_frame [simp]:
  "fd_latest (put_index ws p e v s) = AList.update (ws, p) e (fd_latest s)" "fd_blobs (put_index ws p e v s) = fd_blobs s"
  by (simp_all add: put_index_def Let_def)

lemma drop_paths_latest:
  "map_of (fd_latest (ds_drop_paths ws ps s)) (ws', p') = (if ws' = ws \<and> p' \<in> set ps then None else map_of (fd_latest s) (ws', p'))"
  "fd_blobs (ds_drop_paths ws ps s) = fd_blobs s"
  using map_of_drop [of ws ps "fd_latest s" ws' p'] by (simp_all add: ds_drop_paths_def)

text \<open>A write keeps the blobs of every other pointer: a blob it overwrites has the same hash, and
  so the same content.\<close>

lemma ds_write_blobs:
  assumes inv: "ds_inv sha now s" and b: "blob_ok sha s ws' p' e"
  shows "map_of (AList.update (fs_blob_key ws (sha c)) c (fd_blobs s)) (fs_blob_key ws' (fe_hash e)) =
    map_of (fd_blobs s) (fs_blob_key ws' (fe_hash e))"
proof -
  obtain c' where c': "map_of (fd_blobs s) (fs_blob_key ws' (fe_hash e)) = Some c'" "fe_hash e = sha c'"
    using b by (auto simp: blob_ok_def)
  have h: "inj sha" "\<And>c. CHR ''/'' \<notin> set (sha c)" using ds_invD(1) [OF inv] by (auto simp: hash_ok_def)
  have "fs_blob_key ws' (fe_hash e) = fs_blob_key ws (sha c) \<Longrightarrow> c' = c"
    using fs_blob_key_inj [OF h(2) h(2)] c'(2) h(1) by (auto dest: injD)
  with c' show ?thesis by auto
qed

lemma ds_write_inv:
  assumes inv: "ds_inv sha now s"
  shows "ds_inv sha now (snd (ds_write sha t ws p c m v s))"
  unfolding ds_inv_def
proof (intro conjI allI impI)
  show "hash_ok sha" by (rule ds_invD(1) [OF inv])
  show "wf_map (fd_latest (snd (ds_write sha t ws p c m v s)))"
    using ds_invD(2) [OF inv] by (simp add: ds_write_def Let_def)
  fix ws' p' e
  assume e: "map_of (fd_latest (snd (ds_write sha t ws p c m v s))) (ws', p') = Some e"
  show "blob_ok sha (snd (ds_write sha t ws p c m v s)) ws' p' e"
  proof (cases "ws' = ws \<and> p' = p")
    case True
    with e show ?thesis by (auto simp: ds_write_def Let_def new_file_def entry_of_def blob_ok_def)
  next
    case False
    with e have "map_of (fd_latest s) (ws', p') = Some e" by (auto simp: ds_write_def Let_def)
    then have b: "blob_ok sha s ws' p' e" by (rule ds_invD(3) [OF inv])
    with ds_write_blobs [OF inv b, of ws c] show ?thesis
      by (auto simp: ds_write_def Let_def new_file_def blob_ok_def)
  qed
qed

lemma ds_latest_write:
  assumes inv: "ds_inv sha now s"
  shows "ds_latest (snd (ds_write sha t ws p c m v s)) ws' p' =
    (if ws' = ws \<and> p' = p then Some (new_file sha t p c m) else ds_latest s ws' p')"
proof (cases "ws' = ws \<and> p' = p")
  case True
  then show ?thesis
    by (simp add: ds_latest_def ds_read_def ds_write_def Let_def new_file_def entry_of_def file_of_def)
next
  case False
  then have same: "map_of (fd_latest (snd (ds_write sha t ws p c m v s))) (ws', p') = map_of (fd_latest s) (ws', p')"
    by (auto simp: ds_write_def Let_def)
  show ?thesis
  proof (cases "map_of (fd_latest s) (ws', p')")
    case (Some e)
    from ds_write_blobs [OF inv ds_invD(3) [OF inv Some], of ws c] Some same False show ?thesis
      by (auto simp: ds_latest_def ds_read_def ds_write_def Let_def new_file_def)
  qed (use same False in \<open>auto simp: ds_latest_def ds_read_def\<close>)
qed

lemma ds_drop_inv: "ds_inv sha now s \<Longrightarrow> ds_inv sha now (ds_drop_paths ws ps s)"
  unfolding ds_inv_def blob_ok_def drop_paths_latest
  by (auto simp: ds_drop_paths_def wf_map_def distinct_map_filter)

lemma ds_drop_latest:
  "ds_latest (ds_drop_paths ws ps s) ws' p' = (if ws' = ws \<and> p' \<in> set ps then None else ds_latest s ws' p')"
  unfolding ds_latest_def ds_read_def drop_paths_latest by simp

definition ds_hits :: "string \<Rightarrow> string \<Rightarrow> bool" where
  "ds_hits pre p \<longleftrightarrow> in_prefix p pre"

text \<open>The rows of a DSQL listing are the latest pointers under the prefix.\<close>

definition ds_rows :: "dsql_fs \<Rightarrow> string \<Rightarrow> string \<Rightarrow> string \<Rightarrow> fs_entry list" where
  "ds_rows s ws pre after = sort_key fe_path (map snd (filter (\<lambda>((w, p), e). w = ws \<and> (pre = [] \<or> p = pre \<or> ds_like pre p) \<and>
     (after = [] \<or> p > after)) (fd_latest s)))"

lemma ds_latest_path:
  assumes inv: "ds_inv sha now s" and e: "((w, p), e) \<in> set (fd_latest s)"
  shows "fe_path e = p" "map_of (fd_latest s) (w, p) = Some e"
proof -
  show m: "map_of (fd_latest s) (w, p) = Some e" using wf_map_member [OF ds_invD(2) [OF inv]] e by blast
  from ds_invD(3) [OF inv m] show "fe_path e = p" by (simp add: blob_ok_def)
qed

lemma ds_rows_mem:
  assumes inv: "ds_inv sha now s"
  shows "e \<in> set (ds_rows s ws pre after) \<longleftrightarrow>
    map_of (fd_latest s) (ws, fe_path e) = Some e \<and> ds_hits pre (fe_path e) \<and> (after = [] \<or> fe_path e > after)"
proof -
  have "e \<in> set (ds_rows s ws pre after) \<longleftrightarrow>
      (\<exists>p. ((ws, p), e) \<in> set (fd_latest s) \<and> ds_hits pre p \<and> (after = [] \<or> p > after))"
    by (force simp: ds_rows_def ds_hits_def in_prefix_def ds_like_exact)
  also have "\<dots> \<longleftrightarrow> ((ws, fe_path e), e) \<in> set (fd_latest s) \<and> ds_hits pre (fe_path e) \<and> (after = [] \<or> fe_path e > after)"
    using ds_latest_path(1) [OF inv] by blast
  finally show ?thesis using wf_map_member [OF ds_invD(2) [OF inv]] by blast
qed

lemma distinct_by_key:
  assumes "map h (map snd xs) = map g (map fst xs)" and "inj_on g (fst ` set xs)" and "distinct (map fst xs)"
  shows "distinct (map h (map snd xs))"
  unfolding assms(1) distinct_map [of g] using assms by simp

lemma ds_rows_sorted:
  assumes inv: "ds_inv sha now s"
  shows "sorted_wrt (<) (map fe_path (ds_rows s ws pre after))"
proof -
  let ?hit = "\<lambda>((w, p), e). w = ws \<and> (pre = [] \<or> p = pre \<or> ds_like pre p) \<and> (after = [] \<or> p > after)"
  have "map fe_path (map snd (filter ?hit (fd_latest s))) = map snd (map fst (filter ?hit (fd_latest s)))"
    using ds_latest_path(1) [OF inv] by auto
  moreover have "inj_on snd (fst ` set (filter ?hit (fd_latest s)))" by (auto simp: inj_on_def)
  moreover have "distinct (map fst (filter ?hit (fd_latest s)))"
    using ds_invD(2) [OF inv] by (simp add: wf_map_def distinct_map_filter)
  ultimately have "distinct (map fe_path (map snd (filter ?hit (fd_latest s))))"
    by (intro distinct_by_key [where g = snd])
  then have "distinct (map fe_path (ds_rows s ws pre after))" unfolding ds_rows_def distinct_map distinct_sort set_sort .
  then show ?thesis by (simp add: strict_sorted_iff ds_rows_def)
qed

lemma ds_list_rows:
  assumes inv: "ds_inv sha now s"
  shows "\<exists>rows. list_spec (ds_latest s ws) (ds_hits pre) (case cursor of None \<Rightarrow> [] | Some c \<Rightarrow> c) rows \<and>
    (\<forall>limit. ds_list s ws pre cursor limit = fs_page_of limit rows)"
proof -
  let ?after = "case cursor of None \<Rightarrow> [] | Some c \<Rightarrow> c"
  have "list_spec (ds_latest s ws) (ds_hits pre) after (ds_rows s ws pre after)" for after
    unfolding list_spec_def
  proof (intro conjI ballI)
    have ex: "ds_latest s ws p \<noteq> None \<longleftrightarrow> (\<exists>e. map_of (fd_latest s) (ws, p) = Some e \<and> fe_path e = p)" for p
      using ds_latest_None [OF inv] ds_invD(3) [OF inv] by (auto simp: blob_ok_def)
    show "set (map fe_path (ds_rows s ws pre after)) = {p. ds_latest s ws p \<noteq> None \<and> ds_hits pre p \<and> (after = [] \<or> p > after)}"
      unfolding ex list.set_map using ds_rows_mem [OF inv] by blast
    fix e assume "e \<in> set (ds_rows s ws pre after)"
    then have "map_of (fd_latest s) (ws, fe_path e) = Some e" using ds_rows_mem [OF inv] by blast
    from ds_latest_entry [OF inv this] show "map_option fe_updated (ds_latest s ws (fe_path e)) = Some (fe_updated e)"
      by (auto simp: file_of_def)
  qed (rule ds_rows_sorted [OF inv])
  moreover have "\<forall>limit. ds_list s ws pre cursor limit = fs_page_of limit (ds_rows s ws pre ?after)"
    by (simp add: ds_list_def ds_rows_def Let_def)
  ultimately show ?thesis by blast
qed

interpretation ds: file_tree sha "ds_inv sha" ds_latest "ds_write sha" ds_remove ds_list ds_hits for sha
proof unfold_locales
  show "ds_inv sha now s \<Longrightarrow> now \<le> t \<Longrightarrow> ds_inv sha t s" for now s t
    by (simp add: ds_inv_def)
  show "fst (ds_write sha now ws p c m v s) = new_file sha now p c m" for now ws p c m v s
    by (simp add: ds_write_def Let_def)
  show "ds_inv sha now s \<Longrightarrow> ds_inv sha now (snd (ds_remove ws p s))" for now s ws p
    by (simp add: ds_remove_def ds_drop_inv)
  show "ds_inv sha now s \<Longrightarrow> fst (ds_remove ws p s) = (ds_latest s ws p \<noteq> None)" for now s ws p
    by (simp add: ds_remove_def ds_latest_None)
  show "ds_inv sha now s \<Longrightarrow> ds_latest (snd (ds_remove ws p s)) ws' p' = (if ws' = ws \<and> p' = p then None else ds_latest s ws' p')"
    for now s ws p ws' p'
    by (simp add: ds_remove_def ds_drop_latest)
qed (rule ds_write_inv ds_latest_write ds_list_rows; assumption)+

end
