(* ===== verification/Fs_Properties.thy ===== *)
theory Fs_Properties
  imports Fs_Backends
begin

text \<open>
  What the file store promises on both backends: reading back the last write, listings that
  survive being cut into pages, the removal of subtrees and the batches of a bulk deletion.
\<close>

section \<open>Histories\<close>

definition empty_dsql :: dsql_fs where
  "empty_dsql = \<lparr>fd_latest = [], fd_files = [], fd_blobs = []\<rparr>"

lemma empty_invs: "pick_ok pick \<Longrightarrow> sqfs_inv pick now []" "hash_ok sha \<Longrightarrow> ds_inv sha now empty_dsql"
  by (simp_all add: sqfs_inv_def ds_inv_def empty_dsql_def)

lemma empty_latest: "sq_latest [] ws p = None" "ds_latest empty_dsql ws p = None"
  by (simp_all add: sq_latest_def sq_read_def sq_versions_def newest_first_def ds_latest_def ds_read_def empty_dsql_def)

lemma ds_read_latest:
  assumes inv: "ds_inv sha now s"
  shows "ds_read s ws p None = Inr (ds_latest s ws p)"
proof (cases "map_of (fd_latest s) (ws, p)")
  case (Some e)
  then obtain c where "map_of (fd_blobs s) (fs_blob_key ws (fe_hash e)) = Some c"
    using ds_invD(3) [OF inv Some] by (auto simp: blob_ok_def)
  with Some show ?thesis by (simp add: ds_latest_def ds_read_def)
qed (simp add: ds_latest_def ds_read_def)

lemma no_pair: "(\<lambda>(a, b). None) = (\<lambda>_. None)"
  by (auto simp: fun_eq_iff)

lemma history_states:
  assumes "hash_ok sha" and "pick_ok pick" and clock: "clock_ok 0 xs"
  shows "\<exists>t. sqfs_inv pick t (fold (run_op (sq_write sha) sq_remove) xs [])"
    "sq_latest (fold (run_op (sq_write sha) sq_remove) xs []) ws p = fold (op_spec sha) xs (\<lambda>_. None) (ws, p)"
    "\<exists>t. ds_inv sha t (fold (run_op (ds_write sha) ds_remove) xs empty_dsql)"
    "ds_latest (fold (run_op (ds_write sha) ds_remove) xs empty_dsql) ws p = fold (op_spec sha) xs (\<lambda>_. None) (ws, p)"
  using sq.history [OF empty_invs(1) [OF assms(2)] clock, of sha ws p]
    ds.history [OF empty_invs(2) [OF assms(1)] clock, of ws p]
  by (simp_all add: empty_latest no_pair)

text \<open>
  C16: on SQLite and on DSQL alike, after any history of writes and removals with a clock that
  does not run backwards, reading a path gives the content, type, size and time of its last
  write, or nothing when it was removed since or never written.
\<close>

theorem fs_history_exact:
  assumes "hash_ok sha" and "pick_ok pick" and "clock_ok 0 xs"
  shows "sq_read (fold (run_op (sq_write sha) sq_remove) xs []) ws p None = fold (op_spec sha) xs (\<lambda>_. None) (ws, p) \<and>
    ds_read (fold (run_op (ds_write sha) ds_remove) xs empty_dsql) ws p None = Inr (fold (op_spec sha) xs (\<lambda>_. None) (ws, p))"
proof -
  note h = history_states [OF assms]
  obtain t where "ds_inv sha t (fold (run_op (ds_write sha) ds_remove) xs empty_dsql)" using h(3) by blast
  from ds_read_latest [OF this] h(2,4) [of ws p] show ?thesis by (simp add: sq_latest_def)
qed

text \<open>A digest without slashes and a choice among equal times that satisfy the assumptions.\<close>

fun demo_sha :: "string \<Rightarrow> string" where
  "demo_sha [] = []"
| "demo_sha (c # cs) = (if c = CHR ''/'' then CHR ''a'' # CHR ''b'' # demo_sha cs else if c = CHR ''a'' then CHR ''a'' # CHR ''a'' # demo_sha cs else c # demo_sha cs)"

lemma demo_sha_inj: "demo_sha x = demo_sha y \<Longrightarrow> x = y"
proof (induction x arbitrary: y)
  case Nil
  then show ?case by (cases y) (auto split: if_splits)
next
  case (Cons c cs)
  then show ?case by (cases y) (auto split: if_splits)
qed

lemma demo_hash: "hash_ok demo_sha"
proof -
  have "CHR ''/'' \<notin> set (demo_sha c)" for c by (induction c) auto
  then show ?thesis by (simp add: hash_ok_def inj_on_def) (meson demo_sha_inj)
qed

lemma demo_pick: "pick_ok hd"
  by (simp add: pick_ok_def)

definition fs_demo_ops :: "fs_op list" where
  "fs_demo_ops = [WriteOp 1 ''w'' ''b'' ''one'' ''text/plain'' None, WriteOp 2 ''w'' ''a/x'' ''one'' ''text/plain'' None,
     WriteOp 2 ''w'' ''b'' ''two'' ''text/plain'' None, RemoveOp ''w'' ''c'']"

lemma fs_demo_clock: "clock_ok 0 fs_demo_ops"
  by (simp add: fs_demo_ops_def)

theorem fs_history_exact_witness:
  "map_option ff_content (sq_read (fold (run_op (sq_write demo_sha) sq_remove) fs_demo_ops []) ''w'' ''b'' None) = Some ''two'' \<and>
   ds_read (fold (run_op (ds_write demo_sha) ds_remove) fs_demo_ops empty_dsql) ''w'' ''c'' None = Inr None"
  using fs_history_exact [OF demo_hash demo_pick fs_demo_clock, of "''w''" "''b''"]
    fs_history_exact [OF demo_hash demo_pick fs_demo_clock, of "''w''" "''c''"]
  by (simp add: fs_demo_ops_def new_file_def)

section \<open>Listings\<close>

definition op_paths_ok :: "fs_op list \<Rightarrow> bool" where
  "op_paths_ok xs \<longleftrightarrow> list_all (\<lambda>x. case x of WriteOp t ws p c m v \<Rightarrow> p \<noteq> [] | RemoveOp ws p \<Rightarrow> True) xs"

lemma spec_paths_ne: "op_paths_ok xs \<Longrightarrow> (\<And>ws p. tree (ws, p) \<noteq> None \<Longrightarrow> p \<noteq> []) \<Longrightarrow>
    fold (op_spec sha) xs tree (ws, p) \<noteq> None \<Longrightarrow> p \<noteq> []"
proof (induction xs arbitrary: tree)
  case (Cons x xs)
  have "op_spec sha x tree (ws, p) \<noteq> None \<Longrightarrow> p \<noteq> []" for ws p
    using Cons.prems(1,2) by (cases x) (auto simp: op_paths_ok_def split: if_splits)
  with Cons.IH [of "op_spec sha x tree"] Cons.prems show ?case by (simp add: op_paths_ok_def)
qed auto

text \<open>What the SQLite pattern of a listing matches: a path below the prefix, letters compared without
  regard to case.\<close>

lemma escape_like_append: "escape_like cs (a @ b) = escape_like cs a @ escape_like cs b"
  by (induction a) simp_all

lemma sq_hits_lower:
  assumes "backslash \<notin> set pre"
  shows "sq_hits pre p \<longleftrightarrow> pre = [] \<or> p = pre \<or> starts_with (map lower_char p) (map lower_char (pre @ ''/''))"
proof -
  have "sq_like pre p \<longleftrightarrow> like True backslash (sqlite_prefix_pattern (pre @ ''/'')) p"
    by (simp add: sq_like_def sqlite_prefix_pattern_def escape_like_append)
  also have "\<dots> \<longleftrightarrow> starts_with (map lower_char p) (map lower_char (pre @ ''/''))"
    by (rule like_sqlite_prefix) (use assms in simp)
  finally show ?thesis by (simp only: sq_hits_def)
qed

text \<open>
  C17: on both backends a listing cut into pages of any positive size, each fetched with the cursor
  of the one before, ends, and yields in order and each once: on DSQL exactly the paths that exist
  under the prefix; on SQLite exactly the paths that exist and match its pattern, which, for a
  prefix without a backslash, are the prefix itself and the paths below it when letters are
  compared without regard to case.
\<close>

theorem fs_cursor_exact:
  assumes "hash_ok sha" and "pick_ok pick" and "clock_ok 0 xs" and paths: "op_paths_ok xs" and n: "0 < n"
  shows "\<exists>fuel es es'.
    list_all_pages fuel (\<lambda>c. ds_list (fold (run_op (ds_write sha) ds_remove) xs empty_dsql) ws pre c (Some n)) None = Some (Inr es) \<and>
    list_all_pages fuel (\<lambda>c. sq_list pick (fold (run_op (sq_write sha) sq_remove) xs []) ws pre c (Some n)) None = Some (Inr es') \<and>
    sorted_wrt (<) (map fe_path es) \<and> sorted_wrt (<) (map fe_path es') \<and>
    set (map fe_path es) = {p. fold (op_spec sha) xs (\<lambda>_. None) (ws, p) \<noteq> None \<and> in_prefix p pre} \<and>
    set (map fe_path es') = {p. fold (op_spec sha) xs (\<lambda>_. None) (ws, p) \<noteq> None \<and> sq_hits pre p} \<and>
    (backslash \<notin> set pre \<longrightarrow> set (map fe_path es') = {p. fold (op_spec sha) xs (\<lambda>_. None) (ws, p) \<noteq> None \<and>
      (pre = [] \<or> p = pre \<or> starts_with (map lower_char p) (map lower_char (pre @ ''/'')))})"
proof -
  note h = history_states [OF assms(1-3)]
  let ?s = "fold (run_op (sq_write sha) sq_remove) xs []" and ?d = "fold (run_op (ds_write sha) ds_remove) xs empty_dsql"
  obtain t where si: "sqfs_inv pick t ?s" using h(1) by blast
  obtain t' where di: "ds_inv sha t' ?d" using h(3) by blast
  have ne: "fold (op_spec sha) xs (\<lambda>_. None) (ws, p) \<noteq> None \<Longrightarrow> p \<noteq> []" for p
    by (rule spec_paths_ne [OF paths]) auto
  have nes: "\<forall>p. sq_latest ?s ws p \<noteq> None \<longrightarrow> p \<noteq> []" "\<forall>p. ds_latest ?d ws p \<noteq> None \<longrightarrow> p \<noteq> []"
    using ne h(2,4) by simp_all
  have lim: "Some n \<noteq> Some 0" using n by simp
  obtain rows :: "fs_entry list" where r: "\<And>fuel. length rows < fuel \<Longrightarrow>
      \<exists>es. list_all_pages fuel (\<lambda>c. ds_list ?d ws pre c (Some n)) None = Some (Inr es) \<and> list_spec (ds_latest ?d ws) (ds_hits pre) [] es"
    using ds.pages [OF di nes(2) lim, of pre] by blast
  obtain rows' :: "fs_entry list" where r': "\<And>fuel. length rows' < fuel \<Longrightarrow>
      \<exists>es. list_all_pages fuel (\<lambda>c. sq_list pick ?s ws pre c (Some n)) None = Some (Inr es) \<and> list_spec (sq_latest ?s ws) (sq_hits pre) [] es"
    using sq.pages [OF si nes(1) lim, of pre] by blast
  let ?f = "Suc (max (length rows) (length rows'))"
  have l: "length rows < ?f" "length rows' < ?f" by simp_all
  obtain es where e: "list_all_pages ?f (\<lambda>c. ds_list ?d ws pre c (Some n)) None = Some (Inr es)" "list_spec (ds_latest ?d ws) (ds_hits pre) [] es"
    using r [OF l(1)] by blast
  obtain es' where e': "list_all_pages ?f (\<lambda>c. sq_list pick ?s ws pre c (Some n)) None = Some (Inr es')" "list_spec (sq_latest ?s ws) (sq_hits pre) [] es'"
    using r' [OF l(2)] by blast
  have hits: "set (map fe_path es') = {p. fold (op_spec sha) xs (\<lambda>_. None) (ws, p) \<noteq> None \<and> sq_hits pre p}"
    using e'(2) by (simp add: list_spec_def h(2))
  show ?thesis
  proof (rule exI [of _ ?f], rule exI [of _ es], rule exI [of _ es'], intro conjI impI)
    show "set (map fe_path es') = {p. fold (op_spec sha) xs (\<lambda>_. None) (ws, p) \<noteq> None \<and>
        (pre = [] \<or> p = pre \<or> starts_with (map lower_char p) (map lower_char (pre @ ''/'')))}" if "backslash \<notin> set pre"
      by (simp only: hits sq_hits_lower [OF that])
  qed (use e e' hits in \<open>simp_all add: list_spec_def h(2,4) ds_hits_def del: list_all_pages.simps\<close>)
qed

theorem fs_cursor_exact_witness:
  "\<exists>fuel es. list_all_pages fuel (\<lambda>c. ds_list (fold (run_op (ds_write demo_sha) ds_remove) fs_demo_ops empty_dsql) ''w'' [] c (Some 1)) None =
     Some (Inr es) \<and> set (map fe_path es) = {''a/x'', ''b''}"
proof -
  have "op_paths_ok fs_demo_ops" by (simp add: op_paths_ok_def fs_demo_ops_def)
  from fs_cursor_exact [OF demo_hash demo_pick fs_demo_clock this, of 1 "''w''" "[]"] obtain fuel es where
    es: "list_all_pages fuel (\<lambda>c. ds_list (fold (run_op (ds_write demo_sha) ds_remove) fs_demo_ops empty_dsql) ''w'' [] c (Some 1)) None = Some (Inr es)"
    "set (map fe_path es) = {p. fold (op_spec demo_sha) fs_demo_ops (\<lambda>_. None) (''w'', p) \<noteq> None \<and> in_prefix p []}" by auto
  have "fold (op_spec demo_sha) fs_demo_ops (\<lambda>_. None) (''w'', p) \<noteq> None \<longleftrightarrow> p = ''b'' \<or> p = ''a/x''" for p
    by (simp add: fs_demo_ops_def)
  then have "{p. fold (op_spec demo_sha) fs_demo_ops (\<lambda>_. None) (''w'', p) \<noteq> None \<and> in_prefix p []} = {''a/x'', ''b''}"
    by (auto simp: in_prefix_def)
  with es show ?thesis by metis
qed

section \<open>Batches\<close>

lemma chunk_loop_fit:
  assumes "0 < maxRows" and "length batch \<le> maxRows" and "bytes = sum_list (map sizeOf batch)"
    and "length batch \<le> 1 \<or> bytes \<le> maxBytes"
  shows "concat (chunk_loop maxRows maxBytes sizeOf batch bytes rs) = batch @ rs \<and>
    list_all (\<lambda>b. b \<noteq> [] \<and> length b \<le> maxRows \<and> (length b = 1 \<or> sum_list (map sizeOf b) \<le> maxBytes))
      (chunk_loop maxRows maxBytes sizeOf batch bytes rs)"
  using assms
proof (induction rs arbitrary: batch bytes)
  case Nil
  then show ?case by (cases "length batch") auto
next
  case (Cons r rs)
  show ?case
  proof (cases "batch \<noteq> [] \<and> (length batch \<ge> maxRows \<or> bytes + sizeOf r > maxBytes)")
    case True
    then have "length batch = 1 \<or> bytes \<le> maxBytes" using Cons.prems by (cases "length batch") auto
    with True Cons.IH [of "[r]" "sizeOf r"] Cons.prems show ?thesis by auto
  next
    case False
    then have "length (batch @ [r]) \<le> maxRows" "length (batch @ [r]) \<le> 1 \<or> bytes + sizeOf r \<le> maxBytes"
      using Cons.prems by auto
    moreover have "bytes + sizeOf r = sum_list (map sizeOf (batch @ [r]))" using Cons.prems by simp
    moreover have "chunk_loop maxRows maxBytes sizeOf batch bytes (r # rs) =
        chunk_loop maxRows maxBytes sizeOf (batch @ [r]) (bytes + sizeOf r) rs"
      using False by (simp only: chunk_loop.simps if_False)
    ultimately show ?thesis using Cons.IH [of "batch @ [r]" "bytes + sizeOf r"] Cons.prems(1)
      by (simp del: chunk_loop.simps)
  qed
qed

lemma chunk_rows_concat: "0 < n \<Longrightarrow> concat (chunk_rows (Some n) mb sizeOf rows) = rows"
  unfolding chunk_rows_def option.case
  by (rule chunk_loop_fit [THEN conjunct1, THEN trans]) (simp_all add: DSQL_MAX_ROWS_PER_TXN_def)

text \<open>
  the batches of a bulk write keep every row once and in order; none is empty, none has
  more rows than asked for or than a transaction may modify, and none has more bytes than
  allowed unless it is a single row.
\<close>

theorem chunk_rows_fit:
  assumes "maxRows \<noteq> Some 0"
  shows "concat (chunk_rows maxRows maxBytes sizeOf rows) = rows \<and>
    list_all (\<lambda>b. b \<noteq> [] \<and> length b \<le> 3000 \<and> (case maxRows of None \<Rightarrow> True | Some n \<Rightarrow> length b \<le> n) \<and>
        (length b = 1 \<or> sum_list (map sizeOf b) \<le> 10485760 \<and> (case maxBytes of None \<Rightarrow> True | Some n \<Rightarrow> sum_list (map sizeOf b) \<le> n)))
      (chunk_rows maxRows maxBytes sizeOf rows)"
proof -
  let ?r = "min (case maxRows of None \<Rightarrow> DSQL_MAX_ROWS_PER_TXN | Some n \<Rightarrow> n) DSQL_MAX_ROWS_PER_TXN"
  let ?b = "min (case maxBytes of None \<Rightarrow> DSQL_MAX_BYTES_PER_TXN | Some n \<Rightarrow> n) DSQL_MAX_BYTES_PER_TXN"
  have "0 < ?r" using assms by (auto simp: DSQL_MAX_ROWS_PER_TXN_def split: option.split)
  from chunk_loop_fit [OF this, of "[]" 0 sizeOf ?b rows]
  show ?thesis
    unfolding chunk_rows_def
    by (auto simp: list_all_iff DSQL_MAX_ROWS_PER_TXN_def DSQL_MAX_BYTES_PER_TXN_def split: option.splits)
qed

theorem chunk_rows_fit_witness:
  "concat (chunk_rows (Some 2) (Some 10) length [''abc'', ''defgh'', ''ijklmn'', ''opqrstuvwxyzab'']) =
     [''abc'', ''defgh'', ''ijklmn'', ''opqrstuvwxyzab'']"
  using chunk_rows_fit [of "Some 2" "Some 10" length "[''abc'', ''defgh'', ''ijklmn'', ''opqrstuvwxyzab'']"] by simp

section \<open>Removing a subtree\<close>

lemma drop_batches_latest:
  "ds_latest (fold (\<lambda>batch. ds_drop_paths ws (map fe_path batch)) batches s) ws' p =
    (if ws' = ws \<and> p \<in> fe_path ` set (concat batches) then None else ds_latest s ws' p)"
  by (induction batches arbitrary: s) (auto simp: ds_drop_latest)

lemma drop_batches_inv: "ds_inv sha now s \<Longrightarrow>
    ds_inv sha now (fold (\<lambda>batch. ds_drop_paths ws (map fe_path batch)) batches s)"
  by (induction batches arbitrary: s) (auto simp: ds_drop_inv)

lemma list_unlimited: "list_all_pages 1 (\<lambda>c. ds_list s ws pre c None) None = Some (Inr (ds_rows s ws pre []))"
  by (simp add: ds_list_def ds_rows_def fs_page_of_def Let_def)

lemma sum_chunks: "sum_list (map length bs) = length (concat bs)"
  by (simp add: length_concat)

lemma remove_prefix_run:
  assumes inv: "ds_inv sha now s"
  obtains s' where "ds_remove_prefix sizeOf ws pre s = (Inr (length (ds_rows s ws pre [])), s')" "ds_inv sha now s'"
    "\<And>ws' p. ds_latest s' ws' p = (if ws' = ws \<and> p \<in> fe_path ` set (ds_rows s ws pre []) then None else ds_latest s ws' p)"
proof -
  let ?bs = "chunk_rows (Some 500) None sizeOf (ds_rows s ws pre [])"
  have c: "concat ?bs = ds_rows s ws pre []" by (rule chunk_rows_concat) simp
  have "ds_remove_prefix sizeOf ws pre s = (Inr (length (ds_rows s ws pre [])), fold (\<lambda>batch. ds_drop_paths ws (map fe_path batch)) ?bs s)"
    by (simp only: ds_remove_prefix_def fs_list_all_def list_unlimited Let_def sum_chunks c option.case sum.case)
  then show thesis
    by (rule that) (simp_all add: drop_batches_inv [OF inv] drop_batches_latest c del: set_concat)
qed

text \<open>
  on DSQL the removal of a prefix takes away exactly the file of that path and the files
  below it, in that workspace only, however many batches it needs, and returns their number.
\<close>

theorem ds_remove_prefix_exact:
  assumes inv: "ds_inv sha now s"
  shows "\<exists>k s'. ds_remove_prefix sizeOf ws pre s = (Inr k, s') \<and>
    k = card {p. ds_latest s ws p \<noteq> None \<and> in_prefix p pre} \<and>
    (\<forall>ws' p. ds_latest s' ws' p = (if ws' = ws \<and> in_prefix p pre then None else ds_latest s ws' p))"
proof -
  obtain s' where r: "ds_remove_prefix sizeOf ws pre s = (Inr (length (ds_rows s ws pre [])), s')"
    and l: "\<And>ws' p. ds_latest s' ws' p = (if ws' = ws \<and> p \<in> fe_path ` set (ds_rows s ws pre []) then None else ds_latest s ws' p)"
    by (rule remove_prefix_run [OF inv, of sizeOf ws pre]) blast
  have paths: "fe_path ` set (ds_rows s ws pre []) = {p. ds_latest s ws p \<noteq> None \<and> in_prefix p pre}"
    using ds.lst_rows [OF inv, of ws pre None] ds_rows_mem [OF inv, of _ ws pre "[]"] ds_latest_None [OF inv] ds_invD(3) [OF inv]
    by (auto simp: ds_hits_def blob_ok_def image_iff) metis+
  have "distinct (map fe_path (ds_rows s ws pre []))"
    using ds_rows_sorted [OF inv, of ws pre "[]"] by (simp add: strict_sorted_iff)
  then have "length (ds_rows s ws pre []) = card (fe_path ` set (ds_rows s ws pre []))"
    by (metis distinct_card length_map list.set_map)
  with r l show ?thesis unfolding paths by (intro exI [of _ "length (ds_rows s ws pre [])"] exI [of _ s']) auto
qed

lemma demo_dsql_inv: "\<exists>t. ds_inv demo_sha t (fold (run_op (ds_write demo_sha) ds_remove) fs_demo_ops empty_dsql)"
  by (rule history_states(3) [OF demo_hash demo_pick fs_demo_clock])

theorem ds_remove_prefix_exact_witness:
  "\<exists>k s'. ds_remove_prefix (\<lambda>_. 100) ''w'' ''a'' (fold (run_op (ds_write demo_sha) ds_remove) fs_demo_ops empty_dsql) = (Inr k, s') \<and>
    ds_latest s' ''w'' ''a/x'' = None \<and> map_option ff_content (ds_latest s' ''w'' ''b'') = Some ''two''"
proof -
  obtain t where inv: "ds_inv demo_sha t (fold (run_op (ds_write demo_sha) ds_remove) fs_demo_ops empty_dsql)"
    using demo_dsql_inv by blast
  have "map_option ff_content (ds_latest (fold (run_op (ds_write demo_sha) ds_remove) fs_demo_ops empty_dsql) ''w'' ''b'') = Some ''two''"
    unfolding history_states(4) [OF demo_hash demo_pick fs_demo_clock] by (simp add: fs_demo_ops_def new_file_def)
  moreover have "in_prefix ''a/x'' ''a''" "\<not> in_prefix ''b'' ''a''" by (simp_all add: in_prefix_def)
  ultimately show ?thesis
    using ds_remove_prefix_exact [OF inv, of "\<lambda>_. 100" "''w''" "''a''"] by (elim exE conjE) (intro exI conjI, assumption, simp_all)
qed

section \<open>Where the backends differ from their interface\<close>

text \<open>SQLite compares the letters of a prefix without regard to case: removing \<^verbatim>\<open>.SERVICES\<close>, which
  is not a service path, removes the files of the service area.\<close>

lemma sqlite_removes_other_case:
  "\<not> is_service_path ''.SERVICES'' \<and>
   sq_remove_prefix ''w'' ''.SERVICES'' [(''w'', new_file sha now ''.services/hooks'' c m)] = (1, [])"
proof -
  have "sq_like ''.SERVICES'' ''.services/hooks''" by code_simp
  then show ?thesis by (simp add: sq_remove_prefix_def new_file_def is_service_path_def Let_def)
qed

text \<open>The number it returns counts versions, not files.\<close>

lemma sqlite_counts_versions:
  "fst (sq_remove_prefix ''w'' ''a'' [(''w'', new_file sha 1 ''a'' c m), (''w'', new_file sha 2 ''a'' c' m)]) = 2"
  by (simp add: sq_remove_prefix_def new_file_def)

text \<open>An unversioned file has no version on DSQL: its version list is empty and its own hash does
  not read.\<close>

lemma dsql_unversioned_unpinned:
  "ds_list_versions (snd (ds_write sha now ws p c m (Some False) s)) ws p = [] \<and>
   map_of (fd_latest (snd (ds_write sha now ws p c m (Some False) s))) (ws, p) = Some (entry_of (new_file sha now p c m))"
proof -
  have none: "filter (\<lambda>((w, q, h), e). w = ws \<and> q = p) (filter (\<lambda>((w, q, h), e). \<not> (w = ws \<and> q = p)) m) = []" for m :: "((string \<times> string \<times> string) \<times> fs_entry) list"
    by (auto simp: filter_empty_conv)
  have "ds_list_versions (snd (ds_write sha now ws p c m (Some False) s)) ws p = []"
    using none [of "fd_files s"]
    by (simp add: ds_list_versions_def ds_write_def put_index_def write_versioned_def Let_def)
  then show ?thesis by (simp add: ds_write_def Let_def)
qed

text \<open>The bytes of an upload are not compared with the hash they are registered under: an upload
  replaces the content of every path with that hash.\<close>

lemma upload_replaces_content:
  assumes "map_of (fd_latest s) (ws, p) = Some e"
  shows "ds_read (ds_upload_blob ws (fe_hash e) evil s) ws p None = Inr (Some (file_of e evil))"
  using assms by (simp add: ds_read_def ds_upload_blob_def)

end
