(* ===== verification/Vfs_Shares.thy ===== *)
theory Vfs_Shares
  imports Doc_Store Fs_Store Json Js_Date
begin

text \<open>
  Shares of workspace paths, \<^verbatim>\<open>server/workspace/src/vfs/shares.ts\<close>, the anonymous read route
  \<^verbatim>\<open>routes/share.ts\<close> and the dispatch of the share operations in \<^verbatim>\<open>native-dispatch.ts\<close>. The keyed
  digest, the random ids and keys and the parser of dates are arguments; digests are compared
  as the hexadecimal texts the code stores.
\<close>

datatype share_kind = PersonShare | LinkShare

record vfs_share =
  vs_id :: string
  vs_path :: string
  vs_kind :: share_kind
  vs_grantee :: "string option"
  vs_hmac :: "string option"
  vs_expires :: string
  vs_created_by :: string
  vs_created :: string
  vs_revoked :: "string option"

record share_env =
  se_hmac :: "string \<Rightarrow> string"          \<comment> \<open>HMAC-SHA256 under the server secret\<close>
  se_share_id :: "nat \<Rightarrow> string"
  se_link_key :: "nat \<Rightarrow> string"
  se_date :: "string \<Rightarrow> int option"      \<comment> \<open>\<^verbatim>\<open>new Date(value).getTime()\<close>, \<^verbatim>\<open>None\<close> for NaN\<close>
  se_collate :: "string \<Rightarrow> string \<Rightarrow> int"

text \<open>The documents of the shares, and the index from digests to shares of the \<^verbatim>\<open>_system\<close> workspace.\<close>

record share_world =
  vw_now :: int
  vw_shares :: "vfs_share db"
  vw_keys :: "(string \<times> string) db"
  vw_next :: nat

definition SHARES_SCOPE :: string where
  "SHARES_SCOPE = svc_scope ''vfs'' [''shares'']"

definition SHARE_KEYS_SCOPE :: string where
  "SHARE_KEYS_SCOPE = svc_scope ''vfs'' [''share-keys'']"

definition SHARE_KEYS_WORKSPACE :: string where
  "SHARE_KEYS_WORKSPACE = ''_system''"

definition on_shares :: "(vfs_share db, 'a) prog \<Rightarrow> (share_world, 'a) prog" where
  "on_shares = zoom vw_shares (\<lambda>d w. w\<lparr>vw_shares := d\<rparr>)"

definition on_keys :: "((string \<times> string) db, 'a) prog \<Rightarrow> (share_world, 'a) prog" where
  "on_keys = zoom vw_keys (\<lambda>d w. w\<lparr>vw_keys := d\<rparr>)"

section \<open>Checks\<close>

definition hmac_matches :: "share_env \<Rightarrow> string \<Rightarrow> string \<Rightarrow> bool" where
  "hmac_matches env presented stored \<longleftrightarrow> se_hmac env presented = stored"

definition normalize_share_path :: "string \<Rightarrow> svc_error + string" where
  "normalize_share_path path =
     (case normalize_fs_path path of
        None \<Rightarrow> Inl (ServiceError ''path must be a workspace path'' 400)
      | Some p \<Rightarrow> Inr p)"

definition parse_expires_at :: "share_env \<Rightarrow> string \<Rightarrow> svc_error + int" where
  "parse_expires_at env v =
     (case se_date env v of
        None \<Rightarrow> Inl (ServiceError ''expiresAt must be an ISO-8601 timestamp'' 400)
      | Some t \<Rightarrow> Inr t)"

definition is_share_active :: "share_env \<Rightarrow> int \<Rightarrow> vfs_share \<Rightarrow> svc_error + bool" where
  "is_share_active env now s =
     (if truthy (vs_revoked s) then Inr False
      else (case parse_expires_at env (vs_expires s) of Inl e \<Rightarrow> Inl e | Inr t \<Rightarrow> Inr (t > now)))"

definition path_covered_by_share :: "string \<Rightarrow> string \<Rightarrow> bool" where
  "path_covered_by_share sharePath path \<longleftrightarrow> path = sharePath \<or> starts_with path (sharePath @ ''/'')"

section \<open>Operations\<close>

definition write_share :: "string \<Rightarrow> vfs_share \<Rightarrow> (share_world, unit) prog" where
  "write_share ws s w = on_shares (write_svc_record (vw_now w) ws SHARES_SCOPE (vs_id s) s (vs_created_by s)) w"

definition read_share :: "string \<Rightarrow> string \<Rightarrow> (share_world, vfs_share option) prog" where
  "read_share ws shareId w = (read_svc_record (vw_now w) (vw_shares w) ws SHARES_SCOPE shareId, w)"

text \<open>\<^verbatim>\<open>mintShareId\<close> and \<^verbatim>\<open>mintLinkKey\<close> draw from one source of fresh numbers.\<close>

definition mint :: "(nat \<Rightarrow> string) \<Rightarrow> (share_world, string) prog" where
  "mint f w = (Inr (f (vw_next w)), w\<lparr>vw_next := Suc (vw_next w)\<rparr>)"

definition create_person_share :: "share_env \<Rightarrow> string \<Rightarrow> string \<Rightarrow> string \<Rightarrow> string \<Rightarrow> string \<Rightarrow> (share_world, vfs_share) prog" where
  "create_person_share env ws path grantee expiresAt createdBy =
     (if js_trim grantee = [] then throw (ServiceError ''grantee is required'' 400)
      else bindM (liftE (parse_expires_at env expiresAt)) (\<lambda>_.
           bindM (mint (se_share_id env)) (\<lambda>i.
           bindM (liftE (normalize_share_path path)) (\<lambda>p.
           bindM (gets (\<lambda>w. iso_of (vw_now w))) (\<lambda>now.
           let s = \<lparr>vs_id = i, vs_path = p, vs_kind = PersonShare, vs_grantee = Some grantee, vs_hmac = None,
                    vs_expires = expiresAt, vs_created_by = createdBy, vs_created = now, vs_revoked = None\<rparr>
           in thenM (write_share ws s) (ret s))))))"

definition create_link_share :: "share_env \<Rightarrow> string \<Rightarrow> string \<Rightarrow> string \<Rightarrow> string \<Rightarrow> (share_world, vfs_share \<times> string) prog" where
  "create_link_share env ws path expiresAt createdBy =
     bindM (liftE (parse_expires_at env expiresAt)) (\<lambda>_.
     bindM (mint (se_link_key env)) (\<lambda>key.
     bindM (mint (se_share_id env)) (\<lambda>i.
     bindM (liftE (normalize_share_path path)) (\<lambda>p.
     bindM (gets (\<lambda>w. iso_of (vw_now w))) (\<lambda>now.
     let h = se_hmac env key;
         s = \<lparr>vs_id = i, vs_path = p, vs_kind = LinkShare, vs_grantee = None, vs_hmac = Some h,
              vs_expires = expiresAt, vs_created_by = createdBy, vs_created = now, vs_revoked = None\<rparr>
     in thenM (write_share ws s)
          (thenM (\<lambda>w. on_keys (write_svc_record (vw_now w) SHARE_KEYS_WORKSPACE SHARE_KEYS_SCOPE h (ws, i) createdBy) w)
            (ret (s, key))))))))"

definition share_key_index :: "share_env \<Rightarrow> string \<Rightarrow> (share_world, (string \<times> string) option) prog" where
  "share_key_index env key =
     catchM (\<lambda>w. (read_svc_record (vw_now w) (vw_keys w) SHARE_KEYS_WORKSPACE SHARE_KEYS_SCOPE (se_hmac env key), w))
       (\<lambda>_. ret None)"

definition resolve_link_share :: "share_env \<Rightarrow> string \<Rightarrow> (share_world, (string \<times> vfs_share) option) prog" where
  "resolve_link_share env key =
     (if key = [] then ret None
      else bindM (share_key_index env key) (\<lambda>idx. case idx of
        None \<Rightarrow> ret None
      | Some (ws, shareId) \<Rightarrow>
          if ws = [] \<or> shareId = [] then ret None
          else bindM (read_share ws shareId) (\<lambda>r. case r of
            None \<Rightarrow> ret None
          | Some s \<Rightarrow>
              if vs_kind s \<noteq> LinkShare \<or> \<not> truthy (vs_hmac s) then ret None
              else if \<not> hmac_matches env key (the (vs_hmac s)) then ret None
              else bindM (\<lambda>w. (is_share_active env (vw_now w) s, w)) (\<lambda>active.
                   ret (if active then Some (ws, s) else None)))))"

definition revoke_share :: "string \<Rightarrow> string \<Rightarrow> (share_world, vfs_share) prog" where
  "revoke_share ws shareId =
     bindM (read_share ws shareId) (\<lambda>r. case r of
       None \<Rightarrow> throw (ServiceError (''Not found: share '' @ shareId) 404)
     | Some s \<Rightarrow>
         if truthy (vs_revoked s) then ret s
         else bindM (gets (\<lambda>w. iso_of (vw_now w))) (\<lambda>now.
              let s' = s\<lparr>vs_revoked := Some now\<rparr>
              in thenM (write_share ws s')
                   (thenM (if vs_kind s = LinkShare \<and> truthy (vs_hmac s)
                           then bindM (on_keys (delete_svc_record SHARE_KEYS_WORKSPACE SHARE_KEYS_SCOPE (the (vs_hmac s)))) (\<lambda>_. ret ())
                           else ret ())
                     (ret s'))))"

definition share_docs :: "string \<Rightarrow> (share_world, vfs_share list) prog" where
  "share_docs ws w = (map_sum id (map snd) (list_svc_records (vw_now w) (vw_shares w) ws SHARES_SCOPE []), w)"

definition list_shares_created_by :: "share_env \<Rightarrow> string \<Rightarrow> string \<Rightarrow> (share_world, vfs_share list) prog" where
  "list_shares_created_by env ws createdBy =
     bindM (share_docs ws) (\<lambda>ss.
     ret (js_sort (\<lambda>a b. se_collate env (vs_created b) (vs_created a)) (filter (\<lambda>s. vs_created_by s = createdBy) ss)))"

text \<open>\<^verbatim>\<open>filter\<close> and \<^verbatim>\<open>some\<close> with a predicate that may throw.\<close>

fun filter_shares :: "(vfs_share \<Rightarrow> svc_error + bool) \<Rightarrow> vfs_share list \<Rightarrow> svc_error + vfs_share list" where
  "filter_shares P [] = Inr []"
| "filter_shares P (s # ss) =
     (case P s of Inl e \<Rightarrow> Inl e
      | Inr b \<Rightarrow> (case filter_shares P ss of Inl e \<Rightarrow> Inl e | Inr r \<Rightarrow> Inr (if b then s # r else r)))"

fun some_share :: "(vfs_share \<Rightarrow> svc_error + bool) \<Rightarrow> vfs_share list \<Rightarrow> svc_error + bool" where
  "some_share P [] = Inr False"
| "some_share P (s # ss) = (case P s of Inl e \<Rightarrow> Inl e | Inr b \<Rightarrow> if b then Inr True else some_share P ss)"

definition received_share :: "share_env \<Rightarrow> int \<Rightarrow> string \<Rightarrow> vfs_share \<Rightarrow> svc_error + bool" where
  "received_share env now grantee s =
     (if vs_kind s = PersonShare \<and> vs_grantee s = Some grantee then is_share_active env now s else Inr False)"

definition list_shares_received_by :: "share_env \<Rightarrow> string \<Rightarrow> string \<Rightarrow> (share_world, vfs_share list) prog" where
  "list_shares_received_by env ws grantee =
     bindM (share_docs ws) (\<lambda>ss.
     bindM (\<lambda>w. (filter_shares (received_share env (vw_now w) grantee) ss, w)) (\<lambda>r.
     ret (js_sort (\<lambda>a b. se_collate env (vs_created b) (vs_created a)) r)))"

definition covering_share :: "share_env \<Rightarrow> int \<Rightarrow> string \<Rightarrow> string \<Rightarrow> vfs_share \<Rightarrow> svc_error + bool" where
  "covering_share env now grantee path s =
     (case received_share env now grantee s of
        Inl e \<Rightarrow> Inl e
      | Inr b \<Rightarrow> Inr (b \<and> path_covered_by_share (vs_path s) path))"

definition person_share_allows_read :: "share_env \<Rightarrow> string \<Rightarrow> string \<Rightarrow> string \<Rightarrow> (share_world, bool) prog" where
  "person_share_allows_read env ws grantee path =
     (case normalize_fs_path path of
        None \<Rightarrow> ret False
      | Some p \<Rightarrow> bindM (share_docs ws) (\<lambda>ss w. (some_share (covering_share env (vw_now w) grantee p) ss, w)))"

section \<open>The operations of the native interface\<close>

datatype share_reply = OneShare vfs_share | MintedLink string string vfs_share | ShareList "vfs_share list"

definition json_text :: "json \<Rightarrow> string" where
  "json_text v = (case v of JStr s \<Rightarrow> s | _ \<Rightarrow> [])"

definition dispatch_vfs_share_op :: "share_env \<Rightarrow> string \<Rightarrow> string \<Rightarrow> string \<Rightarrow> json \<Rightarrow> (share_world, share_reply) prog" where
  "dispatch_vfs_share_op env ws user operation args =
     (if operation = ''share'' then
        (let path = json_text (jprop args ''path''); expiresAt = json_text (jprop args ''expiresAt'');
             person = json_text (jprop args ''person''); link = (jprop args ''link'' = JBool True)
         in if path = [] then throw (ServiceError ''path is required'' 400)
            else if expiresAt = [] then throw (ServiceError ''expiresAt is required'' 400)
            else if person \<noteq> [] \<and> link then throw (ServiceError ''provide person or link, not both'' 400)
            else if person = [] \<and> \<not> link then throw (ServiceError ''provide person (sub) or link:true'' 400)
            else if person \<noteq> [] then bindM (create_person_share env ws path person expiresAt user) (\<lambda>s. ret (OneShare s))
            else bindM (create_link_share env ws path expiresAt user) (\<lambda>(s, key). ret (MintedLink (vs_id s) key s)))
      else if operation = ''shares.list'' then
        bindM (list_shares_created_by env ws user) (\<lambda>ss. ret (ShareList ss))
      else if operation = ''shares.received'' then
        bindM (list_shares_received_by env ws user) (\<lambda>ss. ret (ShareList ss))
      else if operation = ''shares.revoke'' then
        (let shareId = json_text (jprop args ''shareId'')
         in if shareId = [] then throw (ServiceError ''shareId is required'' 400)
            else bindM (revoke_share ws shareId) (\<lambda>s. ret (OneShare s)))
      else throw (ServiceError (''Unknown vfs operation: '' @ operation) 404))"

section \<open>The anonymous route\<close>

definition resolve_target_path :: "string \<Rightarrow> string option \<Rightarrow> string option" where
  "resolve_target_path sharePath subpath =
     (if \<not> truthy subpath then Some sharePath
      else (case normalize_fs_path (sharePath @ ''/'' @ the subpath) of
              None \<Rightarrow> None
            | Some joined \<Rightarrow> if path_covered_by_share sharePath joined then Some joined else None))"

text \<open>\<^verbatim>\<open>None\<close> is the 404 answer; the file store's read is an argument.\<close>

definition serve_share ::
  "share_env \<Rightarrow> (string \<Rightarrow> string \<Rightarrow> fs_file option) \<Rightarrow> string \<Rightarrow> string option \<Rightarrow> (share_world, fs_file option) prog" where
  "serve_share env read key subpath =
     bindM (resolve_link_share env key) (\<lambda>r. ret (case r of
       None \<Rightarrow> None
     | Some (ws, s) \<Rightarrow> (case resolve_target_path (vs_path s) subpath of None \<Rightarrow> None | Some target \<Rightarrow> read ws target)))"

end
