(* ===== verification/Vfs_Access.thy ===== *)
theory Vfs_Access
  imports Vfs_Shares Instances
begin

text \<open>
  The partition guard of the file plane: the classification of paths and the asynchronous
  choke point in \<^verbatim>\<open>server/workspace/src/apps/store.ts\<close>, over the shared instances and the
  person shares, and the guards of the HTTP routes in \<^verbatim>\<open>routes/fs.ts\<close>.
\<close>

definition APP_DATA_ROOT :: string where
  "APP_DATA_ROOT = ''.apps''"

definition USER_SPACE_ROOT :: string where
  "USER_SPACE_ROOT = ''.users''"

definition STRUCTURAL_HIDDEN_ROOTS :: "string list" where
  "STRUCTURAL_HIDDEN_ROOTS = [APP_DATA_ROOT, USER_SPACE_ROOT]"

definition app_data_root :: "string \<Rightarrow> string" where
  "app_data_root i = APP_DATA_ROOT @ ''/'' @ i @ ''/data''"

definition app_data_dir :: "string \<Rightarrow> string \<Rightarrow> string" where
  "app_data_dir i sub = app_data_root i @ ''/'' @ sub"

definition user_space_dir :: "string \<Rightarrow> string" where
  "user_space_dir sub = USER_SPACE_ROOT @ ''/'' @ sub"

definition under_prefix :: "string \<Rightarrow> string \<Rightarrow> bool" where
  "under_prefix path pre \<longleftrightarrow> path = pre \<or> starts_with path (pre @ ''/'')"

definition is_hidden_data_path :: "string \<Rightarrow> string list \<Rightarrow> bool" where
  "is_hidden_data_path path roots \<longleftrightarrow> (\<exists>p \<in> set roots. under_prefix path p)"

datatype partition_class = Open | Own | Foreign | Shared

definition parse_shared_partition :: "string \<Rightarrow> (string \<times> string) option" where
  "parse_shared_partition path =
     (if \<not> under_prefix path APP_DATA_ROOT then None
      else (case split_on CHR ''/'' (drop (length APP_DATA_ROOT + 1) path) of
              i # discriminator # inst # r \<Rightarrow>
                if i = [] \<or> discriminator \<noteq> ''shared'' \<or> inst = [] then None else Some (i, inst)
            | _ \<Rightarrow> None))"

definition partition_access :: "string \<Rightarrow> string \<Rightarrow> partition_class" where
  "partition_access path sub =
     (if under_prefix path APP_DATA_ROOT then
        (if path = APP_DATA_ROOT then Open
         else if parse_shared_partition path \<noteq> None then Shared
         else (case split_on CHR ''/'' (drop (length APP_DATA_ROOT + 1) path) of
                 i # d # owner # r \<Rightarrow> if d \<noteq> ''data'' then Open else if owner = sub then Own else Foreign
               | _ \<Rightarrow> Open))
      else if under_prefix path USER_SPACE_ROOT then
        (if path = USER_SPACE_ROOT then Open
         else (let owner = hd (split_on CHR ''/'' (drop (length USER_SPACE_ROOT + 1) path))
               in if owner = sub then Own else Foreign))
      else Open)"

record access_world =
  xw_shares :: share_world
  xw_instances :: "app_instance db"

definition assert_partition_access ::
  "share_env \<Rightarrow> 'f inst_env \<Rightarrow> string \<Rightarrow> string \<Rightarrow> string \<Rightarrow> (access_world, unit) prog" where
  "assert_partition_access senv ienv ws sub path =
     (case partition_access path sub of
        Shared \<Rightarrow>
          (case parse_shared_partition path of
             Some (i, inst) \<Rightarrow> (\<lambda>w.
               thenM (zoom xw_instances (\<lambda>d w. w\<lparr>xw_instances := d\<rparr>)
                       (assert_instance_access ienv (vw_now (xw_shares w)) ws i inst sub)) (ret ()) w)
           | None \<Rightarrow> ret ())
      | Foreign \<Rightarrow>
          bindM (zoom xw_shares (\<lambda>d w. w\<lparr>xw_shares := d\<rparr>) (person_share_allows_read senv ws sub path)) (\<lambda>ok.
          if ok then ret () else throw (ServiceError (''Not found: '' @ path) 404))
      | _ \<Rightarrow> ret ())"

text \<open>The paths an application may touch, and those it may serve over HTTP.\<close>

record app_paths =
  ap_id :: string
  ap_root :: "string option"
  ap_paths :: "string list option"

text \<open>\<^verbatim>\<open>app.root ?? app.paths?.[0]\<close>.\<close>

definition app_paths_root :: "app_paths \<Rightarrow> string option" where
  "app_paths_root app =
     (case ap_root app of Some r \<Rightarrow> Some r
      | None \<Rightarrow> (case ap_paths app of Some (p # ps) \<Rightarrow> Some p | _ \<Rightarrow> None))"

definition app_path_allowed :: "app_paths \<Rightarrow> string \<Rightarrow> bool" where
  "app_path_allowed app path \<longleftrightarrow>
     (case app_paths_root app of None \<Rightarrow> False | Some r \<Rightarrow> r \<noteq> [] \<and> under_prefix path r)"

definition app_path_servable :: "app_paths \<Rightarrow> string \<Rightarrow> bool" where
  "app_path_servable app path \<longleftrightarrow>
     app_path_allowed app path \<and> \<not> under_prefix path (APP_DATA_ROOT @ ''/'' @ ap_id app)"

section \<open>The HTTP routes\<close>

text \<open>The status of the refusal, when there is one.\<close>

definition foreign_partition_response :: "string \<Rightarrow> string \<Rightarrow> nat option" where
  "foreign_partition_response sub path = (if partition_access path sub = Foreign then Some 404 else None)"

definition filter_listed_entries :: "fs_entry list \<Rightarrow> string \<Rightarrow> fs_entry list" where
  "filter_listed_entries entries sub =
     filter (\<lambda>e. \<not> is_service_path (fe_path e) \<and> partition_access (fe_path e) sub \<noteq> Foreign) entries"

end
