(* ===== verification/Vfs_Properties.thy ===== *)
theory Vfs_Properties
  imports Vfs_Access
begin

text \<open>
  What shares and the partition guard promise: a link works exactly until it expires or is
  revoked and never leads outside its path, and the guard of the file plane admits exactly the
  owner, the participants of a shared instance and the holders of an active share.
\<close>

section \<open>The stores\<close>

definition shares_ok :: "share_world \<Rightarrow> bool" where
  "shares_ok w \<longleftrightarrow> doc_ok (vw_shares w) \<and> doc_ok (vw_keys w) \<and>
     (\<forall>v. storable (vw_shares w) v) \<and> (\<forall>v. storable (vw_keys w) v)"

lemma shares_okD: "shares_ok w \<Longrightarrow> doc_ok (vw_shares w)" "shares_ok w \<Longrightarrow> doc_ok (vw_keys w)"
  "shares_ok w \<Longrightarrow> storable (vw_shares w) v" "shares_ok w \<Longrightarrow> storable (vw_keys w) x"
  unfolding shares_ok_def by blast+

lemma shares_ok_time [simp]: "shares_ok (w\<lparr>vw_now := t\<rparr>) = shares_ok w" "shares_ok (w\<lparr>vw_next := n\<rparr>) = shares_ok w"
  by (simp_all add: shares_ok_def)

lemma share_scopes: "CHR ''/'' \<notin> set SHARES_SCOPE" "CHR ''/'' \<notin> set SHARE_KEYS_SCOPE" "CHR ''/'' \<notin> set SHARE_KEYS_WORKSPACE"
  by (simp_all add: SHARES_SCOPE_def SHARE_KEYS_SCOPE_def SHARE_KEYS_WORKSPACE_def svc_scope_def SVC_SCOPE_PREFIX_def)

definition share_at :: "share_world \<Rightarrow> string \<Rightarrow> string \<Rightarrow> vfs_share option" where
  "share_at w ws i = doc_at (vw_shares w) ws SHARES_SCOPE i"

definition key_at :: "share_world \<Rightarrow> string \<Rightarrow> (string \<times> string) option" where
  "key_at w h = doc_at (vw_keys w) SHARE_KEYS_WORKSPACE SHARE_KEYS_SCOPE h"

lemma share_at_time [simp]: "share_at (w\<lparr>vw_now := t\<rparr>) = share_at w" "key_at (w\<lparr>vw_now := t\<rparr>) = key_at w"
  "share_at (w\<lparr>vw_next := n\<rparr>) = share_at w" "key_at (w\<lparr>vw_next := n\<rparr>) = key_at w"
  by (simp_all add: share_at_def key_at_def fun_eq_iff)

lemma read_share_at: "shares_ok w \<Longrightarrow> read_share ws i w = (Inr (share_at w ws i), w)"
  by (simp add: read_share_def share_at_def read_doc shares_okD)

lemma share_key_at: "shares_ok w \<Longrightarrow> share_key_index env key w = (Inr (key_at w (se_hmac env key)), w)"
  by (simp add: share_key_index_def catchM_run key_at_def read_doc shares_okD)

lemma write_share_run:
  assumes ok: "shares_ok w" and ws: "ws_ok (vw_shares w) ws"
  obtains w' where "write_share ws s w = (Inr (), w')" "shares_ok w'" "vw_now w' = vw_now w" "vw_next w' = vw_next w"
    "\<And>ws' i. share_at w' ws' i = (if ws' = ws \<and> i = vs_id s then Some s else share_at w ws' i)"
    "key_at w' = key_at w" "ws_ok (vw_shares w') = ws_ok (vw_shares w)" "vw_keys w' = vw_keys w"
proof (rule write_doc_cases [OF shares_okD(1) [OF ok] addr_ok_ws [OF ws share_scopes(1)], where k = "vs_id s" and now = "vw_now w" and v = s and u = "vs_created_by s"])
  fix d
  assume w: "write_svc_record (vw_now w) ws SHARES_SCOPE (vs_id s) s (vs_created_by s) (vw_shares w) = (Inr (), d)"
    and d: "doc_ok d" "\<And>ws' s' k'. doc_at d ws' s' k' =
      (if ws' = ws \<and> s' = SHARES_SCOPE \<and> k' = vs_id s then Some s else doc_at (vw_shares w) ws' s' k')"
    "addr_ok d = addr_ok (vw_shares w)" "storable d = storable (vw_shares w)"
  show thesis
  proof (rule that [of "w\<lparr>vw_shares := d\<rparr>"])
    show "write_share ws s w = (Inr (), w\<lparr>vw_shares := d\<rparr>)" by (simp add: write_share_def on_shares_def zoom_run w)
    show "shares_ok (w\<lparr>vw_shares := d\<rparr>)" using ok d by (simp add: shares_ok_def)
    show "ws_ok (vw_shares (w\<lparr>vw_shares := d\<rparr>)) = ws_ok (vw_shares w)" using d(3) by (simp add: fun_eq_iff ws_ok_addr)
  qed (simp_all add: share_at_def key_at_def d fun_eq_iff)
qed (use shares_okD(3) [OF ok] in simp)

lemma write_key_run:
  assumes ok: "shares_ok w"
  obtains w' where "on_keys (write_svc_record (vw_now w) SHARE_KEYS_WORKSPACE SHARE_KEYS_SCOPE h x u) w = (Inr (), w')"
    "shares_ok w'" "vw_now w' = vw_now w" "share_at w' = share_at w" "ws_ok (vw_shares w') = ws_ok (vw_shares w)"
    "\<And>h'. key_at w' h' = (if h' = h then Some x else key_at w h')"
proof (rule write_doc_cases [OF shares_okD(2) [OF ok] addr_ok_ws [OF _ share_scopes(2)], where ws = SHARE_KEYS_WORKSPACE and k = h and now = "vw_now w" and v = x and u = u])
  show "ws_ok (vw_keys w) SHARE_KEYS_WORKSPACE" using share_scopes(3) by (simp add: ws_ok_def)
  fix d
  assume w: "write_svc_record (vw_now w) SHARE_KEYS_WORKSPACE SHARE_KEYS_SCOPE h x u (vw_keys w) = (Inr (), d)"
    and d: "doc_ok d" "\<And>ws' s' k'. doc_at d ws' s' k' =
      (if ws' = SHARE_KEYS_WORKSPACE \<and> s' = SHARE_KEYS_SCOPE \<and> k' = h then Some x else doc_at (vw_keys w) ws' s' k')"
    "storable d = storable (vw_keys w)"
  show thesis
  proof (rule that [of "w\<lparr>vw_keys := d\<rparr>"])
    show "on_keys (write_svc_record (vw_now w) SHARE_KEYS_WORKSPACE SHARE_KEYS_SCOPE h x u) w = (Inr (), w\<lparr>vw_keys := d\<rparr>)"
      by (simp add: on_keys_def zoom_run w)
    show "shares_ok (w\<lparr>vw_keys := d\<rparr>)" using ok d by (simp add: shares_ok_def)
  qed (simp_all add: share_at_def key_at_def d fun_eq_iff)
qed (use shares_okD(4) [OF ok] in simp)

lemma delete_key_run:
  assumes ok: "shares_ok w"
  obtains w' b where "on_keys (delete_svc_record SHARE_KEYS_WORKSPACE SHARE_KEYS_SCOPE h) w = (Inr b, w')"
    "shares_ok w'" "share_at w' = share_at w" "\<And>h'. key_at w' h' = (if h' = h then None else key_at w h')"
proof -
  obtain r d where r: "delete_svc_record SHARE_KEYS_WORKSPACE SHARE_KEYS_SCOPE h (vw_keys w) = (r, d)"
    by (cases "delete_svc_record SHARE_KEYS_WORKSPACE SHARE_KEYS_SCOPE h (vw_keys w)")
  have ws: "ws_ok (vw_keys w) SHARE_KEYS_WORKSPACE" using share_scopes(3) by (simp add: ws_ok_def)
  note d = delete_doc [OF shares_okD(2) [OF ok] addr_ok_ws [OF ws share_scopes(2)] r]
  show thesis
  proof (rule that [of "doc_at (vw_keys w) SHARE_KEYS_WORKSPACE SHARE_KEYS_SCOPE h \<noteq> None" "w\<lparr>vw_keys := d\<rparr>"])
    show "on_keys (delete_svc_record SHARE_KEYS_WORKSPACE SHARE_KEYS_SCOPE h) w =
        (Inr (doc_at (vw_keys w) SHARE_KEYS_WORKSPACE SHARE_KEYS_SCOPE h \<noteq> None), w\<lparr>vw_keys := d\<rparr>)"
      using d(5) by (simp add: on_keys_def zoom_run r)
    show "shares_ok (w\<lparr>vw_keys := d\<rparr>)" using ok d by (simp add: shares_ok_def)
  qed (simp_all add: share_at_def key_at_def d fun_eq_iff)
qed

section \<open>Links\<close>

lemma create_link_run:
  assumes ok: "shares_ok w" and ws: "ws_ok (vw_shares w) ws"
    and c: "create_link_share env ws path expiresAt user w = (Inr (s, key), w')"
  shows "shares_ok w' \<and> ws_ok (vw_shares w') ws \<and> share_at w' ws (vs_id s) = Some s \<and>
    key_at w' (se_hmac env key) = Some (ws, vs_id s) \<and> vs_kind s = LinkShare \<and> vs_hmac s = Some (se_hmac env key) \<and>
    vs_expires s = expiresAt \<and> vs_revoked s = None \<and> normalize_fs_path path = Some (vs_path s)"
proof -
  obtain e where e: "parse_expires_at env expiresAt = Inr e"
    using c by (cases "parse_expires_at env expiresAt") (auto simp: create_link_share_def bindM_run)
  obtain p where p: "normalize_share_path path = Inr p"
    using c by (cases "normalize_share_path path") (auto simp: create_link_share_def bindM_run e mint_def)
  let ?w2 = "w\<lparr>vw_next := Suc (Suc (vw_next w))\<rparr>"
  let ?key = "se_link_key env (vw_next w)"
  let ?s = "\<lparr>vs_id = se_share_id env (Suc (vw_next w)), vs_path = p, vs_kind = LinkShare, vs_grantee = None,
    vs_hmac = Some (se_hmac env ?key), vs_expires = expiresAt, vs_created_by = user, vs_created = iso_of (vw_now w), vs_revoked = None\<rparr>"
  have ok2: "shares_ok ?w2" and ws2: "ws_ok (vw_shares ?w2) ws" using ok ws by simp_all
  obtain w3 where w3: "write_share ws ?s ?w2 = (Inr (), w3)" "shares_ok w3" "vw_now w3 = vw_now ?w2"
    "\<And>ws' i. share_at w3 ws' i = (if ws' = ws \<and> i = vs_id ?s then Some ?s else share_at ?w2 ws' i)"
    "ws_ok (vw_shares w3) = ws_ok (vw_shares ?w2)"
    by (rule write_share_run [OF ok2 ws2, of ?s]) blast
  obtain w4 where w4: "on_keys (write_svc_record (vw_now w3) SHARE_KEYS_WORKSPACE SHARE_KEYS_SCOPE (se_hmac env ?key) (ws, vs_id ?s) user) w3 = (Inr (), w4)"
    "shares_ok w4" "share_at w4 = share_at w3" "ws_ok (vw_shares w4) = ws_ok (vw_shares w3)"
    "\<And>h'. key_at w4 h' = (if h' = se_hmac env ?key then Some (ws, vs_id ?s) else key_at w3 h')"
    by (rule write_key_run [OF w3(2)]) blast
  have run: "create_link_share env ws path expiresAt user w = (Inr (?s, ?key), w4)"
    using w3(1) w4(1) by (simp add: create_link_share_def bindM_run thenM_run e p mint_def Let_def)
  have "s = ?s" "key = ?key" "w' = w4"
    using trans [OF c [symmetric] run] unfolding prod.inject sum.inject by blast+
  moreover have "normalize_fs_path path = Some p" using p by (auto simp: normalize_share_path_def split: option.splits)
  ultimately show ?thesis using w3 w4 ws by simp
qed

lemma revoke_run:
  assumes ok: "shares_ok w" and ws: "ws_ok (vw_shares w) ws" and s: "share_at w ws i = Some s" "vs_id s = i"
    "vs_kind s = LinkShare" "vs_hmac s = Some h" "h \<noteq> []" "vs_revoked s = None"
  obtains w' s' where "revoke_share ws i w = (Inr s', w')" "shares_ok w'" "key_at w' h = None"
proof -
  let ?s = "s\<lparr>vs_revoked := Some (iso_of (vw_now w))\<rparr>"
  obtain w3 where w3: "write_share ws ?s w = (Inr (), w3)" "shares_ok w3" by (rule write_share_run [OF ok ws, of ?s]) blast
  obtain w4 b where w4: "on_keys (delete_svc_record SHARE_KEYS_WORKSPACE SHARE_KEYS_SCOPE h) w3 = (Inr b, w4)"
    "shares_ok w4" "\<And>h'. key_at w4 h' = (if h' = h then None else key_at w3 h')"
    by (rule delete_key_run [OF w3(2)]) blast
  have "revoke_share ws i w = (Inr ?s, w4)"
    using w3 w4 s by (simp add: revoke_share_def bindM_run thenM_run read_share_at [OF ok] truthy_def Let_def)
  then show thesis by (rule that [OF _ w4(2)]) (simp add: w4(3))
qed

lemma link_resolves:
  assumes ok: "shares_ok w" and ws: "ws_ok (vw_shares w) ws" "ws \<noteq> []"
    and c: "create_link_share env ws path expiresAt user w = (Inr (s, key), w')"
    and ne: "key \<noteq> []" "vs_id s \<noteq> []" "se_hmac env key \<noteq> []" and e: "se_date env expiresAt = Some e"
  shows "fst (resolve_link_share env key (w'\<lparr>vw_now := t\<rparr>)) = Inr (if t < e then Some (ws, s) else None)"
proof -
  note m = create_link_run [OF ok ws(1) c]
  have ok': "shares_ok (w'\<lparr>vw_now := t\<rparr>)" using m by simp
  show ?thesis
    using m ne ws(2) e
    by (simp add: resolve_link_share_def bindM_run share_key_at [OF ok'] read_share_at [OF ok'] truthy_def hmac_matches_def
        is_share_active_def parse_expires_at_def)
qed

text \<open>
  C18: a minted link resolves to its workspace and share exactly while its expiry is ahead, at
  whatever time it is presented; once it is revoked it never resolves again.
\<close>

theorem link_share_lifecycle:
  assumes ok: "shares_ok w" and ws: "ws_ok (vw_shares w) ws" "ws \<noteq> []"
    and c: "create_link_share env ws path expiresAt user w = (Inr (s, key), w')"
    and ne: "key \<noteq> []" "vs_id s \<noteq> []" "se_hmac env key \<noteq> []" and e: "se_date env expiresAt = Some e"
  shows "fst (resolve_link_share env key (w'\<lparr>vw_now := t\<rparr>)) = Inr (if t < e then Some (ws, s) else None) \<and>
    (\<exists>s' w''. revoke_share ws (vs_id s) (w'\<lparr>vw_now := t\<rparr>) = (Inr s', w'') \<and>
      fst (resolve_link_share env key (w''\<lparr>vw_now := t'\<rparr>)) = Inr None)"
proof
  note m = create_link_run [OF ok ws(1) c]
  have ok': "shares_ok (w'\<lparr>vw_now := t\<rparr>)" using m by simp
  show "fst (resolve_link_share env key (w'\<lparr>vw_now := t\<rparr>)) = Inr (if t < e then Some (ws, s) else None)"
    by (rule link_resolves [OF ok ws c ne e])
  have ws': "ws_ok (vw_shares (w'\<lparr>vw_now := t\<rparr>)) ws" using m by simp
  obtain w'' s' where r: "revoke_share ws (vs_id s) (w'\<lparr>vw_now := t\<rparr>) = (Inr s', w'')" "shares_ok w''" "key_at w'' (se_hmac env key) = None"
    by (rule revoke_run [OF ok' ws', of "vs_id s" s "se_hmac env key"]) (use m ne in simp_all)
  have "shares_ok (w''\<lparr>vw_now := t'\<rparr>)" using r(2) by simp
  then have "fst (resolve_link_share env key (w''\<lparr>vw_now := t'\<rparr>)) = Inr None"
    using ne r(3) by (simp add: resolve_link_share_def bindM_run share_key_at)
  with r(1) show "\<exists>s' w''. revoke_share ws (vs_id s) (w'\<lparr>vw_now := t\<rparr>) = (Inr s', w'') \<and>
      fst (resolve_link_share env key (w''\<lparr>vw_now := t'\<rparr>)) = Inr None" by blast
qed

text \<open>A world with no shares yet, and the platform around it.\<close>

definition demo_share :: vfs_share where
  "demo_share = \<lparr>vs_id = ''s'', vs_path = ''p'', vs_kind = LinkShare, vs_grantee = None, vs_hmac = None, vs_expires = [],
     vs_created_by = ''u'', vs_created = [], vs_revoked = None\<rparr>"

definition bare_shares :: share_world where
  "bare_shares = \<lparr>vw_now = 5, vw_shares = doc_db demo_share [], vw_keys = doc_db ([], []) [], vw_next = 0\<rparr>"

definition demo_platform :: share_env where
  "demo_platform = \<lparr>se_hmac = (\<lambda>k. ''mac'' @ k), se_share_id = (\<lambda>n. ''s'' @ show_nat n), se_link_key = (\<lambda>n. ''k'' @ show_nat n),
     se_date = (\<lambda>v. if v = ''late'' then Some 100 else None), se_collate = (\<lambda>a b. 0)\<rparr>"

lemma bare_shares_ok: "shares_ok bare_shares" "ws_ok (vw_shares bare_shares) ''w''"
proof -
  have "doc_ok (doc_db demo_share [])" by (rule doc_db_ok) simp
  moreover have "doc_ok (doc_db ([] :: string, [] :: string) [])" by (rule doc_db_ok) simp
  ultimately show "shares_ok bare_shares" by (simp add: shares_ok_def bare_shares_def)
  show "ws_ok (vw_shares bare_shares) ''w''" by (simp add: ws_ok_def bare_shares_def doc_db_def)
qed

lemma demo_link: "\<exists>s key w'. create_link_share demo_platform ''w'' ''notes/a.md'' ''late'' ''u'' bare_shares = (Inr (s, key), w') \<and>
    key \<noteq> [] \<and> vs_id s \<noteq> []"
proof -
  let ?s = "\<lparr>vs_id = ''s1'', vs_path = ''notes/a.md'', vs_kind = LinkShare, vs_grantee = None,
    vs_hmac = Some ''mack0'', vs_expires = ''late'', vs_created_by = ''u'', vs_created = iso_of 5, vs_revoked = None\<rparr>"
  let ?w = "bare_shares\<lparr>vw_next := 2\<rparr>"
  have ok: "shares_ok ?w" "ws_ok (vw_shares ?w) ''w''" using bare_shares_ok by simp_all
  obtain w3 where w3: "write_share ''w'' ?s ?w = (Inr (), w3)" "shares_ok w3" "vw_now w3 = vw_now ?w"
    by (rule write_share_run [OF ok, of ?s]) blast
  obtain w4 where w4: "on_keys (write_svc_record (vw_now w3) SHARE_KEYS_WORKSPACE SHARE_KEYS_SCOPE ''mack0'' (''w'', ''s1'') ''u'') w3 = (Inr (), w4)"
    by (rule write_key_run [OF w3(2)]) blast
  have n: "normalize_fs_path ''notes/a.md'' = Some ''notes/a.md''" by code_simp
  have sh: "show_nat 0 = ''0''" "show_nat (Suc 0) = ''1''" by code_simp+
  have "create_link_share demo_platform ''w'' ''notes/a.md'' ''late'' ''u'' bare_shares = (Inr (?s, ''k0''), w4)"
    using w3 w4 by (simp add: create_link_share_def bindM_run thenM_run mint_def Let_def normalize_share_path_def n
        parse_expires_at_def demo_platform_def bare_shares_def numeral_2_eq_2 sh)
  then show ?thesis by auto
qed

theorem link_share_lifecycle_witness:
  "\<exists>s key w'. create_link_share demo_platform ''w'' ''notes/a.md'' ''late'' ''u'' bare_shares = (Inr (s, key), w') \<and>
    fst (resolve_link_share demo_platform key (w'\<lparr>vw_now := 99\<rparr>)) = Inr (Some (''w'', s)) \<and>
    fst (resolve_link_share demo_platform key (w'\<lparr>vw_now := 100\<rparr>)) = Inr None"
proof -
  obtain s key w' where c: "create_link_share demo_platform ''w'' ''notes/a.md'' ''late'' ''u'' bare_shares = (Inr (s, key), w')"
    and ne: "key \<noteq> []" "vs_id s \<noteq> []" using demo_link by blast
  have "se_hmac demo_platform key \<noteq> []" "se_date demo_platform ''late'' = Some 100" by (simp_all add: demo_platform_def)
  note l = link_share_lifecycle [OF bare_shares_ok _ c ne this]
  show ?thesis using c l [of 99 0] l [of 100 0] by auto
qed

section \<open>The anonymous route\<close>

lemma split_prefix: "split_on d (p @ d # q) = split_on d p @ split_on d q"
  by (induction p) (auto split: list.split)

text \<open>
  the anonymous route hands out nothing but files of the workspace of an active link,
  at the shared path or below it, with no dot segment in what the caller added.
\<close>

theorem served_inside_share:
  assumes "fst (serve_share env read key subpath w) = Inr (Some f)"
  shows "\<exists>ws s target. fst (resolve_link_share env key w) = Inr (Some (ws, s)) \<and> read ws target = Some f \<and>
    (target = vs_path s \<or> starts_with target (vs_path s @ ''/'') \<and> ''..'' \<notin> set (split_on CHR ''/'' target) \<and> ''.'' \<notin> set (split_on CHR ''/'' target))"
proof -
  obtain r w1 where r: "resolve_link_share env key w = (r, w1)" by (cases "resolve_link_share env key w")
  from assms r obtain ws s where rs: "r = Inr (Some (ws, s))"
    by (auto simp: serve_share_def bindM_run split: sum.splits option.splits)
  with assms r obtain target where t: "resolve_target_path (vs_path s) subpath = Some target" "read ws target = Some f"
    by (auto simp: serve_share_def bindM_run split: option.splits)
  have norm: "normalize_fs_path raw = Some p \<Longrightarrow> ''..'' \<notin> set (split_on CHR ''/'' p) \<and> ''.'' \<notin> set (split_on CHR ''/'' p)" for raw p
    by (auto simp: normalize_fs_path_def Let_def join_split_on split: if_splits)
  have "target = vs_path s \<or> starts_with target (vs_path s @ ''/'') \<and> ''..'' \<notin> set (split_on CHR ''/'' target) \<and> ''.'' \<notin> set (split_on CHR ''/'' target)"
    using t(1) norm by (auto simp: resolve_target_path_def path_covered_by_share_def split: if_splits option.splits)
  with r rs t(2) show ?thesis by auto
qed

theorem served_inside_share_witness:
  "\<exists>key w f s. fst (serve_share demo_platform (\<lambda>ws p. if ws = ''w'' \<and> p = ''notes/a.md'' then Some f else None) key None w) = Inr (Some f) \<and>
    fst (resolve_link_share demo_platform key w) = Inr (Some (''w'', s))"
proof -
  obtain s key w' where c: "create_link_share demo_platform ''w'' ''notes/a.md'' ''late'' ''u'' bare_shares = (Inr (s, key), w')"
    and ne: "key \<noteq> []" "vs_id s \<noteq> []" using demo_link by blast
  have e: "se_hmac demo_platform key \<noteq> []" "se_date demo_platform ''late'' = Some 100" by (simp_all add: demo_platform_def)
  let ?w = "w'\<lparr>vw_now := 99\<rparr>" and ?f = "undefined :: fs_file"
  let ?read = "\<lambda>ws p. if ws = ''w'' \<and> p = ''notes/a.md'' then Some ?f else None"
  have r: "fst (resolve_link_share demo_platform key ?w) = Inr (Some (''w'', s))"
    using link_resolves [OF bare_shares_ok _ c ne e, of 99] by simp
  have n: "normalize_fs_path ''notes/a.md'' = Some ''notes/a.md''" by code_simp
  have "vs_path s = ''notes/a.md''" using create_link_run [OF bare_shares_ok c] n by simp
  with r have served: "fst (serve_share demo_platform ?read key None ?w) = Inr (Some ?f)"
    by (cases "resolve_link_share demo_platform key ?w") (simp add: serve_share_def bindM_run resolve_target_path_def truthy_def)
  from served_inside_share [OF this] obtain ws s' where "fst (resolve_link_share demo_platform key ?w) = Inr (Some (ws, s'))" "ws = ''w''"
    using r by auto
  with served show ?thesis by blast
qed

end
