(* ===== verification/Vfs_Guard.thy ===== *)
theory Vfs_Guard
  imports Vfs_Properties
begin

text \<open>
  The partition guard: which paths belong to somebody, and who passes the choke point.
\<close>

section \<open>The partitions\<close>

lemma hd_split_on: "hd (split_on c r) = s \<longleftrightarrow> c \<notin> set s \<and> (r = s \<or> starts_with r (s @ [c]))"
proof
  assume s: "hd (split_on c r) = s"
  then have free: "c \<notin> set s" using split_on_no_sep [of s c r] by (metis list.set_sel(1) split_on_ne)
  obtain t where t: "split_on c r = s # t" using s by (metis list.collapse split_on_ne)
  have "r = join [c] (s # t)" using join_split_on [of c r] t by simp
  then show "c \<notin> set s \<and> (r = s \<or> starts_with r (s @ [c]))"
    using free by (cases t) (auto simp: starts_with_iff)
next
  assume s: "c \<notin> set s \<and> (r = s \<or> starts_with r (s @ [c]))"
  then show "hd (split_on c r) = s" by (auto simp: starts_with_iff split_on_free split_on_append)
qed

lemma split_on_cons: "split_on c r = s # t \<Longrightarrow> t \<noteq> [] \<Longrightarrow> \<exists>q. r = s @ c # q \<and> split_on c q = t"
proof -
  assume s: "split_on c r = s # t" and t: "t \<noteq> []"
  have free: "c \<notin> set s" using split_on_no_sep [of s c r] s by simp
  have "hd (split_on c r) = s" using s by simp
  then have "r = s \<or> starts_with r (s @ [c])" using hd_split_on by metis
  moreover have "r \<noteq> s" using s t split_on_free [OF free] by auto
  ultimately obtain q where q: "r = s @ c # q" by (auto simp: starts_with_iff)
  then show ?thesis using s split_on_append [OF free, of q] by simp
qed

lemma under_root: "path \<noteq> root \<Longrightarrow> under_prefix path root \<longleftrightarrow> (\<exists>r. path = root @ ''/'' @ r)"
  by (auto simp: under_prefix_def starts_with_iff)

text \<open>The owner of the space or of the application's partition a path lies in.\<close>

definition owned_by :: "string \<Rightarrow> string \<Rightarrow> bool" where
  "owned_by path owner \<longleftrightarrow> CHR ''/'' \<notin> set owner \<and>
     (under_prefix path (user_space_dir owner) \<or> (\<exists>i. CHR ''/'' \<notin> set i \<and> under_prefix path (app_data_dir i owner)))"

lemma owned_user: "CHR ''/'' \<notin> set owner \<and> under_prefix path (user_space_dir owner) \<longleftrightarrow>
    (\<exists>r. path = ''.users/'' @ r \<and> hd (split_on CHR ''/'' r) = owner)"
  unfolding hd_split_on by (auto simp: under_prefix_def user_space_dir_def USER_SPACE_ROOT_def starts_with_iff)

lemma owned_app: "CHR ''/'' \<notin> set owner \<and> (\<exists>i. CHR ''/'' \<notin> set i \<and> under_prefix path (app_data_dir i owner)) \<longleftrightarrow>
    (\<exists>r i t. path = ''.apps/'' @ r \<and> split_on CHR ''/'' r = i # ''data'' # owner # t)"
proof
  assume "CHR ''/'' \<notin> set owner \<and> (\<exists>i. CHR ''/'' \<notin> set i \<and> under_prefix path (app_data_dir i owner))"
  then obtain i where i: "CHR ''/'' \<notin> set owner" "CHR ''/'' \<notin> set i" "under_prefix path (app_data_dir i owner)" by blast
  then obtain q where "path = ''.apps/'' @ i @ ''/data/'' @ q" "q = owner \<or> starts_with q (owner @ ''/'')"
    by (auto simp: under_prefix_def app_data_dir_def app_data_root_def APP_DATA_ROOT_def starts_with_iff)
  moreover have "split_on CHR ''/'' (i @ ''/data/'' @ q) = i # ''data'' # split_on CHR ''/'' q"
    using split_on_append [OF i(2), of "''data/'' @ q"] split_on_append [of "CHR ''/''" "''data''" q] by simp
  moreover have "hd (split_on CHR ''/'' q) = owner" using i(1) calculation(2) hd_split_on by metis
  moreover have "split_on CHR ''/'' q = hd (split_on CHR ''/'' q) # tl (split_on CHR ''/'' q)" by simp
  ultimately show "\<exists>r i t. path = ''.apps/'' @ r \<and> split_on CHR ''/'' r = i # ''data'' # owner # t" by metis
next
  assume "\<exists>r i t. path = ''.apps/'' @ r \<and> split_on CHR ''/'' r = i # ''data'' # owner # t"
  then obtain r i t where r: "path = ''.apps/'' @ r" "split_on CHR ''/'' r = i # ''data'' # owner # t" by blast
  from split_on_cons [OF r(2)] obtain q1 where q1: "r = i @ CHR ''/'' # q1" "split_on CHR ''/'' q1 = ''data'' # owner # t" by auto
  from split_on_cons [OF q1(2)] obtain q2 where q2: "q1 = ''data'' @ CHR ''/'' # q2" "split_on CHR ''/'' q2 = owner # t" by auto
  have "CHR ''/'' \<notin> set i" using split_on_no_sep [of i "CHR ''/''" r] r(2) by simp
  moreover have "CHR ''/'' \<notin> set owner \<and> (q2 = owner \<or> starts_with q2 (owner @ ''/''))"
    using q2(2) hd_split_on [of "CHR ''/''" q2 owner] by simp
  moreover from this have "under_prefix path (app_data_dir i owner)"
    unfolding r(1) q1(1) q2(1)
    by (auto simp: under_prefix_def app_data_dir_def app_data_root_def APP_DATA_ROOT_def starts_with_iff)
  ultimately show "CHR ''/'' \<notin> set owner \<and> (\<exists>i. CHR ''/'' \<notin> set i \<and> under_prefix path (app_data_dir i owner))" by blast
qed

lemma foreign_user: "partition_access (''.users/'' @ r) sub = (if hd (split_on CHR ''/'' r) = sub then Own else Foreign)"
  by (simp add: partition_access_def under_prefix_def APP_DATA_ROOT_def USER_SPACE_ROOT_def Let_def)

lemma foreign_app: "partition_access (''.apps/'' @ r) sub = Foreign \<longleftrightarrow>
    (\<exists>i owner t. split_on CHR ''/'' r = i # ''data'' # owner # t \<and> owner \<noteq> sub)"
  by (auto simp: partition_access_def parse_shared_partition_def under_prefix_def APP_DATA_ROOT_def split: list.splits)

text \<open>
  a path is closed to a user exactly when it lies in the private space or in an
  application's data partition of another user; everything else is open, their own, or
  shared.
\<close>

theorem foreign_iff_owned_by_other:
  "partition_access path sub = Foreign \<longleftrightarrow> (\<exists>owner. owner \<noteq> sub \<and> owned_by path owner)"
proof -
  have "(\<exists>owner. owner \<noteq> sub \<and> owned_by path owner) \<longleftrightarrow>
      (\<exists>r. path = ''.users/'' @ r \<and> hd (split_on CHR ''/'' r) \<noteq> sub) \<or>
      (\<exists>r i owner t. path = ''.apps/'' @ r \<and> split_on CHR ''/'' r = i # ''data'' # owner # t \<and> owner \<noteq> sub)"
    unfolding owned_by_def conj_disj_distribL owned_user owned_app by blast
  moreover have "partition_access path sub = Foreign \<longleftrightarrow>
      (\<exists>r. path = ''.users/'' @ r \<and> hd (split_on CHR ''/'' r) \<noteq> sub) \<or>
      (\<exists>r i owner t. path = ''.apps/'' @ r \<and> split_on CHR ''/'' r = i # ''data'' # owner # t \<and> owner \<noteq> sub)"
  proof (cases "(\<exists>r. path = ''.users/'' @ r) \<or> (\<exists>r. path = ''.apps/'' @ r)")
    case True
    then consider r where "path = ''.users/'' @ r" | r where "path = ''.apps/'' @ r" by blast
    then show ?thesis
    proof cases
      case (1 r)
      then show ?thesis using foreign_user [of r sub] by simp
    next
      case (2 r)
      then show ?thesis using foreign_app [of r sub] by simp
    qed
  next
    case False
    then have "partition_access path sub = Open"
      by (auto simp: partition_access_def under_root APP_DATA_ROOT_def USER_SPACE_ROOT_def under_prefix_def starts_with_iff)
    with False show ?thesis by auto
  qed
  ultimately show ?thesis by blast
qed

section \<open>The choke point\<close>

definition dates_ok :: "share_env \<Rightarrow> share_world \<Rightarrow> string \<Rightarrow> bool" where
  "dates_ok env w ws \<longleftrightarrow> (\<forall>i s. share_at w ws i = Some s \<longrightarrow> se_date env (vs_expires s) \<noteq> None)"

definition active_grant :: "share_env \<Rightarrow> int \<Rightarrow> string \<Rightarrow> string \<Rightarrow> vfs_share \<Rightarrow> bool" where
  "active_grant env now sub path s \<longleftrightarrow>
     vs_kind s = PersonShare \<and> vs_grantee s = Some sub \<and> \<not> truthy (vs_revoked s) \<and>
     (case se_date env (vs_expires s) of None \<Rightarrow> False | Some t \<Rightarrow> now < t) \<and> path_covered_by_share (vs_path s) path"

lemma share_docs_mem:
  assumes "shares_ok w"
  obtains ss where "share_docs ws w = (Inr ss, w)" "\<And>s. s \<in> set ss \<longleftrightarrow> (\<exists>i. share_at w ws i = Some s)"
proof -
  obtain ds where ds: "list_svc_records (vw_now w) (vw_shares w) ws SHARES_SCOPE [] = Inr ds"
    and mem: "\<And>k v. (k, v) \<in> set ds \<longleftrightarrow> doc_at (vw_shares w) ws SHARES_SCOPE k = Some v"
    by (rule list_docs_mem [OF shares_okD(1) [OF assms], of "vw_now w" ws SHARES_SCOPE]) blast
  show thesis
  proof (rule that [of "map snd ds"])
    show "share_docs ws w = (Inr (map snd ds), w)" by (simp add: share_docs_def ds)
    show "s \<in> set (map snd ds) \<longleftrightarrow> (\<exists>i. share_at w ws i = Some s)" for s
      using mem by (force simp: share_at_def)
  qed
qed

lemma some_share_exact: "(\<And>s. s \<in> set ss \<Longrightarrow> P s = Inr (Q s)) \<Longrightarrow> some_share P ss = Inr (\<exists>s \<in> set ss. Q s)"
  by (induction ss) auto

lemma covering_exact:
  assumes "se_date env (vs_expires s) \<noteq> None"
  shows "covering_share env now sub path s = Inr (active_grant env now sub path s)"
  using assms by (auto simp: covering_share_def received_share_def active_grant_def is_share_active_def parse_expires_at_def)

lemma person_share_exact:
  assumes ok: "shares_ok w" and dates: "dates_ok env w ws"
  shows "person_share_allows_read env ws sub path w =
    (Inr (\<exists>p i s. normalize_fs_path path = Some p \<and> share_at w ws i = Some s \<and> active_grant env (vw_now w) sub p s), w)"
proof (cases "normalize_fs_path path")
  case (Some p)
  obtain ss where ss: "share_docs ws w = (Inr ss, w)" "\<And>s. s \<in> set ss \<longleftrightarrow> (\<exists>i. share_at w ws i = Some s)"
    by (rule share_docs_mem [OF ok, of ws]) blast
  have "some_share (covering_share env (vw_now w) sub p) ss = Inr (\<exists>s \<in> set ss. active_grant env (vw_now w) sub p s)"
    by (rule some_share_exact, rule covering_exact) (use dates ss(2) in \<open>unfold dates_ok_def, blast\<close>)
  moreover have "(\<exists>s \<in> set ss. active_grant env (vw_now w) sub p s) \<longleftrightarrow>
      (\<exists>p' i s. normalize_fs_path path = Some p' \<and> share_at w ws i = Some s \<and> active_grant env (vw_now w) sub p' s)"
    unfolding Some ss(2) Bex_def by blast
  ultimately show ?thesis using Some ss(1) by (simp add: person_share_allows_read_def bindM_run)
qed (simp add: person_share_allows_read_def)

definition guard_passes :: "share_env \<Rightarrow> 'f inst_env \<Rightarrow> string \<Rightarrow> string \<Rightarrow> string \<Rightarrow> access_world \<Rightarrow> bool" where
  "guard_passes senv ienv ws sub path w =
     (case partition_access path sub of
        Open \<Rightarrow> True
      | Own \<Rightarrow> True
      | Shared \<Rightarrow> (\<exists>i inst rec. parse_shared_partition path = Some (i, inst) \<and>
          doc_at (xw_instances w) ws INSTANCES_SCOPE inst = Some rec \<and> may_access ienv i sub rec)
      | Foreign \<Rightarrow> (\<exists>p i s. normalize_fs_path path = Some p \<and> share_at (xw_shares w) ws i = Some s \<and>
          active_grant senv (vw_now (xw_shares w)) sub p s))"

lemma shared_parses: "partition_access path sub = Shared \<Longrightarrow> \<exists>x. parse_shared_partition path = Some x"
  by (auto simp: partition_access_def Let_def split: if_splits list.splits)

lemma guard_exact:
  assumes shares: "shares_ok (xw_shares w)" and dates: "dates_ok senv (xw_shares w) ws" and inst: "doc_ok (xw_instances w)"
  shows "snd (assert_partition_access senv ienv ws sub path w) = w \<and>
    (if guard_passes senv ienv ws sub path w then fst (assert_partition_access senv ienv ws sub path w) = Inr ()
     else \<exists>m. fst (assert_partition_access senv ienv ws sub path w) = Inl (ServiceError m 404))"
proof (cases "partition_access path sub")
  case Shared
  then obtain i iid where p: "parse_shared_partition path = Some (i, iid)" using shared_parses by (metis surj_pair)
  have "assert_instance_access ienv (vw_now (xw_shares w)) ws i iid sub (xw_instances w) =
      (case doc_at (xw_instances w) ws INSTANCES_SCOPE iid of
        None \<Rightarrow> (Inl (deny_instance iid), xw_instances w)
      | Some rec \<Rightarrow> if may_access ienv i sub rec then (Inr rec, xw_instances w) else (Inl (deny_instance iid), xw_instances w))"
    by (rule access_result [OF read_doc [OF inst]])
  then show ?thesis
    by (auto simp: assert_partition_access_def guard_passes_def Shared p thenM_run zoom_run deny_instance_def split: option.split)
next
  case Foreign
  have "zoom xw_shares (\<lambda>d w. w\<lparr>xw_shares := d\<rparr>) (person_share_allows_read senv ws sub path) w =
      (Inr (guard_passes senv ienv ws sub path w), w)"
    by (simp add: zoom_run person_share_exact [OF shares dates] guard_passes_def Foreign)
  then show ?thesis by (simp add: assert_partition_access_def Foreign bindM_run)
qed (simp_all add: assert_partition_access_def guard_passes_def)

lemmas guard_run = guard_exact [THEN conjunct2]

text \<open>
  the choke point lets a user at a path exactly when the path is open or their own, or
  belongs to a shared instance they participate in, or an active person share to them covers
  it; every refusal is a 404, and nothing is changed.
\<close>

theorem partition_guard_exact:
  assumes shares: "shares_ok (xw_shares w)" and dates: "dates_ok senv (xw_shares w) ws" and inst: "doc_ok (xw_instances w)"
  shows "snd (assert_partition_access senv ienv ws sub path w) = w \<and>
    (if guard_passes senv ienv ws sub path w then fst (assert_partition_access senv ienv ws sub path w) = Inr ()
     else \<exists>m. fst (assert_partition_access senv ienv ws sub path w) = Inl (ServiceError m 404))"
  by (rule guard_exact [OF assms])

definition demo_access :: access_world where
  "demo_access = \<lparr>xw_shares = bare_shares, xw_instances = doc_db \<lparr>ai_id = [], ai_app = [], ai_host_ws = [], ai_created_by = [],
     ai_created_at = 0, ai_updated_at = 0, ai_participants = [], ai_cap = None, ai_storage = 0\<rparr> []\<rparr>"

theorem partition_guard_exact_witness:
  "\<forall>ienv. fst (assert_partition_access demo_platform ienv ''w'' ''ann'' ''.users/ann/x'' demo_access) = Inr () \<and>
   (\<exists>m. fst (assert_partition_access demo_platform ienv ''w'' ''ann'' ''.users/bob/x'' demo_access) = Inl (ServiceError m 404))"
proof
  fix ienv
  have none: "share_at (xw_shares demo_access) ws i = None" for ws i
    by (simp add: share_at_def demo_access_def bare_shares_def doc_db_at)
  have ok: "shares_ok (xw_shares demo_access)" "dates_ok demo_platform (xw_shares demo_access) ''w''" "doc_ok (xw_instances demo_access)"
    using bare_shares_ok none by (simp_all add: dates_ok_def demo_access_def doc_db_ok)
  have "partition_access ''.users/ann/x'' ''ann'' = Own" "partition_access ''.users/bob/x'' ''ann'' = Foreign" by code_simp+
  then have "guard_passes demo_platform ienv ''w'' ''ann'' ''.users/ann/x'' demo_access"
    "\<not> guard_passes demo_platform ienv ''w'' ''ann'' ''.users/bob/x'' demo_access"
    by (simp_all add: guard_passes_def none)
  then show "fst (assert_partition_access demo_platform ienv ''w'' ''ann'' ''.users/ann/x'' demo_access) = Inr () \<and>
   (\<exists>m. fst (assert_partition_access demo_platform ienv ''w'' ''ann'' ''.users/bob/x'' demo_access) = Inl (ServiceError m 404))"
    using partition_guard_exact [OF ok, of ienv "''ann''" "''.users/ann/x''"] partition_guard_exact [OF ok, of ienv "''ann''" "''.users/bob/x''"]
    by simp
qed

section \<open>Ways around the partitions\<close>

lemma create_person_run:
  assumes ok: "shares_ok w" and ws: "ws_ok (vw_shares w) ws" and g: "js_trim grantee \<noteq> []"
    and e: "se_date env expiresAt = Some e" and p: "normalize_fs_path path = Some p"
  obtains s w' where "create_person_share env ws path grantee expiresAt user w = (Inr s, w')" "shares_ok w'" "vw_now w' = vw_now w"
    "share_at w' ws (vs_id s) = Some s" "active_grant env now grantee q s \<longleftrightarrow> now < e \<and> path_covered_by_share p q"
    "dates_ok env w ws \<Longrightarrow> dates_ok env w' ws"
proof -
  let ?w2 = "w\<lparr>vw_next := Suc (vw_next w)\<rparr>"
  let ?s = "\<lparr>vs_id = se_share_id env (vw_next w), vs_path = p, vs_kind = PersonShare, vs_grantee = Some grantee, vs_hmac = None,
    vs_expires = expiresAt, vs_created_by = user, vs_created = iso_of (vw_now w), vs_revoked = None\<rparr>"
  have ok2: "shares_ok ?w2" "ws_ok (vw_shares ?w2) ws" using ok ws by simp_all
  obtain w3 where w3: "write_share ws ?s ?w2 = (Inr (), w3)" "shares_ok w3" "vw_now w3 = vw_now ?w2"
    "\<And>ws' i. share_at w3 ws' i = (if ws' = ws \<and> i = vs_id ?s then Some ?s else share_at ?w2 ws' i)"
    by (rule write_share_run [OF ok2, of ?s]) blast
  show thesis
  proof (rule that [of ?s w3])
    show "create_person_share env ws path grantee expiresAt user w = (Inr ?s, w3)"
      using w3(1) g by (simp add: create_person_share_def bindM_run thenM_run mint_def parse_expires_at_def e normalize_share_path_def p Let_def)
    show "active_grant env now grantee q ?s \<longleftrightarrow> now < e \<and> path_covered_by_share p q"
      by (simp add: active_grant_def e truthy_def)
    show "dates_ok env w ws \<Longrightarrow> dates_ok env w3 ws" using e w3(4) by (auto simp: dates_ok_def)
  qed (use w3 in simp_all)
qed

text \<open>Nothing ties a share to the owner of its path: any user opens another's space to
  themselves by sharing it.\<close>

lemma self_share_opens_partition:
  assumes ok: "shares_ok (xw_shares w)" "dates_ok senv (xw_shares w) ws" "doc_ok (xw_instances w)"
    and ws: "ws_ok (vw_shares (xw_shares w)) ws"
    and e: "se_date senv expiresAt = Some e" "vw_now (xw_shares w) < e"
  shows "\<exists>s w'. create_person_share senv ws ''.users/bob'' ''mallory'' expiresAt ''mallory'' (xw_shares w) = (Inr s, w') \<and>
    partition_access ''.users/bob/diary'' ''mallory'' = Foreign \<and>
    fst (assert_partition_access senv ienv ws ''mallory'' ''.users/bob/diary'' (w\<lparr>xw_shares := w'\<rparr>)) = Inr ()"
proof -
  have n: "normalize_fs_path ''.users/bob'' = Some ''.users/bob''" "normalize_fs_path ''.users/bob/diary'' = Some ''.users/bob/diary''"
    "js_trim ''mallory'' \<noteq> []" "partition_access ''.users/bob/diary'' ''mallory'' = Foreign"
    "path_covered_by_share ''.users/bob'' ''.users/bob/diary''" by code_simp+
  obtain s w' where s: "create_person_share senv ws ''.users/bob'' ''mallory'' expiresAt ''mallory'' (xw_shares w) = (Inr s, w')"
    "shares_ok w'" "vw_now w' = vw_now (xw_shares w)" "share_at w' ws (vs_id s) = Some s"
    "active_grant senv (vw_now (xw_shares w)) ''mallory'' ''.users/bob/diary'' s" "dates_ok senv w' ws"
    by (rule create_person_run [where now = "vw_now (xw_shares w)" and q = "''.users/bob/diary''" and user = "''mallory''", OF ok(1) ws n(3) e(1) n(1)])
      (use e(2) n(5) ok(2) in blast)
  let ?w = "w\<lparr>xw_shares := w'\<rparr>"
  have "guard_passes senv ienv ws ''mallory'' ''.users/bob/diary'' ?w"
    unfolding guard_passes_def n(4) partition_class.case n(2) using s(3-5) by auto
  moreover have "(if guard_passes senv ienv ws ''mallory'' ''.users/bob/diary'' ?w
      then fst (assert_partition_access senv ienv ws ''mallory'' ''.users/bob/diary'' ?w) = Inr ()
      else \<exists>m. fst (assert_partition_access senv ienv ws ''mallory'' ''.users/bob/diary'' ?w) = Inl (ServiceError m 404))"
    by (rule guard_run) (use s ok(3) in simp_all)
  ultimately show ?thesis using s(1) n(4) by auto
qed

text \<open>The HTTP routes refuse only foreign paths: the files of a shared instance are open to users
  who do not participate in it, and a container of partitions may be removed with all of them.\<close>

lemma http_serves_shared_instances:
  "foreign_partition_response sub ''.apps/a/shared/i/notes.md'' = None \<and>
   partition_access ''.apps/a/shared/i/notes.md'' sub = Shared"
proof -
  have "partition_access ''.apps/a/shared/i/notes.md'' sub = Shared" by code_simp
  then show ?thesis by (simp add: foreign_partition_response_def)
qed

lemma http_removes_containers:
  "foreign_partition_response sub ''.users'' = None \<and> in_prefix (user_space_dir owner) ''.users''"
  by (simp add: foreign_partition_response_def partition_access_def under_prefix_def APP_DATA_ROOT_def USER_SPACE_ROOT_def
      in_prefix_def user_space_dir_def)

end
