(* ===== verification/Relay.thy ===== *)
theory Relay
  imports Doc_Store Json Js_Date
begin

text \<open>
  The relay to sandbox hosts that cannot be dialed, \<^verbatim>\<open>server/workspace/src/sandboxes/relay.ts\<close>:
  a caller stores an operation and polls for its answer, the host's agent leases operations and
  completes them. What everybody else does to the queue while a loop sleeps is an argument of
  the loop; each sleep takes one poll interval.
\<close>

datatype op_status = OpPending | OpLeased | OpDone

record sandbox_op =
  so_id :: string
  so_host :: string
  so_name :: string
  so_args :: json
  so_status :: op_status
  so_created :: string
  so_leased :: "string option"
  so_finished :: "string option"
  so_data :: json                \<comment> \<open>\<^verbatim>\<open>JUndefined\<close> when absent\<close>
  so_error :: "string option"
  so_timeout :: int

record relay_world =
  lw_now :: int
  lw_ops :: "sandbox_op db"
  lw_next :: nat

definition RELAY_SCOPE :: string where
  "RELAY_SCOPE = ''sandboxops''"

definition OP_TTL_SECONDS :: int where
  "OP_TTL_SECONDS = 30 * 60"

definition RELAY_POLL_MS :: int where
  "RELAY_POLL_MS = 250"

definition MAX_LEASE_WAIT_MS :: int where
  "MAX_LEASE_WAIT_MS = 25000"

definition op_key :: "string \<Rightarrow> string \<Rightarrow> string" where
  "op_key hostId i = hostId @ ''/'' @ i"

definition op_expiry :: "int \<Rightarrow> int" where
  "op_expiry now = now div 1000 + OP_TTL_SECONDS"

definition on_ops :: "(sandbox_op db, 'a) prog \<Rightarrow> (relay_world, 'a) prog" where
  "on_ops = zoom lw_ops (\<lambda>d w. w\<lparr>lw_ops := d\<rparr>)"

definition get_op :: "string \<Rightarrow> string \<Rightarrow> (relay_world, sandbox_op option) prog" where
  "get_op ws key w = (map_sum id (map_option en_value) (rs_get (lw_now w) (lw_ops w) (ws, RELAY_SCOPE, key)), w)"

definition read_op :: "string \<Rightarrow> string \<Rightarrow> string \<Rightarrow> (relay_world, sandbox_op option) prog" where
  "read_op ws hostId i = get_op ws (op_key hostId i)"

definition write_op :: "string \<Rightarrow> sandbox_op \<Rightarrow> (relay_world, unit) prog" where
  "write_op ws op w =
     thenM (on_ops (put_doc (lw_now w) (ws, RELAY_SCOPE, op_key (so_host op) (so_id op)) op (so_host op)
       (Some (op_expiry (lw_now w))))) (ret ()) w"

section \<open>The caller\<close>

datatype relay_answer = AnswerError string | AnswerData json

definition answer_of :: "sandbox_op \<Rightarrow> relay_answer" where
  "answer_of op = (case so_error op of Some e \<Rightarrow> AnswerError e | None \<Rightarrow> AnswerData (so_data op))"

text \<open>The dash of the second message is an em dash in the source.\<close>

definition timeout_message :: "string \<Rightarrow> int \<Rightarrow> sandbox_op option \<Rightarrow> string" where
  "timeout_message hostId timeoutMs current =
     (if map_option so_status current = Some OpLeased
      then ''Host '' @ hostId @ '' took the op but never answered within '' @ show_int timeoutMs @ ''ms''
      else ''No agent claimed the op - is `aprovan sandbox host run` running on '' @ hostId @ ''?'')"

text \<open>The polling loop, with the others' actions between two polls.\<close>

function await_answer ::
  "(relay_world \<Rightarrow> relay_world) \<Rightarrow> string \<Rightarrow> string \<Rightarrow> string \<Rightarrow> int \<Rightarrow> int \<Rightarrow> (relay_world, relay_answer) prog" where
  "await_answer others ws hostId i timeoutMs deadline w =
     (case read_op ws hostId i w of
        (Inl e, w1) \<Rightarrow> (Inl e, w1)
      | (Inr current, w1) \<Rightarrow>
          (case current of
             Some op \<Rightarrow>
               if so_status op = OpDone then (Inr (answer_of op), w1)
               else if lw_now w > deadline then (Inl (ServiceError (timeout_message hostId timeoutMs current) 504), w1)
               else await_answer others ws hostId i timeoutMs deadline ((others w1)\<lparr>lw_now := lw_now w + RELAY_POLL_MS\<rparr>)
           | None \<Rightarrow>
               if lw_now w > deadline then (Inl (ServiceError (timeout_message hostId timeoutMs current) 504), w1)
               else await_answer others ws hostId i timeoutMs deadline ((others w1)\<lparr>lw_now := lw_now w + RELAY_POLL_MS\<rparr>)))"
  by pat_completeness auto

termination
  by (relation "measure (\<lambda>(others, ws, hostId, i, timeoutMs, deadline, w). nat (deadline + 1 - lw_now w))")
    (auto simp: RELAY_POLL_MS_def)

declare await_answer.simps [simp del]

text \<open>\<^verbatim>\<open>try { ... } finally { delete }\<close>: the operation is removed whatever the loop's outcome, and a
  failing removal is ignored.\<close>

definition remove_op :: "string \<Rightarrow> string \<Rightarrow> relay_world \<Rightarrow> relay_world" where
  "remove_op ws key w = snd (catchM (on_ops (del_doc (ws, RELAY_SCOPE, key))) (\<lambda>_. ret False) w)"

definition finally_delete :: "string \<Rightarrow> string \<Rightarrow> (relay_world, 'a) prog \<Rightarrow> (relay_world, 'a) prog" where
  "finally_delete ws key m w = (case m w of (r, w1) \<Rightarrow> (r, remove_op ws key w1))"

definition new_op :: "string \<Rightarrow> string \<Rightarrow> string \<Rightarrow> json \<Rightarrow> int \<Rightarrow> int \<Rightarrow> sandbox_op" where
  "new_op i hostId name args timeoutMs now =
     \<lparr>so_id = i, so_host = hostId, so_name = name, so_args = args, so_status = OpPending, so_created = iso_of now,
      so_leased = None, so_finished = None, so_data = JUndefined, so_error = None, so_timeout = timeoutMs\<rparr>"

definition dispatch_to_host ::
  "(nat \<Rightarrow> string) \<Rightarrow> (relay_world \<Rightarrow> relay_world) \<Rightarrow> string \<Rightarrow> string \<Rightarrow> string \<Rightarrow> json \<Rightarrow> int \<Rightarrow> (relay_world, relay_answer) prog" where
  "dispatch_to_host uuid others ws hostId name args timeoutMs w =
     (let i = uuid (lw_next w); op = new_op i hostId name args timeoutMs (lw_now w)
      in thenM (write_op ws op)
           (\<lambda>w1. finally_delete ws (op_key hostId i)
              (await_answer others ws hostId i timeoutMs (lw_now w1 + timeoutMs + 20000)) w1)
         (w\<lparr>lw_next := Suc (lw_next w)\<rparr>))"

section \<open>The agent\<close>

definition leased_op :: "int \<Rightarrow> sandbox_op \<Rightarrow> sandbox_op" where
  "leased_op now op = op\<lparr>so_status := OpLeased, so_leased := Some (iso_of now)\<rparr>"

fun lease_keys :: "nat \<Rightarrow> string \<Rightarrow> string list \<Rightarrow> sandbox_op list \<Rightarrow> (relay_world, sandbox_op list) prog" where
  "lease_keys limit ws [] leased = ret leased"
| "lease_keys limit ws (k # ks) leased =
     (if length leased \<ge> limit then ret leased
      else bindM (get_op ws k) (\<lambda>r. case r of
        None \<Rightarrow> lease_keys limit ws ks leased
      | Some op \<Rightarrow>
          if so_status op \<noteq> OpPending then lease_keys limit ws ks leased
          else bindM (gets lw_now) (\<lambda>now.
               thenM (write_op ws (leased_op now op)) (lease_keys limit ws ks (leased @ [leased_op now op])))))"

definition lease_limit :: "int option \<Rightarrow> nat" where
  "lease_limit limit = nat (max 1 (min (case limit of None \<Rightarrow> 8 | Some n \<Rightarrow> n) 32))"

function lease_loop ::
  "(relay_world \<Rightarrow> relay_world) \<Rightarrow> nat \<Rightarrow> string \<Rightarrow> string \<Rightarrow> int \<Rightarrow> (relay_world, sandbox_op list) prog" where
  "lease_loop others limit ws hostId deadline w =
     (case lease_keys limit ws (rs_list (lw_now w) (lw_ops w) ws RELAY_SCOPE (hostId @ ''/'')) [] w of
        (Inl e, w1) \<Rightarrow> (Inl e, w1)
      | (Inr leased, w1) \<Rightarrow>
          if leased \<noteq> [] then (Inr leased, w1)
          else if lw_now w \<ge> deadline then (Inr [], w1)
          else lease_loop others limit ws hostId deadline ((others w1)\<lparr>lw_now := lw_now w + RELAY_POLL_MS\<rparr>))"
  by pat_completeness auto

termination
  by (relation "measure (\<lambda>(others, limit, ws, hostId, deadline, w). nat (deadline - lw_now w))")
    (auto simp: RELAY_POLL_MS_def)

declare lease_loop.simps [simp del]

definition lease_ops ::
  "(relay_world \<Rightarrow> relay_world) \<Rightarrow> string \<Rightarrow> string \<Rightarrow> int option \<Rightarrow> int option \<Rightarrow> (relay_world, sandbox_op list) prog" where
  "lease_ops others ws hostId maxWait limit w =
     lease_loop others (lease_limit limit) ws hostId
       (lw_now w + min (case maxWait of None \<Rightarrow> MAX_LEASE_WAIT_MS | Some m \<Rightarrow> m) MAX_LEASE_WAIT_MS) w"

definition completed_op :: "int \<Rightarrow> json \<Rightarrow> string option \<Rightarrow> sandbox_op \<Rightarrow> sandbox_op" where
  "completed_op now data err op =
     (let op' = op\<lparr>so_status := OpDone, so_finished := Some (iso_of now)\<rparr>
      in case err of Some e \<Rightarrow> op'\<lparr>so_error := Some e\<rparr> | None \<Rightarrow> op'\<lparr>so_data := data\<rparr>)"

definition complete_op :: "string \<Rightarrow> string \<Rightarrow> string \<Rightarrow> json \<Rightarrow> string option \<Rightarrow> (relay_world, bool) prog" where
  "complete_op ws hostId i data err =
     bindM (read_op ws hostId i) (\<lambda>r. case r of
       None \<Rightarrow> ret False
     | Some op \<Rightarrow> bindM (gets lw_now) (\<lambda>now. thenM (write_op ws (completed_op now data err op)) (ret True)))"

end
