(* ===== verification/Relay_Properties.thy ===== *)
theory Relay_Properties
  imports Relay
begin

text \<open>
  What the relay promises: a dispatched operation always ends, in time, with the answer the
  agent stored or with a 504, and leaves nothing behind; a lease takes pending operations only,
  each once.
\<close>

section \<open>The queue as a map\<close>

definition live_op :: "relay_world \<Rightarrow> string \<Rightarrow> string \<Rightarrow> sandbox_op option" where
  "live_op w ws k = map_option en_value (spec_get (lw_now w) (abs_db (lw_ops w)) (ws, RELAY_SCOPE, k))"

definition relay_ok :: "string \<Rightarrow> relay_world \<Rightarrow> bool" where
  "relay_ok ws w \<longleftrightarrow> db_inv (lw_ops w) \<and> ws_ok (lw_ops w) ws \<and> (\<forall>v. storable (lw_ops w) v) \<and>
     (\<forall>k c. abs_db (lw_ops w) (ws, RELAY_SCOPE, k) = Some c \<longrightarrow> op_key (so_host (ce_value c)) (so_id (ce_value c)) = k)"

lemma relay_okD: "relay_ok ws w \<Longrightarrow> db_inv (lw_ops w)" "relay_ok ws w \<Longrightarrow> ws_ok (lw_ops w) ws"
  "relay_ok ws w \<Longrightarrow> storable (lw_ops w) v"
  unfolding relay_ok_def by blast+

lemma relay_ok_key: "relay_ok ws w \<Longrightarrow> abs_db (lw_ops w) (ws, RELAY_SCOPE, k) = Some c \<Longrightarrow>
    op_key (so_host (ce_value c)) (so_id (ce_value c)) = k"
  unfolding relay_ok_def by blast

lemma relay_ok_time [simp]: "relay_ok ws (w\<lparr>lw_now := t\<rparr>) = relay_ok ws w" "relay_ok ws (w\<lparr>lw_next := n\<rparr>) = relay_ok ws w"
  by (simp_all add: relay_ok_def)

lemma live_op_next [simp]: "live_op (w\<lparr>lw_next := n\<rparr>) = live_op w"
  by (simp add: live_op_def fun_eq_iff)

lemma get_op_live: "relay_ok ws w \<Longrightarrow> get_op ws k w = (Inr (live_op w ws k), w)"
  by (simp add: get_op_def rs_get_abs relay_okD(1) live_op_def)

lemma read_op_live: "relay_ok ws w \<Longrightarrow> read_op ws h i w = (Inr (live_op w ws (op_key h i)), w)"
  by (simp add: read_op_def get_op_live)

lemma live_op_key: "relay_ok ws w \<Longrightarrow> live_op w ws k = Some op \<Longrightarrow> op_key (so_host op) (so_id op) = k"
  by (auto simp: live_op_def spec_get_def dest: relay_ok_key split: option.splits if_splits)

lemma relay_scope: "CHR ''/'' \<notin> set RELAY_SCOPE"
  by (simp add: RELAY_SCOPE_def)

lemma write_op_run:
  assumes ok: "relay_ok ws w"
  obtains w' where "write_op ws op w = (Inr (), w')" "relay_ok ws w'" "lw_now w' = lw_now w" "lw_next w' = lw_next w"
    "\<And>k. live_op w' ws k = (if k = op_key (so_host op) (so_id op) then Some op else live_op w ws k)"
    "\<And>t k. k \<noteq> op_key (so_host op) (so_id op) \<Longrightarrow> live_op (w'\<lparr>lw_now := t\<rparr>) ws k = live_op (w\<lparr>lw_now := t\<rparr>) ws k"
    "\<And>t. t \<le> lw_now w + 1800000 \<Longrightarrow> live_op (w'\<lparr>lw_now := t\<rparr>) ws (op_key (so_host op) (so_id op)) = Some op"
proof -
  let ?a = "(ws, RELAY_SCOPE, op_key (so_host op) (so_id op))" and ?ex = "Some (op_expiry (lw_now w))"
  have ex: "expiry_live (lw_now w) ?ex" by (simp add: expiry_live_def op_expiry_def OP_TTL_SECONDS_def)
  show thesis
  proof (rule put_doc_cases [OF relay_okD(1) [OF ok] addr_ok_ws [OF relay_okD(2) [OF ok] relay_scope] ex,
        of "op_key (so_host op) (so_id op)" op "so_host op"])
    fix x d
    assume p: "put_doc (lw_now w) ?a op (so_host op) ?ex (lw_ops w) = (Inr x, d)"
      and d: "db_inv d" "addr_ok d = addr_ok (lw_ops w)" "storable d = storable (lw_ops w)"
      "abs_db d = spec_set (lw_now w) ?a op (so_host op) (norm_expiry (lw_ops w) ?ex) (abs_db (lw_ops w))"
      and live: "cell_live (lw_now w) \<lparr>ce_value = op, ce_updated_at = lw_now w, ce_updated_by = so_host op,
        ce_expires = norm_expiry (lw_ops w) ?ex\<rparr>"
    let ?w = "w\<lparr>lw_ops := d\<rparr>"
    show thesis
    proof (rule that [of ?w])
      show "write_op ws op w = (Inr (), ?w)" by (simp add: write_op_def on_ops_def zoom_run thenM_run p)
      show "relay_ok ws ?w"
        using ok d ws_ok_cong [OF d(2)] by (auto simp: relay_ok_def spec_set_def)
      show "live_op ?w ws k = (if k = op_key (so_host op) (so_id op) then Some op else live_op w ws k)" for k
        using live by (simp add: live_op_def d(4) spec_get_def spec_set_def)
      show "live_op (?w\<lparr>lw_now := t\<rparr>) ws k = live_op (w\<lparr>lw_now := t\<rparr>) ws k" if "k \<noteq> op_key (so_host op) (so_id op)" for t k
        using that by (simp add: live_op_def d(4) spec_get_def spec_set_def)
      have "cell_live t \<lparr>ce_value = op, ce_updated_at = lw_now w, ce_updated_by = so_host op,
        ce_expires = norm_expiry (lw_ops w) ?ex\<rparr>" if "t \<le> lw_now w + 1800000" for t
      proof (rule cell_live_norm)
        have "t div 1000 \<le> (lw_now w + 1800000) div 1000" using that by (rule zdiv_mono1) simp
        then show "expiry_live t ?ex" by (simp add: expiry_live_def op_expiry_def OP_TTL_SECONDS_def)
      qed
      then show "live_op (?w\<lparr>lw_now := t\<rparr>) ws (op_key (so_host op) (so_id op)) = Some op" if "t \<le> lw_now w + 1800000" for t
        using that by (simp add: live_op_def d(4) spec_get_def spec_set_def)
    qed simp_all
  qed (use relay_okD(3) [OF ok] in simp)
qed

lemma remove_op_run:
  assumes ok: "relay_ok ws w"
  shows "relay_ok ws (remove_op ws k w)" "lw_now (remove_op ws k w) = lw_now w"
    "live_op (remove_op ws k w) ws k' = (if k' = k then None else live_op w ws k')"
proof -
  obtain b d where p: "del_doc (ws, RELAY_SCOPE, k) (lw_ops w) = (Inr b, d)" using rs.del_total by blast
  note a = addr_ok_ws [OF relay_okD(2) [OF ok] relay_scope, of k]
  note del = del_doc_rs [OF p]
  have abs: "abs_db d = spec_delete (ws, RELAY_SCOPE, k) (abs_db (lw_ops w))"
    by (rule rs_delete_abs [OF relay_okD(1) [OF ok] a del])
  have "db_inv d" by (rule rs.del_inv [OF relay_okD(1) [OF ok] a p])
  moreover have "addr_ok d = addr_ok (lw_ops w)" "storable d = storable (lw_ops w)" using rs.del_conf [OF p] by blast+
  ultimately have "relay_ok ws (w\<lparr>lw_ops := d\<rparr>)"
    using ok ws_ok_cong [of d "lw_ops w"] by (auto simp: relay_ok_def abs spec_delete_def)
  moreover have "remove_op ws k w = w\<lparr>lw_ops := d\<rparr>"
    by (simp add: remove_op_def catchM_run on_ops_def zoom_run p)
  ultimately show "relay_ok ws (remove_op ws k w)" "lw_now (remove_op ws k w) = lw_now w"
    "live_op (remove_op ws k w) ws k' = (if k' = k then None else live_op w ws k')"
    by (simp_all add: live_op_def abs spec_get_def spec_delete_def)
qed

section \<open>The caller\<close>

text \<open>The others keep the queue well formed, whatever else they do to it.\<close>

definition orderly :: "string \<Rightarrow> (relay_world \<Rightarrow> relay_world) \<Rightarrow> bool" where
  "orderly ws others \<longleftrightarrow> (\<forall>w. relay_ok ws w \<longrightarrow> relay_ok ws (others w))"

lemma await_answer_run:
  assumes "orderly ws others" and "relay_ok ws w"
  shows "\<exists>res w'. await_answer others ws h i timeoutMs deadline w = (res, w') \<and> relay_ok ws w' \<and>
    lw_now w \<le> lw_now w' \<and> lw_now w' \<le> max (lw_now w) (deadline + 250) \<and>
    (case res of
       Inr ans \<Rightarrow> (\<exists>op. live_op w' ws (op_key h i) = Some op \<and> so_status op = OpDone \<and> ans = answer_of op)
     | Inl e \<Rightarrow> err_status e = Some 504 \<and> deadline < lw_now w' \<and>
         (\<forall>op. live_op w' ws (op_key h i) = Some op \<longrightarrow> so_status op \<noteq> OpDone))"
  using assms
proof (induction others ws h i timeoutMs deadline w rule: await_answer.induct)
  case (1 others ws h i timeoutMs deadline w)
  note read = read_op_live [OF 1(4), of h i]
  let ?c = "live_op w ws (op_key h i)"
  let ?next = "(others w)\<lparr>lw_now := lw_now w + RELAY_POLL_MS\<rparr>"
  have ok: "relay_ok ws ?next" using 1(3,4) by (simp add: orderly_def)
  consider (answered) op where "?c = Some op" "so_status op = OpDone"
    | (late) "deadline < lw_now w" "\<And>op. ?c = Some op \<Longrightarrow> so_status op \<noteq> OpDone"
    | (wait) "\<not> deadline < lw_now w" "\<And>op. ?c = Some op \<Longrightarrow> so_status op \<noteq> OpDone" by force
  then show ?case
  proof cases
    case (answered op)
    then show ?thesis using 1(4) read by (simp add: await_answer.simps [of others ws h i timeoutMs deadline w])
  next
    case late
    then have "await_answer others ws h i timeoutMs deadline w = (Inl (ServiceError (timeout_message h timeoutMs ?c) 504), w)"
      using read by (simp add: await_answer.simps [of others ws h i timeoutMs deadline w] split: option.split)
    then show ?thesis using late 1(4) by auto
  next
    case wait
    have step: "await_answer others ws h i timeoutMs deadline w = await_answer others ws h i timeoutMs deadline ?next"
      using wait read by (simp add: await_answer.simps [of others ws h i timeoutMs deadline w] split: option.split)
    have ih: "\<exists>res w'. await_answer others ws h i timeoutMs deadline ?next = (res, w') \<and> relay_ok ws w' \<and>
      lw_now ?next \<le> lw_now w' \<and> lw_now w' \<le> max (lw_now ?next) (deadline + 250) \<and>
      (case res of
         Inr ans \<Rightarrow> (\<exists>op. live_op w' ws (op_key h i) = Some op \<and> so_status op = OpDone \<and> ans = answer_of op)
       | Inl e \<Rightarrow> err_status e = Some 504 \<and> deadline < lw_now w' \<and>
           (\<forall>op. live_op w' ws (op_key h i) = Some op \<longrightarrow> so_status op \<noteq> OpDone))"
    proof (cases ?c)
      case None
      then show ?thesis using 1(1) [OF read [symmetric] refl None wait(1) 1(3) ok] by simp
    next
      case (Some op)
      then show ?thesis using 1(2) [OF read [symmetric] refl Some wait(2) [OF Some] wait(1) 1(3) ok] by simp
    qed
    have "lw_now ?next = lw_now w + 250" "lw_now w \<le> deadline" using wait(1) by (simp_all add: RELAY_POLL_MS_def)
    with ih show ?thesis unfolding step by fastforce
  qed
qed

text \<open>
  a dispatched operation ends within its budget, twenty seconds of slack and one poll
  interval, whatever happens to the queue meanwhile: with the answer the queue held for it as
  done, or with a 504 after the whole wait when it held none; either way the operation is
  then removed from the queue.
\<close>

theorem dispatch_ends_clean:
  assumes ok: "relay_ok ws w" and others: "orderly ws others" and i: "i = uuid (lw_next w)"
  shows "\<exists>res w1. dispatch_to_host uuid others ws h name args timeoutMs w = (res, remove_op ws (op_key h i) w1) \<and>
    live_op (remove_op ws (op_key h i) w1) ws (op_key h i) = None \<and>
    lw_now (remove_op ws (op_key h i) w1) \<le> max (lw_now w) (lw_now w + timeoutMs + 20250) \<and>
    (case res of
       Inr ans \<Rightarrow> (\<exists>op. live_op w1 ws (op_key h i) = Some op \<and> so_status op = OpDone \<and> ans = answer_of op)
     | Inl e \<Rightarrow> err_status e = Some 504 \<and> lw_now w + timeoutMs + 20000 < lw_now w1 \<and>
         (\<forall>op. live_op w1 ws (op_key h i) = Some op \<longrightarrow> so_status op \<noteq> OpDone))"
proof -
  let ?w = "w\<lparr>lw_next := Suc (lw_next w)\<rparr>"
  let ?op = "new_op i h name args timeoutMs (lw_now w)"
  have okw: "relay_ok ws ?w" using ok by simp
  obtain w0 where w0: "write_op ws ?op ?w = (Inr (), w0)" "relay_ok ws w0" "lw_now w0 = lw_now w"
    by (rule write_op_run [OF okw, of ?op]) auto
  from await_answer_run [OF others w0(2), of h i timeoutMs "lw_now w + timeoutMs + 20000"]
  obtain res w1 where a: "await_answer others ws h i timeoutMs (lw_now w + timeoutMs + 20000) w0 = (res, w1)" "relay_ok ws w1"
    "lw_now w1 \<le> max (lw_now w0) (lw_now w + timeoutMs + 20000 + 250)"
    and r: "case res of
       Inr ans \<Rightarrow> (\<exists>op. live_op w1 ws (op_key h i) = Some op \<and> so_status op = OpDone \<and> ans = answer_of op)
     | Inl e \<Rightarrow> err_status e = Some 504 \<and> lw_now w + timeoutMs + 20000 < lw_now w1 \<and>
         (\<forall>op. live_op w1 ws (op_key h i) = Some op \<longrightarrow> so_status op \<noteq> OpDone)" by blast
  have "dispatch_to_host uuid others ws h name args timeoutMs w = (res, remove_op ws (op_key h i) w1)"
    using w0(1,3) a(1) by (simp add: dispatch_to_host_def Let_def thenM_run finally_delete_def i [symmetric])
  moreover have "lw_now w1 \<le> max (lw_now w) (lw_now w + timeoutMs + 20250)" using a(3) w0(3) by simp
  ultimately show ?thesis using remove_op_run [OF a(2), of "op_key h i"] r by (intro exI [of _ res] exI [of _ w1]) simp
qed

section \<open>An exchange\<close>

lemma complete_op_run:
  assumes ok: "relay_ok ws w" and l: "live_op w ws (op_key h i) = Some op" "so_host op = h" "so_id op = i"
  obtains w' where "complete_op ws h i data err w = (Inr True, w')" "relay_ok ws w'" "lw_now w' = lw_now w"
    "\<And>t. t \<le> lw_now w + 1800000 \<Longrightarrow> live_op (w'\<lparr>lw_now := t\<rparr>) ws (op_key h i) = Some (completed_op (lw_now w) data err op)"
proof -
  let ?op = "completed_op (lw_now w) data err op"
  have k: "so_host ?op = h" "so_id ?op = i" using l by (simp_all add: completed_op_def Let_def split: option.split)
  obtain w' where w': "write_op ws ?op w = (Inr (), w')" "relay_ok ws w'" "lw_now w' = lw_now w"
    "\<And>t. t \<le> lw_now w + 1800000 \<Longrightarrow> live_op (w'\<lparr>lw_now := t\<rparr>) ws (op_key (so_host ?op) (so_id ?op)) = Some ?op"
    by (rule write_op_run [OF ok, of ?op]) blast
  have "complete_op ws h i data err w = (Inr True, w')"
    using w'(1) l by (simp add: complete_op_def bindM_run thenM_run read_op_live [OF ok])
  then show thesis by (rule that [OF _ w'(2,3)]) (use w'(4) k in simp)
qed

section \<open>The agent\<close>

definition taken :: "string \<Rightarrow> string list \<Rightarrow> relay_world \<Rightarrow> relay_world \<Rightarrow> sandbox_op \<Rightarrow> bool" where
  "taken ws ks w w' op \<longleftrightarrow> (\<exists>q. op = leased_op (lw_now w) q \<and> so_status q = OpPending \<and> op_key (so_host q) (so_id q) \<in> set ks \<and>
     live_op w ws (op_key (so_host q) (so_id q)) = Some q \<and> live_op w' ws (op_key (so_host q) (so_id q)) = Some op)"

lemma lease_keys_run:
  assumes "relay_ok ws w" and "distinct ks" and "length acc \<le> limit"
  shows "\<exists>ops w'. lease_keys limit ws ks acc w = (Inr (acc @ ops), w') \<and> relay_ok ws w' \<and> lw_now w' = lw_now w \<and>
    length (acc @ ops) \<le> limit \<and>
    list_all (taken ws ks w w') ops \<and>
    (\<forall>k. k \<notin> set ks \<longrightarrow> live_op w' ws k = live_op w ws k) \<and>
    (length (acc @ ops) < limit \<longrightarrow> list_all (\<lambda>k. map_option so_status (live_op w' ws k) \<noteq> Some OpPending) ks)"
  using assms
proof (induction ks arbitrary: acc w)
  case (Cons k ks)
  show ?case
  proof (cases "length acc \<ge> limit")
    case True
    with Cons.prems show ?thesis by simp
  next
    case False
    note get = get_op_live [OF Cons.prems(1), of k]
    have d: "distinct ks" "k \<notin> set ks" using Cons.prems(2) by simp_all
    show ?thesis
    proof (cases "\<exists>q. live_op w ws k = Some q \<and> so_status q = OpPending")
      case idle: False
      then have step: "lease_keys limit ws (k # ks) acc w = lease_keys limit ws ks acc w"
        using False get by (cases "live_op w ws k") (simp_all add: bindM_run)
      from Cons.IH [OF Cons.prems(1) d(1) Cons.prems(3)] obtain ops w' where
        ih: "lease_keys limit ws ks acc w = (Inr (acc @ ops), w')" "relay_ok ws w'" "lw_now w' = lw_now w" "length (acc @ ops) \<le> limit"
          "list_all (taken ws ks w w') ops"
          "\<forall>k. k \<notin> set ks \<longrightarrow> live_op w' ws k = live_op w ws k"
          "length (acc @ ops) < limit \<longrightarrow> list_all (\<lambda>k. map_option so_status (live_op w' ws k) \<noteq> Some OpPending) ks" by blast
      have "map_option so_status (live_op w' ws k) \<noteq> Some OpPending" using ih(6) d(2) idle by auto
      with ih step show ?thesis by (intro exI [of _ ops] exI [of _ w']) (auto simp: list_all_iff taken_def)
    next
      case True
      then obtain o1 where o1: "live_op w ws k = Some o1" "so_status o1 = OpPending" by blast
      have key: "op_key (so_host o1) (so_id o1) = k" by (rule live_op_key [OF Cons.prems(1) o1(1)])
      let ?l = "leased_op (lw_now w) o1"
      have lk: "op_key (so_host ?l) (so_id ?l) = k" "so_status ?l = OpLeased" using key by (simp_all add: leased_op_def)
      obtain w1 where w1: "write_op ws ?l w = (Inr (), w1)" "relay_ok ws w1" "lw_now w1 = lw_now w"
        "\<And>k'. live_op w1 ws k' = (if k' = k then Some ?l else live_op w ws k')"
        by (rule write_op_run [OF Cons.prems(1), of ?l]) (use lk in auto)
      have step: "lease_keys limit ws (k # ks) acc w = lease_keys limit ws ks (acc @ [?l]) w1"
        using False get o1 w1(1) by (simp add: bindM_run thenM_run)
      have "length (acc @ [?l]) \<le> limit" using False by simp
      from Cons.IH [OF w1(2) d(1) this] obtain ops w' where
        ih: "lease_keys limit ws ks (acc @ [?l]) w1 = (Inr ((acc @ [?l]) @ ops), w')" "relay_ok ws w'" "lw_now w' = lw_now w1"
          "length ((acc @ [?l]) @ ops) \<le> limit"
          "list_all (taken ws ks w1 w') ops"
          "\<forall>k. k \<notin> set ks \<longrightarrow> live_op w' ws k = live_op w1 ws k"
          "length ((acc @ [?l]) @ ops) < limit \<longrightarrow> list_all (\<lambda>k. map_option so_status (live_op w' ws k) \<noteq> Some OpPending) ks" by blast
      have at: "live_op w' ws k = Some ?l" using ih(6) d(2) w1(4) by simp
      have "list_all (taken ws (k # ks) w w') (?l # ops)"
        using ih(5) o1 key at w1(3,4) d(2) by (auto simp: list_all_iff taken_def split: if_splits)
      moreover have "\<forall>k'. k' \<notin> set (k # ks) \<longrightarrow> live_op w' ws k' = live_op w ws k'" using ih(6) w1(4) by simp
      ultimately show ?thesis using ih at lk(2) w1(3) step by (intro exI [of _ "?l # ops"] exI [of _ w']) simp
    qed
  qed
qed (simp_all)

lemma lease_limit_bounds: "1 \<le> lease_limit limit" "lease_limit limit \<le> 32"
  by (simp_all add: lease_limit_def split: option.split)

lemma lease_round:
  assumes "relay_ok ws w"
  obtains ops w' where "lease_keys limit ws (rs_list (lw_now w) (lw_ops w) ws RELAY_SCOPE (h @ ''/'')) [] w = (Inr ops, w')"
    "relay_ok ws w'" "lw_now w' = lw_now w" "length ops \<le> limit"
    "\<And>op. op \<in> set ops \<Longrightarrow> so_status op = OpLeased \<and> live_op w' ws (op_key (so_host op) (so_id op)) = Some op"
proof -
  let ?ks = "rs_list (lw_now w) (lw_ops w) ws RELAY_SCOPE (h @ ''/'')"
  have "distinct ?ks" using relay_okD(1) [OF assms] by (simp add: rs_list_scan scan_keys_distinct db_inv_wf)
  from lease_keys_run [OF assms this, of "[]" limit] obtain ops w' where
    r: "lease_keys limit ws ?ks [] w = (Inr ops, w')" "relay_ok ws w'" "lw_now w' = lw_now w" "length ops \<le> limit"
      "list_all (taken ws ?ks w w') ops" by auto
  have "so_status op = OpLeased \<and> live_op w' ws (op_key (so_host op) (so_id op)) = Some op" if "op \<in> set ops" for op
    using r(5) that by (auto simp: list_all_iff taken_def leased_op_def)
  with r show thesis by (intro that)
qed

lemma lease_loop_run:
  assumes "orderly ws others" and "relay_ok ws w"
  shows "\<exists>ops w'. lease_loop others limit ws h deadline w = (Inr ops, w') \<and> lw_now w' \<le> max (lw_now w) (deadline + 249) \<and>
    length ops \<le> limit \<and> (ops = [] \<longrightarrow> deadline \<le> lw_now w') \<and>
    list_all (\<lambda>op. so_status op = OpLeased \<and> live_op w' ws (op_key (so_host op) (so_id op)) = Some op) ops"
  using assms
proof (induction others limit ws h deadline w rule: lease_loop.induct)
  case (1 others limit ws h deadline w)
  obtain ops w1 where round: "lease_keys limit ws (rs_list (lw_now w) (lw_ops w) ws RELAY_SCOPE (h @ ''/'')) [] w = (Inr ops, w1)"
    and w1: "relay_ok ws w1" "lw_now w1 = lw_now w" "length ops \<le> limit"
    and ops: "\<And>op. op \<in> set ops \<Longrightarrow> so_status op = OpLeased \<and> live_op w1 ws (op_key (so_host op) (so_id op)) = Some op"
    using lease_round [OF 1(3), of limit h] by blast
  let ?next = "(others w1)\<lparr>lw_now := lw_now w + RELAY_POLL_MS\<rparr>"
  show ?case
  proof (cases "ops \<noteq> [] \<or> deadline \<le> lw_now w")
    case True
    with round have "lease_loop others limit ws h deadline w = (Inr ops, w1)" by (auto simp: lease_loop.simps)
    with True w1(2,3) ops show ?thesis by (auto simp: list_all_iff)
  next
    case False
    then have step: "lease_loop others limit ws h deadline w = lease_loop others limit ws h deadline ?next"
      using round by (simp add: lease_loop.simps [of others limit ws h deadline w])
    have "relay_ok ws ?next" using 1(2) w1(1) by (simp add: orderly_def)
    from 1(1) [OF round [symmetric] refl _ _ 1(2) this] False show ?thesis unfolding step by (fastforce simp: RELAY_POLL_MS_def)
  qed
qed

text \<open>
  A lease call always returns: within the longest wait and one poll interval, with at most
  thirty-two operations, each marked as leased in the store it leaves; it answers empty only
  after the whole wait.
\<close>

theorem lease_ops_returns:
  assumes ok: "relay_ok ws w" and others: "orderly ws others"
  shows "\<exists>ops w'. lease_ops others ws h maxWait limit w = (Inr ops, w') \<and> lw_now w' \<le> lw_now w + 25249 \<and> length ops \<le> 32 \<and>
    (ops = [] \<longrightarrow> lw_now w + (case maxWait of None \<Rightarrow> 25000 | Some m \<Rightarrow> min m 25000) \<le> lw_now w') \<and>
    list_all (\<lambda>op. so_status op = OpLeased \<and> live_op w' ws (op_key (so_host op) (so_id op)) = Some op) ops"
proof -
  let ?dl = "lw_now w + min (case maxWait of None \<Rightarrow> MAX_LEASE_WAIT_MS | Some m \<Rightarrow> m) MAX_LEASE_WAIT_MS"
  have dl: "?dl = lw_now w + (case maxWait of None \<Rightarrow> 25000 | Some m \<Rightarrow> min m 25000)" "?dl \<le> lw_now w + 25000"
    by (simp_all add: MAX_LEASE_WAIT_MS_def split: option.split)
  from lease_loop_run [OF others ok, of "lease_limit limit" h ?dl] lease_limit_bounds(2) [of limit] dl
  show ?thesis unfolding lease_ops_def by fastforce
qed

section \<open>An exchange\<close>

text \<open>An agent: it leases what its host has pending, with any wait and limit, and completes each
  operation it was given with the result it has for it. Until the time \<^verbatim>\<open>T\<close> it is away.\<close>

definition agent_round ::
  "string \<Rightarrow> string \<Rightarrow> (sandbox_op \<Rightarrow> json \<times> string option) \<Rightarrow> int option \<Rightarrow> int option \<Rightarrow> relay_world \<Rightarrow> relay_world" where
  "agent_round ws h result maxWait limit x =
     (case lease_ops (\<lambda>y. y) ws h maxWait limit x of
        (Inr ops, x') \<Rightarrow> fold (\<lambda>op y. snd (complete_op ws h (so_id op) (fst (result op)) (snd (result op)) y)) ops x'
      | (Inl e, x') \<Rightarrow> x')"

definition agent_from :: "int \<Rightarrow> (relay_world \<Rightarrow> relay_world) \<Rightarrow> relay_world \<Rightarrow> relay_world" where
  "agent_from T agent x = (if lw_now x < T then x else agent x)"

definition only_pending :: "string \<Rightarrow> string \<Rightarrow> relay_world \<Rightarrow> bool" where
  "only_pending ws k0 w \<longleftrightarrow> (\<forall>k q. live_op w ws k = Some q \<longrightarrow> so_status q = OpPending \<longrightarrow> k = k0)"

lemma lease_keys_none:
  assumes "relay_ok ws w" and "\<And>k q. k \<in> set ks \<Longrightarrow> live_op w ws k = Some q \<Longrightarrow> so_status q \<noteq> OpPending"
  shows "lease_keys limit ws ks acc w = (Inr acc, w)"
  using assms(2)
proof (induction ks)
  case (Cons k ks)
  have ih: "lease_keys limit ws ks acc w = (Inr acc, w)" by (rule Cons.IH) (use Cons.prems in auto)
  have "live_op w ws k = Some q \<Longrightarrow> so_status q \<noteq> OpPending" for q by (rule Cons.prems) simp_all
  with ih show ?case by (cases "live_op w ws k") (simp_all add: bindM_run get_op_live [OF assms(1)])
qed simp

lemma lease_keys_one:
  assumes ok: "relay_ok ws w" and q: "live_op w ws k0 = Some op" "so_status op = OpPending"
    and only: "only_pending ws k0 w"
    and w1: "write_op ws (leased_op (lw_now w) op) w = (Inr (), w1)" "relay_ok ws w1"
      "\<And>k. k \<noteq> k0 \<Longrightarrow> live_op w1 ws k = live_op w ws k"
    and "distinct ks" "k0 \<in> set ks" "0 < limit"
  shows "lease_keys limit ws ks [] w = (Inr [leased_op (lw_now w) op], w1)"
  using assms(8,9)
proof (induction ks)
  case (Cons k ks)
  show ?case
  proof (cases "k = k0")
    case True
    have "lease_keys limit ws ks [leased_op (lw_now w) op] w1 = (Inr [leased_op (lw_now w) op], w1)"
    proof (rule lease_keys_none [OF w1(2)])
      fix k' q assume k': "k' \<in> set ks" "live_op w1 ws k' = Some q"
      with Cons.prems(1) True have "k' \<noteq> k0" by auto
      with k' w1(3) only show "so_status q \<noteq> OpPending" by (auto simp: only_pending_def)
    qed
    with True assms(10) q w1(1) show ?thesis by (simp add: bindM_run thenM_run get_op_live [OF ok])
  next
    case False
    then have "map_option so_status (live_op w ws k) \<noteq> Some OpPending" using only by (auto simp: only_pending_def)
    then have "lease_keys limit ws (k # ks) [] w = lease_keys limit ws ks [] w"
      using assms(10) by (cases "live_op w ws k") (simp_all add: bindM_run get_op_live [OF ok])
    with Cons False show ?thesis by simp
  qed
qed simp

lemma pending_listed:
  assumes "relay_ok ws w" and "live_op w ws (op_key h i) = Some op" and "backslash \<notin> set h"
  shows "op_key h i \<in> set (rs_list (lw_now w) (lw_ops w) ws RELAY_SCOPE (h @ ''/''))"
proof -
  have "spec_get (lw_now w) (abs_db (lw_ops w)) (ws, RELAY_SCOPE, op_key h i) \<noteq> None" using assms(2) by (auto simp: live_op_def)
  then show ?thesis
    unfolding rs_list_scan scan_keys_mem [OF db_inv_wf [OF relay_okD(1) [OF assms(1)]]] spec_get_live
    using assms(3) by (auto simp: op_key_def like_sqlite_prefix starts_with_iff split: backend.split)
qed

lemma agent_round_run:
  assumes ok: "relay_ok ws w" and q: "live_op w ws (op_key h i) = Some op" "so_status op = OpPending" "so_host op = h" "so_id op = i"
    and only: "only_pending ws (op_key h i) w" and h: "backslash \<notin> set h"
  obtains w' where "agent_round ws h result maxWait limit w = w'" "relay_ok ws w'" "lw_now w' = lw_now w"
    "\<And>t. t \<le> lw_now w + 1800000 \<Longrightarrow> live_op (w'\<lparr>lw_now := t\<rparr>) ws (op_key h i) =
      Some (completed_op (lw_now w) (fst (result (leased_op (lw_now w) op))) (snd (result (leased_op (lw_now w) op))) (leased_op (lw_now w) op))"
proof -
  let ?l = "leased_op (lw_now w) op" and ?ks = "rs_list (lw_now w) (lw_ops w) ws RELAY_SCOPE (h @ ''/'')"
  have k: "so_host ?l = h" "so_id ?l = i" using q by (simp_all add: leased_op_def)
  obtain w1 where w1: "write_op ws ?l w = (Inr (), w1)" "relay_ok ws w1" "lw_now w1 = lw_now w"
    "\<And>k'. live_op w1 ws k' = (if k' = op_key h i then Some ?l else live_op w ws k')"
    by (rule write_op_run [OF ok, of ?l]) (simp only: k)
  have "distinct ?ks" using relay_okD(1) [OF ok] by (simp add: rs_list_scan scan_keys_distinct db_inv_wf)
  then have "lease_keys (lease_limit limit) ws ?ks [] w = (Inr [?l], w1)"
    using lease_limit_bounds(1) [of limit] w1(4) pending_listed [OF ok q(1) h]
    by (intro lease_keys_one [OF ok q(1,2) only w1(1,2)]) simp_all
  then have lease: "lease_ops (\<lambda>y. y) ws h maxWait limit w = (Inr [?l], w1)" by (simp add: lease_ops_def lease_loop.simps)
  have l1: "live_op w1 ws (op_key h i) = Some ?l" using w1(4) by simp
  obtain w2 where w2: "complete_op ws h i (fst (result ?l)) (snd (result ?l)) w1 = (Inr True, w2)" "relay_ok ws w2" "lw_now w2 = lw_now w1"
    "\<And>t. t \<le> lw_now w1 + 1800000 \<Longrightarrow> live_op (w2\<lparr>lw_now := t\<rparr>) ws (op_key h i) = Some (completed_op (lw_now w1) (fst (result ?l)) (snd (result ?l)) ?l)"
    by (rule complete_op_run [OF w1(2) l1 k]) blast
  have "agent_round ws h result maxWait limit w = w2" by (simp add: agent_round_def lease k w2(1))
  then show thesis by (rule that) (use w2 w1(3) in simp_all)
qed

text \<open>While the agent is away the caller polls.\<close>

lemma only_pending_later: "only_pending ws k0 w \<Longrightarrow> lw_now w \<le> t \<Longrightarrow> only_pending ws k0 (w\<lparr>lw_now := t\<rparr>)"
proof -
  assume only: "only_pending ws k0 w" and t: "lw_now w \<le> t"
  have "live_op w ws k = Some q" if "live_op (w\<lparr>lw_now := t\<rparr>) ws k = Some q" for k q
  proof -
    have "lw_now w div 1000 \<le> t div 1000" using t by (rule zdiv_mono1) simp
    with that show ?thesis by (auto simp: live_op_def spec_get_def cell_live_def split: option.splits if_splits)
  qed
  with only show ?thesis by (auto simp: only_pending_def)
qed

lemma await_until:
  assumes "relay_ok ws w" and "only_pending ws (op_key h i) w" and "backslash \<notin> set h"
    and op: "so_status op = OpPending" "so_host op = h" "so_id op = i" "so_error op = None"
    and live: "\<And>t. lw_now w \<le> t \<Longrightarrow> t = lw_now w \<or> t < T + 250 \<Longrightarrow> live_op (w\<lparr>lw_now := t\<rparr>) ws (op_key h i) = Some op"
    and T: "T + 250 \<le> deadline" "lw_now w \<le> deadline"
  shows "\<exists>t w'. lw_now w \<le> t \<and> T \<le> t \<and> (t = lw_now w \<or> t < T + 250) \<and> relay_ok ws w' \<and> lw_now w' = t + 250 \<and>
    await_answer (agent_from T (agent_round ws h result maxWait limit)) ws h i timeoutMs deadline w =
      (Inr (case snd (result (leased_op t op)) of Some e \<Rightarrow> AnswerError e | None \<Rightarrow> AnswerData (fst (result (leased_op t op)))), w')"
  using assms(1,2) live T(2)
proof (induction "nat (T - lw_now w)" arbitrary: w rule: less_induct)
  case less
  let ?agent = "agent_from T (agent_round ws h result maxWait limit)"
  have l0: "live_op w ws (op_key h i) = Some op" using less.prems(3) [of "lw_now w"] by simp
  have step: "await_answer ?agent ws h i timeoutMs deadline w =
      await_answer ?agent ws h i timeoutMs deadline ((?agent w)\<lparr>lw_now := lw_now w + 250\<rparr>)"
    using l0 op(1) less.prems(4) by (simp add: await_answer.simps [of _ _ _ _ _ _ w] read_op_live [OF less.prems(1)] RELAY_POLL_MS_def)
  show ?case
  proof (cases "lw_now w < T")
    case True
    let ?w = "w\<lparr>lw_now := lw_now w + 250\<rparr>"
    have "\<exists>t w'. lw_now ?w \<le> t \<and> T \<le> t \<and> (t = lw_now ?w \<or> t < T + 250) \<and> relay_ok ws w' \<and> lw_now w' = t + 250 \<and>
      await_answer ?agent ws h i timeoutMs deadline ?w =
        (Inr (case snd (result (leased_op t op)) of Some e \<Rightarrow> AnswerError e | None \<Rightarrow> AnswerData (fst (result (leased_op t op)))), w')"
    proof (rule less.hyps)
      show "nat (T - lw_now ?w) < nat (T - lw_now w)" using True by simp
      show "relay_ok ws ?w" using less.prems(1) by simp
      show "only_pending ws (op_key h i) ?w" by (rule only_pending_later [OF less.prems(2)]) simp
      show "live_op (?w\<lparr>lw_now := t\<rparr>) ws (op_key h i) = Some op" if "lw_now ?w \<le> t" "t = lw_now ?w \<or> t < T + 250" for t
        using less.prems(3) [of t] that True by auto
      show "lw_now ?w \<le> deadline" using True T(1) by simp
    qed
    then obtain t w' where t: "lw_now ?w \<le> t \<and> T \<le> t \<and> (t = lw_now ?w \<or> t < T + 250) \<and> relay_ok ws w' \<and> lw_now w' = t + 250 \<and>
      await_answer ?agent ws h i timeoutMs deadline ?w =
        (Inr (case snd (result (leased_op t op)) of Some e \<Rightarrow> AnswerError e | None \<Rightarrow> AnswerData (fst (result (leased_op t op)))), w')" by blast
    have "?agent w = w" using True by (simp add: agent_from_def)
    with t True step show ?thesis by (intro exI [of _ t] exI [of _ w']) auto
  next
    case False
    let ?l = "leased_op (lw_now w) op"
    obtain w1 where w1: "agent_round ws h result maxWait limit w = w1" "relay_ok ws w1" "lw_now w1 = lw_now w"
      "\<And>t. t \<le> lw_now w + 1800000 \<Longrightarrow> live_op (w1\<lparr>lw_now := t\<rparr>) ws (op_key h i) = Some (completed_op (lw_now w) (fst (result ?l)) (snd (result ?l)) ?l)"
      by (rule agent_round_run [OF less.prems(1) l0 op(1-3) less.prems(2) assms(3),
            where result = result and maxWait = maxWait and limit = limit]) blast
    let ?w2 = "w1\<lparr>lw_now := lw_now w + 250\<rparr>" and ?done = "completed_op (lw_now w) (fst (result ?l)) (snd (result ?l)) ?l"
    have ok2: "relay_ok ws ?w2" using w1(2) by simp
    have l2: "live_op ?w2 ws (op_key h i) = Some ?done" using w1(4) [of "lw_now w + 250"] by simp
    have ans: "so_status ?done = OpDone" "answer_of ?done = (case snd (result ?l) of Some e \<Rightarrow> AnswerError e | None \<Rightarrow> AnswerData (fst (result ?l)))"
      using op(4) by (simp_all add: completed_op_def answer_of_def Let_def leased_op_def split: option.split)
    have "await_answer ?agent ws h i timeoutMs deadline w = (Inr (answer_of ?done), ?w2)"
      using l2 ans(1) False unfolding step
      by (simp add: await_answer.simps [of _ _ _ _ _ _ ?w2] read_op_live [OF ok2] agent_from_def w1(1))
    with False ok2 show ?thesis unfolding ans(2) by (intro exI [of _ "lw_now w"] exI [of _ ?w2]) simp
  qed
qed

text \<open>
  C19: in a workspace with no other pending operation, an operation dispatched to a host (its id
  without a backslash) whose agent is away until a time \<^verbatim>\<open>T\<close> is leased by that agent, with the
  caller's name and arguments, at the first of the caller's polls (every 250 ms) at which the agent is
  there, and the caller gets at its next poll exactly what the agent sent for it, data or error, and the
  operation is off the queue. \<^verbatim>\<open>T\<close> is anywhere up to 250 ms before the end of the caller's timeout
  and slack and of the operation's thirty minutes in the store.
\<close>

theorem relay_roundtrip:
  assumes ok: "relay_ok ws w" and t: "0 \<le> timeoutMs" and i: "i = uuid (lw_next w)" and h: "backslash \<notin> set h"
    and idle: "\<And>k q. live_op w ws k = Some q \<Longrightarrow> so_status q \<noteq> OpPending"
    and T: "T \<le> lw_now w + timeoutMs + 19750" "T \<le> lw_now w + 1799750"
  shows "\<exists>t w' op. op = leased_op t (new_op i h name args timeoutMs (lw_now w)) \<and>
    lw_now w \<le> t \<and> T \<le> t \<and> (t = lw_now w \<or> t < T + 250) \<and>
    dispatch_to_host uuid (agent_from T (agent_round ws h result maxWait limit)) ws h name args timeoutMs w =
      (Inr (case snd (result op) of Some e \<Rightarrow> AnswerError e | None \<Rightarrow> AnswerData (fst (result op))), w') \<and>
    live_op w' ws (op_key h i) = None \<and> lw_now w' = t + 250"
proof -
  let ?w = "w\<lparr>lw_next := Suc (lw_next w)\<rparr>" and ?others = "agent_from T (agent_round ws h result maxWait limit)"
  let ?op = "new_op i h name args timeoutMs (lw_now w)" and ?dl = "lw_now w + timeoutMs + 20000"
  have okw: "relay_ok ws ?w" using ok by simp
  have k: "so_status ?op = OpPending" "so_host ?op = h" "so_id ?op = i" "so_error ?op = None" by (simp_all add: new_op_def)
  obtain w0 where w0: "write_op ws ?op ?w = (Inr (), w0)" "relay_ok ws w0" "lw_now w0 = lw_now w"
    "\<And>k. live_op w0 ws k = (if k = op_key h i then Some ?op else live_op ?w ws k)"
    "\<And>t. t \<le> lw_now w + 1800000 \<Longrightarrow> live_op (w0\<lparr>lw_now := t\<rparr>) ws (op_key h i) = Some ?op"
    by (rule write_op_run [OF okw, of ?op, unfolded k]) simp
  have only: "only_pending ws (op_key h i) w0" using idle w0(4) by (auto simp: only_pending_def split: if_splits)
  have live: "live_op (w0\<lparr>lw_now := t\<rparr>) ws (op_key h i) = Some ?op" if "lw_now w0 \<le> t" "t = lw_now w0 \<or> t < T + 250" for t
    by (rule w0(5)) (use that T(2) w0(3) in auto)
  have bounds: "T + 250 \<le> ?dl" "lw_now w0 \<le> ?dl" using T(1) t w0(3) by simp_all
  obtain t w1 where a: "lw_now w0 \<le> t" "T \<le> t" "t = lw_now w0 \<or> t < T + 250" "relay_ok ws w1" "lw_now w1 = t + 250"
    "await_answer ?others ws h i timeoutMs ?dl w0 =
      (Inr (case snd (result (leased_op t ?op)) of Some e \<Rightarrow> AnswerError e | None \<Rightarrow> AnswerData (fst (result (leased_op t ?op)))), w1)"
    using await_until [OF w0(2) only h k live bounds, of result maxWait limit timeoutMs] by blast
  then have "dispatch_to_host uuid ?others ws h name args timeoutMs w =
      (Inr (case snd (result (leased_op t ?op)) of Some e \<Rightarrow> AnswerError e | None \<Rightarrow> AnswerData (fst (result (leased_op t ?op)))), remove_op ws (op_key h i) w1)"
    using w0(1,3) by (simp add: dispatch_to_host_def Let_def thenM_run finally_delete_def i [symmetric])
  with a w0(3) remove_op_run [OF a(4), of "op_key h i"] show ?thesis
    by (intro exI [of _ t] exI [of _ "remove_op ws (op_key h i) w1"] exI [of _ "leased_op t ?op"]) simp
qed

section \<open>A queue to start from\<close>

definition idle_relay :: relay_world where
  "idle_relay = \<lparr>lw_now = 0, lw_ops = doc_db undefined [], lw_next = 0\<rparr>"

lemma idle_relay_ok: "relay_ok ''w'' idle_relay"
  using doc_ok_inv [OF doc_db_ok [of "[]" undefined]]
  by (simp add: relay_ok_def idle_relay_def ws_ok_def doc_db_def abs_db_def storable_def)

lemma orderly_id: "orderly ws id"
  by (simp add: orderly_def)

theorem dispatch_ends_clean_witness:
  "\<exists>res w1. dispatch_to_host (\<lambda>_. ''i'') id ''w'' ''h'' ''exec'' JNull 1000 idle_relay = (res, remove_op ''w'' (op_key ''h'' ''i'') w1) \<and>
    live_op (remove_op ''w'' (op_key ''h'' ''i'') w1) ''w'' (op_key ''h'' ''i'') = None"
  using dispatch_ends_clean [OF idle_relay_ok orderly_id, of "''i''" "\<lambda>_. ''i''" "''h''" "''exec''" JNull 1000] by blast

lemma idle_relay_empty: "live_op idle_relay ws k = None"
  by (simp add: live_op_def idle_relay_def doc_db_def abs_db_def spec_get_def)

theorem relay_roundtrip_witness:
  "\<exists>w'. dispatch_to_host (\<lambda>_. ''i'') (agent_from 700 (agent_round ''w'' ''h'' (\<lambda>op. (so_args op, None)) None None)) ''w'' ''h'' ''exec'' (JStr ''ls'') 1000 idle_relay =
    (Inr (AnswerData (JStr ''ls'')), w') \<and> 950 \<le> lw_now w' \<and> lw_now w' < 1200"
proof -
  have "lw_now idle_relay = 0" by (simp add: idle_relay_def)
  with relay_roundtrip [OF idle_relay_ok, of 1000 "''i''" "\<lambda>_. ''i''" "''h''" 700 "''exec''" "JStr ''ls''" "\<lambda>op. (so_args op, None)" None None]
  show ?thesis by (auto simp: idle_relay_empty leased_op_def new_op_def)
qed

theorem lease_ops_returns_witness:
  "\<exists>ops w'. lease_ops id ''w'' ''h'' (Some 500) None idle_relay = (Inr ops, w') \<and> length ops \<le> 32 \<and> lw_now w' \<le> 25249"
  using lease_ops_returns [OF idle_relay_ok orderly_id, of "''h''" "Some 500" None] by (auto simp: idle_relay_def)

end
