(* ===== verification/Vcs_Store.thy ===== *)
theory Vcs_Store
  imports Doc_Store Vfs_Access Json_Text
begin

text \<open>
  Version control over the workspace files, \<^verbatim>\<open>server/workspace/src/vcs/store.ts\<close>, with the native
  operations built on it in \<^verbatim>\<open>native-dispatch.ts\<close>: snapshots of the visible tree, commits, refs,
  tags and channels, restore. Snapshots, commits and refs are documents of three reserved
  scopes; the file store is either of the two backends; the content hash, the collation of
  \<^verbatim>\<open>localeCompare\<close> and the lineage of the mounts (resolved over the network) are arguments.
\<close>

section \<open>Data\<close>

definition MAIN_REF :: string where
  "MAIN_REF = ''main''"

record snapshot_entry =
  sn_path :: string
  sn_hash :: string
  sn_mime :: string
  sn_size :: nat

datatype mount_type = GitMount | S3Mount

record mount_lineage =
  ml_prefix :: string
  ml_type :: mount_type
  ml_config :: string
  ml_token :: "string option"

record mount_provenance =
  mp_prefix :: string
  mp_source :: json
  mp_origin :: string
  mp_retrieved :: string

record vcs_snapshot =
  vn_id :: string
  vn_prefix :: string
  vn_entries :: "snapshot_entry list"
  vn_mounts :: "mount_lineage list option"

record commit_stats =
  cs_added :: nat
  cs_modified :: nat
  cs_removed :: nat

record vcs_commit =
  vc_id :: string
  vc_snapshot :: string
  vc_prefix :: string
  vc_parents :: "string list"
  vc_message :: string
  vc_author :: string
  vc_session :: "string option"
  vc_created :: string
  vc_stats :: commit_stats
  vc_provenance :: "mount_provenance list option"

record vcs_ref =
  rf_name :: string
  rf_commit :: string
  rf_updated :: string
  rf_by :: string

record vcs_diff =
  df_added :: "(string \<times> string) list"
  df_modified :: "(string \<times> string \<times> string) list"
  df_removed :: "(string \<times> string) list"

text \<open>The interface \<^verbatim>\<open>IFsStore\<close> as the version control uses it, and its two implementations.\<close>

record 'f file_api =
  fa_list_all :: "'f \<Rightarrow> string \<Rightarrow> string \<Rightarrow> svc_error + fs_entry list"
  fa_read :: "'f \<Rightarrow> string \<Rightarrow> string \<Rightarrow> string option \<Rightarrow> svc_error + fs_file option"
  fa_write :: "int \<Rightarrow> string \<Rightarrow> string \<Rightarrow> string \<Rightarrow> string \<Rightarrow> 'f \<Rightarrow> 'f"
  fa_remove :: "string \<Rightarrow> string \<Rightarrow> 'f \<Rightarrow> 'f"
  fa_remove_prefix :: "string \<Rightarrow> string \<Rightarrow> ('f, nat) prog"

definition all_of :: "(svc_error + fs_entry list) option \<Rightarrow> svc_error + fs_entry list" where
  "all_of r = (case r of Some x \<Rightarrow> x | None \<Rightarrow> Inl (PlainError ''unreachable''))"

definition sqlite_api :: "(string \<Rightarrow> string) \<Rightarrow> (fs_file list \<Rightarrow> fs_file) \<Rightarrow> sqlite_fs file_api" where
  "sqlite_api sha pick = \<lparr>fa_list_all = (\<lambda>s ws pre. all_of (fs_list_all (sq_list pick s ws pre))),
     fa_read = (\<lambda>s ws path hash. Inr (sq_read s ws path hash)),
     fa_write = (\<lambda>now ws path content mime s. snd (sq_write sha now ws path content mime None s)),
     fa_remove = (\<lambda>ws path s. snd (sq_remove ws path s)),
     fa_remove_prefix = (\<lambda>ws pre s. case sq_remove_prefix ws pre s of (n, s') \<Rightarrow> (Inr n, s'))\<rparr>"

text \<open>The byte size of a row only decides how a bulk deletion is cut into batches.\<close>

definition dsql_api :: "(string \<Rightarrow> string) \<Rightarrow> dsql_fs file_api" where
  "dsql_api sha = \<lparr>fa_list_all = (\<lambda>s ws pre. all_of (fs_list_all (ds_list s ws pre))), fa_read = ds_read,
     fa_write = (\<lambda>now ws path content mime s. snd (ds_write sha now ws path content mime None s)),
     fa_remove = (\<lambda>ws path s. snd (ds_remove ws path s)), fa_remove_prefix = ds_remove_prefix (\<lambda>e. length (fe_path e))\<rparr>"

record 'f vcs_env =
  ve_sha :: "string \<Rightarrow> string"
  ve_collate :: "string \<Rightarrow> string \<Rightarrow> int"
  ve_lineage :: "string \<Rightarrow> int \<Rightarrow> svc_error + mount_lineage list \<times> mount_provenance list"
  ve_files :: "'f file_api"

record 'f vcs_world =
  gw_now :: int
  gw_snaps :: "vcs_snapshot db"
  gw_commits :: "vcs_commit db"
  gw_refs :: "vcs_ref db"
  gw_files :: 'f

definition SNAPSHOTS_SCOPE :: string where
  "SNAPSHOTS_SCOPE = svc_scope ''vcs'' [''snapshots'']"

definition COMMITS_SCOPE :: string where
  "COMMITS_SCOPE = svc_scope ''vcs'' [''commits'']"

definition REFS_SCOPE :: string where
  "REFS_SCOPE = svc_scope ''vcs'' [''refs'']"

definition on_snaps :: "(vcs_snapshot db, 'a) prog \<Rightarrow> ('f vcs_world, 'a) prog" where
  "on_snaps = zoom gw_snaps (\<lambda>d w. w\<lparr>gw_snaps := d\<rparr>)"

definition on_commits :: "(vcs_commit db, 'a) prog \<Rightarrow> ('f vcs_world, 'a) prog" where
  "on_commits = zoom gw_commits (\<lambda>d w. w\<lparr>gw_commits := d\<rparr>)"

definition on_refs :: "(vcs_ref db, 'a) prog \<Rightarrow> ('f vcs_world, 'a) prog" where
  "on_refs = zoom gw_refs (\<lambda>d w. w\<lparr>gw_refs := d\<rparr>)"

section \<open>Ref names\<close>

definition lower_char :: "char \<Rightarrow> bool" where
  "lower_char c \<longleftrightarrow> CHR ''a'' \<le> c \<and> c \<le> CHR ''z''"

definition upper_char :: "char \<Rightarrow> bool" where
  "upper_char c \<longleftrightarrow> CHR ''A'' \<le> c \<and> c \<le> CHR ''Z''"

text \<open>\<^verbatim>\<open>/^[a-z][a-z0-9-]*(\/[A-Za-z0-9_-]+)*$/u\<close>, segment by segment.\<close>

definition ref_re :: "string \<Rightarrow> bool" where
  "ref_re s \<longleftrightarrow>
     (case split_on CHR ''/'' s of
        (c # cs) # segs \<Rightarrow> lower_char c \<and> list_all (\<lambda>d. lower_char d \<or> is_digit d \<or> d = CHR ''-'') cs \<and>
          list_all (\<lambda>g. g \<noteq> [] \<and> list_all (\<lambda>d. lower_char d \<or> upper_char d \<or> is_digit d \<or> d = CHR ''_'' \<or> d = CHR ''-'') g) segs
      | _ \<Rightarrow> False)"

definition ref_error :: svc_error where
  "ref_error = ServiceError (''ref must match /^[a-z][a-z0-9-]*('' @ [backslash] @ ''/[A-Za-z0-9_-]+)*$/u'') 400"

definition ref_name :: "json \<Rightarrow> svc_error + string" where
  "ref_name v =
     (case v of
        JUndefined \<Rightarrow> Inr MAIN_REF
      | JNull \<Rightarrow> Inr MAIN_REF
      | JStr s \<Rightarrow> if s = [] then Inr MAIN_REF else if ref_re s then Inr s else Inl ref_error
      | _ \<Rightarrow> Inl ref_error)"

section \<open>Snapshots\<close>

definition visible_entries :: "'f vcs_env \<Rightarrow> string \<Rightarrow> string \<Rightarrow> ('f vcs_world, fs_entry list) prog" where
  "visible_entries env ws pre w =
     (map_sum id (filter (\<lambda>e. \<not> is_service_path (fe_path e) \<and> \<not> is_hidden_data_path (fe_path e) STRUCTURAL_HIDDEN_ROOTS))
        (fa_list_all (ve_files env) (gw_files w) ws pre), w)"

definition mount_line :: "mount_lineage \<Rightarrow> string" where
  "mount_line m = ''mount '' @ ml_config m @ '' '' @ (case ml_token m of Some t \<Rightarrow> t | None \<Rightarrow> ''-'') @ '' '' @ ml_prefix m"

definition snapshot_lines :: "snapshot_entry list \<Rightarrow> mount_lineage list option \<Rightarrow> string \<Rightarrow> string list" where
  "snapshot_lines entries mounts pre =
     map (\<lambda>e. sn_hash e @ '' '' @ sn_path e) entries @
     map mount_line (case mounts of Some ms \<Rightarrow> ms | None \<Rightarrow> []) @
     (if pre \<noteq> [] then [''prefix '' @ pre] else [])"

definition snapshot_id :: "'f vcs_env \<Rightarrow> snapshot_entry list \<Rightarrow> mount_lineage list option \<Rightarrow> string \<Rightarrow> string" where
  "snapshot_id env entries mounts pre = ve_sha env (join [CHR 0x0A] (snapshot_lines entries mounts pre))"

definition snapshot_entry_of :: "fs_entry \<Rightarrow> snapshot_entry" where
  "snapshot_entry_of e = \<lparr>sn_path = fe_path e, sn_hash = fe_hash e, sn_mime = fe_mime e, sn_size = fe_size e\<rparr>"

definition build_snapshot :: "'f vcs_env \<Rightarrow> fs_entry list \<Rightarrow> string \<Rightarrow> mount_lineage list option \<Rightarrow> vcs_snapshot" where
  "build_snapshot env entries pre mounts =
     (let sorted = map snapshot_entry_of (js_sort (\<lambda>a b. ve_collate env (fe_path a) (fe_path b)) entries);
          sortedMounts = (case mounts of
             Some (m # ms) \<Rightarrow> Some (js_sort (\<lambda>a b. ve_collate env (ml_prefix a) (ml_prefix b)) (m # ms))
           | _ \<Rightarrow> None)
      in \<lparr>vn_id = snapshot_id env sorted sortedMounts pre, vn_prefix = pre, vn_entries = sorted, vn_mounts = sortedMounts\<rparr>)"

definition save_snapshot :: "string \<Rightarrow> vcs_snapshot \<Rightarrow> ('f vcs_world, unit) prog" where
  "save_snapshot ws s w = on_snaps (write_svc_record (gw_now w) ws SNAPSHOTS_SCOPE (vn_id s) s SVC_SYSTEM_USER) w"

definition read_snapshot :: "string \<Rightarrow> string \<Rightarrow> ('f vcs_world, vcs_snapshot option) prog" where
  "read_snapshot ws i w = (read_svc_record (gw_now w) (gw_snaps w) ws SNAPSHOTS_SCOPE i, w)"

text \<open>\<^verbatim>\<open>new Map(pairs)\<close>: a repeated path keeps its place and takes the last hash.\<close>

definition hash_map :: "snapshot_entry list \<Rightarrow> (string \<times> string) list" where
  "hash_map entries = foldl (\<lambda>m e. mset_at (sn_path e) (sn_hash e) m) [] entries"

definition diff_snapshots :: "vcs_snapshot option \<Rightarrow> vcs_snapshot \<Rightarrow> vcs_diff" where
  "diff_snapshots from to =
     (let before = hash_map (case from of Some s \<Rightarrow> vn_entries s | None \<Rightarrow> []);
          prior = (\<lambda>e. mget before (sn_path e))
      in \<lparr>df_added = map (\<lambda>e. (sn_path e, sn_hash e)) (filter (\<lambda>e. prior e = None) (vn_entries to)),
          df_modified = map (\<lambda>e. (sn_path e, the (prior e), sn_hash e))
            (filter (\<lambda>e. prior e \<noteq> None \<and> prior e \<noteq> Some (sn_hash e)) (vn_entries to)),
          df_removed = filter (\<lambda>(p, h). p \<notin> set (map sn_path (vn_entries to))) before\<rparr>)"

section \<open>Commits\<close>

definition read_commit :: "string \<Rightarrow> string \<Rightarrow> ('f vcs_world, vcs_commit option) prog" where
  "read_commit ws i w =
     (if i = [] then Inr None else read_svc_record (gw_now w) (gw_commits w) ws COMMITS_SCOPE i, w)"

definition write_commit :: "string \<Rightarrow> vcs_commit \<Rightarrow> ('f vcs_world, unit) prog" where
  "write_commit ws c w = on_commits (write_svc_record (gw_now w) ws COMMITS_SCOPE (vc_id c) c (vc_author c)) w"

record commit_options =
  co_snapshot :: vcs_snapshot
  co_parents :: "string list"
  co_message :: string
  co_author :: string
  co_session :: "string option"
  co_provenance :: "mount_provenance list option"

definition provenance_json :: "mount_provenance \<Rightarrow> json" where
  "provenance_json p = JObj [(''prefix'', JStr (mp_prefix p)), (''source'', mp_source p),
     (''originDomain'', JStr (mp_origin p)), (''retrievedAt'', JStr (mp_retrieved p))]"

text \<open>The members of the commit's body in the order they are written.\<close>

definition commit_json :: "vcs_commit \<Rightarrow> json" where
  "commit_json c = JObj
     ([(''snapshot'', JStr (vc_snapshot c)), (''prefix'', JStr (vc_prefix c)), (''parents'', JArr (map JStr (vc_parents c))),
       (''message'', JStr (vc_message c)), (''author'', JStr (vc_author c))] @
      (case vc_session c of Some s \<Rightarrow> [(''sessionId'', JStr s)] | None \<Rightarrow> []) @
      [(''createdAt'', JStr (vc_created c)),
       (''stats'', JObj [(''added'', JNum (int (cs_added (vc_stats c)))), (''modified'', JNum (int (cs_modified (vc_stats c)))),
          (''removed'', JNum (int (cs_removed (vc_stats c))))])] @
      (case vc_provenance c of Some ps \<Rightarrow> [(''provenance'', JArr (map provenance_json ps))] | None \<Rightarrow> []))"

text \<open>\<^verbatim>\<open>{ id, ...body }\<close>: the id is the digest of the body, in which it does not occur.\<close>

definition seal_commit :: "'f vcs_env \<Rightarrow> vcs_commit \<Rightarrow> vcs_commit" where
  "seal_commit env c = c\<lparr>vc_id := ve_sha env (json_stringify (commit_json c))\<rparr>"

definition commit_body :: "commit_options \<Rightarrow> string \<Rightarrow> vcs_diff \<Rightarrow> vcs_commit" where
  "commit_body opt created diff =
     \<lparr>vc_id = [], vc_snapshot = vn_id (co_snapshot opt), vc_prefix = vn_prefix (co_snapshot opt), vc_parents = co_parents opt,
      vc_message = co_message opt, vc_author = co_author opt,
      vc_session = (if truthy (co_session opt) then co_session opt else None), vc_created = created,
      vc_stats = \<lparr>cs_added = length (df_added diff), cs_modified = length (df_modified diff), cs_removed = length (df_removed diff)\<rparr>,
      vc_provenance = (case co_provenance opt of Some (p # ps) \<Rightarrow> Some (p # ps) | _ \<Rightarrow> None)\<rparr>"

definition first_parent_snapshot :: "string \<Rightarrow> string list \<Rightarrow> ('f vcs_world, vcs_snapshot option) prog" where
  "first_parent_snapshot ws parents =
     bindM (case parents of p # ps \<Rightarrow> if p \<noteq> [] then read_commit ws p else ret None | [] \<Rightarrow> ret None) (\<lambda>parent.
     case parent of Some c \<Rightarrow> read_snapshot ws (vc_snapshot c) | None \<Rightarrow> ret None)"

definition create_commit :: "'f vcs_env \<Rightarrow> string \<Rightarrow> commit_options \<Rightarrow> ('f vcs_world, vcs_commit) prog" where
  "create_commit env ws opt =
     bindM (first_parent_snapshot ws (co_parents opt)) (\<lambda>parentSnapshot.
     bindM (gets (\<lambda>w. iso_of (gw_now w))) (\<lambda>now.
     let c = seal_commit env (commit_body opt now (diff_snapshots parentSnapshot (co_snapshot opt)))
     in thenM (write_commit ws c) (ret c)))"

fun log_walk :: "nat \<Rightarrow> string \<Rightarrow> string option \<Rightarrow> ('f vcs_world, vcs_commit list) prog" where
  "log_walk 0 ws cursor = ret []"
| "log_walk (Suc n) ws cursor =
     (if \<not> truthy cursor then ret []
      else bindM (read_commit ws (the cursor)) (\<lambda>r. case r of
        None \<Rightarrow> ret []
      | Some c \<Rightarrow> bindM (log_walk n ws (case vc_parents c of p # ps \<Rightarrow> Some p | [] \<Rightarrow> None)) (\<lambda>cs. ret (c # cs))))"

definition log_commits :: "string \<Rightarrow> string \<Rightarrow> int option \<Rightarrow> ('f vcs_world, vcs_commit list) prog" where
  "log_commits ws from limit = log_walk (nat (case limit of Some n \<Rightarrow> n | None \<Rightarrow> 50)) ws (Some from)"

section \<open>Refs\<close>

definition read_ref :: "string \<Rightarrow> string \<Rightarrow> ('f vcs_world, vcs_ref option) prog" where
  "read_ref ws name w = (read_svc_record (gw_now w) (gw_refs w) ws REFS_SCOPE name, w)"

definition write_ref :: "string \<Rightarrow> string \<Rightarrow> string \<Rightarrow> string \<Rightarrow> ('f vcs_world, vcs_ref) prog" where
  "write_ref ws name commit by_user w =
     (let r = \<lparr>rf_name = name, rf_commit = commit, rf_updated = iso_of (gw_now w), rf_by = by_user\<rparr>
      in thenM (on_refs (write_svc_record (gw_now w) ws REFS_SCOPE name r by_user)) (ret r) w)"

definition list_refs :: "'f vcs_env \<Rightarrow> string \<Rightarrow> string option \<Rightarrow> ('f vcs_world, vcs_ref list) prog" where
  "list_refs env ws pre w =
     (map_sum id (\<lambda>ds. js_sort (\<lambda>a b. ve_collate env (rf_name a) (rf_name b))
        (filter (\<lambda>r. \<not> truthy pre \<or> rf_name r = the pre \<or> starts_with (rf_name r) (the pre @ ''/'')) (map snd ds)))
        (list_svc_records (gw_now w) (gw_refs w) ws REFS_SCOPE []), w)"

definition write_tag :: "string \<Rightarrow> string \<Rightarrow> string \<Rightarrow> string \<Rightarrow> ('f vcs_world, vcs_ref) prog" where
  "write_tag ws name commit by_user =
     bindM (liftE (ref_name (JStr name))) (\<lambda>key.
     if \<not> starts_with key ''tag/'' then throw (ServiceError (''tag ref must start with tag/: '' @ name) 400)
     else bindM (read_ref ws key) (\<lambda>existing.
       case existing of
         Some r \<Rightarrow> throw (ServiceError (''tag already exists: '' @ key) 409)
       | None \<Rightarrow> write_ref ws key commit by_user))"

definition move_channel :: "string \<Rightarrow> string \<Rightarrow> string \<Rightarrow> string \<Rightarrow> ('f vcs_world, vcs_ref) prog" where
  "move_channel ws name commit by_user =
     bindM (liftE (ref_name (JStr name))) (\<lambda>key.
     if \<not> starts_with key ''channel/'' then throw (ServiceError (''channel ref must start with channel/: '' @ name) 400)
     else write_ref ws key commit by_user)"

definition tag_ref_name :: "string \<Rightarrow> string \<Rightarrow> string" where
  "tag_ref_name appId releaseId = ''tag/app/'' @ appId @ ''/'' @ releaseId"

definition channel_ref_name :: "string \<Rightarrow> string \<Rightarrow> string" where
  "channel_ref_name appId channel = ''channel/app/'' @ appId @ ''/'' @ channel"

definition app_ref_name :: "string \<Rightarrow> string" where
  "app_ref_name appId = ''app/'' @ appId"

definition filter_lineage_to_prefix ::
  "mount_lineage list \<times> mount_provenance list \<Rightarrow> string \<Rightarrow> mount_lineage list \<times> mount_provenance list" where
  "filter_lineage_to_prefix lineage scope =
     (if scope = [] then lineage
      else (filter (\<lambda>m. under_prefix (ml_prefix m) scope) (fst lineage), filter (\<lambda>p. under_prefix (mp_prefix p) scope) (snd lineage)))"

definition is_commit_prefix :: "string \<Rightarrow> bool" where
  "is_commit_prefix v \<longleftrightarrow> 8 \<le> length v \<and> length v \<le> 63 \<and>
     list_all (\<lambda>c. is_digit c \<or> (CHR ''a'' \<le> c \<and> c \<le> CHR ''f'')) v"

definition by_commit_prefix :: "string \<Rightarrow> string \<Rightarrow> ('f vcs_world, vcs_commit) prog" where
  "by_commit_prefix ws v =
     (let unknown = throw (ServiceError (''Unknown commit or ref: '' @ v) 404)
      in if \<not> is_commit_prefix v then unknown
         else bindM (gets (\<lambda>w. list_svc_keys (gw_now w) (gw_commits w) ws COMMITS_SCOPE v)) (\<lambda>matches.
           case matches of
             [] \<Rightarrow> unknown
           | [k] \<Rightarrow> bindM (read_commit ws k) (\<lambda>r. case r of Some c \<Rightarrow> ret c | None \<Rightarrow> unknown)
           | _ \<Rightarrow> throw (ServiceError (''Ambiguous commit prefix: '' @ v) 400)))"

definition resolve_commitish :: "string \<Rightarrow> string \<Rightarrow> ('f vcs_world, vcs_commit) prog" where
  "resolve_commitish ws v =
     bindM (read_commit ws v) (\<lambda>direct. case direct of
       Some c \<Rightarrow> ret c
     | None \<Rightarrow>
         bindM (if ref_re v
                then bindM (read_ref ws v) (\<lambda>r. case r of Some ref \<Rightarrow> read_commit ws (rf_commit ref) | None \<Rightarrow> ret None)
                else ret None) (\<lambda>head.
         case head of Some c \<Rightarrow> ret c | None \<Rightarrow> by_commit_prefix ws v))"

section \<open>Committing and restoring\<close>

record tree_options =
  to_message :: string
  to_author :: string
  to_session :: "string option"
  to_prefix :: "string option"
  to_ref :: json
  to_parents :: "string list option"

definition head_of :: "string \<Rightarrow> string \<Rightarrow> ('f vcs_world, vcs_commit option) prog" where
  "head_of ws key =
     bindM (read_ref ws key) (\<lambda>ref. case ref of Some r \<Rightarrow> read_commit ws (rf_commit r) | None \<Rightarrow> ret None)"

definition tree_parents :: "string list option \<Rightarrow> vcs_commit option \<Rightarrow> string list" where
  "tree_parents override head =
     (case override of Some ps \<Rightarrow> ps | None \<Rightarrow> (case head of Some c \<Rightarrow> [vc_id c] | None \<Rightarrow> []))"

definition unchanged_head :: "tree_options \<Rightarrow> vcs_snapshot \<Rightarrow> vcs_commit option \<Rightarrow> bool" where
  "unchanged_head opt snap head \<longleftrightarrow> map_option vc_snapshot head = Some (vn_id snap) \<and> to_parents opt = None"

definition commit_tree :: "'f vcs_env \<Rightarrow> string \<Rightarrow> tree_options \<Rightarrow> ('f vcs_world, vcs_commit \<times> bool) prog" where
  "commit_tree env ws opt =
     (let pre = (case to_prefix opt of Some p \<Rightarrow> p | None \<Rightarrow> [])
      in bindM (liftE (ref_name (to_ref opt))) (\<lambda>key.
         bindM (\<lambda>w. (ve_lineage env ws (gw_now w), w)) (\<lambda>raw.
         let lineage = filter_lineage_to_prefix raw pre
         in bindM (visible_entries env ws pre) (\<lambda>entries.
         let snap = build_snapshot env entries pre (Some (fst lineage))
         in bindM (head_of ws key) (\<lambda>head.
         if unchanged_head opt snap head then ret (the head, False)
         else thenM (save_snapshot ws snap)
              (bindM (create_commit env ws
                  \<lparr>co_snapshot = snap, co_parents = tree_parents (to_parents opt) head, co_message = to_message opt,
                   co_author = to_author opt, co_session = to_session opt, co_provenance = Some (snd lineage)\<rparr>) (\<lambda>c.
               thenM (write_ref ws key (vc_id c) (to_author opt)) (ret (c, True)))))))))"

definition within_filter :: "string option \<Rightarrow> string option \<Rightarrow> string \<Rightarrow> bool" where
  "within_filter path pre p \<longleftrightarrow>
     (if truthy path then p = the path else if truthy pre then p = the pre \<or> starts_with p (the pre @ ''/'') else True)"

text \<open>A read whose failure counts as nothing.\<close>

definition read_quiet :: "'f vcs_env \<Rightarrow> 'f \<Rightarrow> string \<Rightarrow> string \<Rightarrow> string option \<Rightarrow> fs_file option" where
  "read_quiet env s ws path hash = (case fa_read (ve_files env) s ws path hash of Inr r \<Rightarrow> r | Inl e \<Rightarrow> None)"

fun restore_entries ::
  "'f vcs_env \<Rightarrow> int \<Rightarrow> string \<Rightarrow> (string \<Rightarrow> bool) \<Rightarrow> snapshot_entry list \<Rightarrow> 'f \<Rightarrow> (string list \<times> string list) \<times> 'f" where
  "restore_entries env now ws within [] s = (([], []), s)"
| "restore_entries env now ws within (e # es) s =
     (if \<not> within (sn_path e) then restore_entries env now ws within es s
      else if map_option fe_hash (read_quiet env s ws (sn_path e) None) = Some (sn_hash e) then restore_entries env now ws within es s
      else (case read_quiet env s ws (sn_path e) (Some (sn_hash e)) of
        None \<Rightarrow> (case restore_entries env now ws within es s of ((r, m), s') \<Rightarrow> ((r, sn_path e # m), s'))
      | Some f \<Rightarrow>
          (case restore_entries env now ws within es
              (fa_write (ve_files env) now ws (sn_path e) (ff_content f) (fe_mime f) s) of
             ((r, m), s') \<Rightarrow> ((sn_path e # r, m), s'))))"

definition restore_commit ::
  "'f vcs_env \<Rightarrow> string \<Rightarrow> vcs_commit \<Rightarrow> string option \<Rightarrow> string option \<Rightarrow> ('f vcs_world, string list \<times> string list) prog" where
  "restore_commit env ws c path pre =
     bindM (read_snapshot ws (vc_snapshot c)) (\<lambda>r. case r of
       None \<Rightarrow> throw (ServiceError (''Snapshot missing for commit '' @ vc_id c) 404)
     | Some snap \<Rightarrow> (\<lambda>w.
         case restore_entries env (gw_now w) ws (within_filter path pre) (vn_entries snap) (gw_files w) of
           (res, s') \<Rightarrow> (Inr res, w\<lparr>gw_files := s'\<rparr>)))"

section \<open>The native operations\<close>

definition filter_diff_by_prefix :: "vcs_diff \<Rightarrow> string option \<Rightarrow> vcs_diff" where
  "filter_diff_by_prefix d pre =
     (if \<not> truthy pre then d
      else \<lparr>df_added = filter (\<lambda>(p, h). under_prefix p (the pre)) (df_added d),
            df_modified = filter (\<lambda>(p, h, k). under_prefix p (the pre)) (df_modified d),
            df_removed = filter (\<lambda>(p, h). under_prefix p (the pre)) (df_removed d)\<rparr>)"

definition vcs_commit_op ::
  "'f vcs_env \<Rightarrow> string \<Rightarrow> string \<Rightarrow> string option \<Rightarrow> string option \<Rightarrow> json \<Rightarrow> ('f vcs_world, vcs_commit \<times> bool) prog" where
  "vcs_commit_op env ws user message pre ref =
     commit_tree env ws \<lparr>to_message = (case message of Some m \<Rightarrow> m | None \<Rightarrow> ''commit''), to_author = user, to_session = None,
       to_prefix = pre, to_ref = ref, to_parents = None\<rparr>"

definition vcs_log_op :: "string \<Rightarrow> int option \<Rightarrow> json \<Rightarrow> ('f vcs_world, vcs_commit list) prog" where
  "vcs_log_op ws limit ref =
     bindM (liftE (ref_name ref)) (\<lambda>key.
     bindM (read_ref ws key) (\<lambda>head. case head of
       None \<Rightarrow> ret []
     | Some r \<Rightarrow> log_commits ws (rf_commit r) limit))"

definition vcs_show_op :: "string \<Rightarrow> string \<Rightarrow> ('f vcs_world, vcs_commit \<times> string list \<times> vcs_diff) prog" where
  "vcs_show_op ws v =
     bindM (resolve_commitish ws v) (\<lambda>c.
     bindM (read_snapshot ws (vc_snapshot c)) (\<lambda>r. case r of
       None \<Rightarrow> throw (ServiceError (''Snapshot missing for commit '' @ vc_id c) 404)
     | Some snap \<Rightarrow>
         bindM (case vc_parents c of
                  p # ps \<Rightarrow> if p \<noteq> [] then catchM (bindM (resolve_commitish ws p) (\<lambda>x. ret (Some x))) (\<lambda>_. ret None) else ret None
                | [] \<Rightarrow> ret None) (\<lambda>parent.
         bindM (case parent of Some p \<Rightarrow> read_snapshot ws (vc_snapshot p) | None \<Rightarrow> ret None) (\<lambda>parentSnapshot.
         ret (c, sort (map sn_path (vn_entries snap)), diff_snapshots parentSnapshot snap)))))"

definition vcs_diff_op :: "string \<Rightarrow> string \<Rightarrow> string \<Rightarrow> string option \<Rightarrow> ('f vcs_world, string \<times> string \<times> vcs_diff) prog" where
  "vcs_diff_op ws from to pre =
     bindM (resolve_commitish ws from) (\<lambda>a.
     bindM (resolve_commitish ws to) (\<lambda>b.
     bindM (read_snapshot ws (vc_snapshot a)) (\<lambda>fromSnapshot.
     bindM (read_snapshot ws (vc_snapshot b)) (\<lambda>toSnapshot.
     case (fromSnapshot, toSnapshot) of
       (Some f, Some t) \<Rightarrow> ret (vc_id a, vc_id b, filter_diff_by_prefix (diff_snapshots (Some f) t) pre)
     | _ \<Rightarrow> throw (ServiceError ''Snapshot missing for a diff side'' 404)))))"

definition vcs_branches_op :: "'f vcs_env \<Rightarrow> string \<Rightarrow> ('f vcs_world, (string \<times> string) list) prog" where
  "vcs_branches_op env ws = bindM (list_refs env ws None) (\<lambda>rs. ret (map (\<lambda>r. (rf_name r, rf_commit r)) rs))"

definition vcs_restore_op ::
  "'f vcs_env \<Rightarrow> string \<Rightarrow> string \<Rightarrow> string option \<Rightarrow> string option \<Rightarrow> ('f vcs_world, string \<times> string list) prog" where
  "vcs_restore_op env ws v path pre =
     bindM (resolve_commitish ws v) (\<lambda>c.
     bindM (restore_commit env ws c path pre) (\<lambda>r. ret (vc_id c, fst r)))"

end
