(* ===== verification/Vcs_Laws.thy ===== *)
theory Vcs_Laws
  imports Vcs_Store Fs_Backends
begin

text \<open>
  The documents of the version control as maps, and how its operations change them; the locale
  \<^verbatim>\<open>file_versions\<close> states what restoring needs of the file store, and both backends provide it.
\<close>

section \<open>The documents\<close>

definition vcs_ok :: "string \<Rightarrow> 'f vcs_world \<Rightarrow> bool" where
  "vcs_ok ws w \<longleftrightarrow> doc_ok (gw_snaps w) \<and> doc_ok (gw_commits w) \<and> doc_ok (gw_refs w) \<and>
     ws_ok (gw_snaps w) ws \<and> ws_ok (gw_commits w) ws \<and> ws_ok (gw_refs w) ws \<and>
     (\<forall>v. storable (gw_snaps w) v) \<and> (\<forall>v. storable (gw_commits w) v) \<and> (\<forall>v. storable (gw_refs w) v)"

definition snap_at :: "'f vcs_world \<Rightarrow> string \<Rightarrow> string \<Rightarrow> vcs_snapshot option" where
  "snap_at w ws i = doc_at (gw_snaps w) ws SNAPSHOTS_SCOPE i"

definition commit_at :: "'f vcs_world \<Rightarrow> string \<Rightarrow> string \<Rightarrow> vcs_commit option" where
  "commit_at w ws i = (if i = [] then None else doc_at (gw_commits w) ws COMMITS_SCOPE i)"

definition ref_at :: "'f vcs_world \<Rightarrow> string \<Rightarrow> string \<Rightarrow> vcs_ref option" where
  "ref_at w ws name = doc_at (gw_refs w) ws REFS_SCOPE name"

lemma vcs_scopes: "CHR ''/'' \<notin> set SNAPSHOTS_SCOPE" "CHR ''/'' \<notin> set COMMITS_SCOPE" "CHR ''/'' \<notin> set REFS_SCOPE"
  by (simp_all add: SNAPSHOTS_SCOPE_def COMMITS_SCOPE_def REFS_SCOPE_def svc_scope_def SVC_SCOPE_PREFIX_def)

lemma read_snapshot_at: "vcs_ok ws w \<Longrightarrow> read_snapshot ws' i w = (Inr (snap_at w ws' i), w)"
  by (simp add: read_snapshot_def snap_at_def read_doc vcs_ok_def)

lemma read_commit_at: "vcs_ok ws w \<Longrightarrow> read_commit ws' i w = (Inr (commit_at w ws' i), w)"
  by (simp add: read_commit_def commit_at_def read_doc vcs_ok_def)

lemma read_ref_at: "vcs_ok ws w \<Longrightarrow> read_ref ws' name w = (Inr (ref_at w ws' name), w)"
  by (simp add: read_ref_def ref_at_def read_doc vcs_ok_def)

lemmas vcs_reads = read_snapshot_at read_commit_at read_ref_at

text \<open>What stays when one of the stores changes.\<close>

definition vcs_same :: "'f vcs_world \<Rightarrow> 'f vcs_world \<Rightarrow> bool" where
  "vcs_same w w' \<longleftrightarrow> gw_now w' = gw_now w \<and> gw_files w' = gw_files w"

lemma vcs_same_refl [simp]: "vcs_same w w"
  by (simp add: vcs_same_def)

lemma vcs_same_trans: "vcs_same w w' \<Longrightarrow> vcs_same w' w'' \<Longrightarrow> vcs_same w w''"
  by (simp add: vcs_same_def)

lemma save_snapshot_run:
  assumes "vcs_ok ws w"
  obtains w' where "save_snapshot ws s w = (Inr (), w')" "vcs_ok ws w'" "vcs_same w w'"
    "\<And>i. snap_at w' ws i = (if i = vn_id s then Some s else snap_at w ws i)" "commit_at w' = commit_at w" "ref_at w' = ref_at w"
proof (rule write_doc_run [of "gw_snaps w" ws SNAPSHOTS_SCOPE s "gw_now w" "vn_id s" SVC_SYSTEM_USER])
  fix d
  assume d: "write_svc_record (gw_now w) ws SNAPSHOTS_SCOPE (vn_id s) s SVC_SYSTEM_USER (gw_snaps w) = (Inr (), d)" "doc_ok d"
    "\<And>ws' s' k'. doc_at d ws' s' k' = (if ws' = ws \<and> s' = SNAPSHOTS_SCOPE \<and> k' = vn_id s then Some s else doc_at (gw_snaps w) ws' s' k')"
    "ws_ok d = ws_ok (gw_snaps w)" "storable d = storable (gw_snaps w)"
  show thesis
    by (rule that [of "w\<lparr>gw_snaps := d\<rparr>"])
      (use assms d in \<open>simp_all add: save_snapshot_def on_snaps_def zoom_run vcs_ok_def vcs_same_def snap_at_def commit_at_def ref_at_def fun_eq_iff\<close>)
qed (use assms vcs_scopes in \<open>simp_all add: vcs_ok_def\<close>)

lemma write_commit_run:
  assumes "vcs_ok ws w"
  obtains w' where "write_commit ws c w = (Inr (), w')" "vcs_ok ws w'" "vcs_same w w'"
    "\<And>i. commit_at w' ws i = (if i = vc_id c \<and> i \<noteq> [] then Some c else commit_at w ws i)" "snap_at w' = snap_at w" "ref_at w' = ref_at w"
proof (rule write_doc_run [of "gw_commits w" ws COMMITS_SCOPE c "gw_now w" "vc_id c" "vc_author c"])
  fix d
  assume d: "write_svc_record (gw_now w) ws COMMITS_SCOPE (vc_id c) c (vc_author c) (gw_commits w) = (Inr (), d)" "doc_ok d"
    "\<And>ws' s' k'. doc_at d ws' s' k' = (if ws' = ws \<and> s' = COMMITS_SCOPE \<and> k' = vc_id c then Some c else doc_at (gw_commits w) ws' s' k')"
    "ws_ok d = ws_ok (gw_commits w)" "storable d = storable (gw_commits w)"
  show thesis
    by (rule that [of "w\<lparr>gw_commits := d\<rparr>"])
      (use assms d in \<open>simp_all add: write_commit_def on_commits_def zoom_run vcs_ok_def vcs_same_def snap_at_def commit_at_def ref_at_def fun_eq_iff\<close>)
qed (use assms vcs_scopes in \<open>simp_all add: vcs_ok_def\<close>)

definition new_ref :: "'f vcs_world \<Rightarrow> string \<Rightarrow> string \<Rightarrow> string \<Rightarrow> vcs_ref" where
  "new_ref w name c u = \<lparr>rf_name = name, rf_commit = c, rf_updated = iso_of (gw_now w), rf_by = u\<rparr>"

lemma write_ref_run:
  assumes "vcs_ok ws w"
  obtains w' where "write_ref ws name c u w = (Inr (new_ref w name c u), w')" "vcs_ok ws w'" "vcs_same w w'"
    "\<And>n. ref_at w' ws n = (if n = name then Some (new_ref w name c u) else ref_at w ws n)" "snap_at w' = snap_at w" "commit_at w' = commit_at w"
proof (rule write_doc_run [of "gw_refs w" ws REFS_SCOPE "new_ref w name c u" "gw_now w" name u])
  fix d
  assume d: "write_svc_record (gw_now w) ws REFS_SCOPE name (new_ref w name c u) u (gw_refs w) = (Inr (), d)" "doc_ok d"
    "\<And>ws' s' k'. doc_at d ws' s' k' = (if ws' = ws \<and> s' = REFS_SCOPE \<and> k' = name then Some (new_ref w name c u) else doc_at (gw_refs w) ws' s' k')"
    "ws_ok d = ws_ok (gw_refs w)" "storable d = storable (gw_refs w)"
  have "write_ref ws name c u w = (Inr (new_ref w name c u), w\<lparr>gw_refs := d\<rparr>)"
    using d(1) by (simp add: write_ref_def on_refs_def zoom_run thenM_run new_ref_def Let_def)
  then show thesis
    by (rule that [of "w\<lparr>gw_refs := d\<rparr>"])
      (use assms d in \<open>simp_all add: vcs_ok_def vcs_same_def snap_at_def commit_at_def ref_at_def fun_eq_iff\<close>)
qed (use assms vcs_scopes in \<open>simp_all add: vcs_ok_def\<close>)

lemma head_of_at: "vcs_ok ws w \<Longrightarrow> head_of ws' key w = (Inr (Option.bind (ref_at w ws' key) (\<lambda>r. commit_at w ws' (rf_commit r))), w)"
  by (cases "ref_at w ws' key") (simp_all add: head_of_def bindM_run vcs_reads)

text \<open>The snapshot a new commit is compared with.\<close>

definition parent_snap :: "'f vcs_world \<Rightarrow> string \<Rightarrow> string list \<Rightarrow> vcs_snapshot option" where
  "parent_snap w ws ps = (case ps of [] \<Rightarrow> None | p # r \<Rightarrow> Option.bind (commit_at w ws p) (\<lambda>c. snap_at w ws (vc_snapshot c)))"

lemma first_parent_at: "vcs_ok ws w \<Longrightarrow> first_parent_snapshot ws' ps w = (Inr (parent_snap w ws' ps), w)"
proof (cases ps)
  case (Cons p r)
  assume "vcs_ok ws w"
  then show ?thesis using Cons
    by (cases "commit_at w ws' p") (auto simp: first_parent_snapshot_def parent_snap_def bindM_run vcs_reads commit_at_def split: if_splits)
qed (simp add: first_parent_snapshot_def parent_snap_def bindM_run)

definition made_commit :: "'f vcs_env \<Rightarrow> 'f vcs_world \<Rightarrow> string \<Rightarrow> commit_options \<Rightarrow> vcs_commit" where
  "made_commit env w ws opt = seal_commit env (commit_body opt (iso_of (gw_now w)) (diff_snapshots (parent_snap w ws (co_parents opt)) (co_snapshot opt)))"

lemma create_commit_run:
  assumes "vcs_ok ws w"
  obtains w' where "create_commit env ws opt w = (Inr (made_commit env w ws opt), w')" "vcs_ok ws w'" "vcs_same w w'"
    "\<And>i. commit_at w' ws i = (if i = vc_id (made_commit env w ws opt) \<and> i \<noteq> [] then Some (made_commit env w ws opt) else commit_at w ws i)"
    "snap_at w' = snap_at w" "ref_at w' = ref_at w"
proof (rule write_commit_run [OF assms, of "made_commit env w ws opt"])
  fix w'
  assume w': "write_commit ws (made_commit env w ws opt) w = (Inr (), w')" "vcs_ok ws w'" "vcs_same w w'"
    "\<And>i. commit_at w' ws i = (if i = vc_id (made_commit env w ws opt) \<and> i \<noteq> [] then Some (made_commit env w ws opt) else commit_at w ws i)"
    "snap_at w' = snap_at w" "ref_at w' = ref_at w"
  have "create_commit env ws opt w = (Inr (made_commit env w ws opt), w')"
    using w'(1) by (simp add: create_commit_def bindM_run thenM_run first_parent_at [OF assms] made_commit_def Let_def)
  then show thesis using w' by (intro that [of w'])
qed

section \<open>Files\<close>

text \<open>An entry that has to be restored, and whose content is still there.\<close>

definition stale :: "'f vcs_env \<Rightarrow> 'f \<Rightarrow> string \<Rightarrow> (string \<Rightarrow> bool) \<Rightarrow> snapshot_entry \<Rightarrow> bool" where
  "stale env s ws within e \<longleftrightarrow> within (sn_path e) \<and> map_option fe_hash (read_quiet env s ws (sn_path e) None) \<noteq> Some (sn_hash e)"

definition kept :: "'f vcs_env \<Rightarrow> 'f \<Rightarrow> string \<Rightarrow> snapshot_entry \<Rightarrow> bool" where
  "kept env s ws e \<longleftrightarrow> read_quiet env s ws (sn_path e) (Some (sn_hash e)) \<noteq> None"

locale file_versions =
  fixes sha :: "string \<Rightarrow> string" and api :: "'f file_api" and inv :: "int \<Rightarrow> 'f \<Rightarrow> bool" and latest :: "'f \<Rightarrow> string \<Rightarrow> string \<Rightarrow> fs_file option"
  assumes current: "inv now s \<Longrightarrow> fa_read api s ws p None = Inr (latest s ws p)"
    and pinned: "inv now s \<Longrightarrow> h \<noteq> [] \<Longrightarrow> fa_read api s ws p (Some h) = Inr (Some f) \<Longrightarrow> sha (ff_content f) = h"
    and write_inv: "inv now s \<Longrightarrow> inv now (fa_write api now ws p c m s)"
    and write_latest: "inv now s \<Longrightarrow> latest (fa_write api now ws p c m s) ws' p' =
      (if ws' = ws \<and> p' = p then Some (new_file sha now p c m) else latest s ws' p')"
    and write_other: "inv now s \<Longrightarrow> p' \<noteq> p \<Longrightarrow> fa_read api (fa_write api now ws p c m s) ws p' ver = fa_read api s ws p' ver"
begin

lemma write_frame:
  assumes "inv now s" and "ve_files env = api" and "p \<noteq> sn_path e"
  shows "stale env (fa_write api now ws p c m s) ws within e = stale env s ws within e"
    "kept env (fa_write api now ws p c m s) ws e = kept env s ws e"
  using write_other [OF assms(1), of "sn_path e" p] assms(2,3) by (auto simp: stale_def kept_def read_quiet_def)

text \<open>Exactly the stale entries are treated, those whose content is still there are restored to
  it, and every other path is as before.\<close>

lemma restore_exact:
  assumes "inv now s" and "ve_files env = api" and "distinct (map sn_path es)" and "\<forall>e \<in> set es. sn_hash e \<noteq> []"
  shows "\<exists>s'. restore_entries env now ws within es s =
      ((map sn_path (filter (\<lambda>e. stale env s ws within e \<and> kept env s ws e) es),
        map sn_path (filter (\<lambda>e. stale env s ws within e \<and> \<not> kept env s ws e) es)), s') \<and> inv now s' \<and>
    (\<forall>e \<in> set es. stale env s ws within e \<longrightarrow> kept env s ws e \<longrightarrow> map_option fe_hash (latest s' ws (sn_path e)) = Some (sn_hash e)) \<and>
    (\<forall>ws' p. \<not> (ws' = ws \<and> p \<in> sn_path ` {e \<in> set es. stale env s ws within e \<and> kept env s ws e}) \<longrightarrow> latest s' ws' p = latest s ws' p)"
  using assms
proof (induction es arbitrary: s)
  case (Cons e es)
  note inv = Cons.prems(1)
  have d: "sn_path e \<notin> sn_path ` set es" "distinct (map sn_path es)" using Cons.prems(3) by simp_all
  have ne: "sn_hash e \<noteq> []" "\<forall>e \<in> set es. sn_hash e \<noteq> []" using Cons.prems(4) by simp_all
  show ?case
  proof (cases "stale env s ws within e \<and> kept env s ws e")
    case False
    have step: "restore_entries env now ws within (e # es) s =
        (case restore_entries env now ws within es s of ((r, m), s') \<Rightarrow> ((r, if stale env s ws within e then sn_path e # m else m), s'))"
    proof (cases "stale env s ws within e")
      case True
      with False have k: "read_quiet env s ws (sn_path e) (Some (sn_hash e)) = None" by (simp add: kept_def)
      show ?thesis using True unfolding restore_entries.simps stale_def k by (simp only: simp_thms if_True if_False option.case)
    next
      case stay: False
      then have "restore_entries env now ws within (e # es) s = restore_entries env now ws within es s"
        unfolding restore_entries.simps stale_def by presburger
      then show ?thesis using stay by (simp split: prod.split)
    qed
    from Cons.IH [OF inv Cons.prems(2) d(2) ne(2)] obtain s' where ih: "restore_entries env now ws within es s =
        ((map sn_path (filter (\<lambda>x. stale env s ws within x \<and> kept env s ws x) es),
          map sn_path (filter (\<lambda>x. stale env s ws within x \<and> \<not> kept env s ws x) es)), s')" "inv now s'"
      "\<forall>x \<in> set es. stale env s ws within x \<longrightarrow> kept env s ws x \<longrightarrow> map_option fe_hash (latest s' ws (sn_path x)) = Some (sn_hash x)"
      "\<forall>ws' p. \<not> (ws' = ws \<and> p \<in> sn_path ` {x \<in> set es. stale env s ws within x \<and> kept env s ws x}) \<longrightarrow> latest s' ws' p = latest s ws' p"
      by blast
    have "{x \<in> set (e # es). stale env s ws within x \<and> kept env s ws x} = {x \<in> set es. stale env s ws within x \<and> kept env s ws x}"
      using False by auto
    then show ?thesis using step ih False by (intro exI [of _ s']) (simp del: map_option_eq_Some)
  next
    case True
    then obtain f where f: "read_quiet env s ws (sn_path e) (Some (sn_hash e)) = Some f" by (auto simp: kept_def)
    let ?s = "fa_write api now ws (sn_path e) (ff_content f) (fe_mime f) s"
    have step: "restore_entries env now ws within (e # es) s =
        (case restore_entries env now ws within es ?s of ((r, m), s') \<Rightarrow> ((sn_path e # r, m), s'))"
      using True unfolding restore_entries.simps stale_def f Cons.prems(2) by (simp only: simp_thms if_True if_False option.case)
    have same: "stale env ?s ws within x = stale env s ws within x \<and> kept env ?s ws x = kept env s ws x" if "x \<in> set es" for x
      using write_frame [OF inv Cons.prems(2), of "sn_path e" x] d(1) that by fastforce
    have "fa_read api s ws (sn_path e) (Some (sn_hash e)) = Inr (Some f)"
      using f Cons.prems(2) by (auto simp: read_quiet_def split: sum.splits)
    then have sha: "sha (ff_content f) = sn_hash e" by (rule pinned [OF inv ne(1)])
    have put: "map_option fe_hash (latest ?s ws (sn_path e)) = Some (sn_hash e)"
      using sha by (simp add: write_latest [OF inv] new_file_def)
    have flt: "filter (\<lambda>x. stale env ?s ws within x \<and> kept env ?s ws x) es = filter (\<lambda>x. stale env s ws within x \<and> kept env s ws x) es"
      "filter (\<lambda>x. stale env ?s ws within x \<and> \<not> kept env ?s ws x) es = filter (\<lambda>x. stale env s ws within x \<and> \<not> kept env s ws x) es"
      "{x \<in> set es. stale env ?s ws within x \<and> kept env ?s ws x} = {x \<in> set es. stale env s ws within x \<and> kept env s ws x}"
      using same by (auto cong: filter_cong)
    from Cons.IH [OF write_inv [OF inv] Cons.prems(2) d(2) ne(2), of ws "sn_path e" "ff_content f" "fe_mime f"]
    obtain s' where ih: "restore_entries env now ws within es ?s =
        ((map sn_path (filter (\<lambda>x. stale env s ws within x \<and> kept env s ws x) es),
          map sn_path (filter (\<lambda>x. stale env s ws within x \<and> \<not> kept env s ws x) es)), s')" "inv now s'"
      and at: "\<And>x. x \<in> set es \<Longrightarrow> stale env s ws within x \<Longrightarrow> kept env s ws x \<Longrightarrow> map_option fe_hash (latest s' ws (sn_path x)) = Some (sn_hash x)"
      and off: "\<And>ws' p. \<not> (ws' = ws \<and> p \<in> sn_path ` {x \<in> set es. stale env s ws within x \<and> kept env s ws x}) \<Longrightarrow> latest s' ws' p = latest ?s ws' p"
      unfolding flt using same by auto
    have "latest s' ws (sn_path e) = latest ?s ws (sn_path e)" using d(1) by (intro off) auto
    then have "map_option fe_hash (latest s' ws (sn_path e)) = Some (sn_hash e)" using put by simp
    moreover have "latest s' ws' p = latest s ws' p"
      if "\<not> (ws' = ws \<and> p \<in> sn_path ` {x \<in> set (e # es). stale env s ws within x \<and> kept env s ws x})" for ws' p
    proof -
      have "latest s' ws' p = latest ?s ws' p" using that by (intro off) auto
      also have "\<dots> = latest s ws' p" using that True write_latest [OF inv, of ws "sn_path e" "ff_content f" "fe_mime f" ws' p] by auto
      finally show ?thesis .
    qed
    ultimately show ?thesis using step ih at True by (intro exI [of _ s']) (auto simp del: map_option_eq_Some)
  qed
qed simp

end

text \<open>On SQLite every row has the hash of its content; on DSQL every version row names a blob
  with the content of its hash.\<close>

definition sq_hashed :: "(string \<Rightarrow> string) \<Rightarrow> (fs_file list \<Rightarrow> fs_file) \<Rightarrow> int \<Rightarrow> sqlite_fs \<Rightarrow> bool" where
  "sq_hashed sha pick now s \<longleftrightarrow> sqfs_inv pick now s \<and> (\<forall>r \<in> set s. fe_hash (snd r) = sha (ff_content (snd r)))"

interpretation sqv: file_versions sha "sqlite_api sha pick" "sq_hashed sha pick" sq_latest for sha pick
proof unfold_locales
  show "fa_read (sqlite_api sha pick) s ws p None = Inr (sq_latest s ws p)" for s ws p
    by (simp add: sqlite_api_def sq_latest_def)
  show "sq_hashed sha pick now s \<Longrightarrow> h \<noteq> [] \<Longrightarrow> fa_read (sqlite_api sha pick) s ws p (Some h) = Inr (Some f) \<Longrightarrow> sha (ff_content f) = h"
    for now s h ws p f
  proof -
    assume inv: "sq_hashed sha pick now s" and h: "h \<noteq> []" "fa_read (sqlite_api sha pick) s ws p (Some h) = Inr (Some f)"
    then obtain r where "filter (\<lambda>f. fe_hash f = h) (sq_versions s ws p) = f # r"
      by (auto simp: sqlite_api_def sq_read_def split: list.splits)
    then have "f \<in> set (filter (\<lambda>f. fe_hash f = h) (sq_versions s ws p))" by simp
    then have "fe_hash f = h" "(ws, f) \<in> set s" by (auto dest: sq_versions_path)
    with inv show "sha (ff_content f) = h" by (force simp: sq_hashed_def)
  qed
  show "sq_hashed sha pick now s \<Longrightarrow> sq_hashed sha pick now (fa_write (sqlite_api sha pick) now ws p c m s)" for now s ws p c m
    using sq.wr_inv [of pick now s sha ws p c m None] by (auto simp: sq_hashed_def sqlite_api_def sq_write_def Let_def new_file_def)
  show "sq_hashed sha pick now s \<Longrightarrow> sq_latest (fa_write (sqlite_api sha pick) now ws p c m s) ws' p' =
      (if ws' = ws \<and> p' = p then Some (new_file sha now p c m) else sq_latest s ws' p')" for now s ws p c m ws' p'
    using sq_latest_write [of pick now s] by (simp add: sq_hashed_def sqlite_api_def)
  show "p' \<noteq> p \<Longrightarrow> fa_read (sqlite_api sha pick) (fa_write (sqlite_api sha pick) now ws p c m s) ws p' h = fa_read (sqlite_api sha pick) s ws p' h"
    for now s p' p ws c m h
  proof -
    assume "p' \<noteq> p"
    then have eq: "sq_versions (snd (sq_write sha now ws p c m None s)) ws p' = sq_versions s ws p'" by (simp add: sq_write_versions)
    show ?thesis by (simp only: sqlite_api_def file_api.select_convs sq_read_def eq)
  qed
qed

definition ds_hashed :: "(string \<Rightarrow> string) \<Rightarrow> int \<Rightarrow> dsql_fs \<Rightarrow> bool" where
  "ds_hashed sha now s \<longleftrightarrow> ds_inv sha now s \<and> (\<forall>((ws, p, h), e) \<in> set (fd_files s). fe_hash e = h \<and> blob_ok sha s ws p e)"

lemma set_alist_update: "set (AList.update k v m) \<subseteq> insert (k, v) (set m)"
  by (induction m) auto

lemma ds_hashed_write:
  assumes inv: "ds_hashed sha now s"
  shows "ds_hashed sha now (snd (ds_write sha t ws p c m v s))"
proof -
  let ?s = "snd (ds_write sha t ws p c m v s)" and ?e = "entry_of (new_file sha t p c m)"
  have old: "ds_inv sha now s" using inv by (simp add: ds_hashed_def)
  have blobs: "fd_blobs ?s = AList.update (fs_blob_key ws (sha c)) c (fd_blobs s)" by (simp add: ds_write_def Let_def new_file_def)
  have "fe_hash e = h \<and> blob_ok sha ?s w q e" if "((w, q, h), e) \<in> set (fd_files ?s)" for w q h e
  proof (cases "((w, q, h), e) \<in> set (fd_files s)")
    case True
    then have b: "fe_hash e = h" "blob_ok sha s w q e" using inv by (auto simp: ds_hashed_def)
    with ds_write_blobs [OF old b(2), of ws c] show ?thesis by (simp add: blob_ok_def blobs)
  next
    case False
    have files: "fd_files ?s = (if write_versioned v p then AList.update (ws, p, fe_hash ?e) ?e (fd_files s)
        else filter (\<lambda>((w, p', h), v). \<not> (w = ws \<and> p' = p)) (fd_files s))"
      by (simp add: ds_write_def put_index_def Let_def)
    have "((w, q, h), e) = ((ws, p, fe_hash ?e), ?e)"
      using that False set_alist_update [of "(ws, p, fe_hash ?e)" ?e "fd_files s"] unfolding files by (auto split: if_splits)
    then show ?thesis by (simp add: blob_ok_def blobs entry_of_def new_file_def)
  qed
  with ds_write_inv [OF old] show ?thesis by (auto simp: ds_hashed_def)
qed

lemma ds_read_current: "ds_inv sha now s \<Longrightarrow> ds_read s ws p None = Inr (ds_latest s ws p)"
proof (cases "map_of (fd_latest s) (ws, p)")
  case (Some e)
  assume "ds_inv sha now s"
  from ds_invD(3) [OF this Some] Some show ?thesis by (auto simp: ds_latest_def ds_read_def blob_ok_def)
qed (simp add: ds_latest_def ds_read_def)

lemma map_of_drop_files: "p' \<noteq> p \<Longrightarrow> map_of (filter (\<lambda>((w, q, h), v). w = ws \<longrightarrow> q \<noteq> p) m) (ws, p', h) = map_of m (ws, p', h)"
  by (induction m) auto

lemma ds_read_other:
  assumes inv: "ds_hashed sha now s" and p: "p' \<noteq> p"
  shows "ds_read (snd (ds_write sha t ws p c m v s)) ws p' h = ds_read s ws p' h"
proof -
  let ?s = "snd (ds_write sha t ws p c m v s)"
  have old: "ds_inv sha now s" using inv by (simp add: ds_hashed_def)
  have files: "map_of (fd_files ?s) (ws, p', g) = map_of (fd_files s) (ws, p', g)" for g
    using p by (simp add: ds_write_def put_index_def Let_def map_of_drop_files)
  have latest: "map_of (fd_latest ?s) (ws, p') = map_of (fd_latest s) (ws, p')" using p by (simp add: ds_write_def Let_def)
  have blob: "map_of (fd_blobs ?s) (fs_blob_key ws (fe_hash e)) = map_of (fd_blobs s) (fs_blob_key ws (fe_hash e))"
    if "blob_ok sha s ws p' e" for e
    using ds_write_blobs [OF old that, of ws c] by (simp add: ds_write_def Let_def new_file_def)
  have "map_of (fd_files s) (ws, p', g) = Some e \<Longrightarrow> blob_ok sha s ws p' e" for g e
    using inv by (auto simp: ds_hashed_def dest!: map_of_SomeD)
  moreover have "map_of (fd_latest s) (ws, p') = Some e \<Longrightarrow> blob_ok sha s ws p' e" for e by (rule ds_invD(3) [OF old])
  ultimately show ?thesis using blob unfolding ds_read_def Let_def files latest by (auto split: option.splits)
qed

interpretation dsv: file_versions sha "dsql_api sha" "ds_hashed sha" ds_latest for sha
proof unfold_locales
  show "ds_hashed sha now s \<Longrightarrow> fa_read (dsql_api sha) s ws p None = Inr (ds_latest s ws p)" for now s ws p
    using ds_read_current [of sha now s] by (simp add: dsql_api_def ds_hashed_def)
  show "ds_hashed sha now s \<Longrightarrow> h \<noteq> [] \<Longrightarrow> fa_read (dsql_api sha) s ws p (Some h) = Inr (Some f) \<Longrightarrow> sha (ff_content f) = h"
    for now s h ws p f
  proof -
    assume inv: "ds_hashed sha now s" and h: "h \<noteq> []" "fa_read (dsql_api sha) s ws p (Some h) = Inr (Some f)"
    then obtain e c where e: "map_of (fd_files s) (ws, p, h) = Some e" "map_of (fd_blobs s) (fs_blob_key ws (fe_hash e)) = Some c" "f = file_of e c"
      by (auto simp: dsql_api_def ds_read_def Let_def split: option.splits)
    from inv map_of_SomeD [OF e(1)] have "fe_hash e = h" "blob_ok sha s ws p e" by (auto simp: ds_hashed_def)
    with e show "sha (ff_content f) = h" by (auto simp: blob_ok_def file_of_def)
  qed
  show "ds_hashed sha now s \<Longrightarrow> ds_hashed sha now (fa_write (dsql_api sha) now ws p c m s)" for now s ws p c m
    using ds_hashed_write by (simp add: dsql_api_def)
  show "ds_hashed sha now s \<Longrightarrow> ds_latest (fa_write (dsql_api sha) now ws p c m s) ws' p' =
      (if ws' = ws \<and> p' = p then Some (new_file sha now p c m) else ds_latest s ws' p')" for now s ws p c m ws' p'
    using ds_latest_write [of sha now s] by (simp add: ds_hashed_def dsql_api_def)
  show "ds_hashed sha now s \<Longrightarrow> p' \<noteq> p \<Longrightarrow>
      fa_read (dsql_api sha) (fa_write (dsql_api sha) now ws p c m s) ws p' h = fa_read (dsql_api sha) s ws p' h"
    for now s p' p ws c m h
    using ds_read_other by (simp add: dsql_api_def)
qed

end
