(* ===== verification/Vcs_Properties.thy ===== *)
theory Vcs_Properties
  imports Vcs_Laws Fs_Properties
begin

text \<open>
  What the version control promises: a difference is exact and leads from one snapshot to the
  other, a snapshot's identity stands for its content, committing advances one ref to a commit
  of the current tree and only when something changed, and restoring brings back the recorded
  contents. A tag is protected from \<^verbatim>\<open>writeTag\<close>, not from a commit that names it as its ref.
\<close>

section \<open>Differences\<close>

definition tree_of :: "vcs_snapshot option \<Rightarrow> string \<Rightarrow> string option" where
  "tree_of s = mget (hash_map (case s of Some x \<Rightarrow> vn_entries x | None \<Rightarrow> []))"

lemma hash_map_gen: "wf_map m \<Longrightarrow> wf_map (foldl (\<lambda>m e. mset_at (sn_path e) (sn_hash e) m) m es)"
  "mget (foldl (\<lambda>m e. mset_at (sn_path e) (sn_hash e) m) m es) p =
    (case map_of (rev (map (\<lambda>e. (sn_path e, sn_hash e)) es)) p of Some h \<Rightarrow> Some h | None \<Rightarrow> mget m p)"
  by (induction es arbitrary: m) (auto split: option.splits)

lemma wf_hash_map: "wf_map (hash_map es)"
  by (simp add: hash_map_def hash_map_gen)

lemma hash_map_get: "distinct (map sn_path es) \<Longrightarrow> mget (hash_map es) p = Some h \<longleftrightarrow> (\<exists>e \<in> set es. sn_path e = p \<and> sn_hash e = h)"
proof -
  assume "distinct (map sn_path es)"
  then have d: "distinct (map fst (rev (map (\<lambda>e. (sn_path e, sn_hash e)) es)))" by (simp add: rev_map [symmetric] comp_def)
  have "mget (hash_map es) p = map_of (rev (map (\<lambda>e. (sn_path e, sn_hash e)) es)) p"
    by (simp add: hash_map_def hash_map_gen split: option.split)
  then show ?thesis using map_of_eq_Some_iff [OF d, of p h] by auto
qed

lemma hash_map_none: "mget (hash_map es) p = None \<longleftrightarrow> p \<notin> set (map sn_path es)"
proof -
  have "mget (hash_map es) p = map_of (rev (map (\<lambda>e. (sn_path e, sn_hash e)) es)) p"
    by (simp add: hash_map_def hash_map_gen split: option.split)
  then show ?thesis by (simp add: map_of_eq_None_iff image_image)
qed

text \<open>Applying a difference to a tree.\<close>

definition apply_diff :: "vcs_diff \<Rightarrow> (string \<Rightarrow> string option) \<Rightarrow> string \<Rightarrow> string option" where
  "apply_diff d t p =
     (if p \<in> fst ` set (df_removed d) then None
      else case map_of (df_added d @ map (\<lambda>(p, h, h'). (p, h')) (df_modified d)) p of Some h \<Rightarrow> Some h | None \<Rightarrow> t p)"

lemma diff_members:
  assumes d: "distinct (map sn_path (vn_entries to))"
  shows "(p, h) \<in> set (df_added (diff_snapshots old to)) \<longleftrightarrow> tree_of old p = None \<and> tree_of (Some to) p = Some h"
    "(p, h, h') \<in> set (df_modified (diff_snapshots old to)) \<longleftrightarrow> tree_of old p = Some h \<and> tree_of (Some to) p = Some h' \<and> h \<noteq> h'"
    "(p, h) \<in> set (df_removed (diff_snapshots old to)) \<longleftrightarrow> tree_of old p = Some h \<and> tree_of (Some to) p = None"
proof -
  have to: "tree_of (Some to) p = Some h \<longleftrightarrow> (\<exists>e \<in> set (vn_entries to). sn_path e = p \<and> sn_hash e = h)" for p h
    using hash_map_get [OF d] by (simp add: tree_of_def)
  show "(p, h) \<in> set (df_added (diff_snapshots old to)) \<longleftrightarrow> tree_of old p = None \<and> tree_of (Some to) p = Some h"
    unfolding to by (auto simp: diff_snapshots_def Let_def tree_of_def image_iff)
  show "(p, h, h') \<in> set (df_modified (diff_snapshots old to)) \<longleftrightarrow> tree_of old p = Some h \<and> tree_of (Some to) p = Some h' \<and> h \<noteq> h'"
    unfolding to by (auto simp: diff_snapshots_def Let_def tree_of_def image_iff)
  show "(p, h) \<in> set (df_removed (diff_snapshots old to)) \<longleftrightarrow> tree_of old p = Some h \<and> tree_of (Some to) p = None"
    using wf_map_member [OF wf_hash_map] by (auto simp: diff_snapshots_def Let_def tree_of_def hash_map_none)
qed

lemma fst_mem: "p \<in> fst ` set xs \<longleftrightarrow> (\<exists>h. (p, h) \<in> set xs)"
  by force

text \<open>
  C22: the difference of two snapshots lists exactly the paths that were added, changed or
  removed, with their hashes, and applying it to the first tree gives the second.
\<close>

theorem diff_exact:
  assumes d: "distinct (map sn_path (vn_entries to))"
  shows "apply_diff (diff_snapshots old to) (tree_of old) = tree_of (Some to) \<and>
    (\<forall>p. p \<in> fst ` set (df_added (diff_snapshots old to)) \<longleftrightarrow> tree_of old p = None \<and> tree_of (Some to) p \<noteq> None) \<and>
    (\<forall>p. p \<in> fst ` set (df_modified (diff_snapshots old to)) \<longleftrightarrow>
      tree_of old p \<noteq> None \<and> tree_of (Some to) p \<noteq> None \<and> tree_of old p \<noteq> tree_of (Some to) p) \<and>
    (\<forall>p. p \<in> fst ` set (df_removed (diff_snapshots old to)) \<longleftrightarrow> tree_of old p \<noteq> None \<and> tree_of (Some to) p = None)"
proof (intro conjI allI ext)
  note m = diff_members [OF d, where old = old]
  let ?d = "diff_snapshots old to" and ?b = "tree_of (Some to)"
  let ?ch = "df_added ?d @ map (\<lambda>(p, h, h'). (p, h')) (df_modified ?d)"
  have ch: "(p, h) \<in> set ?ch \<Longrightarrow> ?b p = Some h" for p h using m(1,2) by auto
  show added: "p \<in> fst ` set (df_added ?d) \<longleftrightarrow> tree_of old p = None \<and> ?b p \<noteq> None" for p
    unfolding fst_mem m(1) by auto
  show modified: "p \<in> fst ` set (df_modified ?d) \<longleftrightarrow> tree_of old p \<noteq> None \<and> ?b p \<noteq> None \<and> tree_of old p \<noteq> ?b p" for p
    unfolding fst_mem split_paired_Ex m(2) by auto
  show removed: "p \<in> fst ` set (df_removed ?d) \<longleftrightarrow> tree_of old p \<noteq> None \<and> ?b p = None" for p
    unfolding fst_mem m(3) by auto
  show "apply_diff ?d (tree_of old) p = ?b p" for p
  proof (cases "map_of ?ch p")
    case (Some h)
    then have "?b p = Some h" by (intro ch map_of_SomeD)
    then show ?thesis using Some removed [of p] unfolding apply_diff_def by simp
  next
    case None
    then have "p \<notin> fst ` set (df_added ?d)" "p \<notin> fst ` set (df_modified ?d)"
      by (auto simp: map_of_eq_None_iff image_Un image_image case_prod_beta)
    then have "?b p = tree_of old p \<or> ?b p = None \<and> p \<in> fst ` set (df_removed ?d)"
      unfolding added modified removed by (cases "tree_of old p") auto
    then show ?thesis using None removed [of p] unfolding apply_diff_def None by (simp only: option.case) auto
  qed
qed

definition demo_entry :: "string \<Rightarrow> string \<Rightarrow> snapshot_entry" where
  "demo_entry p h = \<lparr>sn_path = p, sn_hash = h, sn_mime = ''text/plain'', sn_size = 1\<rparr>"

definition demo_snapshot :: "(string \<times> string) list \<Rightarrow> vcs_snapshot" where
  "demo_snapshot es = \<lparr>vn_id = ''s'', vn_prefix = [], vn_entries = map (\<lambda>(p, h). demo_entry p h) es, vn_mounts = None\<rparr>"

theorem diff_exact_witness:
  "df_modified (diff_snapshots (Some (demo_snapshot [(''a'', ''1''), (''b'', ''2'')])) (demo_snapshot [(''b'', ''3''), (''c'', ''4'')])) = [(''b'', ''2'', ''3'')] \<and>
   apply_diff (diff_snapshots (Some (demo_snapshot [(''a'', ''1''), (''b'', ''2'')])) (demo_snapshot [(''b'', ''3''), (''c'', ''4'')]))
     (tree_of (Some (demo_snapshot [(''a'', ''1''), (''b'', ''2'')]))) = tree_of (Some (demo_snapshot [(''b'', ''3''), (''c'', ''4'')]))"
proof -
  have "distinct (map sn_path (vn_entries (demo_snapshot [(''b'', ''3''), (''c'', ''4'')])))"
    by (simp add: demo_snapshot_def demo_entry_def)
  note exact = diff_exact [OF this, of "Some (demo_snapshot [(''a'', ''1''), (''b'', ''2'')])"]
  have "df_modified (diff_snapshots (Some (demo_snapshot [(''a'', ''1''), (''b'', ''2'')])) (demo_snapshot [(''b'', ''3''), (''c'', ''4'')])) = [(''b'', ''2'', ''3'')]"
    by code_simp
  with exact show ?thesis by blast
qed

section \<open>Committing\<close>

text \<open>The visible part of a listing, and the snapshot a commit takes.\<close>

definition visible_of :: "fs_entry list \<Rightarrow> fs_entry list" where
  "visible_of es = filter (\<lambda>e. \<not> is_service_path (fe_path e) \<and> \<not> is_hidden_data_path (fe_path e) STRUCTURAL_HIDDEN_ROOTS) es"

definition head_at :: "'f vcs_world \<Rightarrow> string \<Rightarrow> string \<Rightarrow> vcs_commit option" where
  "head_at w ws key = Option.bind (ref_at w ws key) (\<lambda>r. commit_at w ws (rf_commit r))"

lemma commit_tree_step:
  assumes ok: "vcs_ok ws w" and key: "ref_name (to_ref opt) = Inr key" and pre: "pre = (case to_prefix opt of Some p \<Rightarrow> p | None \<Rightarrow> [])"
    and files: "fa_list_all (ve_files env) (gw_files w) ws pre = Inr all" and lin: "ve_lineage env ws (gw_now w) = Inr raw"
    and snap: "snap = build_snapshot env (visible_of all) pre (Some (fst (filter_lineage_to_prefix raw pre)))"
  shows "commit_tree env ws opt w =
    (if unchanged_head opt snap (head_at w ws key) then (Inr (the (head_at w ws key), False), w)
     else thenM (save_snapshot ws snap)
              (bindM (create_commit env ws
                  \<lparr>co_snapshot = snap, co_parents = tree_parents (to_parents opt) (head_at w ws key), co_message = to_message opt,
                   co_author = to_author opt, co_session = to_session opt, co_provenance = Some (snd (filter_lineage_to_prefix raw pre))\<rparr>) (\<lambda>c.
               thenM (write_ref ws key (vc_id c) (to_author opt)) (ret (c, True)))) w)"
proof -
  have v: "visible_entries env ws pre w = (Inr (visible_of all), w)" using files by (simp add: visible_entries_def visible_of_def)
  show ?thesis
    unfolding commit_tree_def Let_def pre [symmetric]
    by (simp add: bindM_run key lin v head_of_at [OF ok] head_at_def snap [symmetric])
qed

lemma sealed: "vc_snapshot (made_commit env w ws opt) = vn_id (co_snapshot opt)" "vc_parents (made_commit env w ws opt) = co_parents opt"
  "vc_message (made_commit env w ws opt) = co_message opt" "vc_author (made_commit env w ws opt) = co_author opt"
  by (simp_all add: made_commit_def seal_commit_def commit_body_def)

lemma commit_tree_creates:
  assumes ok: "vcs_ok ws w" and key: "ref_name (to_ref opt) = Inr key" and pre: "pre = (case to_prefix opt of Some p \<Rightarrow> p | None \<Rightarrow> [])"
    and files: "fa_list_all (ve_files env) (gw_files w) ws pre = Inr all" and lin: "ve_lineage env ws (gw_now w) = Inr raw"
    and sha: "\<And>x. ve_sha env x \<noteq> []"
    and snap: "snap = build_snapshot env (visible_of all) pre (Some (fst (filter_lineage_to_prefix raw pre)))"
    and changed: "\<not> unchanged_head opt snap (head_at w ws key)"
  shows "\<exists>c w'. commit_tree env ws opt w = (Inr (c, True), w') \<and>
      vc_snapshot c = vn_id snap \<and> vc_parents c = tree_parents (to_parents opt) (head_at w ws key) \<and>
      snap_at w' ws (vn_id snap) = Some snap \<and> head_at w' ws key = Some c \<and>
      (\<forall>n. n \<noteq> key \<longrightarrow> ref_at w' ws n = ref_at w ws n) \<and> gw_files w' = gw_files w \<and>
      commit_tree env ws (opt\<lparr>to_parents := None\<rparr>) w' = (Inr (c, False), w') \<and> vc_author c = to_author opt \<and>
      vcs_ok ws w' \<and> gw_now w' = gw_now w \<and> (\<forall>j. j \<noteq> vn_id snap \<longrightarrow> snap_at w' ws j = snap_at w ws j) \<and>
      map_option rf_commit (ref_at w' ws key) = Some (vc_id c) \<and>
      (\<forall>j. commit_at w' ws j = (if j = vc_id c \<and> j \<noteq> [] then Some c else commit_at w ws j))"
proof -
  let ?co = "\<lparr>co_snapshot = snap, co_parents = tree_parents (to_parents opt) (head_at w ws key), co_message = to_message opt,
    co_author = to_author opt, co_session = to_session opt, co_provenance = Some (snd (filter_lineage_to_prefix raw pre))\<rparr>"
  obtain w1 where w1: "save_snapshot ws snap w = (Inr (), w1)" "vcs_ok ws w1" "vcs_same w w1"
    "\<And>i. snap_at w1 ws i = (if i = vn_id snap then Some snap else snap_at w ws i)" "commit_at w1 = commit_at w" "ref_at w1 = ref_at w"
    by (rule save_snapshot_run [OF ok, of snap]) blast
  let ?c = "made_commit env w1 ws ?co"
  obtain w2 where w2: "create_commit env ws ?co w1 = (Inr ?c, w2)" "vcs_ok ws w2" "vcs_same w1 w2"
    "\<And>i. commit_at w2 ws i = (if i = vc_id ?c \<and> i \<noteq> [] then Some ?c else commit_at w1 ws i)" "snap_at w2 = snap_at w1" "ref_at w2 = ref_at w1"
    by (rule create_commit_run [OF w1(2), of env ?co]) blast
  obtain w3 where w3: "write_ref ws key (vc_id ?c) (to_author opt) w2 = (Inr (new_ref w2 key (vc_id ?c) (to_author opt)), w3)" "vcs_ok ws w3" "vcs_same w2 w3"
    "\<And>n. ref_at w3 ws n = (if n = key then Some (new_ref w2 key (vc_id ?c) (to_author opt)) else ref_at w2 ws n)" "snap_at w3 = snap_at w2" "commit_at w3 = commit_at w2"
    by (rule write_ref_run [OF w2(2), of key "vc_id ?c" "to_author opt"]) blast
  have run: "commit_tree env ws opt w = (Inr (?c, True), w3)"
    using changed w1(1) w2(1) w3(1) by (simp add: commit_tree_step [OF ok key pre files lin snap] thenM_run bindM_run)
  have same: "gw_now w3 = gw_now w" "gw_files w3 = gw_files w" using w1(3) w2(3) w3(3) by (simp_all add: vcs_same_def)
  have "vc_id ?c \<noteq> []" by (simp add: made_commit_def seal_commit_def sha)
  then have head: "head_at w3 ws key = Some ?c" using w2(4) w3(4,6) by (simp add: head_at_def new_ref_def)
  have cm: "\<forall>j. commit_at w3 ws j = (if j = vc_id ?c \<and> j \<noteq> [] then Some ?c else commit_at w ws j)"
    unfolding w3(6) w2(4) w1(5) by blast
  have files3: "fa_list_all (ve_files env) (gw_files w3) ws pre = Inr all" "ve_lineage env ws (gw_now w3) = Inr raw"
    using files lin same by simp_all
  have "commit_tree env ws (opt\<lparr>to_parents := None\<rparr>) w3 = (Inr (?c, False), w3)"
    using commit_tree_step [OF w3(2) _ _ files3 snap, of "opt\<lparr>to_parents := None\<rparr>" key] key pre head
    by (simp add: unchanged_head_def sealed)
  with run head w3(2) show ?thesis using same w1 w2(5,6) w3(4,5) sealed [of env w1 ws ?co] by (intro exI [of _ ?c] exI [of _ w3] conjI cm) (simp_all add: new_ref_def)
qed

text \<open>The snapshot of a listing, without the functions that compute it.\<close>

definition snapshot_text :: "vcs_snapshot \<Rightarrow> string" where
  "snapshot_text s = join [CHR 0x0A] (map (\<lambda>e. sn_hash e @ '' '' @ sn_path e) (vn_entries s) @
     map (\<lambda>m. ''mount '' @ ml_config m @ '' '' @ (case ml_token m of Some t \<Rightarrow> t | None \<Rightarrow> ''-'') @ '' '' @ ml_prefix m)
       (case vn_mounts s of Some ms \<Rightarrow> ms | None \<Rightarrow> []) @
     (if vn_prefix s \<noteq> [] then [''prefix '' @ vn_prefix s] else []))"

lemma build_snapshot_exact:
  assumes rows: "list_spec latest hits [] all" and snap: "snap = build_snapshot env (visible_of all) pre (Some ms)"
  shows "vn_prefix snap = pre" "vn_id snap = ve_sha env (snapshot_text snap)"
    "distinct (map sn_path (vn_entries snap))"
    "set (map (\<lambda>e. (sn_path e, sn_hash e, sn_mime e, sn_size e)) (vn_entries snap)) =
      {(fe_path e, fe_hash e, fe_mime e, fe_size e) | e. e \<in> set all \<and> \<not> is_service_path (fe_path e) \<and>
        \<not> is_hidden_data_path (fe_path e) STRUCTURAL_HIDDEN_ROOTS}"
    "sn_path ` set (vn_entries snap) = {p. latest p \<noteq> None \<and> hits p \<and> \<not> is_service_path p \<and> \<not> is_hidden_data_path p STRUCTURAL_HIDDEN_ROOTS}"
    "set (case vn_mounts snap of Some xs \<Rightarrow> xs | None \<Rightarrow> []) = set ms"
proof -
  let ?le = "\<lambda>a b. ve_collate env (fe_path a) (fe_path b)"
  have entries: "vn_entries snap = map snapshot_entry_of (js_sort ?le (visible_of all))"
    by (simp add: snap build_snapshot_def Let_def)
  show "vn_prefix snap = pre" by (simp add: snap build_snapshot_def Let_def)
  show "set (case vn_mounts snap of Some xs \<Rightarrow> xs | None \<Rightarrow> []) = set ms"
    by (cases ms) (simp_all add: snap build_snapshot_def Let_def)
  have line: "mount_line = (\<lambda>m. ''mount '' @ ml_config m @ '' '' @ (case ml_token m of Some t \<Rightarrow> t | None \<Rightarrow> ''-'') @ '' '' @ ml_prefix m)"
    by (rule ext) (rule mount_line_def)
  show "vn_id snap = ve_sha env (snapshot_text snap)"
    unfolding snapshot_text_def line [symmetric] by (simp add: snap build_snapshot_def Let_def snapshot_id_def snapshot_lines_def)
  have paths: "set (map fe_path all) = {p. latest p \<noteq> None \<and> hits p}" and "distinct (map fe_path all)"
    using rows by (auto simp: list_spec_def strict_sorted_iff)
  then have "distinct (map fe_path (js_sort ?le (visible_of all)))"
    unfolding visible_of_def by (intro distinct_js_sort distinct_map_filter)
  then show "distinct (map sn_path (vn_entries snap))" by (simp add: entries snapshot_entry_of_def comp_def)
  show "set (map (\<lambda>e. (sn_path e, sn_hash e, sn_mime e, sn_size e)) (vn_entries snap)) =
      {(fe_path e, fe_hash e, fe_mime e, fe_size e) | e. e \<in> set all \<and> \<not> is_service_path (fe_path e) \<and>
        \<not> is_hidden_data_path (fe_path e) STRUCTURAL_HIDDEN_ROOTS}"
    by (auto simp: entries snapshot_entry_of_def visible_of_def image_image)
  have "sn_path ` set (vn_entries snap) = {p \<in> set (map fe_path all). \<not> is_service_path p \<and> \<not> is_hidden_data_path p STRUCTURAL_HIDDEN_ROOTS}"
    by (auto simp: entries snapshot_entry_of_def visible_of_def image_image)
  with paths show "sn_path ` set (vn_entries snap) = {p. latest p \<noteq> None \<and> hits p \<and> \<not> is_service_path p \<and> \<not> is_hidden_data_path p STRUCTURAL_HIDDEN_ROOTS}"
    by auto
qed

text \<open>The two backends list as the hypothesis of the theorem says.\<close>

lemma backends_list:
  "sqfs_inv pick now s \<Longrightarrow> \<exists>all. fa_list_all (sqlite_api sha pick) s ws pre = Inr all \<and> list_spec (sq_latest s ws) (sq_hits pre) [] all"
  "ds_inv sha now d \<Longrightarrow> \<exists>all. fa_list_all (dsql_api sha) d ws pre = Inr all \<and> list_spec (ds_latest d ws) (ds_hits pre) [] all"
  using sq.unlimited [of pick now s ws pre] ds.unlimited [of sha now d ws pre]
  by (auto simp: sqlite_api_def dsql_api_def all_of_def)

text \<open>
  C20: when the listing and the lineage of the mounts can be read, committing the tree of a scope takes
  a snapshot that lists, each once and with the hash, type
  and size of the listing, exactly the files that exist, whose path the listing of the scope matches
  (exactly on DSQL, without regard to case on SQLite, always for the whole workspace) and that are
  neither in the service area nor hidden; its identity is the hash of the text of its lines. When
  the ref's head has a snapshot of that identity and no parents are given, the head is returned
  and nothing changes; otherwise the snapshot and a commit on top of the head (or of the given
  parents) are stored, the ref and no other points to it, the files are as before, and
  committing again returns the same commit without effect.
\<close>

theorem commit_tree_exact:
  assumes ok: "vcs_ok ws w" and key: "ref_name (to_ref opt) = Inr key" and pre: "pre = (case to_prefix opt of Some p \<Rightarrow> p | None \<Rightarrow> [])"
    and files: "fa_list_all (ve_files env) (gw_files w) ws pre = Inr all" "list_spec latest hits [] all"
    and lin: "ve_lineage env ws (gw_now w) = Inr raw" and sha: "\<And>x. ve_sha env x \<noteq> []"
  shows "\<exists>snap. vn_prefix snap = pre \<and> vn_id snap = ve_sha env (snapshot_text snap) \<and> distinct (map sn_path (vn_entries snap)) \<and>
    set (map (\<lambda>e. (sn_path e, sn_hash e, sn_mime e, sn_size e)) (vn_entries snap)) =
      {(fe_path e, fe_hash e, fe_mime e, fe_size e) | e. e \<in> set all \<and> \<not> is_service_path (fe_path e) \<and>
        \<not> is_hidden_data_path (fe_path e) STRUCTURAL_HIDDEN_ROOTS} \<and>
    sn_path ` set (vn_entries snap) = {p. latest p \<noteq> None \<and> hits p \<and> \<not> is_service_path p \<and> \<not> is_hidden_data_path p STRUCTURAL_HIDDEN_ROOTS} \<and>
    set (case vn_mounts snap of Some xs \<Rightarrow> xs | None \<Rightarrow> []) = set (fst (filter_lineage_to_prefix raw pre)) \<and>
    (if map_option vc_snapshot (head_at w ws key) = Some (vn_id snap) \<and> to_parents opt = None then commit_tree env ws opt w = (Inr (the (head_at w ws key), False), w)
     else (\<exists>c w'. commit_tree env ws opt w = (Inr (c, True), w') \<and>
      vc_snapshot c = vn_id snap \<and> vc_parents c = (case to_parents opt of Some ps \<Rightarrow> ps | None \<Rightarrow> (case head_at w ws key of Some h \<Rightarrow> [vc_id h] | None \<Rightarrow> [])) \<and>
      snap_at w' ws (vn_id snap) = Some snap \<and> head_at w' ws key = Some c \<and>
      (\<forall>n. n \<noteq> key \<longrightarrow> ref_at w' ws n = ref_at w ws n) \<and> gw_files w' = gw_files w \<and>
      commit_tree env ws (opt\<lparr>to_parents := None\<rparr>) w' = (Inr (c, False), w')))"
proof -
  let ?snap = "build_snapshot env (visible_of all) pre (Some (fst (filter_lineage_to_prefix raw pre)))"
  have "if map_option vc_snapshot (head_at w ws key) = Some (vn_id ?snap) \<and> to_parents opt = None then commit_tree env ws opt w = (Inr (the (head_at w ws key), False), w)
     else (\<exists>c w'. commit_tree env ws opt w = (Inr (c, True), w') \<and>
      vc_snapshot c = vn_id ?snap \<and> vc_parents c = (case to_parents opt of Some ps \<Rightarrow> ps | None \<Rightarrow> (case head_at w ws key of Some h \<Rightarrow> [vc_id h] | None \<Rightarrow> [])) \<and>
      snap_at w' ws (vn_id ?snap) = Some ?snap \<and> head_at w' ws key = Some c \<and>
      (\<forall>n. n \<noteq> key \<longrightarrow> ref_at w' ws n = ref_at w ws n) \<and> gw_files w' = gw_files w \<and>
      commit_tree env ws (opt\<lparr>to_parents := None\<rparr>) w' = (Inr (c, False), w'))"
  proof (cases "unchanged_head opt ?snap (head_at w ws key)")
    case True
    then show ?thesis unfolding unchanged_head_def [symmetric] tree_parents_def [symmetric] commit_tree_step [OF ok key pre files(1) lin refl]
      by (simp only: if_True)
  next
    case False
    show ?thesis unfolding unchanged_head_def [symmetric] tree_parents_def [symmetric]
      using commit_tree_creates [OF ok key pre files(1) lin sha refl False] False by (simp only: if_False) blast
  qed
  with build_snapshot_exact [OF files(2) refl, of env pre "fst (filter_lineage_to_prefix raw pre)"] show ?thesis by blast
qed

definition demo_vcs :: "sqlite_fs vcs_env" where
  "demo_vcs = \<lparr>ve_sha = (\<lambda>c. CHR ''h'' # c), ve_collate = (\<lambda>a b. if a < b then - 1 else if a = b then 0 else 1),
     ve_lineage = (\<lambda>_ _. Inr ([], [])), ve_files = sqlite_api (\<lambda>c. CHR ''h'' # c) hd\<rparr>"

definition demo_repo :: "sqlite_fs vcs_world" where
  "demo_repo = \<lparr>gw_now = 5, gw_snaps = doc_db (demo_snapshot []) [], gw_commits = doc_db undefined [], gw_refs = doc_db undefined [],
     gw_files = [(''w'', new_file (\<lambda>c. CHR ''h'' # c) 1 ''a'' ''x'' ''text/plain''), (''w'', new_file (\<lambda>c. CHR ''h'' # c) 1 ''.users/u/b'' ''y'' ''text/plain'')]\<rparr>"

definition demo_options :: tree_options where
  "demo_options = \<lparr>to_message = ''m'', to_author = ''u'', to_session = None, to_prefix = None, to_ref = JUndefined, to_parents = None\<rparr>"

lemma demo_repo_ok: "vcs_ok ''w'' demo_repo"
  by (simp add: vcs_ok_def demo_repo_def doc_db_ok doc_db_ws)

lemma demo_head: "head_at demo_repo ''w'' key = None"
  by (simp add: head_at_def ref_at_def demo_repo_def doc_db_at)

lemma demo_files: "fa_list_all (ve_files demo_vcs) (gw_files demo_repo) ''w'' [] =
    Inr [entry_of (new_file (\<lambda>c. CHR ''h'' # c) 1 ''.users/u/b'' ''y'' ''text/plain''), entry_of (new_file (\<lambda>c. CHR ''h'' # c) 1 ''a'' ''x'' ''text/plain'')]"
  by code_simp

theorem commit_tree_exact_witness:
  "\<exists>snap c w'. commit_tree demo_vcs ''w'' demo_options demo_repo = (Inr (c, True), w') \<and> vc_parents c = [] \<and>
    snap_at w' ''w'' (vc_snapshot c) = Some snap \<and> sn_path ` set (vn_entries snap) = {''a''} \<and>
    commit_tree demo_vcs ''w'' demo_options w' = (Inr (c, False), w')"
proof -
  have e: "ref_name (to_ref demo_options) = Inr MAIN_REF" "[] = (case to_prefix demo_options of Some p \<Rightarrow> p | None \<Rightarrow> [])"
    "ve_lineage demo_vcs ''w'' (gw_now demo_repo) = Inr ([], [])" "\<And>x. ve_sha demo_vcs x \<noteq> []"
    by (simp_all add: ref_name_def demo_options_def demo_vcs_def)
  have o: "demo_options\<lparr>to_parents := None\<rparr> = demo_options" "to_parents demo_options = None" by (simp_all add: demo_options_def)
  have "sqfs_inv hd 5 (gw_files demo_repo)" by (simp add: sqfs_inv_def demo_repo_def demo_pick new_file_def)
  then have rows: "list_spec (sq_latest (gw_files demo_repo) ''w'') (sq_hits [])
      [] [entry_of (new_file (\<lambda>c. CHR ''h'' # c) 1 ''.users/u/b'' ''y'' ''text/plain''), entry_of (new_file (\<lambda>c. CHR ''h'' # c) 1 ''a'' ''x'' ''text/plain'')]"
    using backends_list(1) [of hd 5 "gw_files demo_repo" "\<lambda>c. CHR ''h'' # c" "''w''" "[]"] demo_files by (simp add: demo_vcs_def)
  have visible: "\<not> is_service_path ''a''" "\<not> is_hidden_data_path ''a'' STRUCTURAL_HIDDEN_ROOTS" "is_hidden_data_path ''.users/u/b'' STRUCTURAL_HIDDEN_ROOTS"
    by code_simp+
  from commit_tree_exact [OF demo_repo_ok e(1,2) demo_files rows e(3,4)] obtain snap c w' where
    "sn_path ` set (vn_entries snap) = {p. sq_latest (gw_files demo_repo) ''w'' p \<noteq> None \<and> sq_hits [] p \<and> \<not> is_service_path p \<and> \<not> is_hidden_data_path p STRUCTURAL_HIDDEN_ROOTS}"
    "commit_tree demo_vcs ''w'' demo_options demo_repo = (Inr (c, True), w')" "vc_parents c = []" "snap_at w' ''w'' (vc_snapshot c) = Some snap"
    "commit_tree demo_vcs ''w'' demo_options w' = (Inr (c, False), w')" by (auto simp: demo_head o)
  moreover have "{p. sq_latest (gw_files demo_repo) ''w'' p \<noteq> None \<and> sq_hits [] p \<and> \<not> is_service_path p \<and> \<not> is_hidden_data_path p STRUCTURAL_HIDDEN_ROOTS} = {''a''}"
  proof -
    have "{p. sq_latest (gw_files demo_repo) ''w'' p \<noteq> None \<and> sq_hits [] p} = {''.users/u/b'', ''a''}"
      using rows unfolding list_spec_def by (simp add: entry_of_def new_file_def)
    then have "{p. sq_latest (gw_files demo_repo) ''w'' p \<noteq> None \<and> sq_hits [] p \<and> \<not> is_service_path p \<and> \<not> is_hidden_data_path p STRUCTURAL_HIDDEN_ROOTS} =
      {p \<in> {''.users/u/b'', ''a''}. \<not> is_service_path p \<and> \<not> is_hidden_data_path p STRUCTURAL_HIDDEN_ROOTS}" by blast
    also have "\<dots> = {''a''}" using visible by blast
    finally show ?thesis .
  qed
  ultimately show ?thesis by (intro exI [of _ snap] exI [of _ c] exI [of _ w']) (simp only: simp_thms)
qed

section \<open>History\<close>

text \<open>The chain of first parents.\<close>

fun first_parents :: "(string \<Rightarrow> vcs_commit option) \<Rightarrow> nat \<Rightarrow> string option \<Rightarrow> vcs_commit list" where
  "first_parents at 0 i = []"
| "first_parents at (Suc n) i =
     (case Option.bind i at of None \<Rightarrow> [] | Some c \<Rightarrow> c # first_parents at n (case vc_parents c of p # ps \<Rightarrow> Some p | [] \<Rightarrow> None))"

lemma log_walk_chain: "vcs_ok ws w \<Longrightarrow> log_walk n ws i w = (Inr (first_parents (commit_at w ws) n i), w)"
proof (induction n arbitrary: i)
  case (Suc n)
  show ?case
  proof (cases "truthy i")
    case True
    then obtain x where "i = Some x" by (auto simp: truthy_def split: option.splits)
    with Suc True show ?thesis by (cases "commit_at w ws x") (simp_all add: bindM_run vcs_reads)
  next
    case False
    then show ?thesis by (cases i) (simp_all add: truthy_def commit_at_def)
  qed
qed simp

lemma log_commits_chain:
  "vcs_ok ws w \<Longrightarrow> log_commits ws start limit w = (Inr (first_parents (commit_at w ws) (nat (case limit of Some n \<Rightarrow> n | None \<Rightarrow> 50)) (Some start)), w)"
  by (simp add: log_commits_def log_walk_chain)

section \<open>Tags\<close>

text \<open>A tag is written once.\<close>

lemma write_tag_once:
  assumes ok: "vcs_ok ws w" and r: "ref_re name" "starts_with name ''tag/''" "ref_at w ws name \<noteq> None"
  shows "write_tag ws name c u w = (Inl (ServiceError (''tag already exists: '' @ name) 409), w)"
proof -
  have "name \<noteq> []" using r(2) by auto
  with r show ?thesis by (auto simp: write_tag_def ref_name_def bindM_run vcs_reads [OF ok])
qed

text \<open>A commit that names an existing tag as its ref moves the tag, whoever makes it.\<close>

lemma commit_moves_tag:
  assumes ok: "vcs_ok ws w" and tag: "ref_re name" "starts_with name ''tag/''" "head_at w ws name = Some c0"
    and files: "fa_list_all (ve_files env) (gw_files w) ws [] = Inr all" and lin: "ve_lineage env ws (gw_now w) = Inr raw"
    and sha: "\<And>x. ve_sha env x \<noteq> []"
    and changed: "vc_snapshot c0 \<noteq> vn_id (build_snapshot env (visible_of all) [] (Some (fst (filter_lineage_to_prefix raw []))))"
  shows "\<exists>c w'. vcs_commit_op env ws user None None (JStr name) w = (Inr (c, True), w') \<and> head_at w' ws name = Some c \<and>
    vc_author c = user \<and> vc_snapshot c \<noteq> vc_snapshot c0"
proof -
  let ?opt = "\<lparr>to_message = ''commit'', to_author = user, to_session = None, to_prefix = None, to_ref = JStr name, to_parents = None\<rparr>"
  have "name \<noteq> []" using tag(2) by auto
  then have key: "ref_name (to_ref ?opt) = Inr name" using tag(1) by (simp add: ref_name_def)
  have "\<not> unchanged_head ?opt (build_snapshot env (visible_of all) [] (Some (fst (filter_lineage_to_prefix raw [])))) (head_at w ws name)"
    using changed tag(3) by (simp add: unchanged_head_def)
  from commit_tree_creates [OF ok key _ files lin sha refl this] changed show ?thesis
    by (auto simp: vcs_commit_op_def)
qed

section \<open>Identity\<close>

definition is_hex :: "char \<Rightarrow> bool" where
  "is_hex c \<longleftrightarrow> is_digit c \<or> (CHR ''a'' \<le> c \<and> c \<le> CHR ''f'')"

definition line_ok :: "string \<Rightarrow> bool" where
  "line_ok s \<longleftrightarrow> CHR 0x0A \<notin> set s"

text \<open>Entries with a hexadecimal hash, and no line break anywhere.\<close>

definition entries_ok :: "snapshot_entry list \<Rightarrow> mount_lineage list option \<Rightarrow> string \<Rightarrow> bool" where
  "entries_ok es ms pre \<longleftrightarrow> list_all (\<lambda>e. sn_hash e \<noteq> [] \<and> list_all is_hex (sn_hash e) \<and> line_ok (sn_path e)) es \<and>
     list_all (\<lambda>m. line_ok (mount_line m)) (case ms of Some x \<Rightarrow> x | None \<Rightarrow> []) \<and> line_ok pre"

lemma hex_chars: "is_hex c \<Longrightarrow> c \<noteq> CHR '' '' \<and> c \<noteq> CHR 0x0A \<and> c \<noteq> CHR ''m'' \<and> c \<noteq> CHR ''p''"
  by (auto simp: is_hex_def is_digit_def)

lemma split_join: "xs \<noteq> [] \<Longrightarrow> list_all (\<lambda>x. c \<notin> set x) xs \<Longrightarrow> split_on c (join [c] xs) = xs"
proof (induction xs)
  case (Cons x xs)
  then show ?case by (cases xs) (simp_all add: split_on_free split_on_append)
qed simp

lemma snapshot_lines_ok:
  assumes "entries_ok es ms pre"
  shows "list_all (\<lambda>x. CHR 0x0A \<notin> set x \<and> x \<noteq> []) (snapshot_lines es ms pre)"
proof -
  have "CHR 0x0A \<notin> set (sn_hash e)" if "e \<in> set es" for e
    using assms that hex_chars by (auto simp: entries_ok_def list_all_iff)
  then show ?thesis using assms
    by (auto simp: snapshot_lines_def entries_ok_def list_all_iff line_ok_def mount_line_def)
qed

lemma snapshot_lines_parts:
  assumes "entries_ok es ms pre"
  shows "filter (\<lambda>l. hd l = CHR ''m'') (snapshot_lines es ms pre) = map mount_line (case ms of Some x \<Rightarrow> x | None \<Rightarrow> [])"
    "filter (\<lambda>l. hd l = CHR ''p'') (snapshot_lines es ms pre) = (if pre \<noteq> [] then [''prefix '' @ pre] else [])"
    "filter (\<lambda>l. hd l \<noteq> CHR ''m'' \<and> hd l \<noteq> CHR ''p'') (snapshot_lines es ms pre) = map (\<lambda>e. sn_hash e @ '' '' @ sn_path e) es"
proof -
  have e: "hd (sn_hash e @ '' '' @ sn_path e) \<noteq> CHR ''m'' \<and> hd (sn_hash e @ '' '' @ sn_path e) \<noteq> CHR ''p''" if "e \<in> set es" for e
    using assms that hex_chars by (cases "sn_hash e") (auto simp: entries_ok_def list_all_iff)
  have m: "hd (mount_line x) = CHR ''m''" for x by (simp add: mount_line_def)
  show "filter (\<lambda>l. hd l = CHR ''m'') (snapshot_lines es ms pre) = map mount_line (case ms of Some x \<Rightarrow> x | None \<Rightarrow> [])"
    "filter (\<lambda>l. hd l = CHR ''p'') (snapshot_lines es ms pre) = (if pre \<noteq> [] then [''prefix '' @ pre] else [])"
    "filter (\<lambda>l. hd l \<noteq> CHR ''m'' \<and> hd l \<noteq> CHR ''p'') (snapshot_lines es ms pre) = map (\<lambda>e. sn_hash e @ '' '' @ sn_path e) es"
    using e m by (auto simp: snapshot_lines_def filter_map comp_def filter_empty_conv filter_id_conv)
qed

lemma entry_line_inj:
  assumes "list_all is_hex h" and "list_all is_hex h'"
  shows "h @ '' '' @ p = h' @ '' '' @ p' \<longleftrightarrow> h = h' \<and> p = p'"
proof -
  have "CHR '' '' \<notin> set h" "CHR '' '' \<notin> set h'" using assms hex_chars by (auto simp: list_all_iff)
  then show ?thesis by (simp add: append_sep_eq)
qed

lemma same_entry_lines:
  assumes "map (\<lambda>e. sn_hash e @ '' '' @ sn_path e) es = map (\<lambda>e. sn_hash e @ '' '' @ sn_path e) es'"
    and "\<And>e. e \<in> set es \<Longrightarrow> list_all is_hex (sn_hash e)" and "\<And>e. e \<in> set es' \<Longrightarrow> list_all is_hex (sn_hash e)"
  shows "map (\<lambda>e. (sn_path e, sn_hash e)) es = map (\<lambda>e. (sn_path e, sn_hash e)) es'"
  using assms
proof (induction es arbitrary: es')
  case (Cons e es)
  then obtain e' r where es': "es' = e' # r" by (cases es') auto
  have "sn_hash e = sn_hash e' \<and> sn_path e = sn_path e'"
    using Cons.prems entry_line_inj [of "sn_hash e" "sn_hash e'"] by (simp add: es')
  with Cons es' show ?case by simp
qed simp

lemma joined_lines:
  assumes "list_all (\<lambda>x. c \<notin> set x \<and> x \<noteq> []) xs" and "list_all (\<lambda>x. c \<notin> set x \<and> x \<noteq> []) ys"
  shows "join [c] xs = join [c] ys \<longleftrightarrow> xs = ys"
proof
  assume eq: "join [c] xs = join [c] ys"
  have free: "list_all (\<lambda>x. c \<notin> set x) xs" "list_all (\<lambda>x. c \<notin> set x) ys" using assms by (auto simp: list_all_iff)
  have empty: "join [c] zs = [] \<Longrightarrow> list_all (\<lambda>x. c \<notin> set x \<and> x \<noteq> []) zs \<Longrightarrow> zs = []" for zs
    by (cases zs; cases "tl zs") auto
  show "xs = ys"
  proof (cases "xs = [] \<or> ys = []")
    case True
    then show ?thesis using eq empty [OF _ assms(1)] empty [OF _ assms(2)] by auto
  next
    case False
    then show ?thesis using split_join [OF _ free(1)] split_join [OF _ free(2)] eq by metis
  qed
qed simp

text \<open>
  two snapshots have the same identity exactly when they list the same paths with the same
  hashes in the same order, the same mounts and the same scope, as long as no path, mount or
  scope has a line break.
\<close>

theorem snapshot_identity:
  assumes inj: "inj (ve_sha env)" and ok: "entries_ok es ms pre" "entries_ok es' ms' pre'"
  shows "snapshot_id env es ms pre = snapshot_id env es' ms' pre' \<longleftrightarrow>
    map (\<lambda>e. (sn_path e, sn_hash e)) es = map (\<lambda>e. (sn_path e, sn_hash e)) es' \<and>
    map mount_line (case ms of Some x \<Rightarrow> x | None \<Rightarrow> []) = map mount_line (case ms' of Some x \<Rightarrow> x | None \<Rightarrow> []) \<and> pre = pre'"
proof
  let ?l = "snapshot_lines es ms pre" and ?l' = "snapshot_lines es' ms' pre'"
  assume "snapshot_id env es ms pre = snapshot_id env es' ms' pre'"
  then have "join [CHR 0x0A] ?l = join [CHR 0x0A] ?l'" using inj by (simp add: snapshot_id_def inj_eq)
  then have l: "?l = ?l'" using joined_lines [OF snapshot_lines_ok [OF ok(1)] snapshot_lines_ok [OF ok(2)]] by simp
  have h: "map (\<lambda>e. sn_hash e @ '' '' @ sn_path e) es = map (\<lambda>e. sn_hash e @ '' '' @ sn_path e) es'"
    unfolding snapshot_lines_parts(3) [OF ok(1), symmetric] snapshot_lines_parts(3) [OF ok(2), symmetric] l ..
  then have "map (\<lambda>e. (sn_path e, sn_hash e)) es = map (\<lambda>e. (sn_path e, sn_hash e)) es'"
    using ok by (intro same_entry_lines) (auto simp: entries_ok_def list_all_iff)
  moreover have "(if pre \<noteq> [] then [''prefix '' @ pre] else []) = (if pre' \<noteq> [] then [''prefix '' @ pre'] else [])"
    unfolding snapshot_lines_parts(2) [OF ok(1), symmetric] snapshot_lines_parts(2) [OF ok(2), symmetric] l ..
  then have "pre = pre'" by (simp split: if_splits)
  ultimately show "map (\<lambda>e. (sn_path e, sn_hash e)) es = map (\<lambda>e. (sn_path e, sn_hash e)) es' \<and>
    map mount_line (case ms of Some x \<Rightarrow> x | None \<Rightarrow> []) = map mount_line (case ms' of Some x \<Rightarrow> x | None \<Rightarrow> []) \<and> pre = pre'"
    using snapshot_lines_parts(1) [OF ok(1)] snapshot_lines_parts(1) [OF ok(2)] l by simp
next
  assume eq: "map (\<lambda>e. (sn_path e, sn_hash e)) es = map (\<lambda>e. (sn_path e, sn_hash e)) es' \<and>
    map mount_line (case ms of Some x \<Rightarrow> x | None \<Rightarrow> []) = map mount_line (case ms' of Some x \<Rightarrow> x | None \<Rightarrow> []) \<and> pre = pre'"
  have line: "map (\<lambda>e. sn_hash e @ '' '' @ sn_path e) xs = map (\<lambda>(p, h). h @ '' '' @ p) (map (\<lambda>e. (sn_path e, sn_hash e)) xs)" for xs
    by simp
  show "snapshot_id env es ms pre = snapshot_id env es' ms' pre'"
    using eq unfolding snapshot_id_def snapshot_lines_def line by simp
qed

theorem snapshot_identity_witness:
  "snapshot_id demo_vcs [demo_entry ''a'' ''1''] None [] = snapshot_id demo_vcs [demo_entry ''a'' ''1''] None [] \<and>
   snapshot_id demo_vcs [demo_entry ''a'' ''1''] None [] \<noteq> snapshot_id demo_vcs [demo_entry ''a'' ''2''] None ''p''"
proof -
  have "inj (ve_sha demo_vcs)" by (simp add: demo_vcs_def inj_def)
  moreover have "entries_ok [demo_entry ''a'' ''1''] None []" "entries_ok [demo_entry ''a'' ''2''] None ''p''" by code_simp+
  ultimately show ?thesis using snapshot_identity [of demo_vcs] by (simp add: demo_entry_def)
qed

text \<open>With a line break in a path, which \<^verbatim>\<open>normalizeFsPath\<close> admits, different trees share an identity.\<close>

lemma newline_path_collides:
  "snapshot_id env [demo_entry ''a'' ''1'', demo_entry ''b'' ''2''] None [] =
   snapshot_id env [demo_entry (''a'' @ CHR 0x0A # ''2 b'') ''1''] None []"
  by (simp add: snapshot_id_def snapshot_lines_def demo_entry_def)

lemma newline_path_accepted: "normalize_fs_path (''a'' @ CHR 0x0A # ''2 b'') = Some (''a'' @ CHR 0x0A # ''2 b'')"
  by code_simp

section \<open>Restoring\<close>

text \<open>The files of a snapshot that restoring has to write, and whether their content is still stored.\<close>

definition selected :: "string option \<Rightarrow> string option \<Rightarrow> string \<Rightarrow> bool" where
  "selected path pre p \<longleftrightarrow>
     (case path of Some (c # cs) \<Rightarrow> p = c # cs
      | _ \<Rightarrow> (case pre of Some (c # cs) \<Rightarrow> under_prefix p (c # cs) | _ \<Rightarrow> True))"

definition to_restore :: "'f vcs_env \<Rightarrow> 'f vcs_world \<Rightarrow> string \<Rightarrow> string option \<Rightarrow> string option \<Rightarrow> snapshot_entry \<Rightarrow> bool" where
  "to_restore env w ws path pre e \<longleftrightarrow> selected path pre (sn_path e) \<and>
     map_option fe_hash (read_quiet env (gw_files w) ws (sn_path e) None) \<noteq> Some (sn_hash e)"

lemma within_selected: "within_filter path pre = selected path pre"
  by (rule ext) (auto simp: within_filter_def selected_def truthy_def under_prefix_def split: option.split list.split)

lemma to_restore_stale: "to_restore env w ws path pre e = stale env (gw_files w) ws (within_filter path pre) e"
  by (simp add: to_restore_def stale_def within_selected)

definition available :: "'f vcs_env \<Rightarrow> 'f vcs_world \<Rightarrow> string \<Rightarrow> snapshot_entry \<Rightarrow> bool" where
  "available env w ws e = kept env (gw_files w) ws e"

definition restored_of :: "'f vcs_env \<Rightarrow> 'f vcs_world \<Rightarrow> string \<Rightarrow> string option \<Rightarrow> string option \<Rightarrow> snapshot_entry list \<Rightarrow> snapshot_entry list" where
  "restored_of env w ws path pre es = filter (\<lambda>e. to_restore env w ws path pre e \<and> available env w ws e) es"

definition missing_of :: "'f vcs_env \<Rightarrow> 'f vcs_world \<Rightarrow> string \<Rightarrow> string option \<Rightarrow> string option \<Rightarrow> snapshot_entry list \<Rightarrow> snapshot_entry list" where
  "missing_of env w ws path pre es = filter (\<lambda>e. to_restore env w ws path pre e \<and> \<not> available env w ws e) es"

lemmas restore_defs = restored_of_def missing_of_def to_restore_stale available_def

text \<open>
  C21: restoring a commit rewrites exactly the files under the filter whose current content
  differs from the recorded one: those whose recorded version is still stored get that content
  back, the others are reported as missing, and no other file and no record changes.
\<close>

theorem restore_commit_exact:
  assumes ok: "vcs_ok ws w" and api: "ve_files env = dsql_api sha" and inv: "ds_hashed sha (gw_now w) (gw_files w)"
    and snap: "snap_at w ws (vc_snapshot c) = Some s" "distinct (map sn_path (vn_entries s))" "\<forall>e \<in> set (vn_entries s). sn_hash e \<noteq> []"
  shows "\<exists>f'. restore_commit env ws c path pre w =
      (Inr (map sn_path (restored_of env w ws path pre (vn_entries s)), map sn_path (missing_of env w ws path pre (vn_entries s))),
       w\<lparr>gw_files := f'\<rparr>) \<and>
    (\<forall>e \<in> set (restored_of env w ws path pre (vn_entries s)). map_option fe_hash (ds_latest f' ws (sn_path e)) = Some (sn_hash e)) \<and>
    (\<forall>ws' p. \<not> (ws' = ws \<and> p \<in> sn_path ` set (restored_of env w ws path pre (vn_entries s))) \<longrightarrow>
      ds_latest f' ws' p = ds_latest (gw_files w) ws' p)"
proof -
  obtain f' where f: "restore_entries env (gw_now w) ws (within_filter path pre) (vn_entries s) (gw_files w) =
      ((map sn_path (restored_of env w ws path pre (vn_entries s)), map sn_path (missing_of env w ws path pre (vn_entries s))), f')"
    and at: "\<forall>e \<in> set (restored_of env w ws path pre (vn_entries s)). map_option fe_hash (ds_latest f' ws (sn_path e)) = Some (sn_hash e)"
    and off: "\<forall>ws' p. \<not> (ws' = ws \<and> p \<in> sn_path ` set (restored_of env w ws path pre (vn_entries s))) \<longrightarrow> ds_latest f' ws' p = ds_latest (gw_files w) ws' p"
    using dsv.restore_exact [OF inv api snap(2,3), of ws "within_filter path pre"] unfolding restore_defs set_filter by blast
  then show ?thesis
    by (intro exI [of _ f'] conjI) (simp_all add: restore_commit_def bindM_run read_snapshot_at [OF ok] snap(1))
qed

lemma restore_commit_sqlite:
  assumes ok: "vcs_ok ws w" and api: "ve_files env = sqlite_api sha pick" and inv: "sq_hashed sha pick (gw_now w) (gw_files w)"
    and snap: "snap_at w ws (vc_snapshot c) = Some s" "distinct (map sn_path (vn_entries s))" "\<forall>e \<in> set (vn_entries s). sn_hash e \<noteq> []"
  shows "\<exists>f'. restore_commit env ws c path pre w =
      (Inr (map sn_path (restored_of env w ws path pre (vn_entries s)), map sn_path (missing_of env w ws path pre (vn_entries s))),
       w\<lparr>gw_files := f'\<rparr>) \<and>
    (\<forall>e \<in> set (restored_of env w ws path pre (vn_entries s)). map_option fe_hash (sq_latest f' ws (sn_path e)) = Some (sn_hash e)) \<and>
    (\<forall>ws' p. \<not> (ws' = ws \<and> p \<in> sn_path ` set (restored_of env w ws path pre (vn_entries s))) \<longrightarrow>
      sq_latest f' ws' p = sq_latest (gw_files w) ws' p)"
proof -
  obtain f' where f: "restore_entries env (gw_now w) ws (within_filter path pre) (vn_entries s) (gw_files w) =
      ((map sn_path (restored_of env w ws path pre (vn_entries s)), map sn_path (missing_of env w ws path pre (vn_entries s))), f')"
    and at: "\<forall>e \<in> set (restored_of env w ws path pre (vn_entries s)). map_option fe_hash (sq_latest f' ws (sn_path e)) = Some (sn_hash e)"
    and off: "\<forall>ws' p. \<not> (ws' = ws \<and> p \<in> sn_path ` set (restored_of env w ws path pre (vn_entries s))) \<longrightarrow> sq_latest f' ws' p = sq_latest (gw_files w) ws' p"
    using sqv.restore_exact [OF inv api snap(2,3), of ws "within_filter path pre"] unfolding restore_defs set_filter by blast
  then show ?thesis
    by (intro exI [of _ f'] conjI) (simp_all add: restore_commit_def bindM_run read_snapshot_at [OF ok] snap(1))
qed

text \<open>A workspace whose file \<^verbatim>\<open>a\<close> was overwritten after the snapshot.\<close>

definition demo_ds_vcs :: "dsql_fs vcs_env" where
  "demo_ds_vcs = \<lparr>ve_sha = demo_sha, ve_collate = (\<lambda>a b. 0), ve_lineage = (\<lambda>_ _. Inr ([], [])), ve_files = dsql_api demo_sha\<rparr>"

definition demo_changed :: "dsql_fs vcs_world" where
  "demo_changed = \<lparr>gw_now = 5, gw_snaps = doc_db (demo_snapshot []) [((''w'', SNAPSHOTS_SCOPE, ''s''), demo_snapshot [(''a'', ''old'')])],
     gw_commits = doc_db undefined [], gw_refs = doc_db undefined [],
     gw_files = snd (ds_write demo_sha 2 ''w'' ''a'' ''new'' ''text/plain'' None (snd (ds_write demo_sha 1 ''w'' ''a'' ''old'' ''text/plain'' None empty_dsql)))\<rparr>"

lemma demo_changed_ok: "vcs_ok ''w'' demo_changed" "ds_hashed demo_sha (gw_now demo_changed) (gw_files demo_changed)"
proof -
  show "vcs_ok ''w'' demo_changed" by (simp add: vcs_ok_def demo_changed_def doc_db_ok doc_db_ws)
  have "ds_hashed demo_sha 5 empty_dsql" by (simp add: ds_hashed_def ds_inv_def empty_dsql_def demo_hash)
  then show "ds_hashed demo_sha (gw_now demo_changed) (gw_files demo_changed)"
    by (simp add: demo_changed_def ds_hashed_write)
qed

theorem restore_commit_exact_witness:
  "\<exists>c f'. restore_commit demo_ds_vcs ''w'' c None None demo_changed = (Inr ([''a''], []), demo_changed\<lparr>gw_files := f'\<rparr>) \<and>
    map_option fe_hash (ds_latest (gw_files demo_changed) ''w'' ''a'') = Some ''new'' \<and> map_option fe_hash (ds_latest f' ''w'' ''a'') = Some ''old''"
proof -
  let ?c = "undefined\<lparr>vc_snapshot := ''s''\<rparr>" and ?s = "demo_snapshot [(''a'', ''old'')]"
  have s: "snap_at demo_changed ''w'' (vc_snapshot ?c) = Some ?s" by (simp add: snap_at_def demo_changed_def doc_db_at)
  have ok: "distinct (map sn_path (vn_entries ?s))" "\<forall>e \<in> set (vn_entries ?s). sn_hash e \<noteq> []" by (simp_all add: demo_snapshot_def demo_entry_def)
  have api: "ve_files demo_ds_vcs = dsql_api demo_sha" by (simp add: demo_ds_vcs_def)
  have now: "map_option fe_hash (ds_latest (gw_files demo_changed) ''w'' ''a'') = Some ''new''"
    "to_restore demo_ds_vcs demo_changed ''w'' None None (demo_entry ''a'' ''old'')" "available demo_ds_vcs demo_changed ''w'' (demo_entry ''a'' ''old'')"
    unfolding demo_changed_def by code_simp+
  then have r: "restored_of demo_ds_vcs demo_changed ''w'' None None (vn_entries ?s) = [demo_entry ''a'' ''old'']"
    "missing_of demo_ds_vcs demo_changed ''w'' None None (vn_entries ?s) = []"
    by (simp_all add: restored_of_def missing_of_def demo_snapshot_def)
  from restore_commit_exact [OF demo_changed_ok(1) api demo_changed_ok(2) s ok, of None None] now(1) show ?thesis
    unfolding r by (auto simp: demo_entry_def)
qed

end
