(* ===== verification/Chat_Sessions.thy ===== *)
theory Chat_Sessions
  imports Vcs_Store Js_Number
begin

text \<open>
  Chat sessions, \<^verbatim>\<open>server/workspace/src/vcs/chat-sessions.ts\<close>, and their tool namespace,
  \<^verbatim>\<open>vcs/sessions-service.ts\<close>: a transcript and a view of the files, which in staged mode is an
  overlay of edits over a base commit. An overlay is the list of its own properties in the order
  they were added; \<^verbatim>\<open>None\<close> stands for null, a staged deletion. A path whose name is a
  property every object inherits is not distinguished, nor is the place JavaScript gives to names
  that are numbers. Where the source changes a session object
  in place, the model returns the changed session.
\<close>

section \<open>Data\<close>

datatype session_mode = AutoMode | StagedMode

datatype session_status = SessionOpen | SessionMerged | SessionClosed

record chat_session =
  ch_id :: string
  ch_title :: string
  ch_status :: session_status
  ch_mode :: session_mode
  ch_base :: string
  ch_overlay :: "(string \<times> string option) list"
  ch_touched :: "string list option"
  ch_tabs :: json
  ch_agent :: "string option"
  ch_run :: "string option"
  ch_count :: nat
  ch_by :: string
  ch_created :: string
  ch_updated :: string
  ch_merge :: "string option"

record change_summary =
  sm_added :: "string list"
  sm_modified :: "string list"
  sm_removed :: "string list"
  sm_other :: bool

record session_conflict =
  sx_path :: string
  sx_ours :: "string option"
  sx_theirs :: "string option"

record 'f chat_world =
  hw_vcs :: "'f vcs_world"
  hw_sessions :: "chat_session db"
  hw_messages :: "json db"
  hw_next :: nat

definition SESSIONS_PREFIX :: string where
  "SESSIONS_PREFIX = ''.services/chat/sessions''"

definition SESSIONS_SCOPE :: string where
  "SESSIONS_SCOPE = svc_scope ''chat'' [''sessions'']"

definition messages_scope :: "string \<Rightarrow> string" where
  "messages_scope i = svc_scope ''chat'' [''session'', i]"

definition shadow_root :: "string \<Rightarrow> string" where
  "shadow_root i = SESSIONS_PREFIX @ ''/'' @ i @ ''/files''"

definition shadow_path :: "string \<Rightarrow> string \<Rightarrow> string" where
  "shadow_path i path = SESSIONS_PREFIX @ ''/'' @ i @ ''/files/'' @ path"

definition session_id_re :: "string \<Rightarrow> bool" where
  "session_id_re s \<longleftrightarrow> 8 \<le> length s \<and> length s \<le> 64 \<and>
     list_all (\<lambda>c. is_digit c \<or> (CHR ''a'' \<le> c \<and> c \<le> CHR ''f'') \<or> c = CHR ''-'') s"

definition session_id :: "json \<Rightarrow> svc_error + string" where
  "session_id v =
     (case v of JStr s \<Rightarrow> if session_id_re s then Inr s else Inl (ServiceError ''id must be a session id'' 400)
      | _ \<Rightarrow> Inl (ServiceError ''id must be a session id'' 400))"

definition on_vcs :: "('f vcs_world, 'a) prog \<Rightarrow> ('f chat_world, 'a) prog" where
  "on_vcs = zoom hw_vcs (\<lambda>d w. w\<lparr>hw_vcs := d\<rparr>)"

definition on_sessions :: "(chat_session db, 'a) prog \<Rightarrow> ('f chat_world, 'a) prog" where
  "on_sessions = zoom hw_sessions (\<lambda>d w. w\<lparr>hw_sessions := d\<rparr>)"

definition on_messages :: "(json db, 'a) prog \<Rightarrow> ('f chat_world, 'a) prog" where
  "on_messages = zoom hw_messages (\<lambda>d w. w\<lparr>hw_messages := d\<rparr>)"

definition on_files :: "('f, 'a) prog \<Rightarrow> ('f chat_world, 'a) prog" where
  "on_files m = on_vcs (zoom gw_files (\<lambda>f v. v\<lparr>gw_files := f\<rparr>) m)"

definition chat_now :: "'f chat_world \<Rightarrow> int" where
  "chat_now w = gw_now (hw_vcs w)"

definition mint_id :: "(nat \<Rightarrow> string) \<Rightarrow> ('f chat_world, string) prog" where
  "mint_id uuid w = (Inr (uuid (hw_next w)), w\<lparr>hw_next := Suc (hw_next w)\<rparr>)"

section \<open>Session records\<close>

definition save_session :: "string \<Rightarrow> chat_session \<Rightarrow> ('f chat_world, unit) prog" where
  "save_session ws s w = on_sessions (write_svc_record (chat_now w) ws SESSIONS_SCOPE (ch_id s) s (ch_by s)) w"

definition read_session :: "string \<Rightarrow> string \<Rightarrow> ('f chat_world, chat_session option) prog" where
  "read_session ws i w = (read_svc_record (chat_now w) (hw_sessions w) ws SESSIONS_SCOPE i, w)"

definition require_session :: "string \<Rightarrow> string \<Rightarrow> ('f chat_world, chat_session) prog" where
  "require_session ws i =
     bindM (read_session ws i) (\<lambda>r. case r of
       None \<Rightarrow> throw (ServiceError (''Unknown session: '' @ i) 404)
     | Some s \<Rightarrow> ret s)"

text \<open>\<^verbatim>\<open>{ ...session, updatedAt: new Date().toISOString() }\<close>, saved.\<close>

definition save_touched :: "string \<Rightarrow> chat_session \<Rightarrow> ('f chat_world, chat_session) prog" where
  "save_touched ws s =
     bindM (gets (\<lambda>w. iso_of (chat_now w))) (\<lambda>now.
     let s' = s\<lparr>ch_updated := now\<rparr> in thenM (save_session ws s') (ret s'))"

definition auto_snapshot :: "'f vcs_env \<Rightarrow> string \<Rightarrow> string \<Rightarrow> ('f chat_world, vcs_commit) prog" where
  "auto_snapshot env ws user =
     bindM (on_vcs (commit_tree env ws \<lparr>to_message = ''Auto snapshot'', to_author = user, to_session = None, to_prefix = None,
       to_ref = JUndefined, to_parents = None\<rparr>)) (\<lambda>r. ret (fst r))"

definition trimmed_or :: "string option \<Rightarrow> string \<Rightarrow> string" where
  "trimmed_or v d = (case v of None \<Rightarrow> d | Some s \<Rightarrow> if js_trim s = [] then d else js_trim s)"

definition create_session ::
  "'f vcs_env \<Rightarrow> (nat \<Rightarrow> string) \<Rightarrow> string \<Rightarrow> string \<Rightarrow> string option \<Rightarrow> session_mode option \<Rightarrow> ('f chat_world, chat_session) prog" where
  "create_session env uuid ws user title mode =
     (let m = (if mode = Some StagedMode then StagedMode else AutoMode)
      in bindM (auto_snapshot env ws user) (\<lambda>commit.
         bindM (gets (\<lambda>w. iso_of (chat_now w))) (\<lambda>now.
         bindM (mint_id uuid) (\<lambda>i.
         let s = \<lparr>ch_id = i, ch_title = trimmed_or title ''New chat'', ch_status = SessionOpen, ch_mode = m, ch_base = vc_id commit,
               ch_overlay = [], ch_touched = (if m = AutoMode then Some [] else None), ch_tabs = JUndefined, ch_agent = None,
               ch_run = None, ch_count = 0, ch_by = user, ch_created = now, ch_updated = now, ch_merge = None\<rparr>
         in thenM (save_session ws s) (ret s)))))"

definition list_sessions :: "'f vcs_env \<Rightarrow> string \<Rightarrow> session_status option \<Rightarrow> ('f chat_world, chat_session list) prog" where
  "list_sessions env ws status w =
     (map_sum id (\<lambda>ds. js_sort (\<lambda>a b. ve_collate env (ch_updated b) (ch_updated a))
        (filter (\<lambda>s. status = None \<or> status = Some (ch_status s)) (map snd ds)))
        (list_svc_records (chat_now w) (hw_sessions w) ws SESSIONS_SCOPE []), w)"

definition update_session ::
  "string \<Rightarrow> string \<Rightarrow> string option \<Rightarrow> session_mode option \<Rightarrow> json \<Rightarrow> ('f chat_world, chat_session) prog" where
  "update_session ws i title mode tabs =
     bindM (require_session ws i) (\<lambda>s.
     if mode \<noteq> None \<and> ch_status s \<noteq> SessionOpen then throw (ServiceError ''Only open sessions can change mode'' 400)
     else if mode = Some AutoMode \<and> ch_overlay s \<noteq> []
     then throw (ServiceError ''Session has staged changes - stage or discard them before switching to auto'' 400)
     else save_touched ws (s\<lparr>ch_title := trimmed_or title (ch_title s), ch_mode := (case mode of Some m \<Rightarrow> m | None \<Rightarrow> ch_mode s),
       ch_tabs := (if tabs = JUndefined then ch_tabs s else tabs)\<rparr>))"

definition set_session_active_run ::
  "string \<Rightarrow> string \<Rightarrow> string option \<Rightarrow> string option \<Rightarrow> ('f chat_world, chat_session) prog" where
  "set_session_active_run ws i run onlyIf =
     bindM (require_session ws i) (\<lambda>s.
     case run of
       None \<Rightarrow>
         if truthy onlyIf \<and> ch_run s \<noteq> onlyIf then ret s
         else if ch_run s = None then ret s
         else save_touched ws (s\<lparr>ch_run := None\<rparr>)
     | Some r \<Rightarrow> save_touched ws (s\<lparr>ch_run := Some r\<rparr>))"

section \<open>Transcript\<close>

definition read_messages :: "string \<Rightarrow> string \<Rightarrow> ('f chat_world, json list) prog" where
  "read_messages ws i w =
     (map_sum id (map snd) (list_svc_records (chat_now w) (hw_messages w) ws (messages_scope i) []), w)"

definition message_id :: "json \<Rightarrow> string option" where
  "message_id m = (case jprop m ''id'' of JStr s \<Rightarrow> if s \<noteq> [] then Some s else None | _ \<Rightarrow> None)"

text \<open>One pass over the keys: the key of every message id, and the next sequence number.\<close>

definition key_index :: "string list \<Rightarrow> (string \<times> string) list \<times> int" where
  "key_index ks =
     foldl (\<lambda>(m, n) k. case parse_seq_key k of
         None \<Rightarrow> (m, n)
       | Some (q, i) \<Rightarrow> (if i \<noteq> [] then mset_at i k m else m, if q \<ge> n then q + 1 else n)) ([], 0) ks"

definition write_message :: "string \<Rightarrow> string \<Rightarrow> string \<Rightarrow> json \<Rightarrow> string \<Rightarrow> ('f chat_world, unit) prog" where
  "write_message ws i key m by_user w = on_messages (write_svc_record (chat_now w) ws (messages_scope i) key m by_user) w"

fun append_loop ::
  "(nat \<Rightarrow> string) \<Rightarrow> string \<Rightarrow> string \<Rightarrow> string \<Rightarrow> json list \<Rightarrow> (string \<times> string) list \<Rightarrow> int \<Rightarrow> nat \<Rightarrow> ('f chat_world, nat) prog" where
  "append_loop uuid ws i by_user [] keys n cnt = ret cnt"
| "append_loop uuid ws i by_user (m # ms) keys n cnt =
     (case Option.bind (message_id m) (mget keys) of
        Some key \<Rightarrow> thenM (write_message ws i key m by_user) (append_loop uuid ws i by_user ms keys n cnt)
      | None \<Rightarrow>
          bindM (case message_id m of Some x \<Rightarrow> ret x | None \<Rightarrow> mint_id uuid) (\<lambda>x.
          let key = seq_key (nat n) x;
              keys' = (case message_id m of Some y \<Rightarrow> mset_at y key keys | None \<Rightarrow> keys)
          in thenM (write_message ws i key m by_user) (append_loop uuid ws i by_user ms keys' (n + 1) (Suc cnt))))"

definition append_messages :: "(nat \<Rightarrow> string) \<Rightarrow> string \<Rightarrow> string \<Rightarrow> json list \<Rightarrow> ('f chat_world, chat_session) prog" where
  "append_messages uuid ws i messages =
     bindM (require_session ws i) (\<lambda>s.
     bindM (gets (\<lambda>w. list_svc_keys (chat_now w) (hw_messages w) ws (messages_scope i) [])) (\<lambda>ks.
     case key_index ks of (keys, n) \<Rightarrow>
       bindM (append_loop uuid ws i (ch_by s) messages keys n (length ks)) (\<lambda>cnt.
       save_touched ws (s\<lparr>ch_count := cnt\<rparr>))))"

section \<open>The overlay\<close>

definition base_snapshot :: "string \<Rightarrow> chat_session \<Rightarrow> ('f chat_world, vcs_snapshot) prog" where
  "base_snapshot ws s =
     bindM (on_vcs (read_commit ws (ch_base s))) (\<lambda>commit.
     bindM (case commit of Some c \<Rightarrow> on_vcs (read_snapshot ws (vc_snapshot c)) | None \<Rightarrow> ret None) (\<lambda>snap.
     case snap of
       None \<Rightarrow> throw (ServiceError (''Base snapshot missing for session '' @ ch_id s) 500)
     | Some x \<Rightarrow> ret x))"

text \<open>A row of a session's listing; the time of an entry is the text the source passes on.\<close>

record session_entry =
  se_path :: string
  se_hash :: string
  se_mime :: string
  se_size :: nat
  se_updated :: string

definition staged_entry :: "chat_session \<Rightarrow> fs_entry option \<Rightarrow> string \<Rightarrow> string \<Rightarrow> string \<Rightarrow> nat \<Rightarrow> session_entry" where
  "staged_entry s shadow path hash mime sz =
     \<lparr>se_path = path, se_hash = hash,
      se_mime = (case shadow of Some e \<Rightarrow> fe_mime e | None \<Rightarrow> mime),
      se_size = (case shadow of Some e \<Rightarrow> fe_size e | None \<Rightarrow> sz),
      se_updated = (case shadow of Some e \<Rightarrow> iso_of (fe_updated e) | None \<Rightarrow> ch_updated s)\<rparr>"

definition overlaid_entries :: "chat_session \<Rightarrow> (string \<Rightarrow> fs_entry option) \<Rightarrow> snapshot_entry list \<Rightarrow> session_entry list" where
  "overlaid_entries s shadow es =
     concat (map (\<lambda>e. case mget (ch_overlay s) (sn_path e) of
         Some None \<Rightarrow> []
       | Some (Some h) \<Rightarrow> [staged_entry s (shadow (sn_path e)) (sn_path e) h (sn_mime e) (sn_size e)]
       | None \<Rightarrow> [\<lparr>se_path = sn_path e, se_hash = sn_hash e, se_mime = sn_mime e, se_size = sn_size e, se_updated = ch_created s\<rparr>]) es)"

definition added_entries ::
  "chat_session \<Rightarrow> (string \<Rightarrow> fs_entry option) \<Rightarrow> (string \<Rightarrow> bool) \<Rightarrow> string set \<Rightarrow> session_entry list" where
  "added_entries s shadow inside seen =
     concat (map (\<lambda>(p, staged). case staged of
         Some h \<Rightarrow> if p \<in> seen \<or> \<not> inside p then [] else [staged_entry s (shadow p) p h ''text/plain'' 0]
       | None \<Rightarrow> []) (ch_overlay s))"

definition session_list :: "'f vcs_env \<Rightarrow> string \<Rightarrow> chat_session \<Rightarrow> string \<Rightarrow> ('f chat_world, session_entry list) prog" where
  "session_list env ws s pre =
     (if ch_mode s \<noteq> StagedMode then throw (ServiceError ''Session listing applies to staged sessions'' 400)
      else bindM (base_snapshot ws s) (\<lambda>snap.
        bindM (gets (\<lambda>w. case fa_list_all (ve_files env) (gw_files (hw_vcs w)) ws (shadow_root (ch_id s)) of Inr es \<Rightarrow> es | Inl e \<Rightarrow> [])) (\<lambda>shadows.
        let shadow = mget (foldl (\<lambda>m e. mset_at (drop (Suc (length (shadow_root (ch_id s)))) (fe_path e)) e m) [] shadows);
            inside = (\<lambda>p. pre = [] \<or> p = pre \<or> starts_with p (pre @ ''/''));
            base = filter (\<lambda>e. inside (sn_path e)) (vn_entries snap)
        in ret (js_sort (\<lambda>a b. ve_collate env (se_path a) (se_path b))
             (overlaid_entries s shadow base @ added_entries s shadow inside (set (map sn_path base)))))))"

definition read_file :: "'f vcs_env \<Rightarrow> string \<Rightarrow> string \<Rightarrow> string option \<Rightarrow> ('f chat_world, fs_file option) prog" where
  "read_file env ws path hash = bindM (gets (\<lambda>w. gw_files (hw_vcs w))) (\<lambda>f. liftE (fa_read (ve_files env) f ws path hash))"

definition session_read :: "'f vcs_env \<Rightarrow> string \<Rightarrow> chat_session \<Rightarrow> string \<Rightarrow> ('f chat_world, fs_file option) prog" where
  "session_read env ws s path =
     (case mget (ch_overlay s) path of
        Some None \<Rightarrow> ret None
      | Some (Some h) \<Rightarrow>
          bindM (read_file env ws (shadow_path (ch_id s) path) (Some h)) (\<lambda>r. ret (map_option (\<lambda>f. f\<lparr>fe_path := path\<rparr>) r))
      | None \<Rightarrow>
          bindM (base_snapshot ws s) (\<lambda>snap.
          case find (\<lambda>e. sn_path e = path) (vn_entries snap) of
            None \<Rightarrow> ret None
          | Some e \<Rightarrow> read_file env ws path (Some (sn_hash e))))"

text \<open>The store answers a write with the new file, whose hash is the digest of the content.\<close>

definition write_file :: "'f vcs_env \<Rightarrow> string \<Rightarrow> string \<Rightarrow> string \<Rightarrow> string \<Rightarrow> ('f chat_world, fs_file) prog" where
  "write_file env ws path content mime w =
     (Inr (new_file (ve_sha env) (chat_now w) path content mime),
      snd (on_files (modifyM (fa_write (ve_files env) (chat_now w) ws path content mime)) w))"

definition session_write ::
  "'f vcs_env \<Rightarrow> string \<Rightarrow> chat_session \<Rightarrow> string \<Rightarrow> string \<Rightarrow> string option \<Rightarrow> ('f chat_world, fs_entry \<times> chat_session) prog" where
  "session_write env ws s path content mime =
     bindM (write_file env ws (shadow_path (ch_id s) path) content (case mime of Some m \<Rightarrow> m | None \<Rightarrow> ''text/plain'')) (\<lambda>f.
     bindM (save_touched ws (s\<lparr>ch_overlay := mset_at path (Some (fe_hash f)) (ch_overlay s)\<rparr>)) (\<lambda>s'.
     ret ((entry_of f)\<lparr>fe_path := path\<rparr>, s')))"

definition record_session_touch :: "string \<Rightarrow> string \<Rightarrow> string \<Rightarrow> ('f chat_world, unit) prog" where
  "record_session_touch ws i path =
     bindM (require_session ws i) (\<lambda>s.
     if ch_status s \<noteq> SessionOpen \<or> ch_mode s \<noteq> AutoMode then ret ()
     else (case normalize_fs_path path of
         None \<Rightarrow> ret ()
       | Some p \<Rightarrow>
           let touched = (case ch_touched s of Some t \<Rightarrow> t | None \<Rightarrow> [])
           in if p \<in> set touched then ret ()
              else thenM (save_touched ws (s\<lparr>ch_touched := Some (sort (dedup (touched @ [p])))\<rparr>)) (ret ())))"

definition delete_targets :: "chat_session \<Rightarrow> vcs_snapshot \<Rightarrow> string \<Rightarrow> bool \<Rightarrow> string list" where
  "delete_targets s snap path recursive =
     filter (\<lambda>p. p = path \<or> recursive \<and> starts_with p (path @ ''/''))
       (dedup (map sn_path (vn_entries snap) @ map fst (ch_overlay s)))"

definition session_delete :: "string \<Rightarrow> chat_session \<Rightarrow> string \<Rightarrow> bool \<Rightarrow> ('f chat_world, string list \<times> chat_session) prog" where
  "session_delete ws s path recursive =
     bindM (base_snapshot ws s) (\<lambda>snap.
     let removed = filter (\<lambda>p. mget (ch_overlay s) p \<noteq> Some None) (delete_targets s snap path recursive)
     in if removed = [] then throw (ServiceError (''Not found: '' @ path) 404)
        else bindM (save_touched ws (s\<lparr>ch_overlay := foldl (\<lambda>m p. mset_at p None m) (ch_overlay s) removed\<rparr>)) (\<lambda>s'.
             ret (sort removed, s')))"

definition delete_session :: "'f vcs_env \<Rightarrow> string \<Rightarrow> string \<Rightarrow> ('f chat_world, unit) prog" where
  "delete_session env ws i =
     bindM (require_session ws i) (\<lambda>_.
     bindM (\<lambda>w. on_messages (delete_svc_scope (chat_now w) ws (messages_scope i) []) w) (\<lambda>_.
     bindM (on_files (fa_remove_prefix (ve_files env) ws (SESSIONS_PREFIX @ ''/'' @ i))) (\<lambda>_.
     bindM (on_sessions (delete_svc_record ws SESSIONS_SCOPE i)) (\<lambda>_. ret ()))))"

text \<open>A path listed twice is dropped once: the second time it is no longer in the overlay.\<close>

fun drop_changes :: "string list \<Rightarrow> (string \<times> string option) list \<Rightarrow> string list \<times> (string \<times> string option) list" where
  "drop_changes [] ov = ([], ov)"
| "drop_changes (raw # r) ov =
     (case normalize_fs_path raw of
        None \<Rightarrow> drop_changes r ov
      | Some p \<Rightarrow>
          if mget ov p \<noteq> None then (case drop_changes r (mdel p ov) of (d, ov') \<Rightarrow> (p # d, ov'))
          else drop_changes r ov)"

definition discard_changes :: "string \<Rightarrow> string \<Rightarrow> string list \<Rightarrow> ('f chat_world, string list) prog" where
  "discard_changes ws i paths =
     bindM (require_session ws i) (\<lambda>s.
     if ch_status s \<noteq> SessionOpen then throw (ServiceError ''Session is not open'' 400)
     else (case drop_changes paths (ch_overlay s) of (dropped, ov) \<Rightarrow>
       if dropped = [] then throw (ServiceError ''No matching staged changes'' 404)
       else thenM (save_touched ws (s\<lparr>ch_overlay := ov\<rparr>)) (ret (sort dropped))))"

section \<open>Summaries\<close>

definition staged_summary :: "vcs_snapshot option \<Rightarrow> (string \<times> string option) list \<Rightarrow> change_summary" where
  "staged_summary snap ov =
     (let before = mget (hash_map (case snap of Some s \<Rightarrow> vn_entries s | None \<Rightarrow> []))
      in \<lparr>sm_added = sort (map fst (filter (\<lambda>(p, st). st \<noteq> None \<and> before p = None) ov)),
          sm_modified = sort (map fst (filter (\<lambda>(p, st). st \<noteq> None \<and> before p \<noteq> None \<and> before p \<noteq> st) ov)),
          sm_removed = sort (map fst (filter (\<lambda>(p, st). st = None \<and> before p \<noteq> None) ov)), sm_other = False\<rparr>)"

definition auto_change_summary :: "'f vcs_env \<Rightarrow> string \<Rightarrow> chat_session \<Rightarrow> ('f chat_world, change_summary) prog" where
  "auto_change_summary env ws s =
     bindM (on_vcs (read_commit ws (ch_base s))) (\<lambda>commit.
     bindM (case commit of Some c \<Rightarrow> on_vcs (read_snapshot ws (vc_snapshot c)) | None \<Rightarrow> ret None) (\<lambda>base.
     bindM (on_vcs (visible_entries env ws [])) (\<lambda>es.
     let d = diff_snapshots base (build_snapshot env es [] None);
         allow = (\<lambda>p. case ch_touched s of None \<Rightarrow> True | Some t \<Rightarrow> p \<in> set t)
     in ret \<lparr>sm_added = sort (filter allow (map fst (df_added d))), sm_modified = sort (filter allow (map fst (df_modified d))),
             sm_removed = sort (filter allow (map fst (df_removed d))), sm_other = (ch_touched s = None)\<rparr>)))"

definition change_summary_of :: "'f vcs_env \<Rightarrow> string \<Rightarrow> chat_session \<Rightarrow> ('f chat_world, change_summary) prog" where
  "change_summary_of env ws s =
     (if ch_mode s = AutoMode then auto_change_summary env ws s
      else bindM (catchM (bindM (base_snapshot ws s) (\<lambda>x. ret (Some x))) (\<lambda>_. ret None)) (\<lambda>snap.
        ret (staged_summary snap (ch_overlay s))))"

section \<open>Syncing and closing\<close>

text \<open>\<^verbatim>\<open>staged !== now\<close>, where a staged deletion is null and a path gone from the main line is undefined.\<close>

definition conflict_of :: "(string \<Rightarrow> string option) \<Rightarrow> (string \<Rightarrow> string option) \<Rightarrow> string \<times> string option \<Rightarrow> bool" where
  "conflict_of old new x = (case x of (p, staged) \<Rightarrow> old p \<noteq> new p \<and> (staged = None \<or> staged \<noteq> new p))"

definition sync_conflicts :: "vcs_snapshot \<Rightarrow> vcs_snapshot \<Rightarrow> (string \<times> string option) list \<Rightarrow> session_conflict list" where
  "sync_conflicts oldBase newBase ov =
     (let old = mget (hash_map (vn_entries oldBase)); new = mget (hash_map (vn_entries newBase))
      in map (\<lambda>(p, staged). \<lparr>sx_path = p, sx_ours = staged, sx_theirs = new p\<rparr>) (filter (conflict_of old new) ov))"

definition sync_session ::
  "'f vcs_env \<Rightarrow> string \<Rightarrow> string \<Rightarrow> string \<Rightarrow> ('f chat_world, chat_session \<times> session_conflict list) prog" where
  "sync_session env ws i user =
     bindM (require_session ws i) (\<lambda>s.
     if ch_status s \<noteq> SessionOpen then throw (ServiceError ''Session is not open'' 400)
     else bindM (base_snapshot ws s) (\<lambda>oldBase.
       bindM (auto_snapshot env ws user) (\<lambda>commit.
       if vc_id commit = ch_base s then ret (s, [])
       else bindM (on_vcs (read_snapshot ws (vc_snapshot commit))) (\<lambda>nb. case nb of
           None \<Rightarrow> throw (ServiceError ''Snapshot missing for main head'' 500)
         | Some newBase \<Rightarrow>
             bindM (save_touched ws (s\<lparr>ch_base := vc_id commit\<rparr>)) (\<lambda>s'.
             ret (s', sync_conflicts oldBase newBase (ch_overlay s)))))))"

text \<open>Applying the overlay to the live tree, entry by entry; a failure keeps what was applied before it.\<close>

fun apply_overlay :: "'f vcs_env \<Rightarrow> int \<Rightarrow> string \<Rightarrow> string \<Rightarrow> (string \<times> string option) list \<Rightarrow> ('f, unit) prog" where
  "apply_overlay env now ws i [] = ret ()"
| "apply_overlay env now ws i ((path, staged) # r) =
     (case normalize_fs_path path of
        None \<Rightarrow> apply_overlay env now ws i r
      | Some p \<Rightarrow>
          (case staged of
             None \<Rightarrow> thenM (modifyM (fa_remove (ve_files env) ws p)) (apply_overlay env now ws i r)
           | Some h \<Rightarrow>
               bindM (\<lambda>s. (fa_read (ve_files env) s ws (shadow_path i p) (Some h), s)) (\<lambda>shadow. case shadow of
                 None \<Rightarrow> throw (ServiceError (''Staged content missing for '' @ p) 500)
               | Some f \<Rightarrow> thenM (modifyM (fa_write (ve_files env) now ws p (ff_content f) (fe_mime f))) (apply_overlay env now ws i r))))"

definition session_line ::
  "'f vcs_env \<Rightarrow> string \<Rightarrow> chat_session \<Rightarrow> string \<Rightarrow> ('f chat_world, string list option) prog" where
  "session_line env ws s user =
     bindM (on_vcs (read_ref ws MAIN_REF)) (\<lambda>mainBefore.
     if ch_overlay s = [] then ret None
     else bindM (on_vcs (commit_tree env ws \<lparr>to_message = ''Session: '' @ ch_title s, to_author = user, to_session = Some (ch_id s),
            to_prefix = None, to_ref = JStr (''session/'' @ ch_id s), to_parents = Some [ch_base s]\<rparr>)) (\<lambda>r.
          ret (Some (case mainBefore of
              Some m \<Rightarrow> if rf_commit m \<noteq> [] then [rf_commit m, vc_id (fst r)] else [vc_id (fst r)]
            | None \<Rightarrow> [vc_id (fst r)]))))"

definition close_session ::
  "'f vcs_env \<Rightarrow> string \<Rightarrow> string \<Rightarrow> string \<Rightarrow> bool \<Rightarrow> string option \<Rightarrow> ('f chat_world, chat_session \<times> vcs_commit option) prog" where
  "close_session env ws i user stage message =
     bindM (require_session ws i) (\<lambda>s.
     if ch_status s \<noteq> SessionOpen then throw (ServiceError ''Session is not open'' 400)
     else if \<not> stage then bindM (save_touched ws (s\<lparr>ch_status := SessionClosed\<rparr>)) (\<lambda>s'. ret (s', None))
     else thenM (\<lambda>w. on_files (apply_overlay env (chat_now w) ws (ch_id s) (ch_overlay s)) w)
       (bindM (session_line env ws s user) (\<lambda>parents.
        bindM (on_vcs (commit_tree env ws \<lparr>to_message = trimmed_or message (''Merge session: '' @ ch_title s), to_author = user,
            to_session = Some (ch_id s), to_prefix = None, to_ref = JUndefined, to_parents = parents\<rparr>)) (\<lambda>r.
        bindM (save_touched ws (s\<lparr>ch_status := SessionMerged, ch_merge := Some (vc_id (fst r))\<rparr>)) (\<lambda>s'.
        ret (s', Some (fst r)))))))"

datatype merge_strategy = KeepDraft | KeepWorkspace

definition resolve_session_merge ::
  "'f vcs_env \<Rightarrow> string \<Rightarrow> string \<Rightarrow> string \<Rightarrow> merge_strategy \<Rightarrow> bool \<Rightarrow> string option \<Rightarrow>
   ('f chat_world, chat_session \<times> vcs_commit option \<times> string list) prog" where
  "resolve_session_merge env ws i user strategy apply_it message =
     bindM (sync_session env ws i user) (\<lambda>(_, conflicts).
     let resolved = sort (map sx_path conflicts)
     in thenM (if strategy = KeepWorkspace \<and> resolved \<noteq> [] then bindM (discard_changes ws i resolved) (\<lambda>_. ret ()) else ret ())
          (bindM (require_session ws i) (\<lambda>s.
           if \<not> apply_it then ret (s, None, resolved)
           else bindM (close_session env ws i user True (Some (trimmed_or message
               (''Merge: '' @ ch_title s @ '' ('' @ (if strategy = KeepDraft then ''kept the draft's versions''
                 else ''kept the workspace versions'') @ '')'')))) (\<lambda>(s', c). ret (s', c, resolved)))))"

section \<open>Self-heal helpers\<close>

definition MAX_WIDGET_AUTOFIXES :: nat where
  "MAX_WIDGET_AUTOFIXES = 2"

definition is_object :: "json \<Rightarrow> bool" where
  "is_object v \<longleftrightarrow> (case v of JObj m \<Rightarrow> True | JArr x \<Rightarrow> True | _ \<Rightarrow> False)"

definition message_meta :: "json \<Rightarrow> json option" where
  "message_meta raw = (case jprop raw ''metadata'' of JObj m \<Rightarrow> Some (JObj m) | _ \<Rightarrow> None)"

definition is_heal_user_message :: "json \<Rightarrow> bool" where
  "is_heal_user_message raw \<longleftrightarrow> jprop raw ''role'' = JStr ''user'' \<and>
     (case message_meta raw of Some m \<Rightarrow> jprop m ''origin'' = JStr ''self-heal'' | None \<Rightarrow> False)"

definition heal_failure_message_id :: "json \<Rightarrow> string option" where
  "heal_failure_message_id raw =
     (case message_meta raw of
        None \<Rightarrow> None
      | Some m \<Rightarrow> (case jprop m ''failureMessageId'' of JStr s \<Rightarrow> if s \<noteq> [] then Some s else None | _ \<Rightarrow> None))"

text \<open>The walk from the end of the transcript, on the reversed list.\<close>

fun heal_walk :: "json list \<Rightarrow> nat" where
  "heal_walk [] = 0"
| "heal_walk (m # ms) =
     (if \<not> is_object m then heal_walk ms
      else if jprop m ''role'' \<noteq> JStr ''user'' then heal_walk ms
      else if is_heal_user_message m then Suc (heal_walk ms)
      else 0)"

definition consecutive_heal_count :: "json list \<Rightarrow> nat" where
  "consecutive_heal_count messages = heal_walk (rev messages)"

definition has_heal_for_assistant_message :: "json list \<Rightarrow> string \<Rightarrow> bool" where
  "has_heal_for_assistant_message messages i \<longleftrightarrow>
     (\<exists>m \<in> set messages. is_heal_user_message m \<and> heal_failure_message_id m = Some i)"

section \<open>The tool namespace\<close>

definition session_mode_arg :: "json \<Rightarrow> svc_error + session_mode option" where
  "session_mode_arg v =
     (if v = JUndefined then Inr None
      else if v = JStr ''auto'' then Inr (Some AutoMode)
      else if v = JStr ''staged'' then Inr (Some StagedMode)
      else Inl (ServiceError (''mode must be '' @ json_string ''auto'' @ '' or '' @ json_string ''staged'') 400))"

record session_view =
  sv_session :: chat_session
  sv_changes :: change_summary
  sv_base_at :: "string option"

datatype sessions_reply =
    ReplySession chat_session
  | ReplyView session_view
  | ReplyViews "session_view list"
  | ReplyMessages "json list"
  | ReplySync session_view "session_conflict list"
  | ReplyDeleted string
  | ReplyDropped "string list" session_view
  | ReplyMerged chat_session "vcs_commit option" "string list"

definition with_changes :: "'f vcs_env \<Rightarrow> string \<Rightarrow> chat_session \<Rightarrow> ('f chat_world, session_view) prog" where
  "with_changes env ws s =
     bindM (change_summary_of env ws s) (\<lambda>changes.
     bindM (on_vcs (read_commit ws (ch_base s))) (\<lambda>base.
     ret \<lparr>sv_session = s, sv_changes = changes, sv_base_at = map_option vc_created base\<rparr>))"

definition string_arg :: "json \<Rightarrow> string option" where
  "string_arg v = (case v of JStr s \<Rightarrow> Some s | _ \<Rightarrow> None)"

definition status_arg :: "json \<Rightarrow> session_status option" where
  "status_arg v =
     (if v = JStr ''open'' then Some SessionOpen else if v = JStr ''merged'' then Some SessionMerged
      else if v = JStr ''closed'' then Some SessionClosed else None)"

definition array_arg :: "string \<Rightarrow> json \<Rightarrow> svc_error + json list" where
  "array_arg name v = (case v of JArr xs \<Rightarrow> Inr xs | _ \<Rightarrow> Inl (ServiceError (name @ '' must be an array'') 400))"

definition strategy_arg :: "json \<Rightarrow> svc_error + merge_strategy" where
  "strategy_arg v =
     (if v = JStr ''keep-draft'' then Inr KeepDraft else if v = JStr ''keep-workspace'' then Inr KeepWorkspace
      else Inl (ServiceError (''strategy must be '' @ json_string ''keep-draft'' @ '' or '' @ json_string ''keep-workspace'') 400))"

definition sessions_call ::
  "'f vcs_env \<Rightarrow> (nat \<Rightarrow> string) \<Rightarrow> string \<Rightarrow> string \<Rightarrow> bool \<Rightarrow> string \<Rightarrow> json \<Rightarrow> ('f chat_world, sessions_reply) prog" where
  "sessions_call env uuid ws user appScope procedure args =
     (let sid = liftE (session_id (jprop args ''id''))
      in if appScope then throw (ServiceError ''Chat sessions are workspace-only'' 403)
      else if procedure = ''create'' then
        bindM (liftE (session_mode_arg (jprop args ''mode''))) (\<lambda>mode.
        bindM (create_session env uuid ws user (string_arg (jprop args ''title'')) mode) (\<lambda>s. ret (ReplySession s)))
      else if procedure = ''list'' then
        bindM (list_sessions env ws (status_arg (jprop args ''status''))) (\<lambda>ss.
        bindM (mapM (with_changes env ws) ss) (\<lambda>vs. ret (ReplyViews vs)))
      else if procedure = ''get'' then
        bindM sid (\<lambda>i. bindM (require_session ws i) (\<lambda>s. bindM (with_changes env ws s) (\<lambda>v. ret (ReplyView v))))
      else if procedure = ''messages'' then
        bindM sid (\<lambda>i. bindM (require_session ws i) (\<lambda>_. bindM (read_messages ws i) (\<lambda>ms. ret (ReplyMessages ms))))
      else if procedure = ''append'' then
        bindM (liftE (array_arg ''messages'' (jprop args ''messages''))) (\<lambda>ms.
        bindM sid (\<lambda>i. bindM (append_messages uuid ws i ms) (\<lambda>s. ret (ReplySession s))))
      else if procedure = ''update'' then
        bindM sid (\<lambda>i. bindM (liftE (session_mode_arg (jprop args ''mode''))) (\<lambda>mode.
        bindM (update_session ws i (string_arg (jprop args ''title'')) mode (jprop args ''tabs'')) (\<lambda>s. ret (ReplySession s))))
      else if procedure = ''sync'' then
        bindM sid (\<lambda>i. bindM (sync_session env ws i user) (\<lambda>(s, conflicts).
        bindM (with_changes env ws s) (\<lambda>v. ret (ReplySync v conflicts))))
      else if procedure = ''delete'' then
        bindM sid (\<lambda>i. bindM (delete_session env ws i) (\<lambda>_. ret (ReplyDeleted i)))
      else if procedure = ''discard'' then
        bindM (liftE (array_arg ''paths'' (jprop args ''paths''))) (\<lambda>ps.
        bindM sid (\<lambda>i. bindM (discard_changes ws i (List.map_filter string_arg ps)) (\<lambda>dropped.
        bindM (require_session ws i) (\<lambda>s. bindM (with_changes env ws s) (\<lambda>v. ret (ReplyDropped dropped v))))))
      else if procedure = ''resolve'' then
        bindM (liftE (strategy_arg (jprop args ''strategy''))) (\<lambda>strategy.
        bindM sid (\<lambda>i. bindM (resolve_session_merge env ws i user strategy (jprop args ''apply'' \<noteq> JBool False) (string_arg (jprop args ''message'')))
          (\<lambda>(s, c, resolved). ret (ReplyMerged s c resolved))))
      else if procedure = ''close'' then
        bindM sid (\<lambda>i. bindM (close_session env ws i user (jprop args ''stage'' = JBool True) (string_arg (jprop args ''message'')))
          (\<lambda>(s, c). ret (ReplyMerged s c [])))
      else throw (ServiceError (''Unknown sessions procedure: '' @ procedure) 404))"

end
