(* ===== verification/Chat_Laws.thy ===== *)
theory Chat_Laws
  imports Chat_Sessions Vcs_Properties
begin

text \<open>
  Chat sessions as a map of documents, and what applying a draft does to the files. The locale
  \<^verbatim>\<open>file_drafts\<close> adds deletion to the contract \<^verbatim>\<open>file_versions\<close>; both backends provide it. A draft
  whose staged contents can be read back is \<^verbatim>\<open>draft_ok\<close>.
\<close>

section \<open>Session records\<close>

definition session_at :: "'f chat_world \<Rightarrow> string \<Rightarrow> string \<Rightarrow> chat_session option" where
  "session_at w ws i = doc_at (hw_sessions w) ws SESSIONS_SCOPE i"

definition chat_ok :: "string \<Rightarrow> 'f chat_world \<Rightarrow> bool" where
  "chat_ok ws w \<longleftrightarrow> vcs_ok ws (hw_vcs w) \<and> doc_ok (hw_sessions w) \<and> ws_ok (hw_sessions w) ws \<and> (\<forall>v. storable (hw_sessions w) v)"

lemma chat_ok_vcs: "chat_ok ws w \<Longrightarrow> vcs_ok ws (hw_vcs w)"
  by (simp add: chat_ok_def)

lemma chat_ok_vcs_update: "chat_ok ws w \<Longrightarrow> vcs_ok ws v \<Longrightarrow> chat_ok ws (w\<lparr>hw_vcs := v\<rparr>)"
  by (simp add: chat_ok_def)

lemma session_at_vcs [simp]: "session_at (w\<lparr>hw_vcs := v\<rparr>) = session_at w"
  by (simp add: session_at_def fun_eq_iff)

lemma sessions_scope_free: "CHR ''/'' \<notin> set SESSIONS_SCOPE"
  by (simp add: SESSIONS_SCOPE_def svc_scope_def SVC_SCOPE_PREFIX_def)

lemma read_session_at: "chat_ok ws w \<Longrightarrow> read_session ws' i w = (Inr (session_at w ws' i), w)"
  by (simp add: read_session_def session_at_def read_doc chat_ok_def)

lemma require_session_run:
  "chat_ok ws w \<Longrightarrow> require_session ws' i w =
    (case session_at w ws' i of None \<Rightarrow> Inl (ServiceError (''Unknown session: '' @ i) 404) | Some s \<Rightarrow> Inr s, w)"
  by (simp add: require_session_def bindM_run read_session_at split: option.split)

lemma save_session_run:
  assumes "chat_ok ws w"
  obtains w' where "save_session ws s w = (Inr (), w')" "chat_ok ws w'" "hw_vcs w' = hw_vcs w"
    "\<And>i. session_at w' ws i = (if i = ch_id s then Some s else session_at w ws i)"
proof (rule write_doc_run [of "hw_sessions w" ws SESSIONS_SCOPE s "chat_now w" "ch_id s" "ch_by s"])
  fix d
  assume d: "write_svc_record (chat_now w) ws SESSIONS_SCOPE (ch_id s) s (ch_by s) (hw_sessions w) = (Inr (), d)" "doc_ok d"
    "\<And>ws' s' k'. doc_at d ws' s' k' = (if ws' = ws \<and> s' = SESSIONS_SCOPE \<and> k' = ch_id s then Some s else doc_at (hw_sessions w) ws' s' k')"
    "ws_ok d = ws_ok (hw_sessions w)" "storable d = storable (hw_sessions w)"
  show thesis
    by (rule that [of "w\<lparr>hw_sessions := d\<rparr>"])
      (use assms d in \<open>simp_all add: save_session_def on_sessions_def zoom_run chat_ok_def session_at_def\<close>)
qed (use assms sessions_scope_free in \<open>simp_all add: chat_ok_def\<close>)

definition touched :: "'f chat_world \<Rightarrow> chat_session \<Rightarrow> chat_session" where
  "touched w s = s\<lparr>ch_updated := iso_of (chat_now w)\<rparr>"

lemma touched_simps [simp]:
  "ch_id (touched w s) = ch_id s" "ch_status (touched w s) = ch_status s" "ch_overlay (touched w s) = ch_overlay s"
  "ch_base (touched w s) = ch_base s" "ch_merge (touched w s) = ch_merge s" "ch_title (touched w s) = ch_title s"
  "ch_mode (touched w s) = ch_mode s"
  by (simp_all add: touched_def)

lemma save_touched_run:
  assumes "chat_ok ws w"
  obtains w' where "save_touched ws s w = (Inr (touched w s), w')" "chat_ok ws w'" "hw_vcs w' = hw_vcs w"
    "\<And>i. session_at w' ws i = (if i = ch_id s then Some (touched w s) else session_at w ws i)"
proof (rule save_session_run [OF assms, of "touched w s"])
  fix w'
  assume w': "save_session ws (touched w s) w = (Inr (), w')" "chat_ok ws w'" "hw_vcs w' = hw_vcs w"
    "\<And>i. session_at w' ws i = (if i = ch_id (touched w s) then Some (touched w s) else session_at w ws i)"
  have "save_touched ws s w = (Inr (touched w s), w')"
    using w'(1) by (simp add: save_touched_def bindM_run thenM_run touched_def Let_def)
  then show thesis using w' by (intro that [of w']) simp_all
qed

lemma on_vcs_run: "on_vcs m w = (case m (hw_vcs w) of (r, v) \<Rightarrow> (r, w\<lparr>hw_vcs := v\<rparr>))"
  by (simp add: on_vcs_def zoom_run)

lemma on_files_run: "on_files m w = (case m (gw_files (hw_vcs w)) of (r, f) \<Rightarrow> (r, w\<lparr>hw_vcs := (hw_vcs w)\<lparr>gw_files := f\<rparr>\<rparr>))"
  by (simp add: on_files_def on_vcs_run zoom_run split: prod.split)

definition base_at :: "'f chat_world \<Rightarrow> string \<Rightarrow> string \<Rightarrow> vcs_snapshot option" where
  "base_at w ws c = Option.bind (commit_at (hw_vcs w) ws c) (\<lambda>x. snap_at (hw_vcs w) ws (vc_snapshot x))"

lemma base_snapshot_run:
  assumes "chat_ok ws w"
  shows "base_snapshot ws s w =
    (case base_at w ws (ch_base s) of None \<Rightarrow> Inl (ServiceError (''Base snapshot missing for session '' @ ch_id s) 500) | Some x \<Rightarrow> Inr x, w)"
proof (cases "commit_at (hw_vcs w) ws (ch_base s)")
  case (Some c)
  then show ?thesis
    by (cases "snap_at (hw_vcs w) ws (vc_snapshot c)")
      (simp_all add: base_snapshot_def base_at_def bindM_run on_vcs_run vcs_reads [OF chat_ok_vcs [OF assms]])
qed (simp add: base_snapshot_def base_at_def bindM_run on_vcs_run vcs_reads [OF chat_ok_vcs [OF assms]])

section \<open>Drafts\<close>

lemma shadow_is_service: "is_service_path (shadow_path i p)"
  by (simp add: is_service_path_def shadow_path_def SESSIONS_PREFIX_def)

lemma shadow_inj: "shadow_path i p = shadow_path i q \<longleftrightarrow> p = q"
  by (simp add: shadow_path_def)

definition staged_ok :: "'f vcs_env \<Rightarrow> 'f \<Rightarrow> string \<Rightarrow> string \<Rightarrow> string \<times> string option \<Rightarrow> bool" where
  "staged_ok env f ws i x \<longleftrightarrow> normalize_fs_path (fst x) = Some (fst x) \<and> \<not> is_service_path (fst x) \<and>
     (\<forall>h. snd x = Some h \<longrightarrow> h \<noteq> [] \<and> (\<exists>g. fa_read (ve_files env) f ws (shadow_path i (fst x)) (Some h) = Inr (Some g)))"

definition draft_ok :: "'f vcs_env \<Rightarrow> 'f \<Rightarrow> string \<Rightarrow> chat_session \<Rightarrow> bool" where
  "draft_ok env f ws s \<longleftrightarrow> wf_map (ch_overlay s) \<and> (\<forall>x \<in> set (ch_overlay s). staged_ok env f ws (ch_id s) x)"

locale file_drafts = file_versions +
  assumes remove_inv: "inv now s \<Longrightarrow> inv now (fa_remove api ws p s)"
    and remove_latest: "inv now s \<Longrightarrow> latest (fa_remove api ws p s) ws' p' = (if ws' = ws \<and> p' = p then None else latest s ws' p')"
    and remove_other: "inv now s \<Longrightarrow> p' \<noteq> p \<Longrightarrow> fa_read api (fa_remove api ws p s) ws p' ver = fa_read api s ws p' ver"
    and list_total: "\<exists>es. fa_list_all api s ws pre = Inr es"
begin

text \<open>A change of one path of the main tree leaves the staged contents readable.\<close>

lemma staged_frame:
  assumes "inv now s" and "ve_files env = api" and "\<not> is_service_path p" and "staged_ok env s ws i x"
  shows "staged_ok env (fa_write api now ws p c m s) ws i x" "staged_ok env (fa_remove api ws p s) ws i x"
proof -
  have ne: "shadow_path i q \<noteq> p" for q using assms(3) shadow_is_service by metis
  show "staged_ok env (fa_write api now ws p c m s) ws i x" "staged_ok env (fa_remove api ws p s) ws i x"
    using assms(4) unfolding staged_ok_def assms(2) write_other [OF assms(1) ne] remove_other [OF assms(1) ne] by blast+
qed

text \<open>Applying a draft gives every staged path its staged hash, or removes it, and changes no other path.\<close>

lemma overlay_applied:
  assumes "inv now s" and "ve_files env = api" and "distinct (map fst ov)" and "\<forall>x \<in> set ov. staged_ok env s ws i x"
  shows "\<exists>s'. apply_overlay env now ws i ov s = (Inr (), s') \<and> inv now s' \<and>
    (\<forall>(p, st) \<in> set ov. map_option fe_hash (latest s' ws p) = st) \<and>
    (\<forall>ws' p. \<not> (ws' = ws \<and> p \<in> fst ` set ov) \<longrightarrow> latest s' ws' p = latest s ws' p)"
  using assms
proof (induction ov arbitrary: s)
  case (Cons x ov)
  obtain p st where x: "x = (p, st)" by (cases x)
  note inv = Cons.prems(1) and api = Cons.prems(2)
  have ok: "normalize_fs_path p = Some p" "\<not> is_service_path p" using Cons.prems(4) by (simp_all add: x staged_ok_def)
  have p: "p \<notin> fst ` set ov" "distinct (map fst ov)" using Cons.prems(3) by (auto simp: x)
  have step: "\<exists>t. apply_overlay env now ws i (x # ov) s = apply_overlay env now ws i ov t \<and> inv now t \<and>
      (\<forall>x \<in> set ov. staged_ok env t ws i x) \<and> map_option fe_hash (latest t ws p) = st \<and>
      (\<forall>ws' p'. \<not> (ws' = ws \<and> p' = p) \<longrightarrow> latest t ws' p' = latest s ws' p')"
  proof (cases st)
    case None
    let ?t = "fa_remove api ws p s"
    have "apply_overlay env now ws i (x # ov) s = apply_overlay env now ws i ov ?t"
      using None by (simp add: x ok(1) api thenM_run)
    then show ?thesis using remove_inv [OF inv, of ws p] staged_frame(2) [OF inv api ok(2)] Cons.prems(4) None
      by (intro exI [of _ ?t]) (simp add: remove_latest [OF inv])
  next
    case (Some h)
    then obtain g where h: "h \<noteq> []" and g: "fa_read api s ws (shadow_path i p) (Some h) = Inr (Some g)"
      using Cons.prems(4) by (auto simp: x staged_ok_def api)
    let ?t = "fa_write api now ws p (ff_content g) (fe_mime g) s"
    have "sha (ff_content g) = h" by (rule pinned [OF inv h g])
    moreover have "apply_overlay env now ws i (x # ov) s = apply_overlay env now ws i ov ?t"
      using Some g by (simp add: x ok(1) api thenM_run bindM_run)
    ultimately show ?thesis using write_inv [OF inv] staged_frame(1) [OF inv api ok(2)] Cons.prems(4) Some
      by (intro exI [of _ ?t]) (simp add: write_latest [OF inv] new_file_def)
  qed
  then obtain t where t: "apply_overlay env now ws i (x # ov) s = apply_overlay env now ws i ov t" "inv now t"
    "\<forall>x \<in> set ov. staged_ok env t ws i x" "map_option fe_hash (latest t ws p) = st"
    "\<forall>ws' p'. \<not> (ws' = ws \<and> p' = p) \<longrightarrow> latest t ws' p' = latest s ws' p'" by blast
  from Cons.IH [OF t(2) api p(2) t(3)] obtain s' where s': "apply_overlay env now ws i ov t = (Inr (), s')" "inv now s'"
    "\<forall>(p, st) \<in> set ov. map_option fe_hash (latest s' ws p) = st"
    "\<forall>ws' p. \<not> (ws' = ws \<and> p \<in> fst ` set ov) \<longrightarrow> latest s' ws' p = latest t ws' p" by blast
  have "latest s' ws p = latest t ws p" using s'(4) p(1) by blast
  then have "map_option fe_hash (latest s' ws p) = st" using t(4) by simp
  then show ?case using t(1,5) s' unfolding x by (intro exI [of _ s']) (auto simp del: map_option_eq_Some)
qed simp

end

lemma sq_list_total: "\<exists>es. fa_list_all (sqlite_api sha pick) s ws pre = Inr es"
  by (simp add: sqlite_api_def all_of_def fs_list_all_def sq_list_def fs_page_of_def Let_def)

lemma ds_list_total: "\<exists>es. fa_list_all (dsql_api sha) s ws pre = Inr es"
  by (simp add: dsql_api_def all_of_def fs_list_all_def ds_list_def fs_page_of_def Let_def)

interpretation sqd: file_drafts sha "sqlite_api sha pick" "sq_hashed sha pick" sq_latest for sha pick
proof unfold_locales
  show "sq_hashed sha pick now s \<Longrightarrow> sq_hashed sha pick now (fa_remove (sqlite_api sha pick) ws p s)" for now s ws p
    using sq.rm_inv [of pick now s ws p] by (auto simp: sq_hashed_def sqlite_api_def sq_remove_def)
  show "sq_hashed sha pick now s \<Longrightarrow> sq_latest (fa_remove (sqlite_api sha pick) ws p s) ws' p' = (if ws' = ws \<and> p' = p then None else sq_latest s ws' p')"
    for now s ws p ws' p'
    using sq.latest_rm [of pick now s] by (simp add: sq_hashed_def sqlite_api_def)
  show "p' \<noteq> p \<Longrightarrow> fa_read (sqlite_api sha pick) (fa_remove (sqlite_api sha pick) ws p s) ws p' h = fa_read (sqlite_api sha pick) s ws p' h"
    for s p' p ws h
  proof -
    assume "p' \<noteq> p"
    then have eq: "sq_versions (snd (sq_remove ws p s)) ws p' = sq_versions s ws p'" by (simp add: sq_remove_versions)
    show ?thesis by (simp only: sqlite_api_def file_api.select_convs sq_read_def eq)
  qed
qed (rule sq_list_total)

lemma ds_hashed_drop: "ds_hashed sha now s \<Longrightarrow> ds_hashed sha now (ds_drop_paths ws ps s)"
  using ds_drop_inv [of sha now s ws ps] by (auto simp: ds_hashed_def ds_drop_paths_def blob_ok_def)

lemma ds_read_drop: "p' \<notin> set ps \<Longrightarrow> ds_read (ds_drop_paths ws ps s) ws p' h = ds_read s ws p' h"
proof -
  assume p: "p' \<notin> set ps"
  have "map_of (filter (\<lambda>((w, p, h), e). \<not> (w = ws \<and> p \<in> set ps)) m) (ws, p', g) = map_of m (ws, p', g)" for m :: "((string \<times> string \<times> string) \<times> fs_entry) list" and g
    using p by (induction m) auto
  then have f: "map_of (fd_files (ds_drop_paths ws ps s)) (ws, p', g) = map_of (fd_files s) (ws, p', g)" for g
    by (simp add: ds_drop_paths_def)
  show ?thesis using p unfolding ds_read_def f drop_paths_latest by simp
qed

interpretation dsd: file_drafts sha "dsql_api sha" "ds_hashed sha" ds_latest for sha
proof unfold_locales
  show "ds_hashed sha now s \<Longrightarrow> ds_hashed sha now (fa_remove (dsql_api sha) ws p s)" for now s ws p
    by (simp add: dsql_api_def ds_remove_def ds_hashed_drop)
  show "ds_latest (fa_remove (dsql_api sha) ws p s) ws' p' = (if ws' = ws \<and> p' = p then None else ds_latest s ws' p')"
    for s ws p ws' p'
    by (simp add: dsql_api_def ds_remove_def ds_drop_latest)
  show "p' \<noteq> p \<Longrightarrow> fa_read (dsql_api sha) (fa_remove (dsql_api sha) ws p s) ws p' h = fa_read (dsql_api sha) s ws p' h"
    for s p' p ws h
    by (simp add: dsql_api_def ds_remove_def ds_read_drop)
qed (rule ds_list_total)

end
