(* ===== verification/Chat_Properties.thy ===== *)
theory Chat_Properties
  imports Chat_Laws
begin

text \<open>
  What chat sessions promise: a staged edit is seen by its session and by nothing else, closing
  a session with \<^verbatim>\<open>stage\<close> brings the workspace to the draft and records the merge, and resolving a
  merge keeps the side that was asked for. The contents of a draft are read by their hash, which
  the DSQL backend cannot do for the unversioned files of the service area: there a staged edit
  cannot be read back.
\<close>

section \<open>Committing from a session\<close>

text \<open>Commits are filed under their ids, and their snapshots are stored.\<close>

definition history_ok :: "'f vcs_world \<Rightarrow> string \<Rightarrow> bool" where
  "history_ok w ws \<longleftrightarrow> (\<forall>j c. commit_at w ws j = Some c \<longrightarrow> vc_id c = j \<and> snap_at w ws (vc_snapshot c) \<noteq> None)"

lemma history_head: "history_ok w ws \<Longrightarrow> head_at w ws key = Some c \<Longrightarrow>
    map_option rf_commit (ref_at w ws key) = Some (vc_id c) \<and> (\<exists>s. snap_at w ws (vc_snapshot c) = Some s)"
  by (auto simp: history_ok_def head_at_def bind_eq_Some_conv)

lemma commit_tree_history:
  assumes ok: "vcs_ok ws w" and key: "ref_name (to_ref opt) = Inr key" and pre: "to_prefix opt = None"
    and all: "fa_list_all (ve_files env) (gw_files w) ws [] = Inr all" and raw: "ve_lineage env ws (gw_now w) = Inr raw"
    and sha: "\<And>x. ve_sha env x \<noteq> []" and hist: "history_ok w ws"
  shows "\<exists>c b w'. commit_tree env ws opt w = (Inr (c, b), w') \<and> vcs_ok ws w' \<and> gw_now w' = gw_now w \<and> gw_files w' = gw_files w \<and>
    history_ok w' ws \<and> head_at w' ws key = Some c \<and>
    vc_snapshot c = vn_id (build_snapshot env (visible_of all) [] (Some (fst (filter_lineage_to_prefix raw [])))) \<and>
    (to_parents opt = None \<longrightarrow> (\<forall>h. head_at w ws key = Some h \<and> vc_snapshot h = vc_snapshot c \<longrightarrow> c = h \<and> w' = w))"
proof -
  have p: "[] = (case to_prefix opt of Some p \<Rightarrow> p | None \<Rightarrow> [])" using pre by simp
  let ?snap = "build_snapshot env (visible_of all) [] (Some (fst (filter_lineage_to_prefix raw [])))"
  show ?thesis
  proof (cases "unchanged_head opt ?snap (head_at w ws key)")
    case True
    then obtain c where c: "head_at w ws key = Some c" "vc_snapshot c = vn_id ?snap" by (auto simp: unchanged_head_def)
    have "commit_tree env ws opt w = (Inr (c, False), w)"
      using True commit_tree_step [OF ok key p all raw refl] by (simp add: c)
    with ok hist c show ?thesis by (intro exI [of _ c] exI [of _ False] exI [of _ w]) simp
  next
    case False
    from commit_tree_creates [OF ok key p all raw sha refl False] obtain c w' where
      r: "commit_tree env ws opt w = (Inr (c, True), w')" "vc_snapshot c = vn_id ?snap" "snap_at w' ws (vn_id ?snap) = Some ?snap"
        "head_at w' ws key = Some c" "gw_files w' = gw_files w" "vcs_ok ws w'" "gw_now w' = gw_now w"
        "\<forall>j. j \<noteq> vn_id ?snap \<longrightarrow> snap_at w' ws j = snap_at w ws j"
        "\<forall>j. commit_at w' ws j = (if j = vc_id c \<and> j \<noteq> [] then Some c else commit_at w ws j)" by blast
    have kept: "snap_at w' ws j \<noteq> None" if "snap_at w ws j \<noteq> None" for j using that r(3,8) by (cases "j = vn_id ?snap") auto
    have "history_ok w' ws" unfolding history_ok_def
    proof (intro allI impI)
      fix j d assume "commit_at w' ws j = Some d"
      then have "j = vc_id c \<and> d = c \<or> commit_at w ws j = Some d" using r(9) by (auto split: if_splits)
      then show "vc_id d = j \<and> snap_at w' ws (vc_snapshot d) \<noteq> None"
        using hist kept r(2,3) unfolding history_ok_def by auto
    qed
    moreover have "to_parents opt = None \<longrightarrow> (\<forall>h. head_at w ws key = Some h \<and> vc_snapshot h = vc_snapshot c \<longrightarrow> c = h \<and> w' = w)"
      using False r(2) by (auto simp: unchanged_head_def)
    ultimately show ?thesis using r(1,2,4,5,6,7) by (intro exI [of _ c] exI [of _ True] exI [of _ w'] conjI) assumption+
  qed
qed

lemma commit_tree_total:
  assumes ok: "vcs_ok ws w" and key: "ref_name (to_ref opt) = Inr key" and pre: "to_prefix opt = None"
    and files: "\<exists>es. fa_list_all (ve_files env) (gw_files w) ws [] = Inr es" and lin: "\<exists>raw. ve_lineage env ws (gw_now w) = Inr raw"
    and sha: "\<And>x. ve_sha env x \<noteq> []"
  obtains c b w' where "commit_tree env ws opt w = (Inr (c, b), w')" "vcs_ok ws w'" "gw_now w' = gw_now w" "gw_files w' = gw_files w"
    "head_at w' ws key = Some c" "\<And>n. n \<noteq> key \<Longrightarrow> ref_at w' ws n = ref_at w ws n" "\<And>ps. to_parents opt = Some ps \<Longrightarrow> vc_parents c = ps"
    "\<And>ps. to_parents opt = Some ps \<Longrightarrow> map_option rf_commit (ref_at w' ws key) = Some (vc_id c)"
proof -
  obtain all raw where all: "fa_list_all (ve_files env) (gw_files w) ws [] = Inr all" and raw: "ve_lineage env ws (gw_now w) = Inr raw"
    using files lin by blast
  have p: "[] = (case to_prefix opt of Some p \<Rightarrow> p | None \<Rightarrow> [])" using pre by simp
  let ?snap = "build_snapshot env (visible_of all) [] (Some (fst (filter_lineage_to_prefix raw [])))"
  show thesis
  proof (cases "unchanged_head opt ?snap (head_at w ws key)")
    case True
    then obtain c where c: "head_at w ws key = Some c" "to_parents opt = None" by (auto simp: unchanged_head_def)
    have "commit_tree env ws opt w = (Inr (c, False), w)"
      using True commit_tree_step [OF ok key p all raw refl] by (simp add: c)
    then show thesis using ok c by (intro that [of c False w]) simp_all
  next
    case False
    from commit_tree_creates [OF ok key p all raw sha refl False] obtain c w' where
      r: "commit_tree env ws opt w = (Inr (c, True), w')" "vc_parents c = tree_parents (to_parents opt) (head_at w ws key)"
        "head_at w' ws key = Some c" "\<forall>n. n \<noteq> key \<longrightarrow> ref_at w' ws n = ref_at w ws n" "gw_files w' = gw_files w"
        "vcs_ok ws w'" "gw_now w' = gw_now w" "map_option rf_commit (ref_at w' ws key) = Some (vc_id c)" by blast
    then show thesis by (intro that [of c True w']) (simp_all add: tree_parents_def del: map_option_eq_Some)
  qed
qed

lemma session_ref:
  assumes "session_id_re i"
  shows "ref_name (JStr (''session/'' @ i)) = Inr (''session/'' @ i)" "''session/'' @ i \<noteq> MAIN_REF"
proof -
  have ok: "list_all (\<lambda>c. is_digit c \<or> (CHR ''a'' \<le> c \<and> c \<le> CHR ''f'') \<or> c = CHR ''-'') i" and len: "8 \<le> length i"
    using assms by (auto simp: session_id_re_def)
  have "CHR ''/'' \<notin> set i" using ok by (auto simp: list_all_iff is_digit_def)
  then have "split_on CHR ''/'' (''session/'' @ i) = [''session'', i]"
    using split_on_append [of "CHR ''/''" "''session''" i] by (simp add: split_on_free)
  moreover have "CHR ''a'' \<le> c \<and> c \<le> CHR ''f'' \<Longrightarrow> lower_char c" for c
    by (auto simp: lower_char_def less_eq_char_def)
  then have "list_all (\<lambda>d. lower_char d \<or> upper_char d \<or> is_digit d \<or> d = CHR ''_'' \<or> d = CHR ''-'') i"
    using ok unfolding list_all_iff by blast
  ultimately have "ref_re (''session/'' @ i)"
    using len by (auto simp: ref_re_def lower_char_def less_eq_char_def)
  then show "ref_name (JStr (''session/'' @ i)) = Inr (''session/'' @ i)" by (simp add: ref_name_def)
  show "''session/'' @ i \<noteq> MAIN_REF" by (simp add: MAIN_REF_def)
qed

section \<open>Closing\<close>

definition session_env :: "'f vcs_env \<Rightarrow> bool" where
  "session_env env \<longleftrightarrow> (\<forall>ws t. \<exists>raw. ve_lineage env ws t = Inr raw) \<and> (\<forall>x. ve_sha env x \<noteq> [])"

definition main_parents :: "'f chat_world \<Rightarrow> string \<Rightarrow> string list" where
  "main_parents w ws =
     (case ref_at (hw_vcs w) ws MAIN_REF of Some m \<Rightarrow> if rf_commit m \<noteq> [] then [rf_commit m] else [] | None \<Rightarrow> [])"

definition main_tree :: "sqlite_fs chat_world \<Rightarrow> string \<Rightarrow> string \<Rightarrow> fs_file option" where
  "main_tree w ws p = sq_latest (gw_files (hw_vcs w)) ws p"

lemma close_run:
  assumes env: "session_env env" "ve_files env = sqlite_api sha pick" and ok: "chat_ok ws w"
    and inv: "sq_hashed sha pick (chat_now w) (gw_files (hw_vcs w))"
    and s: "session_at w ws i = Some s" "ch_id s = i" "session_id_re i" "ch_status s = SessionOpen"
    and draft: "draft_ok env (gw_files (hw_vcs w)) ws s"
  obtains s' c w' where "close_session env ws i user True message w = (Inr (s', Some c), w')"
    "ch_status s' = SessionMerged" "ch_merge s' = Some (vc_id c)" "session_at w' ws i = Some s'"
    "head_at (hw_vcs w') ws MAIN_REF = Some c"
    "\<forall>(p, st) \<in> set (ch_overlay s). map_option fe_hash (main_tree w' ws p) = st"
    "\<And>ws' p. \<not> (ws' = ws \<and> p \<in> fst ` set (ch_overlay s)) \<Longrightarrow> main_tree w' ws' p = main_tree w ws' p"
    "ch_overlay s \<noteq> [] \<Longrightarrow> \<exists>l. map_option rf_commit (ref_at (hw_vcs w') ws (''session/'' @ i)) = Some l \<and> vc_parents c = main_parents w ws @ [l]"
proof -
  note vok = chat_ok_vcs [OF ok]
  have d: "distinct (map fst (ch_overlay s))" "\<forall>x \<in> set (ch_overlay s). staged_ok env (gw_files (hw_vcs w)) ws i x"
    using draft s(2) by (simp_all add: draft_ok_def wf_map_def)
  from sqd.overlay_applied [OF inv env(2) d] obtain f where
    f: "apply_overlay env (chat_now w) ws i (ch_overlay s) (gw_files (hw_vcs w)) = (Inr (), f)" "sq_hashed sha pick (chat_now w) f"
      "\<forall>(p, st) \<in> set (ch_overlay s). map_option fe_hash (sq_latest f ws p) = st"
      "\<And>ws' p. \<not> (ws' = ws \<and> p \<in> fst ` set (ch_overlay s)) \<Longrightarrow> sq_latest f ws' p = sq_latest (gw_files (hw_vcs w)) ws' p" by blast
  let ?v = "(hw_vcs w)\<lparr>gw_files := f\<rparr>"
  have v: "vcs_ok ws ?v" using vok by (simp add: vcs_ok_def)
  have ref: "ref_at ?v = ref_at (hw_vcs w)" by (simp add: ref_at_def fun_eq_iff)
  have lists: "\<exists>es. fa_list_all (ve_files env) g ws [] = Inr es" for g by (simp add: env(2) sq_list_total)
  have lin: "\<exists>raw. ve_lineage env ws t = Inr raw" and sha: "ve_sha env x \<noteq> []" for t x using env(1) by (auto simp: session_env_def)
  have line: "\<exists>ps v'. session_line env ws s user (w\<lparr>hw_vcs := ?v\<rparr>) = (Inr ps, w\<lparr>hw_vcs := v'\<rparr>) \<and> vcs_ok ws v' \<and>
      gw_now v' = gw_now ?v \<and> gw_files v' = f \<and>
      (ch_overlay s \<noteq> [] \<longrightarrow> (\<exists>l. map_option rf_commit (ref_at v' ws (''session/'' @ i)) = Some l \<and> ps = Some (main_parents w ws @ [l])))"
  proof (cases "ch_overlay s = []")
    case True
    then show ?thesis using v by (intro exI [of _ None] exI [of _ ?v]) (simp add: session_line_def bindM_run on_vcs_run vcs_reads)
  next
    case False
    let ?opt = "\<lparr>to_message = ''Session: '' @ ch_title s, to_author = user, to_session = Some i,
            to_prefix = None, to_ref = JStr (''session/'' @ i), to_parents = Some [ch_base s]\<rparr>"
    obtain c b v' where c: "commit_tree env ws ?opt ?v = (Inr (c, b), v')" "vcs_ok ws v'" "gw_now v' = gw_now ?v" "gw_files v' = gw_files ?v"
      "map_option rf_commit (ref_at v' ws (''session/'' @ i)) = Some (vc_id c)"
      by (rule commit_tree_total [OF v, of ?opt "''session/'' @ i" env]) (use session_ref [OF s(3)] lists lin sha in auto)
    have "session_line env ws s user (w\<lparr>hw_vcs := ?v\<rparr>) = (Inr (Some (main_parents w ws @ [vc_id c])), w\<lparr>hw_vcs := v'\<rparr>)"
      using False c(1) s(2) by (simp add: session_line_def bindM_run on_vcs_run vcs_reads [OF v] ref main_parents_def split: option.split)
    with c show ?thesis by (intro exI) auto
  qed
  then obtain ps v1 where v1: "session_line env ws s user (w\<lparr>hw_vcs := ?v\<rparr>) = (Inr ps, w\<lparr>hw_vcs := v1\<rparr>)" "vcs_ok ws v1"
    "gw_now v1 = gw_now ?v" "gw_files v1 = f"
    "ch_overlay s \<noteq> [] \<Longrightarrow> \<exists>l. map_option rf_commit (ref_at v1 ws (''session/'' @ i)) = Some l \<and> ps = Some (main_parents w ws @ [l])"
    by blast
  let ?opt = "\<lparr>to_message = trimmed_or message (''Merge session: '' @ ch_title s), to_author = user,
            to_session = Some i, to_prefix = None, to_ref = JUndefined, to_parents = ps\<rparr>"
  obtain c b v2 where c: "commit_tree env ws ?opt v1 = (Inr (c, b), v2)" "vcs_ok ws v2" "gw_now v2 = gw_now v1" "gw_files v2 = gw_files v1"
      "head_at v2 ws MAIN_REF = Some c" "\<And>n. n \<noteq> MAIN_REF \<Longrightarrow> ref_at v2 ws n = ref_at v1 ws n" "\<And>qs. ps = Some qs \<Longrightarrow> vc_parents c = qs"
    by (rule commit_tree_total [OF v1(2), of ?opt MAIN_REF env]) (use lists lin sha in \<open>auto simp: ref_name_def\<close>)
  let ?w = "w\<lparr>hw_vcs := v2\<rparr>" and ?s = "s\<lparr>ch_status := SessionMerged, ch_merge := Some (vc_id c)\<rparr>"
  obtain w' where w': "save_touched ws ?s ?w = (Inr (touched ?w ?s), w')" "hw_vcs w' = v2"
    "\<And>j. session_at w' ws j = (if j = ch_id ?s then Some (touched ?w ?s) else session_at ?w ws j)"
    by (rule save_touched_run [OF chat_ok_vcs_update [OF ok c(2)], of ?s]) auto
  show thesis
  proof (rule that)
    show "close_session env ws i user True message w = (Inr (touched ?w ?s, Some c), w')"
      using s f(1) v1(1) c(1) w'(1)
      by (simp add: close_session_def bindM_run thenM_run require_session_run [OF ok] on_files_run on_vcs_run)
    show "\<forall>(p, st) \<in> set (ch_overlay s). map_option fe_hash (main_tree w' ws p) = st"
      using f(3) w'(2) c(4) v1(4) by (simp add: main_tree_def)
    show "\<not> (ws' = ws \<and> p \<in> fst ` set (ch_overlay s)) \<Longrightarrow> main_tree w' ws' p = main_tree w ws' p" for ws' p
      using f(4) w'(2) c(4) v1(4) by (simp add: main_tree_def)
    show "\<exists>l. map_option rf_commit (ref_at (hw_vcs w') ws (''session/'' @ i)) = Some l \<and> vc_parents c = main_parents w ws @ [l]" if "ch_overlay s \<noteq> []"
      using v1(5) [OF that] c(6) [OF session_ref(2) [OF s(3)]] c(7) w'(2) by auto
  qed (use w' c(5) s(2) in simp_all)
qed

text \<open>
  C23: on the SQLite backend, closing an open session with \<^verbatim>\<open>stage\<close> brings every path of its draft to the
  staged content (or removes it), leaves every other path of every workspace as it was, marks the
  session merged at the new head of the main line, and, when the draft is not empty, records a
  merge whose last parent is the head of the session's own line. (On DSQL staged contents are lost,
  \<^verbatim>\<open>staged_write_lost_dsql\<close>.)
\<close>

theorem close_applies_draft:
  assumes "session_env env" and "ve_files env = sqlite_api sha pick" and "chat_ok ws w"
    and "sq_hashed sha pick (chat_now w) (gw_files (hw_vcs w))"
    and "session_at w ws i = Some s" and "ch_id s = i" and "session_id_re i" and "ch_status s = SessionOpen"
    and "draft_ok env (gw_files (hw_vcs w)) ws s"
  shows "\<exists>s' c w'. close_session env ws i user True message w = (Inr (s', Some c), w') \<and>
    ch_status s' = SessionMerged \<and> ch_merge s' = Some (vc_id c) \<and> session_at w' ws i = Some s' \<and>
    head_at (hw_vcs w') ws MAIN_REF = Some c \<and>
    (\<forall>(p, st) \<in> set (ch_overlay s). map_option fe_hash (main_tree w' ws p) = st) \<and>
    (\<forall>ws' p. \<not> (ws' = ws \<and> p \<in> fst ` set (ch_overlay s)) \<longrightarrow> main_tree w' ws' p = main_tree w ws' p) \<and>
    (ch_overlay s \<noteq> [] \<longrightarrow> (\<exists>l. map_option rf_commit (ref_at (hw_vcs w') ws (''session/'' @ i)) = Some l \<and>
       vc_parents c = main_parents w ws @ [l]))"
  by (rule close_run [OF assms, of user message]) blast

section \<open>Resolving a merge\<close>

lemma sync_run:
  assumes env: "session_env env" and ok: "chat_ok ws w" and hist: "history_ok (hw_vcs w) ws"
    and s: "session_at w ws i = Some s" "ch_id s = i" "ch_status s = SessionOpen" and base: "base_at w ws (ch_base s) = Some old"
    and all: "fa_list_all (ve_files env) (gw_files (hw_vcs w)) ws [] = Inr all" and raw: "ve_lineage env ws (chat_now w) = Inr raw"
  obtains h :: vcs_commit and new :: vcs_snapshot and s' :: chat_session and w' where "sync_session env ws i user w =
      (Inr (s', if vc_id h = ch_base s then [] else sync_conflicts old new (ch_overlay s)), w')"
    "vc_snapshot h = vn_id (build_snapshot env (visible_of all) [] (Some (fst (filter_lineage_to_prefix raw []))))"
    "snap_at (hw_vcs w') ws (vc_snapshot h) = Some new" "main_parents w' ws = [vc_id h]"
    "\<forall>k. head_at (hw_vcs w) ws MAIN_REF = Some k \<and> vc_snapshot k = vc_snapshot h \<longrightarrow> h = k \<and> hw_vcs w' = hw_vcs w"
    "head_at (hw_vcs w') ws MAIN_REF = Some h" "chat_ok ws w'" "session_at w' ws i = Some s'" "ch_id s' = i" "ch_status s' = SessionOpen" "ch_overlay s' = ch_overlay s"
    "gw_files (hw_vcs w') = gw_files (hw_vcs w)" "chat_now w' = chat_now w" "history_ok (hw_vcs w') ws"
proof -
  let ?opt = "\<lparr>to_message = ''Auto snapshot'', to_author = user, to_session = None, to_prefix = None,
       to_ref = JUndefined, to_parents = None\<rparr>"
  have sha: "ve_sha env x \<noteq> []" for x using env by (simp add: session_env_def)
  have opt: "ref_name (to_ref ?opt) = Inr MAIN_REF" "to_prefix ?opt = None" "to_parents ?opt = None" by (simp_all add: ref_name_def)
  from commit_tree_history [OF chat_ok_vcs [OF ok] opt(1,2) all raw [unfolded chat_now_def] sha hist] obtain h b v where
    v: "commit_tree env ws ?opt (hw_vcs w) = (Inr (h, b), v)" "vcs_ok ws v" "gw_now v = gw_now (hw_vcs w)" "gw_files v = gw_files (hw_vcs w)"
      "history_ok v ws" "head_at v ws MAIN_REF = Some h"
      "vc_snapshot h = vn_id (build_snapshot env (visible_of all) [] (Some (fst (filter_lineage_to_prefix raw []))))"
      "\<forall>k. head_at (hw_vcs w) ws MAIN_REF = Some k \<and> vc_snapshot k = vc_snapshot h \<longrightarrow> h = k \<and> v = hw_vcs w" using opt(3) by blast
  from history_head [OF v(5,6)] obtain new where new: "snap_at v ws (vc_snapshot h) = Some new"
    and ref: "map_option rf_commit (ref_at v ws MAIN_REF) = Some (vc_id h)" by blast
  have "vc_id h \<noteq> []" using v(5,6) by (auto simp: head_at_def bind_eq_Some_conv commit_at_def history_ok_def split: if_splits)
  then have parents: "main_parents (w'\<lparr>hw_vcs := v\<rparr>) ws = [vc_id h]" for w' using ref by (auto simp: main_parents_def)
  let ?w = "w\<lparr>hw_vcs := v\<rparr>"
  have wok: "chat_ok ws ?w" by (rule chat_ok_vcs_update [OF ok v(2)])
  note runs = sync_session_def bindM_run require_session_run [OF ok] base_snapshot_run [OF ok] auto_snapshot_def on_vcs_run base s(1,3) v(1)
  show thesis
  proof (cases "vc_id h = ch_base s")
    case True
    then have "sync_session env ws i user w = (Inr (s, []), ?w)" by (simp add: runs)
    with True show thesis using v new parents wok s by (intro that [of s h new ?w]) (auto simp: chat_now_def)
  next
    case False
    let ?s = "s\<lparr>ch_base := vc_id h\<rparr>"
    obtain w' where w': "save_touched ws ?s ?w = (Inr (touched ?w ?s), w')" "chat_ok ws w'" "hw_vcs w' = hw_vcs ?w"
      "\<And>j. session_at w' ws j = (if j = ch_id ?s then Some (touched ?w ?s) else session_at ?w ws j)"
      by (rule save_touched_run [OF wok, of ?s]) auto
    have "sync_session env ws i user w = (Inr (touched ?w ?s, sync_conflicts old new (ch_overlay s)), w')"
      using False w'(1) by (simp add: runs read_snapshot_at [OF v(2)] new)
    moreover have "main_parents w' ws = [vc_id h]" using parents [of w'] w'(3) by (simp add: main_parents_def)
    ultimately show thesis using False v new w' s by (intro that [of "touched ?w ?s" h new w']) (auto simp: chat_now_def)
  qed
qed

text \<open>Dropping listed paths of the draft.\<close>

lemma drop_changes_exact:
  assumes "distinct ps" and "\<forall>p \<in> set ps. normalize_fs_path p = Some p \<and> mget ov p \<noteq> None"
  shows "drop_changes ps ov = (ps, filter (\<lambda>x. fst x \<notin> set ps) ov)"
  using assms
proof (induction ps arbitrary: ov)
  case (Cons p ps)
  have "\<forall>q \<in> set ps. normalize_fs_path q = Some q \<and> mget (mdel p ov) q \<noteq> None"
    using Cons.prems by auto
  with Cons.IH [of "mdel p ov"] Cons.prems have "drop_changes ps (mdel p ov) = (ps, filter (\<lambda>x. fst x \<notin> set ps) (mdel p ov))" by simp
  moreover have "filter (\<lambda>x. fst x \<notin> set ps) (mdel p ov) = filter (\<lambda>x. fst x \<notin> set (p # ps)) ov"
    by (induction ov) auto
  moreover have "normalize_fs_path p = Some p" "mget ov p \<noteq> None" using Cons.prems(2) by simp_all
  ultimately show ?case by (simp only: drop_changes.simps option.case if_True prod.case simp_thms not_False_eq_True) 
qed simp

lemma discard_run:
  assumes ok: "chat_ok ws w" and s: "session_at w ws i = Some s" "ch_id s = i" "ch_status s = SessionOpen"
    and ps: "distinct ps" "ps \<noteq> []" "\<forall>p \<in> set ps. normalize_fs_path p = Some p \<and> mget (ch_overlay s) p \<noteq> None"
  obtains s' w' where "discard_changes ws i ps w = (Inr (sort ps), w')" "chat_ok ws w'" "hw_vcs w' = hw_vcs w"
    "session_at w' ws i = Some s'" "ch_id s' = i" "ch_status s' = SessionOpen" "ch_overlay s' = filter (\<lambda>x. fst x \<notin> set ps) (ch_overlay s)"
proof -
  let ?s = "s\<lparr>ch_overlay := filter (\<lambda>x. fst x \<notin> set ps) (ch_overlay s)\<rparr>"
  obtain w' where w': "save_touched ws ?s w = (Inr (touched w ?s), w')" "chat_ok ws w'" "hw_vcs w' = hw_vcs w"
    "\<And>j. session_at w' ws j = (if j = ch_id ?s then Some (touched w ?s) else session_at w ws j)"
    by (rule save_touched_run [OF ok, of ?s]) auto
  have "discard_changes ws i ps w = (Inr (sort ps), w')"
    using w'(1) s(1,3) ps(2) by (simp add: discard_changes_def bindM_run thenM_run require_session_run [OF ok] drop_changes_exact [OF ps(1,3)])
  then show thesis using w' s by (intro that [of w' "touched w ?s"]) simp_all
qed

text \<open>The staged paths that the main line has changed since the base, and differently.\<close>

definition contested :: "vcs_snapshot \<Rightarrow> vcs_snapshot \<Rightarrow> chat_session \<Rightarrow> string set" where
  "contested old new s = {p. \<exists>st. (p, st) \<in> set (ch_overlay s) \<and> tree_of (Some old) p \<noteq> tree_of (Some new) p \<and>
     (st = None \<or> st \<noteq> tree_of (Some new) p)}"

lemma conflict_paths:
  "map sx_path (sync_conflicts old new ov) =
    map fst (filter (conflict_of (tree_of (Some old)) (tree_of (Some new))) ov)"
  "set (map sx_path (sync_conflicts old new (ch_overlay s))) = contested old new s"
proof -
  show m: "map sx_path (sync_conflicts old new ov) =
      map fst (filter (conflict_of (tree_of (Some old)) (tree_of (Some new))) ov)" for ov
    by (simp add: sync_conflicts_def tree_of_def comp_def case_prod_beta Let_def)
  show "set (map sx_path (sync_conflicts old new (ch_overlay s))) = contested old new s"
    unfolding m by (force simp: contested_def conflict_of_def)
qed

lemma draft_ok_filter: "draft_ok env f ws s \<Longrightarrow> ch_id s' = ch_id s \<Longrightarrow> ch_overlay s' = filter P (ch_overlay s) \<Longrightarrow> draft_ok env f ws s'"
  by (simp add: draft_ok_def wf_map_def distinct_map_filter)

text \<open>
  resolving a merge first snapshots the workspace as the head of the main line; the resolved
  paths are exactly the staged ones whose recorded content differs between the old base and that
  head, unless the draft and the head agree on a content. With \<^verbatim>\<open>keep-workspace\<close> the resolved paths
  stay as the workspace has them; all other staged paths (with \<^verbatim>\<open>keep-draft\<close>, every one) get the
  draft's version, nothing else changes, and the merge's first parent is that head. A head that already has the workspace's snapshot is kept.
\<close>

theorem merge_resolution_exact:
  assumes env: "session_env env" "ve_files env = sqlite_api sha pick" and ok: "chat_ok ws w" and hist: "history_ok (hw_vcs w) ws"
    and inv: "sq_hashed sha pick (chat_now w) (gw_files (hw_vcs w))"
    and s: "session_at w ws i = Some s" "ch_id s = i" "session_id_re i" "ch_status s = SessionOpen"
    and draft: "draft_ok env (gw_files (hw_vcs w)) ws s" and base: "base_at w ws (ch_base s) = Some old"
    and all: "fa_list_all (ve_files env) (gw_files (hw_vcs w)) ws [] = Inr all" and raw: "ve_lineage env ws (chat_now w) = Inr raw"
  shows "\<exists>h new s1 cs w1 s' c resolved w'.
    sync_session env ws i user w = (Inr (s1, cs), w1) \<and> head_at (hw_vcs w1) ws MAIN_REF = Some h \<and>
    vc_snapshot h = vn_id (build_snapshot env (visible_of all) [] (Some (fst (filter_lineage_to_prefix raw [])))) \<and>
    (\<forall>k. head_at (hw_vcs w) ws MAIN_REF = Some k \<and> vc_snapshot k = vc_snapshot h \<longrightarrow> h = k \<and> hw_vcs w1 = hw_vcs w) \<and>
    snap_at (hw_vcs w1) ws (vc_snapshot h) = Some new \<and>
    resolve_session_merge env ws i user strategy True message w = (Inr (s', Some c, resolved), w') \<and>
    set resolved = (if vc_id h = ch_base s then {} else contested old new s) \<and>
    ch_status s' = SessionMerged \<and> head_at (hw_vcs w') ws MAIN_REF = Some c \<and>
    (\<forall>(p, st) \<in> set (ch_overlay s).
       if strategy = KeepWorkspace \<and> p \<in> set resolved then main_tree w' ws p = main_tree w ws p
       else map_option fe_hash (main_tree w' ws p) = st) \<and>
    (\<forall>ws' p. \<not> (ws' = ws \<and> p \<in> fst ` set (ch_overlay s)) \<longrightarrow> main_tree w' ws' p = main_tree w ws' p) \<and>
    ((\<exists>x \<in> set (ch_overlay s). \<not> (strategy = KeepWorkspace \<and> fst x \<in> set resolved)) \<longrightarrow> (\<exists>l. vc_parents c = [vc_id h, l]))"
proof -
  obtain h new s1 w1 where sync: "sync_session env ws i user w =
      (Inr (s1, if vc_id h = ch_base s then [] else sync_conflicts old new (ch_overlay s)), w1)"
    and h: "vc_snapshot h = vn_id (build_snapshot env (visible_of all) [] (Some (fst (filter_lineage_to_prefix raw []))))"
    "snap_at (hw_vcs w1) ws (vc_snapshot h) = Some new" "main_parents w1 ws = [vc_id h]"
    "\<forall>k. head_at (hw_vcs w) ws MAIN_REF = Some k \<and> vc_snapshot k = vc_snapshot h \<longrightarrow> h = k \<and> hw_vcs w1 = hw_vcs w" "head_at (hw_vcs w1) ws MAIN_REF = Some h"
    and w1: "chat_ok ws w1" "session_at w1 ws i = Some s1" "ch_id s1 = i" "ch_status s1 = SessionOpen" "ch_overlay s1 = ch_overlay s"
    "gw_files (hw_vcs w1) = gw_files (hw_vcs w)" "chat_now w1 = chat_now w" "history_ok (hw_vcs w1) ws"
    by (rule sync_run [OF env(1) ok hist s(1,2,4) base all raw, of user])
  let ?cs = "if vc_id h = ch_base s then [] else sync_conflicts old new (ch_overlay s)"
  let ?R = "sort (map sx_path ?cs)" and ?P = "\<lambda>x. \<not> (strategy = KeepWorkspace \<and> fst x \<in> set (sort (map sx_path ?cs)))"
  have R: "set ?R = (if vc_id h = ch_base s then {} else contested old new s)" using conflict_paths(2) by simp
  have wf: "wf_map (ch_overlay s)" and st: "\<forall>x \<in> set (ch_overlay s). normalize_fs_path (fst x) = Some (fst x)"
    using draft by (auto simp: draft_ok_def staged_ok_def)
  have dist: "distinct ?R" using wf by (simp add: conflict_paths(1) wf_map_def distinct_map_filter)
  have norm: "\<forall>p \<in> set ?R. normalize_fs_path p = Some p \<and> mget (ch_overlay s1) p \<noteq> None"
    unfolding R w1(5) using st by (auto simp: contested_def map_of_eq_None_iff rev_image_eqI)
  obtain s2 w2 where drop: "(if strategy = KeepWorkspace \<and> ?R \<noteq> [] then bindM (discard_changes ws i ?R) (\<lambda>_. ret ()) else ret ()) w1 = (Inr (), w2)"
    and w2: "chat_ok ws w2" "hw_vcs w2 = hw_vcs w1" "session_at w2 ws i = Some s2" "ch_id s2 = i" "ch_status s2 = SessionOpen"
      "ch_overlay s2 = filter ?P (ch_overlay s)"
  proof (cases "strategy = KeepWorkspace \<and> ?R \<noteq> []")
    case True
    obtain s2 w2 where r: "discard_changes ws i ?R w1 = (Inr (sort ?R), w2)" "chat_ok ws w2" "hw_vcs w2 = hw_vcs w1"
      "session_at w2 ws i = Some s2" "ch_id s2 = i" "ch_status s2 = SessionOpen" "ch_overlay s2 = filter (\<lambda>x. fst x \<notin> set ?R) (ch_overlay s1)"
      by (rule discard_run [OF w1(1,2,3,4) dist _ norm]) (use True in auto)
    show thesis by (rule that [OF _ r(2-6)]) (use True r(1,7) w1(5) in \<open>simp_all add: bindM_run\<close>)
  next
    case False
    then have "?P x" for x by (metis empty_iff list.set(1))
    then have "filter ?P (ch_overlay s) = ch_overlay s" by (intro filter_True) blast
    with False show thesis using w1 by (intro that [of w1 s1]) (simp_all only: if_False ret_run)
  qed
  have same: "gw_files (hw_vcs w2) = gw_files (hw_vcs w)" "chat_now w2 = chat_now w"
    using w1(6,7) w2(2) by (simp_all add: chat_now_def)
  have draft2: "draft_ok env (gw_files (hw_vcs w2)) ws s2" unfolding same using draft_ok_filter [OF draft _ w2(6)] w2(4) s(2) by simp
  have inv2: "sq_hashed sha pick (chat_now w2) (gw_files (hw_vcs w2))" unfolding same by (rule inv)
  let ?m = "Some (trimmed_or message (''Merge: '' @ ch_title s2 @ '' ('' @ (if strategy = KeepDraft then ''kept the draft's versions''
                 else ''kept the workspace versions'') @ '')''))"
  obtain s' c w' where close: "close_session env ws i user True ?m w2 = (Inr (s', Some c), w')"
    "ch_status s' = SessionMerged" "head_at (hw_vcs w') ws MAIN_REF = Some c"
    "\<forall>(p, st) \<in> set (ch_overlay s2). map_option fe_hash (main_tree w' ws p) = st"
    "\<And>ws' p. \<not> (ws' = ws \<and> p \<in> fst ` set (ch_overlay s2)) \<Longrightarrow> main_tree w' ws' p = main_tree w2 ws' p"
    "ch_overlay s2 \<noteq> [] \<Longrightarrow> \<exists>l. vc_parents c = main_parents w2 ws @ [l]"
    by (rule close_run [OF env w2(1) inv2 w2(3,4) s(3) w2(5) draft2, of user ?m]) blast
  have tree: "main_tree w2 = main_tree w" using same by (simp add: main_tree_def fun_eq_iff)
  have run: "resolve_session_merge env ws i user strategy True message w = (Inr (s', Some c, ?R), w')"
    unfolding resolve_session_merge_def Let_def bindM_run [of "sync_session env ws i user"] sync
    by (simp only: prod.case sum.case thenM_run drop bindM_run require_session_run [OF w2(1)] w2(3) close(1) option.case
        not_True_eq_False if_False ret_run)
  show ?thesis
  proof (intro exI conjI)
    show "\<forall>k. head_at (hw_vcs w) ws MAIN_REF = Some k \<and> vc_snapshot k = vc_snapshot h \<longrightarrow> h = k \<and> hw_vcs w1 = hw_vcs w" by (rule h(4))
    show "\<forall>(p, st) \<in> set (ch_overlay s).
       if strategy = KeepWorkspace \<and> p \<in> set ?R then main_tree w' ws p = main_tree w ws p
       else map_option fe_hash (main_tree w' ws p) = st"
    proof (rule ballI, rule case_prodI2)
      fix x p st assume x: "x \<in> set (ch_overlay s)" "x = (p, st)"
      show "if strategy = KeepWorkspace \<and> p \<in> set ?R then main_tree w' ws p = main_tree w ws p
         else map_option fe_hash (main_tree w' ws p) = st"
      proof (cases "strategy = KeepWorkspace \<and> p \<in> set ?R")
        case True
        then have "\<not> (ws = ws \<and> p \<in> fst ` set (ch_overlay s2))" unfolding w2(6) by auto
        from close(5) [OF this] True show ?thesis unfolding tree by metis
      next
        case False
        then have "(p, st) \<in> set (ch_overlay s2)" using x unfolding w2(6) by simp
        with close(4) have "map_option fe_hash (main_tree w' ws p) = st" by fastforce
        with False show ?thesis by metis
      qed
    qed
    show "\<forall>ws' p. \<not> (ws' = ws \<and> p \<in> fst ` set (ch_overlay s)) \<longrightarrow> main_tree w' ws' p = main_tree w ws' p"
    proof (intro allI impI)
      fix ws' p assume out: "\<not> (ws' = ws \<and> p \<in> fst ` set (ch_overlay s))"
      have "set (ch_overlay s2) \<subseteq> set (ch_overlay s)" unfolding w2(6) by (rule filter_is_subset)
      with out have "\<not> (ws' = ws \<and> p \<in> fst ` set (ch_overlay s2))" by blast
      from close(5) [OF this] show "main_tree w' ws' p = main_tree w ws' p" unfolding tree .
    qed
    show "(\<exists>x \<in> set (ch_overlay s). \<not> (strategy = KeepWorkspace \<and> fst x \<in> set ?R)) \<longrightarrow> (\<exists>l. vc_parents c = [vc_id h, l])"
    proof
      assume "\<exists>x \<in> set (ch_overlay s). \<not> (strategy = KeepWorkspace \<and> fst x \<in> set ?R)"
      then have "ch_overlay s2 \<noteq> []" unfolding w2(6) filter_empty_conv by blast
      from close(6) [OF this] h(3) show "\<exists>l. vc_parents c = [vc_id h, l]" by (simp add: main_parents_def w2(2))
    qed
  qed (rule sync h run R close)+
qed

section \<open>Staged edits\<close>

lemma session_write_run:
  assumes ok: "chat_ok ws w"
  obtains w' where "session_write env ws s p content mime w =
      (Inr ((entry_of (new_file (ve_sha env) (chat_now w) (shadow_path (ch_id s) p) content (case mime of Some m \<Rightarrow> m | None \<Rightarrow> ''text/plain'')))\<lparr>fe_path := p\<rparr>,
         touched w (s\<lparr>ch_overlay := mset_at p (Some (ve_sha env content)) (ch_overlay s)\<rparr>)), w')"
    "chat_ok ws w'" "hw_vcs w' = (hw_vcs w)\<lparr>gw_files := fa_write (ve_files env) (chat_now w) ws (shadow_path (ch_id s) p) content
       (case mime of Some m \<Rightarrow> m | None \<Rightarrow> ''text/plain'') (gw_files (hw_vcs w))\<rparr>"
    "session_at w' ws (ch_id s) = Some (touched w (s\<lparr>ch_overlay := mset_at p (Some (ve_sha env content)) (ch_overlay s)\<rparr>))"
proof -
  let ?f = "fa_write (ve_files env) (chat_now w) ws (shadow_path (ch_id s) p) content (case mime of Some m \<Rightarrow> m | None \<Rightarrow> ''text/plain'') (gw_files (hw_vcs w))"
  let ?w = "w\<lparr>hw_vcs := (hw_vcs w)\<lparr>gw_files := ?f\<rparr>\<rparr>" and ?s = "s\<lparr>ch_overlay := mset_at p (Some (ve_sha env content)) (ch_overlay s)\<rparr>"
  have wok: "chat_ok ws ?w" using chat_ok_vcs [OF ok] by (intro chat_ok_vcs_update [OF ok]) (simp add: vcs_ok_def)
  obtain w' where w': "save_touched ws ?s ?w = (Inr (touched ?w ?s), w')" "chat_ok ws w'" "hw_vcs w' = hw_vcs ?w"
    "\<And>j. session_at w' ws j = (if j = ch_id ?s then Some (touched ?w ?s) else session_at ?w ws j)"
    by (rule save_touched_run [OF wok, of ?s]) auto
  have t: "touched ?w ?s = touched w ?s" by (simp add: touched_def chat_now_def)
  have hash: "fe_hash (new_file (ve_sha env) (chat_now w) q content m) = ve_sha env content" for q m by (simp add: new_file_def)
  have run: "write_file env ws (shadow_path (ch_id s) p) content (case mime of Some m \<Rightarrow> m | None \<Rightarrow> ''text/plain'') w =
      (Inr (new_file (ve_sha env) (chat_now w) (shadow_path (ch_id s) p) content (case mime of Some m \<Rightarrow> m | None \<Rightarrow> ''text/plain'')), ?w)"
    by (simp add: write_file_def on_files_run)
  show thesis
    by (rule that [of w']) (use w' in \<open>simp_all add: session_write_def bindM_run run hash t\<close>)
qed

lemma session_read_run:
  assumes ok: "chat_ok ws w"
  shows "session_read env ws s path w =
    (case mget (ch_overlay s) path of
       Some None \<Rightarrow> Inr None
     | Some (Some h) \<Rightarrow> map_sum id (map_option (\<lambda>f. f\<lparr>fe_path := path\<rparr>)) (fa_read (ve_files env) (gw_files (hw_vcs w)) ws (shadow_path (ch_id s) path) (Some h))
     | None \<Rightarrow> (case base_at w ws (ch_base s) of
         None \<Rightarrow> Inl (ServiceError (''Base snapshot missing for session '' @ ch_id s) 500)
       | Some snap \<Rightarrow> (case find (\<lambda>e. sn_path e = path) (vn_entries snap) of
           None \<Rightarrow> Inr None
         | Some e \<Rightarrow> fa_read (ve_files env) (gw_files (hw_vcs w)) ws path (Some (sn_hash e)))), w)"
  by (simp add: session_read_def bindM_run read_file_def base_snapshot_run [OF ok] split: option.split sum.split)

lemma sq_read_written: "h = sha c \<Longrightarrow> h \<noteq> [] \<Longrightarrow>
    fa_read (sqlite_api sha pick) (fa_write (sqlite_api sha pick) now ws p c m s) ws p (Some h) = Inr (Some (new_file sha now p c m))"
proof -
  assume h: "h = sha c" "h \<noteq> []"
  let ?vs = "filter (\<lambda>g. fe_hash g \<noteq> sha c \<and> write_versioned None p) (sq_versions s ws p)"
  have "filter (\<lambda>f. fe_hash f = h) (sq_versions (snd (sq_write sha now ws p c m None s)) ws p) = [new_file sha now p c m]"
    using h by (simp add: sq_write_versions new_file_def filter_empty_conv)
  with h show ?thesis by (simp add: sqlite_api_def sq_read_def)
qed

text \<open>
  C24: on the SQLite backend, a staged write stores the content where the session reads it back, keeps
  the draft readable, and changes no path of the main tree of any workspace and no other path of
  the session's view. (On DSQL it is not read back, \<^verbatim>\<open>staged_write_lost_dsql\<close>.)
\<close>

theorem staged_write_isolated:
  assumes api: "ve_files env = sqlite_api (ve_sha env) pick" and sha: "\<And>x. ve_sha env x \<noteq> []" and ok: "chat_ok ws w"
    and inv: "sq_hashed (ve_sha env) pick (chat_now w) (gw_files (hw_vcs w))"
    and draft: "draft_ok env (gw_files (hw_vcs w)) ws s" and p: "normalize_fs_path p = Some p" "\<not> is_service_path p"
  shows "\<exists>e s' w'. session_write env ws s p content mime w = (Inr (e, s'), w') \<and> fe_path e = p \<and> fe_hash e = ve_sha env content \<and>
    session_at w' ws (ch_id s) = Some s' \<and> draft_ok env (gw_files (hw_vcs w')) ws s' \<and>
    (\<exists>g. session_read env ws s' p w' = (Inr (Some g), w') \<and> ff_content g = content \<and> fe_path g = p) \<and>
    (\<forall>q. q \<noteq> p \<and> \<not> is_service_path q \<longrightarrow> fst (session_read env ws s' q w') = fst (session_read env ws s q w)) \<and>
    (\<forall>ws' q. \<not> is_service_path q \<longrightarrow> main_tree w' ws' q = main_tree w ws' q)"
proof -
  let ?m = "case mime of Some m \<Rightarrow> m | None \<Rightarrow> ''text/plain''" and ?f = "gw_files (hw_vcs w)" and ?sp = "shadow_path (ch_id s) p"
  let ?s = "touched w (s\<lparr>ch_overlay := mset_at p (Some (ve_sha env content)) (ch_overlay s)\<rparr>)"
  let ?f' = "fa_write (ve_files env) (chat_now w) ws ?sp content ?m ?f"
  obtain w' where w': "session_write env ws s p content mime w = (Inr ((entry_of (new_file (ve_sha env) (chat_now w) ?sp content ?m))\<lparr>fe_path := p\<rparr>, ?s), w')"
    "chat_ok ws w'" "hw_vcs w' = (hw_vcs w)\<lparr>gw_files := ?f'\<rparr>" "session_at w' ws (ch_id s) = Some ?s"
    by (rule session_write_run [OF ok])
  have f': "gw_files (hw_vcs w') = ?f'" by (simp add: w'(3))
  have base: "base_at w' ws c = base_at w ws c" for c by (simp add: base_at_def w'(3) commit_at_def snap_at_def)
  have ne: "\<not> is_service_path q \<Longrightarrow> q \<noteq> ?sp" for q using shadow_is_service by metis
  have other: "fa_read (ve_files env) ?f' ws q h = fa_read (ve_files env) ?f ws q h" if "q \<noteq> ?sp" for q h
    unfolding api by (rule sqv.write_other [OF inv that])
  have new: "fa_read (ve_files env) ?f' ws ?sp (Some (ve_sha env content)) = Inr (Some (new_file (ve_sha env) (chat_now w) ?sp content ?m))"
    unfolding api by (rule sq_read_written) (simp_all add: sha)
  have read: "session_read env ws ?s p w' = (Inr (Some ((new_file (ve_sha env) (chat_now w) ?sp content ?m)\<lparr>fe_path := p\<rparr>)), w')"
    using new by (simp add: session_read_run [OF w'(2)] f')
  have "draft_ok env ?f' ws ?s" unfolding draft_ok_def
  proof (intro conjI ballI)
    show "wf_map (ch_overlay ?s)" using draft by (simp add: draft_ok_def)
    fix x assume x: "x \<in> set (ch_overlay ?s)"
    show "staged_ok env ?f' ws (ch_id ?s) x"
    proof (cases "fst x = p")
      case True
      then have "mget (ch_overlay ?s) p = Some (snd x)" using x draft wf_map_member [of "ch_overlay ?s" p "snd x"]
        by (cases x) (simp add: draft_ok_def)
      then have "snd x = Some (ve_sha env content)" by simp
      with True p new sha show ?thesis by (auto simp: staged_ok_def)
    next
      case False
      then have "x \<in> set (ch_overlay s)" using x set_alist_update [of p "Some (ve_sha env content)" "ch_overlay s"] by auto
      then have "staged_ok env ?f ws (ch_id s) x" using draft by (simp add: draft_ok_def)
      then show ?thesis using other [of "shadow_path (ch_id s) (fst x)"] False by (simp add: staged_ok_def shadow_inj)
    qed
  qed
  moreover have "fst (session_read env ws ?s q w') = fst (session_read env ws s q w)" if "q \<noteq> p" "\<not> is_service_path q" for q
    using that other [of q] other [of "shadow_path (ch_id s) q"] ne [of q]
    by (simp add: session_read_run [OF ok] session_read_run [OF w'(2)] f' base shadow_inj split: option.split)
  moreover have "main_tree w' ws' q = main_tree w ws' q" if "\<not> is_service_path q" for ws' q
    using ne [OF that] sqv.write_latest [OF inv] by (simp add: main_tree_def f' api)
  ultimately show ?thesis using w' read by (intro exI [of _ "(entry_of (new_file (ve_sha env) (chat_now w) ?sp content ?m))\<lparr>fe_path := p\<rparr>"] exI [of _ ?s] exI [of _ w'] conjI)
      (simp_all add: f' entry_of_def new_file_def)
qed

text \<open>On DSQL the same write cannot be read back: the shadow file is unversioned, so no version
  row has its hash.\<close>

lemma ds_service_unversioned:
  assumes "is_service_path p" and "h \<noteq> []"
  shows "fa_read (dsql_api sha) (fa_write (dsql_api sha) now ws p c m s) ws p (Some h) = Inr None"
proof -
  have "map_of (filter (\<lambda>((w, q, g), e). \<not> (w = ws \<and> q = p)) fs) (ws, p, h) = None" for fs :: "((string \<times> string \<times> string) \<times> fs_entry) list"
    by (induction fs) auto
  then show ?thesis using assms by (simp add: dsql_api_def ds_write_def ds_read_def put_index_def write_versioned_def Let_def)
qed

lemma staged_write_lost_dsql:
  assumes api: "ve_files env = dsql_api (ve_sha env)" and sha: "\<And>x. ve_sha env x \<noteq> []" and ok: "chat_ok ws w"
  shows "\<exists>e s' w'. session_write env ws s p content mime w = (Inr (e, s'), w') \<and> session_read env ws s' p w' = (Inr None, w')"
proof -
  obtain w' where w': "session_write env ws s p content mime w =
      (Inr ((entry_of (new_file (ve_sha env) (chat_now w) (shadow_path (ch_id s) p) content (case mime of Some m \<Rightarrow> m | None \<Rightarrow> ''text/plain'')))\<lparr>fe_path := p\<rparr>,
         touched w (s\<lparr>ch_overlay := mset_at p (Some (ve_sha env content)) (ch_overlay s)\<rparr>)), w')"
    "chat_ok ws w'" "hw_vcs w' = (hw_vcs w)\<lparr>gw_files := fa_write (ve_files env) (chat_now w) ws (shadow_path (ch_id s) p) content
       (case mime of Some m \<Rightarrow> m | None \<Rightarrow> ''text/plain'') (gw_files (hw_vcs w))\<rparr>"
    by (rule session_write_run [OF ok])
  then have "session_read env ws (touched w (s\<lparr>ch_overlay := mset_at p (Some (ve_sha env content)) (ch_overlay s)\<rparr>)) p w' = (Inr None, w')"
    using sha by (simp add: session_read_run [OF w'(2)] api ds_service_unversioned shadow_is_service)
  with w'(1) show ?thesis by blast
qed

text \<open>A workspace whose file \<^verbatim>\<open>a\<close> has changed since the base of a session that also edits it.\<close>

definition demo_sid :: string where
  "demo_sid = ''01234567''"

definition demo_session :: chat_session where
  "demo_session = \<lparr>ch_id = demo_sid, ch_title = ''t'', ch_status = SessionOpen, ch_mode = StagedMode, ch_base = ''b'',
     ch_overlay = [(''a'', Some ''hy''), (''n'', Some ''hz'')], ch_touched = None, ch_tabs = JUndefined, ch_agent = None, ch_run = None,
     ch_count = 0, ch_by = ''u'', ch_created = [], ch_updated = [], ch_merge = None\<rparr>"

definition demo_commit :: "string \<Rightarrow> string \<Rightarrow> vcs_commit" where
  "demo_commit i snap = \<lparr>vc_id = i, vc_snapshot = snap, vc_prefix = [], vc_parents = [], vc_message = [], vc_author = ''u'', vc_session = None,
     vc_created = [], vc_stats = \<lparr>cs_added = 0, cs_modified = 0, cs_removed = 0\<rparr>, vc_provenance = None\<rparr>"

definition demo_chat :: "sqlite_fs chat_world" where
  "demo_chat = \<lparr>hw_vcs = \<lparr>gw_now = 5,
       gw_snaps = doc_db (demo_snapshot []) [((''w'', SNAPSHOTS_SCOPE, ''s0''), demo_snapshot [(''a'', ''h0'')]),
         ((''w'', SNAPSHOTS_SCOPE, ''hhx a''), demo_snapshot [(''a'', ''hx'')])],
       gw_commits = doc_db undefined [((''w'', COMMITS_SCOPE, ''b''), demo_commit ''b'' ''s0''), ((''w'', COMMITS_SCOPE, ''m''), demo_commit ''m'' ''hhx a'')],
       gw_refs = doc_db undefined [((''w'', REFS_SCOPE, MAIN_REF), \<lparr>rf_name = MAIN_REF, rf_commit = ''m'', rf_updated = [], rf_by = ''u''\<rparr>)],
       gw_files = [(''w'', new_file (\<lambda>c. CHR ''h'' # c) 1 ''a'' ''x'' ''text/plain''),
         (''w'', new_file (\<lambda>c. CHR ''h'' # c) 1 (shadow_path demo_sid ''a'') ''y'' ''text/plain''),
         (''w'', new_file (\<lambda>c. CHR ''h'' # c) 1 (shadow_path demo_sid ''n'') ''z'' ''text/plain'')]\<rparr>,
     hw_sessions = doc_db undefined [((''w'', SESSIONS_SCOPE, demo_sid), demo_session)], hw_messages = doc_db undefined [], hw_next = 0\<rparr>"

lemma demo_chat_ok:
  "chat_ok ''w'' demo_chat" "history_ok (hw_vcs demo_chat) ''w''" "sq_hashed (ve_sha demo_vcs) hd (chat_now demo_chat) (gw_files (hw_vcs demo_chat))"
  "session_at demo_chat ''w'' demo_sid = Some demo_session" "session_env demo_vcs" "ve_files demo_vcs = sqlite_api (ve_sha demo_vcs) hd"
proof -
  show "chat_ok ''w'' demo_chat" by (simp add: chat_ok_def vcs_ok_def demo_chat_def doc_db_ok doc_db_ws)
  show "history_ok (hw_vcs demo_chat) ''w''"
    by (auto simp: history_ok_def commit_at_def snap_at_def demo_chat_def doc_db_at demo_commit_def split: if_splits)
  show "sq_hashed (ve_sha demo_vcs) hd (chat_now demo_chat) (gw_files (hw_vcs demo_chat))"
    by (simp add: sq_hashed_def sqfs_inv_def pick_ok_def chat_now_def demo_chat_def demo_vcs_def new_file_def)
  show "session_at demo_chat ''w'' demo_sid = Some demo_session" by (simp add: session_at_def demo_chat_def doc_db_at)
  show "session_env demo_vcs" "ve_files demo_vcs = sqlite_api (ve_sha demo_vcs) hd" by (simp_all add: session_env_def demo_vcs_def)
qed

lemma demo_session_ok: "ch_id demo_session = demo_sid" "session_id_re demo_sid" "ch_status demo_session = SessionOpen"
  "base_at demo_chat ''w'' (ch_base demo_session) = Some (demo_snapshot [(''a'', ''h0'')])"
  by (simp_all add: demo_session_def base_at_def commit_at_def snap_at_def demo_chat_def doc_db_at demo_commit_def) code_simp

lemma demo_draft: "draft_ok demo_vcs (gw_files (hw_vcs demo_chat)) ''w'' demo_session"
proof -
  have r: "fa_read (ve_files demo_vcs) (gw_files (hw_vcs demo_chat)) ''w'' (shadow_path demo_sid ''a'') (Some ''hy'') =
      Inr (Some (new_file (\<lambda>c. CHR ''h'' # c) 1 (shadow_path demo_sid ''a'') ''y'' ''text/plain''))"
    "fa_read (ve_files demo_vcs) (gw_files (hw_vcs demo_chat)) ''w'' (shadow_path demo_sid ''n'') (Some ''hz'') =
      Inr (Some (new_file (\<lambda>c. CHR ''h'' # c) 1 (shadow_path demo_sid ''n'') ''z'' ''text/plain''))"
    unfolding demo_chat_def by code_simp+
  have n: "normalize_fs_path ''a'' = Some ''a''" "normalize_fs_path ''n'' = Some ''n''" "\<not> is_service_path ''a''" "\<not> is_service_path ''n''"
    by code_simp+
  show ?thesis using r n by (simp add: draft_ok_def wf_map_def demo_session_def staged_ok_def)
qed

theorem close_applies_draft_witness:
  "map_option fe_hash (main_tree demo_chat ''w'' ''a'') = Some ''hx'' \<and>
   (\<exists>s' c w'. close_session demo_vcs ''w'' demo_sid ''u'' True None demo_chat = (Inr (s', Some c), w') \<and>
     map_option fe_hash (main_tree w' ''w'' ''a'') = Some ''hy'' \<and> (\<exists>l. vc_parents c = [''m'', l]))"
proof -
  have before: "map_option fe_hash (main_tree demo_chat ''w'' ''a'') = Some ''hx''" unfolding demo_chat_def by code_simp
  have ov: "ch_overlay demo_session = [(''a'', Some ''hy''), (''n'', Some ''hz'')]" by (simp add: demo_session_def)
  have parents: "main_parents demo_chat ''w'' = [''m'']" by (simp add: main_parents_def ref_at_def demo_chat_def doc_db_at)
  from close_applies_draft [OF demo_chat_ok(5,6,1,3,4) demo_session_ok(1-3) demo_draft, of "''u''" None]
  obtain s' c w' where r: "close_session demo_vcs ''w'' demo_sid ''u'' True None demo_chat = (Inr (s', Some c), w')"
    "\<forall>(p, st) \<in> set (ch_overlay demo_session). map_option fe_hash (main_tree w' ''w'' p) = st"
    "ch_overlay demo_session \<noteq> [] \<longrightarrow> (\<exists>l. map_option rf_commit (ref_at (hw_vcs w') ''w'' (''session/'' @ demo_sid)) = Some l \<and>
       vc_parents c = main_parents demo_chat ''w'' @ [l])" by (elim exE conjE) (rule that; assumption)
  have "map_option fe_hash (main_tree w' ''w'' ''a'') = Some ''hy''" using r(2) unfolding ov by simp
  moreover have "\<exists>l. vc_parents c = [''m'', l]" using r(3) unfolding ov parents by auto
  ultimately show ?thesis using before r(1) by blast
qed

theorem merge_resolution_exact_witness:
  "\<exists>s' c R w'. resolve_session_merge demo_vcs ''w'' demo_sid ''u'' KeepWorkspace True None demo_chat = (Inr (s', Some c, R), w') \<and> set R = {''a''} \<and>
     main_tree w' ''w'' ''a'' = main_tree demo_chat ''w'' ''a'' \<and> map_option fe_hash (main_tree w' ''w'' ''n'') = Some ''hz''"
proof -
  have all: "fa_list_all (ve_files demo_vcs) (gw_files (hw_vcs demo_chat)) ''w'' [] =
      Inr (map entry_of [new_file (\<lambda>c. CHR ''h'' # c) 1 (shadow_path demo_sid ''a'') ''y'' ''text/plain'',
        new_file (\<lambda>c. CHR ''h'' # c) 1 (shadow_path demo_sid ''n'') ''z'' ''text/plain'', new_file (\<lambda>c. CHR ''h'' # c) 1 ''a'' ''x'' ''text/plain''])"
    (is "_ = Inr ?all") unfolding demo_chat_def by code_simp
  have raw: "ve_lineage demo_vcs ''w'' (chat_now demo_chat) = Inr ([], [])" by (simp add: demo_vcs_def)
  have snap: "vn_id (build_snapshot demo_vcs (visible_of ?all) [] (Some (fst (filter_lineage_to_prefix ([], []) [])))) = ''hhx a''"
    by code_simp
  have head: "head_at (hw_vcs demo_chat) ''w'' MAIN_REF = Some (demo_commit ''m'' ''hhx a'')"
    by (simp add: head_at_def ref_at_def commit_at_def demo_chat_def doc_db_at)
  from merge_resolution_exact [OF demo_chat_ok(5,6,1,2,3,4) demo_session_ok(1-3) demo_draft demo_session_ok(4) all raw, of "''u''" KeepWorkspace None]
  obtain h :: vcs_commit and new s1 cs w1 s' c R w' where t: "vc_snapshot h = vn_id (build_snapshot demo_vcs (visible_of ?all) [] (Some (fst (filter_lineage_to_prefix ([], []) []))))"
    "\<forall>k. head_at (hw_vcs demo_chat) ''w'' MAIN_REF = Some k \<and> vc_snapshot k = vc_snapshot h \<longrightarrow> h = k \<and> hw_vcs w1 = hw_vcs demo_chat"
    "sync_session demo_vcs ''w'' demo_sid ''u'' demo_chat = (Inr (s1, cs), w1)" "snap_at (hw_vcs w1) ''w'' (vc_snapshot h) = Some new"
    "resolve_session_merge demo_vcs ''w'' demo_sid ''u'' KeepWorkspace True None demo_chat = (Inr (s', Some c, R), w')"
    "set R = (if vc_id h = ch_base demo_session then {} else contested (demo_snapshot [(''a'', ''h0'')]) new demo_session)"
    "\<forall>(p, st) \<in> set (ch_overlay demo_session).
       if KeepWorkspace = KeepWorkspace \<and> p \<in> set R then main_tree w' ''w'' p = main_tree demo_chat ''w'' p
       else map_option fe_hash (main_tree w' ''w'' p) = st"
    by (elim exE conjE) (rule that; assumption)
  have h: "h = demo_commit ''m'' ''hhx a''" "hw_vcs w1 = hw_vcs demo_chat" using t(1,2) head unfolding snap by (simp_all add: demo_commit_def)
  have new: "new = demo_snapshot [(''a'', ''hx'')]" using t(4) by (simp add: h snap_at_def demo_chat_def doc_db_at demo_commit_def)
  have "contested (demo_snapshot [(''a'', ''h0'')]) new demo_session = {''a''}"
    unfolding new by (auto simp: contested_def demo_session_def tree_of_def hash_map_def demo_snapshot_def demo_entry_def)
  then have R: "set R = {''a''}" using t(6) by (simp add: h(1) demo_commit_def demo_session_def)
  have eff: "main_tree w' ''w'' ''a'' = main_tree demo_chat ''w'' ''a''" "map_option fe_hash (main_tree w' ''w'' ''n'') = Some ''hz''"
    using t(7) unfolding R by (simp_all add: demo_session_def)
  from t(5) R eff show ?thesis by blast
qed

theorem staged_write_isolated_witness:
  "\<exists>e s' w'. session_write demo_vcs ''w'' demo_session ''a'' ''new'' None demo_chat = (Inr (e, s'), w') \<and>
     (\<exists>g. session_read demo_vcs ''w'' s' ''a'' w' = (Inr (Some g), w') \<and> ff_content g = ''new'') \<and>
     main_tree w' ''w'' ''a'' = main_tree demo_chat ''w'' ''a''"
proof -
  have p: "normalize_fs_path ''a'' = Some ''a''" "\<not> is_service_path ''a''" by code_simp+
  have sha: "ve_sha demo_vcs x \<noteq> []" for x by (simp add: demo_vcs_def)
  from staged_write_isolated [OF demo_chat_ok(6) sha demo_chat_ok(1,3) demo_draft p, of "''new''" None]
  obtain e s' w' where r: "session_write demo_vcs ''w'' demo_session ''a'' ''new'' None demo_chat = (Inr (e, s'), w')"
    "\<exists>g. session_read demo_vcs ''w'' s' ''a'' w' = (Inr (Some g), w') \<and> ff_content g = ''new'' \<and> fe_path g = ''a''"
    "\<forall>ws' q. \<not> is_service_path q \<longrightarrow> main_tree w' ws' q = main_tree demo_chat ws' q"
    by (elim exE conjE) (rule that; blast)
  with p show ?thesis by blast
qed

end
