(* ===== verification/Text_Diff.thy ===== *)
theory Text_Diff
  imports Js_Number
begin

text \<open>
  Search and replace edits of a text: their derivation from two versions and their matching, in
  \<^verbatim>\<open>server/workspace/src/doc/reconcile.ts\<close>, and their application in the editor package,
  \<^verbatim>\<open>packages/editor/src/lib/diff.ts\<close>. A text is split into lines at line feeds.
\<close>

section \<open>Data\<close>

record diff_block =
  db_search :: string
  db_replace :: string

datatype line_op = EqLine string | DelLine string | InsLine string

fun op_line :: "line_op \<Rightarrow> string" where
  "op_line (EqLine l) = l"
| "op_line (DelLine l) = l"
| "op_line (InsLine l) = l"

fun is_eq_op :: "line_op \<Rightarrow> bool" where
  "is_eq_op (EqLine l) = True"
| "is_eq_op _ = False"

definition text_lines :: "string \<Rightarrow> string list" where
  "text_lines s = split_on CHR 0x0A s"

definition join_lines :: "string list \<Rightarrow> string" where
  "join_lines ls = join [CHR 0x0A] ls"

section \<open>Deriving edits\<close>

text \<open>The table of common subsequence lengths, filled from its last row and column; a row is
  computed from the row below it.\<close>

fun lcs_row :: "string \<Rightarrow> string list \<Rightarrow> nat list \<Rightarrow> nat list" where
  "lcs_row x [] below = [0]"
| "lcs_row x (y # b) below =
     (let r = lcs_row x b (tl below)
      in (if x = y then below ! 1 + 1 else max (below ! 0) (r ! 0)) # r)"

fun lcs_table :: "string list \<Rightarrow> string list \<Rightarrow> nat list list" where
  "lcs_table [] b = [replicate (length b + 1) 0]"
| "lcs_table (x # a) b = (let t = lcs_table a b in lcs_row x b (t ! 0) # t)"

function edit_walk :: "string list \<Rightarrow> string list \<Rightarrow> nat list list \<Rightarrow> nat \<Rightarrow> nat \<Rightarrow> line_op list" where
  "edit_walk a b dp i j =
     (if i < length a \<and> j < length b
      then (if a ! i = b ! j then EqLine (a ! i) # edit_walk a b dp (i + 1) (j + 1)
            else if dp ! (i + 1) ! j \<ge> dp ! i ! (j + 1) then DelLine (a ! i) # edit_walk a b dp (i + 1) j
            else InsLine (b ! j) # edit_walk a b dp i (j + 1))
      else if i < length a then DelLine (a ! i) # edit_walk a b dp (i + 1) j
      else if j < length b then InsLine (b ! j) # edit_walk a b dp i (j + 1)
      else [])"
  by pat_completeness auto
termination by (relation "measure (\<lambda>(a, b, dp, i, j). (length a - i) + (length b - j))") auto

declare edit_walk.simps [simp del]

definition edit_script :: "string list \<Rightarrow> string list \<Rightarrow> line_op list" where
  "edit_script a b = edit_walk a b (lcs_table a b) 0 0"

text \<open>The last unchanged line among the operations before a hunk.\<close>

definition find_prev_eq :: "line_op list \<Rightarrow> string option" where
  "find_prev_eq before = (case rev (filter is_eq_op before) of [] \<Rightarrow> None | x # xs \<Rightarrow> Some (op_line x))"

definition hunk_block :: "string \<Rightarrow> string \<Rightarrow> string option \<Rightarrow> line_op list \<Rightarrow> string option \<Rightarrow> diff_block" where
  "hunk_block base content prev hunk nxt =
     (let del = map op_line (filter (\<lambda>x. case x of DelLine l \<Rightarrow> True | _ \<Rightarrow> False) hunk);
          ins = map op_line (filter (\<lambda>x. case x of InsLine l \<Rightarrow> True | _ \<Rightarrow> False) hunk)
      in if del \<noteq> [] \<and> ins \<noteq> [] then \<lparr>db_search = join_lines del, db_replace = join_lines ins\<rparr>
         else if del \<noteq> [] then
           (case nxt of
              Some l \<Rightarrow> \<lparr>db_search = join_lines (del @ [l]), db_replace = l\<rparr>
            | None \<Rightarrow> (case prev of
                Some p \<Rightarrow> \<lparr>db_search = join_lines (p # del), db_replace = p\<rparr>
              | None \<Rightarrow> \<lparr>db_search = join_lines del, db_replace = []\<rparr>))
         else
           (case prev of
              Some p \<Rightarrow> \<lparr>db_search = p, db_replace = join_lines (p # ins)\<rparr>
            | None \<Rightarrow> (case nxt of
                Some l \<Rightarrow> \<lparr>db_search = l, db_replace = join_lines (ins @ [l])\<rparr>
              | None \<Rightarrow> \<lparr>db_search = base, db_replace = content\<rparr>)))"

function hunks_from :: "string \<Rightarrow> string \<Rightarrow> line_op list \<Rightarrow> line_op list \<Rightarrow> diff_block list" where
  "hunks_from base content before [] = []"
| "hunks_from base content before (x # r) =
     (if is_eq_op x then hunks_from base content (before @ [x]) r
      else (let hunk = takeWhile (\<lambda>y. \<not> is_eq_op y) (x # r); rest = dropWhile (\<lambda>y. \<not> is_eq_op y) (x # r)
            in hunk_block base content (find_prev_eq before) hunk (case rest of y # ys \<Rightarrow> Some (op_line y) | [] \<Rightarrow> None)
               # hunks_from base content (before @ hunk) rest))"
  by pat_completeness auto
termination
proof (relation "measure (\<lambda>(base, content, before, ops). length ops)", goal_cases)
  case (3 base content before x r hunk rest)
  then have "length rest \<le> length r" by (simp add: length_dropWhile_le)
  then show ?case by simp
qed simp_all

definition derive_diff_blocks :: "string \<Rightarrow> string \<Rightarrow> diff_block list" where
  "derive_diff_blocks base content =
     (if base = content then []
      else hunks_from base content [] (edit_script (text_lines base) (text_lines content)))"

section \<open>Matching an edit\<close>

text \<open>\<^verbatim>\<open>code.indexOf(search)\<close>.\<close>

fun text_index :: "string \<Rightarrow> string \<Rightarrow> nat option" where
  "text_index s [] = (if s = [] then Some 0 else None)"
| "text_index s (c # cs) = (if starts_with (c # cs) s then Some 0 else map_option Suc (text_index s cs))"

definition trim_end :: "string \<Rightarrow> string" where
  "trim_end s = rev (dropWhile is_js_space (rev s))"

text \<open>Whether the first line is the second behind white space, and that white space.\<close>

definition shift_of :: "string \<Rightarrow> string \<Rightarrow> string option" where
  "shift_of long short =
     (if short \<noteq> [] \<and> ends_with long short \<and> take (length long - length short) long \<noteq> [] \<and>
         list_all is_js_space (take (length long - length short) long)
      then Some (take (length long - length short) long) else None)"

text \<open>The lines of a window against the lines of the search, with the indentation found so far.\<close>

fun window_shift :: "string list \<Rightarrow> string list \<Rightarrow> string option \<Rightarrow> string option \<Rightarrow> (string option \<times> string option) option" where
  "window_shift fs [] indent dedent = Some (indent, dedent)"
| "window_shift fs (s # ss) indent dedent =
     (let fileLine = trim_end (case fs of f # r \<Rightarrow> f | [] \<Rightarrow> []); searchLine = trim_end s
      in if fileLine = searchLine then window_shift (tl fs) ss indent dedent
         else (case shift_of fileLine searchLine of
             Some p \<Rightarrow>
               if (indent \<noteq> None \<and> indent \<noteq> Some p) \<or> dedent \<noteq> None then None
               else window_shift (tl fs) ss (Some p) dedent
           | None \<Rightarrow> (case shift_of searchLine fileLine of
               Some p \<Rightarrow>
                 if (dedent \<noteq> None \<and> dedent \<noteq> Some p) \<or> indent \<noteq> None then None
                 else window_shift (tl fs) ss indent (Some p)
             | None \<Rightarrow> None)))"

definition shift_line :: "string option \<Rightarrow> string option \<Rightarrow> string \<Rightarrow> string" where
  "shift_line indent dedent line =
     (if js_trim line = [] then line
      else if truthy indent then the indent @ line
      else if truthy dedent \<and> starts_with line (the dedent) then drop (length (the dedent)) line
      else line)"

text \<open>The first window of the file, from a start line on, that matches.\<close>

function find_window :: "string list \<Rightarrow> string list \<Rightarrow> nat \<Rightarrow> (nat \<times> string option \<times> string option) option" where
  "find_window fs ss start =
     (if start + length ss \<le> length fs
      then (case window_shift (drop start fs) ss None None of
          Some (i, d) \<Rightarrow> Some (start, i, d)
        | None \<Rightarrow> find_window fs ss (start + 1))
      else None)"
  by pat_completeness auto
termination by (relation "measure (\<lambda>(fs, ss, start). Suc (length fs) - start)") auto

declare find_window.simps [simp del]

definition line_offset :: "string list \<Rightarrow> nat \<Rightarrow> nat" where
  "line_offset fs start = sum_list (map (\<lambda>l. length l + 1) (take start fs))"

definition match_fuzzy :: "string \<Rightarrow> string \<Rightarrow> string \<Rightarrow> (nat \<times> nat \<times> string) option" where
  "match_fuzzy code search replace =
     (let fs = text_lines code; ss = text_lines search
      in case find_window fs ss 0 of
           None \<Rightarrow> None
         | Some (start, indent, dedent) \<Rightarrow>
             Some (line_offset fs start, length (join_lines (take (length ss) (drop start fs))),
               join_lines (map (shift_line indent dedent) (text_lines replace))))"

definition match_diff_block :: "string \<Rightarrow> string \<Rightarrow> string \<Rightarrow> (nat \<times> nat \<times> string) option" where
  "match_diff_block code search replace =
     (if search = [] then None
      else (case text_index search code of
          Some i \<Rightarrow> Some (i, length search, replace)
        | None \<Rightarrow> match_fuzzy code search replace))"

definition fail_preview :: "string \<Rightarrow> string" where
  "fail_preview search =
     (let preview = take 100 (join_lines (take 3 (text_lines search)))
      in preview @ (if length search > length preview then ''...'' else []))"

definition splice_text :: "string \<Rightarrow> nat \<times> nat \<times> string \<Rightarrow> string" where
  "splice_text t m = (case m of (i, n, r) \<Rightarrow> take i t @ r @ drop (i + n) t)"

text \<open>Matching the blocks one after the other on a working copy: the matched blocks, the
  previews of the others and the text after them.\<close>

fun match_blocks :: "string \<Rightarrow> diff_block list \<Rightarrow> diff_block list \<times> string list \<times> string" where
  "match_blocks working [] = ([], [], working)"
| "match_blocks working (b # bs) =
     (case match_diff_block working (db_search b) (db_replace b) of
        None \<Rightarrow> (case match_blocks working bs of (m, f, w) \<Rightarrow> (m, fail_preview (db_search b) # f, w))
      | Some x \<Rightarrow> (case match_blocks (splice_text working x) bs of (m, f, w) \<Rightarrow> (b # m, f, w)))"

section \<open>The editor's application\<close>

definition apply_fuzzy_diff :: "string \<Rightarrow> string \<Rightarrow> string \<Rightarrow> string option" where
  "apply_fuzzy_diff code search replace =
     (let fs = text_lines code; ss = text_lines search
      in case find_window fs ss 0 of
           None \<Rightarrow> None
         | Some (start, indent, dedent) \<Rightarrow>
             Some (join_lines (take start fs @ map (shift_line indent dedent) (text_lines replace) @ drop (start + length ss) fs)))"

text \<open>\<^verbatim>\<open>s.replace(search, template)\<close> with a text to search for: the first occurrence is replaced by
  the template, in which \<^verbatim>\<open>$$\<close>, \<^verbatim>\<open>$&\<close>, \<^verbatim>\<open>$`\<close> and \<^verbatim>\<open>$'\<close> stand for a dollar sign, the match, what is
  before and what is after it.\<close>

fun expand_template :: "string \<Rightarrow> string \<Rightarrow> string \<Rightarrow> string \<Rightarrow> string" where
  "expand_template before found after [] = []"
| "expand_template before found after [c] = [c]"
| "expand_template before found after (c # d # r) =
     (if c = CHR ''$'' \<and> d = CHR ''$'' then CHR ''$'' # expand_template before found after r
      else if c = CHR ''$'' \<and> d = CHR ''&'' then found @ expand_template before found after r
      else if c = CHR ''$'' \<and> d = CHR 0x60 then before @ expand_template before found after r
      else if c = CHR ''$'' \<and> d = CHR 0x27 then after @ expand_template before found after r
      else c # expand_template before found after (d # r))"

definition js_replace :: "string \<Rightarrow> string \<Rightarrow> string \<Rightarrow> string" where
  "js_replace s search template =
     (case text_index search s of
        None \<Rightarrow> s
      | Some i \<Rightarrow> take i s @ expand_template (take i s) search (drop (i + length search) s) template @ drop (i + length search) s)"

definition apply_one :: "string \<Rightarrow> diff_block \<Rightarrow> string option" where
  "apply_one code b =
     (if text_index (db_search b) code \<noteq> None then Some (js_replace code (db_search b) (db_replace b))
      else apply_fuzzy_diff code (db_search b) (db_replace b))"

text \<open>The loop of \<^verbatim>\<open>applyDiffs\<close>: the code after it, how many edits were applied, and the previews
  of the others.\<close>

fun apply_loop :: "string \<Rightarrow> diff_block list \<Rightarrow> string \<times> nat \<times> string list" where
  "apply_loop code [] = (code, 0, [])"
| "apply_loop code (b # bs) =
     (case apply_one code b of
        Some code' \<Rightarrow> (case apply_loop code' bs of (c, n, f) \<Rightarrow> (c, Suc n, f))
      | None \<Rightarrow> (case apply_loop code bs of (c, n, f) \<Rightarrow> (c, n, fail_preview (db_search b) # f)))"

end
