(* ===== verification/Diff_Laws.thy ===== *)
theory Diff_Laws
  imports Text_Diff
begin

text \<open>
  Lines, occurrences and windows of a text, and the table of common subsequence lengths against
  its declarative meaning.
\<close>

section \<open>Lines\<close>

definition is_line :: "string \<Rightarrow> bool" where
  "is_line l \<longleftrightarrow> CHR 0x0A \<notin> set l"

lemma text_lines_line: "l \<in> set (text_lines t) \<Longrightarrow> is_line l"
  using split_on_no_sep by (auto simp: text_lines_def is_line_def)

lemma text_lines_ne [simp]: "text_lines t \<noteq> []"
  by (simp add: text_lines_def)

lemma join_text_lines [simp]: "join_lines (text_lines t) = t"
  by (simp add: join_lines_def text_lines_def join_split_on)

lemma join_lines_simps [simp]: "join_lines [] = []" "join_lines [l] = l"
  by (simp_all add: join_lines_def)

lemma join_lines_Cons: "ls \<noteq> [] \<Longrightarrow> join_lines (l # ls) = l @ CHR 0x0A # join_lines ls"
  by (cases ls) (simp_all add: join_lines_def)

definition ended :: "string list \<Rightarrow> string" where
  "ended ls = concat (map (\<lambda>l. l @ [CHR 0x0A]) ls)"

definition tailed :: "string list \<Rightarrow> string" where
  "tailed ls = (if ls = [] then [] else CHR 0x0A # join_lines ls)"

lemma join_lines_append: "s \<noteq> [] \<Longrightarrow> join_lines (p @ s) = ended p @ join_lines s"
proof (induction p)
  case (Cons l p)
  then have "join_lines ((l # p) @ s) = l @ CHR 0x0A # join_lines (p @ s)" by (simp add: join_lines_Cons)
  with Cons show ?case by (simp add: ended_def)
qed (simp add: ended_def)

lemma join_lines_tail: "s \<noteq> [] \<Longrightarrow> join_lines (s @ q) = join_lines s @ tailed q"
proof (induction s)
  case (Cons l s)
  show ?case
  proof (cases "s = []")
    case True
    then show ?thesis by (cases "q = []") (simp_all add: tailed_def join_lines_Cons)
  next
    case False
    with Cons show ?thesis by (simp add: join_lines_Cons)
  qed
qed simp

lemma join_lines_parts: "s \<noteq> [] \<Longrightarrow> join_lines (p @ s @ q) = ended p @ join_lines s @ tailed q"
  using join_lines_append [of "s @ q" p] join_lines_tail [of s q] by simp

lemma length_ended: "length (ended p) = sum_list (map (\<lambda>l. length l + 1) p)"
  by (induction p) (simp_all add: ended_def)

lemma line_offset_ended: "line_offset fs n = length (ended (take n fs))"
  by (simp add: line_offset_def length_ended)

text \<open>Replacing a run of lines.\<close>

lemma splice_lines:
  assumes "s \<noteq> []" and "r \<noteq> []"
  shows "splice_text (join_lines (p @ s @ q)) (length (ended p), length (join_lines s), join_lines r) = join_lines (p @ r @ q)"
  unfolding join_lines_parts [OF assms(1)] join_lines_parts [OF assms(2)] by (simp add: splice_text_def)

section \<open>Occurrences\<close>

lemma text_index_Some: "text_index s t = Some i \<Longrightarrow> i + length s \<le> length t \<and> take (length s) (drop i t) = s \<and> (\<forall>k < i. \<not> starts_with (drop k t) s)"
proof (induction s t arbitrary: i rule: text_index.induct)
  case (2 s c cs)
  show ?case
  proof (cases "starts_with (c # cs) s")
    case True
    then obtain r where "c # cs = s @ r" by (auto simp: starts_with_iff)
    then have "length s \<le> length (c # cs)" "take (length s) (c # cs) = s" by simp_all
    with True 2(2) show ?thesis by simp
  next
    case False
    then obtain j where j: "i = Suc j" "text_index s cs = Some j" using 2(2) by auto
    have "\<not> starts_with (drop k (c # cs)) s" if "k < i" for k
      using that False 2(1) [OF False j(2)] j(1) by (cases k) auto
    with 2(1) [OF False j(2)] j(1) show ?thesis by simp
  qed
qed (auto split: if_splits)

lemma text_index_None: "text_index s t = None \<Longrightarrow> k \<le> length t \<Longrightarrow> \<not> starts_with (drop k t) s"
proof (induction s t arbitrary: k rule: text_index.induct)
  case (1 s)
  then show ?case by (cases s) auto
next
  case (2 s c cs)
  then have "\<not> starts_with (c # cs) s" "text_index s cs = None" by (auto split: if_splits)
  with 2 show ?case by (cases k) auto
qed

lemma text_index_at:
  assumes "starts_with (drop i t) s" and "i \<le> length t" and "\<And>k. k < i \<Longrightarrow> \<not> starts_with (drop k t) s"
  shows "text_index s t = Some i"
proof (cases "text_index s t")
  case None
  from text_index_None [OF None assms(2)] assms(1) show ?thesis by simp
next
  case (Some j)
  from text_index_Some [OF Some] have j: "starts_with (drop j t) s" "\<forall>k < j. \<not> starts_with (drop k t) s"
    by (metis starts_with_def)+
  with assms(1,3) have "\<not> i < j" "\<not> j < i" by blast+
  with Some show ?thesis by simp
qed

text \<open>Lines none of which occurs inside another.\<close>

definition apart :: "string set \<Rightarrow> bool" where
  "apart F \<longleftrightarrow> (\<forall>l \<in> F. is_line l) \<and> (\<forall>l \<in> F. \<forall>m \<in> F. sublist l m \<longrightarrow> l = m)"

lemma apartD: "apart F \<Longrightarrow> l \<in> F \<Longrightarrow> m \<in> F \<Longrightarrow> drop k m = l @ r \<Longrightarrow> k \<le> length m \<Longrightarrow> l = m \<and> k = 0 \<and> r = []"
proof -
  assume a: "apart F" "l \<in> F" "m \<in> F" "drop k m = l @ r" "k \<le> length m"
  then have "m = take k m @ l @ r" by (metis append_take_drop_id)
  then have "sublist l m" unfolding sublist_def by blast
  with a have "l = m" by (auto simp: apart_def)
  moreover from this have "length (take k m) + length r = 0" using \<open>m = take k m @ l @ r\<close> by (metis add_cancel_left_right length_append add.commute add.left_commute)
  ultimately show "l = m \<and> k = 0 \<and> r = []" using a(5) by auto
qed

lemma split_at_sep: "c \<notin> set x \<Longrightarrow> x @ r = y @ c # z \<Longrightarrow> \<exists>w. y = x @ w \<and> r = w @ c # z"
proof (induction x arbitrary: y)
  case (Cons a x)
  then show ?case by (cases y) auto
qed simp

text \<open>A run of such lines occurs in a text of them only as lines.\<close>

lemma lines_occur:
  assumes F: "apart F" and ss: "ss \<noteq> []" "set ss \<subseteq> F" and ls: "set ls \<subseteq> F" "ls \<noteq> []"
    and at: "starts_with (drop k (join_lines ls)) (join_lines ss)" "k \<le> length (join_lines ls)"
  shows "\<exists>p q. ls = p @ ss @ q \<and> k = length (ended p)"
  using ss ls at
proof (induction ls arbitrary: k ss)
  case (Cons l r)
  obtain s ss' where s: "ss = s # ss'" using Cons.prems(1) by (cases ss) auto
  have inF: "s \<in> F" "l \<in> F" "set ss' \<subseteq> F" "set r \<subseteq> F" using Cons.prems s by auto
  have line: "CHR 0x0A \<notin> set s" "CHR 0x0A \<notin> set l" using F inF by (auto simp: apart_def is_line_def)
  obtain u where u: "drop k (join_lines (l # r)) = join_lines ss @ u" using Cons.prems(5) by (auto simp: starts_with_iff)
  show ?case
  proof (cases "k \<le> length l")
    case True
    have t: "drop k (join_lines (l # r)) = drop k l @ tailed r"
      using True by (cases "r = []") (simp_all add: tailed_def join_lines_Cons)
    show ?thesis
    proof (cases "ss' = []")
      case single: True
      have eq: "s @ u = drop k l @ tailed r" using u t s single by simp
      have "\<exists>w. drop k l = s @ w"
      proof (cases "r = []")
        case True
        then have "drop k l = s @ u" using eq by (simp add: tailed_def)
        then show ?thesis by blast
      next
        case False
        then show ?thesis using split_at_sep [OF line(1), of u "drop k l" "join_lines r"] eq by (auto simp: tailed_def)
      qed
      then obtain w where "drop k l = s @ w" by blast
      from apartD [OF F inF(1,2) this True] have "s = l" "k = 0" by simp_all
      then show ?thesis using s single by (intro exI [of _ "[]"] exI [of _ r]) (simp add: ended_def)
    next
      case False
      have eq: "s @ CHR 0x0A # join_lines ss' @ u = drop k l @ tailed r" using u t s False by (simp add: join_lines_Cons)
      have rne: "r \<noteq> []"
      proof
        assume "r = []"
        then have "CHR 0x0A \<in> set (drop k l)" using eq by (metis append_Nil2 in_set_conv_decomp tailed_def)
        with line(2) show False by (meson in_set_dropD)
      qed
      have "CHR 0x0A \<notin> set (drop k l)" using line(2) by (meson in_set_dropD)
      with eq rne line(1) have e: "s = drop k l" "join_lines ss' @ u = join_lines r" by (auto simp: tailed_def append_sep_eq)
      from apartD [OF F inF(1,2), of k "[]"] e(1) True have k: "s = l" "k = 0" by simp_all
      have "starts_with (drop 0 (join_lines r)) (join_lines ss')" using e(2) by (metis drop0 starts_with_append)
      from Cons.IH [OF False inF(3,4) rne this] obtain p q where r: "r = p @ ss' @ q" "0 = length (ended p)" by auto
      then have "p = []" by (cases p) (simp_all add: ended_def)
      with r k s show ?thesis by (intro exI [of _ "[]"] exI [of _ q]) (simp add: ended_def)
    qed
  next
    case False
    have rne: "r \<noteq> []" using False Cons.prems(6) by auto
    let ?k = "k - Suc (length l)"
    have d: "drop k (join_lines (l # r)) = drop ?k (join_lines r)" using False rne by (simp add: join_lines_Cons drop_Cons')
    have "starts_with (drop ?k (join_lines r)) (join_lines ss)" using Cons.prems(5) unfolding d .
    moreover have "?k \<le> length (join_lines r)" using Cons.prems(6) False rne by (simp add: join_lines_Cons)
    ultimately obtain p q where "r = p @ ss @ q" "?k = length (ended p)" using Cons.IH [OF Cons.prems(1,2) inF(4) rne] by blast
    then show ?thesis using False by (intro exI [of _ "l # p"] exI [of _ q]) (simp add: ended_def)
  qed
qed simp

lemma distinct_split: "distinct (p @ s @ q) \<Longrightarrow> s \<noteq> [] \<Longrightarrow> p @ s @ q = p' @ s @ q' \<Longrightarrow> p = p'"
proof (induction p arbitrary: p')
  case Nil
  then show ?case by (cases p'; cases s) auto
next
  case (Cons a p)
  then show ?case by (cases p'; cases s) auto
qed

lemma text_index_lines:
  assumes F: "apart F" and ls: "set (p @ ss @ q) \<subseteq> F" and d: "distinct (p @ ss @ q)" and ne: "ss \<noteq> []"
  shows "text_index (join_lines ss) (join_lines (p @ ss @ q)) = Some (length (ended p))"
proof (rule text_index_at)
  show "starts_with (drop (length (ended p)) (join_lines (p @ ss @ q))) (join_lines ss)"
    by (simp add: join_lines_parts [OF ne])
  show le: "length (ended p) \<le> length (join_lines (p @ ss @ q))" by (simp add: join_lines_parts [OF ne])
  fix k assume k: "k < length (ended p)"
  show "\<not> starts_with (drop k (join_lines (p @ ss @ q))) (join_lines ss)"
  proof
    assume st: "starts_with (drop k (join_lines (p @ ss @ q))) (join_lines ss)"
    have "k \<le> length (join_lines (p @ ss @ q))" using k le by simp
    with lines_occur [OF F ne _ ls _ st] ls ne obtain p' q' where "p @ ss @ q = p' @ ss @ q'" "k = length (ended p')" by auto
    with distinct_split [OF d ne] k show False by auto
  qed
qed

section \<open>Common subsequences\<close>

fun lcs_len :: "'a list \<Rightarrow> 'a list \<Rightarrow> nat" where
  "lcs_len [] b = 0"
| "lcs_len (x # a) [] = 0"
| "lcs_len (x # a) (y # b) = (if x = y then lcs_len a b + 1 else max (lcs_len a (y # b)) (lcs_len (x # a) b))"

lemma lcs_len_Nil [simp]: "lcs_len a [] = 0"
  by (cases a) simp_all

lemma lcs_len_bound: "subseq zs a \<Longrightarrow> subseq zs b \<Longrightarrow> length zs \<le> lcs_len a b"
proof (induction a b arbitrary: zs rule: lcs_len.induct)
  case (3 x a y b)
  show ?case
  proof (cases zs)
    case (Cons z zs')
    show ?thesis
    proof (cases "x = y")
      case True
      have "subseq zs' a" "subseq zs' b"
        using 3(4,5) unfolding Cons by (metis subseq_Cons' subseq_Cons2' subseq_Cons2_iff subseq_order.trans)+
      from 3(1) [OF True this] True Cons show ?thesis by simp
    next
      case False
      then have "subseq zs a \<or> subseq zs b" using 3(4,5) unfolding Cons by (auto split: if_splits)
      then show ?thesis using 3(2) [OF False _ 3(5)] 3(3) [OF False 3(4)] False by fastforce
    qed
  qed simp
qed simp_all

lemma lcs_row_len: "length (lcs_row x b below) = Suc (length b)"
  by (induction x b below rule: lcs_row.induct) (simp_all add: Let_def)

lemma lcs_row_at:
  assumes "\<And>k. k \<le> length b \<Longrightarrow> below ! k = lcs_len a (drop k b)" and "length below = Suc (length b)"
  shows "k \<le> length b \<Longrightarrow> lcs_row x b below ! k = lcs_len (x # a) (drop k b)"
  using assms
proof (induction x b below arbitrary: k rule: lcs_row.induct)
  case (2 x y b below)
  have t: "tl below ! j = lcs_len a (drop j b)" if "j \<le> length b" for j
    using 2(3) [of "Suc j"] 2(4) that by (cases below) simp_all
  have len: "length (tl below) = Suc (length b)" using 2(4) by simp
  have r: "lcs_row x b (tl below) ! j = lcs_len (x # a) (drop j b)" if "j \<le> length b" for j
    using 2(1) [OF that t len] .
  show ?case
  proof (cases k)
    case 0
    have "below ! 0 = lcs_len a (y # b)" "below ! 1 = lcs_len a b" using 2(3) [of 0] 2(3) [of 1] by simp_all
    with 0 r [of 0] show ?thesis by (simp add: Let_def)
  next
    case (Suc j)
    with r [of j] 2(2) show ?thesis by (simp add: Let_def)
  qed
qed simp

lemma lcs_table_at: "i \<le> length a \<Longrightarrow> j \<le> length b \<Longrightarrow> lcs_table a b ! i ! j = lcs_len (drop i a) (drop j b)"
proof (induction a arbitrary: i j)
  case (Cons x a)
  have len: "length (lcs_table a b ! 0) = Suc (length b)" by (cases a) (simp_all add: lcs_row_len Let_def)
  show ?case
  proof (cases i)
    case 0
    have "lcs_row x b (lcs_table a b ! 0) ! j = lcs_len (x # a) (drop j b)"
      by (rule lcs_row_at [OF _ len Cons.prems(2)]) (use Cons.IH [of 0] in simp)
    with 0 show ?thesis by (simp add: Let_def)
  next
    case (Suc k)
    with Cons show ?thesis by (simp add: Let_def)
  qed
next
  case Nil
  then show ?case by (cases j) simp_all
qed

section \<open>The two sides of a script\<close>

definition old_lines :: "line_op list \<Rightarrow> string list" where
  "old_lines ops = map op_line (filter (\<lambda>x. case x of InsLine l \<Rightarrow> False | _ \<Rightarrow> True) ops)"

definition new_lines :: "line_op list \<Rightarrow> string list" where
  "new_lines ops = map op_line (filter (\<lambda>x. case x of DelLine l \<Rightarrow> False | _ \<Rightarrow> True) ops)"

definition kept_lines :: "line_op list \<Rightarrow> string list" where
  "kept_lines ops = map op_line (filter is_eq_op ops)"

lemma side_simps [simp]:
  "old_lines [] = []" "new_lines [] = []" "kept_lines [] = []"
  "old_lines (EqLine l # r) = l # old_lines r" "old_lines (DelLine l # r) = l # old_lines r" "old_lines (InsLine l # r) = old_lines r"
  "new_lines (EqLine l # r) = l # new_lines r" "new_lines (DelLine l # r) = new_lines r" "new_lines (InsLine l # r) = l # new_lines r"
  "kept_lines (EqLine l # r) = l # kept_lines r" "kept_lines (DelLine l # r) = kept_lines r" "kept_lines (InsLine l # r) = kept_lines r"
  by (simp_all add: old_lines_def new_lines_def kept_lines_def)

lemma side_append [simp]:
  "old_lines (xs @ ys) = old_lines xs @ old_lines ys" "new_lines (xs @ ys) = new_lines xs @ new_lines ys"
  by (simp_all add: old_lines_def new_lines_def)

lemma kept_sub: "subseq (kept_lines ops) (old_lines ops)" "subseq (kept_lines ops) (new_lines ops)"
proof (induction ops)
  case (Cons x ops)
  { case 1 show ?case using Cons(1) by (cases x) auto
  next case 2 show ?case using Cons(2) by (cases x) auto }
qed simp_all

lemma edit_walk_sides:
  "old_lines (edit_walk a b dp i j) = drop i a \<and> new_lines (edit_walk a b dp i j) = drop j b"
proof (induction a b dp i j rule: edit_walk.induct)
  case (1 a b dp i j)
  have d: "i < length a \<Longrightarrow> drop i a = a ! i # drop (Suc i) a" "j < length b \<Longrightarrow> drop j b = b ! j # drop (Suc j) b"
    by (simp_all add: Cons_nth_drop_Suc)
  show ?case
    by (subst (1 2) edit_walk.simps) (use 1 d in \<open>auto simp del: drop_Suc\<close>)
qed

lemma edit_walk_kept:
  assumes "\<And>i j. i \<le> length a \<Longrightarrow> j \<le> length b \<Longrightarrow> dp ! i ! j = lcs_len (drop i a) (drop j b)"
  shows "i \<le> length a \<Longrightarrow> j \<le> length b \<Longrightarrow> length (kept_lines (edit_walk a b dp i j)) = lcs_len (drop i a) (drop j b)"
  using assms
proof (induction a b dp i j rule: edit_walk.induct)
  case (1 a b dp i j)
  have d: "i < length a \<Longrightarrow> drop i a = a ! i # drop (Suc i) a" "j < length b \<Longrightarrow> drop j b = b ! j # drop (Suc j) b"
    by (simp_all add: Cons_nth_drop_Suc)
  have dp: "i < length a \<Longrightarrow> j \<le> length b \<Longrightarrow> dp ! Suc i ! j = lcs_len (drop (Suc i) a) (drop j b)"
    "i \<le> length a \<Longrightarrow> j < length b \<Longrightarrow> dp ! i ! Suc j = lcs_len (drop i a) (drop (Suc j) b)"
    using 1(8) by simp_all
  show ?case
    by (subst edit_walk.simps) (use 1 d dp in \<open>auto simp: max_def simp del: drop_Suc\<close>)
qed

end
