(* ===== verification/Diff_Properties.thy ===== *)
theory Diff_Properties
  imports Diff_Laws
begin

text \<open>
  What the text edits promise: the derived script keeps a longest common subsequence, its blocks
  lead from the old text to the new one when no line repeats, moves or occurs inside another,
  a match is the first exact occurrence or a window that differs by indentation alone, and the
  editor's application agrees with it except on templates with a dollar sign.
\<close>

section \<open>The script\<close>

text \<open>
  C25: the script derived from two versions reads as the old version without its insertions and
  as the new version without its deletions, and the lines it keeps are a longest common
  subsequence of the two.
\<close>

theorem edit_script_optimal:
  "old_lines (edit_script a b) = a \<and> new_lines (edit_script a b) = b \<and>
   subseq (kept_lines (edit_script a b)) a \<and> subseq (kept_lines (edit_script a b)) b \<and>
   (\<forall>zs. subseq zs a \<and> subseq zs b \<longrightarrow> length zs \<le> length (kept_lines (edit_script a b)))"
proof -
  have sides: "old_lines (edit_script a b) = a" "new_lines (edit_script a b) = b"
    using edit_walk_sides [of a b "lcs_table a b" 0 0] by (simp_all add: edit_script_def)
  have len: "length (kept_lines (edit_script a b)) = lcs_len a b"
    using edit_walk_kept [of a b "lcs_table a b" 0 0, OF lcs_table_at] by (simp add: edit_script_def)
  have "subseq (kept_lines (edit_script a b)) a" "subseq (kept_lines (edit_script a b)) b"
    using kept_sub [of "edit_script a b"] by (simp_all only: sides)
  moreover have "length zs \<le> lcs_len a b" if "subseq zs a" "subseq zs b" for zs by (rule lcs_len_bound [OF that])
  ultimately show ?thesis using sides len by auto
qed

theorem edit_script_optimal_witness:
  "length (kept_lines (edit_script [''a'', ''b'', ''c''] [''b'', ''x'', ''c''])) \<ge> length [''b'', ''c'']"
proof -
  have "subseq [''b'', ''c''] [''a'', ''b'', ''c'']" "subseq [''b'', ''c''] [''b'', ''x'', ''c'']" by simp_all
  with edit_script_optimal [of "[''a'', ''b'', ''c'']" "[''b'', ''x'', ''c'']"] show ?thesis by blast
qed

section \<open>Applying a derived script\<close>

lemma match_at_lines:
  assumes "apart F" and "set (p @ s @ q) \<subseteq> F" and "distinct (p @ s @ q)" and "s \<noteq> []" and "join_lines s \<noteq> []" and "r \<noteq> []"
  shows "match_diff_block (join_lines (p @ s @ q)) (join_lines s) (join_lines r) = Some (length (ended p), length (join_lines s), join_lines r)"
    "splice_text (join_lines (p @ s @ q)) (length (ended p), length (join_lines s), join_lines r) = join_lines (p @ r @ q)"
  using text_index_lines [OF assms(1-4)] splice_lines [OF assms(4,6)] assms(5) by (simp_all add: match_diff_block_def)

lemma apart_ne: "apart F \<Longrightarrow> l \<in> F \<Longrightarrow> m \<in> F \<Longrightarrow> l \<noteq> m \<Longrightarrow> l \<noteq> []"
  by (auto simp: apart_def)

text \<open>The block of a hunk replaces the hunk's old lines by its new ones.\<close>

lemma hunk_step:
  assumes F: "apart F" "[] \<notin> F" and set: "set (N @ old_lines h @ Q) \<subseteq> F" and d: "distinct (N @ old_lines h @ Q)"
    and h: "h \<noteq> []" "kept_lines h = []" and prev: "prev = (if N = [] then None else Some (last N))"
    and nxt: "nxt = (case Q of [] \<Rightarrow> None | l # r \<Rightarrow> Some l)"
    and some: "N @ new_lines h @ Q \<noteq> []" "N @ old_lines h @ Q \<noteq> []" and b: "b = hunk_block base content prev h nxt"
  shows "\<exists>m. match_diff_block (join_lines (N @ old_lines h @ Q)) (db_search b) (db_replace b) = Some m \<and>
    splice_text (join_lines (N @ old_lines h @ Q)) m = join_lines (N @ new_lines h @ Q)"
proof -
  have noeq: "\<forall>x \<in> set h. \<not> is_eq_op x" using h(2) by (simp add: kept_lines_def filter_empty_conv)
  have del: "map op_line (filter (\<lambda>x. case x of DelLine l \<Rightarrow> True | _ \<Rightarrow> False) h) = old_lines h"
    unfolding old_lines_def using noeq by (intro arg_cong [where f = "map op_line"] filter_cong) (auto split: line_op.splits)
  have ins: "map op_line (filter (\<lambda>x. case x of InsLine l \<Rightarrow> True | _ \<Rightarrow> False) h) = new_lines h"
    unfolding new_lines_def using noeq by (intro arg_cong [where f = "map op_line"] filter_cong) (auto split: line_op.splits)
  have one: "old_lines h \<noteq> [] \<or> new_lines h \<noteq> []" using h(1) by (cases "hd h"; cases h) auto
  note block = b [unfolded hunk_block_def Let_def del ins]
  have ne: "join_lines s \<noteq> []" if "s \<noteq> []" "set s \<subseteq> F" for s
    using that F(2) by (cases s; cases "tl s") (auto simp: join_lines_Cons)
  have step: "\<exists>m. match_diff_block (join_lines (P @ S @ R)) (join_lines S) (join_lines S') = Some m \<and>
      splice_text (join_lines (P @ S @ R)) m = join_lines (P @ S' @ R)"
    if "P @ S @ R = N @ old_lines h @ Q" "S \<noteq> []" "S' \<noteq> []" for P S R S'
    using match_at_lines [OF F(1), of P S R S'] ne [of S] that set d by (metis Un_subset_iff set_append)
  consider "old_lines h \<noteq> []" "new_lines h \<noteq> []" | "old_lines h \<noteq> []" "new_lines h = []" | "old_lines h = []" "new_lines h \<noteq> []"
    using one by blast
  then show ?thesis
  proof cases
    case 1
    then show ?thesis using step [of N "old_lines h" Q "new_lines h"] by (simp add: block)
  next
    case 2
    show ?thesis
    proof (cases Q)
      case (Cons l r)
      then show ?thesis using 2 step [of N "old_lines h @ [l]" r "[l]"] by (simp add: block nxt)
    next
      case Nil
      then have "N \<noteq> []" using some(1) 2 by simp
      then obtain N' p where N: "N = N' @ [p]" by (metis rev_exhaust)
      show ?thesis using 2 Nil N step [of N' "p # old_lines h" "[]" "[p]"] by (simp add: block nxt prev)
    qed
  next
    case 3
    show ?thesis
    proof (cases "N = []")
      case False
      then obtain N' p where N: "N = N' @ [p]" by (metis rev_exhaust)
      show ?thesis using 3 N step [of N' "[p]" Q "p # new_lines h"] by (simp add: block prev)
    next
      case True
      then obtain l r where "Q = l # r" using some(2) 3 by (cases Q) auto
      then show ?thesis using 3 True step [of "[]" "[l]" r "new_lines h @ [l]"] by (simp add: block prev nxt)
    qed
  qed
qed

lemma eq_op_line: "is_eq_op x \<Longrightarrow> x = EqLine (op_line x)"
  by (cases x) simp_all

lemma hunks_apply:
  assumes F: "apart F" "[] \<notin> F"
  shows "set (old_lines (before @ ops)) \<union> set (new_lines (before @ ops)) \<subseteq> F \<Longrightarrow>
    (\<And>xs ys. xs @ ys = before @ ops \<Longrightarrow> distinct (new_lines xs @ old_lines ys)) \<Longrightarrow>
    before = [] \<or> is_eq_op (last before) \<or> ops = [] \<or> is_eq_op (hd ops) \<Longrightarrow> old_lines (before @ ops) \<noteq> [] \<Longrightarrow> new_lines (before @ ops) \<noteq> [] \<Longrightarrow>
    match_blocks (join_lines (new_lines before @ old_lines ops)) (hunks_from base content before ops) =
      (hunks_from base content before ops, [], join_lines (new_lines (before @ ops)))"
proof (induction base content before ops rule: hunks_from.induct)
  case (2 base content before x r)
  show ?case
  proof (cases "is_eq_op x")
    case True
    obtain l where x: "x = EqLine l" using True by (cases x) simp_all
    have "match_blocks (join_lines (new_lines (before @ [x]) @ old_lines r)) (hunks_from base content (before @ [x]) r) =
        (hunks_from base content (before @ [x]) r, [], join_lines (new_lines ((before @ [x]) @ r)))"
      by (rule 2(1) [OF True]) (use 2(3-7) True in simp_all)
    then show ?thesis by (simp add: x)
  next
    case False
    obtain h rest where h: "takeWhile (\<lambda>y. \<not> is_eq_op y) (x # r) = h" and rs: "dropWhile (\<lambda>y. \<not> is_eq_op y) (x # r) = rest" by blast
    let ?nxt = "case rest of y # ys \<Rightarrow> Some (op_line y) | [] \<Rightarrow> None"
    let ?N = "new_lines before" and ?Q = "old_lines rest"
    have split: "h @ rest = x # r" unfolding h [symmetric] rs [symmetric] by (rule takeWhile_dropWhile_id)
    have all: "(before @ h) @ rest = before @ x # r" using split by simp
    have old: "old_lines (x # r) = old_lines h @ ?Q" by (metis side_append(1) split)
    have new: "new_lines (before @ x # r) = ?N @ new_lines h @ new_lines rest" by (metis side_append(2) split)
    have hne: "h \<noteq> []" using False h by auto
    have kept: "kept_lines h = []" unfolding h [symmetric] kept_lines_def by (simp add: filter_empty_conv) (metis set_takeWhileD False)
    have rest: "rest = [] \<or> (\<exists>l ys. rest = EqLine l # ys)"
    proof (cases "rest = []")
      case False
      then have "is_eq_op (hd rest)" using rs hd_dropWhile by metis
      with False show ?thesis by (metis eq_op_line list.collapse)
    qed simp
    have prev: "find_prev_eq before = (if ?N = [] then None else Some (last ?N)) \<and> (?N = [] \<longrightarrow> before = [])"
    proof (cases before rule: rev_cases)
      case (snoc ys y)
      then obtain l where "y = EqLine l" using 2(5) False by (metis eq_op_line last_snoc list.sel(1) list.distinct(1) snoc_eq_iff_butlast)
      with snoc show ?thesis by (simp add: find_prev_eq_def)
    qed (simp add: find_prev_eq_def)
    have nxt: "?nxt = (case ?Q of [] \<Rightarrow> None | l # r \<Rightarrow> Some l)" using rest by auto
    have d: "distinct (?N @ old_lines h @ ?Q)" using 2(4) [OF refl] unfolding old by simp
    have sub: "set (?N @ old_lines h @ ?Q) \<subseteq> F" using 2(3) old by auto
    have some: "?N @ new_lines h @ ?Q \<noteq> []" "?N @ old_lines h @ ?Q \<noteq> []"
      using rest new 2(7) prev old 2(6) by auto
    let ?b = "hunk_block base content (find_prev_eq before) h ?nxt"
    obtain m where m: "match_diff_block (join_lines (?N @ old_lines h @ ?Q)) (db_search ?b) (db_replace ?b) = Some m"
      "splice_text (join_lines (?N @ old_lines h @ ?Q)) m = join_lines (?N @ new_lines h @ ?Q)"
      using hunk_step [OF F sub d hne kept conjunct1 [OF prev] nxt some refl, of base content] by blast
    have start: "before @ h = [] \<or> is_eq_op (last (before @ h)) \<or> rest = [] \<or> is_eq_op (hd rest)" using rest by auto
    have "match_blocks (join_lines (new_lines (before @ h) @ ?Q)) (hunks_from base content (before @ h) rest) =
        (hunks_from base content (before @ h) rest, [], join_lines (new_lines ((before @ h) @ rest)))"
      by (rule 2(2) [OF False h [symmetric] rs [symmetric] _ _ start]) (unfold all, use 2(3,4,6,7) in auto)
    moreover have "hunks_from base content before (x # r) = ?b # hunks_from base content (before @ h) rest"
      using False h rs by (simp add: Let_def)
    moreover have "new_lines ((before @ h) @ rest) = new_lines (before @ x # r)" unfolding all ..
    ultimately show ?thesis using m unfolding old by simp
  qed
qed simp

text \<open>In a script whose sides are distinct and which moves no line, no line is both on the new side
  of a first part and on the old side of the rest.\<close>

lemma script_distinct:
  assumes "distinct (old_lines (xs @ ys))" and "distinct (new_lines (xs @ ys))"
    and "\<And>l. DelLine l \<in> set (xs @ ys) \<Longrightarrow> InsLine l \<notin> set (xs @ ys)"
  shows "distinct (new_lines xs @ old_lines ys)"
proof -
  have mem: "l \<in> set (old_lines zs) \<longleftrightarrow> EqLine l \<in> set zs \<or> DelLine l \<in> set zs"
    "l \<in> set (new_lines zs) \<longleftrightarrow> EqLine l \<in> set zs \<or> InsLine l \<in> set zs" for l zs
    by (induction zs) (auto split: line_op.splits simp: old_lines_def new_lines_def)
  have "False" if l: "l \<in> set (new_lines xs)" "l \<in> set (old_lines ys)" for l
    using l assms by (fastforce simp: mem)
  then show ?thesis using assms by auto
qed

text \<open>
  for two versions whose lines are all different, non-empty and not inside one another, and of
  which no line is moved, the derived blocks all match, one after the other, and lead from the old
  text to the new one.
\<close>

theorem derived_blocks_apply:
  assumes d: "distinct (text_lines base)" "distinct (text_lines content)"
    and F: "apart (set (text_lines base) \<union> set (text_lines content))" "[] \<notin> set (text_lines base) \<union> set (text_lines content)"
    and move: "\<And>l. DelLine l \<in> set (edit_script (text_lines base) (text_lines content)) \<Longrightarrow>
      InsLine l \<notin> set (edit_script (text_lines base) (text_lines content))"
  shows "match_blocks base (derive_diff_blocks base content) = (derive_diff_blocks base content, [], content)"
proof (cases "base = content")
  case False
  let ?s = "edit_script (text_lines base) (text_lines content)"
  have sides: "old_lines ?s = text_lines base" "new_lines ?s = text_lines content"
    using edit_walk_sides [of "text_lines base" "text_lines content" "lcs_table (text_lines base) (text_lines content)" 0 0]
    by (simp_all add: edit_script_def)
  have "match_blocks (join_lines (new_lines [] @ old_lines ?s)) (hunks_from base content [] ?s) =
      (hunks_from base content [] ?s, [], join_lines (new_lines ([] @ ?s)))"
  proof (rule hunks_apply [OF F])
    show "distinct (new_lines xs @ old_lines ys)" if "xs @ ys = [] @ ?s" for xs ys
      using that script_distinct [of xs ys] d move sides by simp
  qed (simp_all add: sides)
  with False show ?thesis by (simp add: derive_diff_blocks_def sides)
qed (simp add: derive_diff_blocks_def)

theorem derived_blocks_apply_witness:
  "match_blocks [CHR ''a'', CHR 0x0A, CHR ''b'', CHR 0x0A, CHR ''c''] (derive_diff_blocks [CHR ''a'', CHR 0x0A, CHR ''b'', CHR 0x0A, CHR ''c'']
     [CHR ''a'', CHR 0x0A, CHR ''x'', CHR 0x0A, CHR ''c'', CHR 0x0A, CHR ''y'']) =
   (derive_diff_blocks [CHR ''a'', CHR 0x0A, CHR ''b'', CHR 0x0A, CHR ''c'']
     [CHR ''a'', CHR 0x0A, CHR ''x'', CHR 0x0A, CHR ''c'', CHR 0x0A, CHR ''y''], [], [CHR ''a'', CHR 0x0A, CHR ''x'', CHR 0x0A, CHR ''c'', CHR 0x0A, CHR ''y''])"
proof -
  have l: "text_lines [CHR ''a'', CHR 0x0A, CHR ''b'', CHR 0x0A, CHR ''c''] = [''a'', ''b'', ''c'']"
    "text_lines [CHR ''a'', CHR 0x0A, CHR ''x'', CHR 0x0A, CHR ''c'', CHR 0x0A, CHR ''y''] = [''a'', ''x'', ''c'', ''y'']"
    by code_simp+
  have s: "edit_script [''a'', ''b'', ''c''] [''a'', ''x'', ''c'', ''y''] = [EqLine ''a'', DelLine ''b'', InsLine ''x'', EqLine ''c'', InsLine ''y'']"
    by code_simp
  have "sublist [c] [d] \<longleftrightarrow> c = d" for c d :: char by (auto simp: sublist_def Cons_eq_append_conv append_eq_Cons_conv)
  then show ?thesis by (intro derived_blocks_apply) (unfold l s, auto simp: apart_def is_line_def)
qed

text \<open>Outside these conditions the blocks can go astray. A line inserted after an empty one has the
  empty text as its search, which never matches; a line is replaced inside an earlier line that
  contains it; and a repeated line is an anchor at its first occurrence.\<close>

lemma insert_after_empty_line_fails:
  "derive_diff_blocks [CHR ''a'', CHR 0x0A, CHR 0x0A, CHR ''b''] [CHR ''a'', CHR 0x0A, CHR 0x0A, CHR ''x'', CHR 0x0A, CHR ''b''] =
     [\<lparr>db_search = [], db_replace = [CHR 0x0A, CHR ''x'']\<rparr>]"
  "fst (snd (match_blocks t [\<lparr>db_search = [], db_replace = r\<rparr>])) \<noteq> []"
  by code_simp (simp add: match_diff_block_def)

lemma replaced_inside_longer_line:
  "snd (snd (match_blocks (''foobar'' @ CHR 0x0A # ''bar'') (derive_diff_blocks (''foobar'' @ CHR 0x0A # ''bar'') (''foobar'' @ CHR 0x0A # ''baz'')))) =
   ''foobaz'' @ CHR 0x0A # ''bar''"
  by code_simp

lemma anchored_at_first_repeat:
  "snd (snd (match_blocks [CHR ''a'', CHR 0x0A, CHR ''b'', CHR 0x0A, CHR ''a''] (derive_diff_blocks [CHR ''a'', CHR 0x0A, CHR ''b'', CHR 0x0A, CHR ''a'']
     [CHR ''a'', CHR 0x0A, CHR ''b'', CHR 0x0A, CHR ''a'', CHR 0x0A, CHR ''c'']))) = [CHR ''a'', CHR 0x0A, CHR ''c'', CHR 0x0A, CHR ''b'', CHR 0x0A, CHR ''a'']"
  by code_simp

section \<open>Matching\<close>

definition lines_agree :: "string option \<Rightarrow> string option \<Rightarrow> string \<Rightarrow> string \<Rightarrow> bool" where
  "lines_agree indent dedent f s \<longleftrightarrow> trim_end f = trim_end s \<or> (\<exists>p. indent = Some p \<and> trim_end f = p @ trim_end s) \<or>
     (\<exists>p. dedent = Some p \<and> trim_end s = p @ trim_end f)"

definition white :: "string option \<Rightarrow> bool" where
  "white x \<longleftrightarrow> (\<forall>p. x = Some p \<longrightarrow> p \<noteq> [] \<and> list_all is_js_space p)"

lemma shift_of_Some: "shift_of long short = Some p \<Longrightarrow> long = p @ short \<and> white (Some p)"
  by (auto simp: shift_of_def white_def ends_with_iff split: if_splits)

lemma window_shift_sound:
  "window_shift fs ss i0 d0 = Some (i, d) \<Longrightarrow> length ss \<le> length fs \<Longrightarrow> i0 = None \<or> d0 = None \<Longrightarrow> white i0 \<Longrightarrow> white d0 \<Longrightarrow>
    list_all2 (lines_agree i d) (take (length ss) fs) ss \<and> (i = None \<or> d = None) \<and> white i \<and> white d \<and>
    (i0 \<noteq> None \<longrightarrow> i = i0) \<and> (d0 \<noteq> None \<longrightarrow> d = d0)"
proof (induction fs ss i0 d0 rule: window_shift.induct)
  case (2 fs s ss i0 d0)
  obtain f r where fs: "fs = f # r" using 2(5) by (cases fs) auto
  let ?f = "trim_end f" and ?s = "trim_end s"
  note run = 2(4) [unfolded window_shift.simps fs Let_def list.case list.sel]
  have len: "length ss \<le> length r" using 2(5) fs by simp
  show ?case
  proof (cases "?f = ?s")
    case True
    then have "window_shift r ss i0 d0 = Some (i, d)" using run by simp
    with 2(1) [OF refl refl] True 2(6-8) len show ?thesis by (simp add: fs lines_agree_def)
  next
    case neq: False
    show ?thesis
    proof (cases "shift_of ?f ?s")
      case (Some p)
      then have g: "i0 = None \<or> i0 = Some p" "d0 = None" "window_shift r ss (Some p) d0 = Some (i, d)"
        using run neq by (auto split: if_splits)
      have "\<not> (i0 \<noteq> None \<and> i0 \<noteq> Some p \<or> d0 \<noteq> None)" using g by auto
      note ih = 2(3) [OF refl refl, unfolded fs list.case list.sel, OF neq Some this g(3) len disjI2 [OF g(2)] conjunct2 [OF shift_of_Some [OF Some]] 2(8)]
      have a: "list_all2 (lines_agree i d) (take (length ss) r) ss" "i = Some p" "d = None" "white i" "white d" using ih by blast+
      moreover have "lines_agree i d f s" using a(2) shift_of_Some [OF Some] by (simp add: lines_agree_def)
      ultimately show ?thesis using g(1,2) by (auto simp: fs)
    next
      case none: None
      then obtain p where p: "shift_of ?s ?f = Some p" using run neq by (cases "shift_of ?s ?f") auto
      then have g: "d0 = None \<or> d0 = Some p" "i0 = None" "window_shift r ss i0 (Some p) = Some (i, d)"
        using run neq none by (auto split: if_splits)
      have "\<not> (d0 \<noteq> None \<and> d0 \<noteq> Some p \<or> i0 \<noteq> None)" using g by auto
      note ih = 2(2) [OF refl refl, unfolded fs list.case list.sel, OF neq none p this g(3) len disjI1 [OF g(2)] 2(7) conjunct2 [OF shift_of_Some [OF p]]]
      have a: "list_all2 (lines_agree i d) (take (length ss) r) ss" "i = None" "d = Some p" "white i" "white d" using ih by blast+
      moreover have "lines_agree i d f s" using a(3) shift_of_Some [OF p] by (simp add: lines_agree_def)
      ultimately show ?thesis using g(1,2) by (auto simp: fs)
    qed
  qed
qed simp

lemma find_window_sound:
  "find_window fs ss k = Some (start, i, d) \<Longrightarrow> k \<le> start \<and> start + length ss \<le> length fs \<and> window_shift (drop start fs) ss None None = Some (i, d)"
proof (induction fs ss k rule: find_window.induct)
  case (1 fs ss k)
  from 1(2) have le: "k + length ss \<le> length fs" by (subst (asm) find_window.simps) (auto split: if_splits)
  show ?case
  proof (cases "window_shift (drop k fs) ss None None")
    case None
    then have "find_window fs ss (k + 1) = Some (start, i, d)" using 1(2) le by (subst (asm) find_window.simps) simp
    from 1(1) [OF le None this] show ?thesis by simp
  next
    case (Some x)
    then show ?thesis using 1(2) le by (subst (asm) find_window.simps) (cases x, simp)
  qed
qed

text \<open>A fuzzy match as a run of lines.\<close>

lemma match_fuzzy_lines:
  assumes "find_window (text_lines code) (text_lines search) 0 = Some (start, i, d)"
  obtains p s q where "text_lines code = p @ s @ q" "start = length p" "length s = length (text_lines search)" "s \<noteq> []"
    "match_fuzzy code search replace = Some (length (ended p), length (join_lines s), join_lines (map (shift_line i d) (text_lines replace)))"
    "window_shift (s @ q) (text_lines search) None None = Some (i, d)"
proof -
  let ?fs = "text_lines code" and ?h = "length (text_lines search)"
  note w = find_window_sound [OF assms]
  let ?p = "take start ?fs" and ?s = "take ?h (drop start ?fs)" and ?q = "drop ?h (drop start ?fs)"
  have "?fs = ?p @ ?s @ ?q" by (metis append_take_drop_id)
  moreover have "length ?s = ?h" using w by (simp add: min_def) linarith
  moreover from this have "?s \<noteq> []" by (metis length_0_conv text_lines_ne)
  ultimately show thesis
    using w assms by (intro that [of ?p ?s ?q]) (simp_all add: match_fuzzy_def line_offset_ended Let_def del: drop_drop)
qed

text \<open>
  a match lies inside the text. Where the search occurs literally it is the first occurrence,
  to be replaced as given; otherwise it is a run of whole lines that agree with the search up to
  trailing white space and one uniform indentation or dedentation, which the replacement follows.
\<close>

theorem match_diff_block_sound:
  assumes m: "match_diff_block code search replace = Some (i, n, r)"
  shows "i + n \<le> length code \<and> search \<noteq> [] \<and>
    (if \<exists>k \<le> length code. starts_with (drop k code) search
     then take n (drop i code) = search \<and> r = replace \<and> (\<forall>k < i. \<not> starts_with (drop k code) search)
     else \<exists>p s q indent dedent. text_lines code = p @ s @ q \<and> i = length (ended p) \<and> take n (drop i code) = join_lines s \<and>
       list_all2 (lines_agree indent dedent) s (text_lines search) \<and> (indent = None \<or> dedent = None) \<and> white indent \<and> white dedent \<and>
       r = join_lines (map (shift_line indent dedent) (text_lines replace)))"
proof (cases "text_index search code")
  case (Some j)
  note t = text_index_Some [OF Some]
  have "i = j" "n = length search" "r = replace" "search \<noteq> []" using m Some by (auto simp: match_diff_block_def split: if_splits)
  moreover have "\<exists>k \<le> length code. starts_with (drop k code) search" using t by (intro exI [of _ j]) (simp add: starts_with_def)
  ultimately show ?thesis using t by simp
next
  case None
  have ne: "search \<noteq> []" and f: "match_fuzzy code search replace = Some (i, n, r)" using m None by (auto simp: match_diff_block_def split: if_splits)
  then obtain start ind ded where w: "find_window (text_lines code) (text_lines search) 0 = Some (start, ind, ded)"
    by (auto simp: match_fuzzy_def Let_def split: option.splits)
  obtain p s q where l: "text_lines code = p @ s @ q" "length s = length (text_lines search)" "s \<noteq> []"
    "match_fuzzy code search replace = Some (length (ended p), length (join_lines s), join_lines (map (shift_line ind ded) (text_lines replace)))"
    "window_shift (s @ q) (text_lines search) None None = Some (ind, ded)"
    by (rule match_fuzzy_lines [OF w, of replace]) blast
  have agree: "list_all2 (lines_agree ind ded) s (text_lines search) \<and> (ind = None \<or> ded = None) \<and> white ind \<and> white ded"
    using window_shift_sound [OF l(5)] l(2) by (simp add: white_def)
  have code: "code = ended p @ join_lines s @ tailed q" using join_lines_parts [OF l(3), of p q] l(1) by (metis join_text_lines)
  have no: "\<not> (\<exists>k \<le> length code. starts_with (drop k code) search)" using text_index_None [OF None] by blast
  have eq: "i = length (ended p)" "n = length (join_lines s)" "r = join_lines (map (shift_line ind ded) (text_lines replace))"
    using f l(4) by simp_all
  have "i + n \<le> length code" "take n (drop i code) = join_lines s" unfolding eq by (simp_all add: code)
  with ne no agree l(1) eq show ?thesis by auto
qed

theorem match_diff_block_sound_witness:
  "\<exists>i n r. match_diff_block (''  f(x)'' @ CHR 0x0A # ''  g(y)'') (''f(x)'' @ CHR 0x0A # ''g(y)'') ''h(z)'' = Some (i, n, r) \<and> r = ''  h(z)'' \<and>
    i + n \<le> length (''  f(x)'' @ CHR 0x0A # ''  g(y)'')"
proof -
  have "match_diff_block (''  f(x)'' @ CHR 0x0A # ''  g(y)'') (''f(x)'' @ CHR 0x0A # ''g(y)'') ''h(z)'' = Some (0, 13, ''  h(z)'')" by code_simp
  with match_diff_block_sound [OF this] show ?thesis by blast
qed

section \<open>The editor's application\<close>

lemma expand_plain: "CHR ''$'' \<notin> set t \<Longrightarrow> expand_template b f a t = t"
  by (induction b f a t rule: expand_template.induct) auto

lemma apply_one_match:
  assumes "db_search b \<noteq> []" and "CHR ''$'' \<notin> set (db_replace b)"
  shows "apply_one code b = map_option (splice_text code) (match_diff_block code (db_search b) (db_replace b))"
proof (cases "text_index (db_search b) code")
  case (Some i)
  with assms show ?thesis by (simp add: apply_one_def js_replace_def match_diff_block_def splice_text_def expand_plain)
next
  case none: None
  show ?thesis
  proof (cases "find_window (text_lines code) (text_lines (db_search b)) 0")
    case None
    with none assms show ?thesis by (simp add: apply_one_def match_diff_block_def apply_fuzzy_diff_def match_fuzzy_def)
  next
    case (Some x)
    obtain start i d where x: "x = (start, i, d)" by (cases x)
    obtain p s q where l: "text_lines code = p @ s @ q" "start = length p" "length s = length (text_lines (db_search b))" "s \<noteq> []"
      "match_fuzzy code (db_search b) (db_replace b) = Some (length (ended p), length (join_lines s), join_lines (map (shift_line i d) (text_lines (db_replace b))))"
      by (rule match_fuzzy_lines [OF Some [unfolded x], of "db_replace b"]) blast
    have code: "code = join_lines (p @ s @ q)" using l(1) by (metis join_text_lines)
    have ne: "map (shift_line i d) (text_lines (db_replace b)) \<noteq> []" by simp
    have "drop (start + length (text_lines (db_search b))) (text_lines code) = q" "take start (text_lines code) = p" using l(1-3) by simp_all
    then have "apply_one code b = Some (join_lines (p @ map (shift_line i d) (text_lines (db_replace b)) @ q))"
      using none Some by (simp add: apply_one_def apply_fuzzy_diff_def x Let_def)
    moreover have "splice_text code (length (ended p), length (join_lines s), join_lines (map (shift_line i d) (text_lines (db_replace b)))) =
        join_lines (p @ map (shift_line i d) (text_lines (db_replace b)) @ q)"
      unfolding code by (rule splice_lines [OF l(4) ne])
    ultimately show ?thesis using none assms(1) l(5) by (simp add: match_diff_block_def)
  qed
qed

text \<open>
  C26: the server's matching and the editor's application of a list of edits (the loop of
  \<^verbatim>\<open>applyDiffs\<close>, before its pass over stray markers) agree, in the text,
  in how many edits apply and in what is reported for the others, as long as no search is empty
  and no replacement has a dollar sign.
\<close>

theorem editor_and_server_agree:
  assumes "\<forall>b \<in> set bs. db_search b \<noteq> [] \<and> CHR ''$'' \<notin> set (db_replace b)"
  shows "apply_loop code bs = (case match_blocks code bs of (m, f, w) \<Rightarrow> (w, length m, f))"
  using assms
proof (induction bs arbitrary: code)
  case (Cons b bs)
  have one: "apply_one code b = map_option (splice_text code) (match_diff_block code (db_search b) (db_replace b))"
    using Cons.prems by (intro apply_one_match) simp_all
  show ?case using Cons by (cases "match_diff_block code (db_search b) (db_replace b)") (auto simp: one split: prod.splits)
qed simp

theorem editor_and_server_agree_witness:
  "apply_loop ''abc'' [\<lparr>db_search = ''b'', db_replace = ''x''\<rparr>, \<lparr>db_search = ''q'', db_replace = ''y''\<rparr>] = (''axc'', 1, [''q''])"
proof -
  have "match_blocks ''abc'' [\<lparr>db_search = ''b'', db_replace = ''x''\<rparr>, \<lparr>db_search = ''q'', db_replace = ''y''\<rparr>] =
      ([\<lparr>db_search = ''b'', db_replace = ''x''\<rparr>], [''q''], ''axc'')" by code_simp
  with editor_and_server_agree [of "[\<lparr>db_search = ''b'', db_replace = ''x''\<rparr>, \<lparr>db_search = ''q'', db_replace = ''y''\<rparr>]" "''abc''"] show ?thesis by simp
qed

text \<open>A dollar sign before a quote makes the editor insert the rest of the file.\<close>

lemma dollar_in_replacement:
  "apply_one ''a = 1; b = 2'' \<lparr>db_search = ''1'', db_replace = CHR 0x27 # CHR ''$'' # [CHR 0x27]\<rparr> = Some (''a = '' @ CHR 0x27 # ''; b = 2; b = 2'')"
  "match_diff_block ''a = 1; b = 2'' ''1'' (CHR 0x27 # CHR ''$'' # [CHR 0x27]) = Some (4, 1, CHR 0x27 # CHR ''$'' # [CHR 0x27])"
  by code_simp+

end
