(* ===== verification/Doc_Live.thy ===== *)
theory Doc_Live
  imports Text_Diff Chat_Sessions
begin

text \<open>
  Live documents, \<^verbatim>\<open>server/workspace/src/doc\<close>: the durable state of a shared document as a snapshot
  and an ordered log of updates (\<^verbatim>\<open>persistence.ts\<close>), the replicas of this process (\<^verbatim>\<open>registry.ts\<close>), their
  materialization to the file (\<^verbatim>\<open>quiesce.ts\<close>), and the reconciliation of a whole-file write with a live
  document (\<^verbatim>\<open>reconcile.ts\<close>). The document type is the \<^verbatim>\<open>yjs\<close> package's: an argument. Its updates are
  byte strings, stored as such where the source stores their base64 text; times are milliseconds
  where the source stores the ISO rendering.
\<close>

section \<open>Data\<close>

text \<open>What the code uses of \<^verbatim>\<open>Y.Doc\<close> and its text \<^verbatim>\<open>content\<close>: the empty document, the text, deleting and
  inserting at a position, the state as an update, the update from an earlier state, and applying
  an update.\<close>

record 'd ydoc =
  yd_new :: 'd
  yd_text :: "'d \<Rightarrow> string"
  yd_delete :: "nat \<Rightarrow> nat \<Rightarrow> 'd \<Rightarrow> 'd"
  yd_insert :: "nat \<Rightarrow> string \<Rightarrow> 'd \<Rightarrow> 'd"
  yd_encode :: "'d \<Rightarrow> string"
  yd_since :: "'d \<Rightarrow> 'd \<Rightarrow> string"
  yd_apply :: "string \<Rightarrow> 'd \<Rightarrow> 'd"

record doc_snapshot =
  ds_data :: string
  ds_updated :: int
  ds_file :: "string option"

record doc_update =
  du_data :: string
  du_created :: int

record 'd live_doc =
  lv_doc :: 'd
  lv_participants :: "string list"

record ('f, 'd) doc_world =
  dw_chat :: "'f chat_world"
  dw_snaps :: "doc_snapshot db"
  dw_log :: "doc_update db"
  dw_live :: "(string \<times> 'd live_doc) list"

definition DOC_COMPACT_SIZE_BYTES :: nat where
  "DOC_COMPACT_SIZE_BYTES = 256 * 1024"

definition DOC_COMPACT_AGE_MS :: int where
  "DOC_COMPACT_AGE_MS = 24 * 60 * 60 * 1000"

definition DOC_SNAPSHOT_SCOPE :: string where
  "DOC_SNAPSHOT_SCOPE = svc_scope ''doc'' [''snapshot'']"

definition doc_key :: "string \<Rightarrow> string \<Rightarrow> string" where
  "doc_key ws path = ws @ CHR 0x00 # path"

definition parse_doc_key :: "string \<Rightarrow> svc_error + string \<times> string" where
  "parse_doc_key key =
     (case index_of (CHR 0x00) key of
        None \<Rightarrow> Inl (PlainError (''invalid doc key: '' @ key))
      | Some i \<Rightarrow> Inr (take i key, drop (Suc i) key))"

definition updates_scope :: "string \<Rightarrow> string" where
  "updates_scope key = svc_scope ''doc'' [''updates'', key]"

definition on_chat :: "('f chat_world, 'a) prog \<Rightarrow> (('f, 'd) doc_world, 'a) prog" where
  "on_chat = zoom dw_chat (\<lambda>c w. w\<lparr>dw_chat := c\<rparr>)"

definition on_doc_snaps :: "(doc_snapshot db, 'a) prog \<Rightarrow> (('f, 'd) doc_world, 'a) prog" where
  "on_doc_snaps = zoom dw_snaps (\<lambda>d w. w\<lparr>dw_snaps := d\<rparr>)"

definition on_doc_log :: "(doc_update db, 'a) prog \<Rightarrow> (('f, 'd) doc_world, 'a) prog" where
  "on_doc_log = zoom dw_log (\<lambda>d w. w\<lparr>dw_log := d\<rparr>)"

definition doc_now :: "('f, 'd) doc_world \<Rightarrow> int" where
  "doc_now w = chat_now (dw_chat w)"

definition doc_files :: "('f, 'd) doc_world \<Rightarrow> 'f" where
  "doc_files w = gw_files (hw_vcs (dw_chat w))"

definition current_file :: "'f vcs_env \<Rightarrow> string \<Rightarrow> string \<Rightarrow> (('f, 'd) doc_world, fs_file option) prog" where
  "current_file env ws path = on_chat (read_file env ws path None)"

section \<open>Durable state\<close>

definition write_doc_snapshot ::
  "'d ydoc \<Rightarrow> string \<Rightarrow> string \<Rightarrow> 'd \<Rightarrow> string option \<Rightarrow> (('f, 'd) doc_world, unit) prog" where
  "write_doc_snapshot yd ws key doc fileHash w =
     on_doc_snaps (write_svc_record (doc_now w) ws DOC_SNAPSHOT_SCOPE key
       \<lparr>ds_data = yd_encode yd doc, ds_updated = doc_now w, ds_file = fileHash\<rparr> SVC_SYSTEM_USER) w"

definition read_doc_snapshot :: "string \<Rightarrow> string \<Rightarrow> (('f, 'd) doc_world, doc_snapshot option) prog" where
  "read_doc_snapshot ws key w = (read_svc_record (doc_now w) (dw_snaps w) ws DOC_SNAPSHOT_SCOPE key, w)"

definition list_log :: "string \<Rightarrow> string \<Rightarrow> (('f, 'd) doc_world, (string \<times> doc_update) list) prog" where
  "list_log ws key w = (list_svc_records (doc_now w) (dw_log w) ws (updates_scope key) [], w)"

definition log_keys :: "string \<Rightarrow> string \<Rightarrow> (('f, 'd) doc_world, string list) prog" where
  "log_keys ws key = gets (\<lambda>w. list_svc_keys (doc_now w) (dw_log w) ws (updates_scope key) [])"

definition delete_log_entries :: "string \<Rightarrow> string \<Rightarrow> string list \<Rightarrow> (('f, 'd) doc_world, unit) prog" where
  "delete_log_entries ws key ks =
     iterM ks (\<lambda>k. bindM (on_doc_log (delete_svc_record ws (updates_scope key) k)) (\<lambda>_. ret ()))"

definition clear_update_log :: "string \<Rightarrow> string \<Rightarrow> (('f, 'd) doc_world, unit) prog" where
  "clear_update_log ws key = bindM (log_keys ws key) (\<lambda>ks. delete_log_entries ws key ks)"

definition init_from_file :: "'f vcs_env \<Rightarrow> 'd ydoc \<Rightarrow> string \<Rightarrow> string \<Rightarrow> string \<Rightarrow> (('f, 'd) doc_world, 'd) prog" where
  "init_from_file env yd ws path key =
     bindM (current_file env ws path) (\<lambda>file.
     let doc = (case file of
           Some f \<Rightarrow> if ff_content f \<noteq> [] then yd_insert yd 0 (ff_content f) (yd_new yd) else yd_new yd
         | None \<Rightarrow> yd_new yd)
     in thenM (write_doc_snapshot yd ws key doc (map_option fe_hash file))
          (thenM (clear_update_log ws key) (ret doc)))"

definition replay_log :: "'d ydoc \<Rightarrow> doc_update list \<Rightarrow> 'd \<Rightarrow> 'd" where
  "replay_log yd us d = foldl (\<lambda>d u. yd_apply yd (du_data u) d) d us"

definition load_durable :: "'f vcs_env \<Rightarrow> 'd ydoc \<Rightarrow> string \<Rightarrow> string \<Rightarrow> (('f, 'd) doc_world, 'd) prog" where
  "load_durable env yd ws path =
     (let key = doc_key ws path
      in bindM (current_file env ws path) (\<lambda>file.
         bindM (read_doc_snapshot ws key) (\<lambda>snapshot. case snapshot of
           None \<Rightarrow> init_from_file env yd ws path key
         | Some s \<Rightarrow>
             if map_option fe_hash file \<noteq> ds_file s then init_from_file env yd ws path key
             else bindM (list_log ws key) (\<lambda>es. ret (replay_log yd (map snd es) (yd_apply yd (ds_data s) (yd_new yd)))))))"

definition next_seq :: "string list \<Rightarrow> int" where
  "next_seq ks = foldl (\<lambda>n k. case parse_seq_key k of Some (q, i) \<Rightarrow> if q \<ge> n then q + 1 else n | None \<Rightarrow> n) 0 ks"

fun append_log ::
  "(nat \<Rightarrow> string) \<Rightarrow> string \<Rightarrow> string \<Rightarrow> int \<Rightarrow> int \<Rightarrow> string list \<Rightarrow> (('f, 'd) doc_world, unit) prog" where
  "append_log uuid ws scope now n [] = ret ()"
| "append_log uuid ws scope now n (b # bs) =
     bindM (on_chat (mint_id uuid)) (\<lambda>i.
     thenM (\<lambda>w. on_doc_log (write_svc_record (doc_now w) ws scope (seq_key (nat n) i) \<lparr>du_data = b, du_created = now\<rparr> SVC_SYSTEM_USER) w)
       (append_log uuid ws scope now (n + 1) bs))"

definition append_update :: "(nat \<Rightarrow> string) \<Rightarrow> string \<Rightarrow> string \<Rightarrow> string list \<Rightarrow> (('f, 'd) doc_world, unit) prog" where
  "append_update uuid ws path batch =
     (let key = doc_key ws path
      in bindM (log_keys ws key) (\<lambda>ks.
         bindM (gets doc_now) (\<lambda>now. append_log uuid ws (updates_scope key) now (next_seq ks) batch)))"

text \<open>The size bound is an argument: flushing calls it with zero.\<close>

definition compact_if_due :: "'f vcs_env \<Rightarrow> 'd ydoc \<Rightarrow> nat \<Rightarrow> int \<Rightarrow> string \<Rightarrow> string \<Rightarrow> (('f, 'd) doc_world, unit) prog" where
  "compact_if_due env yd maxBytes maxAge ws path =
     (let key = doc_key ws path
      in bindM (list_log ws key) (\<lambda>entries.
         if entries = [] then ret ()
         else bindM (gets doc_now) (\<lambda>now.
           let totalBytes = sum_list (map (\<lambda>e. length (du_data (snd e))) entries);
               oldest = Min ((\<lambda>e. du_created (snd e)) ` set entries)
           in if \<not> (totalBytes \<ge> maxBytes) \<and> \<not> (now - oldest \<ge> maxAge) then ret ()
              else bindM (read_doc_snapshot ws key) (\<lambda>snapshot.
                let doc = replay_log yd (map snd entries) (case snapshot of Some s \<Rightarrow> yd_apply yd (ds_data s) (yd_new yd) | None \<Rightarrow> yd_new yd)
                in bindM (current_file env ws path) (\<lambda>file.
                   thenM (write_doc_snapshot yd ws key doc
                       (case file of Some f \<Rightarrow> Some (fe_hash f) | None \<Rightarrow> Option.bind snapshot ds_file))
                     (delete_log_entries ws key (map fst entries)))))))"

section \<open>Replicas\<close>

definition materialize :: "'f vcs_env \<Rightarrow> 'd ydoc \<Rightarrow> string \<Rightarrow> string \<Rightarrow> 'd \<Rightarrow> (('f, 'd) doc_world, unit) prog" where
  "materialize env yd ws path doc = bindM (on_chat (write_file env ws path (yd_text yd doc) ''text/plain'')) (\<lambda>_. ret ())"

definition flush_durable :: "'f vcs_env \<Rightarrow> 'd ydoc \<Rightarrow> (nat \<Rightarrow> string) \<Rightarrow> string \<Rightarrow> string \<Rightarrow> 'd \<Rightarrow> (('f, 'd) doc_world, unit) prog" where
  "flush_durable env yd uuid ws path doc =
     thenM (append_update uuid ws path [yd_encode yd doc]) (compact_if_due env yd 0 DOC_COMPACT_AGE_MS ws path)"

definition materialize_and_flush :: "'f vcs_env \<Rightarrow> 'd ydoc \<Rightarrow> (nat \<Rightarrow> string) \<Rightarrow> string \<Rightarrow> string \<Rightarrow> 'd \<Rightarrow> (('f, 'd) doc_world, unit) prog" where
  "materialize_and_flush env yd uuid ws path doc =
     thenM (materialize env yd ws path doc) (flush_durable env yd uuid ws path doc)"

definition has_live_doc :: "('f, 'd) doc_world \<Rightarrow> string \<Rightarrow> string \<Rightarrow> bool" where
  "has_live_doc w ws path \<longleftrightarrow> mget (dw_live w) (doc_key ws path) \<noteq> None"

text \<open>A load that is not interrupted; joins that wait for a load in flight share its result.\<close>

definition get_or_load_doc :: "'f vcs_env \<Rightarrow> 'd ydoc \<Rightarrow> string \<Rightarrow> string \<Rightarrow> (('f, 'd) doc_world, 'd live_doc) prog" where
  "get_or_load_doc env yd ws path =
     (let key = doc_key ws path
      in bindM (gets (\<lambda>w. mget (dw_live w) key)) (\<lambda>existing. case existing of
           Some l \<Rightarrow> ret l
         | None \<Rightarrow>
             bindM (load_durable env yd ws path) (\<lambda>doc.
             let live = \<lparr>lv_doc = doc, lv_participants = []\<rparr>
             in thenM (modifyM (\<lambda>w. w\<lparr>dw_live := mset_at key live (dw_live w)\<rparr>)) (ret live))))"

definition set_live_doc :: "string \<Rightarrow> 'd live_doc \<Rightarrow> (('f, 'd) doc_world, unit) prog" where
  "set_live_doc key live = modifyM (\<lambda>w. w\<lparr>dw_live := mset_at key live (dw_live w)\<rparr>)"

definition release_doc :: "'f vcs_env \<Rightarrow> 'd ydoc \<Rightarrow> (nat \<Rightarrow> string) \<Rightarrow> string \<Rightarrow> (('f, 'd) doc_world, unit) prog" where
  "release_doc env yd uuid key =
     bindM (gets (\<lambda>w. mget (dw_live w) key)) (\<lambda>existing. case existing of
       None \<Rightarrow> ret ()
     | Some l \<Rightarrow>
         bindM (liftE (parse_doc_key key)) (\<lambda>(ws, path).
         thenM (catchM (materialize_and_flush env yd uuid ws path (lv_doc l)) (\<lambda>_. ret ()))
           (modifyM (\<lambda>w. w\<lparr>dw_live := mdel key (dw_live w)\<rparr>))))"

section \<open>Reconciling a write\<close>

record reconcile_args =
  ra_path :: string
  ra_content :: string
  ra_base :: "string option"
  ra_user :: string
  ra_session :: "string option"

datatype reconcile_result =
    NotLive
  | Applied nat
  | Conflicted string nat "string list"

definition resolve_conflict_session ::
  "'f vcs_env \<Rightarrow> (nat \<Rightarrow> string) \<Rightarrow> string \<Rightarrow> string \<Rightarrow> string option \<Rightarrow> ('f chat_world, chat_session) prog" where
  "resolve_conflict_session env uuid ws user explicit =
     (if truthy explicit
      then bindM (require_session ws (the explicit)) (\<lambda>s.
        if ch_mode s = AutoMode then update_session ws (ch_id s) None (Some StagedMode) JUndefined else ret s)
      else create_session env uuid ws user None (Some StagedMode))"

text \<open>One matched block on the shared text: matched again on the current text, then a deletion and
  an insertion.\<close>

definition apply_block :: "'d ydoc \<Rightarrow> diff_block \<Rightarrow> 'd \<Rightarrow> 'd" where
  "apply_block yd b d =
     (case match_diff_block (yd_text yd d) (db_search b) (db_replace b) of
        None \<Rightarrow> d
      | Some (i, n, r) \<Rightarrow>
          (let d' = (if n > 0 then yd_delete yd i n d else d)
           in if r \<noteq> [] then yd_insert yd i r d' else d'))"

definition transact_blocks :: "'d ydoc \<Rightarrow> diff_block list \<Rightarrow> 'd \<Rightarrow> 'd" where
  "transact_blocks yd bs d = foldl (\<lambda>d b. apply_block yd b d) d bs"

definition apply_matched :: "'d ydoc \<Rightarrow> (nat \<Rightarrow> string) \<Rightarrow> string \<Rightarrow> string \<Rightarrow> 'd live_doc \<Rightarrow> diff_block list \<Rightarrow> (('f, 'd) doc_world, unit) prog" where
  "apply_matched yd uuid ws path live matched =
     (if matched = [] then ret ()
      else (let before = lv_doc live; doc = transact_blocks yd matched before; update = yd_since yd before doc
            in thenM (set_live_doc (doc_key ws path) (live\<lparr>lv_doc := doc\<rparr>))
                 (if length update > 2 then append_update uuid ws path [update] else ret ())))"

definition reconcile_live ::
  "'f vcs_env \<Rightarrow> 'd ydoc \<Rightarrow> (nat \<Rightarrow> string) \<Rightarrow> string \<Rightarrow> reconcile_args \<Rightarrow> string \<Rightarrow> (('f, 'd) doc_world, reconcile_result) prog" where
  "reconcile_live env yd uuid ws args base =
     bindM (get_or_load_doc env yd ws (ra_path args)) (\<lambda>live.
     case match_blocks (yd_text yd (lv_doc live)) (derive_diff_blocks base (ra_content args)) of (matched, failed, working) \<Rightarrow>
       thenM (apply_matched yd uuid ws (ra_path args) live matched)
         (if failed = [] then ret (Applied (length matched))
          else on_chat
            (bindM (resolve_conflict_session env uuid ws (ra_user args) (ra_session args)) (\<lambda>s.
             bindM (session_write env ws s (ra_path args) (ra_content args) None) (\<lambda>_.
             bindM (read_session ws (ch_id s)) (\<lambda>r.
             ret (Conflicted (ch_id (case r of Some s' \<Rightarrow> s' | None \<Rightarrow> s)) (length matched) failed)))))))"

definition reconcile_or_pass_through ::
  "'f vcs_env \<Rightarrow> 'd ydoc \<Rightarrow> (nat \<Rightarrow> string) \<Rightarrow> string \<Rightarrow> reconcile_args \<Rightarrow> (('f, 'd) doc_world, reconcile_result) prog" where
  "reconcile_or_pass_through env yd uuid ws args =
     bindM (gets (\<lambda>w. has_live_doc w ws (ra_path args))) (\<lambda>there.
     if \<not> there then ret NotLive
     else bindM (case ra_base args of
            Some b \<Rightarrow> ret b
          | None \<Rightarrow> bindM (current_file env ws (ra_path args)) (\<lambda>f. ret (case f of Some x \<Rightarrow> ff_content x | None \<Rightarrow> [])))
        (\<lambda>base. reconcile_live env yd uuid ws args base))"

end
