(* ===== verification/Doc_Laws.thy ===== *)
theory Doc_Laws
  imports Doc_Live Diff_Properties Chat_Properties Store_Properties
begin

text \<open>
  The documents of a scope as a sorted list, to which a write under a later key appends; the log of
  a live document as such a list; and what is asked of the document type.
\<close>

section \<open>A scope as a sorted list\<close>

lemma sorted_graph_unique:
  fixes xs ys :: "('k::linorder \<times> 'v) list"
  assumes "sorted (map fst xs)" "distinct (map fst xs)" "sorted (map fst ys)" "distinct (map fst ys)" "set xs = set ys"
  shows "xs = ys"
proof -
  have graph: "zs = map (\<lambda>k. (k, the (map_of zs k))) (map fst zs)" if "distinct (map fst zs)" for zs :: "('k \<times> 'v) list"
    unfolding map_map by (rule map_idI [symmetric]) (use that in \<open>auto simp: comp_def\<close>)
  have keys: "map fst xs = map fst ys"
    using assms by (intro sorted_distinct_set_unique) (simp_all add: set_map)
  have "map_of xs = map_of ys" using assms by (metis map_of_inject_set)
  with keys graph [OF assms(2)] graph [OF assms(4)] show ?thesis by metis
qed

definition docs_of :: "'v db \<Rightarrow> string \<Rightarrow> string \<Rightarrow> (string \<times> 'v) list" where
  "docs_of db ws scope = (case list_svc_records 0 db ws scope [] of Inr ds \<Rightarrow> ds | Inl e \<Rightarrow> [])"

lemma list_docs_graph:
  assumes "doc_ok db"
  shows "\<exists>ds. list_svc_records now db ws scope [] = Inr ds \<and> sorted (map fst ds) \<and> distinct (map fst ds) \<and>
    list_svc_keys now db ws scope [] = map fst ds \<and> (\<forall>k v. (k, v) \<in> set ds \<longleftrightarrow> doc_at db ws scope k = Some v)"
proof -
  obtain ds where ds: "list_svc_records now db ws scope [] = Inr ds"
    "\<And>k v. (k, v) \<in> set ds \<longleftrightarrow> doc_at db ws scope k = Some v" "distinct (map fst ds)"
    by (rule list_docs_mem [OF assms]) blast
  have f: "map fst ds = filter (\<lambda>k. read_svc_record now db ws scope k \<noteq> Inr None) (rs_list now db ws scope [])"
    using collect_docs_keys [OF doc_ok_inv [OF assms]] ds(1) by (simp add: list_svc_records_def)
  have live: "read_svc_record now db ws scope k \<noteq> Inr None" if "k \<in> set (rs_list now db ws scope [])" for k
    using that rs.keys_mem [OF doc_ok_inv [OF assms], of k now ws scope] by (auto simp: list_docs_def read_svc_record_def)
  have keys: "map fst ds = rs_list now db ws scope []" unfolding f using live by (simp add: filter_id_conv)
  moreover have "sorted (rs_list now db ws scope [])" by (simp add: rs_list_scan scan_keys_def)
  ultimately show ?thesis using ds by (simp add: list_svc_keys_def)
qed

lemma docs_of_graph:
  assumes "doc_ok db"
  shows "list_svc_records now db ws scope [] = Inr (docs_of db ws scope)" "list_svc_keys now db ws scope [] = map fst (docs_of db ws scope)"
    "sorted (map fst (docs_of db ws scope))" "distinct (map fst (docs_of db ws scope))"
    "(k, v) \<in> set (docs_of db ws scope) \<longleftrightarrow> doc_at db ws scope k = Some v"
proof -
  obtain ds where ds: "list_svc_records now db ws scope [] = Inr ds" "sorted (map fst ds)" "distinct (map fst ds)"
    "list_svc_keys now db ws scope [] = map fst ds" "\<And>k v. (k, v) \<in> set ds \<longleftrightarrow> doc_at db ws scope k = Some v"
    using list_docs_graph [OF assms] by blast
  obtain es where es: "list_svc_records 0 db ws scope [] = Inr es" "sorted (map fst es)" "distinct (map fst es)"
    "\<And>k v. (k, v) \<in> set es \<longleftrightarrow> doc_at db ws scope k = Some v"
    using list_docs_graph [OF assms] by blast
  have "ds = es" by (rule sorted_graph_unique) (use ds es in auto)
  with ds es show "list_svc_records now db ws scope [] = Inr (docs_of db ws scope)" "list_svc_keys now db ws scope [] = map fst (docs_of db ws scope)"
    "sorted (map fst (docs_of db ws scope))" "distinct (map fst (docs_of db ws scope))"
    "(k, v) \<in> set (docs_of db ws scope) \<longleftrightarrow> doc_at db ws scope k = Some v"
    by (simp_all add: docs_of_def)
qed

lemma docs_of_unique:
  assumes "doc_ok db" and "sorted (map fst xs)" "distinct (map fst xs)" and "\<And>k v. (k, v) \<in> set xs \<longleftrightarrow> doc_at db ws scope k = Some v"
  shows "docs_of db ws scope = xs"
  by (rule sorted_graph_unique) (use assms docs_of_graph [OF assms(1), where ws = ws and scope = scope] in auto)

text \<open>A write under a key after all others appends.\<close>

lemma docs_of_append:
  assumes ok: "doc_ok db" "doc_ok db'" and later: "\<forall>k' \<in> fst ` set (docs_of db ws scope). k' < k"
    and upd: "\<And>k'. doc_at db' ws scope k' = (if k' = k then Some v else doc_at db ws scope k')"
  shows "docs_of db' ws scope = docs_of db ws scope @ [(k, v)]"
proof (rule docs_of_unique [OF ok(2)])
  note g = docs_of_graph [OF ok(1), where ws = ws and scope = scope]
  have new: "k \<notin> fst ` set (docs_of db ws scope)" using later by blast
  show "sorted (map fst (docs_of db ws scope @ [(k, v)]))" using g(3) later by (auto simp: sorted_append)
  show "distinct (map fst (docs_of db ws scope @ [(k, v)]))" using g(4) new by simp
  show "(k', v') \<in> set (docs_of db ws scope @ [(k, v)]) \<longleftrightarrow> doc_at db' ws scope k' = Some v'" for k' v'
  proof (cases "k' = k")
    case True
    have "(k, v') \<notin> set (docs_of db ws scope)" using new by force
    with True show ?thesis unfolding upd by auto
  next
    case False
    then show ?thesis unfolding upd by (simp add: g(5))
  qed
qed

lemma docs_of_other:
  assumes "doc_ok db" "doc_ok db'" and "\<And>k. doc_at db' ws scope k = doc_at db ws scope k"
  shows "docs_of db' ws scope = docs_of db ws scope"
  by (rule docs_of_unique [OF assms(2) docs_of_graph(3,4) [OF assms(1)]]) (simp add: docs_of_graph(5) [OF assms(1)] assms(3))

section \<open>Sequence keys\<close>

text \<open>All keys have a sequence number below the bound.\<close>

definition seq_keys :: "nat \<Rightarrow> string list \<Rightarrow> bool" where
  "seq_keys n ks \<longleftrightarrow> (\<forall>k \<in> set ks. \<exists>m i. k = seq_key m i \<and> m < n)"

lemma parse_seq: "n < 10 ^ 10 \<Longrightarrow> parse_seq_key (seq_key n i) = Some (int n, i)"
  using seq_key_roundtrip_order [of n n] by blast

lemma seq_key_less: "n < m \<Longrightarrow> m < 10 ^ 10 \<Longrightarrow> seq_key n i < seq_key m j"
  using seq_key_roundtrip_order [of n m i j] by (meson less_trans)

lemma next_seq_gen:
  assumes "N \<le> 10 ^ 10" and "seq_keys N ks" and "0 \<le> n" "n \<le> int N"
  shows "n \<le> foldl (\<lambda>n k. case parse_seq_key k of Some (q, i) \<Rightarrow> if q \<ge> n then q + 1 else n | None \<Rightarrow> n) n ks \<and>
    foldl (\<lambda>n k. case parse_seq_key k of Some (q, i) \<Rightarrow> if q \<ge> n then q + 1 else n | None \<Rightarrow> n) n ks \<le> int N \<and>
    (\<forall>m i. seq_key m i \<in> set ks \<and> m < N \<longrightarrow>
      int m < foldl (\<lambda>n k. case parse_seq_key k of Some (q, i) \<Rightarrow> if q \<ge> n then q + 1 else n | None \<Rightarrow> n) n ks)"
  using assms(2-)
proof (induction ks arbitrary: n)
  case (Cons k ks)
  obtain m i where k: "k = seq_key m i" "m < N" using Cons.prems(1) by (auto simp: seq_keys_def)
  have p: "parse_seq_key k = Some (int m, i)" using k assms(1) by (simp add: parse_seq)
  let ?n = "if int m \<ge> n then int m + 1 else n"
  have "seq_keys N ks" "0 \<le> ?n" "?n \<le> int N" using Cons.prems k by (auto simp: seq_keys_def)
  note ih = Cons.IH [OF this]
  have same: "m' = m" if "seq_key m' i' = k" "m' < N" for m' i'
  proof -
    have "parse_seq_key k = Some (int m', i')" using that assms(1) by (metis parse_seq order_less_le_trans)
    with p show ?thesis by simp
  qed
  show ?case using ih same unfolding foldl.simps p by (auto split: if_splits)
qed simp

lemma next_seq_later:
  assumes "seq_keys N ks" and "N < 10 ^ 10"
  shows "0 \<le> next_seq ks" "next_seq ks \<le> int N" "\<forall>k \<in> set ks. k < seq_key (nat (next_seq ks)) i" "seq_keys (Suc N) (ks @ [seq_key (nat (next_seq ks)) i])"
proof -
  note g = next_seq_gen [OF _ assms(1), of 0, folded next_seq_def] 
  have n: "0 \<le> next_seq ks" "next_seq ks \<le> int N" and m: "\<And>m i. seq_key m i \<in> set ks \<Longrightarrow> m < N \<Longrightarrow> int m < next_seq ks"
    using g assms(2) by auto
  show "0 \<le> next_seq ks" "next_seq ks \<le> int N" by (rule n)+
  show "\<forall>k \<in> set ks. k < seq_key (nat (next_seq ks)) i"
  proof
    fix k assume "k \<in> set ks"
    then obtain p j where k: "k = seq_key p j" "p < N" "seq_key p j \<in> set ks" using assms(1) by (auto simp: seq_keys_def)
    have "p < nat (next_seq ks)" using m [OF k(3,2)] by simp
    then show "k < seq_key (nat (next_seq ks)) i" unfolding k(1) by (rule seq_key_less) (use n assms(2) in linarith)
  qed
  show "seq_keys (Suc N) (ks @ [seq_key (nat (next_seq ks)) i])"
    using assms(1) n(2) unfolding seq_keys_def by (auto simp: less_Suc_eq) (metis less_Suc_eq_le nat_le_iff)
qed

section \<open>The durable state\<close>

text \<open>The log of a document has sequence keys below a bound that leaves room for more.\<close>

definition doc_world_ok :: "string \<Rightarrow> string \<Rightarrow> nat \<Rightarrow> ('f, 'd) doc_world \<Rightarrow> bool" where
  "doc_world_ok ws path N w \<longleftrightarrow> chat_ok ws (dw_chat w) \<and> doc_ok (dw_snaps w) \<and> doc_ok (dw_log w) \<and>
     addr_ok (dw_snaps w) (ws, DOC_SNAPSHOT_SCOPE, doc_key ws path) \<and> (\<forall>k. addr_ok (dw_log w) (ws, updates_scope (doc_key ws path), k)) \<and>
     (\<forall>v. storable (dw_snaps w) v) \<and> (\<forall>v. storable (dw_log w) v) \<and>
     seq_keys N (map fst (docs_of (dw_log w) ws (updates_scope (doc_key ws path)))) \<and> N < 10 ^ 10"

definition log_of :: "('f, 'd) doc_world \<Rightarrow> string \<Rightarrow> string \<Rightarrow> (string \<times> doc_update) list" where
  "log_of w ws path = docs_of (dw_log w) ws (updates_scope (doc_key ws path))"

definition snap_of :: "('f, 'd) doc_world \<Rightarrow> string \<Rightarrow> string \<Rightarrow> doc_snapshot option" where
  "snap_of w ws path = doc_at (dw_snaps w) ws DOC_SNAPSHOT_SCOPE (doc_key ws path)"

definition durable :: "'d ydoc \<Rightarrow> ('f, 'd) doc_world \<Rightarrow> string \<Rightarrow> string \<Rightarrow> 'd" where
  "durable yd w ws path = replay_log yd (map snd (log_of w ws path))
     (case snap_of w ws path of Some s \<Rightarrow> yd_apply yd (ds_data s) (yd_new yd) | None \<Rightarrow> yd_new yd)"

lemma doc_reads:
  assumes "doc_world_ok ws path N w"
  shows "read_doc_snapshot ws (doc_key ws path) w = (Inr (snap_of w ws path), w)"
    "list_log ws (doc_key ws path) w = (Inr (log_of w ws path), w)" "log_keys ws (doc_key ws path) w = (Inr (map fst (log_of w ws path)), w)"
  using assms docs_of_graph(1,2) [of "dw_log w" "doc_now w" ws "updates_scope (doc_key ws path)"]
  by (simp_all add: doc_world_ok_def read_doc_snapshot_def list_log_def log_keys_def read_doc snap_of_def log_of_def gets_def)

lemma write_doc_snapshot_run:
  assumes ok: "doc_world_ok ws path N w"
  obtains w' where "write_doc_snapshot yd ws (doc_key ws path) doc h w = (Inr (), w')" "doc_world_ok ws path N w'"
    "snap_of w' ws path = Some \<lparr>ds_data = yd_encode yd doc, ds_updated = doc_now w, ds_file = h\<rparr>"
    "log_of w' ws path = log_of w ws path" "dw_chat w' = dw_chat w" "dw_live w' = dw_live w"
proof -
  let ?v = "\<lparr>ds_data = yd_encode yd doc, ds_updated = doc_now w, ds_file = h\<rparr>"
  show thesis
  proof (rule write_doc_cases [of "dw_snaps w" ws DOC_SNAPSHOT_SCOPE "doc_key ws path" "doc_now w" ?v SVC_SYSTEM_USER])
    fix d
    assume d: "write_svc_record (doc_now w) ws DOC_SNAPSHOT_SCOPE (doc_key ws path) ?v SVC_SYSTEM_USER (dw_snaps w) = (Inr (), d)" "doc_ok d"
      "\<And>ws' s' k'. doc_at d ws' s' k' = (if ws' = ws \<and> s' = DOC_SNAPSHOT_SCOPE \<and> k' = doc_key ws path then Some ?v else doc_at (dw_snaps w) ws' s' k')"
      "addr_ok d = addr_ok (dw_snaps w)" "storable d = storable (dw_snaps w)"
    show thesis
      by (rule that [of "w\<lparr>dw_snaps := d\<rparr>"])
        (use ok d in \<open>simp_all add: write_doc_snapshot_def on_doc_snaps_def zoom_run doc_world_ok_def snap_of_def log_of_def\<close>)
  qed (use ok in \<open>simp_all add: doc_world_ok_def\<close>)
qed

lemma chat_ok_next: "chat_ok ws w \<Longrightarrow> chat_ok ws (w\<lparr>hw_next := n\<rparr>)"
  by (simp add: chat_ok_def)

text \<open>One update goes to the end of the log.\<close>

lemma append_update_run:
  assumes ok: "doc_world_ok ws path N w" and room: "Suc N < 10 ^ 10"
  obtains w' where "append_update uuid ws path [b] w = (Inr (), w')" "doc_world_ok ws path (Suc N) w'"
    "map snd (log_of w' ws path) = map snd (log_of w ws path) @ [\<lparr>du_data = b, du_created = doc_now w\<rparr>]"
    "snap_of w' ws path = snap_of w ws path" "hw_vcs (dw_chat w') = hw_vcs (dw_chat w)" "hw_sessions (dw_chat w') = hw_sessions (dw_chat w)"
    "dw_live w' = dw_live w"
proof -
  let ?sc = "updates_scope (doc_key ws path)" and ?i = "uuid (hw_next (dw_chat w))" and ?c = "(dw_chat w)\<lparr>hw_next := Suc (hw_next (dw_chat w))\<rparr>"
  let ?n = "next_seq (map fst (log_of w ws path))" and ?v = "\<lparr>du_data = b, du_created = doc_now w\<rparr>"
  have seq: "seq_keys N (map fst (log_of w ws path))" "N < 10 ^ 10" using ok by (simp_all add: doc_world_ok_def log_of_def)
  note later = next_seq_later(3,4) [OF seq, of ?i]
  have w: "doc_ok (dw_log w)" "addr_ok (dw_log w) (ws, ?sc, seq_key (nat ?n) ?i)" using ok by (simp_all add: doc_world_ok_def)
  have mint: "on_chat (mint_id uuid) w = (Inr ?i, w\<lparr>dw_chat := ?c\<rparr>)" by (simp add: on_chat_def zoom_run mint_id_def)
  have now: "doc_now (w\<lparr>dw_chat := ?c\<rparr>) = doc_now w" by (simp add: doc_now_def chat_now_def)
  show thesis
  proof (rule write_doc_cases [OF w, of "doc_now w" ?v SVC_SYSTEM_USER])
    fix d
    assume d: "write_svc_record (doc_now w) ws ?sc (seq_key (nat ?n) ?i) ?v SVC_SYSTEM_USER (dw_log w) = (Inr (), d)" "doc_ok d"
      "\<And>ws' s' k'. doc_at d ws' s' k' = (if ws' = ws \<and> s' = ?sc \<and> k' = seq_key (nat ?n) ?i then Some ?v else doc_at (dw_log w) ws' s' k')"
      "addr_ok d = addr_ok (dw_log w)" "storable d = storable (dw_log w)"
    have log: "docs_of d ws ?sc = log_of w ws path @ [(seq_key (nat ?n) ?i, ?v)]"
      unfolding log_of_def by (rule docs_of_append [OF w(1) d(2)]) (use later(1) d(3) in \<open>auto simp: log_of_def\<close>)
    show thesis
      by (rule that [of "w\<lparr>dw_chat := ?c, dw_log := d\<rparr>"])
        (use ok room d(1,2,4,5) log later(2) mint now in \<open>simp_all add: append_update_def doc_reads [OF ok] bindM_run thenM_run on_doc_log_def zoom_run
           doc_world_ok_def snap_of_def log_of_def chat_ok_next Let_def\<close>)
  qed (use ok in \<open>simp_all add: doc_world_ok_def\<close>)
qed

text \<open>Deleting all the keys of the log empties it.\<close>

lemma docs_of_empty: "doc_ok db \<Longrightarrow> (\<And>k. doc_at db ws scope k = None) \<Longrightarrow> docs_of db ws scope = []"
  by (rule docs_of_unique) simp_all

lemma delete_log_entries_run:
  assumes "doc_world_ok ws path N w"
  shows "\<exists>w'. delete_log_entries ws (doc_key ws path) ks w = (Inr (), w') \<and> doc_ok (dw_log w') \<and>
    addr_ok (dw_log w') = addr_ok (dw_log w) \<and> storable (dw_log w') = storable (dw_log w) \<and>
    (\<forall>k. doc_at (dw_log w') ws (updates_scope (doc_key ws path)) k =
      (if k \<in> set ks then None else doc_at (dw_log w) ws (updates_scope (doc_key ws path)) k)) \<and>
    w' = w\<lparr>dw_log := dw_log w'\<rparr>"
proof -
  let ?sc = "updates_scope (doc_key ws path)"
  have "doc_ok (dw_log w)" "\<forall>k. addr_ok (dw_log w) (ws, ?sc, k)" using assms by (simp_all add: doc_world_ok_def)
  then show ?thesis
  proof (induction ks arbitrary: w)
    case (Cons k ks)
    obtain r d where d: "delete_svc_record ws ?sc k (dw_log w) = (r, d)" by (cases "delete_svc_record ws ?sc k (dw_log w)")
    note del = delete_doc [OF Cons.prems(1) Cons.prems(2) [THEN spec] d]
    have step: "delete_log_entries ws (doc_key ws path) (k # ks) w = delete_log_entries ws (doc_key ws path) ks (w\<lparr>dw_log := d\<rparr>)"
      using d del(5) by (simp add: delete_log_entries_def bindM_run thenM_run on_doc_log_def zoom_run)
    obtain w' where w': "delete_log_entries ws (doc_key ws path) ks (w\<lparr>dw_log := d\<rparr>) = (Inr (), w')" "doc_ok (dw_log w')"
      "addr_ok (dw_log w') = addr_ok d" "storable (dw_log w') = storable d"
      "\<forall>j. doc_at (dw_log w') ws ?sc j = (if j \<in> set ks then None else doc_at d ws ?sc j)" "w' = w\<lparr>dw_log := d\<rparr>\<lparr>dw_log := dw_log w'\<rparr>"
      using Cons.IH [of "w\<lparr>dw_log := d\<rparr>"] del(1,3) Cons.prems(2) by auto
    show ?case unfolding step
      by (rule exI [of _ w']) (use w' del(2-4) in \<open>simp add: fun_eq_iff\<close>)
  qed (simp add: delete_log_entries_def)
qed

lemma clear_log_run:
  assumes ok: "doc_world_ok ws path N w"
  obtains w' where "delete_log_entries ws (doc_key ws path) (map fst (log_of w ws path)) w = (Inr (), w')" "doc_world_ok ws path 0 w'"
    "log_of w' ws path = []" "snap_of w' ws path = snap_of w ws path" "dw_chat w' = dw_chat w" "dw_live w' = dw_live w"
proof -
  let ?sc = "updates_scope (doc_key ws path)"
  obtain w' where w': "delete_log_entries ws (doc_key ws path) (map fst (log_of w ws path)) w = (Inr (), w')" "doc_ok (dw_log w')"
    "addr_ok (dw_log w') = addr_ok (dw_log w)" "storable (dw_log w') = storable (dw_log w)"
    "\<forall>k. doc_at (dw_log w') ws ?sc k = (if k \<in> set (map fst (log_of w ws path)) then None else doc_at (dw_log w) ws ?sc k)"
    "w' = w\<lparr>dw_log := dw_log w'\<rparr>" using delete_log_entries_run [OF ok] by blast
  have "doc_at (dw_log w') ws ?sc k = None" for k
  proof (cases "doc_at (dw_log w) ws ?sc k")
    case (Some v)
    then have "(k, v) \<in> set (log_of w ws path)" using ok by (simp add: log_of_def doc_world_ok_def docs_of_graph(5))
    then show ?thesis using w'(5) by force
  qed (simp add: w'(5))
  then have log: "docs_of (dw_log w') ws ?sc = []" by (rule docs_of_empty [OF w'(2)])
  obtain L where L: "w' = w\<lparr>dw_log := L\<rparr>" "dw_log w' = L" using w'(6) by blast
  show thesis
    by (rule that [OF w'(1)]) (use ok w'(2-4) log in \<open>simp_all add: L doc_world_ok_def log_of_def snap_of_def seq_keys_def\<close>)
qed

end
