(* ===== verification/Doc_Properties.thy ===== *)
theory Doc_Properties
  imports Doc_Laws
begin

text \<open>
  What live documents promise, for a document type that keeps its text under deletions and
  insertions and whose full state, applied to an earlier state, leads to it: a reconciled write
  brings the shared text to the preview of its edits, an edit that does not apply is staged in a
  session with the whole content of the write and changes no file, and a document that is released
  is found again, in the file and in the durable state.
\<close>

section \<open>The shared text\<close>

definition text_laws :: "'d ydoc \<Rightarrow> bool" where
  "text_laws yd \<longleftrightarrow>
     (\<forall>d i n. i + n \<le> length (yd_text yd d) \<longrightarrow> yd_text yd (yd_delete yd i n d) = take i (yd_text yd d) @ drop (i + n) (yd_text yd d)) \<and>
     (\<forall>d i r. i \<le> length (yd_text yd d) \<longrightarrow> yd_text yd (yd_insert yd i r d) = take i (yd_text yd d) @ r @ drop i (yd_text yd d))"

lemma match_bound:
  assumes "match_diff_block code search replace = Some (i, n, r)"
  shows "i + n \<le> length code"
proof (cases "text_index search code")
  case (Some j)
  with assms have "j = i" "n = length search" by (auto simp: match_diff_block_def split: if_splits)
  with text_index_Some [OF Some] show ?thesis by simp
next
  case None
  with assms have "match_fuzzy code search replace = Some (i, n, r)" by (simp add: match_diff_block_def split: if_splits)
  moreover from this obtain st a b where w: "find_window (text_lines code) (text_lines search) 0 = Some (st, a, b)"
    by (auto simp: match_fuzzy_def Let_def split: option.splits)
  ultimately obtain p s q where s: "text_lines code = p @ s @ q" "s \<noteq> []" "i = length (ended p)" "n = length (join_lines s)"
    using match_fuzzy_lines [OF w, of replace] by (metis option.inject prod.inject)
  have "code = join_lines (p @ s @ q)" by (metis s(1) join_text_lines)
  then show ?thesis using s(2-4) by (simp add: join_lines_parts)
qed

lemma apply_block_text:
  assumes "text_laws yd" and "match_diff_block (yd_text yd d) (db_search b) (db_replace b) = Some m"
  shows "yd_text yd (apply_block yd b d) = splice_text (yd_text yd d) m"
proof (cases m)
  case (fields i n r)
  note le = match_bound [OF assms(2) [unfolded fields]]
  let ?t = "yd_text yd d" and ?d = "if n > 0 then yd_delete yd i n d else d"
  have d: "yd_text yd ?d = take i ?t @ drop (i + n) ?t" using assms(1) le by (simp add: text_laws_def)
  then have "yd_text yd (if r \<noteq> [] then yd_insert yd i r ?d else ?d) = take i ?t @ r @ drop (i + n) ?t"
    using assms(1) le by (simp add: text_laws_def)
  then show ?thesis using assms(2) by (simp add: apply_block_def fields splice_text_def Let_def)
qed

text \<open>The transaction over the matched blocks leads to the text of the preview.\<close>

lemma transact_text:
  assumes "text_laws yd"
  shows "match_blocks (yd_text yd d) bs = (m, f, v) \<Longrightarrow> yd_text yd (transact_blocks yd m d) = v"
proof (induction bs arbitrary: d m f v)
  case (Cons b bs)
  show ?case
  proof (cases "match_diff_block (yd_text yd d) (db_search b) (db_replace b)")
    case None
    then show ?thesis using Cons by (auto split: prod.splits)
  next
    case (Some x)
    obtain m' f' v' where r: "match_blocks (splice_text (yd_text yd d) x) bs = (m', f', v')" by (rule prod_cases3)
    note t = apply_block_text [OF assms Some]
    have "m = b # m'" "v = v'" using Cons.prems Some r by auto
    with Cons.IH [of "apply_block yd b d"] r t show ?thesis by (simp add: transact_blocks_def)
  qed
qed (simp add: transact_blocks_def)

section \<open>Releasing\<close>

lemma replay_log_snoc: "replay_log yd (us @ [u]) d = yd_apply yd (du_data u) (replay_log yd us d)"
  by (simp add: replay_log_def)

lemma doc_world_ok_chat: "doc_world_ok ws path N w \<Longrightarrow> chat_ok ws (dw_chat w)"
  by (simp add: doc_world_ok_def)

lemma doc_world_ok_files: "doc_world_ok ws path N w \<Longrightarrow> chat_ok ws c \<Longrightarrow> doc_world_ok ws path N (w\<lparr>dw_chat := c\<rparr>)"
  by (simp add: doc_world_ok_def)

lemma doc_world_ok_live: "doc_world_ok ws path N w \<Longrightarrow> doc_world_ok ws path N (w\<lparr>dw_live := l\<rparr>)"
  by (simp add: doc_world_ok_def)

lemma live_parts [simp]: "log_of (w\<lparr>dw_live := l\<rparr>) = log_of w" "snap_of (w\<lparr>dw_live := l\<rparr>) = snap_of w"
  "log_of (w\<lparr>dw_chat := c\<rparr>) = log_of w" "snap_of (w\<lparr>dw_chat := c\<rparr>) = snap_of w"
  by (simp_all add: fun_eq_iff log_of_def snap_of_def)

lemma parse_doc_key_key: "CHR 0x00 \<notin> set ws \<Longrightarrow> parse_doc_key (doc_key ws path) = Inr (ws, path)"
  by (simp add: parse_doc_key_def doc_key_def index_of_first)

context file_versions
begin

lemma current_file_run:
  assumes "ve_files env = api" and "inv now (doc_files w)"
  shows "current_file env ws path w = (Inr (latest (doc_files w) ws path), w)"
  using current [OF assms(2), of ws path] assms(1)
  by (simp add: current_file_def on_chat_def zoom_run read_file_def bindM_run doc_files_def)

lemma materialize_run:
  assumes env: "ve_files env = api" "ve_sha env = sha" and inv: "inv (doc_now w) (doc_files w)" and ok: "doc_world_ok ws path N w"
  obtains w' where "materialize env (yd :: 'd ydoc) ws path d w = (Inr (), w')" "doc_world_ok ws path N w'" "doc_now w' = doc_now w"
    "inv (doc_now w) (doc_files w')" "log_of w' ws path = log_of w ws path" "snap_of w' ws path = snap_of w ws path" "dw_live w' = dw_live w"
    "\<forall>ws' p. latest (doc_files w') ws' p = (if ws' = ws \<and> p = path then Some (new_file sha (doc_now w) path (yd_text yd d) ''text/plain'')
       else latest (doc_files w) ws' p)"
proof -
  let ?f = "fa_write api (doc_now w) ws path (yd_text yd d) ''text/plain'' (doc_files w)"
  let ?c = "(dw_chat w)\<lparr>hw_vcs := (hw_vcs (dw_chat w))\<lparr>gw_files := ?f\<rparr>\<rparr>"
  have c: "chat_ok ws ?c" using chat_ok_vcs [OF doc_world_ok_chat [OF ok]]
    by (intro chat_ok_vcs_update [OF doc_world_ok_chat [OF ok]]) (simp add: vcs_ok_def)
  have f: "doc_files (w\<lparr>dw_chat := ?c\<rparr>) = ?f" by (simp add: doc_files_def)
  show thesis
  proof (rule that [of "w\<lparr>dw_chat := ?c\<rparr>"])
    show "materialize env yd ws path d w = (Inr (), w\<lparr>dw_chat := ?c\<rparr>)"
      by (simp add: materialize_def bindM_run on_chat_def zoom_run write_file_def on_files_run env doc_files_def doc_now_def)
    show "inv (doc_now w) (doc_files (w\<lparr>dw_chat := ?c\<rparr>))" unfolding f by (rule write_inv [OF inv])
    show "\<forall>ws' p. latest (doc_files (w\<lparr>dw_chat := ?c\<rparr>)) ws' p = (if ws' = ws \<and> p = path
      then Some (new_file sha (doc_now w) path (yd_text yd d) ''text/plain'') else latest (doc_files w) ws' p)"
      unfolding f by (intro allI) (rule write_latest [OF inv])
  qed (use doc_world_ok_files [OF ok c] in \<open>simp_all add: doc_now_def chat_now_def\<close>)
qed

text \<open>With the size bound zero a log with an entry is always folded into the snapshot.\<close>

lemma compact_run:
  assumes env: "ve_files env = api" and inv: "inv now (doc_files w)" and ok: "doc_world_ok ws path N w"
    and some: "log_of w ws path \<noteq> []" and cur: "latest (doc_files w) ws path = Some g"
  obtains w' where "compact_if_due env yd 0 age ws path w = (Inr (), w')" "doc_world_ok ws path 0 w'" "log_of w' ws path = []"
    "snap_of w' ws path = Some \<lparr>ds_data = yd_encode yd (durable yd w ws path), ds_updated = doc_now w, ds_file = Some (fe_hash g)\<rparr>"
    "dw_chat w' = dw_chat w" "dw_live w' = dw_live w"
proof -
  let ?key = "doc_key ws path"
  obtain w1 where w1: "write_doc_snapshot yd ws ?key (durable yd w ws path) (Some (fe_hash g)) w = (Inr (), w1)" "doc_world_ok ws path N w1"
    "snap_of w1 ws path = Some \<lparr>ds_data = yd_encode yd (durable yd w ws path), ds_updated = doc_now w, ds_file = Some (fe_hash g)\<rparr>"
    "log_of w1 ws path = log_of w ws path" "dw_chat w1 = dw_chat w" "dw_live w1 = dw_live w"
    by (rule write_doc_snapshot_run [OF ok])
  obtain w2 where w2: "delete_log_entries ws ?key (map fst (log_of w1 ws path)) w1 = (Inr (), w2)" "doc_world_ok ws path 0 w2"
    "log_of w2 ws path = []" "snap_of w2 ws path = snap_of w1 ws path" "dw_chat w2 = dw_chat w1" "dw_live w2 = dw_live w1"
    by (rule clear_log_run [OF w1(2)])
  have "compact_if_due env yd 0 age ws path w = (Inr (), w2)"
    using some w1(1,4) w2(1) cur
    by (simp add: compact_if_due_def Let_def bindM_run thenM_run doc_reads [OF ok] current_file_run [OF env inv] durable_def cong: option.case_cong)
  then show thesis by (rule that) (use w1 w2 in simp_all)
qed

lemma doc_release_run:
  assumes env: "ve_files env = api" "ve_sha env = sha" and inv: "inv (doc_now w) (doc_files w)" and ok: "doc_world_ok ws path N w"
    and room: "Suc N < 10 ^ 10" and nul: "CHR 0x00 \<notin> set ws" and live: "mget (dw_live w) (doc_key ws path) = Some l"
    and covers: "yd_apply yd (yd_encode yd (lv_doc l)) (durable yd w ws path) = lv_doc l"
    and full: "yd_apply yd (yd_encode yd (lv_doc l)) (yd_new yd) = lv_doc l"
  obtains w' where "release_doc env yd uuid (doc_key ws path) w = (Inr (), w')" "doc_world_ok ws path 0 w'"
    "dw_live w' = mdel (doc_key ws path) (dw_live w)"
    "\<forall>ws' p. latest (doc_files w') ws' p = (if ws' = ws \<and> p = path then Some (new_file sha (doc_now w) path (yd_text yd (lv_doc l)) ''text/plain'')
       else latest (doc_files w) ws' p)"
    "load_durable env yd ws path w' = (Inr (lv_doc l), w')"
proof -
  let ?d = "lv_doc l" and ?key = "doc_key ws path"
  let ?g = "new_file sha (doc_now w) path (yd_text yd ?d) ''text/plain''"
  obtain w1 where w1: "materialize env yd ws path ?d w = (Inr (), w1)" "doc_world_ok ws path N w1" "doc_now w1 = doc_now w"
    "inv (doc_now w) (doc_files w1)" "log_of w1 ws path = log_of w ws path" "snap_of w1 ws path = snap_of w ws path" "dw_live w1 = dw_live w"
    "\<forall>ws' p. latest (doc_files w1) ws' p = (if ws' = ws \<and> p = path then Some ?g else latest (doc_files w) ws' p)"
    by (rule materialize_run [OF env inv ok, of yd ?d])
  obtain w2 where w2: "append_update uuid ws path [yd_encode yd ?d] w1 = (Inr (), w2)" "doc_world_ok ws path (Suc N) w2"
    "map snd (log_of w2 ws path) = map snd (log_of w1 ws path) @ [\<lparr>du_data = yd_encode yd ?d, du_created = doc_now w1\<rparr>]"
    "snap_of w2 ws path = snap_of w1 ws path" "hw_vcs (dw_chat w2) = hw_vcs (dw_chat w1)" "dw_live w2 = dw_live w1"
    by (rule append_update_run [OF w1(2) room])
  have f2: "doc_files w2 = doc_files w1" using w2(5) by (simp add: doc_files_def)
  have dur: "durable yd w2 ws path = ?d" using covers w1(5,6) w2(3,4) by (simp add: durable_def replay_log_snoc)
  have some: "log_of w2 ws path \<noteq> []" using w2(3) by auto
  have inv2: "inv (doc_now w) (doc_files w2)" using w1(4) f2 by simp
  have cur2: "latest (doc_files w2) ws path = Some ?g" by (simp add: f2 w1(8))
  obtain w3 where w3: "compact_if_due env yd 0 DOC_COMPACT_AGE_MS ws path w2 = (Inr (), w3)" "doc_world_ok ws path 0 w3" "log_of w3 ws path = []"
    "snap_of w3 ws path = Some \<lparr>ds_data = yd_encode yd ?d, ds_updated = doc_now w2, ds_file = Some (fe_hash ?g)\<rparr>"
    "dw_chat w3 = dw_chat w2" "dw_live w3 = dw_live w2"
    by (rule compact_run [OF env(1) inv2 w2(2) some cur2, of yd DOC_COMPACT_AGE_MS]) (simp add: dur)
  let ?w = "w3\<lparr>dw_live := mdel ?key (dw_live w3)\<rparr>"
  have ok': "doc_world_ok ws path 0 ?w" by (rule doc_world_ok_live [OF w3(2)])
  have f3: "doc_files ?w = doc_files w1" using w3(5) w2(5) by (simp add: doc_files_def)
  show thesis
  proof (rule that [OF _ ok'])
    show "release_doc env yd uuid ?key w = (Inr (), ?w)"
      using live w1(1) w2(1) w3(1)
      by (simp add: release_doc_def bindM_run thenM_run catchM_run parse_doc_key_key [OF nul] materialize_and_flush_def flush_durable_def)
    show "dw_live ?w = mdel ?key (dw_live w)" by (simp add: w3(6) w2(6) w1(7))
    show "\<forall>ws' p. latest (doc_files ?w) ws' p = (if ws' = ws \<and> p = path then Some ?g else latest (doc_files w) ws' p)"
      unfolding f3 by (rule w1(8))
    have cur: "current_file env ws path ?w = (Inr (Some ?g), ?w)"
      using current_file_run [OF env(1), of "doc_now w" ?w ws path] w1(4,8) by (simp add: f3)
    show "load_durable env yd ws path ?w = (Inr ?d, ?w)"
      using w3(3,4) full by (simp add: load_durable_def Let_def bindM_run cur doc_reads [OF ok'] replay_log_def)
  qed
qed

end

text \<open>
  C30: on the SQLite backend, releasing a live document writes its text to its file and no other file,
  folds the whole state into the snapshot, drops the replica and no other one; loading the document
  afterwards gives the state it was released in. The released replica includes the durable state,
  and its full state as an update leads to it.
\<close>

theorem release_then_load:
  assumes api: "ve_files env = sqlite_api (ve_sha env) pick" and inv: "sq_hashed (ve_sha env) pick (doc_now w) (doc_files w)"
    and ok: "doc_world_ok ws path N w" "Suc N < 10 ^ 10" and nul: "CHR 0x00 \<notin> set ws"
    and live: "mget (dw_live w) (doc_key ws path) = Some l"
    and covers: "yd_apply yd (yd_encode yd (lv_doc l)) (durable yd w ws path) = lv_doc l"
      "yd_apply yd (yd_encode yd (lv_doc l)) (yd_new yd) = lv_doc l"
  shows "\<exists>w'. release_doc env yd uuid (doc_key ws path) w = (Inr (), w') \<and> \<not> has_live_doc w' ws path \<and>
    (\<forall>k. k \<noteq> doc_key ws path \<longrightarrow> mget (dw_live w') k = mget (dw_live w) k) \<and>
    map_option ff_content (sq_latest (doc_files w') ws path) = Some (yd_text yd (lv_doc l)) \<and>
    (\<forall>ws' p. \<not> (ws' = ws \<and> p = path) \<longrightarrow> sq_latest (doc_files w') ws' p = sq_latest (doc_files w) ws' p) \<and>
    load_durable env yd ws path w' = (Inr (lv_doc l), w')"
proof -
  obtain w' where w': "release_doc env yd uuid (doc_key ws path) w = (Inr (), w')" "dw_live w' = mdel (doc_key ws path) (dw_live w)"
    "\<forall>ws' p. sq_latest (doc_files w') ws' p = (if ws' = ws \<and> p = path
       then Some (new_file (ve_sha env) (doc_now w) path (yd_text yd (lv_doc l)) ''text/plain'') else sq_latest (doc_files w) ws' p)"
    "load_durable env yd ws path w' = (Inr (lv_doc l), w')"
    by (rule sqv.doc_release_run [OF api refl inv ok nul live covers])
  then show ?thesis by (intro exI [of _ w']) (simp add: has_live_doc_def delete_conv new_file_def)
qed

section \<open>Reconciling\<close>

lemma seq_keys_Suc: "seq_keys N ks \<Longrightarrow> seq_keys (Suc N) ks"
  by (force simp: seq_keys_def)

text \<open>The replica after the transaction, and the update that is logged for it.\<close>

lemma apply_matched_run:
  assumes ok: "doc_world_ok ws path N w" "Suc N < 10 ^ 10" and live: "mget (dw_live w) (doc_key ws path) = Some l"
  obtains w' where "apply_matched yd uuid ws path l m w = (Inr (), w')" "doc_world_ok ws path (Suc N) w'"
    "\<forall>k. mget (dw_live w') k = (if k = doc_key ws path then Some (l\<lparr>lv_doc := transact_blocks yd m (lv_doc l)\<rparr>) else mget (dw_live w) k)"
    "map snd (log_of w' ws path) = map snd (log_of w ws path) @
       (if m \<noteq> [] \<and> length (yd_since yd (lv_doc l) (transact_blocks yd m (lv_doc l))) > 2
        then [\<lparr>du_data = yd_since yd (lv_doc l) (transact_blocks yd m (lv_doc l)), du_created = doc_now w\<rparr>] else [])"
    "snap_of w' ws path = snap_of w ws path" "hw_vcs (dw_chat w') = hw_vcs (dw_chat w)" "hw_sessions (dw_chat w') = hw_sessions (dw_chat w)"
proof -
  let ?d = "transact_blocks yd m (lv_doc l)" and ?key = "doc_key ws path"
  let ?w = "w\<lparr>dw_live := mset_at ?key (l\<lparr>lv_doc := ?d\<rparr>) (dw_live w)\<rparr>"
  have more: "doc_world_ok ws path (Suc N) v" if "doc_world_ok ws path N v" for v :: "('c, 'd) doc_world"
    using that ok(2) seq_keys_Suc by (simp add: doc_world_ok_def)
  have wok: "doc_world_ok ws path N ?w" by (rule doc_world_ok_live [OF ok(1)])
  show thesis
  proof (cases "m = [] \<or> \<not> length (yd_since yd (lv_doc l) ?d) > 2")
    case False
    obtain w' where w': "append_update uuid ws path [yd_since yd (lv_doc l) ?d] ?w = (Inr (), w')" "doc_world_ok ws path (Suc N) w'"
      "map snd (log_of w' ws path) = map snd (log_of ?w ws path) @ [\<lparr>du_data = yd_since yd (lv_doc l) ?d, du_created = doc_now ?w\<rparr>]"
      "snap_of w' ws path = snap_of ?w ws path" "hw_vcs (dw_chat w') = hw_vcs (dw_chat ?w)" "hw_sessions (dw_chat w') = hw_sessions (dw_chat ?w)"
      "dw_live w' = dw_live ?w" by (rule append_update_run [OF wok ok(2)])
    have "apply_matched yd uuid ws path l m w = (Inr (), w')"
      using False w'(1) by (simp add: apply_matched_def Let_def thenM_run set_live_doc_def)
    then show thesis by (rule that) (use w' False in \<open>simp_all add: doc_now_def\<close>)
  next
    case True
    show thesis
    proof (cases "m = []")
      case True
      with live more [OF ok(1)] show thesis by (intro that [of w]) (simp_all add: apply_matched_def transact_blocks_def)
    next
      case False
      with True have "apply_matched yd uuid ws path l m w = (Inr (), ?w)"
        by (simp add: apply_matched_def Let_def thenM_run set_live_doc_def)
      then show thesis by (rule that) (use True False more [OF wok] in simp_all)
    qed
  qed
qed

text \<open>A write to a live document, up to what happens to the edits that do not match.\<close>

definition base_text :: "(sqlite_fs, 'd) doc_world \<Rightarrow> string \<Rightarrow> reconcile_args \<Rightarrow> string" where
  "base_text w ws args = (case ra_base args of Some b \<Rightarrow> b
     | None \<Rightarrow> (case sq_latest (doc_files w) ws (ra_path args) of Some f \<Rightarrow> ff_content f | None \<Rightarrow> []))"

lemma reconcile_run:
  assumes api: "ve_files env = sqlite_api (ve_sha env) pick" and inv: "sq_hashed (ve_sha env) pick (doc_now w) (doc_files w)"
    and live: "mget (dw_live w) (doc_key ws (ra_path args)) = Some l"
    and blocks: "match_blocks (yd_text yd (lv_doc l)) (derive_diff_blocks (base_text w ws args) (ra_content args)) = (m, f, v)"
    and run: "apply_matched yd uuid ws (ra_path args) l m w = (Inr (), w1)"
  shows "reconcile_or_pass_through env yd uuid ws args w =
    (if f = [] then (Inr (Applied (length m)), w1)
     else on_chat
       (bindM (resolve_conflict_session env uuid ws (ra_user args) (ra_session args)) (\<lambda>s.
        bindM (session_write env ws s (ra_path args) (ra_content args) None) (\<lambda>_.
        bindM (read_session ws (ch_id s)) (\<lambda>r.
        ret (Conflicted (ch_id (case r of Some s' \<Rightarrow> s' | None \<Rightarrow> s)) (length m) f))))) w1)"
proof -
  have base: "(case ra_base args of Some b \<Rightarrow> ret b
      | None \<Rightarrow> bindM (current_file env ws (ra_path args)) (\<lambda>f. ret (case f of Some x \<Rightarrow> ff_content x | None \<Rightarrow> []))) w =
      (Inr (base_text w ws args), w)"
    by (simp add: base_text_def bindM_run sqv.current_file_run [OF api inv] split: option.split)
  have "reconcile_or_pass_through env yd uuid ws args w = reconcile_live env yd uuid ws args (base_text w ws args) w"
    using live base by (simp add: reconcile_or_pass_through_def bindM_run has_live_doc_def)
  also have "\<dots> = thenM (apply_matched yd uuid ws (ra_path args) l m)
      (if f = [] then ret (Applied (length m)) else on_chat
       (bindM (resolve_conflict_session env uuid ws (ra_user args) (ra_session args)) (\<lambda>s.
        bindM (session_write env ws s (ra_path args) (ra_content args) None) (\<lambda>_.
        bindM (read_session ws (ch_id s)) (\<lambda>r.
        ret (Conflicted (ch_id (case r of Some s' \<Rightarrow> s' | None \<Rightarrow> s)) (length m) f)))))) w"
    using live blocks by (simp add: reconcile_live_def get_or_load_doc_def Let_def bindM_run)
  finally show ?thesis using run by (simp add: thenM_run)
qed

text \<open>
  C27: on the SQLite backend, a write to a live document all of whose edits match is applied in one
  transaction: the shared text becomes the preview of the edits, the participants stay, no other
  replica, file, commit or session changes.
\<close>

theorem reconcile_applies:
  assumes laws: "text_laws yd" and api: "ve_files env = sqlite_api (ve_sha env) pick"
    and inv: "sq_hashed (ve_sha env) pick (doc_now w) (doc_files w)" and ok: "doc_world_ok ws (ra_path args) N w" "Suc N < 10 ^ 10"
    and live: "mget (dw_live w) (doc_key ws (ra_path args)) = Some l"
    and blocks: "match_blocks (yd_text yd (lv_doc l)) (derive_diff_blocks (base_text w ws args) (ra_content args)) = (m, [], v)"
  shows "\<exists>d w'. reconcile_or_pass_through env yd uuid ws args w = (Inr (Applied (length m)), w') \<and> yd_text yd d = v \<and>
    (\<forall>k. mget (dw_live w') k = (if k = doc_key ws (ra_path args) then Some (l\<lparr>lv_doc := d\<rparr>) else mget (dw_live w) k)) \<and>
    hw_vcs (dw_chat w') = hw_vcs (dw_chat w) \<and> hw_sessions (dw_chat w') = hw_sessions (dw_chat w)"
proof -
  obtain w' where w': "apply_matched yd uuid ws (ra_path args) l m w = (Inr (), w')"
    "\<forall>k. mget (dw_live w') k = (if k = doc_key ws (ra_path args) then Some (l\<lparr>lv_doc := transact_blocks yd m (lv_doc l)\<rparr>) else mget (dw_live w) k)"
    "hw_vcs (dw_chat w') = hw_vcs (dw_chat w)" "hw_sessions (dw_chat w') = hw_sessions (dw_chat w)"
    by (rule apply_matched_run [OF ok live])
  show ?thesis
    by (intro exI [of _ "transact_blocks yd m (lv_doc l)"] exI [of _ w'])
      (use reconcile_run [OF api inv live blocks w'(1)] transact_text [OF laws blocks] w' in simp)
qed

text \<open>
  C29: on the SQLite backend, a write whose edits all match survives a restart, provided the replica was
  at the durable state and the file has the hash the snapshot was taken at, that is, nothing wrote
  the file directly since: a load in a process without replicas then gives the reconciled document.
  The update from before to after, applied before, leads to after, and is short only when nothing
  changed.
\<close>

theorem reconciled_survives_restart:
  assumes api: "ve_files env = sqlite_api (ve_sha env) pick"
    and inv: "sq_hashed (ve_sha env) pick (doc_now w) (doc_files w)" and ok: "doc_world_ok ws (ra_path args) N w" "Suc N < 10 ^ 10"
    and live: "mget (dw_live w) (doc_key ws (ra_path args)) = Some l"
    and blocks: "match_blocks (yd_text yd (lv_doc l)) (derive_diff_blocks (base_text w ws args) (ra_content args)) = (m, [], v)"
    and durable: "durable yd w ws (ra_path args) = lv_doc l" "snap_of w ws (ra_path args) = Some s"
      "map_option fe_hash (sq_latest (doc_files w) ws (ra_path args)) = ds_file s"
    and since: "yd_apply yd (yd_since yd (lv_doc l) (transact_blocks yd m (lv_doc l))) (lv_doc l) = transact_blocks yd m (lv_doc l)"
      "length (yd_since yd (lv_doc l) (transact_blocks yd m (lv_doc l))) \<le> 2 \<longrightarrow> transact_blocks yd m (lv_doc l) = lv_doc l"
  shows "\<exists>w' r. reconcile_or_pass_through env yd uuid ws args w = (r, w') \<and>
    map_option lv_doc (mget (dw_live w') (doc_key ws (ra_path args))) = Some (transact_blocks yd m (lv_doc l)) \<and>
    fst (load_durable env yd ws (ra_path args) (w'\<lparr>dw_live := []\<rparr>)) = Inr (transact_blocks yd m (lv_doc l))"
proof -
  let ?d = "transact_blocks yd m (lv_doc l)" and ?p = "ra_path args"
  obtain w' where w': "apply_matched yd uuid ws ?p l m w = (Inr (), w')" "doc_world_ok ws ?p (Suc N) w'"
    "\<forall>k. mget (dw_live w') k = (if k = doc_key ws ?p then Some (l\<lparr>lv_doc := ?d\<rparr>) else mget (dw_live w) k)"
    "map snd (log_of w' ws ?p) = map snd (log_of w ws ?p) @ (if m \<noteq> [] \<and> length (yd_since yd (lv_doc l) ?d) > 2
        then [\<lparr>du_data = yd_since yd (lv_doc l) ?d, du_created = doc_now w\<rparr>] else [])"
    "snap_of w' ws ?p = snap_of w ws ?p" "hw_vcs (dw_chat w') = hw_vcs (dw_chat w)"
    by (rule apply_matched_run [OF ok live])
  let ?w = "w'\<lparr>dw_live := []\<rparr>"
  have files: "doc_files ?w = doc_files w" by (simp add: doc_files_def w'(6))
  have cur: "current_file env ws ?p ?w = (Inr (sq_latest (doc_files w) ws ?p), ?w)"
    using sqv.current_file_run [OF api, of "doc_now w" ?w ws ?p] inv by (simp add: files)
  have none: "m = [] \<Longrightarrow> ?d = lv_doc l" by (simp add: transact_blocks_def)
  have state: "replay_log yd (map snd (log_of w ws ?p)) (yd_apply yd (ds_data s) (yd_new yd)) = lv_doc l"
    using durable(1,2) by (simp add: durable_def)
  have "replay_log yd (map snd (log_of w' ws ?p)) (yd_apply yd (ds_data s) (yd_new yd)) = ?d"
    using since none by (auto simp: w'(4) replay_log_snoc state)
  then have "load_durable env yd ws ?p ?w = (Inr ?d, ?w)"
    using durable(2,3) w'(5) by (simp add: load_durable_def Let_def bindM_run cur doc_reads [OF doc_world_ok_live [OF w'(2)]])
  then show ?thesis using reconcile_run [OF api inv live blocks w'(1)] w'(3) by (intro exI [of _ w'] exI) simp
qed

section \<open>Conflicts\<close>

text \<open>The session a conflict goes to: the one that was named, switched to staging if it was not, or
  a new one.\<close>

lemma update_mode_run:
  assumes ok: "chat_ok ws w" and s: "session_at w ws i = Some s" "ch_id s = i" "ch_status s = SessionOpen"
  obtains s' w' where "update_session ws i None (Some StagedMode) JUndefined w = (Inr s', w')" "chat_ok ws w'" "hw_vcs w' = hw_vcs w"
    "session_at w' ws i = Some s'" "ch_id s' = i" "ch_mode s' = StagedMode" "ch_overlay s' = ch_overlay s"
proof -
  let ?s = "s\<lparr>ch_title := trimmed_or None (ch_title s), ch_mode := StagedMode, ch_tabs := ch_tabs s\<rparr>"
  obtain w' where w': "save_touched ws ?s w = (Inr (touched w ?s), w')" "chat_ok ws w'" "hw_vcs w' = hw_vcs w"
    "\<And>j. session_at w' ws j = (if j = ch_id ?s then Some (touched w ?s) else session_at w ws j)"
    by (rule save_touched_run [OF ok, of ?s]) auto
  show thesis
    by (rule that [of "touched w ?s" w'])
      (use w' s in \<open>simp_all add: update_session_def bindM_run require_session_run [OF ok] trimmed_or_def\<close>)
qed

lemma create_session_run:
  assumes env: "session_env env" "ve_files env = sqlite_api sha pick" and ok: "chat_ok ws w"
  obtains s w' where "create_session env uuid ws user None (Some StagedMode) w = (Inr s, w')" "chat_ok ws w'"
    "gw_files (hw_vcs w') = gw_files (hw_vcs w)" "chat_now w' = chat_now w" "session_at w' ws (ch_id s) = Some s" "ch_mode s = StagedMode"
    "ch_overlay s = []"
proof -
  let ?opt = "\<lparr>to_message = ''Auto snapshot'', to_author = user, to_session = None, to_prefix = None, to_ref = JUndefined, to_parents = None\<rparr>"
  obtain c b v where c: "commit_tree env ws ?opt (hw_vcs w) = (Inr (c, b), v)" "vcs_ok ws v" "gw_now v = gw_now (hw_vcs w)"
    "gw_files v = gw_files (hw_vcs w)"
    by (rule commit_tree_total [OF chat_ok_vcs [OF ok], of ?opt MAIN_REF env])
      (use env sq_list_total in \<open>auto simp: ref_name_def session_env_def\<close>)
  let ?w = "w\<lparr>hw_vcs := v, hw_next := Suc (hw_next w)\<rparr>"
  let ?s = "\<lparr>ch_id = uuid (hw_next w), ch_title = trimmed_or None ''New chat'', ch_status = SessionOpen, ch_mode = StagedMode, ch_base = vc_id c,
      ch_overlay = [], ch_touched = None, ch_tabs = JUndefined, ch_agent = None, ch_run = None, ch_count = 0, ch_by = user,
      ch_created = iso_of (chat_now w), ch_updated = iso_of (chat_now w), ch_merge = None\<rparr>"
  have wok: "chat_ok ws ?w" using chat_ok_next [OF chat_ok_vcs_update [OF ok c(2)], of "Suc (hw_next w)"] by simp
  obtain w' where w': "save_session ws ?s ?w = (Inr (), w')" "chat_ok ws w'" "hw_vcs w' = hw_vcs ?w"
    "\<And>j. session_at w' ws j = (if j = ch_id ?s then Some ?s else session_at ?w ws j)"
    by (rule save_session_run [OF wok, of ?s]) auto
  have now: "chat_now (w\<lparr>hw_vcs := v\<rparr>) = chat_now w" using c(3) by (simp add: chat_now_def)
  have snap: "auto_snapshot env ws user w = (Inr c, w\<lparr>hw_vcs := v\<rparr>)"
    using c(1) by (simp add: auto_snapshot_def bindM_run on_vcs_run)
  have mint: "mint_id uuid (w\<lparr>hw_vcs := v\<rparr>) = (Inr (uuid (hw_next w)), ?w)" by (simp add: mint_id_def)
  show thesis
  proof (rule that [of ?s w'])
    show "create_session env uuid ws user None (Some StagedMode) w = (Inr ?s, w')"
      using w'(1) by (simp add: create_session_def bindM_run thenM_run snap now mint Let_def)
  qed (use w' c in \<open>simp_all add: chat_now_def\<close>)
qed

definition session_given :: "'f chat_world \<Rightarrow> string \<Rightarrow> string option \<Rightarrow> bool" where
  "session_given w ws explicit \<longleftrightarrow> (\<forall>i. truthy explicit \<and> explicit = Some i \<longrightarrow>
     (\<exists>s. session_at w ws i = Some s \<and> ch_id s = i \<and> (ch_mode s = AutoMode \<longrightarrow> ch_status s = SessionOpen)))"

lemma resolve_session_run:
  assumes env: "session_env env" "ve_files env = sqlite_api sha pick" and ok: "chat_ok ws w" and given: "session_given w ws explicit"
  obtains s w' where "resolve_conflict_session env uuid ws user explicit w = (Inr s, w')" "chat_ok ws w'"
    "gw_files (hw_vcs w') = gw_files (hw_vcs w)" "chat_now w' = chat_now w" "session_at w' ws (ch_id s) = Some s" "ch_mode s = StagedMode"
    "truthy explicit \<longrightarrow> Some (ch_id s) = explicit"
proof (cases "truthy explicit")
  case False
  show thesis
    by (rule create_session_run [OF env ok, of uuid user], rule that) (use False in \<open>simp_all add: resolve_conflict_session_def\<close>)
next
  case True
  then obtain i where i: "explicit = Some i" by (cases explicit) (simp_all add: truthy_def)
  with given True obtain s where s: "session_at w ws i = Some s" "ch_id s = i" "ch_mode s = AutoMode \<Longrightarrow> ch_status s = SessionOpen"
    by (auto simp: session_given_def)
  show thesis
  proof (cases "ch_mode s")
    case AutoMode
    obtain s' w' where w': "update_session ws i None (Some StagedMode) JUndefined w = (Inr s', w')" "chat_ok ws w'" "hw_vcs w' = hw_vcs w"
      "session_at w' ws i = Some s'" "ch_id s' = i" "ch_mode s' = StagedMode"
      by (rule update_mode_run [OF ok s(1,2) s(3) [OF AutoMode]])
    show thesis
      by (rule that [of s' w'])
        (use w' True i s AutoMode in \<open>simp_all add: resolve_conflict_session_def bindM_run require_session_run [OF ok] chat_now_def\<close>)
  next
    case StagedMode
    then show thesis
      using True i s by (intro that [of s w]) (simp_all add: resolve_conflict_session_def bindM_run require_session_run [OF ok] ok)
  qed
qed

text \<open>
  C28: on the SQLite backend, when an edit of a write to a live document does not match and the write
  names no session or one that exists and is open, the edits that match are applied, the whole
  content of the write is staged under its path in the session that was named, or a new one,
  where it can be read, and no file outside the service area changes.
\<close>

theorem reconcile_conflict_staged:
  assumes laws: "text_laws yd" and env: "session_env env" and api: "ve_files env = sqlite_api (ve_sha env) pick"
    and inv: "sq_hashed (ve_sha env) pick (doc_now w) (doc_files w)" and ok: "doc_world_ok ws (ra_path args) N w" "Suc N < 10 ^ 10"
    and live: "mget (dw_live w) (doc_key ws (ra_path args)) = Some l"
    and blocks: "match_blocks (yd_text yd (lv_doc l)) (derive_diff_blocks (base_text w ws args) (ra_content args)) = (m, f, v)" "f \<noteq> []"
    and given: "session_given (dw_chat w) ws (ra_session args)"
  shows "\<exists>s d w'. reconcile_or_pass_through env yd uuid ws args w = (Inr (Conflicted (ch_id s) (length m) f), w') \<and>
    map_option lv_doc (mget (dw_live w') (doc_key ws (ra_path args))) = Some d \<and> yd_text yd d = v \<and>
    session_at (dw_chat w') ws (ch_id s) = Some s \<and> ch_mode s = StagedMode \<and> (truthy (ra_session args) \<longrightarrow> ra_session args = Some (ch_id s)) \<and>
    (\<exists>g. fst (session_read env ws s (ra_path args) (dw_chat w')) = Inr (Some g) \<and> ff_content g = ra_content args) \<and>
    (\<forall>ws' p. \<not> is_service_path p \<longrightarrow> main_tree (dw_chat w') ws' p = main_tree (dw_chat w) ws' p)"
proof -
  let ?p = "ra_path args" and ?d = "transact_blocks yd m (lv_doc l)"
  obtain w1 where w1: "apply_matched yd uuid ws ?p l m w = (Inr (), w1)" "doc_world_ok ws ?p (Suc N) w1"
    "\<forall>k. mget (dw_live w1) k = (if k = doc_key ws ?p then Some (l\<lparr>lv_doc := ?d\<rparr>) else mget (dw_live w) k)"
    "hw_vcs (dw_chat w1) = hw_vcs (dw_chat w)" "hw_sessions (dw_chat w1) = hw_sessions (dw_chat w)"
    by (rule apply_matched_run [OF ok live])
  have sess: "session_at (dw_chat w1) = session_at (dw_chat w)" by (simp add: session_at_def w1(5) fun_eq_iff)
  then have given1: "session_given (dw_chat w1) ws (ra_session args)" using given by (simp add: session_given_def)
  obtain s c2 where c2: "resolve_conflict_session env uuid ws (ra_user args) (ra_session args) (dw_chat w1) = (Inr s, c2)" "chat_ok ws c2"
    "gw_files (hw_vcs c2) = gw_files (hw_vcs (dw_chat w1))" "chat_now c2 = chat_now (dw_chat w1)" "session_at c2 ws (ch_id s) = Some s"
    "ch_mode s = StagedMode" "truthy (ra_session args) \<longrightarrow> Some (ch_id s) = ra_session args"
    by (rule resolve_session_run [OF env api doc_world_ok_chat [OF w1(2)] given1, of uuid "ra_user args"])
  let ?s = "touched c2 (s\<lparr>ch_overlay := mset_at ?p (Some (ve_sha env (ra_content args))) (ch_overlay s)\<rparr>)"
  let ?sp = "shadow_path (ch_id s) ?p" and ?c = "ra_content args"
  obtain e c3 where c3: "session_write env ws s ?p ?c None c2 = (Inr (e, ?s), c3)" "chat_ok ws c3"
    "hw_vcs c3 = (hw_vcs c2)\<lparr>gw_files := fa_write (ve_files env) (chat_now c2) ws ?sp ?c ''text/plain'' (gw_files (hw_vcs c2))\<rparr>"
    "session_at c3 ws (ch_id s) = Some ?s" by (rule session_write_run [OF c2(2), of env s ?p ?c None]) simp
  let ?w = "w1\<lparr>dw_chat := c3\<rparr>"
  have inv2: "sq_hashed (ve_sha env) pick (chat_now c2) (gw_files (hw_vcs c2))"
  proof -
    have "chat_now (dw_chat w1) = doc_now w" by (simp add: doc_now_def chat_now_def w1(4))
    then show ?thesis using inv by (simp add: c2(3,4) doc_files_def w1(4))
  qed
  have read: "read_session ws (ch_id s) c3 = (Inr (Some ?s), c3)" by (simp add: read_session_at [OF c3(2)] c3(4))
  have run: "reconcile_or_pass_through env yd uuid ws args w = (Inr (Conflicted (ch_id ?s) (length m) f), ?w)"
    using reconcile_run [OF api inv live blocks(1) w1(1)] blocks(2) c2(1) c3(1) read by (simp add: on_chat_def zoom_run bindM_run)
  have files3: "gw_files (hw_vcs c3) = fa_write (sqlite_api (ve_sha env) pick) (chat_now c2) ws ?sp ?c ''text/plain'' (gw_files (hw_vcs c2))"
    by (simp add: c3(3) api)
  have staged: "fa_read (ve_files env) (gw_files (hw_vcs c3)) ws ?sp (Some (ve_sha env ?c)) =
      Inr (Some (new_file (ve_sha env) (chat_now c2) ?sp ?c ''text/plain''))"
    unfolding files3 api by (rule sq_read_written) (use env in \<open>simp_all add: session_env_def\<close>)
  then have view: "session_read env ws ?s ?p c3 =
      (Inr (Some ((new_file (ve_sha env) (chat_now c2) ?sp ?c ''text/plain'')\<lparr>fe_path := ?p\<rparr>)), c3)"
    by (simp add: session_read_run [OF c3(2)])
  have tree: "main_tree c3 ws' p = main_tree (dw_chat w) ws' p" if "\<not> is_service_path p" for ws' p
  proof -
    have "p \<noteq> ?sp" using that shadow_is_service by metis
    then show ?thesis using sqv.write_latest [OF inv2] by (simp add: main_tree_def c3(3) api c2(3) w1(4))
  qed
  show ?thesis
    by (intro exI [of _ ?s] exI [of _ ?d] exI [of _ ?w] conjI)
      (use run w1(3) transact_text [OF laws blocks(1)] c3(4) c2(6,7) view tree in \<open>simp_all add: new_file_def\<close>)
qed

section \<open>An instance\<close>

text \<open>Documents that are their text; an update carries the whole text after it.\<close>

definition demo_ydoc :: "string ydoc" where
  "demo_ydoc = \<lparr>yd_new = [], yd_text = id, yd_delete = (\<lambda>i n d. take i d @ drop (i + n) d), yd_insert = (\<lambda>i r d. take i d @ r @ drop i d),
     yd_encode = (\<lambda>d. ''text'' @ d), yd_since = (\<lambda>d d'. ''text'' @ d'), yd_apply = (\<lambda>u d. drop 4 u)\<rparr>"

definition demo_docs :: "(sqlite_fs, string) doc_world" where
  "demo_docs = \<lparr>dw_chat = demo_chat,
     dw_snaps = doc_db undefined [((''w'', DOC_SNAPSHOT_SCOPE, doc_key ''w'' ''a''), \<lparr>ds_data = ''textx'', ds_updated = 1, ds_file = Some ''hx''\<rparr>)],
     dw_log = doc_db undefined [], dw_live = [(doc_key ''w'' ''a'', \<lparr>lv_doc = ''x'', lv_participants = [''p'']\<rparr>)]\<rparr>"

definition demo_args :: "string \<Rightarrow> reconcile_args" where
  "demo_args base = \<lparr>ra_path = ''a'', ra_content = ''y'', ra_base = Some base, ra_user = ''u'', ra_session = Some demo_sid\<rparr>"

lemma demo_ydoc_laws: "text_laws demo_ydoc" "yd_apply demo_ydoc (yd_encode demo_ydoc d) e = d" "yd_apply demo_ydoc (yd_since demo_ydoc d d') e = d'"
  "length (yd_since demo_ydoc d d') > 2" "yd_text demo_ydoc d = d"
  by (simp_all add: text_laws_def demo_ydoc_def)

lemma demo_docs_ok: "doc_world_ok ''w'' ''a'' 0 demo_docs" "snap_of demo_docs ''w'' ''a'' = Some \<lparr>ds_data = ''textx'', ds_updated = 1, ds_file = Some ''hx''\<rparr>"
  "durable demo_ydoc demo_docs ''w'' ''a'' = ''x''" "mget (dw_live demo_docs) (doc_key ''w'' ''a'') = Some \<lparr>lv_doc = ''x'', lv_participants = [''p'']\<rparr>"
  "sq_hashed (ve_sha demo_vcs) hd (doc_now demo_docs) (doc_files demo_docs)" "map_option fe_hash (sq_latest (doc_files demo_docs) ''w'' ''a'') = Some ''hx''"
proof -
  have log: "docs_of (dw_log demo_docs) ''w'' (updates_scope (doc_key ''w'' ''a'')) = []"
    by (rule docs_of_empty) (simp_all add: demo_docs_def doc_db_ok doc_db_at)
  show "doc_world_ok ''w'' ''a'' 0 demo_docs"
    using demo_chat_ok(1) log by (simp add: doc_world_ok_def demo_docs_def doc_db_ok seq_keys_def)
  show s: "snap_of demo_docs ''w'' ''a'' = Some \<lparr>ds_data = ''textx'', ds_updated = 1, ds_file = Some ''hx''\<rparr>"
    by (simp add: snap_of_def demo_docs_def doc_db_at)
  show "durable demo_ydoc demo_docs ''w'' ''a'' = ''x''"
    by (simp add: durable_def s log_of_def log replay_log_def demo_ydoc_def)
  show "mget (dw_live demo_docs) (doc_key ''w'' ''a'') = Some \<lparr>lv_doc = ''x'', lv_participants = [''p'']\<rparr>" by (simp add: demo_docs_def)
  show "sq_hashed (ve_sha demo_vcs) hd (doc_now demo_docs) (doc_files demo_docs)"
    using demo_chat_ok(3) by (simp add: doc_now_def doc_files_def demo_docs_def)
  show "map_option fe_hash (sq_latest (doc_files demo_docs) ''w'' ''a'') = Some ''hx''"
    unfolding demo_docs_def doc_files_def demo_chat_def by code_simp
qed

lemma demo_blocks:
  "match_blocks ''x'' (derive_diff_blocks ''x'' ''y'') = ([\<lparr>db_search = ''x'', db_replace = ''y''\<rparr>], [], ''y'')"
  "match_blocks ''x'' (derive_diff_blocks ''q'' ''y'') = ([], [''q''], ''x'')"
  by code_simp+

theorem release_then_load_witness:
  "\<exists>w'. release_doc demo_vcs demo_ydoc (\<lambda>n. ''id'') (doc_key ''w'' ''a'') demo_docs = (Inr (), w') \<and>
     map_option ff_content (sq_latest (doc_files w') ''w'' ''a'') = Some ''x'' \<and> load_durable demo_vcs demo_ydoc ''w'' ''a'' w' = (Inr ''x'', w')"
proof -
  have "CHR 0x00 \<notin> set ''w''" by simp
  from release_then_load [OF demo_chat_ok(6) demo_docs_ok(5,1) _ this demo_docs_ok(4), of demo_ydoc "\<lambda>n. ''id''"]
  show ?thesis by (auto simp: demo_docs_ok demo_ydoc_laws)
qed

lemma demo_args_parts: "ra_path (demo_args b) = ''a''" "base_text demo_docs ''w'' (demo_args b) = b" "ra_content (demo_args b) = ''y''"
  "ra_session (demo_args b) = Some demo_sid"
  by (simp_all add: demo_args_def base_text_def)

lemma demo_reconcile: "doc_world_ok ''w'' (ra_path (demo_args b)) 0 demo_docs" "Suc 0 < 10 ^ 10"
  "mget (dw_live demo_docs) (doc_key ''w'' (ra_path (demo_args b))) = Some \<lparr>lv_doc = ''x'', lv_participants = [''p'']\<rparr>"
  "match_blocks (yd_text demo_ydoc (lv_doc \<lparr>lv_doc = ''x'', lv_participants = [''p'']\<rparr>))
     (derive_diff_blocks (base_text demo_docs ''w'' (demo_args ''x'')) (ra_content (demo_args ''x''))) = ([\<lparr>db_search = ''x'', db_replace = ''y''\<rparr>], [], ''y'')"
  "match_blocks (yd_text demo_ydoc (lv_doc \<lparr>lv_doc = ''x'', lv_participants = [''p'']\<rparr>))
     (derive_diff_blocks (base_text demo_docs ''w'' (demo_args ''q'')) (ra_content (demo_args ''q''))) = ([], [''q''], ''x'')"
  by (simp_all only: demo_args_parts demo_docs_ok demo_ydoc_laws live_doc.simps demo_blocks) simp

theorem reconcile_applies_witness:
  "\<exists>d w'. reconcile_or_pass_through demo_vcs demo_ydoc (\<lambda>n. ''id'') ''w'' (demo_args ''x'') demo_docs = (Inr (Applied 1), w') \<and> yd_text demo_ydoc d = ''y'' \<and>
     mget (dw_live w') (doc_key ''w'' ''a'') = Some \<lparr>lv_doc = d, lv_participants = [''p'']\<rparr>"
proof -
  from reconcile_applies [OF demo_ydoc_laws(1) demo_chat_ok(6) demo_docs_ok(5) demo_reconcile(1-4), of "\<lambda>n. ''id''"]
  obtain d w' where r: "reconcile_or_pass_through demo_vcs demo_ydoc (\<lambda>n. ''id'') ''w'' (demo_args ''x'') demo_docs =
      (Inr (Applied (length [\<lparr>db_search = ''x'', db_replace = ''y''\<rparr>])), w')" "yd_text demo_ydoc d = ''y''"
    "\<forall>k. mget (dw_live w') k = (if k = doc_key ''w'' (ra_path (demo_args ''x'')) then Some (\<lparr>lv_doc = ''x'', lv_participants = [''p'']\<rparr>\<lparr>lv_doc := d\<rparr>)
       else mget (dw_live demo_docs) k)" by (elim exE conjE) (rule that; assumption)
  have "mget (dw_live w') (doc_key ''w'' ''a'') = Some \<lparr>lv_doc = d, lv_participants = [''p'']\<rparr>" using r(3) by (simp add: demo_args_parts)
  with r(1,2) show ?thesis by (intro exI [of _ d] exI [of _ w']) simp
qed

theorem reconciled_survives_restart_witness:
  "\<exists>w' r. reconcile_or_pass_through demo_vcs demo_ydoc (\<lambda>n. ''id'') ''w'' (demo_args ''x'') demo_docs = (r, w') \<and>
     fst (load_durable demo_vcs demo_ydoc ''w'' ''a'' (w'\<lparr>dw_live := []\<rparr>)) = Inr ''y''"
proof -
  have t: "transact_blocks demo_ydoc [\<lparr>db_search = ''x'', db_replace = ''y''\<rparr>] (lv_doc \<lparr>lv_doc = ''x'', lv_participants = [''p'']\<rparr>) = ''y''" by code_simp
  have d: "durable demo_ydoc demo_docs ''w'' (ra_path (demo_args ''x'')) = lv_doc \<lparr>lv_doc = ''x'', lv_participants = [''p'']\<rparr>"
    "snap_of demo_docs ''w'' (ra_path (demo_args ''x'')) = Some \<lparr>ds_data = ''textx'', ds_updated = 1, ds_file = Some ''hx''\<rparr>"
    "map_option fe_hash (sq_latest (doc_files demo_docs) ''w'' (ra_path (demo_args ''x''))) =
      ds_file \<lparr>ds_data = ''textx'', ds_updated = 1, ds_file = Some ''hx''\<rparr>"
    by (simp_all only: demo_args_parts demo_docs_ok live_doc.simps doc_snapshot.simps)
  have n: "length (yd_since demo_ydoc a b) \<le> 2 \<longrightarrow> b = a" for a b using demo_ydoc_laws(4) [of a b] by linarith
  from reconciled_survives_restart [OF demo_chat_ok(6) demo_docs_ok(5) demo_reconcile(1-4) d demo_ydoc_laws(3) n, of "\<lambda>n. ''id''"]
  obtain w' r where r: "reconcile_or_pass_through demo_vcs demo_ydoc (\<lambda>n. ''id'') ''w'' (demo_args ''x'') demo_docs = (r, w')"
    "fst (load_durable demo_vcs demo_ydoc ''w'' (ra_path (demo_args ''x'')) (w'\<lparr>dw_live := []\<rparr>)) =
       Inr (transact_blocks demo_ydoc [\<lparr>db_search = ''x'', db_replace = ''y''\<rparr>] (lv_doc \<lparr>lv_doc = ''x'', lv_participants = [''p'']\<rparr>))"
    by (elim exE conjE) (rule that; assumption)
  from r show ?thesis unfolding t demo_args_parts by blast
qed

theorem reconcile_conflict_staged_witness:
  "\<exists>s w'. reconcile_or_pass_through demo_vcs demo_ydoc (\<lambda>n. ''id'') ''w'' (demo_args ''q'') demo_docs = (Inr (Conflicted demo_sid 0 [''q'']), w') \<and>
     session_at (dw_chat w') ''w'' demo_sid = Some s \<and>
     (\<exists>g. fst (session_read demo_vcs ''w'' s ''a'' (dw_chat w')) = Inr (Some g) \<and> ff_content g = ''y'') \<and>
     main_tree (dw_chat w') ''w'' ''a'' = main_tree demo_chat ''w'' ''a''"
proof -
  have g: "session_given (dw_chat demo_docs) ''w'' (ra_session (demo_args ''q''))"
    using demo_chat_ok(4) by (simp add: demo_args_parts session_given_def demo_session_def demo_docs_def)
  have a: "truthy (Some demo_sid)" "dw_chat demo_docs = demo_chat" by (simp_all add: truthy_def demo_sid_def demo_docs_def)
  have p: "\<not> is_service_path ''a''" by code_simp
  have f: "[''q''] \<noteq> []" by simp
  from reconcile_conflict_staged [OF demo_ydoc_laws(1) demo_chat_ok(5,6) demo_docs_ok(5) demo_reconcile(1-3,5) f g, of "\<lambda>n. ''id''"]
  obtain s w' where r: "reconcile_or_pass_through demo_vcs demo_ydoc (\<lambda>n. ''id'') ''w'' (demo_args ''q'') demo_docs =
      (Inr (Conflicted (ch_id s) (length ([] :: diff_block list)) [''q'']), w')" "session_at (dw_chat w') ''w'' (ch_id s) = Some s"
    "truthy (ra_session (demo_args ''q'')) \<longrightarrow> ra_session (demo_args ''q'') = Some (ch_id s)"
    "\<exists>g. fst (session_read demo_vcs ''w'' s (ra_path (demo_args ''q'')) (dw_chat w')) = Inr (Some g) \<and> ff_content g = ra_content (demo_args ''q'')"
    "\<forall>ws' p. \<not> is_service_path p \<longrightarrow> main_tree (dw_chat w') ws' p = main_tree (dw_chat demo_docs) ws' p"
    by (elim exE conjE) (rule that; blast)
  have i: "ch_id s = demo_sid" using r(3) a(1) by (simp add: demo_args_parts)
  from r(1,2,4,5) p show ?thesis unfolding i a(2) demo_args_parts list.size by blast
qed

end
