(* ===== verification/Identity_Store.thy ===== *)
theory Identity_Store
  imports Patterns Json Js_Date Js_Number Records
begin

text \<open>
  The identity store, \<^verbatim>\<open>server/workspace/src/identity/sql.ts\<close>: users, workspaces, memberships,
  current-workspace rows, invites, groups, permissions and API keys, as tables keyed by their
  primary keys. Both SQL clients run the same statements; they differ in how a driver returns a
  \<^verbatim>\<open>bigint\<close> column, as a number on SQLite and as text on DSQL. Columns with JSON texts hold the
  value. Random identifiers and the digest are arguments; times are milliseconds.
\<close>

section \<open>Tables\<close>

record user_row =
  us_email :: "string option"
  us_name :: "string option"
  us_active :: "string option"
  us_created :: "string option"
  us_updated :: "string option"

record workspace_row =
  wk_name :: "string option"
  wk_plan :: "string option"
  wk_locus :: "string option"
  wk_data :: "string option"
  wk_vfs :: "string option"
  wk_created :: "string option"
  wk_updated :: "string option"

record member_row =
  mb_role :: string
  mb_created :: "string option"

record session_row =
  sn_current :: "string option"
  sn_expires :: int

record invite_row =
  iv_email :: string
  iv_ws :: string
  iv_role :: "string option"
  iv_groups :: json
  iv_by :: "string option"
  iv_created :: "string option"
  iv_expires :: int
  iv_target :: json

record group_row =
  gr_name :: string
  gr_description :: "string option"
  gr_created :: string
  gr_updated :: string

record perm_row =
  pm_id :: string
  pm_by :: "string option"
  pm_created :: "string option"

record key_row =
  ky_name :: "string option"
  ky_caller :: "string option"
  ky_hash :: string
  ky_by :: "string option"
  ky_created :: "string option"
  ky_expires :: "int option"

record id_db =
  it_backend :: backend
  it_users :: "(string \<times> user_row) list"
  it_workspaces :: "(string \<times> workspace_row) list"
  it_members :: "((string \<times> string) \<times> member_row) list"
  it_sessions :: "(string \<times> session_row) list"
  it_invites :: "(string \<times> invite_row) list"
  it_groups :: "((string \<times> string) \<times> group_row) list"
  it_group_members :: "((string \<times> string \<times> string) \<times> string) list"
  it_perms :: "((string \<times> string \<times> string \<times> string) \<times> perm_row) list"
  it_keys :: "((string \<times> string) \<times> key_row) list"

text \<open>\<^verbatim>\<open>nowEpoch()\<close>.\<close>

definition now_epoch :: "int \<Rightarrow> int" where
  "now_epoch now = now div 1000"

definition INVITE_TTL_SECONDS :: int where
  "INVITE_TTL_SECONDS = 7 * 24 * 3600"

definition default_session_ttl :: "int option \<Rightarrow> int" where
  "default_session_ttl raw = (case raw of None \<Rightarrow> 604800 | Some n \<Rightarrow> if n > 0 then n else 604800)"

section \<open>Users\<close>

definition get_active_workspace_id :: "id_db \<Rightarrow> string \<Rightarrow> string option" where
  "get_active_workspace_id db sub = Option.bind (mget (it_users db) sub) us_active"

definition set_active_workspace_id :: "int \<Rightarrow> string \<Rightarrow> string \<Rightarrow> id_db \<Rightarrow> id_db" where
  "set_active_workspace_id now sub ws db =
     db\<lparr>it_users := mset_at sub (case mget (it_users db) sub of
          None \<Rightarrow> \<lparr>us_email = None, us_name = None, us_active = Some ws, us_created = None, us_updated = Some (iso_of now)\<rparr>
        | Some u \<Rightarrow> u\<lparr>us_active := Some ws, us_updated := Some (iso_of now)\<rparr>) (it_users db)\<rparr>"

record user_arg =
  ua_sub :: string
  ua_email :: "string option"
  ua_name :: "string option"
  ua_active :: "string option"
  ua_created :: "string option"
  ua_updated :: "string option"

definition or_now :: "int \<Rightarrow> string option \<Rightarrow> string option" where
  "or_now now v = (case v of None \<Rightarrow> Some (iso_of now) | Some t \<Rightarrow> Some t)"

definition upsert_user :: "int \<Rightarrow> user_arg \<Rightarrow> id_db \<Rightarrow> id_db" where
  "upsert_user now u db =
     db\<lparr>it_users := mset_at (ua_sub u) (case mget (it_users db) (ua_sub u) of
          None \<Rightarrow> \<lparr>us_email = ua_email u, us_name = ua_name u, us_active = ua_active u, us_created = or_now now (ua_created u),
                    us_updated = or_now now (ua_updated u)\<rparr>
        | Some r \<Rightarrow> r\<lparr>us_email := ua_email u, us_name := ua_name u, us_active := ua_active u, us_updated := or_now now (ua_updated u)\<rparr>)
        (it_users db)\<rparr>"

text \<open>The rows of \<^verbatim>\<open>sub IN (...)\<close>, in table order.\<close>

definition get_users :: "id_db \<Rightarrow> string list \<Rightarrow> (string \<times> string option \<times> string option) list" where
  "get_users db subs = map (\<lambda>(s, u). (s, us_email u, us_name u)) (filter (\<lambda>(s, u). s \<in> set subs) (it_users db))"

section \<open>Workspaces\<close>

datatype locus = LocalLocus | CloudLocus

fun locus_text :: "locus \<Rightarrow> string" where
  "locus_text LocalLocus = ''local''"
| "locus_text CloudLocus = ''cloud''"

definition locus_of_text :: "string option \<Rightarrow> locus option" where
  "locus_of_text t = (if t = Some ''local'' then Some LocalLocus else if t = Some ''cloud'' then Some CloudLocus else None)"

record workspace_rec =
  wr_id :: string
  wr_name :: string
  wr_plan :: "string option"
  wr_locus :: "locus option"
  wr_data :: "string option"
  wr_vfs :: "string option"
  wr_created :: "string option"
  wr_updated :: "string option"

definition get_workspace_row :: "id_db \<Rightarrow> string \<Rightarrow> workspace_rec option" where
  "get_workspace_row db ws = map_option (\<lambda>r.
     \<lparr>wr_id = ws, wr_name = (case wk_name r of None \<Rightarrow> [] | Some n \<Rightarrow> n), wr_plan = wk_plan r, wr_locus = locus_of_text (wk_locus r),
      wr_data = wk_data r, wr_vfs = wk_vfs r, wr_created = wk_created r, wr_updated = wk_updated r\<rparr>) (mget (it_workspaces db) ws)"

definition get_workspace_rows :: "id_db \<Rightarrow> string list \<Rightarrow> workspace_rec list" where
  "get_workspace_rows db ids = concat (map (\<lambda>i. case get_workspace_row db i of None \<Rightarrow> [] | Some w \<Rightarrow> [w]) ids)"

text \<open>An insertion sets the locus; an update of the row keeps it.\<close>

definition put_workspace :: "int \<Rightarrow> workspace_rec \<Rightarrow> id_db \<Rightarrow> id_db" where
  "put_workspace now w db =
     db\<lparr>it_workspaces := mset_at (wr_id w) (case mget (it_workspaces db) (wr_id w) of
          None \<Rightarrow> \<lparr>wk_name = Some (wr_name w), wk_plan = wr_plan w, wk_locus = map_option locus_text (wr_locus w), wk_data = wr_data w,
                    wk_vfs = wr_vfs w, wk_created = or_now now (wr_created w), wk_updated = or_now now (wr_updated w)\<rparr>
        | Some r \<Rightarrow> r\<lparr>wk_name := Some (wr_name w), wk_plan := wr_plan w, wk_data := wr_data w, wk_vfs := wr_vfs w,
                       wk_updated := or_now now (wr_updated w)\<rparr>) (it_workspaces db)\<rparr>"

section \<open>Memberships and current workspaces\<close>

definition get_membership :: "id_db \<Rightarrow> string \<Rightarrow> string \<Rightarrow> member_row option" where
  "get_membership db ws u = mget (it_members db) (ws, u)"

definition list_members :: "id_db \<Rightarrow> string \<Rightarrow> (string \<times> member_row) list" where
  "list_members db ws = sort_key fst (map (\<lambda>((w, u), r). (u, r)) (filter (\<lambda>((w, u), r). w = ws) (it_members db)))"

definition list_memberships_of :: "id_db \<Rightarrow> string \<Rightarrow> (string \<times> member_row) list" where
  "list_memberships_of db u = sort_key fst (map (\<lambda>((w, u), r). (w, r)) (filter (\<lambda>((w, v), r). v = u) (it_members db)))"

definition put_membership :: "int \<Rightarrow> string \<Rightarrow> string \<Rightarrow> string option \<Rightarrow> string option \<Rightarrow> id_db \<Rightarrow> id_db" where
  "put_membership now ws u role created db =
     (let r = (case role of None \<Rightarrow> ''member'' | Some x \<Rightarrow> x)
      in db\<lparr>it_members := mset_at (ws, u) (case mget (it_members db) (ws, u) of
           None \<Rightarrow> \<lparr>mb_role = r, mb_created = or_now now created\<rparr>
         | Some m \<Rightarrow> m\<lparr>mb_role := r\<rparr>) (it_members db)\<rparr>)"

definition remove_membership :: "string \<Rightarrow> string \<Rightarrow> id_db \<Rightarrow> bool \<times> id_db" where
  "remove_membership ws u db = (mget (it_members db) (ws, u) \<noteq> None, db\<lparr>it_members := mdel (ws, u) (it_members db)\<rparr>)"

definition get_current_workspace :: "int \<Rightarrow> id_db \<Rightarrow> string \<Rightarrow> string option" where
  "get_current_workspace now db u =
     (case mget (it_sessions db) u of
        None \<Rightarrow> None
      | Some s \<Rightarrow> if sn_expires s \<le> now_epoch now then None else sn_current s)"

definition set_current_workspace :: "int option \<Rightarrow> int \<Rightarrow> string \<Rightarrow> string \<Rightarrow> int option \<Rightarrow> id_db \<Rightarrow> id_db" where
  "set_current_workspace raw now u ws ttl db =
     db\<lparr>it_sessions := mset_at u \<lparr>sn_current = Some ws,
          sn_expires = now_epoch now + (case ttl of None \<Rightarrow> default_session_ttl raw | Some n \<Rightarrow> n)\<rparr> (it_sessions db)\<rparr>"

section \<open>Invites\<close>

record invite_target =
  tg_install :: string
  tg_channels :: "string list option"

record invite =
  in_token :: string
  in_ws :: string
  in_email :: string
  in_role :: string
  in_groups :: "string list"
  in_by :: string
  in_created :: string
  in_expires :: int
  in_target :: "invite_target option"

fun json_strings :: "json \<Rightarrow> string list" where
  "json_strings (JArr xs) = concat (map (\<lambda>x. case x of JStr s \<Rightarrow> [s] | _ \<Rightarrow> []) xs)"
| "json_strings _ = []"

definition parse_invite_target :: "json \<Rightarrow> invite_target option" where
  "parse_invite_target raw =
     (if jprop raw ''kind'' = JStr ''app-instance''
      then (case jprop raw ''installId'' of
          JStr i \<Rightarrow> Some \<lparr>tg_install = i, tg_channels = (case jprop raw ''channelIds'' of JArr xs \<Rightarrow> Some (json_strings (JArr xs)) | _ \<Rightarrow> None)\<rparr>
        | _ \<Rightarrow> None)
      else None)"

definition target_json :: "invite_target option \<Rightarrow> json" where
  "target_json t = (case t of None \<Rightarrow> JNull
     | Some g \<Rightarrow> JObj ([(''kind'', JStr ''app-instance''), (''installId'', JStr (tg_install g))] @
         (case tg_channels g of None \<Rightarrow> [] | Some cs \<Rightarrow> [(''channelIds'', JArr (map JStr cs))])))"

definition to_invite :: "string \<Rightarrow> invite_row \<Rightarrow> invite" where
  "to_invite token r =
     \<lparr>in_token = token, in_ws = iv_ws r, in_email = iv_email r, in_role = (case iv_role r of None \<Rightarrow> ''member'' | Some x \<Rightarrow> x),
      in_groups = json_strings (iv_groups r), in_by = (case iv_by r of None \<Rightarrow> [] | Some x \<Rightarrow> x),
      in_created = (case iv_created r of None \<Rightarrow> [] | Some x \<Rightarrow> x), in_expires = iv_expires r, in_target = parse_invite_target (iv_target r)\<rparr>"

definition create_invite_row ::
  "int \<Rightarrow> string \<Rightarrow> string \<Rightarrow> string \<Rightarrow> string \<Rightarrow> string list \<Rightarrow> string \<Rightarrow> invite_target option \<Rightarrow> id_db \<Rightarrow> invite \<times> id_db" where
  "create_invite_row now token ws email role groups by target db =
     (let i = \<lparr>in_token = token, in_ws = ws, in_email = js_trim (to_lower email), in_role = (if role = [] then ''member'' else role),
               in_groups = groups, in_by = by, in_created = iso_of now, in_expires = now_epoch now + INVITE_TTL_SECONDS, in_target = target\<rparr>
      in (i, db\<lparr>it_invites := mset_at token
            \<lparr>iv_email = in_email i, iv_ws = ws, iv_role = Some (in_role i), iv_groups = JArr (map JStr groups), iv_by = Some by,
             iv_created = Some (in_created i), iv_expires = in_expires i, iv_target = target_json target\<rparr> (it_invites db)\<rparr>))"

definition get_invite_row :: "int \<Rightarrow> id_db \<Rightarrow> string \<Rightarrow> invite option" where
  "get_invite_row now db token =
     (case mget (it_invites db) token of
        None \<Rightarrow> None
      | Some r \<Rightarrow> if iv_expires r > now_epoch now then Some (to_invite token r) else None)"

definition list_invite_rows :: "int \<Rightarrow> id_db \<Rightarrow> string \<Rightarrow> invite list" where
  "list_invite_rows now db ws =
     map (\<lambda>(t, r). to_invite t r) (sort_key (\<lambda>(t, r). case iv_created r of None \<Rightarrow> [] | Some c \<Rightarrow> c)
       (filter (\<lambda>(t, r). iv_ws r = ws \<and> iv_expires r > now_epoch now) (it_invites db)))"

definition revoke_invite_row :: "int \<Rightarrow> string \<Rightarrow> id_db \<Rightarrow> bool \<times> id_db" where
  "revoke_invite_row now token db =
     (case get_invite_row now db token of
        None \<Rightarrow> (False, db)
      | Some i \<Rightarrow> (True, db\<lparr>it_invites := mdel token (it_invites db)\<rparr>))"

text \<open>Consuming reads the row and deletes it, with a wait in between; the two halves are apart so
  that requests can interleave.\<close>

definition consume_read :: "int \<Rightarrow> id_db \<Rightarrow> string \<Rightarrow> svc_error + invite option" where
  "consume_read now db token =
     (case mget (it_invites db) token of
        None \<Rightarrow> Inr None
      | Some r \<Rightarrow> if iv_expires r \<le> now_epoch now then Inl (PlainError ''Invite expired'') else Inr (Some (to_invite token r)))"

definition consume_delete :: "string \<Rightarrow> id_db \<Rightarrow> id_db" where
  "consume_delete token db = db\<lparr>it_invites := mdel token (it_invites db)\<rparr>"

definition consume_invite_row :: "int \<Rightarrow> string \<Rightarrow> (id_db, invite option) prog" where
  "consume_invite_row now token =
     bindM (\<lambda>db. (consume_read now db token, db)) (\<lambda>i. case i of
       None \<Rightarrow> ret None
     | Some x \<Rightarrow> thenM (modifyM (consume_delete token)) (ret (Some x)))"

section \<open>Groups\<close>

definition create_group_row :: "int \<Rightarrow> string \<Rightarrow> string \<Rightarrow> string \<Rightarrow> string option \<Rightarrow> id_db \<Rightarrow> id_db" where
  "create_group_row now gid ws name desc db =
     db\<lparr>it_groups := mset_at (ws, gid) \<lparr>gr_name = name, gr_description = desc, gr_created = iso_of now, gr_updated = iso_of now\<rparr> (it_groups db)\<rparr>"

definition list_group_rows :: "id_db \<Rightarrow> string \<Rightarrow> (string \<times> group_row) list" where
  "list_group_rows db ws = sort_key fst (map (\<lambda>((w, g), r). (g, r)) (filter (\<lambda>((w, g), r). w = ws) (it_groups db)))"

definition get_group_row :: "id_db \<Rightarrow> string \<Rightarrow> string \<Rightarrow> group_row option" where
  "get_group_row db ws gid = mget (it_groups db) (ws, gid)"

definition update_group_row ::
  "int \<Rightarrow> string \<Rightarrow> string \<Rightarrow> string option \<Rightarrow> string option \<Rightarrow> id_db \<Rightarrow> group_row option \<times> id_db" where
  "update_group_row now ws gid name desc db =
     (case get_group_row db ws gid of
        None \<Rightarrow> (None, db)
      | Some g \<Rightarrow>
          (let next = g\<lparr>gr_name := (case name of None \<Rightarrow> gr_name g | Some n \<Rightarrow> n),
                        gr_description := (case desc of None \<Rightarrow> gr_description g | Some d \<Rightarrow> Some d), gr_updated := iso_of now\<rparr>
           in (Some next, db\<lparr>it_groups := mset_at (ws, gid) next (it_groups db)\<rparr>)))"

definition remove_group_row :: "string \<Rightarrow> string \<Rightarrow> id_db \<Rightarrow> bool \<times> id_db" where
  "remove_group_row ws gid db =
     (if mget (it_groups db) (ws, gid) = None then (False, db)
      else (True, db\<lparr>it_groups := mdel (ws, gid) (it_groups db),
                     it_group_members := filter (\<lambda>((w, g, u), c). \<not> (w = ws \<and> g = gid)) (it_group_members db)\<rparr>))"

definition add_group_member :: "int \<Rightarrow> string \<Rightarrow> string \<Rightarrow> string \<Rightarrow> id_db \<Rightarrow> id_db" where
  "add_group_member now ws gid u db =
     (if mget (it_group_members db) (ws, gid, u) \<noteq> None then db
      else db\<lparr>it_group_members := mset_at (ws, gid, u) (iso_of now) (it_group_members db)\<rparr>)"

definition remove_group_member :: "string \<Rightarrow> string \<Rightarrow> string \<Rightarrow> id_db \<Rightarrow> bool \<times> id_db" where
  "remove_group_member ws gid u db =
     (mget (it_group_members db) (ws, gid, u) \<noteq> None, db\<lparr>it_group_members := mdel (ws, gid, u) (it_group_members db)\<rparr>)"

definition list_group_ids_for_user :: "id_db \<Rightarrow> string \<Rightarrow> string \<Rightarrow> string list" where
  "list_group_ids_for_user db ws u = sort (map (\<lambda>((w, g, v), c). g) (filter (\<lambda>((w, g, v), c). w = ws \<and> v = u) (it_group_members db)))"

definition list_user_ids_for_group :: "id_db \<Rightarrow> string \<Rightarrow> string \<Rightarrow> string list" where
  "list_user_ids_for_group db ws gid = sort (map (\<lambda>((w, g, v), c). v) (filter (\<lambda>((w, g, v), c). w = ws \<and> g = gid) (it_group_members db)))"

section \<open>Permissions\<close>

definition grant_permission :: "int \<Rightarrow> string \<Rightarrow> string \<Rightarrow> string \<Rightarrow> string \<Rightarrow> string \<Rightarrow> string \<Rightarrow> id_db \<Rightarrow> id_db" where
  "grant_permission now pid ws caller provider operation by db =
     db\<lparr>it_perms := mset_at (ws, caller, provider, operation) \<lparr>pm_id = pid, pm_by = Some by, pm_created = Some (iso_of now)\<rparr> (it_perms db)\<rparr>"

definition revoke_permission :: "string \<Rightarrow> string \<Rightarrow> id_db \<Rightarrow> bool \<times> id_db" where
  "revoke_permission ws pid db =
     (let hit = (\<lambda>((w, c, p, e), r). w = ws \<and> pm_id r = pid)
      in (filter hit (it_perms db) \<noteq> [], db\<lparr>it_perms := filter (\<lambda>x. \<not> hit x) (it_perms db)\<rparr>))"

definition list_permissions :: "id_db \<Rightarrow> string \<Rightarrow> string option \<Rightarrow> ((string \<times> string \<times> string) \<times> perm_row) list" where
  "list_permissions db ws caller =
     sort_key (\<lambda>((c, p, e), r). [c, p, e]) (map (\<lambda>((w, c, p, e), r). ((c, p, e), r))
       (filter (\<lambda>((w, c, p, e), r). w = ws \<and> (truthy caller \<longrightarrow> Some c = caller)) (it_perms db)))"

definition check_permission :: "id_db \<Rightarrow> string \<Rightarrow> string \<Rightarrow> string \<Rightarrow> string \<Rightarrow> bool" where
  "check_permission db ws caller provider operation \<longleftrightarrow>
     mget (it_perms db) (ws, caller, provider, operation) \<noteq> None \<or> mget (it_perms db) (ws, caller, provider, ''*'') \<noteq> None"

definition legacy_permission_patterns :: "id_db \<Rightarrow> string \<Rightarrow> string \<Rightarrow> string list" where
  "legacy_permission_patterns db ws caller =
     map (\<lambda>((c, p, e), r). if e = ''*'' then p @ ''.*'' else p @ ''.'' @ e) (list_permissions db ws (Some caller))"

section \<open>API keys\<close>

definition create_api_key ::
  "(string \<Rightarrow> string) \<Rightarrow> int \<Rightarrow> string \<Rightarrow> string \<Rightarrow> string \<Rightarrow> string option \<Rightarrow> string option \<Rightarrow> string option \<Rightarrow> int option \<Rightarrow> id_db \<Rightarrow> id_db" where
  "create_api_key sha now kid secret ws name caller by expires db =
     db\<lparr>it_keys := mset_at (ws, kid) \<lparr>ky_name = name, ky_caller = caller, ky_hash = sha secret, ky_by = by,
          ky_created = Some (iso_of now), ky_expires = expires\<rparr> (it_keys db)\<rparr>"

definition list_api_keys :: "id_db \<Rightarrow> string \<Rightarrow> (string \<times> key_row) list" where
  "list_api_keys db ws = sort_key (\<lambda>(k, r). case ky_created r of None \<Rightarrow> [] | Some c \<Rightarrow> c)
     (map (\<lambda>((w, k), r). (k, r)) (filter (\<lambda>((w, k), r). w = ws) (it_keys db)))"

text \<open>\<^verbatim>\<open>typeof expiresAt === "number"\<close>: not on DSQL, whose driver returns a \<^verbatim>\<open>bigint\<close> as text.\<close>

definition bigint_is_number :: "id_db \<Rightarrow> bool" where
  "bigint_is_number db \<longleftrightarrow> it_backend db = Sqlite"

definition verify_api_key :: "(string \<Rightarrow> string) \<Rightarrow> int \<Rightarrow> id_db \<Rightarrow> string \<Rightarrow> ((string \<times> string) \<times> key_row) option" where
  "verify_api_key sha now db secret =
     (case find (\<lambda>(k, r). ky_hash r = sha secret) (it_keys db) of
        None \<Rightarrow> None
      | Some (k, r) \<Rightarrow>
          (case ky_expires r of
             Some t \<Rightarrow> if bigint_is_number db \<and> t \<le> now_epoch now then None else Some (k, r)
           | None \<Rightarrow> Some (k, r)))"

definition revoke_api_key :: "string \<Rightarrow> string \<Rightarrow> id_db \<Rightarrow> bool \<times> id_db" where
  "revoke_api_key ws kid db = (mget (it_keys db) (ws, kid) \<noteq> None, db\<lparr>it_keys := mdel (ws, kid) (it_keys db)\<rparr>)"

end
