(* ===== verification/Identity_Access.thy ===== *)
theory Identity_Access
  imports Identity_Store Auth_Cache Instances
begin

text \<open>
  The users of the identity store: the store with principal invalidation (\<^verbatim>\<open>identity/store.ts\<close>), the
  resolution of principals (\<^verbatim>\<open>middleware/auth.ts\<close>), workspaces (\<^verbatim>\<open>workspaces.ts\<close>), invites (\<^verbatim>\<open>invites.ts\<close>,
  \<^verbatim>\<open>routes/invites.ts\<close>), members, groups and the choice of a workspace (\<^verbatim>\<open>routes/members.ts\<close>, \<^verbatim>\<open>routes/groups.ts\<close>,
  \<^verbatim>\<open>routes/session.ts\<close>), all under \<^verbatim>\<open>server/workspace/src\<close>. The token verifier, the credential cipher and
  random identifiers are arguments.
\<close>

record id_world =
  iw_now :: int
  iw_next :: nat
  iw_db :: id_db
  iw_cache :: auth_cache
  iw_instances :: "app_instance db"

record 'f id_env =
  ie_sha :: "string \<Rightarrow> string"
  ie_uuid :: "nat \<Rightarrow> string"
  ie_verify :: "int \<Rightarrow> string \<Rightarrow> string option"
  ie_oidc :: bool
  ie_cache_ttl :: "int option"
  ie_session_ttl :: "int option"
  ie_cipher :: "bool \<Rightarrow> svc_error option"
  ie_insts :: "'f inst_env"

definition on_id_db :: "(id_db \<Rightarrow> id_db) \<Rightarrow> (id_world, unit) prog" where
  "on_id_db f = modifyM (\<lambda>w. w\<lparr>iw_db := f (iw_db w)\<rparr>)"

definition on_id_flag :: "(id_db \<Rightarrow> bool \<times> id_db) \<Rightarrow> (id_world, bool) prog" where
  "on_id_flag f w = (case f (iw_db w) of (b, db) \<Rightarrow> (Inr b, w\<lparr>iw_db := db\<rparr>))"

definition invalidate :: "string \<Rightarrow> (id_world, unit) prog" where
  "invalidate u = modifyM (\<lambda>w. w\<lparr>iw_cache := invalidate_principal u (iw_cache w)\<rparr>)"

definition fresh_id :: "'f id_env \<Rightarrow> (id_world, string) prog" where
  "fresh_id env w = (Inr (ie_uuid env (iw_next w)), w\<lparr>iw_next := Suc (iw_next w)\<rparr>)"

section \<open>Mutations with invalidation\<close>

definition members_put :: "string \<Rightarrow> string \<Rightarrow> string option \<Rightarrow> (id_world, unit) prog" where
  "members_put ws u role =
     bindM (gets iw_now) (\<lambda>now. thenM (on_id_db (put_membership now ws u role None)) (invalidate u))"

definition members_remove :: "string \<Rightarrow> string \<Rightarrow> (id_world, bool) prog" where
  "members_remove ws u =
     bindM (on_id_flag (remove_membership ws u)) (\<lambda>removed. thenM (if removed then invalidate u else ret ()) (ret removed))"

definition sessions_set_current :: "'f id_env \<Rightarrow> string \<Rightarrow> string \<Rightarrow> int option \<Rightarrow> (id_world, unit) prog" where
  "sessions_set_current env u ws ttl =
     bindM (gets iw_now) (\<lambda>now. thenM (on_id_db (set_current_workspace (ie_session_ttl env) now u ws ttl)) (invalidate u))"

definition group_members_add :: "string \<Rightarrow> string \<Rightarrow> string \<Rightarrow> (id_world, unit) prog" where
  "group_members_add ws gid u =
     bindM (gets iw_now) (\<lambda>now. thenM (on_id_db (add_group_member now ws gid u)) (invalidate u))"

definition group_members_remove :: "string \<Rightarrow> string \<Rightarrow> string \<Rightarrow> (id_world, bool) prog" where
  "group_members_remove ws gid u =
     bindM (on_id_flag (remove_group_member ws gid u)) (\<lambda>removed. thenM (if removed then invalidate u else ret ()) (ret removed))"

section \<open>Principals\<close>

definition read_bearer :: "string option \<Rightarrow> string option \<Rightarrow> string option" where
  "read_bearer authorization legacy =
     (case (case authorization of Some a \<Rightarrow> Some a | None \<Rightarrow> legacy) of
        None \<Rightarrow> None
      | Some raw \<Rightarrow> if starts_with raw ''Bearer '' then Some (js_trim (drop (length ''Bearer '') raw)) else None)"

definition verify_access_token :: "'f id_env \<Rightarrow> string \<Rightarrow> (id_world, string) prog" where
  "verify_access_token env token w =
     (case ie_verify env (iw_now w) token of
        Some sub \<Rightarrow> if sub = [] then (Inl (PlainError ''Invalid token subject''), w) else (Inr sub, w)
      | None \<Rightarrow> (Inl (PlainError ''invalid_token''), w))"

definition workspace_of :: "int \<Rightarrow> id_db \<Rightarrow> string \<Rightarrow> string \<Rightarrow> string option" where
  "workspace_of now db header sub =
     (if header \<noteq> [] then Some header
      else if truthy (get_current_workspace now db sub) then get_current_workspace now db sub
      else get_active_workspace_id db sub)"

definition oidc_principal :: "'f id_env \<Rightarrow> string option \<Rightarrow> string \<Rightarrow> (id_world, principal) prog" where
  "oidc_principal env token header =
     (if \<not> truthy token then throw (PlainError ''missing_token'')
      else
        bindM (\<lambda>w. (case get_cached_principal (iw_now w) (ie_sha env (the token)) header (iw_cache w) of
            (p, c) \<Rightarrow> (Inr p, w\<lparr>iw_cache := c\<rparr>))) (\<lambda>cached. case cached of
          Some p \<Rightarrow> ret p
        | None \<Rightarrow>
            bindM (verify_access_token env (the token)) (\<lambda>sub.
            bindM (gets (\<lambda>w. workspace_of (iw_now w) (iw_db w) header sub)) (\<lambda>found.
            if \<not> truthy found then throw (PlainError ''workspace_not_selected'')
            else
              bindM (gets (\<lambda>w. get_membership (iw_db w) (the found) sub)) (\<lambda>membership. case membership of
                None \<Rightarrow> throw (PlainError ''workspace_forbidden'')
              | Some m \<Rightarrow>
                  bindM (gets (\<lambda>w. list_group_ids_for_user (iw_db w) (the found) sub)) (\<lambda>groups.
                  let p = \<lparr>pr_sub = sub, pr_ws = the found, pr_role = mb_role m, pr_groups = groups\<rparr>
                  in thenM (modifyM (\<lambda>w. w\<lparr>iw_cache := set_cached_principal (ie_cache_ttl env) (iw_now w)
                         (ie_sha env (the token)) header p (iw_cache w)\<rparr>))
                       (ret p)))))))"

definition resolve_principal :: "'f id_env \<Rightarrow> string option \<Rightarrow> string \<Rightarrow> (id_world, principal) prog" where
  "resolve_principal env token header =
     (if \<not> ie_oidc env then ret \<lparr>pr_sub = ''local'', pr_ws = ''local'', pr_role = ''admin'', pr_groups = []\<rparr>
      else oidc_principal env token header)"

definition auth_response :: "svc_error \<Rightarrow> svc_error" where
  "auth_response e =
     (if e = PlainError ''workspace_forbidden'' then ServiceError ''Workspace is not allowed'' 403
      else if e = PlainError ''workspace_not_selected'' then ServiceError ''No workspace selected'' 400
      else ServiceError ''Invalid or expired token'' 401)"

definition require_auth :: "'f id_env \<Rightarrow> string option \<Rightarrow> string \<Rightarrow> (id_world, principal) prog" where
  "require_auth env token header = catchM (resolve_principal env token header) (\<lambda>e. throw (auth_response e))"

definition require_admin :: "principal \<Rightarrow> (id_world, unit) prog" where
  "require_admin p = (if pr_role p \<noteq> ''admin'' then throw (ServiceError ''Admin role required'' 403) else ret ())"

definition as_admin :: "'f id_env \<Rightarrow> string option \<Rightarrow> string \<Rightarrow> (principal \<Rightarrow> (id_world, 'a) prog) \<Rightarrow> (id_world, 'a) prog" where
  "as_admin env token header handler =
     bindM (require_auth env token header) (\<lambda>p. thenM (require_admin p) (handler p))"

section \<open>Workspaces\<close>

definition resolve_locus :: "workspace_rec option \<Rightarrow> locus" where
  "resolve_locus r = (if Option.bind r wr_locus = Some LocalLocus then LocalLocus else CloudLocus)"

definition normalize_workspace :: "workspace_rec \<Rightarrow> workspace_rec" where
  "normalize_workspace r = r\<lparr>wr_locus := Some (resolve_locus (Some r))\<rparr>"

definition get_workspace :: "id_db \<Rightarrow> string \<Rightarrow> workspace_rec option" where
  "get_workspace db ws = map_option normalize_workspace (get_workspace_row db ws)"

definition get_workspaces :: "id_db \<Rightarrow> string list \<Rightarrow> workspace_rec list" where
  "get_workspaces db ids = map normalize_workspace (get_workspace_rows db ids)"

record create_workspace_args =
  cw_id :: string
  cw_name :: string
  cw_locus :: "locus option"
  cw_data :: "string option"
  cw_vfs :: "string option"
  cw_plan :: "string option"
  cw_key :: bool

definition create_workspace :: "'f id_env \<Rightarrow> create_workspace_args \<Rightarrow> (id_world, workspace_rec) prog" where
  "create_workspace env input =
     (let locus = (case cw_locus input of None \<Rightarrow> CloudLocus | Some l \<Rightarrow> l)
      in if locus = LocalLocus \<and> (\<not> truthy (cw_data input) \<or> js_trim (the (cw_data input)) = [])
         then throw (ServiceError ''A local workspace requires dataDir'' 400)
         else thenM (case (if locus = LocalLocus then ie_cipher env (cw_key input) else None) of Some e \<Rightarrow> throw e | None \<Rightarrow> ret ())
           (bindM (gets (\<lambda>w. get_workspace_row (iw_db w) (cw_id input))) (\<lambda>existing.
            if existing \<noteq> None then throw (ServiceError (''Workspace '' @ cw_id input @ '' already exists'') 409)
            else bindM (gets iw_now) (\<lambda>now.
              let r = \<lparr>wr_id = cw_id input, wr_name = cw_name input, wr_plan = cw_plan input, wr_locus = Some locus,
                       wr_data = (if locus = LocalLocus then cw_data input else None),
                       wr_vfs = (if locus = LocalLocus then cw_vfs input else None),
                       wr_created = Some (iso_of now), wr_updated = Some (iso_of now)\<rparr>
              in thenM (on_id_db (put_workspace now r)) (ret (normalize_workspace r))))))"

record update_workspace_args =
  uw_name :: "string option"
  uw_plan :: "string option"
  uw_data :: "string option"
  uw_vfs :: "string option"
  uw_locus :: "locus option"

definition update_workspace :: "string \<Rightarrow> update_workspace_args \<Rightarrow> (id_world, workspace_rec) prog" where
  "update_workspace ws patch =
     (if uw_locus patch \<noteq> None then throw (ServiceError ''Workspace locus cannot be changed after creation'' 400)
      else bindM (gets (\<lambda>w. get_workspace_row (iw_db w) ws)) (\<lambda>existing. case existing of
          None \<Rightarrow> throw (ServiceError (''Workspace '' @ ws @ '' not found'') 404)
        | Some r \<Rightarrow>
            bindM (gets iw_now) (\<lambda>now.
            let locus = resolve_locus (Some r);
                u = r\<lparr>wr_locus := Some locus, wr_name := (case uw_name patch of None \<Rightarrow> wr_name r | Some n \<Rightarrow> n),
                      wr_plan := (case uw_plan patch of None \<Rightarrow> wr_plan r | Some n \<Rightarrow> Some n),
                      wr_data := (if locus = LocalLocus then (case uw_data patch of None \<Rightarrow> wr_data r | Some n \<Rightarrow> Some n) else wr_data r),
                      wr_vfs := (if locus = LocalLocus then (case uw_vfs patch of None \<Rightarrow> wr_vfs r | Some n \<Rightarrow> Some n) else wr_vfs r),
                      wr_updated := Some (iso_of now)\<rparr>
            in thenM (on_id_db (put_workspace now u)) (ret (normalize_workspace u)))))"

definition is_local_machine_provider :: "string \<Rightarrow> bool" where
  "is_local_machine_provider p \<longleftrightarrow> p = ''local-directory''"

definition assert_provider_binding_allowed :: "string \<Rightarrow> string option \<Rightarrow> (id_world, unit) prog" where
  "assert_provider_binding_allowed ws provider =
     (if \<not> truthy provider \<or> \<not> is_local_machine_provider (the provider) then ret ()
      else bindM (gets (\<lambda>w. get_workspace (iw_db w) ws)) (\<lambda>r.
        if resolve_locus r = CloudLocus
        then throw (ServiceError (''A cloud workspace cannot reach local resources '' @
          ''- inbound access from the cloud to a local machine is not available'') 400)
        else ret ()))"

section \<open>Choosing a workspace\<close>

definition select_active_workspace :: "'f id_env \<Rightarrow> string \<Rightarrow> string \<Rightarrow> (id_world, string) prog" where
  "select_active_workspace env u ws =
     (if \<not> ie_oidc env then if ws = ''local'' then ret ws else throw (ServiceError ''Local mode has one workspace: local'' 403)
      else bindM (gets (\<lambda>w. get_membership (iw_db w) ws u)) (\<lambda>m.
        if m = None then throw (ServiceError ''No membership in that workspace'' 403)
        else bindM (gets iw_now) (\<lambda>now.
          thenM (on_id_db (set_active_workspace_id now u ws))
            (thenM (sessions_set_current env u ws None) (ret ws)))))"

definition session_workspaces :: "int \<Rightarrow> id_db \<Rightarrow> string \<Rightarrow> string option \<times> (string \<times> string \<times> string) list" where
  "session_workspaces now db sub =
     ((if truthy (get_active_workspace_id db sub) then get_active_workspace_id db sub else get_current_workspace now db sub),
      (let ms = list_memberships_of db sub; rows = get_workspaces db (map fst ms)
       in map (\<lambda>(ws, m). (ws, (case map_of (rev (map (\<lambda>r. (wr_id r, wr_name r)) rows)) ws of None \<Rightarrow> ws | Some n \<Rightarrow> n), mb_role m)) ms))"

section \<open>Permissions\<close>

definition permission_grant :: "'f id_env \<Rightarrow> principal \<Rightarrow> string \<Rightarrow> string \<Rightarrow> string \<Rightarrow> (id_world, string) prog" where
  "permission_grant env p caller provider operation =
     bindM (fresh_id env) (\<lambda>i. bindM (gets iw_now) (\<lambda>now.
     thenM (on_id_db (grant_permission now i (pr_ws p) caller provider operation (pr_sub p))) (ret i)))"

definition permission_revoke :: "principal \<Rightarrow> string \<Rightarrow> (id_world, unit) prog" where
  "permission_revoke p i =
     (if i = [] then throw (ServiceError ''Missing permission id'' 400)
      else bindM (on_id_flag (revoke_permission (pr_ws p) i)) (\<lambda>revoked.
        if revoked then ret () else throw (ServiceError ''Permission not found'' 404)))"

section \<open>Members, groups and invites\<close>

definition delete_member :: "principal \<Rightarrow> string \<Rightarrow> (id_world, unit) prog" where
  "delete_member p target =
     (if target = pr_sub p then throw (ServiceError ''Cannot remove yourself from the workspace'' 400)
      else bindM (members_remove (pr_ws p) target) (\<lambda>removed.
        if removed then ret () else throw (ServiceError ''Member not found'' 404)))"

definition member_views :: "id_db \<Rightarrow> string \<Rightarrow> (string \<times> member_row \<times> string option \<times> string option) list" where
  "member_views db ws =
     (let ms = list_members db ws; us = get_users db (map fst ms)
      in map (\<lambda>(u, m). (u, m, (case map_of us u of Some (e, n) \<Rightarrow> (if truthy e then e else None) | None \<Rightarrow> None),
           (case map_of us u of Some (e, n) \<Rightarrow> (if truthy n then n else None) | None \<Rightarrow> None))) ms)"

definition group_create :: "'f id_env \<Rightarrow> principal \<Rightarrow> string \<Rightarrow> string option \<Rightarrow> (id_world, string \<times> group_row) prog" where
  "group_create env p name desc =
     bindM (fresh_id env) (\<lambda>gid. bindM (gets iw_now) (\<lambda>now.
     thenM (on_id_db (create_group_row now gid (pr_ws p) name desc))
       (ret (gid, \<lparr>gr_name = name, gr_description = desc, gr_created = iso_of now, gr_updated = iso_of now\<rparr>))))"

definition group_patch :: "principal \<Rightarrow> string \<Rightarrow> string option \<Rightarrow> string option \<Rightarrow> (id_world, group_row) prog" where
  "group_patch p gid name desc w =
     (case update_group_row (iw_now w) (pr_ws p) gid name desc (iw_db w) of
        (None, db) \<Rightarrow> (Inl (ServiceError ''Group not found'' 404), w\<lparr>iw_db := db\<rparr>)
      | (Some g, db) \<Rightarrow> (Inr g, w\<lparr>iw_db := db\<rparr>))"

definition group_users :: "principal \<Rightarrow> string \<Rightarrow> (id_world, string list) prog" where
  "group_users p gid =
     bindM (gets (\<lambda>w. get_group_row (iw_db w) (pr_ws p) gid)) (\<lambda>g.
     if g = None then throw (ServiceError ''Group not found'' 404)
     else gets (\<lambda>w. list_user_ids_for_group (iw_db w) (pr_ws p) gid))"

definition group_delete :: "principal \<Rightarrow> string \<Rightarrow> (id_world, unit) prog" where
  "group_delete p gid =
     bindM (on_id_flag (remove_group_row (pr_ws p) gid)) (\<lambda>deleted.
     if deleted then ret () else throw (ServiceError ''Group not found'' 404))"

definition group_add_user :: "principal \<Rightarrow> string \<Rightarrow> string \<Rightarrow> (id_world, unit) prog" where
  "group_add_user p gid u =
     bindM (gets (\<lambda>w. get_group_row (iw_db w) (pr_ws p) gid)) (\<lambda>g.
     if g = None then throw (ServiceError ''Group not found'' 404) else group_members_add (pr_ws p) gid u)"

definition group_remove_user :: "principal \<Rightarrow> string \<Rightarrow> string \<Rightarrow> (id_world, unit) prog" where
  "group_remove_user p gid u =
     bindM (group_members_remove (pr_ws p) gid u) (\<lambda>removed.
     if removed then ret () else throw (ServiceError ''User not found in group'' 404))"

definition create_invite ::
  "'f id_env \<Rightarrow> principal \<Rightarrow> string \<Rightarrow> string \<Rightarrow> string list \<Rightarrow> invite_target option \<Rightarrow> (id_world, invite) prog" where
  "create_invite env p email role groups target =
     bindM (fresh_id env) (\<lambda>token w.
       case create_invite_row (iw_now w) token (pr_ws p) email role groups (pr_sub p) target (iw_db w) of
         (i, db) \<Rightarrow> (Inr i, w\<lparr>iw_db := db\<rparr>))"

definition delete_invite :: "principal \<Rightarrow> string \<Rightarrow> (id_world, unit) prog" where
  "delete_invite p token =
     bindM (gets (\<lambda>w. find (\<lambda>i. in_token i = token) (list_invite_rows (iw_now w) (iw_db w) (pr_ws p)))) (\<lambda>i.
     if i = None then throw (ServiceError ''Invite not found'' 404)
     else bindM (gets iw_now) (\<lambda>now. bindM (on_id_flag (revoke_invite_row now token)) (\<lambda>revoked.
       if revoked then ret () else throw (ServiceError ''Invite not found'' 404))))"

definition consume_token :: "string \<Rightarrow> (id_world, invite option) prog" where
  "consume_token token w = zoom iw_db (\<lambda>db w. w\<lparr>iw_db := db\<rparr>) (consume_invite_row (iw_now w) token) w"

text \<open>Instance participants must be members of the hosting workspace when the instance is managed: the
  membership test is the store's.\<close>

definition member_env :: "'f id_env \<Rightarrow> id_db \<Rightarrow> 'f inst_env" where
  "member_env env db = (ie_insts env)\<lparr>ie_member := (\<lambda>ws u. get_membership db ws u \<noteq> None)\<rparr>"

definition add_invited_participant :: "'f id_env \<Rightarrow> string \<Rightarrow> string \<Rightarrow> string \<Rightarrow> string \<Rightarrow> (id_world, unit) prog" where
  "add_invited_participant env ws iid u actor w =
     (case add_participant (member_env env (iw_db w)) (iw_now w) ws iid u actor (iw_instances w) of
        (r, d) \<Rightarrow> (map_sum id (\<lambda>_. ()) r, w\<lparr>iw_instances := d\<rparr>))"

text \<open>\<^verbatim>\<open>InviteConsumeError("expired")\<close> is the plain error of \<^verbatim>\<open>consume\<close>.\<close>

definition consume_invite :: "'f id_env \<Rightarrow> string \<Rightarrow> string \<Rightarrow> (id_world, invite option) prog" where
  "consume_invite env token u =
     bindM (gets (\<lambda>w. get_invite_row (iw_now w) (iw_db w) token)) (\<lambda>pending. case pending of
       None \<Rightarrow> consume_token token
     | Some i \<Rightarrow>
         thenM (case in_target i of
             None \<Rightarrow> ret ()
           | Some g \<Rightarrow>
               if u = [] then throw (PlainError ''Invite not found'')
               else add_invited_participant env (in_ws i) (tg_install g) u (if in_by i \<noteq> [] then in_by i else u))
           (consume_token token))"

definition consume_response :: "svc_error \<Rightarrow> svc_error" where
  "consume_response e =
     (if e = PlainError ''Invite expired'' then ServiceError ''Invite expired'' 410
      else if e = PlainError ''Invite not found'' then ServiceError ''Invite not found'' 404
      else ServiceError ''Failed to consume invite'' 500)"

fun add_to_groups :: "string \<Rightarrow> string list \<Rightarrow> string \<Rightarrow> (id_world, unit) prog" where
  "add_to_groups ws [] u = ret ()"
| "add_to_groups ws (g # gs) u = thenM (group_members_add ws g u) (add_to_groups ws gs u)"

definition accept_invite :: "'f id_env \<Rightarrow> string option \<Rightarrow> string \<Rightarrow> (id_world, invite) prog" where
  "accept_invite env bearer token =
     (if \<not> truthy bearer then throw (ServiceError ''Missing or invalid Authorization header'' 401)
      else
        bindM (catchM (verify_access_token env (the bearer)) (\<lambda>_. throw (ServiceError ''Invalid or expired token'' 401))) (\<lambda>u.
        bindM (catchM (consume_invite env token u) (\<lambda>e. throw (consume_response e))) (\<lambda>found. case found of
          None \<Rightarrow> throw (ServiceError ''Invite not found'' 404)
        | Some i \<Rightarrow>
            if in_target i \<noteq> None then ret i
            else thenM (members_put (in_ws i) u (Some (in_role i)))
              (thenM (add_to_groups (in_ws i) (in_groups i) u) (ret i)))))"

end
