(* ===== verification/Identity_Laws.thy ===== *)
theory Identity_Laws
  imports Identity_Access
begin

text \<open>
  The cache of principals against the store: a cached principal is \<^emph>\<open>current\<close> when its membership, role
  and groups are the store's, and every mutation that goes through the invalidating store keeps
  all cached principals current.
\<close>

section \<open>Tables\<close>

lemma filter_update_other: "(\<And>v. \<not> P (k, v)) \<Longrightarrow> filter P (AList.update k v m) = filter P m"
  by (induction m) auto

lemma filter_delete_other: "(\<And>v. \<not> P (k, v)) \<Longrightarrow> filter P (AList.delete k m) = filter P m"
  by (induction m) auto

definition current :: "id_db \<Rightarrow> principal \<Rightarrow> bool" where
  "current db p \<longleftrightarrow> map_option mb_role (get_membership db (pr_ws p) (pr_sub p)) = Some (pr_role p) \<and>
     pr_groups p = list_group_ids_for_user db (pr_ws p) (pr_sub p)"

lemma current_parts:
  assumes "it_members db' = it_members db" and "it_group_members db' = it_group_members db"
  shows "current db' p = current db p"
  using assms by (simp add: current_def get_membership_def list_group_ids_for_user_def)

lemma current_put_other: "pr_sub p \<noteq> u \<Longrightarrow> current (put_membership now ws u role created db) p = current db p"
  by (simp add: current_def get_membership_def list_group_ids_for_user_def put_membership_def Let_def)

lemma current_remove_other: "pr_sub p \<noteq> u \<Longrightarrow> current (snd (remove_membership ws u db)) p = current db p"
  by (simp add: current_def get_membership_def list_group_ids_for_user_def remove_membership_def)

lemma current_remove_absent: "\<not> fst (remove_membership ws u db) \<Longrightarrow> current (snd (remove_membership ws u db)) p = current db p"
  by (simp add: current_def get_membership_def list_group_ids_for_user_def remove_membership_def)

lemma current_group_add_other: "pr_sub p \<noteq> u \<Longrightarrow> current (add_group_member now ws g u db) p = current db p"
  by (auto simp: current_def get_membership_def list_group_ids_for_user_def add_group_member_def filter_update_other)

lemma current_group_remove_other: "pr_sub p \<noteq> u \<Longrightarrow> current (snd (remove_group_member ws g u db)) p = current db p"
  by (auto simp: current_def get_membership_def list_group_ids_for_user_def remove_group_member_def filter_delete_other)

lemma current_group_remove_absent:
  "\<not> fst (remove_group_member ws g u db) \<Longrightarrow> current (snd (remove_group_member ws g u db)) p = current db p"
  by (simp add: current_def get_membership_def list_group_ids_for_user_def remove_group_member_def delete_id map_of_eq_None_iff)

section \<open>The cache\<close>

definition digest_ok :: "(string \<Rightarrow> string) \<Rightarrow> bool" where
  "digest_ok sha \<longleftrightarrow> inj sha \<and> (\<forall>x. CHR '':'' \<notin> set (sha x))"

lemma cache_key_inj:
  assumes "digest_ok sha" and "cache_key (sha t) h = cache_key (sha t') h'"
  shows "t = t' \<and> h = h'"
proof -
  have "sha t = takeWhile (\<lambda>c. c \<noteq> CHR '':'') (cache_key (sha t) h)" for t h
    using assms(1) by (subst takeWhile_append2 [where ys = "'':'' @ h", folded cache_key_def]) (auto simp: digest_ok_def cache_key_def)
  then have "sha t = sha t'" using assms(2) by metis
  then show ?thesis using assms by (auto simp: digest_ok_def cache_key_def dest: injD)
qed

text \<open>An entry was stored at a time at which its token was valid for its user.\<close>

definition entry_ok :: "'f id_env \<Rightarrow> id_world \<Rightarrow> string \<Rightarrow> cache_entry \<Rightarrow> bool" where
  "entry_ok env w k e \<longleftrightarrow> current (iw_db w) (ce_principal e) \<and>
     (\<exists>t token header. t \<le> iw_now w \<and> ce_until e = t + ttl_ms (ie_cache_ttl env) \<and> k = cache_key (ie_sha env token) header \<and>
       ie_verify env t token = Some (pr_sub (ce_principal e)) \<and> (header \<noteq> [] \<longrightarrow> pr_ws (ce_principal e) = header))"

definition coherent :: "'f id_env \<Rightarrow> id_world \<Rightarrow> bool" where
  "coherent env w \<longleftrightarrow> wf_map (iw_cache w) \<and> (\<forall>k e. mget (iw_cache w) k = Some e \<longrightarrow> entry_ok env w k e)"

lemma coherent_empty: "iw_cache w = [] \<Longrightarrow> coherent env w"
  by (simp add: coherent_def)

text \<open>A change of the world that leaves the cache a part of what it was, and the principals in it
  current, keeps it coherent.\<close>

lemma coherent_step:
  assumes "coherent env w" and "wf_map (iw_cache w')" and "iw_now w \<le> iw_now w'"
    and "\<And>k e. mget (iw_cache w') k = Some e \<Longrightarrow> mget (iw_cache w) k = Some e"
    and "\<And>k e. mget (iw_cache w') k = Some e \<Longrightarrow> current (iw_db w) (ce_principal e) \<Longrightarrow> current (iw_db w') (ce_principal e)"
  shows "coherent env w'"
  unfolding coherent_def
proof (intro conjI allI impI)
  fix k e assume e: "mget (iw_cache w') k = Some e"
  from assms(1,4) e have "entry_ok env w k e" by (simp add: coherent_def)
  with assms(3) assms(5) [OF e] show "entry_ok env w' k e" by (force simp: entry_ok_def)
qed (rule assms(2))

lemma invalidated:
  assumes "wf_map c" and "mget (invalidate_principal u c) k = Some e"
  shows "mget c k = Some e \<and> pr_sub (ce_principal e) \<noteq> u"
  using assms by (auto simp: invalidate_principal_def map_of_filter_distinct names_principal_def split: option.splits if_splits)

lemma coherent_invalidate:
  assumes ok: "coherent env w" and db: "\<And>p. pr_sub p \<noteq> u \<Longrightarrow> current db p = current (iw_db w) p"
  shows "coherent env (w\<lparr>iw_db := db, iw_cache := invalidate_principal u (iw_cache w)\<rparr>)"
proof (rule coherent_step [OF ok])
  have wf: "wf_map (iw_cache w)" using ok by (simp add: coherent_def)
  show "wf_map (iw_cache (w\<lparr>iw_db := db, iw_cache := invalidate_principal u (iw_cache w)\<rparr>))"
    using wf by (simp add: invalidate_principal_def wf_filter)
  fix k e assume e: "mget (iw_cache (w\<lparr>iw_db := db, iw_cache := invalidate_principal u (iw_cache w)\<rparr>)) k = Some e"
  then have i: "mget (iw_cache w) k = Some e \<and> pr_sub (ce_principal e) \<noteq> u" using invalidated [OF wf] by simp
  then show "mget (iw_cache w) k = Some e" ..
  assume "current (iw_db w) (ce_principal e)"
  then show "current (iw_db (w\<lparr>iw_db := db, iw_cache := invalidate_principal u (iw_cache w)\<rparr>)) (ce_principal e)"
    using db i by simp
qed simp

lemma coherent_db:
  assumes "coherent env w" and "\<And>p. current db p = current (iw_db w) p"
  shows "coherent env (w\<lparr>iw_db := db\<rparr>)"
  by (rule coherent_step [OF assms(1)]) (use assms in \<open>auto simp: coherent_def\<close>)

section \<open>Operations keep the cache coherent\<close>

text \<open>A program runs in a relation when every run of it, failed or not, leads from a world to a
  related one. A relation that is reflexive and transitive is passed on through the ways
  programs are composed.\<close>

definition runs_in :: "('w \<Rightarrow> 'w \<Rightarrow> bool) \<Rightarrow> ('w, 'a) prog \<Rightarrow> bool" where
  "runs_in R m \<longleftrightarrow> (\<forall>w. R w (snd (m w)))"

lemma runs_inD: "runs_in R m \<Longrightarrow> R w (snd (m w))"
  by (simp add: runs_in_def)

locale kept_relation =
  fixes R :: "'w \<Rightarrow> 'w \<Rightarrow> bool"
  assumes refl: "R w w" and trans: "R u v \<Longrightarrow> R v w \<Longrightarrow> R u w"
begin

lemma runs_simple: "runs_in R (ret x)" "runs_in R (throw e)" "runs_in R (gets f)"
  by (simp_all add: runs_in_def refl)

lemma runs_bind:
  assumes "runs_in R m" and "\<And>x. runs_in R (f x)"
  shows "runs_in R (bindM m f)"
  unfolding runs_in_def
proof
  fix w
  obtain r v where m: "m w = (r, v)" by (cases "m w")
  have "R w v" using runs_inD [OF assms(1), of w] by (simp add: m)
  then show "R w (snd (bindM m f w))"
    using trans [OF _ runs_inD [OF assms(2)]] by (simp add: bindM_run m split: sum.split)
qed

lemma runs_then: "runs_in R m \<Longrightarrow> runs_in R k \<Longrightarrow> runs_in R (thenM m k)"
  unfolding thenM_def by (rule runs_bind)

lemma runs_catch:
  assumes "runs_in R m" and "\<And>e. runs_in R (h e)"
  shows "runs_in R (catchM m h)"
  unfolding runs_in_def
proof
  fix w
  obtain r v where m: "m w = (r, v)" by (cases "m w")
  have "R w v" using runs_inD [OF assms(1), of w] by (simp add: m)
  then show "R w (snd (catchM m h w))"
    using trans [OF _ runs_inD [OF assms(2)]] by (simp add: catchM_run m split: sum.split)
qed

lemma runs_cases:
  "runs_in R a \<Longrightarrow> runs_in R b \<Longrightarrow> runs_in R (if c then a else b)"
  "runs_in R a \<Longrightarrow> (\<And>x. runs_in R (f x)) \<Longrightarrow> runs_in R (case y of None \<Rightarrow> a | Some x \<Rightarrow> f x)"
  by (simp_all split: option.split)

lemmas runs_intros = runs_simple runs_bind runs_then runs_catch runs_cases

end

definition coherence_kept :: "'f id_env \<Rightarrow> id_world \<Rightarrow> id_world \<Rightarrow> bool" where
  "coherence_kept env w w' \<longleftrightarrow> (coherent env w \<longrightarrow> coherent env w')"

interpretation coh: kept_relation "coherence_kept env" for env
  by unfold_locales (simp_all add: coherence_kept_def)

abbreviation keeps :: "'f id_env \<Rightarrow> (id_world, 'a) prog \<Rightarrow> bool" where
  "keeps env m \<equiv> runs_in (coherence_kept env) m"

lemma keeps_def: "keeps env m \<longleftrightarrow> (\<forall>w. coherent env w \<longrightarrow> coherent env (snd (m w)))"
  by (simp add: runs_in_def coherence_kept_def)

named_theorems keeps_intros "programs that keep the cache coherent"

lemmas keeps_prog [keeps_intros] = coh.runs_intros

lemma keeps_on_db:
  assumes "\<And>db. it_members (f db) = it_members db \<and> it_group_members (f db) = it_group_members db"
  shows "keeps env (on_id_db f)"
  using assms unfolding keeps_def on_id_db_def modifyM_run snd_conv
  by (intro allI impI coherent_db current_parts) simp_all

lemma keeps_on_flag:
  assumes "\<And>db. it_members (snd (f db)) = it_members db \<and> it_group_members (snd (f db)) = it_group_members db"
  shows "keeps env (on_id_flag f)"
  unfolding keeps_def
proof (intro allI impI)
  fix w assume "coherent env w"
  moreover obtain b db where "f (iw_db w) = (b, db)" by (cases "f (iw_db w)")
  ultimately show "coherent env (snd (on_id_flag f w))"
    using assms [of "iw_db w"] by (auto simp: on_id_flag_def intro!: coherent_db current_parts)
qed

lemma keeps_mutation:
  assumes "\<And>now db p. pr_sub p \<noteq> u \<Longrightarrow> current (f now db) p = current db p"
  shows "keeps env (bindM (gets iw_now) (\<lambda>now. thenM (on_id_db (f now)) (invalidate u)))"
  unfolding keeps_def
proof (intro allI impI)
  fix w assume w: "coherent env w"
  have "coherent env (w\<lparr>iw_db := f (iw_now w) (iw_db w), iw_cache := invalidate_principal u (iw_cache w)\<rparr>)"
    by (rule coherent_invalidate [OF w]) (rule assms)
  then show "coherent env (snd (bindM (gets iw_now) (\<lambda>now. thenM (on_id_db (f now)) (invalidate u)) w))"
    by (simp add: bindM_run thenM_run on_id_db_def invalidate_def)
qed

lemma keeps_removal:
  assumes "\<And>db p. pr_sub p \<noteq> u \<Longrightarrow> current (snd (f db)) p = current db p"
    and "\<And>db p. \<not> fst (f db) \<Longrightarrow> current (snd (f db)) p = current db p"
  shows "keeps env (bindM (on_id_flag f) (\<lambda>removed. thenM (if removed then invalidate u else ret ()) (ret removed)))"
  unfolding keeps_def
proof (intro allI impI)
  fix w assume w: "coherent env w"
  obtain b db where f: "f (iw_db w) = (b, db)" by (cases "f (iw_db w)")
  show "coherent env (snd (bindM (on_id_flag f) (\<lambda>removed. thenM (if removed then invalidate u else ret ()) (ret removed)) w))"
  proof (cases b)
    case True
    have "coherent env (w\<lparr>iw_db := db, iw_cache := invalidate_principal u (iw_cache w)\<rparr>)"
      by (rule coherent_invalidate [OF w]) (use assms(1) [of _ "iw_db w"] f in simp)
    with True f show ?thesis by (simp add: on_id_flag_def bindM_run thenM_run invalidate_def)
  next
    case False
    have "coherent env (w\<lparr>iw_db := db\<rparr>)" by (rule coherent_db [OF w]) (use assms(2) [of "iw_db w"] f False in simp)
    with False f show ?thesis by (simp add: on_id_flag_def bindM_run thenM_run)
  qed
qed

lemma current_session: "current (set_current_workspace raw now u ws ttl db) p = current db p"
  by (rule current_parts) (simp_all add: set_current_workspace_def)

lemma keeps_mutations [keeps_intros]:
  "keeps env (members_put ws u role)" "keeps env (members_remove ws u)" "keeps env (sessions_set_current env' u ws ttl)"
  "keeps env (group_members_add ws g u)" "keeps env (group_members_remove ws g u)"
  unfolding members_put_def members_remove_def sessions_set_current_def group_members_add_def group_members_remove_def
  by (rule keeps_mutation keeps_removal,
      simp_all add: current_put_other current_remove_other current_remove_absent current_group_add_other current_group_remove_other
        current_group_remove_absent current_session)+

end
