(* ===== verification/Identity_Properties.thy ===== *)
theory Identity_Properties
  imports Identity_Laws
begin

text \<open>
  What identity promises: a request is served with the membership, role and groups the store has
  at that time, whatever was cached; an invite is good for one membership; a workspace keeps its
  execution locus; a workspace does not lose its last administrator by removals.
\<close>

section \<open>Requests\<close>

lemma keeps_cache_lookup:
  assumes "coherent env w"
  shows "coherent env (w\<lparr>iw_cache := snd (get_cached_principal (iw_now w) h x (iw_cache w))\<rparr>)"
proof -
  have wf: "wf_map (iw_cache w)" using assms by (simp add: coherent_def)
  show ?thesis
    by (rule coherent_step [OF assms])
      (use wf in \<open>auto simp: get_cached_principal_def split: option.splits if_splits\<close>)
qed

lemma coherent_store:
  assumes ok: "coherent env w" and cur: "current (iw_db w) p" and v: "ie_verify env (iw_now w) token = Some (pr_sub p)"
    and hd: "header \<noteq> [] \<longrightarrow> pr_ws p = header"
  shows "coherent env (w\<lparr>iw_cache := set_cached_principal (ie_cache_ttl env) (iw_now w) (ie_sha env token) header p (iw_cache w)\<rparr>)"
  unfolding coherent_def
proof (intro conjI allI impI)
  let ?w = "w\<lparr>iw_cache := set_cached_principal (ie_cache_ttl env) (iw_now w) (ie_sha env token) header p (iw_cache w)\<rparr>"
  show "wf_map (iw_cache ?w)" using ok by (simp add: coherent_def set_cached_principal_def)
  fix k e assume e: "mget (iw_cache ?w) k = Some e"
  show "entry_ok env ?w k e"
  proof (cases "k = cache_key (ie_sha env token) header")
    case True
    with e have "e = \<lparr>ce_principal = p, ce_until = iw_now w + ttl_ms (ie_cache_ttl env)\<rparr>" by (simp add: set_cached_principal_def)
    then show ?thesis using cur v hd True unfolding entry_ok_def by fastforce
  next
    case False
    with e have "mget (iw_cache w) k = Some e" by (simp add: set_cached_principal_def)
    then have "entry_ok env w k e" using ok by (simp add: coherent_def)
    then show ?thesis by (simp add: entry_ok_def)
  qed
qed

definition served :: "'f id_env \<Rightarrow> id_world \<Rightarrow> string option \<Rightarrow> string \<Rightarrow> principal \<Rightarrow> bool" where
  "served env w token header p \<longleftrightarrow> current (iw_db w) p \<and> (header \<noteq> [] \<longrightarrow> pr_ws p = header) \<and>
     (\<exists>t x. token = Some x \<and> iw_now w - ttl_ms (ie_cache_ttl env) < t \<and> t \<le> iw_now w \<and> ie_verify env t x = Some (pr_sub p))"

lemma ttl_pos: "0 < ttl_ms raw"
  by (simp add: ttl_ms_def DEFAULT_TTL_MS_def split: option.split)

text \<open>A resolved principal is served, the store is not changed and the cache stays coherent.\<close>

lemma oidc_principal_run:
  assumes ok: "coherent env w" and sha: "digest_ok (ie_sha env)"
  obtains r c where "oidc_principal env token header w = (r, w\<lparr>iw_cache := c\<rparr>)" "coherent env (w\<lparr>iw_cache := c\<rparr>)"
    "\<forall>p. r = Inr p \<longrightarrow> served env w token header p"
proof (cases "truthy token")
  case False
  then show thesis using ok by (intro that [of "Inl (PlainError ''missing_token'')" "iw_cache w"]) (simp_all add: oidc_principal_def)
next
  case True
  then obtain x where x: "token = Some x" by (cases token) (simp_all add: truthy_def)
  obtain q c where q: "get_cached_principal (iw_now w) (ie_sha env x) header (iw_cache w) = (q, c)"
    by (cases "get_cached_principal (iw_now w) (ie_sha env x) header (iw_cache w)")
  let ?w = "w\<lparr>iw_cache := c\<rparr>"
  have ok': "coherent env ?w" using keeps_cache_lookup [OF ok, of "ie_sha env x" header] q by simp
  show thesis
  proof (cases q)
    case (Some p)
    have run: "oidc_principal env token header w = (Inr p, ?w)" using True x q Some by (simp add: oidc_principal_def bindM_run)
    from q Some obtain e where e: "mget (iw_cache w) (cache_key (ie_sha env x) header) = Some e" "ce_principal e = p" "iw_now w < ce_until e"
      by (auto simp: get_cached_principal_def split: option.splits if_splits)
    have "entry_ok env w (cache_key (ie_sha env x) header) e" using ok e(1) by (simp add: coherent_def)
    then obtain t y h where t: "current (iw_db w) p" "t \<le> iw_now w" "ce_until e = t + ttl_ms (ie_cache_ttl env)"
      "cache_key (ie_sha env x) header = cache_key (ie_sha env y) h" "ie_verify env t y = Some (pr_sub p)" "h \<noteq> [] \<longrightarrow> pr_ws p = h"
      using e(2) by (auto simp: entry_ok_def)
    have "x = y \<and> header = h" by (rule cache_key_inj [OF sha t(4)])
    then have "served env w token header p" using t e(3) x unfolding served_def by force
    with run ok' show thesis by (intro that [of "Inr p" c]) auto
  next
    case None
    note start = True x q None
    show thesis
    proof (cases "ie_verify env (iw_now w) x")
      case None
      then show thesis using start ok'
        by (intro that [of "Inl (PlainError ''invalid_token'')" c]) (simp_all add: oidc_principal_def bindM_run verify_access_token_def)
    next
      case (Some sub)
      let ?f = "workspace_of (iw_now w) (iw_db w) header sub"
      show thesis
      proof (cases "sub = [] \<or> \<not> truthy ?f \<or> get_membership (iw_db w) (the ?f) sub = None")
        case True
        then show thesis using start ok' Some
          by (intro that [of "fst (oidc_principal env token header w)" c])
            (auto simp: oidc_principal_def bindM_run verify_access_token_def)
      next
        case False
        then obtain m where m: "get_membership (iw_db w) (the ?f) sub = Some m" by blast
        let ?p = "\<lparr>pr_sub = sub, pr_ws = the ?f, pr_role = mb_role m, pr_groups = list_group_ids_for_user (iw_db w) (the ?f) sub\<rparr>"
        let ?c = "set_cached_principal (ie_cache_ttl env) (iw_now w) (ie_sha env x) header ?p c"
        have run: "oidc_principal env token header w = (Inr ?p, w\<lparr>iw_cache := ?c\<rparr>)"
          using start Some False m by (simp add: oidc_principal_def bindM_run thenM_run verify_access_token_def Let_def)
        have cur: "current (iw_db w) ?p" using m by (simp add: current_def)
        have hd: "header \<noteq> [] \<longrightarrow> pr_ws ?p = header" by (simp add: workspace_of_def)
        have "coherent env (?w\<lparr>iw_cache := ?c\<rparr>)"
          using coherent_store [OF ok', of ?p x header] cur hd Some by simp
        then have "coherent env (w\<lparr>iw_cache := ?c\<rparr>)" by simp
        moreover have "served env w token header ?p"
          using cur hd x Some ttl_pos [of "ie_cache_ttl env"] unfolding served_def by (intro conjI exI [of _ "iw_now w"] exI [of _ x]) simp_all
        ultimately show thesis using run by (intro that [of "Inr ?p" ?c]) auto
      qed
    qed
  qed
qed

lemma keeps_principal [keeps_intros]: "digest_ok (ie_sha env) \<Longrightarrow> keeps env (oidc_principal env token header)"
  unfolding keeps_def by (metis oidc_principal_run snd_conv)

section \<open>Handlers\<close>

lemma keeps_verify [keeps_intros]: "keeps env (verify_access_token env' x)"
  by (auto simp: keeps_def verify_access_token_def split: option.split)

lemma keeps_world:
  assumes "\<And>w. iw_cache (snd (m w)) = iw_cache w \<and> iw_now (snd (m w)) = iw_now w \<and> it_members (iw_db (snd (m w))) = it_members (iw_db w) \<and>
    it_group_members (iw_db (snd (m w))) = it_group_members (iw_db w)"
  shows "keeps env m"
  unfolding keeps_def
proof (intro allI impI)
  fix w assume w: "coherent env w"
  show "coherent env (snd (m w))"
    by (rule coherent_step [OF w]) (use w assms [of w] current_parts [of "iw_db (snd (m w))" "iw_db w"] in \<open>auto simp: coherent_def\<close>)
qed

lemma keeps_fresh [keeps_intros]: "keeps env (fresh_id env')"
  by (rule keeps_world) (simp add: fresh_id_def)

lemma consume_parts: "consume_invite_row now token db =
    (case consume_read now db token of Inl e \<Rightarrow> (Inl e, db) | Inr None \<Rightarrow> (Inr None, db) | Inr (Some i) \<Rightarrow> (Inr (Some i), consume_delete token db))"
  by (simp add: consume_invite_row_def bindM_run thenM_run split: sum.split option.split)

lemma keeps_tables [keeps_intros]:
  "keeps env (on_id_db (set_active_workspace_id now u ws))" "keeps env (on_id_db (put_workspace now r))"
  "keeps env (on_id_db (create_group_row now g ws name desc))" "keeps env (on_id_db (grant_permission now i ws caller prov oper u))"
  by (rule keeps_on_db, simp add: set_active_workspace_id_def put_workspace_def create_group_row_def grant_permission_def)+

lemma keeps_flags [keeps_intros]:
  "keeps env (on_id_flag (revoke_invite_row now token))" "keeps env (on_id_flag (revoke_permission ws i))"
  by (rule keeps_on_flag, simp add: revoke_invite_row_def revoke_permission_def Let_def split: option.split)+

lemma keeps_rows [keeps_intros]:
  "keeps env (consume_token token)" "keeps env (add_invited_participant env' ws iid u actor)" "keeps env (group_patch p g name desc)"
  by (rule keeps_world, auto simp: consume_token_def zoom_run consume_parts consume_delete_def add_invited_participant_def group_patch_def
      update_group_row_def Let_def split: sum.split option.split prod.split)+

lemma keeps_create_invite [keeps_intros]: "keeps env (create_invite env' p email role gs target)"
  by (rule keeps_world) (simp add: create_invite_def bindM_run fresh_id_def create_invite_row_def Let_def)

lemma keeps_add_to_groups [keeps_intros]: "keeps env (add_to_groups ws gs u)"
  by (induction gs) (simp_all only: add_to_groups.simps keeps_intros)

lemma keeps_consume_invite [keeps_intros]: "keeps env (consume_invite env' token u)"
  unfolding consume_invite_def by (intro keeps_intros)

lemma keeps_handlers [keeps_intros]:
  "keeps env (delete_member p target)" "keeps env (group_create env' p name desc)" "keeps env (group_add_user p g u)"
  "keeps env (group_remove_user p g u)" "keeps env (delete_invite p token)" "keeps env (accept_invite env' bearer token)"
  "keeps env (select_active_workspace env' u ws)" "keeps env (create_workspace env' input)" "keeps env (update_workspace ws patch)"
  "keeps env (permission_grant env' p caller prov oper)" "keeps env (permission_revoke p i)"
  unfolding delete_member_def group_create_def group_add_user_def group_remove_user_def delete_invite_def accept_invite_def
    select_active_workspace_def create_workspace_def update_workspace_def permission_grant_def permission_revoke_def Let_def
  by (intro keeps_intros)+

text \<open>The steps of a process: requests and handlers run in any order, and time passes. The deletion of
  a group is left out. A process starts with an empty cache.\<close>

inductive id_step :: "'f id_env \<Rightarrow> id_world \<Rightarrow> id_world \<Rightarrow> bool" for env w where
  wait: "iw_now w \<le> t \<Longrightarrow> id_step env w (w\<lparr>iw_now := t\<rparr>)"
| request: "id_step env w (snd (oidc_principal env token header w))"
| member: "id_step env w (snd (members_put ws u role w))"
| leave: "id_step env w (snd (members_remove ws u w))"
| remove: "id_step env w (snd (delete_member p u w))"
| choose: "id_step env w (snd (select_active_workspace env u ws w))"
| group: "id_step env w (snd (group_create env p name desc w))"
| regroup: "id_step env w (snd (group_patch p g newname desc w))"
| join_group: "id_step env w (snd (group_add_user p g u w))"
| leave_group: "id_step env w (snd (group_remove_user p g u w))"
| invite: "id_step env w (snd (create_invite env p email role' gs target w))"
| uninvite: "id_step env w (snd (delete_invite p tok w))"
| accept: "id_step env w (snd (accept_invite env bearer tok w))"
| create_ws: "id_step env w (snd (create_workspace env input w))"
| update_ws: "id_step env w (snd (update_workspace ws patch w))"
| permit: "id_step env w (snd (permission_grant env p caller prov oper w))"
| forbid: "id_step env w (snd (permission_revoke p i w))"

definition id_reach :: "'f id_env \<Rightarrow> id_world \<Rightarrow> bool" where
  "id_reach env w \<longleftrightarrow> (\<exists>w0. iw_cache w0 = [] \<and> (id_step env)\<^sup>*\<^sup>* w0 w)"

lemma coherent_wait:
  assumes "iw_now w \<le> t"
  shows "coherence_kept env w (w\<lparr>iw_now := t\<rparr>)"
  unfolding coherence_kept_def
proof
  assume ok: "coherent env w"
  then have "wf_map (iw_cache w)" by (simp add: coherent_def)
  then show "coherent env (w\<lparr>iw_now := t\<rparr>)" by (intro coherent_step [OF ok]) (use assms in simp_all)
qed

lemma step_coherent:
  assumes "id_step env w w'" and sha: "digest_ok (ie_sha env)"
  shows "coherence_kept env w w'"
  using assms(1)
proof cases
  case (wait t)
  then show ?thesis by (simp add: coherent_wait)
qed (simp only:, rule runs_inD, (rule keeps_handlers keeps_principal [OF sha] keeps_mutations keeps_rows keeps_create_invite))+

lemma reach_coherent:
  assumes "id_reach env w" and sha: "digest_ok (ie_sha env)"
  shows "coherent env w"
proof -
  obtain w0 where w0: "iw_cache w0 = []" "(id_step env)\<^sup>*\<^sup>* w0 w" using assms(1) by (auto simp: id_reach_def)
  from w0(2) have "coherence_kept env w0 w"
    by (induction rule: rtranclp_induct) (blast intro: coh.refl coh.trans step_coherent [OF _ sha])+
  then show ?thesis using coherent_empty [OF w0(1), of env] by (simp add: coherence_kept_def)
qed

text \<open>
  C31: in a process that starts without cached principals, after any history of its own requests -
  members, groups, invites, workspaces and permissions changed through the invalidating store, but
  no group deleted, and no other process changing the tables - a request that resolves to a
  principal resolves to the role the store has for that user in that workspace and to the groups
  it has there, in the workspace the request names, for a token that was valid for the user within
  the lifetime of the cache; resolving changes nothing in the store. (Deleting a group leaves it in
  cached principals, \<^verbatim>\<open>deleted_group_still_held\<close>.)
\<close>

theorem auth_principal_current:
  assumes reach: "id_reach env w" and sha: "digest_ok (ie_sha env)" and run: "oidc_principal env token header w = (Inr p, w')"
  shows "map_option mb_role (get_membership (iw_db w) (pr_ws p) (pr_sub p)) = Some (pr_role p) \<and>
    pr_groups p = list_group_ids_for_user (iw_db w) (pr_ws p) (pr_sub p) \<and> (header \<noteq> [] \<longrightarrow> pr_ws p = header) \<and>
    (\<exists>t x. token = Some x \<and> iw_now w - ttl_ms (ie_cache_ttl env) < t \<and> t \<le> iw_now w \<and> ie_verify env t x = Some (pr_sub p)) \<and>
    iw_db w' = iw_db w"
proof -
  obtain r c where "oidc_principal env token header w = (r, w\<lparr>iw_cache := c\<rparr>)" "\<forall>p. r = Inr p \<longrightarrow> served env w token header p"
    by (rule oidc_principal_run [OF reach_coherent [OF reach sha] sha])
  with run have "w' = w\<lparr>iw_cache := c\<rparr>" "served env w token header p" by simp_all
  then show ?thesis by (simp add: served_def current_def)
qed

section \<open>Administrators\<close>

definition is_admin :: "id_db \<Rightarrow> string \<Rightarrow> string \<Rightarrow> bool" where
  "is_admin db ws u \<longleftrightarrow> map_option mb_role (get_membership db ws u) = Some ''admin''"

lemma delete_member_db:
  "iw_db (snd (delete_member p target w)) =
    (if target = pr_sub p then iw_db w else snd (remove_membership (pr_ws p) target (iw_db w)))"
  by (simp add: delete_member_def members_remove_def on_id_flag_def invalidate_def bindM_run thenM_run split: prod.split)

text \<open>
  C32: removing members never leaves a workspace that has an administrator without one: the caller
  is an administrator in the store, not only in the cache, and cannot remove itself.
\<close>

theorem removal_keeps_admin:
  assumes reach: "id_reach env w" and sha: "digest_ok (ie_sha env)" and oidc: "ie_oidc env"
    and run: "as_admin env token header (\<lambda>p. delete_member p target) w = (r, w')" and admin: "is_admin (iw_db w) ws a"
  shows "\<exists>b. is_admin (iw_db w') ws b"
proof -
  obtain q c where q: "oidc_principal env token header w = (q, w\<lparr>iw_cache := c\<rparr>)" "\<forall>p. q = Inr p \<longrightarrow> served env w token header p"
    by (rule oidc_principal_run [OF reach_coherent [OF reach sha] sha])
  have auth: "require_auth env token header w = (case q of Inl e \<Rightarrow> Inl (auth_response e) | Inr p \<Rightarrow> Inr p, w\<lparr>iw_cache := c\<rparr>)"
    using q(1) oidc by (simp add: require_auth_def resolve_principal_def catchM_run split: sum.split)
  show ?thesis
  proof (cases "\<exists>p. q = Inr p \<and> pr_role p = ''admin''")
    case False
    then have "iw_db w' = iw_db w" using run auth
      by (auto simp: as_admin_def bindM_run thenM_run require_admin_def split: sum.splits if_splits)
    with admin show ?thesis by auto
  next
    case True
    then obtain p where p: "q = Inr p" "pr_role p = ''admin''" by blast
    have "w' = snd (delete_member p target (w\<lparr>iw_cache := c\<rparr>))"
      using run auth p by (simp add: as_admin_def bindM_run thenM_run require_admin_def)
    then have db: "iw_db w' = (if target = pr_sub p then iw_db w else snd (remove_membership (pr_ws p) target (iw_db w)))"
      by (simp add: delete_member_db)
    have "is_admin (iw_db w) (pr_ws p) (pr_sub p)" using q(2) p by (simp add: served_def current_def is_admin_def)
    then have "ws = pr_ws p \<Longrightarrow> is_admin (iw_db w') ws (pr_sub p)"
      using db by (auto simp: is_admin_def remove_membership_def get_membership_def)
    moreover have "ws \<noteq> pr_ws p \<Longrightarrow> is_admin (iw_db w') ws a"
      using admin db by (auto simp: is_admin_def remove_membership_def get_membership_def)
    ultimately show ?thesis by blast
  qed
qed

section \<open>Invites\<close>

lemma add_to_groups_run:
  "\<exists>c db. add_to_groups ws gs u w = (Inr (), w\<lparr>iw_db := db, iw_cache := c\<rparr>) \<and> it_members db = it_members (iw_db w) \<and>
     it_invites db = it_invites (iw_db w) \<and>
     (\<forall>k. mget (it_group_members db) k \<noteq> None \<longleftrightarrow> mget (it_group_members (iw_db w)) k \<noteq> None \<or> (\<exists>g \<in> set gs. k = (ws, g, u)))"
proof (induction gs arbitrary: w)
  case Nil
  show ?case by (rule exI [of _ "iw_cache w"], rule exI [of _ "iw_db w"]) simp
next
  case (Cons g gs)
  let ?w = "w\<lparr>iw_db := add_group_member (iw_now w) ws g u (iw_db w), iw_cache := invalidate_principal u (iw_cache w)\<rparr>"
  have step: "add_to_groups ws (g # gs) u w = add_to_groups ws gs u ?w"
    by (simp add: thenM_run group_members_add_def bindM_run on_id_db_def invalidate_def)
  obtain c db where r: "add_to_groups ws gs u ?w = (Inr (), ?w\<lparr>iw_db := db, iw_cache := c\<rparr>)" "it_members db = it_members (iw_db ?w)"
    "it_invites db = it_invites (iw_db ?w)"
    "\<forall>k. mget (it_group_members db) k \<noteq> None \<longleftrightarrow> mget (it_group_members (iw_db ?w)) k \<noteq> None \<or> (\<exists>g \<in> set gs. k = (ws, g, u))"
    using Cons.IH [of ?w] by blast
  have "mget (it_group_members (iw_db ?w)) k \<noteq> None \<longleftrightarrow> mget (it_group_members (iw_db w)) k \<noteq> None \<or> k = (ws, g, u)" for k
    by (auto simp: add_group_member_def)
  with r show ?case unfolding step by (intro exI [of _ c] exI [of _ db]) (auto simp: add_group_member_def)
qed

text \<open>
  C33: a verified user accepts an invite to a workspace, that is, one without an application instance as
  its target. After its deadline it is refused and nothing changes. Before, the user gets the role
  of the invite in its workspace, whatever role it had, and is added to the groups of the invite;
  no other role or group membership changes, no other invite does, and the invite is used up: a
  second acceptance is refused.
\<close>

theorem invite_accept_exact:
  assumes v: "ie_verify env (iw_now w) bearer = Some u" "u \<noteq> []" "bearer \<noteq> []"
    and row: "mget (it_invites (iw_db w)) token = Some r" "parse_invite_target (iv_target r) = None"
  shows "if iv_expires r \<le> now_epoch (iw_now w) then accept_invite env (Some bearer) token w = (Inl (ServiceError ''Invite expired'' 410), w)
    else \<exists>w'. accept_invite env (Some bearer) token w = (Inr (to_invite token r), w') \<and>
      (\<forall>ws x. map_option mb_role (get_membership (iw_db w') ws x) =
        (if ws = iv_ws r \<and> x = u then Some (in_role (to_invite token r)) else map_option mb_role (get_membership (iw_db w) ws x))) \<and>
      (\<forall>k. mget (it_group_members (iw_db w')) k \<noteq> None \<longleftrightarrow> mget (it_group_members (iw_db w)) k \<noteq> None \<or>
        (\<exists>g \<in> set (in_groups (to_invite token r)). k = (iv_ws r, g, u))) \<and>
      (\<forall>t. t \<noteq> token \<longrightarrow> mget (it_invites (iw_db w')) t = mget (it_invites (iw_db w)) t) \<and>
      accept_invite env (Some bearer) token w' = (Inl (ServiceError ''Invite not found'' 404), w')"
proof -
  let ?i = "to_invite token r"
  have head: "accept_invite env (Some bearer) token x =
      (case consume_invite env token u x of (Inl e, y) \<Rightarrow> (Inl (consume_response e), y) | (Inr None, y) \<Rightarrow> (Inl (ServiceError ''Invite not found'' 404), y)
       | (Inr (Some i), y) \<Rightarrow> (if in_target i \<noteq> None then ret i
            else thenM (members_put (in_ws i) u (Some (in_role i))) (thenM (add_to_groups (in_ws i) (in_groups i) u) (ret i))) y)"
    if "iw_now x = iw_now w" for x
    using v that by (simp add: accept_invite_def truthy_def bindM_run catchM_run verify_access_token_def split: prod.split sum.split option.split)
  have i: "in_ws ?i = iv_ws r" "in_target ?i = None" using row(2) by (simp_all add: to_invite_def)
  show ?thesis
  proof (cases "iv_expires r \<le> now_epoch (iw_now w)")
    case True
    then have "consume_invite env token u w = (Inl (PlainError ''Invite expired''), w)"
      using row(1) by (simp add: consume_invite_def bindM_run get_invite_row_def consume_token_def zoom_run consume_parts consume_read_def)
    with True show ?thesis by (simp add: head consume_response_def)
  next
    case False
    let ?w1 = "w\<lparr>iw_db := consume_delete token (iw_db w)\<rparr>"
    have use: "consume_invite env token u w = (Inr (Some ?i), ?w1)"
      using row False by (simp add: consume_invite_def bindM_run thenM_run get_invite_row_def consume_token_def zoom_run consume_parts consume_read_def
          to_invite_def)
    let ?db2 = "put_membership (iw_now w) (iv_ws r) u (Some (in_role ?i)) None (iw_db ?w1)"
    let ?w2 = "?w1\<lparr>iw_db := ?db2, iw_cache := invalidate_principal u (iw_cache w)\<rparr>"
    have put: "members_put (iv_ws r) u (Some (in_role ?i)) ?w1 = (Inr (), ?w2)"
      by (simp add: members_put_def bindM_run thenM_run on_id_db_def invalidate_def)
    obtain c db where g: "add_to_groups (iv_ws r) (in_groups ?i) u ?w2 = (Inr (), ?w2\<lparr>iw_db := db, iw_cache := c\<rparr>)"
      "it_members db = it_members ?db2" "it_invites db = it_invites ?db2"
      "\<forall>k. mget (it_group_members db) k \<noteq> None \<longleftrightarrow> mget (it_group_members ?db2) k \<noteq> None \<or> (\<exists>g \<in> set (in_groups ?i). k = (iv_ws r, g, u))"
      using add_to_groups_run [of "iv_ws r" "in_groups ?i" u ?w2] by auto
    let ?w' = "?w2\<lparr>iw_db := db, iw_cache := c\<rparr>"
    have run: "accept_invite env (Some bearer) token w = (Inr ?i, ?w')"
      using use put g(1) i by (simp add: head thenM_run)
    have inv: "mget (it_invites db) t = (if t = token then None else mget (it_invites (iw_db w)) t)" for t
      by (simp add: g(3) put_membership_def consume_delete_def Let_def)
    have "consume_invite env token u ?w' = (Inr None, ?w')"
      by (simp add: consume_invite_def bindM_run get_invite_row_def consume_token_def zoom_run consume_parts consume_read_def inv)
    then have again: "accept_invite env (Some bearer) token ?w' = (Inl (ServiceError ''Invite not found'' 404), ?w')"
      by (simp add: head)
    have mem: "map_option mb_role (get_membership db ws x) =
        (if ws = iv_ws r \<and> x = u then Some (in_role ?i) else map_option mb_role (get_membership (iw_db w) ws x))" for ws x
      by (simp add: get_membership_def g(2) put_membership_def consume_delete_def Let_def split: option.split)
    have grp: "it_group_members ?db2 = it_group_members (iw_db w)" by (simp add: put_membership_def consume_delete_def Let_def)
    show ?thesis using False run again mem inv g(4) unfolding grp
      by (intro if_not_P [THEN iffD2] exI [of _ ?w'] conjI) simp_all
  qed
qed

section \<open>The locus of a workspace\<close>

definition locus_kept :: "id_world \<Rightarrow> id_world \<Rightarrow> bool" where
  "locus_kept w w' \<longleftrightarrow> (\<forall>ws r. mget (it_workspaces (iw_db w)) ws = Some r \<longrightarrow>
     (\<exists>r'. mget (it_workspaces (iw_db w')) ws = Some r' \<and> wk_locus r' = wk_locus r))"

interpretation loc: kept_relation locus_kept
proof unfold_locales
  show "locus_kept w w" for w by (simp add: locus_kept_def)
  show "locus_kept u v \<Longrightarrow> locus_kept v w \<Longrightarrow> locus_kept u w" for u v w unfolding locus_kept_def by metis
qed

named_theorems locus_intros "programs that keep the locus of every workspace"

lemmas locus_prog [locus_intros] = loc.runs_intros

lemma locus_same: "(\<And>w. it_workspaces (iw_db (snd (m w))) = it_workspaces (iw_db w)) \<Longrightarrow> runs_in locus_kept m"
  by (simp add: runs_in_def locus_kept_def)

lemma locus_put [locus_intros]: "runs_in locus_kept (on_id_db (put_workspace now r))"
  by (auto simp: runs_in_def locus_kept_def on_id_db_def put_workspace_def)

lemma locus_tables [locus_intros]:
  "runs_in locus_kept (on_id_db (set_active_workspace_id now u ws))" "runs_in locus_kept (on_id_db (create_group_row now g ws name desc))"
  "runs_in locus_kept (on_id_db (grant_permission now i ws caller prov oper u))" "runs_in locus_kept (on_id_db (put_membership now ws u role cr))"
  "runs_in locus_kept (on_id_db (set_current_workspace raw now u ws ttl))" "runs_in locus_kept (on_id_db (add_group_member now ws g u))"
  by (rule locus_same, simp add: on_id_db_def set_active_workspace_id_def create_group_row_def grant_permission_def put_membership_def
      set_current_workspace_def add_group_member_def Let_def)+

lemma locus_flags [locus_intros]:
  "runs_in locus_kept (on_id_flag (revoke_invite_row now token))" "runs_in locus_kept (on_id_flag (revoke_permission ws i))"
  "runs_in locus_kept (on_id_flag (remove_membership ws u))" "runs_in locus_kept (on_id_flag (remove_group_member ws g u))"
  by (rule locus_same, simp add: on_id_flag_def revoke_invite_row_def revoke_permission_def remove_membership_def remove_group_member_def Let_def
      split: option.split prod.split)+

lemma locus_rows [locus_intros]:
  "runs_in locus_kept (consume_token token)" "runs_in locus_kept (add_invited_participant env ws iid u actor)"
  "runs_in locus_kept (group_patch p g name desc)" "runs_in locus_kept (create_invite env p email role gs target)"
  "runs_in locus_kept (fresh_id env)" "runs_in locus_kept (invalidate u)" "runs_in locus_kept (verify_access_token env x)"
  by (rule locus_same, auto simp: consume_token_def zoom_run consume_parts consume_delete_def add_invited_participant_def group_patch_def
      update_group_row_def create_invite_def bindM_run fresh_id_def create_invite_row_def invalidate_def verify_access_token_def Let_def
      split: sum.split option.split prod.split)+

lemma locus_principal [locus_intros]: "runs_in locus_kept (oidc_principal env token header)"
  by (rule locus_same) (auto simp: oidc_principal_def bindM_run thenM_run verify_access_token_def Let_def split: sum.split option.split prod.split)

lemma locus_mutations [locus_intros]:
  "runs_in locus_kept (members_put ws u role)" "runs_in locus_kept (members_remove ws u)" "runs_in locus_kept (sessions_set_current env u ws ttl)"
  "runs_in locus_kept (group_members_add ws g u)" "runs_in locus_kept (group_members_remove ws g u)"
  unfolding members_put_def members_remove_def sessions_set_current_def group_members_add_def group_members_remove_def
  by (intro locus_intros)+

lemma locus_add_to_groups [locus_intros]: "runs_in locus_kept (add_to_groups ws gs u)"
  by (induction gs) (simp_all only: add_to_groups.simps locus_intros)

lemma locus_handlers:
  "runs_in locus_kept (delete_member p target)" "runs_in locus_kept (group_create env p name desc)" "runs_in locus_kept (group_add_user p g u)"
  "runs_in locus_kept (group_remove_user p g u)" "runs_in locus_kept (delete_invite p token)" "runs_in locus_kept (accept_invite env bearer token)"
  "runs_in locus_kept (select_active_workspace env u ws)" "runs_in locus_kept (create_workspace env input)" "runs_in locus_kept (update_workspace ws patch)"
  "runs_in locus_kept (permission_grant env p caller prov oper)" "runs_in locus_kept (permission_revoke p i)"
  unfolding delete_member_def group_create_def group_add_user_def group_remove_user_def delete_invite_def accept_invite_def consume_invite_def
    select_active_workspace_def create_workspace_def update_workspace_def permission_grant_def permission_revoke_def Let_def
  by (intro locus_intros)+

lemma step_locus: "id_step env w w' \<Longrightarrow> locus_kept w w'"
proof (induction rule: id_step.induct)
  case (wait t)
  then show ?case by (simp add: locus_kept_def)
qed (rule runs_inD, (rule locus_handlers locus_principal locus_mutations locus_rows))+

text \<open>
  C34: the execution locus of a workspace is fixed when its row is created: no sequence of
  operations changes it, and no row disappears.
\<close>

theorem workspace_locus_fixed:
  assumes "(id_step env)\<^sup>*\<^sup>* w w'" and "mget (it_workspaces (iw_db w)) ws = Some r"
  shows "\<exists>r'. mget (it_workspaces (iw_db w')) ws = Some r' \<and> wk_locus r' = wk_locus r"
proof -
  from assms(1) have "locus_kept w w'" by (induction rule: rtranclp_induct) (blast intro: loc.refl loc.trans step_locus)+
  with assms(2) show ?thesis by (simp add: locus_kept_def)
qed

section \<open>What the store leaves behind\<close>

text \<open>Removing a member leaves its group rows: whoever comes back has the groups again.\<close>

lemma removed_member_keeps_groups:
  "list_group_ids_for_user (snd (remove_membership ws u db)) ws u = list_group_ids_for_user db ws u"
  by (simp add: list_group_ids_for_user_def remove_membership_def)

text \<open>On DSQL an API key is accepted whatever its expiry.\<close>

lemma expired_key_accepted_dsql:
  assumes "it_backend db = Dsql" and "find (\<lambda>(k, r). ky_hash r = sha secret) (it_keys db) = Some (k, r)"
  shows "verify_api_key sha now db secret = Some (k, r)"
  using assms by (simp add: verify_api_key_def bigint_is_number_def split: option.split)

section \<open>An instance\<close>

definition demo_sha :: "string \<Rightarrow> string" where
  "demo_sha x = concat (map (\<lambda>c. replicate (of_char c) CHR ''a'' @ ''b'') x)"

lemma unary_inj: "replicate n (CHR ''a'') @ CHR ''b'' # x = replicate m (CHR ''a'') @ CHR ''b'' # y \<Longrightarrow> n = m \<and> x = y"
proof (induction n arbitrary: m)
  case 0
  then show ?case by (cases m) simp_all
next
  case (Suc n)
  then show ?case by (cases m) auto
qed

lemma demo_digest: "digest_ok demo_sha"
proof -
  have "demo_sha x = demo_sha y \<Longrightarrow> x = y" for x y
  proof (induction x arbitrary: y)
    case Nil
    then show ?case by (cases y) (simp_all add: demo_sha_def)
  next
    case (Cons c x)
    then obtain d z where y: "y = d # z" by (cases y) (simp_all add: demo_sha_def)
    have "replicate (of_char c) (CHR ''a'') @ CHR ''b'' # demo_sha x = replicate (of_char d) (CHR ''a'') @ CHR ''b'' # demo_sha z"
      using Cons.prems by (simp add: y demo_sha_def)
    from unary_inj [OF this] have "(of_char c :: nat) = of_char d" "demo_sha x = demo_sha z" by simp_all
    then show ?case using Cons.IH by (simp add: y)
  qed
  moreover have "CHR '':'' \<notin> set (demo_sha x)" for x by (induction x) (auto simp: demo_sha_def)
  ultimately show ?thesis by (simp add: digest_ok_def inj_def)
qed

definition demo_id_env :: "unit id_env" where
  "demo_id_env = \<lparr>ie_sha = demo_sha, ie_uuid = (\<lambda>n. ''id''), ie_verify = (\<lambda>t x. if x = ''tu'' then Some ''u'' else if x = ''tv'' then Some ''v'' else None),
     ie_oidc = True, ie_cache_ttl = None, ie_session_ttl = None, ie_cipher = (\<lambda>k. None),
     ie_insts = \<lparr>ie_install = (\<lambda>w a. None), ie_member = (\<lambda>w u. False), ie_file_sizes = (\<lambda>w p f. []), ie_remove_prefix = (\<lambda>w p f. f)\<rparr>\<rparr>"

definition demo_id_db :: id_db where
  "demo_id_db = \<lparr>it_backend = Sqlite, it_users = [],
     it_workspaces = [(''w'', \<lparr>wk_name = Some ''W'', wk_plan = None, wk_locus = Some ''local'', wk_data = None, wk_vfs = None, wk_created = None, wk_updated = None\<rparr>)],
     it_members = [((''w'', ''u''), \<lparr>mb_role = ''admin'', mb_created = None\<rparr>), ((''w'', ''v''), \<lparr>mb_role = ''member'', mb_created = None\<rparr>)],
     it_sessions = [], it_invites = [(''i'', \<lparr>iv_email = ''e'', iv_ws = ''w'', iv_role = Some ''member'', iv_groups = JArr [JStr ''g''],
       iv_by = Some ''v'', iv_created = None, iv_expires = 100, iv_target = JNull\<rparr>)],
     it_groups = [((''w'', ''g''), \<lparr>gr_name = ''G'', gr_description = None, gr_created = [], gr_updated = []\<rparr>)],
     it_group_members = [((''w'', ''g'', ''v''), [])], it_perms = [], it_keys = []\<rparr>"

definition demo_id_world :: id_world where
  "demo_id_world = \<lparr>iw_now = 1000, iw_next = 0, iw_db = demo_id_db, iw_cache = [],
     iw_instances = \<lparr>db_backend = Sqlite, db_bucket = False, db_size = (\<lambda>_. 0), db_null = undefined, db_rows = [], db_blobs = []\<rparr>\<rparr>"

lemma demo_id_reach: "id_reach demo_id_env demo_id_world"
  unfolding id_reach_def by (intro exI [of _ demo_id_world]) (simp add: demo_id_world_def)

lemma demo_request:
  "oidc_principal demo_id_env (Some ''tv'') ''w'' demo_id_world = (Inr \<lparr>pr_sub = ''v'', pr_ws = ''w'', pr_role = ''member'', pr_groups = [''g'']\<rparr>,
     snd (oidc_principal demo_id_env (Some ''tv'') ''w'' demo_id_world))"
  by (simp add: prod_eq_iff) code_simp

theorem auth_principal_current_witness:
  "list_group_ids_for_user demo_id_db ''w'' ''v'' = [''g''] \<and>
   (\<exists>w'. oidc_principal demo_id_env (Some ''tv'') ''w'' demo_id_world = (Inr \<lparr>pr_sub = ''v'', pr_ws = ''w'', pr_role = ''member'', pr_groups = [''g'']\<rparr>, w') \<and>
      iw_db w' = demo_id_db)"
proof -
  have sha: "digest_ok (ie_sha demo_id_env)" using demo_digest by (simp add: demo_id_env_def)
  have db: "iw_db demo_id_world = demo_id_db" by (simp add: demo_id_world_def)
  from auth_principal_current [OF demo_id_reach sha demo_request] show ?thesis using demo_request by (auto simp: db)
qed

theorem removal_keeps_admin_witness:
  "\<exists>r w'. as_admin demo_id_env (Some ''tu'') ''w'' (\<lambda>p. delete_member p ''v'') demo_id_world = (r, w') \<and>
     get_membership (iw_db w') ''w'' ''v'' = None \<and> (\<exists>b. is_admin (iw_db w') ''w'' b)"
proof -
  have sha: "digest_ok (ie_sha demo_id_env)" and oidc: "ie_oidc demo_id_env" using demo_digest by (simp_all add: demo_id_env_def)
  have a: "is_admin (iw_db demo_id_world) ''w'' ''u''"
    by (simp add: is_admin_def get_membership_def demo_id_world_def demo_id_db_def)
  obtain r w' where run: "as_admin demo_id_env (Some ''tu'') ''w'' (\<lambda>p. delete_member p ''v'') demo_id_world = (r, w')"
    by (cases "as_admin demo_id_env (Some ''tu'') ''w'' (\<lambda>p. delete_member p ''v'') demo_id_world")
  have "get_membership (iw_db (snd (as_admin demo_id_env (Some ''tu'') ''w'' (\<lambda>p. delete_member p ''v'') demo_id_world))) ''w'' ''v'' = None"
    by code_simp
  with run removal_keeps_admin [OF demo_id_reach sha oidc run a] show ?thesis by auto
qed

theorem invite_accept_exact_witness:
  "\<exists>i w'. accept_invite demo_id_env (Some ''tu'') ''i'' (demo_id_world\<lparr>iw_now := 1000\<rparr>) = (Inr i, w') \<and>
     map_option mb_role (get_membership (iw_db w') ''w'' ''u'') = Some ''member'' \<and>
     accept_invite demo_id_env (Some ''tu'') ''i'' w' = (Inl (ServiceError ''Invite not found'' 404), w')"
proof -
  let ?w = "demo_id_world\<lparr>iw_now := 1000\<rparr>"
  let ?r = "\<lparr>iv_email = ''e'', iv_ws = ''w'', iv_role = Some ''member'', iv_groups = JArr [JStr ''g''], iv_by = Some ''v'', iv_created = None,
      iv_expires = 100, iv_target = JNull\<rparr>"
  have v: "ie_verify demo_id_env (iw_now ?w) ''tu'' = Some ''u''" "''u'' \<noteq> []" "''tu'' \<noteq> []" by (simp_all add: demo_id_env_def)
  have row: "mget (it_invites (iw_db ?w)) ''i'' = Some ?r" "parse_invite_target (iv_target ?r) = None"
    by (simp_all add: demo_id_world_def demo_id_db_def parse_invite_target_def)
  have live: "\<not> iv_expires ?r \<le> now_epoch (iw_now ?w)" by (simp add: now_epoch_def)
  have role: "in_role (to_invite ''i'' ?r) = ''member''" by (simp add: to_invite_def)
  from invite_accept_exact [OF v row] live obtain w' where w': "accept_invite demo_id_env (Some ''tu'') ''i'' ?w = (Inr (to_invite ''i'' ?r), w')"
    "\<forall>ws x. map_option mb_role (get_membership (iw_db w') ws x) =
      (if ws = iv_ws ?r \<and> x = ''u'' then Some (in_role (to_invite ''i'' ?r)) else map_option mb_role (get_membership (iw_db ?w) ws x))"
    "accept_invite demo_id_env (Some ''tu'') ''i'' w' = (Inl (ServiceError ''Invite not found'' 404), w')"
    unfolding if_not_P [OF live] by (elim exE conjE) (rule that; assumption)
  have "map_option mb_role (get_membership (iw_db w') ''w'' ''u'') = Some ''member''" using w'(2) role by simp
  with w'(1,3) show ?thesis by blast
qed

theorem workspace_locus_fixed_witness:
  "\<exists>r'. mget (it_workspaces (iw_db (snd (update_workspace ''w'' \<lparr>uw_name = Some ''X'', uw_plan = None, uw_data = None, uw_vfs = None, uw_locus = None\<rparr>
     demo_id_world)))) ''w'' = Some r' \<and> wk_locus r' = Some ''local''"
proof -
  have "mget (it_workspaces (iw_db demo_id_world)) ''w'' =
      Some \<lparr>wk_name = Some ''W'', wk_plan = None, wk_locus = Some ''local'', wk_data = None, wk_vfs = None, wk_created = None, wk_updated = None\<rparr>"
    by (simp add: demo_id_world_def demo_id_db_def)
  from workspace_locus_fixed [OF r_into_rtranclp [of "id_step demo_id_env", OF update_ws] this] show ?thesis by simp
qed

text \<open>The sole administrator of the workspace accepts an invite made for a member: no administrator is
  left.\<close>

lemma accept_demotes_admin:
  "map fst (filter (\<lambda>(k, m). mb_role m = ''admin'') (it_members demo_id_db)) = [(''w'', ''u'')]"
  "filter (\<lambda>(k, m). mb_role m = ''admin'') (it_members (iw_db (snd (accept_invite demo_id_env (Some ''tu'') ''i'' demo_id_world)))) = []"
  by code_simp+

text \<open>Deleting a group does not invalidate: the cached principal of its member keeps it.\<close>

definition group_deleted :: id_world where
  "group_deleted = snd (group_delete \<lparr>pr_sub = ''u'', pr_ws = ''w'', pr_role = ''admin'', pr_groups = []\<rparr> ''g''
     (snd (oidc_principal demo_id_env (Some ''tv'') ''w'' demo_id_world)))"

lemma deleted_group_still_held:
  "list_group_ids_for_user (iw_db group_deleted) ''w'' ''v'' = []"
  "map_sum id pr_groups (fst (oidc_principal demo_id_env (Some ''tv'') ''w'' group_deleted)) = Inr [''g'']"
  by code_simp+

text \<open>An invite made before a group was deleted puts its user into the deleted group.\<close>

lemma invite_revives_group:
  "get_group_row (iw_db (snd (accept_invite demo_id_env (Some ''tu'') ''i'' group_deleted))) ''w'' ''g'' = None"
  "list_group_ids_for_user (iw_db (snd (accept_invite demo_id_env (Some ''tu'') ''i'' group_deleted))) ''w'' ''u'' = [''g'']"
  by code_simp+

end
