(* ===== verification/Identity_Types.thy ===== *)
theory Identity_Types
  imports Identity_Properties
begin

text \<open>
  The identity tables stay well-typed: unique primary keys, and columns from which the readers get
  back what was written.
\<close>

section \<open>The types of the rows\<close>

text \<open>Primary keys are unique, and the columns without a type of their own hold what the readers of
  the store expect: a locus, a list of texts, a target.\<close>

definition id_typed :: "id_db \<Rightarrow> bool" where
  "id_typed db \<longleftrightarrow> wf_map (it_users db) \<and> wf_map (it_workspaces db) \<and> wf_map (it_members db) \<and> wf_map (it_sessions db) \<and>
     wf_map (it_invites db) \<and> wf_map (it_groups db) \<and> wf_map (it_group_members db) \<and> wf_map (it_perms db) \<and> wf_map (it_keys db) \<and>
     (\<forall>ws r. mget (it_workspaces db) ws = Some r \<longrightarrow> (\<exists>l. wk_locus r = map_option locus_text l)) \<and>
     (\<forall>t r. mget (it_invites db) t = Some r \<longrightarrow> (\<exists>gs g. iv_groups r = JArr (map JStr gs) \<and> iv_target r = target_json g))"

definition typing_kept :: "id_world \<Rightarrow> id_world \<Rightarrow> bool" where
  "typing_kept w w' \<longleftrightarrow> (id_typed (iw_db w) \<longrightarrow> id_typed (iw_db w'))"

interpretation rows: kept_relation typing_kept
  by unfold_locales (auto simp: typing_kept_def)

named_theorems typing_intros "programs that keep the rows typed"

lemmas typing_prog [typing_intros] = rows.runs_intros

lemma typing_db: "(\<And>db. id_typed db \<Longrightarrow> id_typed (f db)) \<Longrightarrow> runs_in typing_kept (on_id_db f)"
  by (simp add: runs_in_def typing_kept_def on_id_db_def)

lemma typing_flag: "(\<And>db. id_typed db \<Longrightarrow> id_typed (snd (f db))) \<Longrightarrow> runs_in typing_kept (on_id_flag f)"
  by (auto simp: runs_in_def typing_kept_def on_id_flag_def split_beta)

lemma typing_world: "(\<And>w. id_typed (iw_db w) \<Longrightarrow> id_typed (iw_db (snd (m w)))) \<Longrightarrow> runs_in typing_kept m"
  by (simp add: runs_in_def typing_kept_def)

lemma typed_workspace: "id_typed db \<Longrightarrow> id_typed (put_workspace now r db)"
  by (auto simp: id_typed_def put_workspace_def split: option.split)

lemma typed_invite: "id_typed db \<Longrightarrow> id_typed (snd (create_invite_row now token ws email role gs by target db))"
  by (auto simp: id_typed_def create_invite_row_def Let_def)

lemma typed_delete: "id_typed db \<Longrightarrow> id_typed (db\<lparr>it_invites := mdel token (it_invites db)\<rparr>)"
  by (simp add: id_typed_def)

lemma typing_tables [typing_intros]:
  "runs_in typing_kept (on_id_db (set_active_workspace_id now u ws))" "runs_in typing_kept (on_id_db (create_group_row now g ws name desc))"
  "runs_in typing_kept (on_id_db (grant_permission now i ws caller prov oper u))" "runs_in typing_kept (on_id_db (put_membership now ws u role cr))"
  "runs_in typing_kept (on_id_db (set_current_workspace raw now u ws ttl))" "runs_in typing_kept (on_id_db (add_group_member now ws g u))"
  by (rule typing_db, simp add: id_typed_def set_active_workspace_id_def create_group_row_def grant_permission_def
      put_membership_def set_current_workspace_def add_group_member_def Let_def)+

lemma typing_put [typing_intros]: "runs_in typing_kept (on_id_db (put_workspace now r))"
  by (rule typing_db) (rule typed_workspace)

lemma typed_revoke: "id_typed db \<Longrightarrow> id_typed (snd (revoke_invite_row now token db))"
  by (simp add: revoke_invite_row_def typed_delete split: option.split)

lemma typing_revoke [typing_intros]: "runs_in typing_kept (on_id_flag (revoke_invite_row now token))"
  by (rule typing_flag) (rule typed_revoke)

lemma typing_flags [typing_intros]:
  "runs_in typing_kept (on_id_flag (revoke_permission ws i))"
  "runs_in typing_kept (on_id_flag (remove_membership ws u))" "runs_in typing_kept (on_id_flag (remove_group_member ws g u))"
  by (rule typing_flag, simp add: id_typed_def revoke_permission_def remove_membership_def remove_group_member_def wf_filter Let_def)+

lemma typing_rows [typing_intros]:
  "runs_in typing_kept (consume_token token)" "runs_in typing_kept (add_invited_participant env ws iid u actor)"
  "runs_in typing_kept (fresh_id env)" "runs_in typing_kept (invalidate u)" "runs_in typing_kept (verify_access_token env x)"
  by (rule typing_world, auto simp: consume_token_def zoom_run consume_parts consume_delete_def typed_delete add_invited_participant_def fresh_id_def
      invalidate_def verify_access_token_def split: sum.split option.split prod.split)+

lemma typing_patch [typing_intros]: "runs_in typing_kept (group_patch p g name desc)"
  by (rule typing_world) (simp add: group_patch_def update_group_row_def Let_def id_typed_def split: option.split)

lemma typing_create_invite [typing_intros]: "runs_in typing_kept (create_invite env p email role gs target)"
  by (rule typing_world) (use typed_invite in \<open>simp add: create_invite_def bindM_run fresh_id_def split_beta\<close>)

lemma typing_principal [typing_intros]: "runs_in typing_kept (oidc_principal env token header)"
  by (rule typing_world)
    (auto simp: oidc_principal_def bindM_run thenM_run verify_access_token_def Let_def split: sum.split option.split prod.split)

lemma typing_mutations [typing_intros]:
  "runs_in typing_kept (members_put ws u role)" "runs_in typing_kept (members_remove ws u)" "runs_in typing_kept (sessions_set_current env u ws ttl)"
  "runs_in typing_kept (group_members_add ws g u)" "runs_in typing_kept (group_members_remove ws g u)"
  unfolding members_put_def members_remove_def sessions_set_current_def group_members_add_def group_members_remove_def
  by (intro typing_intros)+

lemma typing_add_to_groups [typing_intros]: "runs_in typing_kept (add_to_groups ws gs u)"
  by (induction gs) (simp_all only: add_to_groups.simps typing_intros)

lemma typing_handlers:
  "runs_in typing_kept (delete_member p target)" "runs_in typing_kept (group_create env p name desc)" "runs_in typing_kept (group_add_user p g u)"
  "runs_in typing_kept (group_remove_user p g u)" "runs_in typing_kept (delete_invite p token)" "runs_in typing_kept (accept_invite env bearer token)"
  "runs_in typing_kept (select_active_workspace env u ws)" "runs_in typing_kept (create_workspace env input)" "runs_in typing_kept (update_workspace ws patch)"
  "runs_in typing_kept (permission_grant env p caller prov oper)" "runs_in typing_kept (permission_revoke p i)"
  unfolding delete_member_def group_create_def group_add_user_def group_remove_user_def delete_invite_def accept_invite_def consume_invite_def
    select_active_workspace_def create_workspace_def update_workspace_def permission_grant_def permission_revoke_def Let_def
  by (intro typing_intros)+

lemma step_typed: "id_step env w w' \<Longrightarrow> typing_kept w w'"
proof (induction rule: id_step.induct)
  case (wait t)
  then show ?case by (simp add: typing_kept_def)
qed (rule runs_inD, (rule typing_handlers typing_principal typing_mutations typing_rows typing_patch typing_create_invite))+

section \<open>Invites are read as they were stored\<close>

lemma json_strings_back: "json_strings (JArr (map JStr gs)) = gs"
  by (induction gs) simp_all

lemma target_back: "parse_invite_target (target_json g) = g"
proof (cases g)
  case None
  then show ?thesis by (simp add: target_json_def parse_invite_target_def)
next
  case (Some t)
  then show ?thesis
    by (cases "tg_channels t") (simp_all add: target_json_def parse_invite_target_def json_strings_back del: json_strings.simps)
qed

text \<open>Over the steps of a history the rows stay typed: primary keys stay unique, the locus column
  holds a locus, and the group and target columns of an invite hold a list of texts and a target.\<close>

theorem rows_stay_typed:
  assumes steps: "(id_step env)\<^sup>*\<^sup>* w w'" and typed: "id_typed (iw_db w)"
  shows "id_typed (iw_db w') \<and> (\<forall>t r. mget (it_invites (iw_db w')) t = Some r \<longrightarrow>
    iv_groups r = JArr (map JStr (in_groups (to_invite t r))) \<and>
    (\<exists>g. iv_target r = target_json g \<and> in_target (to_invite t r) = g))"
proof -
  from steps have "typing_kept w w'" by (induction rule: rtranclp_induct) (blast intro: rows.refl rows.trans step_typed)+
  with typed have t: "id_typed (iw_db w')" by (simp add: typing_kept_def)
  moreover have "iv_groups r = JArr (map JStr (in_groups (to_invite t r))) \<and> (\<exists>g. iv_target r = target_json g \<and> in_target (to_invite t r) = g)"
    if r: "mget (it_invites (iw_db w')) t = Some r" for t r
  proof -
    from t r obtain gs g where "iv_groups r = JArr (map JStr gs)" "iv_target r = target_json g" unfolding id_typed_def by blast
    then show ?thesis by (simp add: to_invite_def json_strings_back target_back del: json_strings.simps)
  qed
  ultimately show ?thesis by blast
qed

theorem rows_stay_typed_witness:
  "id_typed (iw_db (snd (accept_invite demo_id_env (Some ''tu'') ''i'' demo_id_world)))"
proof -
  have g: "\<exists>t. JNull = target_json t" by (rule exI [of _ None]) (simp add: target_json_def)
  have gs: "\<exists>xs. [JStr ''g''] = map JStr xs" by (rule exI [of _ "[''g'']"]) simp
  have l: "\<exists>x. Some ''local'' = map_option locus_text x" by (rule exI [of _ "Some LocalLocus"]) simp
  have "id_typed (iw_db demo_id_world)"
    unfolding id_typed_def demo_id_world_def demo_id_db_def using g gs l by (simp add: wf_map_def)
  from rows_stay_typed [OF r_into_rtranclp [of "id_step demo_id_env", OF accept] this] show ?thesis by blast
qed

section \<open>An invite is kept as it was made\<close>

definition invite_kept :: "'f id_env \<Rightarrow> string \<Rightarrow> id_world \<Rightarrow> id_world \<Rightarrow> bool" where
  "invite_kept env t w w' \<longleftrightarrow> iw_next w \<le> iw_next w' \<and>
     ((\<exists>n < iw_next w. t = ie_uuid env n) \<longrightarrow> mget (it_invites (iw_db w')) t = mget (it_invites (iw_db w)) t)"

interpretation pend: kept_relation "invite_kept env t" for env t
proof unfold_locales
  show "invite_kept env t w w" for w by (simp add: invite_kept_def)
  show "invite_kept env t u v \<Longrightarrow> invite_kept env t v w \<Longrightarrow> invite_kept env t u w" for u v w
    unfolding invite_kept_def by (metis le_trans less_le_trans)
qed

named_theorems pend_intros "programs that keep an invite"

lemmas pend_prog [pend_intros] = pend.runs_intros

lemma pend_same:
  assumes "\<And>w. it_invites (iw_db (snd (m w))) = it_invites (iw_db w)" and "\<And>w. iw_next w \<le> iw_next (snd (m w))"
  shows "runs_in (invite_kept env t) m"
  using assms by (simp add: runs_in_def invite_kept_def)

lemma pend_tables [pend_intros]:
  "runs_in (invite_kept env t) (on_id_db (set_active_workspace_id now u ws))" "runs_in (invite_kept env t) (on_id_db (create_group_row now g ws name desc))"
  "runs_in (invite_kept env t) (on_id_db (grant_permission now i ws caller prov oper u))" "runs_in (invite_kept env t) (on_id_db (put_membership now ws u role cr))"
  "runs_in (invite_kept env t) (on_id_db (set_current_workspace raw now u ws ttl))" "runs_in (invite_kept env t) (on_id_db (add_group_member now ws g u))"
  "runs_in (invite_kept env t) (on_id_db (put_workspace now row))"
  by (rule pend_same, simp add: on_id_db_def set_active_workspace_id_def create_group_row_def grant_permission_def put_membership_def
      set_current_workspace_def add_group_member_def put_workspace_def Let_def split: option.split, simp add: on_id_db_def)+

lemma pend_flags [pend_intros]:
  "runs_in (invite_kept env t) (on_id_flag (revoke_permission ws i))"
  "runs_in (invite_kept env t) (on_id_flag (remove_membership ws u))" "runs_in (invite_kept env t) (on_id_flag (remove_group_member ws g u))"
  by (rule pend_same, simp add: on_id_flag_def revoke_permission_def remove_membership_def remove_group_member_def Let_def
      split: option.split prod.split, simp add: on_id_flag_def split: prod.split)+

lemma pend_rows [pend_intros]:
  "runs_in (invite_kept env t) (add_invited_participant env' ws iid u actor)" "runs_in (invite_kept env t) (group_patch p g name desc)"
  "runs_in (invite_kept env t) (fresh_id env')" "runs_in (invite_kept env t) (invalidate u)" "runs_in (invite_kept env t) (verify_access_token env' x)"
  by (rule pend_same; auto simp: add_invited_participant_def group_patch_def update_group_row_def fresh_id_def invalidate_def
      verify_access_token_def Let_def split: sum.split option.split prod.split)+

lemma pend_principal [pend_intros]: "runs_in (invite_kept env t) (oidc_principal env' token header)"
  by (rule pend_same) (auto simp: oidc_principal_def bindM_run thenM_run verify_access_token_def Let_def split: sum.split option.split prod.split)

lemma pend_revoke [pend_intros]: "token \<noteq> t \<Longrightarrow> runs_in (invite_kept env t) (on_id_flag (revoke_invite_row now token))"
  by (simp add: runs_in_def invite_kept_def on_id_flag_def revoke_invite_row_def split: option.split)

lemma pend_consume [pend_intros]: "token \<noteq> t \<Longrightarrow> runs_in (invite_kept env t) (consume_token token)"
  by (simp add: runs_in_def invite_kept_def consume_token_def zoom_run consume_parts consume_delete_def split: sum.split option.split)

lemma pend_create [pend_intros]: "inj (ie_uuid env) \<Longrightarrow> runs_in (invite_kept env t) (create_invite env p email role gs target)"
  by (auto simp: runs_in_def invite_kept_def create_invite_def bindM_run fresh_id_def create_invite_row_def Let_def dest: injD)

lemma pend_mutations [pend_intros]:
  "runs_in (invite_kept env t) (members_put ws u role)" "runs_in (invite_kept env t) (members_remove ws u)" "runs_in (invite_kept env t) (sessions_set_current env' u ws ttl)"
  "runs_in (invite_kept env t) (group_members_add ws g u)" "runs_in (invite_kept env t) (group_members_remove ws g u)"
  unfolding members_put_def members_remove_def sessions_set_current_def group_members_add_def group_members_remove_def
  by (intro pend_intros)+

lemma pend_add_to_groups [pend_intros]: "runs_in (invite_kept env t) (add_to_groups ws gs u)"
  by (induction gs) (simp_all only: add_to_groups.simps pend_intros)

lemma pend_handlers:
  "runs_in (invite_kept env t) (delete_member p target)" "runs_in (invite_kept env t) (group_create env' p name desc)" "runs_in (invite_kept env t) (group_add_user p g u)"
  "runs_in (invite_kept env t) (group_remove_user p g u)"
  "runs_in (invite_kept env t) (select_active_workspace env' u ws)" "runs_in (invite_kept env t) (create_workspace env' input)" "runs_in (invite_kept env t) (update_workspace ws patch)"
  "runs_in (invite_kept env t) (permission_grant env' p caller prov oper)" "runs_in (invite_kept env t) (permission_revoke p i)"
  unfolding delete_member_def group_create_def group_add_user_def group_remove_user_def
    select_active_workspace_def create_workspace_def update_workspace_def permission_grant_def permission_revoke_def Let_def
  by (intro pend_intros)+

lemma pend_others:
  assumes "token \<noteq> t"
  shows "runs_in (invite_kept env t) (delete_invite p token)" "runs_in (invite_kept env t) (accept_invite env' bearer token)"
  unfolding delete_invite_def accept_invite_def consume_invite_def Let_def by (intro pend_intros assms)+

lemma pend_delete_group: "runs_in (invite_kept env t) (group_delete p g)"
proof -
  have "runs_in (invite_kept env t) (on_id_flag (remove_group_row ws g))" for ws
    by (rule pend_same) (simp_all add: on_id_flag_def remove_group_row_def)
  then show ?thesis unfolding group_delete_def by (intro pend_intros)
qed

text \<open>The steps that neither revoke nor accept the invite with the token \<^verbatim>\<open>t\<close>; deleting a group is
  one of them.\<close>

definition other_step :: "'f id_env \<Rightarrow> string \<Rightarrow> id_world \<Rightarrow> id_world \<Rightarrow> bool" where
  "other_step env t w w' \<longleftrightarrow> (id_step env w w' \<or> (\<exists>p g. w' = snd (group_delete p g w))) \<and>
     (\<forall>p. w' \<noteq> snd (delete_invite p t w)) \<and> (\<forall>b. w' \<noteq> snd (accept_invite env b t w))"

lemma other_kept:
  assumes "other_step env t w w'" and ids: "inj (ie_uuid env)"
  shows "invite_kept env t w w'"
proof -
  have other: "\<forall>p. w' \<noteq> snd (delete_invite p t w)" "\<forall>b. w' \<noteq> snd (accept_invite env b t w)"
    using assms(1) by (simp_all add: other_step_def)
  consider (delete_group) p g where "w' = snd (group_delete p g w)" | (step) "id_step env w w'" using assms(1) by (auto simp: other_step_def)
  then show ?thesis
  proof cases
    case (delete_group p g)
    then show ?thesis by (simp only: runs_inD [OF pend_delete_group])
  next
    case step
    then show ?thesis
    proof cases
      case (wait t')
      then show ?thesis by (simp add: invite_kept_def)
    next
      case (uninvite p tok)
      with other(1) have "tok \<noteq> t" by blast
      with uninvite show ?thesis by (simp only: runs_inD [OF pend_others(1)] simp_thms)
    next
      case (accept bearer tok)
      with other(2) have "tok \<noteq> t" by blast
      with accept show ?thesis by (simp only: runs_inD [OF pend_others(2)] simp_thms)
    qed (simp only:, rule runs_inD, (rule pend_handlers pend_principal pend_mutations pend_rows pend_create [OF ids]))+
  qed
qed

text \<open>
  C35: an invite holds exactly what the administrator asked for: the address, trimmed and in lower
  case, the role (member when none is given), the groups, the target and a deadline seven days on,
  in the administrator's workspace. After any history of requests that neither accept nor revoke it,
  reading its token gives that very invite until the deadline, and nothing from then on. Tokens of
  different invites are taken to differ.
\<close>

theorem invite_reads_back:
  assumes ids: "inj (ie_uuid env)" and made: "create_invite env p email role groups target w = (Inr i, w1)"
    and later: "(other_step env (in_token i))\<^sup>*\<^sup>* w1 w2"
  shows "in_ws i = pr_ws p \<and> in_by i = pr_sub p \<and> in_email i = js_trim (to_lower email) \<and> in_role i = (if role = [] then ''member'' else role) \<and>
    in_groups i = groups \<and> in_target i = target \<and> in_expires i = now_epoch (iw_now w) + 604800 \<and>
    get_invite_row (iw_now w2) (iw_db w2) (in_token i) = (if now_epoch (iw_now w2) < in_expires i then Some i else None)"
proof -
  have w1: "in_token i = ie_uuid env (iw_next w)" "iw_next w1 = Suc (iw_next w)" and
    i: "in_ws i = pr_ws p" "in_by i = pr_sub p" "in_email i = js_trim (to_lower email)" "in_role i = (if role = [] then ''member'' else role)"
      "in_groups i = groups" "in_target i = target" "in_expires i = now_epoch (iw_now w) + 604800" and
    row: "\<exists>r. mget (it_invites (iw_db w1)) (in_token i) = Some r \<and> iv_expires r = in_expires i \<and> to_invite (in_token i) r = i"
    using made by (auto simp: create_invite_def bindM_run fresh_id_def create_invite_row_def Let_def INVITE_TTL_SECONDS_def to_invite_def
        json_strings_back target_back simp del: json_strings.simps)
  from later have "invite_kept env (in_token i) w1 w2"
    by (induction rule: rtranclp_induct) (blast intro: pend.refl pend.trans other_kept [OF _ ids])+
  then have "mget (it_invites (iw_db w2)) (in_token i) = mget (it_invites (iw_db w1)) (in_token i)"
    using w1 by (auto simp: invite_kept_def)
  with row i show ?thesis by (auto simp: get_invite_row_def)
qed

definition many_ids :: "unit id_env" where
  "many_ids = demo_id_env\<lparr>ie_uuid := (\<lambda>n. replicate n (CHR ''i''))\<rparr>"

text \<open>Neither revoking nor accepting takes time, so waiting is neither.\<close>

definition same_time :: "id_world \<Rightarrow> id_world \<Rightarrow> bool" where
  "same_time w w' \<longleftrightarrow> iw_now w' = iw_now w"

interpretation clock: kept_relation same_time
  by unfold_locales (simp_all add: same_time_def)

lemma clock_rows:
  "runs_in same_time (verify_access_token env x)" "runs_in same_time (add_invited_participant env ws iid u actor)" "runs_in same_time (consume_token t)"
  "runs_in same_time (on_id_db f)" "runs_in same_time (on_id_flag g)" "runs_in same_time (invalidate u)"
  by (auto simp: runs_in_def same_time_def verify_access_token_def add_invited_participant_def consume_token_def zoom_run on_id_db_def on_id_flag_def
      invalidate_def split: sum.split option.split prod.split)

lemmas clock_intros = clock.runs_intros clock_rows

lemma clock_groups: "runs_in same_time (add_to_groups ws gs u)"
  by (induction gs) (simp_all only: add_to_groups.simps group_members_add_def clock_intros)

lemma clock_others: "runs_in same_time (delete_invite p t)" "runs_in same_time (accept_invite env b t)"
  unfolding delete_invite_def accept_invite_def consume_invite_def members_put_def Let_def by (intro clock_intros clock_groups)+

lemma waiting_other:
  assumes "iw_now w < t"
  shows "other_step env tok w (w\<lparr>iw_now := t\<rparr>)"
proof -
  have "iw_now (snd (delete_invite p tok w)) = iw_now w" "iw_now (snd (accept_invite env b tok w)) = iw_now w" for p b
    using runs_inD [OF clock_others(1)] runs_inD [OF clock_others(2)] unfolding same_time_def by blast+
  with assms show ?thesis unfolding other_step_def
    by (metis id_step.wait id_world.select_convs id_world.surjective id_world.update_convs less_imp_le less_irrefl)
qed

theorem invite_reads_back_witness:
  "\<exists>i w1. create_invite many_ids \<lparr>pr_sub = ''u'', pr_ws = ''w'', pr_role = ''admin'', pr_groups = []\<rparr> ''E'' ''member'' [''g''] None demo_id_world = (Inr i, w1) \<and>
     in_groups i = [''g''] \<and> get_invite_row (iw_now w1 + 9000) (iw_db w1) (in_token i) = Some i \<and>
     get_invite_row (iw_now w1 + 604800000) (iw_db w1) (in_token i) = None"
proof -
  let ?p = "\<lparr>pr_sub = ''u'', pr_ws = ''w'', pr_role = ''admin'', pr_groups = []\<rparr>"
  have ids: "inj (ie_uuid many_ids)" by (rule injI) (simp add: many_ids_def replicate_eq_replicate)
  obtain i w1 where made: "create_invite many_ids ?p ''E'' ''member'' [''g''] None demo_id_world = (Inr i, w1)"
    by (simp add: create_invite_def bindM_run fresh_id_def create_invite_row_def Let_def)
  then have now: "iw_now w1 = iw_now demo_id_world" by (auto simp: create_invite_def bindM_run fresh_id_def create_invite_row_def Let_def)
  have wait: "(other_step many_ids (in_token i))\<^sup>*\<^sup>* w1 (w1\<lparr>iw_now := t\<rparr>)" if "iw_now w1 < t" for t
    using waiting_other [OF that] by blast
  have "now_epoch (iw_now w1 + 9000) = now_epoch (iw_now w1) + 9" "now_epoch (iw_now w1 + 604800000) = now_epoch (iw_now w1) + 604800"
    by (simp_all add: now_epoch_def)
  with invite_reads_back [OF ids made wait, of "iw_now w1 + 9000"] invite_reads_back [OF ids made wait, of "iw_now w1 + 604800000"] made now
  show ?thesis by auto
qed

end
