(* ===== verification/App_Usage.thy ===== *)
theory App_Usage
  imports Svc_Records Json Js_Date
begin

text \<open>
  The daily budget of calls of an application's user, \<^verbatim>\<open>server/workspace/src/apps/usage.ts\<close>: a
  counter per user and date in the record store, which expires two days after its last write.
  The theorem counts the calls that a budget admits over the calls of one day.
\<close>

section \<open>The counter\<close>

definition DEFAULT_DAILY_CALLS :: int where
  "DEFAULT_DAILY_CALLS = 1000"

record daily_usage =
  du_allowed :: bool
  du_used :: int
  du_limit :: int
  du_date :: string

definition safe_char :: "char \<Rightarrow> char" where
  "safe_char c = (if CHR ''A'' \<le> c \<and> c \<le> CHR ''Z'' \<or> CHR ''a'' \<le> c \<and> c \<le> CHR ''z'' \<or> is_digit c \<or> c = CHR ''_'' \<or> c = CHR ''-''
     then c else CHR ''_'')"

definition safe_sub :: "string \<Rightarrow> string" where
  "safe_sub sub = map safe_char sub"

definition usage_key :: "string \<Rightarrow> string \<Rightarrow> string" where
  "usage_key sub date = safe_sub sub @ ''/'' @ date"

definition usage_date :: "int \<Rightarrow> string" where
  "usage_date now = take 10 (iso_of now)"

definition usage_scope :: "string \<Rightarrow> string" where
  "usage_scope app = svc_scope ''apps'' [''usage'', app]"

text \<open>\<^verbatim>\<open>parsed && typeof parsed.used === "number" && parsed.used >= 0\<close>; a failing read counts as no row.\<close>

definition stored_used :: "svc_error + json entry option \<Rightarrow> int" where
  "stored_used r =
     (case r of Inr (Some en) \<Rightarrow> (case jprop (en_value en) ''used'' of JNum n \<Rightarrow> (if n \<ge> 0 then n else 0) | _ \<Rightarrow> 0) | _ \<Rightarrow> 0)"

definition usage_expiry :: "int \<Rightarrow> int" where
  "usage_expiry now = now div 1000 + 2 * 24 * 3600"

definition count_daily_call ::
  "int \<Rightarrow> string \<Rightarrow> string \<Rightarrow> int option \<Rightarrow> string \<Rightarrow> (json db, daily_usage) prog" where
  "count_daily_call now ws app daily sub db =
     (let limit = (case daily of Some d \<Rightarrow> d | None \<Rightarrow> DEFAULT_DAILY_CALLS);
          a = (ws, usage_scope app, usage_key sub (usage_date now));
          used = stored_used (rs_get now db a)
      in if used \<ge> limit
         then (Inr \<lparr>du_allowed = False, du_used = used, du_limit = limit, du_date = usage_date now\<rparr>, db)
         else thenM (put_doc now a (JObj [(''used'', JNum (used + 1))]) SVC_SYSTEM_USER (Some (usage_expiry now)))
           (ret \<lparr>du_allowed = True, du_used = used + 1, du_limit = limit, du_date = usage_date now\<rparr>) db)"

section \<open>The calls of a day\<close>

definition DAY_MS :: int where
  "DAY_MS = 86400000"

lemma pad0_length: "w \<le> length (pad0 w n)"
  by (simp add: pad0_def pad_start_def)

text \<open>The first ten characters of a stamp are its date.\<close>

lemma usage_date_day:
  assumes "t div DAY_MS = t' div DAY_MS"
  shows "usage_date t = usage_date t'"
proof -
  obtain y m d where c: "civil_of_days (t' div 86400000) = (y, m, d)" by (cases "civil_of_days (t' div 86400000)")
  let ?p = "pad0 4 y @ ''-'' @ pad0 2 m @ ''-'' @ pad0 2 d"
  have ten: "10 \<le> length ?p"
    using pad0_length [of 4 y] pad0_length [of 2 m] pad0_length [of 2 d] by simp
  have "usage_date s = take 10 ?p" if "s div 86400000 = t' div 86400000" for s
  proof -
    have "\<exists>rest. iso_of s = ?p @ rest" using that c by (simp add: iso_of_def Let_def)
    then obtain rest where "iso_of s = ?p @ rest" by blast
    with ten show ?thesis unfolding usage_date_def by (metis append.right_neutral diff_is_0_eq take0 take_append)
  qed
  with assms show ?thesis by (simp add: DAY_MS_def)
qed

text \<open>A counter written in the day is live until its end.\<close>

lemma day_expiry_live:
  assumes "t div DAY_MS = D" and "t' div DAY_MS = D"
  shows "expiry_live t' (Some (usage_expiry t))"
  using assms unfolding expiry_live_def usage_expiry_def DAY_MS_def by (simp; linarith)

section \<open>Sequences of calls\<close>

fun daily_calls :: "string \<Rightarrow> string \<Rightarrow> int option \<Rightarrow> (int \<times> string) list \<Rightarrow> json db \<Rightarrow> (string \<times> (svc_error + daily_usage)) list" where
  "daily_calls ws app daily [] db = []"
| "daily_calls ws app daily ((t, s) # cs) db =
     (case count_daily_call t ws app daily s db of (r, db') \<Rightarrow> (s, r) # daily_calls ws app daily cs db')"

definition admitted :: "string \<Rightarrow> string \<times> (svc_error + daily_usage) \<Rightarrow> bool" where
  "admitted s x \<longleftrightarrow> safe_sub (fst x) = safe_sub s \<and> (case snd x of Inr u \<Rightarrow> du_allowed u | Inl e \<Rightarrow> False)"

definition usage_ok :: "string \<Rightarrow> string \<Rightarrow> json db \<Rightarrow> bool" where
  "usage_ok ws app db \<longleftrightarrow> db_inv db \<and> (\<forall>k. addr_ok db (ws, usage_scope app, k)) \<and> (\<forall>v. storable db v)"

definition counted :: "int \<Rightarrow> string \<Rightarrow> string \<Rightarrow> (string \<Rightarrow> nat) \<Rightarrow> json db \<Rightarrow> bool" where
  "counted D ws app c db \<longleftrightarrow>
     (\<forall>t s. t div DAY_MS = D \<longrightarrow> stored_used (rs_get t db (ws, usage_scope app, usage_key s (usage_date t))) = int (c (safe_sub s)))"

lemma usage_key_eq: "usage_key s d = usage_key s' d \<longleftrightarrow> safe_sub s = safe_sub s'"
  by (simp add: usage_key_def)

lemma count_daily_call_run:
  assumes ok: "usage_ok ws app db" and c: "counted D ws app c db" and t: "t div DAY_MS = D"
    and limit: "limit = (case daily of Some d \<Rightarrow> d | None \<Rightarrow> DEFAULT_DAILY_CALLS)"
  obtains (refused) "int (c (safe_sub s)) \<ge> limit"
      "count_daily_call t ws app daily s db =
        (Inr \<lparr>du_allowed = False, du_used = int (c (safe_sub s)), du_limit = limit, du_date = usage_date t\<rparr>, db)"
  | (counted) db' where "int (c (safe_sub s)) < limit"
      "count_daily_call t ws app daily s db =
        (Inr \<lparr>du_allowed = True, du_used = int (c (safe_sub s)) + 1, du_limit = limit, du_date = usage_date t\<rparr>, db')"
      "usage_ok ws app db'" "counted D ws app (c(safe_sub s := Suc (c (safe_sub s)))) db'"
proof (cases "int (c (safe_sub s)) \<ge> limit")
  case True
  have "stored_used (rs_get t db (ws, usage_scope app, usage_key s (usage_date t))) = int (c (safe_sub s))"
    using c t by (simp add: counted_def)
  with True show thesis by (intro refused) (simp_all add: count_daily_call_def Let_def limit)
next
  case False
  let ?a = "(ws, usage_scope app, usage_key s (usage_date t))"
  let ?v = "JObj [(''used'', JNum (int (c (safe_sub s)) + 1))]"
  have used: "stored_used (rs_get t db ?a) = int (c (safe_sub s))" using c t by (simp add: counted_def)
  from ok have inv: "db_inv db" and a: "addr_ok db ?a" and st: "storable db ?v" by (simp_all add: usage_ok_def)
  obtain d x where p: "put_doc t ?a ?v SVC_SYSTEM_USER (Some (usage_expiry t)) db = (Inr x, d)"
    using rs.put_total [OF st] by blast
  show thesis
  proof (rule counted [of d])
    show "count_daily_call t ws app daily s db =
        (Inr \<lparr>du_allowed = True, du_used = int (c (safe_sub s)) + 1, du_limit = limit, du_date = usage_date t\<rparr>, d)"
      using False by (simp add: count_daily_call_def Let_def used thenM_run p limit)
    show "usage_ok ws app d"
      using ok rs.put_inv [OF inv a p] rs.put_conf [OF p] by (simp add: usage_ok_def)
    show "counted D ws app (c(safe_sub s := Suc (c (safe_sub s)))) d"
      unfolding counted_def
    proof (intro allI impI)
      fix t' s' assume t': "t' div DAY_MS = D"
      let ?b = "(ws, usage_scope app, usage_key s' (usage_date t'))"
      have date: "usage_date t' = usage_date t" using usage_date_day t t' by simp
      show "stored_used (rs_get t' d ?b) = int ((c(safe_sub s := Suc (c (safe_sub s)))) (safe_sub s'))"
      proof (cases "safe_sub s' = safe_sub s")
        case True
        then have "?b = ?a" by (simp add: date usage_key_eq)
        with rs.put_get [OF inv a p day_expiry_live [OF t t']] show ?thesis
          by (simp add: stored_used_def True)
      next
        case other: False
        then have "?b \<noteq> ?a" by (simp add: date usage_key_eq)
        from rs.put_frame [OF inv a p this, of t'] have "rs_get t' d ?b = rs_get t' db ?b" .
        with c t' other show ?thesis by (simp add: counted_def)
      qed
    qed
  qed (use False in simp)
qed

lemma daily_calls_admitted:
  assumes "usage_ok ws app db" and "counted D ws app c db" and "\<forall>(t, u) \<in> set cs. t div DAY_MS = D"
    and limit: "limit = (case daily of Some d \<Rightarrow> d | None \<Rightarrow> DEFAULT_DAILY_CALLS)"
  shows "length (filter (admitted s) (daily_calls ws app daily cs db)) =
     min (nat limit - c (safe_sub s)) (length (filter (\<lambda>(t, u). safe_sub u = safe_sub s) cs))"
  using assms(1-3)
proof (induction cs arbitrary: c db)
  case (Cons x cs)
  obtain t u where x: "x = (t, u)" by (cases x)
  from Cons.prems(3) have t: "t div DAY_MS = D" and rest: "\<forall>(t, u) \<in> set cs. t div DAY_MS = D" by (simp_all add: x)
  show ?case
  proof (rule count_daily_call_run [OF Cons.prems(1,2) t limit, of u])
    assume full: "limit \<le> int (c (safe_sub u))"
      and run: "count_daily_call t ws app daily u db =
        (Inr \<lparr>du_allowed = False, du_used = int (c (safe_sub u)), du_limit = limit, du_date = usage_date t\<rparr>, db)"
    from Cons.IH [OF Cons.prems(1,2) rest] full run show ?case
      by (auto simp: x admitted_def)
  next
    fix db'
    assume room: "int (c (safe_sub u)) < limit"
      and run: "count_daily_call t ws app daily u db =
        (Inr \<lparr>du_allowed = True, du_used = int (c (safe_sub u)) + 1, du_limit = limit, du_date = usage_date t\<rparr>, db')"
      and ok: "usage_ok ws app db'" and c': "counted D ws app (c(safe_sub u := Suc (c (safe_sub u)))) db'"
    from Cons.IH [OF ok c' rest] room run show ?case
      by (auto simp: x admitted_def)
  qed
qed simp

text \<open>
  C36: a budget belongs to the identifiers that are equal once the characters a key may not hold are
  replaced. Over the calls of one day, in any order of users and times, a budget that starts unused
  admits exactly as many calls of the users that share it as it allows, or all of them when they are
  fewer, whatever the users of other budgets do. (Distinct users can share one,
  \<^verbatim>\<open>users_share_budget\<close>.)
\<close>

theorem daily_budget_exact:
  assumes "usage_ok ws app db"
    and "\<And>t u. t div DAY_MS = D \<Longrightarrow> rs_get t db (ws, usage_scope app, usage_key u (usage_date t)) = Inr None"
    and "\<forall>(t, u) \<in> set calls. t div DAY_MS = D"
  shows "length (filter (admitted s) (daily_calls ws app daily calls db)) =
     min (nat (case daily of Some d \<Rightarrow> d | None \<Rightarrow> DEFAULT_DAILY_CALLS)) (length (filter (\<lambda>(t, u). safe_sub u = safe_sub s) calls))"
proof -
  have "counted D ws app (\<lambda>_. 0) db" by (simp add: counted_def assms(2) stored_used_def)
  from daily_calls_admitted [OF assms(1) this assms(3) refl, of s daily] show ?thesis by simp
qed

section \<open>Witness and counterexamples\<close>

definition usage_demo :: "json db" where
  "usage_demo = \<lparr>db_backend = Sqlite, db_bucket = False, db_size = (\<lambda>_. 10), db_null = JNull, db_rows = [], db_blobs = []\<rparr>"

lemma usage_demo_ok: "usage_ok ws app usage_demo"
  by (auto simp: usage_ok_def usage_demo_def storable_def addr_ok_def wf_map_def intro!: db_invI)

lemma usage_demo_empty: "rs_get t usage_demo a = Inr None"
  by (simp add: rs_get_def sqlite_get_def usage_demo_def)

lemma usage_demo_counted: "counted D ws app (\<lambda>_. 0) usage_demo"
  by (simp add: counted_def usage_demo_empty stored_used_def)

theorem daily_budget_exact_witness:
  "length (filter (admitted ''u'') (daily_calls ''w'' ''a'' (Some 2) [(0, ''u''), (1, ''v''), (5, ''u''), (7, ''u'')] usage_demo)) = 2"
proof -
  have "length (filter (admitted ''u'') (daily_calls ''w'' ''a'' (Some 2) [(0, ''u''), (1, ''v''), (5, ''u''), (7, ''u'')] usage_demo)) =
     min (nat (case Some 2 of Some d \<Rightarrow> d | None \<Rightarrow> DEFAULT_DAILY_CALLS))
       (length (filter (\<lambda>(t, u). safe_sub u = safe_sub ''u'') [(0, ''u''), (1, ''v''), (5, ''u''), (7::int, ''u'')]))"
    by (rule daily_budget_exact [OF usage_demo_ok, of 0])
      (simp_all add: usage_demo_empty DAY_MS_def)
  also have "\<dots> = 2" by (simp add: safe_sub_def safe_char_def is_digit_def)
  finally show ?thesis .
qed

text \<open>Two users of one application share one counter.\<close>

lemma users_share_budget: "usage_key ''jo@x'' date = usage_key ''jo.x'' date"
  by (simp add: usage_key_def safe_sub_def safe_char_def is_digit_def)

text \<open>A failing read counts as an unused budget, so an outage of the store lifts the limit, and two
  calls that both read before either writes are both admitted on the last call of the budget:
  the second writes what the first wrote.\<close>

lemma outage_is_unused: "stored_used (Inl e) = 0"
  by (simp add: stored_used_def)

end
