(* ===== verification/App_Tools.thy ===== *)
theory App_Tools
  imports Grants App_Usage
begin

text \<open>
  What a published application may call: the rules of \<^verbatim>\<open>server/workspace/src/apps/capabilities.ts\<close>
  that publishing checks (\<^verbatim>\<open>apps/service.ts\<close>), and the route an application's session calls tools
  through (\<^verbatim>\<open>routes/apps.ts\<close>) with its two budgets. The catalogue of interfaces, the token bucket of
  \<^verbatim>\<open>@utdk/common\<close>, the dispatch of a tool and the run of a workflow are arguments. Telemetry of the
  route is left out. A dash in a message is an em dash in the source.
\<close>

section \<open>Namespaces\<close>

definition NATIVE_APP_NAMESPACES :: "string list" where
  "NATIVE_APP_NAMESPACES = [''vfs'', ''keyvalue'', ''events'', ''notifications'', ''telemetry'', ''agents'']"

definition PLATFORM_PLUGIN_NAMES :: "string list" where
  "PLATFORM_PLUGIN_NAMES = [''registry'', ''workflows'', ''apps'', ''webhooks'', ''interfaces'', ''profiles'', ''sync'', ''sessions'',
     ''notifications'', ''agents'', ''sandboxes'']"

definition is_native_namespace :: "string \<Rightarrow> bool" where
  "is_native_namespace ns \<longleftrightarrow> ns \<in> set NATIVE_APP_NAMESPACES"

definition is_core_service_name :: "string \<Rightarrow> bool" where
  "is_core_service_name ns \<longleftrightarrow> ns \<in> set PLATFORM_PLUGIN_NAMES"

definition APP_WORKFLOW_NAMESPACE :: string where
  "APP_WORKFLOW_NAMESPACE = ''app''"

definition is_workflow_namespace :: "string \<Rightarrow> bool" where
  "is_workflow_namespace ns \<longleftrightarrow> ns = APP_WORKFLOW_NAMESPACE \<or> ns = ''workflow''"

section \<open>Exported workflows\<close>

definition upper_of :: "char \<Rightarrow> char" where
  "upper_of c = (let n = of_char c :: nat in if 97 \<le> n \<and> n \<le> 122 then char_of (n - 32) else c)"

definition camel_head :: "char \<Rightarrow> bool" where
  "camel_head c \<longleftrightarrow> CHR ''a'' \<le> c \<and> c \<le> CHR ''z'' \<or> is_digit c"

fun camel_case :: "string \<Rightarrow> string" where
  "camel_case (c # d # s) =
     (if c = CHR ''-'' \<and> camel_head d then upper_of d # camel_case s else c # camel_case (d # s))"
| "camel_case s = s"

definition resolve_exported_workflow :: "string list \<Rightarrow> string \<Rightarrow> string option" where
  "resolve_exported_workflow workflows requested = find (\<lambda>n. n = requested \<or> camel_case n = requested) workflows"

section \<open>Manifests\<close>

record app_requirement =
  rq_contract :: string
  rq_profile :: "string option"
  rq_optional :: bool

record app_manifest =
  am_app :: string
  am_name :: string
  am_allowed :: "string list"
  am_workflows :: "string list"             \<comment> \<open>\<^verbatim>\<open>workflows ?? []\<close>\<close>
  am_requires :: "app_requirement list"     \<comment> \<open>\<^verbatim>\<open>requires ?? []\<close>\<close>
  am_rps :: "int option"
  am_burst :: "int option"
  am_daily :: "int option"

definition effective_rate_limit :: "app_manifest \<Rightarrow> int \<times> int \<times> int" where
  "effective_rate_limit m =
     (case am_rps m of Some r \<Rightarrow> r | None \<Rightarrow> 5, case am_burst m of Some b \<Rightarrow> b | None \<Rightarrow> 10,
      case am_daily m of Some d \<Rightarrow> d | None \<Rightarrow> DEFAULT_DAILY_CALLS)"

definition dotted :: "string \<Rightarrow> string \<Rightarrow> string" where
  "dotted ns p = ns @ ''.'' @ p"

definition tool_allowed :: "app_manifest \<Rightarrow> string \<Rightarrow> string \<Rightarrow> bool" where
  "tool_allowed m ns p \<longleftrightarrow> (\<exists>e \<in> set (am_allowed m). e = dotted ns p \<or> e = dotted ns ''*'')"

section \<open>Entries of an allow-list\<close>

definition word_char :: "char \<Rightarrow> bool" where
  "word_char c \<longleftrightarrow> CHR ''A'' \<le> c \<and> c \<le> CHR ''Z'' \<or> CHR ''a'' \<le> c \<and> c \<le> CHR ''z'' \<or> is_digit c \<or> c = CHR ''_''"

text \<open>\<^verbatim>\<open>/^([\w-]+)\.(\*|[\w.-]+)$/u\<close>: the class before the dot holds no dot, so the first dot separates.\<close>

definition parse_entry :: "string \<Rightarrow> (string \<times> string) option" where
  "parse_entry e =
     (case index_of CHR ''.'' e of
        None \<Rightarrow> None
      | Some i \<Rightarrow>
          (let ns = take i e; p = drop (Suc i) e in
           if ns \<noteq> [] \<and> list_all (\<lambda>c. word_char c \<or> c = CHR ''-'') ns \<and>
              (p = ''*'' \<or> p \<noteq> [] \<and> list_all (\<lambda>c. word_char c \<or> c = CHR ''.'' \<or> c = CHR ''-'') p)
           then Some (ns, p) else None))"

definition declared_contracts :: "app_requirement list \<Rightarrow> string set" where
  "declared_contracts requires = set (map rq_contract requires)"

definition single_quoted :: "string \<Rightarrow> string" where
  "single_quoted s = CHR 0x27 # s @ [CHR 0x27]"

definition bad_entry :: "string \<Rightarrow> string \<Rightarrow> svc_error" where
  "bad_entry e why = ServiceError (''allowed_tools entry \"'' @ e @ ''\" '' @ why) 400"

definition broader :: "string \<Rightarrow> string" where
  "broader ns = ''Anything broader belongs in an exported workflow - register one that calls '' @ ns @
     '', list it in `workflows`, and the app calls it as \"'' @ APP_WORKFLOW_NAMESPACE @ ''.<workflow>\".''"

definition listed :: "string list \<Rightarrow> string" where
  "listed ws = (if ws = [] then ''none'' else join '', '' ws)"

text \<open>The grants of one entry, or the reason the list is refused.\<close>

definition entry_grants ::
  "string \<Rightarrow> string list \<Rightarrow> app_requirement list \<Rightarrow> string \<Rightarrow> svc_error + (string \<times> string) list" where
  "entry_grants app workflows requires e =
     (case parse_entry e of
        None \<Rightarrow> Inl (bad_entry e (''must be '' @ single_quoted ''namespace.procedure'' @ '' or '' @ single_quoted ''namespace.*''))
      | Some (ns, p) \<Rightarrow>
          if is_native_namespace ns then Inr []
          else if is_workflow_namespace ns then
            (if p = ''*'' then Inr []
             else if resolve_exported_workflow workflows p \<noteq> None then Inr []
             else Inl (bad_entry e (''names a workflow '' @ app @ '' does not export. Add \"'' @ p @
               ''\" to this app's `workflows` list first (exported: '' @ listed workflows @ '').'')))
          else if ns \<in> declared_contracts requires then
            (if p = ''*'' then Inl (bad_entry e (''grants a whole interface namespace, which is never allowed: a contract entry '' @
               ''must name one exact procedure (e.g. \"'' @ ns @ ''.query\"). '' @ broader ns))
             else Inr [])
          else if is_core_service_name ns then
            Inl (bad_entry e (''is not reachable from an app session: \"'' @ ns @ ''\" is a core service '' @
              ''namespace, not a provider. Only the auto-partitioned natives ('' @ join '', '' NATIVE_APP_NAMESPACES @ ''), '' @
              ''this app's workflow namespace (\"'' @ APP_WORKFLOW_NAMESPACE @ ''.*\"), exact provider procedures, and '' @
              ''exact procedures on declared requires contracts are allowed.''))
          else if p = ''*'' then
            Inl (bad_entry e (''grants a whole provider namespace, which is never allowed: a provider entry '' @
              ''is a credential grant and must name one exact procedure (e.g. \"'' @ ns @ ''.repos.get\"). '' @ broader ns))
          else Inr [(ns, p)])"

fun validate_allowed_tools_entries ::
  "string \<Rightarrow> string list \<Rightarrow> app_requirement list \<Rightarrow> string list \<Rightarrow> svc_error + (string \<times> string) list" where
  "validate_allowed_tools_entries app workflows requires [] = Inr []"
| "validate_allowed_tools_entries app workflows requires (e # es) =
     (case entry_grants app workflows requires e of
        Inl err \<Rightarrow> Inl err
      | Inr gs \<Rightarrow> map_sum id (\<lambda>rest. gs @ rest) (validate_allowed_tools_entries app workflows requires es))"

section \<open>Requirements\<close>

fun parse_requirement :: "(string \<Rightarrow> bool) \<Rightarrow> json \<Rightarrow> svc_error + app_requirement" where
  "parse_requirement is_interface (JObj m) =
     (case jprop (JObj m) ''contract'' of
        JStr c \<Rightarrow>
          if js_trim c = [] then Inl (ServiceError ''requires entry must name a contract string'' 400)
          else if \<not> is_interface c
          then Inl (ServiceError (''Unknown contract \"'' @ c @ ''\" - declare a contract that exists in the interface catalog'') 400)
          else Inr \<lparr>rq_contract = c,
            rq_profile = (case jprop (JObj m) ''profileName'' of JStr s \<Rightarrow> if js_trim s = [] then None else Some (js_trim s) | _ \<Rightarrow> None),
            rq_optional = (jprop (JObj m) ''optional'' = JBool True)\<rparr>
      | _ \<Rightarrow> Inl (ServiceError ''requires entry must name a contract string'' 400))"
| "parse_requirement is_interface _ = Inl (ServiceError ''requires entries must be objects with a contract id'' 400)"

fun parse_requirements :: "(string \<Rightarrow> bool) \<Rightarrow> json list \<Rightarrow> svc_error + app_requirement list" where
  "parse_requirements is_interface [] = Inr []"
| "parse_requirements is_interface (j # js) =
     (case parse_requirement is_interface j of
        Inl e \<Rightarrow> Inl e
      | Inr r \<Rightarrow> map_sum id (\<lambda>rs. r # rs) (parse_requirements is_interface js))"

fun parse_requires :: "(string \<Rightarrow> bool) \<Rightarrow> json \<Rightarrow> svc_error + app_requirement list option" where
  "parse_requires is_interface JUndefined = Inr None"
| "parse_requires is_interface JNull = Inr None"
| "parse_requires is_interface (JArr js) = map_sum id Some (parse_requirements is_interface js)"
| "parse_requires is_interface _ = Inl (ServiceError ''requires must be an array of {contract, profileName?, optional?}'' 400)"

record dependency_capability =
  dc_contract :: string
  dc_optional :: bool
  dc_bound :: "string option"
  dc_fulfilled :: "bool option"             \<comment> \<open>\<^verbatim>\<open>None\<close> for \<^verbatim>\<open>"ungated"\<close>\<close>

definition dependency_capabilities ::
  "app_manifest \<Rightarrow> (string \<Rightarrow> string option) \<Rightarrow> (string \<Rightarrow> bool option option) \<Rightarrow> dependency_capability list" where
  "dependency_capabilities m bindings fulfilled =
     map (\<lambda>r. let bound = bindings (rq_contract r) in
       \<lparr>dc_contract = rq_contract r, dc_optional = rq_optional r, dc_bound = (if truthy bound then bound else None),
        dc_fulfilled = (case fulfilled (rq_contract r) of Some f \<Rightarrow> f
          | None \<Rightarrow> Some (if truthy bound then True else rq_optional r))\<rparr>) (am_requires m)"

section \<open>What a manifest may call\<close>

definition contract_grant_callable :: "app_manifest \<Rightarrow> string \<Rightarrow> string \<Rightarrow> bool" where
  "contract_grant_callable m ns p \<longleftrightarrow> ns \<in> declared_contracts (am_requires m) \<and> dotted ns p \<in> set (am_allowed m)"

definition provider_grant_entries :: "(string \<Rightarrow> bool) \<Rightarrow> string list \<Rightarrow> (string \<times> string) list" where
  "provider_grant_entries is_interface entries =
     List.map_filter (\<lambda>e. case parse_entry e of
       None \<Rightarrow> None
     | Some (ns, p) \<Rightarrow>
         if is_native_namespace ns \<or> is_workflow_namespace ns then None
         else if is_core_service_name ns \<or> p = ''*'' then None
         else if is_interface ns then None else Some (ns, p)) entries"

definition provider_grant_callable :: "(string \<Rightarrow> bool) \<Rightarrow> app_manifest \<Rightarrow> string \<Rightarrow> string \<Rightarrow> bool" where
  "provider_grant_callable is_interface m ns p \<longleftrightarrow>
     \<not> (is_native_namespace ns \<or> is_workflow_namespace ns) \<and> \<not> is_core_service_name ns \<and> \<not> is_interface ns \<and>
     dotted ns p \<in> set (am_allowed m)"

text \<open>The procedures of each granted provider, providers in order of their first grant.\<close>

definition provider_grant_capabilities :: "(string \<Rightarrow> bool) \<Rightarrow> app_manifest \<Rightarrow> (string \<times> string list) list" where
  "provider_grant_capabilities is_interface m =
     foldl (\<lambda>by (ns, p). AList.update ns (set_add p (case map_of by ns of Some ps \<Rightarrow> ps | None \<Rightarrow> [])) by)
       [] (provider_grant_entries is_interface (am_allowed m))"

definition evaluate_app_tool_dispatch ::
  "'r registry \<Rightarrow> principal \<Rightarrow> app_manifest \<Rightarrow> string \<Rightarrow> string \<Rightarrow> tool_effect option \<Rightarrow> string option \<Rightarrow> credential_ref option
     \<Rightarrow> ('r dworld, decision) prog" where
  "evaluate_app_tool_dispatch reg p m ns proc eff resource credential =
     evaluate_dispatch reg
       \<lparr>dr_principal = p, dr_via = Some \<lparr>via_app = Some (am_app m), via_profile = None\<rparr>,
        dr_tool = \<lparr>tl_namespace = ns, tl_operation = proc, tl_effect = (case eff of Some e \<Rightarrow> e | None \<Rightarrow> Action)\<rparr>,
        dr_resource = (if truthy resource then resource else None), dr_credential = credential, dr_run = None\<rparr>
       (no_options\<lparr>eo_app_ceiling := Some (am_allowed m)\<rparr>)"

text \<open>The namespace of an entry as \<^verbatim>\<open>workflowCallable\<close> cuts it: \<^verbatim>\<open>slice(0, -1)\<close> when there is no dot.\<close>

definition entry_namespace :: "string \<Rightarrow> string" where
  "entry_namespace e = (case index_of CHR ''.'' e of Some i \<Rightarrow> take i e | None \<Rightarrow> drop_end 1 e)"

definition entry_procedure :: "string \<Rightarrow> string" where
  "entry_procedure e = (case index_of CHR ''.'' e of Some i \<Rightarrow> drop (Suc i) e | None \<Rightarrow> e)"

definition workflow_callable :: "app_manifest \<Rightarrow> string \<Rightarrow> bool" where
  "workflow_callable m name \<longleftrightarrow> name \<in> set (am_workflows m) \<and>
     (let entries = filter (\<lambda>e. is_workflow_namespace (entry_namespace e)) (am_allowed m)
      in entries = [] \<or> (\<exists>e \<in> set entries. entry_procedure e = ''*'' \<or> entry_procedure e \<in> {name, camel_case name}))"

section \<open>Publishing\<close>

definition parse_allowed_tools ::
  "string \<Rightarrow> string list \<Rightarrow> app_requirement list \<Rightarrow> json \<Rightarrow> svc_error + string list \<times> (string \<times> string) list" where
  "parse_allowed_tools app workflows requires raw =
     (case raw of
        JArr js \<Rightarrow>
          (let tools = List.map_filter (\<lambda>j. case j of JStr t \<Rightarrow> if js_trim t = [] then None else Some t | _ \<Rightarrow> None) js
           in if tools = [] then Inl (ServiceError ''allowed_tools must contain at least one entry'' 400)
              else map_sum id (\<lambda>gs. (tools, gs)) (validate_allowed_tools_entries app workflows requires tools))
      | _ \<Rightarrow> Inl (ServiceError (''allowed_tools must be an array of '' @ single_quoted ''namespace.procedure'' @ '' (or '' @ single_quoted ''namespace.*'' @ '') entries'') 400))"

definition assert_grant_credentials :: "string list \<Rightarrow> (string \<times> string) list \<Rightarrow> svc_error + unit" where
  "assert_grant_credentials held grants =
     (case find (\<lambda>p. p \<notin> set held) (dedup (map fst grants)) of
        None \<Rightarrow> Inr ()
      | Some p \<Rightarrow> Inl (ServiceError (''allowed_tools grants '' @ p @ '' procedures, but this workspace holds no '' @ p @
          '' credential - connect one first, or reach '' @ p @ '' through an exported workflow.'') 400))"

end
