(* ===== verification/Svc_Context.thy ===== *)
theory Svc_Context
  imports Vfs_Access Json
begin

text \<open>
  The context a core service is called in (\<^verbatim>\<open>ServiceContext\<close> of \<^verbatim>\<open>server/workspace/src/service-kernel.ts\<close>)
  as far as the services modelled here read it, with the paths of an application's session
  (\<^verbatim>\<open>apps/store.ts\<close>), and the check of identifiers of \<^verbatim>\<open>services.ts\<close>.
\<close>

section \<open>Contexts\<close>

record app_scope =
  sc_paths :: app_paths
  sc_name :: string
  sc_user :: string
  sc_role :: string

record svc_ctx =
  cx_ws :: string
  cx_user :: string
  cx_scope :: "app_scope option"

definition workspace_path :: "string \<Rightarrow> string \<Rightarrow> svc_error + string" where
  "workspace_path value label =
     (case normalize_fs_path value of
        None \<Rightarrow> Inl (ServiceError (label @ '' must be a workspace path (e.g. apps/liift4/widget.tsx)'') 400)
      | Some p \<Rightarrow>
          if p = ''.services'' \<or> starts_with p ''.services/'' then Inl (ServiceError (label @ '' cannot live under .services/'') 400)
          else Inr p)"

definition app_root :: "app_scope \<Rightarrow> svc_error + string" where
  "app_root s = (case app_paths_root (sc_paths s) of
     Some r \<Rightarrow> if r = [] then Inl (ServiceError (''App '' @ sc_name s @ '' has no published root'') 400) else Inr r
   | None \<Rightarrow> Inl (ServiceError (''App '' @ sc_name s @ '' has no published root'') 400))"

definition resolve_app_path :: "app_scope \<Rightarrow> string \<Rightarrow> svc_error + string" where
  "resolve_app_path s relative = (case app_root s of Inl e \<Rightarrow> Inl e | Inr r \<Rightarrow> workspace_path (r @ ''/'' @ relative) ''path'')"

section \<open>Identifiers\<close>

definition ident_char :: "char \<Rightarrow> bool" where
  "ident_char c \<longleftrightarrow> CHR ''A'' \<le> c \<and> c \<le> CHR ''Z'' \<or> CHR ''a'' \<le> c \<and> c \<le> CHR ''z'' \<or> is_digit c \<or> c = CHR ''_''"

text \<open>\<^verbatim>\<open>/^[\w][\w.\-:]{0,127}$/u\<close>\<close>

definition ident_re :: "string \<Rightarrow> bool" where
  "ident_re s \<longleftrightarrow> (case s of [] \<Rightarrow> False
     | c # cs \<Rightarrow> ident_char c \<and> length cs \<le> 127 \<and> list_all (\<lambda>d. ident_char d \<or> d = CHR ''.'' \<or> d = CHR ''-'' \<or> d = CHR '':'') cs)"

definition ident_pattern :: string where
  "ident_pattern = ''/^['' @ backslash # ''w]['' @ backslash # ''w.'' @ backslash # ''-:]{0,127}$/u''"

definition ident :: "json \<Rightarrow> string \<Rightarrow> svc_error + string" where
  "ident value label =
     (case value of JStr s \<Rightarrow> if ident_re s then Inr s else Inl (ServiceError (label @ '' must match '' @ ident_pattern) 400)
      | _ \<Rightarrow> Inl (ServiceError (label @ '' must match '' @ ident_pattern) 400))"

lemma ident_re_slash: "ident_re s \<Longrightarrow> CHR ''/'' \<notin> set s"
  by (auto simp: ident_re_def ident_char_def is_digit_def list_all_iff split: list.splits)

end
