(* ===== verification/Time_Ids.thy ===== *)
theory Time_Ids
  imports Base
begin

text \<open>
  The time-prefixed identifiers of notifications, releases and runs (\<^verbatim>\<open>newNotificationId\<close> of
  \<^verbatim>\<open>server/workspace/src/notifications/service.ts\<close>, \<^verbatim>\<open>newReleaseId\<close> of \<^verbatim>\<open>apps/release-tags.ts\<close>,
  \<^verbatim>\<open>newRunId\<close> of \<^verbatim>\<open>workflows/store.ts\<close>): the clock in base 36, then eight characters of a random
  identifier. Between 1972 and 2059 the clock has eight digits, and the keys sort by time.
\<close>

definition base36_char :: "nat \<Rightarrow> char" where
  "base36_char n = (if n < 10 then digit_char n else char_of (87 + n))"

fun show_base36 :: "nat \<Rightarrow> string" where
  "show_base36 n = (if n < 36 then [base36_char n] else show_base36 (n div 36) @ [base36_char (n mod 36)])"

declare show_base36.simps [simp del]

definition time_id :: "int \<Rightarrow> string \<Rightarrow> string" where
  "time_id now uuid = show_base36 (nat now) @ ''-'' @ take 8 uuid"

section \<open>Order\<close>

lemma base36_less: "m < n \<Longrightarrow> n < 36 \<Longrightarrow> base36_char m < base36_char n"
  by (auto simp: base36_char_def digit_char_def less_char_def)

lemma show_base36_length: "36 ^ k \<le> n \<Longrightarrow> n < 36 ^ Suc k \<Longrightarrow> length (show_base36 n) = Suc k"
proof (induction k arbitrary: n)
  case 0
  then show ?case by (simp add: show_base36.simps [of n])
next
  case (Suc k)
  have big: "\<not> n < 36" using Suc.prems(1) by (simp add: not_less) (metis le_trans one_le_numeral one_le_power mult_le_mono2 mult.right_neutral)
  have "36 ^ k \<le> n div 36" "n div 36 < 36 ^ Suc k"
    using Suc.prems by (simp_all add: less_eq_div_iff_mult_less_eq less_mult_imp_div_less mult.commute)
  from Suc.IH [OF this] big show ?case by (simp add: show_base36.simps [of n])
qed

lemma less_append_same_length:
  fixes xs ys :: "'a::linorder list"
  shows "length xs = length ys \<Longrightarrow> xs < ys \<Longrightarrow> xs @ a < ys @ b"
  by (induction xs ys rule: list_induct2) (auto simp: Cons_less_Cons)

lemma less_same_prefix:
  fixes a b :: "'a::linorder list"
  shows "a < b \<Longrightarrow> xs @ a < xs @ b"
  by (induction xs) simp_all

lemma show_base36_less:
  "36 ^ k \<le> m \<Longrightarrow> m < n \<Longrightarrow> n < 36 ^ Suc k \<Longrightarrow> show_base36 m < show_base36 n"
proof (induction k arbitrary: m n)
  case 0
  then show ?case using base36_less [of m n] by (simp add: show_base36.simps [of n] show_base36.simps [of m])
next
  case (Suc k)
  have bounds: "36 ^ k \<le> m div 36" "n div 36 < 36 ^ Suc k"
    using Suc.prems by (simp_all add: less_eq_div_iff_mult_less_eq less_mult_imp_div_less mult.commute)
  have "(36::nat) \<le> 36 ^ Suc k" by simp
  then have "\<not> m < 36" "\<not> n < 36" using Suc.prems by linarith+
  then have m: "show_base36 m = show_base36 (m div 36) @ [base36_char (m mod 36)]"
    and n: "show_base36 n = show_base36 (n div 36) @ [base36_char (n mod 36)]"
    by (simp_all add: show_base36.simps [of m] show_base36.simps [of n])
  have le: "m div 36 \<le> n div 36" using Suc.prems(2) by (simp add: div_le_mono)
  show ?case
  proof (cases "m div 36 = n div 36")
    case True
    then have "m mod 36 < n mod 36" using Suc.prems(2) by (metis div_mult_mod_eq nat_add_left_cancel_less)
    then have "base36_char (m mod 36) < base36_char (n mod 36)" by (rule base36_less) simp
    with True show ?thesis unfolding m n by (simp add: less_same_prefix)
  next
    case False
    with le have "m div 36 < n div 36" by simp
    from Suc.IH [OF bounds(1) this bounds(2)] have "show_base36 (m div 36) < show_base36 (n div 36)" .
    moreover have "length (show_base36 (m div 36)) = length (show_base36 (n div 36))"
      using show_base36_length [of k "m div 36"] show_base36_length [of k "n div 36"] bounds \<open>m div 36 < n div 36\<close> by simp
    ultimately show ?thesis unfolding m n by (rule less_append_same_length [rotated])
  qed
qed

lemma time_id_less:
  assumes "36 ^ 7 \<le> nat s" and "s < t" and "nat t < 36 ^ 8"
  shows "time_id s u < time_id t v"
proof -
  from assms have "nat s < nat t" by simp
  with assms have "show_base36 (nat s) < show_base36 (nat t)"
    by (intro show_base36_less [of 7]) simp_all
  moreover have "length (show_base36 (nat s)) = length (show_base36 (nat t))"
    using show_base36_length [of 7 "nat s"] show_base36_length [of 7 "nat t"] assms \<open>nat s < nat t\<close> by simp
  ultimately show ?thesis unfolding time_id_def by (rule less_append_same_length [rotated])
qed

end
