(* ===== verification/Notifications.thy ===== *)
theory Notifications
  imports App_Tools Svc_Context Time_Ids
begin

text \<open>
  The feed of notifications, \<^verbatim>\<open>server/workspace/src/notifications/service.ts\<close>, over the record
  store and the dispatch decision. A record is in the scope \<^verbatim>\<open>notify\<close> of its workspace under a
  time-prefixed key; a seen one gets ten days to live. The manifests of installed applications
  are an argument. The descriptions of the procedures are left out.
\<close>

section \<open>Records\<close>

datatype notification_category = Decision | Warning | Activity

datatype audience = ForUser | ForWorkspace

record app_call =
  ac_ns :: string
  ac_proc :: string
  ac_args :: json

record notification_choice =
  nc_label :: string
  nc_description :: "string option"
  nc_call :: app_call

record notification =
  nf_id :: string
  nf_category :: notification_category
  nf_title :: string
  nf_body :: "string option"
  nf_audience :: audience
  nf_user :: "string option"
  nf_widget :: "(string \<times> json) option"
  nf_choices :: "notification_choice list option"
  nf_link :: json
  nf_source :: "string option"
  nf_by :: string
  nf_created :: string
  nf_seen :: "(string \<times> string) list"

definition NOTIFY_SCOPE :: string where
  "NOTIFY_SCOPE = ''notify''"

definition LIST_CAP :: int where
  "LIST_CAP = 100"

definition SEEN_TTL_DAYS :: int where
  "SEEN_TTL_DAYS = 10"

definition category_of :: "json \<Rightarrow> notification_category" where
  "category_of j = (if j = JStr ''decision'' then Decision else if j = JStr ''warning'' then Warning else Activity)"

section \<open>The shell and widget split\<close>

record notification_shell =
  sh_user :: string
  sh_app :: "string option"
  sh_title :: string
  sh_body :: "string option"
  sh_category :: notification_category
  sh_choices :: "notification_choice list option"

definition recipient :: "notification \<Rightarrow> string" where
  "recipient n = (case nf_user n of Some u \<Rightarrow> u | None \<Rightarrow> nf_by n)"

definition notification_shell_of :: "notification \<Rightarrow> notification_shell" where
  "notification_shell_of n =
     \<lparr>sh_user = recipient n, sh_app = (if truthy (nf_source n) then nf_source n else None), sh_title = nf_title n,
      sh_body = nf_body n, sh_category = nf_category n, sh_choices = nf_choices n\<rparr>"

text \<open>Identifier, shell, widget, and the body, link and data a client without the widget falls back to.\<close>

definition project_notification ::
  "notification \<Rightarrow> string \<times> notification_shell \<times> (string \<times> json) option \<times> string option \<times> json \<times> json" where
  "project_notification n =
     (nf_id n, notification_shell_of n, nf_widget n, nf_body n, nf_link n,
      (case nf_widget n of Some (p, d) \<Rightarrow> d | None \<Rightarrow> JUndefined))"

section \<open>The world\<close>

record 'r notify_env =
  ne_registry :: "'r registry"
  ne_manifest :: "string \<Rightarrow> string \<Rightarrow> svc_error + app_manifest option"

record 'r notify_world =
  nw_dispatch :: "'r dworld"
  nw_db :: "notification db"

definition on_review :: "('r dworld, 'a) prog \<Rightarrow> ('r notify_world, 'a) prog" where
  "on_review = zoom nw_dispatch (\<lambda>d w. w\<lparr>nw_dispatch := d\<rparr>)"

definition on_feed :: "(notification db, 'a) prog \<Rightarrow> ('r notify_world, 'a) prog" where
  "on_feed = zoom nw_db (\<lambda>d w. w\<lparr>nw_db := d\<rparr>)"

definition nw_now :: "'r notify_world \<Rightarrow> int" where
  "nw_now w = dw_now (nw_dispatch w)"

definition actor_sub :: "svc_ctx \<Rightarrow> string" where
  "actor_sub c = (case cx_scope c of Some s \<Rightarrow> sc_user s | None \<Rightarrow> cx_user c)"

definition visible_to :: "svc_ctx \<Rightarrow> notification \<Rightarrow> bool" where
  "visible_to c n \<longleftrightarrow>
     (case cx_scope c of
        Some s \<Rightarrow> nf_source n = Some (sc_name s) \<and> recipient n = actor_sub c
      | None \<Rightarrow> nf_audience n = ForWorkspace \<or> recipient n = actor_sub c)"

definition read_notification :: "svc_ctx \<Rightarrow> string \<Rightarrow> 'r notify_world \<Rightarrow> svc_error + notification option" where
  "read_notification c i w = map_sum id (map_option en_value) (rs_get (nw_now w) (nw_db w) (cx_ws c, NOTIFY_SCOPE, i))"

definition write_notification :: "svc_ctx \<Rightarrow> notification \<Rightarrow> int option \<Rightarrow> ('r notify_world, unit) prog" where
  "write_notification c n expires =
     bindM (gets nw_now) (\<lambda>now.
     thenM (on_feed (put_doc now (cx_ws c, NOTIFY_SCOPE, nf_id n) n (actor_sub c) expires)) (ret ()))"

section \<open>Calls of a notification\<close>

definition dispatch_notification_widget_call ::
  "'r registry \<Rightarrow> principal \<Rightarrow> app_manifest \<Rightarrow> app_call \<Rightarrow> tool_effect option \<Rightarrow> string option \<Rightarrow> credential_ref option
     \<Rightarrow> ('r dworld, decision) prog" where
  "dispatch_notification_widget_call reg p m call eff resource credential =
     (if is_workflow_namespace (ac_ns call) then
        (case resolve_exported_workflow (am_workflows m) (ac_proc call) of
           None \<Rightarrow> ret (Deny DenyCapability)
         | Some flow \<Rightarrow> ret (if flow = [] \<or> \<not> workflow_callable m flow then Deny DenyCapability else Allow))
      else if is_native_namespace (ac_ns call) then
        ret (if tool_allowed m (ac_ns call) (ac_proc call) then Allow else Deny DenyCapability)
      else evaluate_app_tool_dispatch reg p m (ac_ns call) (ac_proc call) eff resource credential)"

definition principal_from_ctx :: "svc_ctx \<Rightarrow> principal" where
  "principal_from_ctx c =
     \<lparr>pr_sub = actor_sub c, pr_ws = cx_ws c,
      pr_role = (if map_option sc_role (cx_scope c) = Some ''admin'' then ''admin'' else ''member''), pr_groups = []\<rparr>"

section \<open>Parsing\<close>

definition parse_choice :: "json \<Rightarrow> svc_error + notification_choice" where
  "parse_choice entry =
     (let call = jprop entry ''call'' in
      case (jprop entry ''label'', jprop call ''namespace'', jprop call ''procedure'') of
        (JStr label, JStr ns, JStr proc) \<Rightarrow>
          Inr \<lparr>nc_label = take 80 label,
            nc_description = (case jprop entry ''description'' of JStr d \<Rightarrow> Some (take 300 d) | _ \<Rightarrow> None),
            nc_call = \<lparr>ac_ns = ns, ac_proc = proc,
              ac_args = (case jprop call ''args'' of JObj m \<Rightarrow> JObj m | JArr js \<Rightarrow> JArr js | _ \<Rightarrow> JObj [])\<rparr>\<rparr>
      | _ \<Rightarrow> Inl (ServiceError ''each choice needs { label, call: { namespace, procedure, args? } }'' 400))"

fun parse_choice_list :: "json list \<Rightarrow> svc_error + notification_choice list" where
  "parse_choice_list [] = Inr []"
| "parse_choice_list (j # js) =
     (case parse_choice j of Inl e \<Rightarrow> Inl e | Inr c \<Rightarrow> map_sum id (\<lambda>cs. c # cs) (parse_choice_list js))"

fun parse_choices :: "json \<Rightarrow> svc_error + notification_choice list option" where
  "parse_choices JUndefined = Inr None"
| "parse_choices JNull = Inr None"
| "parse_choices (JArr js) = map_sum id (\<lambda>cs. if cs = [] then None else Some cs) (parse_choice_list js)"
| "parse_choices _ = Inl (ServiceError ''choices must be an array'' 400)"

definition parse_widget :: "json \<Rightarrow> svc_error + (string \<times> json) option" where
  "parse_widget j =
     (case j of
        JObj m \<Rightarrow> (case jprop j ''path'' of JStr p \<Rightarrow> Inr (Some (p, jprop j ''data'')) | _ \<Rightarrow> Inl (ServiceError ''widget.path must be a string'' 400))
      | JArr js \<Rightarrow> Inl (ServiceError ''widget.path must be a string'' 400)
      | _ \<Rightarrow> Inr None)"

section \<open>Emitting\<close>

fun check_choices :: "'r notify_env \<Rightarrow> principal \<Rightarrow> app_manifest \<Rightarrow> notification_choice list \<Rightarrow> ('r notify_world, unit) prog" where
  "check_choices env p m [] = ret ()"
| "check_choices env p m (c # cs) =
     bindM (on_review (dispatch_notification_widget_call (ne_registry env) p m (nc_call c) None None None)) (\<lambda>d.
     case d of
       Deny reason \<Rightarrow> throw (ServiceError (''Choice \"'' @ nc_label c @ ''\" calls '' @ dotted (ac_ns (nc_call c)) (ac_proc (nc_call c)) @
         '', which this app has no access to'') 403)
     | _ \<Rightarrow> check_choices env p m cs)"

text \<open>The widget, and the choices, of an application's own notification.\<close>

definition app_widget :: "app_scope \<Rightarrow> (string \<times> json) option \<Rightarrow> svc_error + (string \<times> json) option" where
  "app_widget s wd =
     (case wd of
        None \<Rightarrow> Inr None
      | Some (p, d) \<Rightarrow> if starts_with p ''builtin:'' then Inr wd else map_sum id (\<lambda>q. Some (q, d)) (resolve_app_path s p))"

definition app_choices :: "'r notify_env \<Rightarrow> svc_ctx \<Rightarrow> app_scope \<Rightarrow> notification_choice list option \<Rightarrow> ('r notify_world, unit) prog" where
  "app_choices env c s choices =
     (case choices of
        None \<Rightarrow> ret ()
      | Some cs \<Rightarrow>
          bindM (liftE (ne_manifest env (cx_ws c) (ap_id (sc_paths s)))) (\<lambda>m.
          case m of
            None \<Rightarrow> throw (ServiceError ''App manifest unavailable - choices rejected'' 403)
          | Some man \<Rightarrow> check_choices env (principal_from_ctx c) man cs))"

definition emit :: "'r notify_env \<Rightarrow> svc_ctx \<Rightarrow> json \<Rightarrow> ('r notify_world, notification) prog" where
  "emit env c args =
     (case jprop args ''title'' of
        JStr title \<Rightarrow>
          if js_trim title = [] then throw (ServiceError ''title is required'' 400)
          else bindM (liftE (parse_choices (jprop args ''choices''))) (\<lambda>choices.
          bindM (liftE (parse_widget (jprop args ''widget''))) (\<lambda>wd.
          bindM (case cx_scope c of
              None \<Rightarrow> ret (wd, if jprop args ''audience'' = JStr ''workspace'' then ForWorkspace else ForUser,
                case jprop args ''user'' of JStr u \<Rightarrow> if u = [] then actor_sub c else u | _ \<Rightarrow> actor_sub c)
            | Some s \<Rightarrow> bindM (liftE (app_widget s wd)) (\<lambda>wd'.
                thenM (app_choices env c s choices) (ret (wd', ForUser, sc_user s)))) (\<lambda>(widget, aud, user).
          bindM (on_review (random_uuid (ne_registry env))) (\<lambda>uuid.
          bindM (gets nw_now) (\<lambda>now.
          let n = \<lparr>nf_id = time_id now uuid, nf_category = category_of (jprop args ''category''), nf_title = take 200 title,
              nf_body = (case jprop args ''body'' of JStr b \<Rightarrow> Some (take 2000 b) | _ \<Rightarrow> None),
              nf_audience = aud, nf_user = Some user, nf_widget = widget, nf_choices = choices, nf_link = jprop args ''link'',
              nf_source = map_option sc_name (cx_scope c), nf_by = actor_sub c, nf_created = iso_of now, nf_seen = []\<rparr>
          in thenM (write_notification c n None) (ret n))))))
      | _ \<Rightarrow> throw (ServiceError ''title is required'' 400))"

section \<open>Listing\<close>

text \<open>\<^verbatim>\<open>Number(x) || LIST_CAP\<close>, capped.\<close>

fun json_number :: "json \<Rightarrow> int" where
  "json_number (JNum n) = n"
| "json_number (JStr s) = (case js_number s of Some n \<Rightarrow> n | None \<Rightarrow> 0)"
| "json_number (JBool b) = (if b then 1 else 0)"
| "json_number (JArr [j]) = (case j of JNum n \<Rightarrow> n | JStr s \<Rightarrow> (case js_number s of Some n \<Rightarrow> n | None \<Rightarrow> 0) | _ \<Rightarrow> 0)"
| "json_number _ = 0"

definition list_limit :: "json \<Rightarrow> int" where
  "list_limit j = min (if json_number j = 0 then LIST_CAP else json_number j) LIST_CAP"

definition seen_by :: "string \<Rightarrow> notification \<Rightarrow> bool" where
  "seen_by u n \<longleftrightarrow> (case map_of (nf_seen n) u of Some t \<Rightarrow> t \<noteq> [] | None \<Rightarrow> False)"

fun list_walk :: "svc_ctx \<Rightarrow> bool \<Rightarrow> int \<Rightarrow> 'r notify_world \<Rightarrow> string list \<Rightarrow> notification list \<Rightarrow> notification list" where
  "list_walk c includeSeen limit w [] acc = acc"
| "list_walk c includeSeen limit w (k # ks) acc =
     (if int (length acc) \<ge> limit then acc
      else case read_notification c k w of
        Inr (Some n) \<Rightarrow>
          if \<not> visible_to c n then list_walk c includeSeen limit w ks acc
          else if \<not> includeSeen \<and> seen_by (actor_sub c) n then list_walk c includeSeen limit w ks acc
          else list_walk c includeSeen limit w ks (acc @ [n])
      | _ \<Rightarrow> list_walk c includeSeen limit w ks acc)"

definition list_notifications :: "svc_ctx \<Rightarrow> json \<Rightarrow> 'r notify_world \<Rightarrow> notification list \<times> string" where
  "list_notifications c args w =
     (list_walk c (jprop args ''include_seen'' = JBool True) (list_limit (jprop args ''limit'')) w
        (rev (rs_list (nw_now w) (nw_db w) (cx_ws c) NOTIFY_SCOPE [])) [], actor_sub c)"

section \<open>Marking as seen\<close>

definition unseen_targets :: "svc_ctx \<Rightarrow> 'r notify_world \<Rightarrow> notification list" where
  "unseen_targets c w =
     List.map_filter (\<lambda>k. case read_notification c k w of
         Inr (Some n) \<Rightarrow> if visible_to c n \<and> \<not> seen_by (actor_sub c) n then Some n else None
       | _ \<Rightarrow> None) (rs_list (nw_now w) (nw_db w) (cx_ws c) NOTIFY_SCOPE [])"

definition seen_expiry :: "int \<Rightarrow> int" where
  "seen_expiry now = now div 1000 + SEEN_TTL_DAYS * 24 * 3600"

definition mark_seen :: "svc_ctx \<Rightarrow> int \<Rightarrow> notification \<Rightarrow> ('r notify_world, unit) prog" where
  "mark_seen c expires n =
     bindM (gets nw_now) (\<lambda>now.
     write_notification c (n\<lparr>nf_seen := AList.update (actor_sub c) (iso_of now) (nf_seen n)\<rparr>) (Some expires))"

definition seen :: "svc_ctx \<Rightarrow> json \<Rightarrow> ('r notify_world, string list) prog" where
  "seen c args w =
     (let expires = seen_expiry (nw_now w);
          mark = (\<lambda>targets. thenM (iterM targets (mark_seen c expires)) (ret (map nf_id targets)))
      in case jprop args ''id'' of
        JStr (x # xs) \<Rightarrow>
          (case read_notification c (x # xs) w of
             Inl e \<Rightarrow> (Inl e, w)
           | Inr r \<Rightarrow>
               (case r of
                  Some n \<Rightarrow> if visible_to c n then mark [n] w else (Inl (ServiceError ''Unknown notification'' 404), w)
                | None \<Rightarrow> (Inl (ServiceError ''Unknown notification'' 404), w)))
      | _ \<Rightarrow> if jprop args ''all'' = JBool True then mark (unseen_targets c w) w
             else (Inl (ServiceError ''Pass id or all=true'' 400), w))"

end
