(* ===== verification/App_Calls.thy ===== *)
theory App_Calls
  imports App_Tools
begin

text \<open>
  The route of an application session's tool call, \<^verbatim>\<open>POST /apps/:workspaceId/:name/tools/:namespace/:procedure\<close>
  of \<^verbatim>\<open>server/workspace/src/routes/apps.ts\<close>: the two budgets, then the four ways to reach a tool, each
  checked against the manifest at the time of the call.
\<close>

section \<open>Sessions and the world\<close>

record app_session =
  se_manifest :: app_manifest
  se_owner :: string                         \<comment> \<open>\<^verbatim>\<open>workspaceId\<close>\<close>
  se_exec :: string                          \<comment> \<open>\<^verbatim>\<open>executionWorkspaceId\<close>\<close>
  se_install :: "(string \<times> (string \<times> string) list) option"   \<comment> \<open>install id and bindings\<close>
  se_sub :: string

record call_audit =
  ca_ws :: string
  ca_caller :: string
  ca_provider :: string
  ca_operation :: string
  ca_status :: nat

record ('l, 'r, 'x) call_world =
  cw_now :: int
  cw_usage :: "json db"
  cw_limiters :: "(string \<times> 'l) list"
  cw_reg :: 'r
  cw_audit :: "call_audit list"
  cw_tools :: 'x

record ('l, 'r, 'x) call_env =
  cv_interface :: "string \<Rightarrow> bool"
  cv_new_limiter :: "int \<Rightarrow> int \<Rightarrow> 'l"
  cv_try :: "int \<Rightarrow> 'l \<Rightarrow> bool \<times> 'l"
  cv_registry :: "'r registry"
  cv_invoke :: "string \<Rightarrow> string \<Rightarrow> string \<Rightarrow> json \<Rightarrow> string option \<Rightarrow> ('x, json) prog"
  cv_run :: "string \<Rightarrow> string \<Rightarrow> string \<Rightarrow> string \<Rightarrow> json \<Rightarrow> ('x, nat \<times> json) prog"

datatype app_reply = ReplyData json | ReplyWorkflow json | ReplyError string | ReplyDaily int int string

definition on_usage :: "(json db, 'a) prog \<Rightarrow> (('l, 'r, 'x) call_world, 'a) prog" where
  "on_usage = zoom cw_usage (\<lambda>d w. w\<lparr>cw_usage := d\<rparr>)"

definition on_app_reg :: "('r, 'a) prog \<Rightarrow> (('l, 'r, 'x) call_world, 'a) prog" where
  "on_app_reg = zoom cw_reg (\<lambda>d w. w\<lparr>cw_reg := d\<rparr>)"

definition on_tools :: "('x, 'a) prog \<Rightarrow> (('l, 'r, 'x) call_world, 'a) prog" where
  "on_tools = zoom cw_tools (\<lambda>d w. w\<lparr>cw_tools := d\<rparr>)"

section \<open>Budgets\<close>

text \<open>A bucket is made with the limits of the manifest at the user's first call.\<close>

definition check_app_rate_limit ::
  "('l, 'r, 'x) call_env \<Rightarrow> app_session \<Rightarrow> (('l, 'r, 'x) call_world, bool) prog" where
  "check_app_rate_limit env s w =
     (let m = se_manifest s; key = se_owner s @ ''/'' @ am_app m @ '':'' @ se_sub s;
          l = (case map_of (cw_limiters w) key of Some l \<Rightarrow> l
               | None \<Rightarrow> cv_new_limiter env (case am_rps m of Some r \<Rightarrow> r | None \<Rightarrow> 5) (case am_burst m of Some b \<Rightarrow> b | None \<Rightarrow> 10));
          (ok, l') = cv_try env (cw_now w) l
      in (Inr ok, w\<lparr>cw_limiters := AList.update key l' (cw_limiters w)\<rparr>))"

definition enforce_budgets ::
  "('l, 'r, 'x) call_env \<Rightarrow> app_session \<Rightarrow> (('l, 'r, 'x) call_world, (nat \<times> app_reply) option) prog" where
  "enforce_budgets env s =
     bindM (check_app_rate_limit env s) (\<lambda>ok.
     if \<not> ok then ret (Some (429, ReplyError ''rate_limit_exceeded''))
     else bindM (gets cw_now) (\<lambda>now.
       bindM (on_usage (count_daily_call now (se_owner s) (am_app (se_manifest s)) (am_daily (se_manifest s)) (se_sub s))) (\<lambda>u.
       ret (if \<not> du_allowed u then Some (429, ReplyDaily (du_used u) (du_limit u) (du_date u)) else None))))"

section \<open>The call\<close>

text \<open>\<^verbatim>\<open>readArgs\<close>: \<^verbatim>\<open>None\<close> is a body that does not parse.\<close>

definition read_args :: "json option \<Rightarrow> svc_error + json" where
  "read_args body =
     (case body of
        Some JNull \<Rightarrow> Inl (PlainError ''Cannot read properties of null (reading args)'')
      | Some j \<Rightarrow> Inr (case jprop j ''args'' of JObj m \<Rightarrow> JObj m | _ \<Rightarrow> JObj [])
      | None \<Rightarrow> Inr (JObj []))"

definition app_caller :: "app_session \<Rightarrow> string" where
  "app_caller s = ''app:'' @ am_name (se_manifest s) @ '':'' @ se_sub s"

definition append_audit :: "app_session \<Rightarrow> string \<Rightarrow> string \<Rightarrow> nat \<Rightarrow> (('l, 'r, 'x) call_world, unit) prog" where
  "append_audit s provider operation status =
     modifyM (\<lambda>w. w\<lparr>cw_audit := cw_audit w @ [\<lparr>ca_ws = se_exec s, ca_caller = app_caller s, ca_provider = provider,
        ca_operation = operation, ca_status = status\<rparr>]\<rparr>)"

definition invoke_and_audit ::
  "('l, 'r, 'x) call_env \<Rightarrow> app_session \<Rightarrow> string \<Rightarrow> string \<Rightarrow> string \<Rightarrow> json option \<Rightarrow> string option
     \<Rightarrow> (('l, 'r, 'x) call_world, nat \<times> app_reply) prog" where
  "invoke_and_audit env s ws ns proc body profile =
     bindM (liftE (read_args body)) (\<lambda>args.
     bindM (on_tools (cv_invoke env ws ns proc args profile)) (\<lambda>data.
     thenM (append_audit s ns proc 200) (ret (200, ReplyData data))))"

definition not_allowed :: "string \<Rightarrow> string \<Rightarrow> nat \<times> app_reply" where
  "not_allowed ns proc = (403, ReplyError (''Tool '' @ dotted ns proc @ '' is not allowed for this app''))"

definition call_workflow ::
  "('l, 'r, 'x) call_env \<Rightarrow> app_session \<Rightarrow> string \<Rightarrow> json option \<Rightarrow> (('l, 'r, 'x) call_world, nat \<times> app_reply) prog" where
  "call_workflow env s proc body =
     (let refused = ret (404, ReplyError (''Workflow '' @ proc @ '' is not exposed by this app'')) in
      case resolve_exported_workflow (am_workflows (se_manifest s)) proc of
        None \<Rightarrow> refused
      | Some flow \<Rightarrow>
          if flow = [] \<or> \<not> workflow_callable (se_manifest s) flow then refused
          else bindM (liftE (read_args body)) (\<lambda>args.
            bindM (on_tools (cv_run env (se_owner s) (se_exec s) (se_sub s) flow args)) (\<lambda>(status, result).
            thenM (append_audit s ''app'' flow status) (ret (status, ReplyWorkflow result)))))"

definition call_native ::
  "('l, 'r, 'x) call_env \<Rightarrow> app_session \<Rightarrow> string \<Rightarrow> string \<Rightarrow> json option \<Rightarrow> (('l, 'r, 'x) call_world, nat \<times> app_reply) prog" where
  "call_native env s ns proc body =
     (if \<not> tool_allowed (se_manifest s) ns proc then ret (not_allowed ns proc)
      else invoke_and_audit env s (se_exec s) ns proc body None)"

definition call_contract ::
  "('l, 'r, 'x) call_env \<Rightarrow> app_session \<Rightarrow> string \<Rightarrow> string \<Rightarrow> json option \<Rightarrow> (('l, 'r, 'x) call_world, nat \<times> app_reply) prog" where
  "call_contract env s ns proc body =
     (if \<not> contract_grant_callable (se_manifest s) ns proc then ret (not_allowed ns proc)
      else (let profile = (case se_install s of None \<Rightarrow> None | Some (i, bs) \<Rightarrow> map_of bs ns);
                go = invoke_and_audit env s (se_exec s) ns proc body profile
            in case se_install s of
                 None \<Rightarrow> go
               | Some (i, bs) \<Rightarrow>
                   if \<not> truthy profile then go
                   else bindM (on_app_reg (install_grant_holds (cv_registry env) (se_exec s) i (the profile))) (\<lambda>holds.
                     if \<not> holds then ret (403, ReplyError (''Profile grant for '' @ ns @ '' was revoked'')) else go)))"

text \<open>The four branches, in the order of the source.\<close>

definition call_target ::
  "('l, 'r, 'x) call_env \<Rightarrow> app_session \<Rightarrow> string \<Rightarrow> string \<Rightarrow> json option \<Rightarrow> (('l, 'r, 'x) call_world, nat \<times> app_reply) prog" where
  "call_target env s ns proc body =
     (if is_workflow_namespace ns then call_workflow env s proc body
      else if is_native_namespace ns then call_native env s ns proc body
      else if contract_grant_callable (se_manifest s) ns proc \<or> cv_interface env ns then call_contract env s ns proc body
      else if provider_grant_callable (cv_interface env) (se_manifest s) ns proc
      then invoke_and_audit env s (se_owner s) ns proc body None
      else ret (not_allowed ns proc))"

fun error_response :: "svc_error \<Rightarrow> nat \<times> app_reply" where
  "error_response (ServiceError m s) = (s, ReplyError m)"
| "error_response (PlainError m) = (500, ReplyError m)"

definition handle_tool_call ::
  "('l, 'r, 'x) call_env \<Rightarrow> app_session \<Rightarrow> string \<Rightarrow> string \<Rightarrow> json option \<Rightarrow> (('l, 'r, 'x) call_world, nat \<times> app_reply) prog" where
  "handle_tool_call env s ns proc body =
     catchM (bindM (enforce_budgets env s) (\<lambda>rejected.
       case rejected of Some r \<Rightarrow> ret r | None \<Rightarrow> call_target env s ns proc body))
     (\<lambda>e. ret (error_response e))"

text \<open>\<^verbatim>\<open>POST .../workflows/:workflow/run\<close>: here the export is checked before the budgets.\<close>

definition handle_workflow_run ::
  "('l, 'r, 'x) call_env \<Rightarrow> app_session \<Rightarrow> string \<Rightarrow> json option \<Rightarrow> (('l, 'r, 'x) call_world, nat \<times> app_reply) prog" where
  "handle_workflow_run env s requested body =
     (let refused = ret (404, ReplyError (''Workflow '' @ requested @ '' is not exposed by this app'')) in
      catchM (case resolve_exported_workflow (am_workflows (se_manifest s)) requested of
        None \<Rightarrow> refused
      | Some flow \<Rightarrow>
          if flow = [] \<or> \<not> workflow_callable (se_manifest s) flow then refused
          else bindM (enforce_budgets env s) (\<lambda>rejected. case rejected of
            Some r \<Rightarrow> ret r
          | None \<Rightarrow> bindM (on_tools (cv_run env (se_owner s) (se_exec s) (se_sub s) flow (case body of None \<Rightarrow> JNull | Some j \<Rightarrow> j)))
              (\<lambda>(status, result). ret (status, ReplyWorkflow result))))
      (\<lambda>e. ret (error_response e)))"

end
