(* ===== verification/App_Tools_Properties.thy ===== *)
theory App_Tools_Properties
  imports App_Calls
begin

text \<open>
  What publishing and calling promise together: a call that reaches a tool was declared in the
  allow-list its publisher had checked, in one of the four forms, and a provider's tool only by
  an exact procedure for which the publisher held a credential.
\<close>

section \<open>Entries\<close>

lemma index_of_Some: "index_of c s = Some i \<Longrightarrow> s = take i s @ c # drop (Suc i) s \<and> c \<notin> set (take i s)"
proof -
  assume a: "index_of c s = Some i"
  then have "c \<in> set s" and i: "i = length (takeWhile (\<lambda>x. x \<noteq> c) s)" by (simp_all add: index_of_def split: if_splits)
  then obtain ys zs where s: "s = ys @ c # zs" "c \<notin> set ys" by (meson split_list_first)
  then have "takeWhile (\<lambda>x. x \<noteq> c) s = ys" by (metis (mono_tags, lifting) takeWhile_tail takeWhile_eq_all_conv append_Nil2 takeWhile_append2)
  with i s show ?thesis by simp
qed

lemma index_of_dotted: "CHR ''.'' \<notin> set ns \<Longrightarrow> index_of CHR ''.'' (dotted ns p) = Some (length ns)"
proof -
  assume "CHR ''.'' \<notin> set ns"
  then have "takeWhile (\<lambda>x. x \<noteq> CHR ''.'') (ns @ CHR ''.'' # p) = ns" by (subst takeWhile_tail) (auto simp: takeWhile_eq_all_conv)
  then show ?thesis by (simp add: index_of_def dotted_def)
qed

lemma parse_entry_dotted:
  assumes "parse_entry e = Some (ns, p)"
  shows "e = dotted ns p" "CHR ''.'' \<notin> set ns" "p \<noteq> []"
proof -
  from assms obtain i where i: "index_of CHR ''.'' e = Some i" and "ns = take i e" "p = drop (Suc i) e" "p \<noteq> []"
    using assms by (cases "index_of CHR ''.'' e") (auto simp: parse_entry_def Let_def split: if_splits intro: that)
  with index_of_Some [OF i] show "e = dotted ns p" "CHR ''.'' \<notin> set ns" "p \<noteq> []"
    by (simp_all add: dotted_def)
qed

lemma parse_entry_unique:
  assumes "parse_entry (dotted ns p) = Some (ns', p')" and "CHR ''.'' \<notin> set ns"
  shows "ns' = ns" "p' = p"
  using assms index_of_dotted [OF assms(2), of p]
  by (auto simp: parse_entry_def Let_def dotted_def split: if_splits)

lemma validated_entries:
  assumes "validate_allowed_tools_entries app flows requires es = Inr gs"
  shows "\<forall>e \<in> set es. \<exists>g. entry_grants app flows requires e = Inr g \<and> set g \<subseteq> set gs"
  using assms
  by (induction es arbitrary: gs) (fastforce split: sum.splits simp: map_sum_def)+

text \<open>What an accepted entry is.\<close>

lemma entry_forms:
  assumes "entry_grants app flows requires e = Inr g"
  obtains ns p where "parse_entry e = Some (ns, p)" "is_native_namespace ns"
  | ns p where "parse_entry e = Some (ns, p)" "is_workflow_namespace ns" "p = ''*'' \<or> resolve_exported_workflow flows p \<noteq> None"
  | ns p where "parse_entry e = Some (ns, p)" "ns \<in> declared_contracts requires" "p \<noteq> ''*''"
  | ns p where "parse_entry e = Some (ns, p)" "\<not> is_core_service_name ns" "p \<noteq> ''*''" "g = [(ns, p)]"
  using assms by (auto simp: entry_grants_def split: option.splits if_splits)

lemma entry_provider:
  assumes "entry_grants app flows requires (dotted ns p) = Inr g" and "CHR ''.'' \<notin> set ns"
    and "\<not> is_native_namespace ns" "\<not> is_workflow_namespace ns" "ns \<notin> declared_contracts requires"
  shows "(ns, p) \<in> set g" "p \<noteq> ''*''"
  using assms by (auto elim!: entry_forms dest: parse_entry_unique)

lemma entry_exact:
  assumes "entry_grants app flows requires (dotted ns p) = Inr g" and "CHR ''.'' \<notin> set ns"
    and "\<not> is_native_namespace ns" "\<not> is_workflow_namespace ns"
  shows "p \<noteq> ''*''"
  using assms by (auto elim!: entry_forms dest: parse_entry_unique)

lemma allowed_validated:
  assumes "parse_allowed_tools app flows requires raw = Inr (tools, gs)"
  shows "validate_allowed_tools_entries app flows requires tools = Inr gs"
  using assms by (auto simp: parse_allowed_tools_def Let_def map_sum_def split: json.splits sum.splits if_splits)

lemma credentials_held:
  assumes "assert_grant_credentials held gs = Inr ()" and "(ns, p) \<in> set gs"
  shows "ns \<in> set held"
proof -
  from assms(1) have "\<forall>q \<in> set (dedup (map fst gs)). q \<in> set held"
    by (auto simp: assert_grant_credentials_def find_None_iff split: option.splits)
  moreover from assms(2) have "ns \<in> set (dedup (map fst gs))" by (force simp: set_dedup)
  ultimately show ?thesis by blast
qed

section \<open>The route\<close>

lemma budgets_tools:
  assumes "enforce_budgets env s w = (r, w1)"
  shows "cw_tools w1 = cw_tools w"
  using assms
  by (auto simp: enforce_budgets_def check_app_rate_limit_def bindM_run on_usage_def zoom_run Let_def
      split: prod.splits sum.splits if_splits)

lemma invoke_tools:
  assumes "invoke_and_audit env s ws ns proc body profile w = (r, w')"
  shows "cw_tools w' = cw_tools w \<or> (\<exists>args. cw_tools w' = snd (cv_invoke env ws ns proc args profile (cw_tools w)))"
  using assms
  by (auto simp: invoke_and_audit_def bindM_run thenM_run on_tools_def zoom_run append_audit_def
      split: prod.splits sum.splits) (metis snd_conv)+

lemma resolved_workflow:
  "resolve_exported_workflow flows proc = Some flow \<Longrightarrow> flow \<in> set flows \<and> (proc = flow \<or> proc = camel_case flow)"
  by (auto simp: resolve_exported_workflow_def find_Some_iff)

text \<open>A call reached a tool in one of four ways: \<^verbatim>\<open>reach\<close> holds between the tools before and after.\<close>

inductive reach ::
  "('l, 'r, 'x) call_env \<Rightarrow> app_session \<Rightarrow> string \<Rightarrow> string \<Rightarrow> 'x \<Rightarrow> 'x \<Rightarrow> bool" for env s ns proc where
  refused: "reach env s ns proc x x"
| workflow: "is_workflow_namespace ns \<Longrightarrow> flow \<in> set (am_workflows (se_manifest s)) \<Longrightarrow> proc = flow \<or> proc = camel_case flow \<Longrightarrow>
    workflow_callable (se_manifest s) flow \<Longrightarrow>
    reach env s ns proc x (snd (cv_run env (se_owner s) (se_exec s) (se_sub s) flow args x))"
| native: "is_native_namespace ns \<Longrightarrow> tool_allowed (se_manifest s) ns proc \<Longrightarrow>
    reach env s ns proc x (snd (cv_invoke env (se_exec s) ns proc args None x))"
| contract: "\<not> is_native_namespace ns \<Longrightarrow> \<not> is_workflow_namespace ns \<Longrightarrow> contract_grant_callable (se_manifest s) ns proc \<Longrightarrow>
    reach env s ns proc x (snd (cv_invoke env (se_exec s) ns proc args profile x))"
| provider: "ns \<notin> declared_contracts (am_requires (se_manifest s)) \<Longrightarrow>
    provider_grant_callable (cv_interface env) (se_manifest s) ns proc \<Longrightarrow>
    reach env s ns proc x (snd (cv_invoke env (se_owner s) ns proc args None x))"

lemma call_workflow_reach:
  assumes "is_workflow_namespace ns" and "call_workflow env s proc body w = (r, w')"
  shows "reach env s ns proc (cw_tools w) (cw_tools w')"
proof (cases "resolve_exported_workflow (am_workflows (se_manifest s)) proc")
  case None
  with assms show ?thesis by (auto simp: call_workflow_def intro: reach.refused)
next
  case (Some flow)
  note m = resolved_workflow [OF Some]
  show ?thesis
  proof (cases "read_args body")
    case (Inl e)
    with assms Some show ?thesis
      by (auto simp: call_workflow_def bindM_run intro: reach.refused split: if_splits)
  next
    case (Inr args)
    obtain y x' where run: "cv_run env (se_owner s) (se_exec s) (se_sub s) flow args (cw_tools w) = (y, x')"
      by (cases "cv_run env (se_owner s) (se_exec s) (se_sub s) flow args (cw_tools w)")
    have "cw_tools w' = cw_tools w \<or> workflow_callable (se_manifest s) flow \<and> cw_tools w' = x'"
      using assms(2) Some Inr run
      by (cases y) (auto simp: call_workflow_def bindM_run thenM_run on_tools_def zoom_run append_audit_def split: if_splits)
    moreover have "x' = snd (cv_run env (se_owner s) (se_exec s) (se_sub s) flow args (cw_tools w))" by (simp add: run)
    ultimately show ?thesis
      using reach.workflow [OF assms(1), of flow s proc env "cw_tools w" args] m reach.refused by metis
  qed
qed

lemma call_contract_reach:
  assumes "\<not> is_native_namespace ns" "\<not> is_workflow_namespace ns" and "call_contract env s ns proc body w = (r, w')"
  shows "reach env s ns proc (cw_tools w) (cw_tools w')"
proof (cases "contract_grant_callable (se_manifest s) ns proc")
  case False
  with assms(3) show ?thesis by (auto simp: call_contract_def intro: reach.refused)
next
  case True
  have go: "reach env s ns proc (cw_tools v) (cw_tools v')"
    if "invoke_and_audit env s (se_exec s) ns proc body profile v = (q, v')" for profile v q v'
    using invoke_tools [OF that] reach.contract [OF assms(1,2) True] reach.refused by metis
  show ?thesis
  proof (cases "se_install s")
    case None
    with assms(3) True go show ?thesis by (simp add: call_contract_def Let_def)
  next
    case (Some x)
    obtain i bs where x: "x = (i, bs)" by (cases x)
    show ?thesis
    proof (cases "truthy (map_of bs ns)")
      case False
      with assms(3) True go Some x show ?thesis by (simp add: call_contract_def Let_def)
    next
      case installed: True
      obtain h reg where h: "install_grant_holds (cv_registry env) (se_exec s) i (the (map_of bs ns)) (cw_reg w) = (h, reg)"
        by (cases "install_grant_holds (cv_registry env) (se_exec s) i (the (map_of bs ns)) (cw_reg w)")
      from go [of "map_of bs ns" "w\<lparr>cw_reg := reg\<rparr>" r w'] assms(3) True Some x installed h show ?thesis
        by (cases h) (auto simp: call_contract_def Let_def bindM_run on_app_reg_def zoom_run split: if_splits intro: reach.refused)
    qed
  qed
qed

lemma call_target_reach:
  assumes "call_target env s ns proc body w = (r, w')"
  shows "reach env s ns proc (cw_tools w) (cw_tools w')"
proof -
  consider "is_workflow_namespace ns" | "\<not> is_workflow_namespace ns" "is_native_namespace ns"
    | "\<not> is_workflow_namespace ns" "\<not> is_native_namespace ns" "contract_grant_callable (se_manifest s) ns proc \<or> cv_interface env ns"
    | "\<not> is_workflow_namespace ns" "\<not> is_native_namespace ns" "\<not> contract_grant_callable (se_manifest s) ns proc"
      "\<not> cv_interface env ns"
    by blast
  then show ?thesis
  proof cases
    case 1
    with assms call_workflow_reach show ?thesis by (simp add: call_target_def)
  next
    case 2
    with assms have n: "call_native env s ns proc body w = (r, w')" by (simp add: call_target_def)
    show ?thesis
    proof (cases "tool_allowed (se_manifest s) ns proc")
      case True
      with n have "invoke_and_audit env s (se_exec s) ns proc body None w = (r, w')" by (simp add: call_native_def)
      from invoke_tools [OF this] reach.native [OF 2(2) True] reach.refused show ?thesis by metis
    next
      case False
      with n show ?thesis by (auto simp: call_native_def intro: reach.refused)
    qed
  next
    case 3
    with assms call_contract_reach show ?thesis by (simp add: call_target_def)
  next
    case 4
    show ?thesis
    proof (cases "provider_grant_callable (cv_interface env) (se_manifest s) ns proc")
      case True
      with assms 4 have i: "invoke_and_audit env s (se_owner s) ns proc body None w = (r, w')" by (simp add: call_target_def)
      have "ns \<notin> declared_contracts (am_requires (se_manifest s))"
        using 4(3) True by (auto simp: contract_grant_callable_def provider_grant_callable_def)
      from invoke_tools [OF i] reach.provider [OF this True] reach.refused show ?thesis by metis
    next
      case False
      with assms 4 show ?thesis by (auto simp: call_target_def intro: reach.refused)
    qed
  qed
qed

lemma handle_tool_call_reach:
  assumes "handle_tool_call env s ns proc body w = (r, w')"
  shows "reach env s ns proc (cw_tools w) (cw_tools w')" and "\<exists>reply. r = Inr reply"
proof -
  obtain q w1 where b: "enforce_budgets env s w = (q, w1)" by (cases "enforce_budgets env s w")
  obtain q2 w2 where c: "call_target env s ns proc body w1 = (q2, w2)" by (cases "call_target env s ns proc body w1")
  have "cw_tools w' = cw_tools w \<or> cw_tools w' = cw_tools w2"
    using assms b c budgets_tools [OF b]
    by (cases q; cases q2) (auto simp: handle_tool_call_def catchM_run bindM_run split: option.splits)
  with call_target_reach [OF c] budgets_tools [OF b] reach.refused
  show "reach env s ns proc (cw_tools w) (cw_tools w')" by metis
  show "\<exists>reply. r = Inr reply"
    using assms by (auto simp: handle_tool_call_def catchM_run split: sum.splits prod.splits)
qed

section \<open>The promise of publishing\<close>

text \<open>C37: For an application whose allow-list publishing accepted, a tool call of a session always
  answers, and leaves the tools as they were unless it is one of: an exported workflow under its
  own name or its camel-case alias; a native procedure the list names, alone or by its
  namespace; an exact procedure of a declared contract; or an exact procedure of a provider,
  which publishing counted as a credential grant and for which the publisher held a credential.
  No entry of an accepted list opens a provider or a core service as a whole.\<close>

theorem published_reach_exact:
  assumes published: "parse_allowed_tools app (am_workflows m) (am_requires m) raw = Inr (am_allowed m, grants)"
    and credentials: "assert_grant_credentials held grants = Inr ()"
    and session: "se_manifest s = m" and ns: "CHR ''.'' \<notin> set ns"
    and call: "handle_tool_call env s ns proc body w = (r, w')"
  shows "(\<exists>status reply. r = Inr (status, reply)) \<and>
     (cw_tools w' = cw_tools w
    \<or> (\<exists>flow args. ns \<in> {''app'', ''workflow''} \<and> flow \<in> set (am_workflows m) \<and> proc \<in> {flow, camel_case flow} \<and>
        cw_tools w' = snd (cv_run env (se_owner s) (se_exec s) (se_sub s) flow args (cw_tools w)))
    \<or> (\<exists>args. ns \<in> set NATIVE_APP_NAMESPACES \<and> {ns @ ''.'' @ proc, ns @ ''.*''} \<inter> set (am_allowed m) \<noteq> {} \<and>
        cw_tools w' = snd (cv_invoke env (se_exec s) ns proc args None (cw_tools w)))
    \<or> (\<exists>args profile. ns \<in> set (map rq_contract (am_requires m)) \<and> ns @ ''.'' @ proc \<in> set (am_allowed m) \<and> proc \<noteq> ''*'' \<and>
        cw_tools w' = snd (cv_invoke env (se_exec s) ns proc args profile (cw_tools w)))
    \<or> (\<exists>args. (ns, proc) \<in> set grants \<and> ns \<in> set held \<and> proc \<noteq> ''*'' \<and> ns \<notin> set PLATFORM_PLUGIN_NAMES \<and>
        ns \<notin> set NATIVE_APP_NAMESPACES \<and> \<not> cv_interface env ns \<and>
        cw_tools w' = snd (cv_invoke env (se_owner s) ns proc args None (cw_tools w))))"
proof -
  have entries: "\<forall>e \<in> set (am_allowed m). \<exists>g. entry_grants app (am_workflows m) (am_requires m) e = Inr g \<and> set g \<subseteq> set grants"
    by (rule validated_entries [OF allowed_validated [OF published]])
  have "\<exists>status reply. r = Inr (status, reply)" using handle_tool_call_reach(2) [OF call] by auto
  with handle_tool_call_reach(1) [OF call] show ?thesis
  proof cases
    case (contract args profile)
    with session obtain g where "entry_grants app (am_workflows m) (am_requires m) (dotted ns proc) = Inr g"
      using entries by (auto simp: contract_grant_callable_def)
    from entry_exact [OF this ns contract(2,3)] have "proc \<noteq> ''*''" .
    with contract session \<open>\<exists>status reply. r = Inr (status, reply)\<close> show ?thesis
      unfolding contract_grant_callable_def declared_contracts_def dotted_def set_map by blast
  next
    case (provider args)
    with session have names: "\<not> is_native_namespace ns" "\<not> is_workflow_namespace ns" "\<not> is_core_service_name ns"
        "\<not> cv_interface env ns" and listed: "dotted ns proc \<in> set (am_allowed m)"
      by (auto simp: provider_grant_callable_def)
    then obtain g where g: "entry_grants app (am_workflows m) (am_requires m) (dotted ns proc) = Inr g" "set g \<subseteq> set grants"
      using entries by blast
    have "ns \<notin> declared_contracts (am_requires m)" using provider(2) session by simp
    from entry_provider [OF g(1) ns names(1,2) this] g(2) have "(ns, proc) \<in> set grants" "proc \<noteq> ''*''" by blast+
    with credentials_held [OF credentials, of ns proc] names provider(1) \<open>\<exists>status reply. r = Inr (status, reply)\<close>
    show ?thesis by (auto simp: is_native_namespace_def is_core_service_name_def)
  qed (use session in \<open>auto simp: is_workflow_namespace_def APP_WORKFLOW_NAMESPACE_def is_native_namespace_def tool_allowed_def dotted_def\<close>)
qed

section \<open>Witness and counterexample\<close>

definition demo_manifest :: app_manifest where
  "demo_manifest = \<lparr>am_app = ''a1'', am_name = ''notes'', am_allowed = [''vfs.*'', ''github.repos.get''], am_workflows = [''weekly-report''],
     am_requires = [], am_rps = None, am_burst = None, am_daily = None\<rparr>"

definition tools_session :: app_session where
  "tools_session = \<lparr>se_manifest = demo_manifest, se_owner = ''w'', se_exec = ''w'', se_install = None, se_sub = ''u''\<rparr>"

definition tools_call_env :: "(unit, 'r, string list) call_env" where
  "tools_call_env = \<lparr>cv_interface = (\<lambda>c. c = ''sql''), cv_new_limiter = (\<lambda>r b. ()), cv_try = (\<lambda>t l. (True, ())), cv_registry = undefined,
     cv_invoke = (\<lambda>ws ns p args profile x. (Inr JNull, x @ [ws @ '':'' @ ns @ ''.'' @ p])),
     cv_run = (\<lambda>o1 ws u flow args x. (Inr (200, JNull), x @ [flow]))\<rparr>"

definition tools_call_world :: "(unit, unit, string list) call_world" where
  "tools_call_world = \<lparr>cw_now = 0, cw_usage = usage_demo, cw_limiters = [], cw_reg = (), cw_audit = [], cw_tools = []\<rparr>"

lemma demo_published:
  "parse_allowed_tools ''notes'' (am_workflows demo_manifest) (am_requires demo_manifest) (JArr [JStr ''vfs.*'', JStr ''github.repos.get'']) =
     Inr (am_allowed demo_manifest, [(''github'', ''repos.get'')])"
  by code_simp

lemma demo_budgets:
  "\<exists>w1. enforce_budgets tools_call_env tools_session tools_call_world = (Inr None, w1)"
proof (rule count_daily_call_run [OF usage_demo_ok [of "''w''" "''a1''"] usage_demo_counted [of 0] _ refl,
    where t = 0 and daily = None and s = "''u''"])
  fix db'
  assume "count_daily_call 0 ''w'' ''a1'' None ''u'' usage_demo = (Inr \<lparr>du_allowed = True, du_used = int 0 + 1,
      du_limit = (case None of Some d \<Rightarrow> d | None \<Rightarrow> DEFAULT_DAILY_CALLS), du_date = usage_date 0\<rparr>, db')"
  then show ?thesis
    by (simp add: enforce_budgets_def check_app_rate_limit_def bindM_run on_usage_def zoom_run tools_call_env_def
        tools_session_def tools_call_world_def demo_manifest_def Let_def)
qed (simp_all add: DAY_MS_def DEFAULT_DAILY_CALLS_def)

lemma demo_invoke: "cv_invoke tools_call_env ws ns p args profile x = (Inr JNull, x @ [ws @ '':'' @ ns @ ''.'' @ p])"
  by (simp add: tools_call_env_def)

lemma tools_call:
  "cw_tools (snd (handle_tool_call tools_call_env tools_session ''github'' ''repos.get'' None tools_call_world)) = [''w:github.repos.get'']"
proof -
  obtain w1 where b: "enforce_budgets tools_call_env tools_session tools_call_world = (Inr None, w1)" using demo_budgets by blast
  have "cw_tools w1 = []" using budgets_tools [OF b] by (simp add: tools_call_world_def)
  moreover have "call_target tools_call_env tools_session ''github'' ''repos.get'' None w1 =
      invoke_and_audit tools_call_env tools_session ''w'' ''github'' ''repos.get'' None None w1"
    by (simp add: call_target_def is_workflow_namespace_def APP_WORKFLOW_NAMESPACE_def is_native_namespace_def NATIVE_APP_NAMESPACES_def
        contract_grant_callable_def declared_contracts_def tools_session_def demo_manifest_def tools_call_env_def
        provider_grant_callable_def is_core_service_name_def PLATFORM_PLUGIN_NAMES_def dotted_def)
  ultimately show ?thesis
    by (simp add: handle_tool_call_def catchM_run bindM_run b invoke_and_audit_def read_args_def on_tools_def zoom_run
        thenM_run append_audit_def demo_invoke)
qed

theorem published_reach_exact_witness:
  "\<exists>r w'. handle_tool_call tools_call_env tools_session ''github'' ''repos.get'' None tools_call_world = (r, w')
     \<and> (\<exists>status reply. r = Inr (status, reply)) \<and> cw_tools w' = [''w:github.repos.get'']"
proof -
  obtain r w' where h: "handle_tool_call tools_call_env tools_session ''github'' ''repos.get'' None tools_call_world = (r, w')"
    by (cases "handle_tool_call tools_call_env tools_session ''github'' ''repos.get'' None tools_call_world")
  have c: "assert_grant_credentials [''github''] [(''github'', ''repos.get'')] = Inr ()" by code_simp
  have "se_manifest tools_session = demo_manifest" "CHR ''.'' \<notin> set ''github''" by (simp_all add: tools_session_def)
  from published_reach_exact [OF demo_published c this h] tools_call h show ?thesis by simp
qed

text \<open>An exact procedure of an interface the manifest does not require is published as a credential
  grant of a provider of that name, but the route never calls it.\<close>

lemma undeclared_contract_published:
  "validate_allowed_tools_entries ''notes'' [] [] [''sql.query''] = Inr [(''sql'', ''query'')]"
  "provider_grant_entries (\<lambda>c. c = ''sql'') [''sql.query''] = []"
  "provider_grant_callable (\<lambda>c. c = ''sql'') (demo_manifest\<lparr>am_allowed := [''sql.query'']\<rparr>) ''sql'' ''query'' = False"
  "contract_grant_callable (demo_manifest\<lparr>am_allowed := [''sql.query'']\<rparr>) ''sql'' ''query'' = False"
  by code_simp+

end
