(* ===== verification/Notify_Properties.thy ===== *)
theory Notify_Properties
  imports Notifications Dispatch_Properties App_Tools_Properties
begin

text \<open>
  What the feed promises: an application speaks only in its own name, to its own user, and only
  offers calls the dispatch check of its allow-list lets through; a feed lists the newest of what
  its reader may see; marking as seen hides a notification from its reader and from nobody else
  at that moment, and ends it for everybody ten days later.
\<close>

section \<open>The ceiling of an application's choices\<close>

lemma app_decision_covered:
  assumes "evaluate_app_tool_dispatch reg p m ns proc eff resource cred w = (Inr d, w')" and "\<And>r. d \<noteq> Deny r"
  shows "matches_capability_pattern (am_allowed m) ns proc"
proof -
  let ?req = "\<lparr>dr_principal = p, dr_via = Some \<lparr>via_app = Some (am_app m), via_profile = None\<rparr>,
        dr_tool = \<lparr>tl_namespace = ns, tl_operation = proc, tl_effect = (case eff of Some e \<Rightarrow> e | None \<Rightarrow> Action)\<rparr>,
        dr_resource = (if truthy resource then resource else None), dr_credential = cred, dr_run = None\<rparr>"
  let ?opts = "no_options\<lparr>eo_app_ceiling := Some (am_allowed m)\<rparr>"
  from assms(1) have "evaluate_dispatch reg ?req ?opts w = (Inr d, w')" by (simp only: evaluate_app_tool_dispatch_def)
  moreover have layers: "matches_capability_pattern (am_allowed m) ns proc" if "capability_layers reg ?req ?opts r1 = (Inr True, r2)" for r1 r2
    using that unfolding layers_run by (auto simp: resolve_app_ceiling_def covered_iff)
  ultimately show ?thesis
  proof (cases rule: evaluate_stages)
    case (uncovered r1 r2)
    then have "d = Deny DenyCapability" by (simp add: capability_miss_def)
    with assms(2) show ?thesis by blast
  qed (use assms(2) layers in auto)
qed

lemma evaluate_time:
  assumes "evaluate_dispatch reg req opts w = (r, w')"
  shows "dw_now w' = dw_now w"
  using assms
  by (auto simp: evaluate_dispatch_def bindM_run on_reg_def zoom_run capability_miss_def random_uuid_def resource_decision_def Let_def
      enqueue_queued_action_def thenM_run save_action_def on_queue_def audit_transition_def
      split: prod.splits sum.splits if_splits option.splits)

text \<open>What the check lets through: an exported workflow, a native procedure the allow-list names, or a
  capability that one of its patterns matches. The tool route asks for more of the last kind
  (\<^verbatim>\<open>emission_outruns_route\<close>).\<close>

definition listed_call :: "app_manifest \<Rightarrow> app_call \<Rightarrow> bool" where
  "listed_call m call \<longleftrightarrow>
     (if is_workflow_namespace (ac_ns call)
      then \<exists>flow \<in> set (am_workflows m). (ac_proc call = flow \<or> ac_proc call = camel_case flow) \<and> workflow_callable m flow
      else if is_native_namespace (ac_ns call) then tool_allowed m (ac_ns call) (ac_proc call)
      else matches_capability_pattern (am_allowed m) (ac_ns call) (ac_proc call))"

lemma widget_call_listed:
  assumes "dispatch_notification_widget_call reg p m call eff resource cred w = (Inr d, w')" and "\<And>r. d \<noteq> Deny r"
  shows "listed_call m call"
proof -
  have flow: "\<exists>flow \<in> set (am_workflows m). (ac_proc call = flow \<or> ac_proc call = camel_case flow) \<and> workflow_callable m flow"
    if "is_workflow_namespace (ac_ns call)"
  proof -
    from assms that obtain flow where "resolve_exported_workflow (am_workflows m) (ac_proc call) = Some flow" "workflow_callable m flow"
      by (auto simp: dispatch_notification_widget_call_def split: option.splits if_splits)
    then show ?thesis using resolved_workflow by metis
  qed
  show ?thesis
    using assms flow app_decision_covered [of reg p m "ac_ns call" "ac_proc call" eff resource cred w d w']
    by (auto simp: listed_call_def dispatch_notification_widget_call_def split: if_splits)
qed

lemma widget_call_time:
  assumes "dispatch_notification_widget_call reg p m call eff resource cred w = (r, w')"
  shows "dw_now w' = dw_now w"
  using assms evaluate_time [of reg _ _ w r w']
  by (auto simp: dispatch_notification_widget_call_def evaluate_app_tool_dispatch_def split: if_splits option.splits)

lemma check_choices_step:
  assumes "check_choices env p m (c # cs) w = (Inr (), w')"
  shows "\<exists>dec d. dispatch_notification_widget_call (ne_registry env) p m (nc_call c) None None None (nw_dispatch w) = (Inr dec, d)
    \<and> (\<forall>x. dec \<noteq> Deny x) \<and> check_choices env p m cs (w\<lparr>nw_dispatch := d\<rparr>) = (Inr (), w')"
proof -
  obtain r d where run: "dispatch_notification_widget_call (ne_registry env) p m (nc_call c) None None None (nw_dispatch w) = (r, d)"
    by (cases "dispatch_notification_widget_call (ne_registry env) p m (nc_call c) None None None (nw_dispatch w)")
  show ?thesis
  proof (cases r)
    case (Inl e)
    with assms run show ?thesis by (simp add: bindM_run on_review_def zoom_run)
  next
    case (Inr dec)
    with assms run show ?thesis by (cases dec) (simp_all add: bindM_run on_review_def zoom_run)
  qed
qed

lemma check_choices_listed:
  assumes "check_choices env p m cs w = (Inr (), w')"
  shows "(\<forall>c \<in> set cs. listed_call m (nc_call c)) \<and> nw_db w' = nw_db w \<and> dw_now (nw_dispatch w') = dw_now (nw_dispatch w)"
  using assms
proof (induction cs arbitrary: w)
  case (Cons c cs)
  obtain dec d where run: "dispatch_notification_widget_call (ne_registry env) p m (nc_call c) None None None (nw_dispatch w) = (Inr dec, d)"
    and ok: "\<forall>x. dec \<noteq> Deny x" and rest: "check_choices env p m cs (w\<lparr>nw_dispatch := d\<rparr>) = (Inr (), w')"
    using check_choices_step [OF Cons.prems] by blast
  have "listed_call m (nc_call c)" by (rule widget_call_listed [OF run]) (use ok in blast)
  with Cons.IH [OF rest] show ?case using widget_call_time [OF run] by simp
qed simp

section \<open>The feed as a map\<close>

definition live_note :: "'r notify_world \<Rightarrow> string \<Rightarrow> string \<Rightarrow> notification option" where
  "live_note w ws k = map_option en_value (spec_get (nw_now w) (abs_db (nw_db w)) (ws, NOTIFY_SCOPE, k))"

definition notify_ok :: "string \<Rightarrow> 'r notify_world \<Rightarrow> bool" where
  "notify_ok ws w \<longleftrightarrow> db_inv (nw_db w) \<and> ws_ok (nw_db w) ws \<and> (\<forall>v. storable (nw_db w) v) \<and>
     (\<forall>k c. abs_db (nw_db w) (ws, NOTIFY_SCOPE, k) = Some c \<longrightarrow> nf_id (ce_value c) = k)"

lemma notify_okD: "notify_ok ws w \<Longrightarrow> db_inv (nw_db w)" "notify_ok ws w \<Longrightarrow> ws_ok (nw_db w) ws"
  "notify_ok ws w \<Longrightarrow> storable (nw_db w) v"
  "notify_ok ws w \<Longrightarrow> abs_db (nw_db w) (ws, NOTIFY_SCOPE, k) = Some c \<Longrightarrow> nf_id (ce_value c) = k"
  unfolding notify_ok_def by blast+

lemma live_note_id: "notify_ok ws w \<Longrightarrow> live_note w ws k = Some n \<Longrightarrow> nf_id n = k"
  by (auto simp: live_note_def spec_get_def dest: notify_okD(4) split: option.splits if_splits)

lemma read_note: "notify_ok (cx_ws c) w \<Longrightarrow> read_notification c k w = Inr (live_note w (cx_ws c) k)"
  by (simp add: read_notification_def rs_get_abs notify_okD(1) live_note_def)

lemma notify_scope: "CHR ''/'' \<notin> set NOTIFY_SCOPE"
  by (simp add: NOTIFY_SCOPE_def)

lemma notify_db [simp]: "nw_now (w\<lparr>nw_db := d\<rparr>) = nw_now w"
  by (simp add: nw_now_def)

lemma write_note_run:
  assumes ok: "notify_ok (cx_ws c) w" and ex: "expiry_live (nw_now w) expires"
  obtains w' where "write_notification c n expires w = (Inr (), w')" "notify_ok (cx_ws c) w'" "nw_dispatch w' = nw_dispatch w"
    "\<And>k. live_note w' (cx_ws c) k = (if k = nf_id n then Some n else live_note w (cx_ws c) k)"
proof -
  let ?a = "(cx_ws c, NOTIFY_SCOPE, nf_id n)"
  show thesis
  proof (rule put_doc_cases [OF notify_okD(1) [OF ok] addr_ok_ws [OF notify_okD(2) [OF ok] notify_scope] ex, of "nf_id n" n "actor_sub c"])
    fix x d
    assume p: "put_doc (nw_now w) ?a n (actor_sub c) expires (nw_db w) = (Inr x, d)"
      and d: "db_inv d" "addr_ok d = addr_ok (nw_db w)" "storable d = storable (nw_db w)"
      "abs_db d = spec_set (nw_now w) ?a n (actor_sub c) (norm_expiry (nw_db w) expires) (abs_db (nw_db w))"
      and live: "cell_live (nw_now w) \<lparr>ce_value = n, ce_updated_at = nw_now w, ce_updated_by = actor_sub c,
        ce_expires = norm_expiry (nw_db w) expires\<rparr>"
    show thesis
    proof (rule that [of "w\<lparr>nw_db := d\<rparr>"])
      show "write_notification c n expires w = (Inr (), w\<lparr>nw_db := d\<rparr>)"
        by (simp add: write_notification_def bindM_run thenM_run on_feed_def zoom_run p)
      show "notify_ok (cx_ws c) (w\<lparr>nw_db := d\<rparr>)"
        using ok d ws_ok_cong [OF d(2)] by (auto simp: notify_ok_def spec_set_def)
      show "live_note (w\<lparr>nw_db := d\<rparr>) (cx_ws c) k = (if k = nf_id n then Some n else live_note w (cx_ws c) k)" for k
        using live by (simp add: d(4) spec_get_def spec_set_def live_note_def)
    qed simp
  qed (use notify_okD(3) [OF ok] in simp)
qed

lemma expiry_none: "expiry_live now None"
  by (simp add: expiry_live_def)

section \<open>Emission\<close>

lemma app_emit_parts:
  assumes "emit env c args w = (Inr n, w')" and s: "cx_scope c = Some s"
  obtains wd w1 where "app_choices env c s (nf_choices n) w = (Inr (), w1)" "nf_id n = time_id (nw_now w1) (rg_uuid (ne_registry env) (dw_next (nw_dispatch w1)))"
    "nf_audience n = ForUser" "nf_user n = Some (sc_user s)" "nf_source n = Some (sc_name s)" "nf_by n = sc_user s" "nf_seen n = []"
    "write_notification c n None (w1\<lparr>nw_dispatch := (nw_dispatch w1)\<lparr>dw_next := Suc (dw_next (nw_dispatch w1))\<rparr>\<rparr>) = (Inr (), w')"
proof -
  from assms(1) obtain title where title: "jprop args ''title'' = JStr title" "js_trim title \<noteq> []"
    by (cases "jprop args ''title''") (auto simp: emit_def split: if_splits)
  obtain choices wd0 where parsed: "parse_choices (jprop args ''choices'') = Inr choices" "parse_widget (jprop args ''widget'') = Inr wd0"
    using assms(1) title by (auto simp: emit_def bindM_run split: sum.splits)
  obtain wd where wd: "app_widget s wd0 = Inr wd"
    using assms(1) title parsed s by (auto simp: emit_def bindM_run thenM_run split: sum.splits)
  obtain w1 where ch: "app_choices env c s choices w = (Inr (), w1)"
    using assms(1) title parsed s wd by (auto simp: emit_def bindM_run thenM_run split: sum.splits prod.splits)
  let ?w2 = "w1\<lparr>nw_dispatch := (nw_dispatch w1)\<lparr>dw_next := Suc (dw_next (nw_dispatch w1))\<rparr>\<rparr>"
  let ?n = "\<lparr>nf_id = time_id (nw_now w1) (rg_uuid (ne_registry env) (dw_next (nw_dispatch w1))), nf_category = category_of (jprop args ''category''),
      nf_title = take 200 title, nf_body = (case jprop args ''body'' of JStr b \<Rightarrow> Some (take 2000 b) | _ \<Rightarrow> None),
      nf_audience = ForUser, nf_user = Some (sc_user s), nf_widget = wd, nf_choices = choices, nf_link = jprop args ''link'',
      nf_source = Some (sc_name s), nf_by = sc_user s, nf_created = iso_of (nw_now w1), nf_seen = []\<rparr>"
  have run: "emit env c args w = thenM (write_notification c ?n None) (ret ?n) ?w2"
    using title by (simp add: emit_def bindM_run thenM_run parsed s wd ch on_review_def zoom_run random_uuid_def nw_now_def actor_sub_def Let_def
        split: prod.split sum.split)
  then have n: "n = ?n" and wr: "write_notification c ?n None ?w2 = (Inr (), w')"
    using assms(1) by (auto simp: thenM_run split: prod.splits sum.splits)
  show thesis by (rule that [of w1]) (use ch wr in \<open>simp_all add: n\<close>)
qed

lemma app_choices_own:
  assumes "app_choices env c s choices w = (Inr (), w')"
  shows "choices = None \<or> (\<exists>cs m. choices = Some cs \<and> ne_manifest env (cx_ws c) (ap_id (sc_paths s)) = Inr (Some m) \<and> (\<forall>x \<in> set cs. listed_call m (nc_call x)))"
    and "nw_db w' = nw_db w" "dw_now (nw_dispatch w') = dw_now (nw_dispatch w)"
  using assms check_choices_listed
  by (auto simp: app_choices_def bindM_run split: option.splits sum.splits) blast+

text \<open>
  C38: a notification an application's session emits is stamped with the application and goes to
  the session's own user, whatever the payload says; every choice it offers passed the dispatch
  check against the application's manifest - an exported workflow, a native procedure its
  allow-list names, or a capability one of the allow-list's patterns matches -; the
  notification is stored under its identifier and no other one changes.
\<close>

theorem app_emission_confined:
  fixes w :: "'r notify_world"
  assumes ok: "notify_ok (cx_ws c) w" and s: "cx_scope c = Some s" and run: "emit env c args w = (Inr n, w')"
  shows "nf_source n = Some (sc_name s) \<and> nf_audience n = ForUser \<and> nf_user n = Some (sc_user s) \<and> nf_by n = sc_user s \<and> nf_seen n = []
    \<and> (nf_choices n = None \<or> (\<exists>cs m. nf_choices n = Some cs \<and> ne_manifest env (cx_ws c) (ap_id (sc_paths s)) = Inr (Some m)
        \<and> list_all (\<lambda>x. listed_call m (nc_call x)) cs))
    \<and> live_note w' (cx_ws c) = (live_note w (cx_ws c))(nf_id n \<mapsto> n)"
proof (rule app_emit_parts [OF run s])
  fix w1 :: "'r notify_world"
  let ?w2 = "w1\<lparr>nw_dispatch := (nw_dispatch w1)\<lparr>dw_next := Suc (dw_next (nw_dispatch w1))\<rparr>\<rparr>"
  assume ch: "app_choices env c s (nf_choices n) w = (Inr (), w1)"
    and parts: "nf_audience n = ForUser" "nf_user n = Some (sc_user s)" "nf_source n = Some (sc_name s)" "nf_by n = sc_user s" "nf_seen n = []"
    and wr: "write_notification c n None ?w2 = (Inr (), w')"
  note own = app_choices_own [OF ch]
  have same: "nw_db ?w2 = nw_db w" "nw_now ?w2 = nw_now w" using own(2,3) by (simp_all add: nw_now_def)
  then have ok2: "notify_ok (cx_ws c) ?w2" and live2: "live_note ?w2 = live_note w"
    using ok by (simp_all add: notify_ok_def live_note_def fun_eq_iff)
  have "live_note w' (cx_ws c) k = (if k = nf_id n then Some n else live_note w (cx_ws c) k)" for k
  proof (rule write_note_run [OF ok2 expiry_none, of n])
    fix w3
    assume "write_notification c n None ?w2 = (Inr (), w3)"
      and "\<And>k. live_note w3 (cx_ws c) k = (if k = nf_id n then Some n else live_note ?w2 (cx_ws c) k)"
    with wr live2 show ?thesis by simp
  qed
  then have "live_note w' (cx_ws c) = (live_note w (cx_ws c))(nf_id n \<mapsto> n)" by auto
  with parts own(1) show ?thesis by (auto simp: list_all_iff)
qed

section \<open>The feed\<close>

definition feed_keys :: "'r notify_world \<Rightarrow> string \<Rightarrow> string list" where
  "feed_keys w ws = rs_list (nw_now w) (nw_db w) ws NOTIFY_SCOPE []"

definition wanted :: "svc_ctx \<Rightarrow> bool \<Rightarrow> 'r notify_world \<Rightarrow> string \<Rightarrow> notification option" where
  "wanted c inc w k = (case live_note w (cx_ws c) k of
     Some n \<Rightarrow> if visible_to c n \<and> (inc \<or> \<not> seen_by (actor_sub c) n) then Some n else None | None \<Rightarrow> None)"

lemma feed_keys_mem: "notify_ok ws w \<Longrightarrow> k \<in> set (feed_keys w ws) \<longleftrightarrow> live_note w ws k \<noteq> None"
  by (simp add: feed_keys_def rs_list_all_mem notify_okD(1) live_note_def)

lemma feed_keys_order: "notify_ok ws w \<Longrightarrow> sorted (feed_keys w ws)" "notify_ok ws w \<Longrightarrow> distinct (feed_keys w ws)"
  using scan_keys_distinct [OF db_inv_wf [OF notify_okD(1)], of ws w]
  by (simp_all add: feed_keys_def rs_list_scan) (simp add: scan_keys_def)

lemma list_walk_step:
  assumes "notify_ok (cx_ws c) w"
  shows "list_walk c inc limit w (k # ks) acc =
    (if int (length acc) \<ge> limit then acc
     else case wanted c inc w k of None \<Rightarrow> list_walk c inc limit w ks acc | Some n \<Rightarrow> list_walk c inc limit w ks (acc @ [n]))"
  by (simp add: read_note [OF assms] wanted_def split: option.split)

lemma list_walk_eq:
  assumes "notify_ok (cx_ws c) w"
  shows "list_walk c inc limit w ks acc = acc @ take (nat limit - length acc) (List.map_filter (wanted c inc w) ks)"
proof (induction ks arbitrary: acc)
  case (Cons k ks)
  show ?case
  proof (cases "int (length acc) \<ge> limit")
    case False
    then have "nat limit - length acc = Suc (nat limit - Suc (length acc))" by linarith
    with False Cons.IH show ?thesis
      unfolding list_walk_step [OF assms] by (simp add: map_filter_simps split: option.split)
  next
    case True
    then have "nat limit - length acc = 0" by simp
    with True show ?thesis unfolding list_walk_step [OF assms] by simp
  qed
qed (simp add: map_filter_simps)

lemma list_notifications_eq:
  assumes "notify_ok (cx_ws c) w"
  shows "fst (list_notifications c args w) =
    take (nat (list_limit (jprop args ''limit''))) (List.map_filter (wanted c (jprop args ''include_seen'' = JBool True) w) (rev (feed_keys w (cx_ws c))))"
  by (simp add: list_notifications_def list_walk_eq [OF assms] feed_keys_def)

definition marked :: "string \<Rightarrow> int \<Rightarrow> notification \<Rightarrow> notification" where
  "marked me now n = n\<lparr>nf_seen := AList.update me (iso_of now) (nf_seen n)\<rparr>"

lemma iso_of_ne: "iso_of t \<noteq> []"
  by (simp add: iso_of_def Let_def split: prod.split)

lemma marked_sel [simp]: "nf_id (marked me now n) = nf_id n" "seen_by me (marked me now n)"
  "u \<noteq> me \<Longrightarrow> seen_by u (marked me now n) = seen_by u n" "visible_to c (marked me now n) = visible_to c n"
  by (simp_all add: marked_def seen_by_def iso_of_ne update_conv' visible_to_def recipient_def split: option.split)

lemma mark_targets_run:
  assumes "notify_ok (cx_ws c) w" and "expiry_live (nw_now w) (Some ex)" and "distinct (map nf_id ts)"
  shows "\<exists>w'. iterM ts (mark_seen c ex) w = (Inr (), w') \<and> notify_ok (cx_ws c) w' \<and> nw_dispatch w' = nw_dispatch w \<and>
    (\<forall>k. live_note w' (cx_ws c) k = (case find (\<lambda>n. nf_id n = k) ts of Some n \<Rightarrow> Some (marked (actor_sub c) (nw_now w) n)
       | None \<Rightarrow> live_note w (cx_ws c) k))"
  using assms
proof (induction ts arbitrary: w)
  case (Cons n ts)
  let ?m = "marked (actor_sub c) (nw_now w) n"
  show ?case
  proof (rule write_note_run [OF Cons.prems(1,2), of ?m])
    fix w1
    assume wr: "write_notification c ?m (Some ex) w = (Inr (), w1)" and ok: "notify_ok (cx_ws c) w1"
      and disp: "nw_dispatch w1 = nw_dispatch w"
      and live: "\<And>k. live_note w1 (cx_ws c) k = (if k = nf_id ?m then Some ?m else live_note w (cx_ws c) k)"
    have now: "nw_now w1 = nw_now w" using disp by (simp add: nw_now_def)
    from Cons.prems(2,3) have "expiry_live (nw_now w1) (Some ex)" "distinct (map nf_id ts)" by (simp_all add: now)
    from Cons.IH [OF ok this] obtain w2 where w2: "iterM ts (mark_seen c ex) w1 = (Inr (), w2)" "notify_ok (cx_ws c) w2"
      "nw_dispatch w2 = nw_dispatch w1" "\<forall>k. live_note w2 (cx_ws c) k = (case find (\<lambda>n. nf_id n = k) ts of
         Some n \<Rightarrow> Some (marked (actor_sub c) (nw_now w1) n) | None \<Rightarrow> live_note w1 (cx_ws c) k)"
      by blast
    have "mark_seen c ex n w = (Inr (), w1)" using wr by (simp add: mark_seen_def bindM_run marked_def)
    then have run: "iterM (n # ts) (mark_seen c ex) w = (Inr (), w2)" using w2(1) by (simp add: bindM_run)
    have fresh: "find (\<lambda>x. nf_id x = nf_id n) ts = None" using Cons.prems(3) by (force simp: find_None_iff image_iff)
    have "live_note w2 (cx_ws c) k = (case find (\<lambda>x. nf_id x = k) (n # ts) of
         Some n \<Rightarrow> Some (marked (actor_sub c) (nw_now w) n) | None \<Rightarrow> live_note w (cx_ws c) k)" for k
      using w2(4) live fresh by (auto simp: now split: option.split)
    with run w2(2,3) disp show ?thesis by auto
  qed
qed simp

lemma unseen_targets_eq:
  assumes "notify_ok (cx_ws c) w"
  shows "unseen_targets c w = List.map_filter (wanted c False w) (feed_keys w (cx_ws c))"
proof -
  have "(\<lambda>k. case read_notification c k w of Inr (Some n) \<Rightarrow> if visible_to c n \<and> \<not> seen_by (actor_sub c) n then Some n else None | _ \<Rightarrow> None) =
      wanted c False w"
    by (auto simp: fun_eq_iff read_note [OF assms] wanted_def split: option.split)
  then show ?thesis by (simp add: unseen_targets_def feed_keys_def)
qed

lemma wanted_id: "notify_ok (cx_ws c) w \<Longrightarrow> wanted c inc w k = Some n \<Longrightarrow> nf_id n = k"
  by (auto simp: wanted_def dest: live_note_id split: option.splits if_splits)

lemma map_filter_wanted_ids:
  assumes "notify_ok (cx_ws c) w"
  shows "map nf_id (List.map_filter (wanted c inc w) ks) = filter (\<lambda>k. wanted c inc w k \<noteq> None) ks"
  by (induction ks) (auto simp: map_filter_simps wanted_id [OF assms] split: option.split)

lemma find_map_filter:
  assumes "\<And>k n. f k = Some n \<Longrightarrow> nf_id n = k"
  shows "find (\<lambda>n. nf_id n = k) (List.map_filter f ks) = (if k \<in> set ks then f k else None)"
  by (induction ks) (auto simp: map_filter_simps assms split: option.split)

lemma find_by_id:
  assumes ok: "notify_ok (cx_ws c) w"
  shows "find (\<lambda>n. nf_id n = k) (List.map_filter (wanted c False w) (feed_keys w (cx_ws c))) = wanted c False w k"
proof (cases "k \<in> set (feed_keys w (cx_ws c))")
  case False
  then have "wanted c False w k = None" unfolding feed_keys_mem [OF ok] by (simp add: wanted_def)
  with find_map_filter [OF wanted_id [OF ok, where inc = False], where k = k and ks = "feed_keys w (cx_ws c)"] False show ?thesis by simp
qed (use find_map_filter [OF wanted_id [OF ok, where inc = False], where k = k and ks = "feed_keys w (cx_ws c)"] in simp)

lemma seen_all_run:
  assumes ok: "notify_ok (cx_ws c) w" and all: "jprop args ''all'' = JBool True" "\<And>x xs. jprop args ''id'' \<noteq> JStr (x # xs)"
  obtains w' where "seen c args w = (Inr (filter (\<lambda>k. wanted c False w k \<noteq> None) (feed_keys w (cx_ws c))), w')"
    "notify_ok (cx_ws c) w'" "nw_now w' = nw_now w"
    "\<And>k. live_note w' (cx_ws c) k = (case wanted c False w k of Some n \<Rightarrow> Some (marked (actor_sub c) (nw_now w) n)
       | None \<Rightarrow> live_note w (cx_ws c) k)"
proof -
  let ?ts = "unseen_targets c w" and ?ex = "seen_expiry (nw_now w)"
  have ex: "expiry_live (nw_now w) (Some ?ex)" by (simp add: expiry_live_def seen_expiry_def SEEN_TTL_DAYS_def)
  have ids: "map nf_id ?ts = filter (\<lambda>k. wanted c False w k \<noteq> None) (feed_keys w (cx_ws c))"
    unfolding unseen_targets_eq [OF ok] by (rule map_filter_wanted_ids [OF ok])
  then have "distinct (map nf_id ?ts)" using feed_keys_order(2) [OF ok] by simp
  from mark_targets_run [OF ok ex this] obtain w' where w': "iterM ?ts (mark_seen c ?ex) w = (Inr (), w')" "notify_ok (cx_ws c) w'"
    "nw_dispatch w' = nw_dispatch w" "\<forall>k. live_note w' (cx_ws c) k = (case find (\<lambda>n. nf_id n = k) ?ts of
       Some n \<Rightarrow> Some (marked (actor_sub c) (nw_now w) n) | None \<Rightarrow> live_note w (cx_ws c) k)"
    by blast
  show thesis
  proof (rule that [of w'])
    show "seen c args w = (Inr (filter (\<lambda>k. wanted c False w k \<noteq> None) (feed_keys w (cx_ws c))), w')"
      using all w'(1) ids by (auto simp: seen_def Let_def thenM_run split: json.splits list.splits)
    show "live_note w' (cx_ws c) k = (case wanted c False w k of Some n \<Rightarrow> Some (marked (actor_sub c) (nw_now w) n)
       | None \<Rightarrow> live_note w (cx_ws c) k)" for k
      using w'(4) by (simp add: unseen_targets_eq [OF ok] find_by_id [OF ok])
  qed (use w' in \<open>simp_all add: nw_now_def\<close>)
qed

lemma wanted_after_seen:
  assumes live: "\<And>k. live_note w' (cx_ws c) k = (case wanted c False w k of Some n \<Rightarrow> Some (marked (actor_sub c) now n) | None \<Rightarrow> live_note w (cx_ws c) k)"
  shows "wanted c False w' k = None"
    and "cx_ws d = cx_ws c \<Longrightarrow> actor_sub d \<noteq> actor_sub c \<Longrightarrow> wanted d inc w' k \<noteq> None \<longleftrightarrow> wanted d inc w k \<noteq> None"
    and "live_note w' (cx_ws c) k = None \<longleftrightarrow> live_note w (cx_ws c) k = None"
  using live [of k] by (auto simp: wanted_def split: option.splits if_splits)

text \<open>
  C39: the feed lists the newest of what its reader may see: identifiers strictly descending, at most
  the limit. Marking everything as seen empties the reader's own feed, answers exactly what it
  held, and leaves what every other member of the workspace is shown at that moment as it was.
  (The mark also starts the ten days after which the record ends for everybody,
  \<^verbatim>\<open>seen_expires_for_everyone\<close>.)
\<close>

theorem seen_hides_for_reader_only:
  assumes ok: "notify_ok (cx_ws c) w" and all: "jprop args ''all'' = JBool True" "\<And>x xs. jprop args ''id'' \<noteq> JStr (x # xs)"
    and other: "cx_ws d = cx_ws c" "actor_sub d \<noteq> actor_sub c" and hide: "jprop mine ''include_seen'' \<noteq> JBool True"
    and run: "seen c args w = (r, w')"
  shows "fst (list_notifications c mine w') = []
    \<and> map nf_id (fst (list_notifications d theirs w')) = map nf_id (fst (list_notifications d theirs w))
    \<and> sorted_wrt (>) (map nf_id (fst (list_notifications d theirs w)))
    \<and> int (length (fst (list_notifications d theirs w))) \<le> max 0 (list_limit (jprop theirs ''limit''))
    \<and> (\<exists>ids. r = Inr ids \<and> (\<forall>i. i \<in> set ids \<longleftrightarrow>
        (\<exists>n. live_note w (cx_ws c) i = Some n \<and> visible_to c n \<and> \<not> seen_by (actor_sub c) n)))"
proof (rule seen_all_run [OF ok all])
  fix w2
  assume "seen c args w = (Inr (filter (\<lambda>k. wanted c False w k \<noteq> None) (feed_keys w (cx_ws c))), w2)"
    and ok2: "notify_ok (cx_ws c) w2" and now: "nw_now w2 = nw_now w"
    and live: "\<And>k. live_note w2 (cx_ws c) k = (case wanted c False w k of Some n \<Rightarrow> Some (marked (actor_sub c) (nw_now w) n)
       | None \<Rightarrow> live_note w (cx_ws c) k)"
  with run have r: "r = Inr (filter (\<lambda>k. wanted c False w k \<noteq> None) (feed_keys w (cx_ws c)))" and w2: "w' = w2" by simp_all
  note after = wanted_after_seen [OF live]
  have keys: "feed_keys w2 (cx_ws c) = feed_keys w (cx_ws c)"
    by (rule sorted_distinct_set_unique) (use feed_keys_order [OF ok] feed_keys_order [OF ok2] feed_keys_mem [OF ok] feed_keys_mem [OF ok2] after(3) in auto)
  have okd: "notify_ok (cx_ws d) w" "notify_ok (cx_ws d) w2" using ok ok2 other(1) by simp_all
  have none: "List.map_filter (wanted c False w2) ks = []" for ks by (induction ks) (simp_all add: map_filter_simps after(1))
  have mine: "fst (list_notifications c mine w2) = []" using hide by (simp add: list_notifications_eq [OF ok2] none)
  have ids: "map nf_id (fst (list_notifications d theirs v)) = take (nat (list_limit (jprop theirs ''limit'')))
      (filter (\<lambda>k. wanted d (jprop theirs ''include_seen'' = JBool True) v k \<noteq> None) (rev (feed_keys v (cx_ws d))))" if "notify_ok (cx_ws d) v" for v
    by (simp add: list_notifications_eq [OF that] map_filter_wanted_ids [OF that] take_map [symmetric])
  have theirs: "map nf_id (fst (list_notifications d theirs w2)) = map nf_id (fst (list_notifications d theirs w))"
    unfolding ids [OF okd(1)] ids [OF okd(2)] after(2) [OF other] using keys other(1) by simp
  have "sorted_wrt (<) (feed_keys w (cx_ws d))" using feed_keys_order [OF okd(1)] by (simp add: strict_sorted_iff)
  then have "sorted_wrt (>) (rev (feed_keys w (cx_ws d)))" by (simp add: sorted_wrt_rev)
  then have "sorted_wrt (>) (map nf_id (fst (list_notifications d theirs w)))"
    unfolding ids [OF okd(1)] by (intro sorted_wrt_take sorted_wrt_filter)
  moreover have "int (length (fst (list_notifications d theirs w))) \<le> max 0 (list_limit (jprop theirs ''limit''))"
    by (simp add: list_notifications_eq [OF okd(1)])
  moreover have "i \<in> set (filter (\<lambda>k. wanted c False w k \<noteq> None) (feed_keys w (cx_ws c))) \<longleftrightarrow>
      (\<exists>n. live_note w (cx_ws c) i = Some n \<and> visible_to c n \<and> \<not> seen_by (actor_sub c) n)" for i
    by (auto simp: feed_keys_mem [OF ok] wanted_def split: option.splits if_splits)
  ultimately show ?thesis using mine theirs r w2 by blast
qed

section \<open>Witnesses\<close>

definition demo_note :: notification where
  "demo_note = \<lparr>nf_id = ''k'', nf_category = Decision, nf_title = ''t'', nf_body = None, nf_audience = ForWorkspace, nf_user = Some ''eve'',
     nf_widget = None, nf_choices = None, nf_link = JUndefined, nf_source = None, nf_by = ''eve'', nf_created = ''c'', nf_seen = []\<rparr>"

definition demo_feed :: "int \<Rightarrow> grant_row list notify_world" where
  "demo_feed t = \<lparr>nw_dispatch = demo_dworld t, nw_db = doc_db demo_note [((''w'', NOTIFY_SCOPE, ''k''), demo_note)]\<rparr>"

definition demo_reader :: "string \<Rightarrow> svc_ctx" where
  "demo_reader u = \<lparr>cx_ws = ''w'', cx_user = u, cx_scope = None\<rparr>"

definition demo_scope :: app_scope where
  "demo_scope = \<lparr>sc_paths = \<lparr>ap_id = ''a1'', ap_root = Some ''apps/notes'', ap_paths = None\<rparr>, sc_name = ''notes'', sc_user = ''ann'', sc_role = ''user''\<rparr>"

definition demo_app_ctx :: svc_ctx where
  "demo_app_ctx = (demo_reader ''ann'')\<lparr>cx_scope := Some demo_scope\<rparr>"

definition demo_notify_env :: "grant_row list notify_env" where
  "demo_notify_env = \<lparr>ne_registry = demo_registry, ne_manifest = (\<lambda>_ _. Inr (Some demo_manifest))\<rparr>"

definition demo_emission :: json where
  "demo_emission = JObj [(''title'', JStr ''Hi''), (''user'', JStr ''bob''), (''choices'', JArr [JObj [(''label'', JStr ''Open''),
     (''call'', JObj [(''namespace'', JStr ''vfs''), (''procedure'', JStr ''read'')])]])]"

lemma demo_feed_ok: "notify_ok ''w'' (demo_feed t)"
proof -
  have "doc_ok (doc_db demo_note [((''w'', NOTIFY_SCOPE, ''k''), demo_note)])" by (rule doc_db_ok) simp
  moreover have "ce_value c = demo_note \<and> k = ''k''"
    if "abs_db (doc_db demo_note [((''w'', NOTIFY_SCOPE, ''k''), demo_note)]) (''w'', NOTIFY_SCOPE, k) = Some c" for k c
    using doc_db_at [of demo_note "[((''w'', NOTIFY_SCOPE, ''k''), demo_note)]" "''w''" NOTIFY_SCOPE k] that
    by (simp add: doc_at_def split: if_splits)
  moreover have "nf_id demo_note = ''k''" by (simp add: demo_note_def)
  ultimately show ?thesis by (auto simp: notify_ok_def demo_feed_def doc_db_ws)
qed

definition demo_choice :: notification_choice where
  "demo_choice = \<lparr>nc_label = ''Open'', nc_description = None, nc_call = \<lparr>ac_ns = ''vfs'', ac_proc = ''read'', ac_args = JObj []\<rparr>\<rparr>"

lemma demo_parsed: "jprop demo_emission ''title'' = JStr ''Hi''" "js_trim ''Hi'' \<noteq> []"
  "parse_choices (jprop demo_emission ''choices'') = Inr (Some [demo_choice])" "parse_widget (jprop demo_emission ''widget'') = Inr None"
  by code_simp+

lemma demo_choices: "app_choices demo_notify_env demo_app_ctx demo_scope (Some [demo_choice]) w = (Inr (), w)"
proof -
  have "dispatch_notification_widget_call demo_registry p demo_manifest (nc_call demo_choice) None None None d = (Inr Allow, d)" for p d
    by (simp add: dispatch_notification_widget_call_def demo_choice_def is_workflow_namespace_def APP_WORKFLOW_NAMESPACE_def
        is_native_namespace_def NATIVE_APP_NAMESPACES_def tool_allowed_def demo_manifest_def dotted_def)
  then show ?thesis
    by (simp add: app_choices_def demo_notify_env_def bindM_run on_review_def zoom_run)
qed

lemma demo_emits: "\<exists>n w'. emit demo_notify_env demo_app_ctx demo_emission (demo_feed 0) = (Inr n, w')"
proof -
  let ?w = "(demo_feed 0)\<lparr>nw_dispatch := (nw_dispatch (demo_feed 0))\<lparr>dw_next := Suc (dw_next (nw_dispatch (demo_feed 0)))\<rparr>\<rparr>"
  have ok: "notify_ok (cx_ws demo_app_ctx) ?w"
    using demo_feed_ok [of 0] by (simp add: notify_ok_def demo_app_ctx_def demo_reader_def)
  have w: "\<exists>w'. write_notification demo_app_ctx n None ?w = (Inr (), w')" for n
    by (rule write_note_run [OF ok expiry_none, of n]) blast
  have s: "cx_scope demo_app_ctx = Some demo_scope" by (simp add: demo_app_ctx_def)
  have wd: "app_widget demo_scope None = Inr None" by (simp add: app_widget_def)
  obtain n where run: "emit demo_notify_env demo_app_ctx demo_emission (demo_feed 0) =
      thenM (write_notification demo_app_ctx n None) (ret n) ?w"
    unfolding emit_def demo_parsed(1) using demo_parsed(2)
    by (simp add: demo_parsed(3,4) bindM_run thenM_run s wd demo_choices on_review_def zoom_run random_uuid_def Let_def)
  from w [of n] show ?thesis by (auto simp: run thenM_run)
qed

theorem app_emission_confined_witness:
  "\<exists>n w'. emit demo_notify_env demo_app_ctx demo_emission (demo_feed 0) = (Inr n, w') \<and> nf_source n = Some ''notes'' \<and> nf_user n = Some ''ann''
     \<and> live_note w' ''w'' (nf_id n) = Some n"
proof -
  obtain n w' where e: "emit demo_notify_env demo_app_ctx demo_emission (demo_feed 0) = (Inr n, w')"
    using demo_emits by blast
  have c: "cx_ws demo_app_ctx = ''w''" "cx_scope demo_app_ctx = Some demo_scope" by (simp_all add: demo_app_ctx_def demo_reader_def)
  have "notify_ok (cx_ws demo_app_ctx) (demo_feed 0)" unfolding c(1) by (rule demo_feed_ok)
  from app_emission_confined [OF this c(2) e] e show ?thesis by (simp add: c demo_scope_def)
qed

theorem seen_hides_for_reader_only_witness:
  "\<exists>r w'. seen (demo_reader ''ann'') (JObj [(''all'', JBool True)]) (demo_feed 0) = (r, w')
     \<and> fst (list_notifications (demo_reader ''ann'') (JObj []) w') = []
     \<and> map nf_id (fst (list_notifications (demo_reader ''bob'') (JObj []) w')) = [''k'']"
proof -
  obtain r w' where s: "seen (demo_reader ''ann'') (JObj [(''all'', JBool True)]) (demo_feed 0) = (r, w')"
    by (cases "seen (demo_reader ''ann'') (JObj [(''all'', JBool True)]) (demo_feed 0)")
  have "map nf_id (fst (list_notifications (demo_reader ''bob'') (JObj []) (demo_feed 0))) = [''k'']" by code_simp
  moreover have "notify_ok (cx_ws (demo_reader ''ann'')) (demo_feed 0)" using demo_feed_ok by (simp add: demo_reader_def)
  ultimately show ?thesis
    using seen_hides_for_reader_only [of "demo_reader ''ann''" "demo_feed 0" "JObj [(''all'', JBool True)]" "demo_reader ''bob''" "JObj []" r w' "JObj []"] s
    by (simp add: demo_reader_def actor_sub_def)
qed

section \<open>Counterexamples\<close>

text \<open>Ten days after one member has seen a workspace notification it is gone for those who have not.\<close>

lemma seen_expires_for_everyone:
  "map nf_id (fst (list_notifications (demo_reader ''bob'') (JObj []) (demo_feed 864001000))) = [''k'']"
  "fst (list_notifications (demo_reader ''bob'') (JObj [])
     ((snd (seen (demo_reader ''ann'') (JObj [(''all'', JBool True)]) (demo_feed 0)))\<lparr>nw_dispatch := demo_dworld 864001000\<rparr>)) = []"
  by code_simp+

text \<open>Checking a choice evaluates the dispatch decision, which queues an action when a standing grant is
  confined to another resource: emitting puts an action up for review that nobody has asked for.\<close>

lemma emission_check_queues:
  "fst (dispatch_notification_widget_call demo_registry (principal_from_ctx demo_app_ctx) (demo_manifest\<lparr>am_allowed := [''github.push'']\<rparr>)
     \<lparr>ac_ns = ''github'', ac_proc = ''push'', ac_args = JObj []\<rparr> None None None ((demo_dworld 5)\<lparr>dw_reg := [other_repo]\<rparr>)) = Inr (Queue ''1'')"
  by code_simp

text \<open>The check accepts a choice that the application cannot call itself: the allow-list names a procedure
  of an interface the manifest does not require, which publishing accepts
  (\<^verbatim>\<open>undeclared_contract_published\<close>), and the tool route answers 403.\<close>

lemma emission_outruns_route:
  assumes "se_manifest s = demo_manifest\<lparr>am_allowed := [''sql.query'']\<rparr>" and "cv_interface env ''sql''"
  shows "call_target env s ''sql'' ''query'' body w = (Inr (not_allowed ''sql'' ''query''), w)"
    "fst (dispatch_notification_widget_call (demo_registry\<lparr>rg_permissions := (\<lambda>_ _. ret [\<lparr>pm_provider = ''sql'', pm_operation = ''*''\<rparr>])\<rparr>)
      (principal_from_ctx demo_app_ctx) (demo_manifest\<lparr>am_allowed := [''sql.query'']\<rparr>)
      \<lparr>ac_ns = ''sql'', ac_proc = ''query'', ac_args = JObj []\<rparr> None None None (demo_dworld 5)) = Inr Allow"
proof -
  have "\<not> is_workflow_namespace ''sql''" "\<not> is_native_namespace ''sql''"
    "\<not> contract_grant_callable (demo_manifest\<lparr>am_allowed := [''sql.query'']\<rparr>) ''sql'' ''query''" by code_simp+
  with assms show "call_target env s ''sql'' ''query'' body w = (Inr (not_allowed ''sql'' ''query''), w)"
    by (simp add: call_target_def call_contract_def)
qed code_simp

end
