(* ===== verification/Keyvalue.thy ===== *)
theory Keyvalue
  imports Svc_Context Metering Vcs_Laws
begin

text \<open>
  The key-value service of \<^verbatim>\<open>server/workspace/src/services.ts\<close>: the record scope of a call, and its
  four procedures over the metered records, with the lazy migration of keys an earlier version
  kept as files. \<^verbatim>\<open>JSON.parse\<close> and the file store are arguments; the descriptions of the
  procedures are left out.
\<close>

section \<open>Scopes\<close>

definition KV_LEGACY_PREFIX :: string where
  "KV_LEGACY_PREFIX = ''.services/keyvalue/''"

definition kv_scope :: "svc_ctx \<Rightarrow> svc_error + string" where
  "kv_scope c =
     (let resolved = (case cx_scope c of Some s \<Rightarrow> ''app#'' @ ap_id (sc_paths s) @ ''#u#'' @ sc_user s | None \<Rightarrow> ''ws'')
      in map_sum id (\<lambda>_. resolved) (assert_caller_scope resolved ''scope'' (Some (cx_user c))))"

text \<open>The instance argument: absent, or a text.\<close>

definition instance_opt :: "json \<Rightarrow> svc_error + string option" where
  "instance_opt args =
     (case jprop args ''instance'' of
        JUndefined \<Rightarrow> Inr None | JNull \<Rightarrow> Inr None | JStr s \<Rightarrow> Inr (Some s)
      | _ \<Rightarrow> Inl (ServiceError ''instance must be a string'' 400))"

definition resolve_record_scope ::
  "'f inst_env \<Rightarrow> svc_ctx \<Rightarrow> string option \<Rightarrow> (('v, 'f) app_world, string) prog" where
  "resolve_record_scope env c inst =
     (case inst of
        None \<Rightarrow> liftE (kv_scope c)
      | Some raw \<Rightarrow>
          bindM (liftE (ident (JStr raw) ''instance'')) (\<lambda>i.
          case cx_scope c of
            None \<Rightarrow> throw (ServiceError ''instance addressing requires an app session'' 400)
          | Some s \<Rightarrow>
              bindM (gets aw_now) (\<lambda>now.
              thenM (on_instances (assert_instance_access env now (cx_ws c) (ap_id (sc_paths s)) i (cx_user c)))
                (let resolved = shared_record_scope (ap_id (sc_paths s)) i
                 in liftE (map_sum id (\<lambda>_. resolved) (assert_caller_scope resolved ''scope'' (Some (cx_user c))))))))"

definition legacy_kv_path :: "svc_ctx \<Rightarrow> string \<Rightarrow> string" where
  "legacy_kv_path c key =
     (case cx_scope c of None \<Rightarrow> KV_LEGACY_PREFIX @ key | Some s \<Rightarrow> app_data_dir (ap_id (sc_paths s)) (sc_user s) @ ''/'' @ key)"

section \<open>The procedures\<close>

record 'f kv_env =
  ke_inst :: "'f inst_env"
  ke_parse :: "string \<Rightarrow> svc_error + json"
  ke_read :: "'f \<Rightarrow> string \<Rightarrow> string \<Rightarrow> svc_error + fs_file option"
  ke_remove :: "string \<Rightarrow> string \<Rightarrow> 'f \<Rightarrow> bool \<times> 'f"
  ke_list :: "'f \<Rightarrow> string \<Rightarrow> string \<Rightarrow> svc_error + fs_entry list"

definition remove_file :: "'f kv_env \<Rightarrow> string \<Rightarrow> string \<Rightarrow> ((json, 'f) app_world, bool) prog" where
  "remove_file env ws path w = (case ke_remove env ws path (aw_files w) of (b, f) \<Rightarrow> (Inr b, w\<lparr>aw_files := f\<rparr>))"

definition live_kv :: "string \<Rightarrow> string \<Rightarrow> string \<Rightarrow> (('v, 'f) app_world, 'v option) prog" where
  "live_kv ws scope key w = (map_sum id (map_option en_value) (rs_get (aw_now w) (aw_kv w) (ws, scope, key)), w)"

definition kv_get :: "'f kv_env \<Rightarrow> svc_ctx \<Rightarrow> json \<Rightarrow> ((json, 'f) app_world, json) prog" where
  "kv_get env c args =
     bindM (liftE (instance_opt args)) (\<lambda>inst.
     bindM (resolve_record_scope (ke_inst env) c inst) (\<lambda>scope.
     bindM (liftE (ident (jprop args ''key'') ''key'')) (\<lambda>key.
     bindM (live_kv (cx_ws c) scope key) (\<lambda>hit.
     case hit of
       Some v \<Rightarrow> ret v
     | None \<Rightarrow>
         if inst \<noteq> None then ret JNull
         else bindM (\<lambda>w. (ke_read env (aw_files w) (cx_ws c) (legacy_kv_path c key), w)) (\<lambda>legacy.
           case legacy of
             None \<Rightarrow> ret JNull
           | Some f \<Rightarrow>
               bindM (liftE (ke_parse env (ff_content f))) (\<lambda>v.
               thenM (kv_set (cx_ws c, scope, key) v (cx_user c) None)
                 (thenM (remove_file env (cx_ws c) (legacy_kv_path c key)) (ret v))))))))"

text \<open>\<^verbatim>\<open>args["value"] ?? null\<close>\<close>

definition kv_value :: "json \<Rightarrow> json" where
  "kv_value args = (case jprop args ''value'' of JUndefined \<Rightarrow> JNull | v \<Rightarrow> v)"

definition kv_put :: "'f kv_env \<Rightarrow> svc_ctx \<Rightarrow> json \<Rightarrow> ((json, 'f) app_world, string) prog" where
  "kv_put env c args =
     bindM (liftE (instance_opt args)) (\<lambda>inst.
     bindM (resolve_record_scope (ke_inst env) c inst) (\<lambda>scope.
     bindM (liftE (ident (jprop args ''key'') ''key'')) (\<lambda>key.
     thenM (kv_set (cx_ws c, scope, key) (kv_value args) (cx_user c) None)
       (if inst \<noteq> None then ret key
        else thenM (catchM (remove_file env (cx_ws c) (legacy_kv_path c key)) (\<lambda>_. ret False)) (ret key)))))"

definition kv_remove :: "'f kv_env \<Rightarrow> svc_ctx \<Rightarrow> json \<Rightarrow> ((json, 'f) app_world, string \<times> bool) prog" where
  "kv_remove env c args =
     bindM (liftE (instance_opt args)) (\<lambda>inst.
     bindM (resolve_record_scope (ke_inst env) c inst) (\<lambda>scope.
     bindM (liftE (ident (jprop args ''key'') ''key'')) (\<lambda>key.
     bindM (kv_delete (cx_ws c, scope, key)) (\<lambda>deletedRecord.
     bindM (if inst \<noteq> None then ret False
            else catchM (remove_file env (cx_ws c) (legacy_kv_path c key)) (\<lambda>_. ret False)) (\<lambda>deletedLegacy.
     ret (key, deletedRecord \<or> deletedLegacy))))))"

definition legacy_keys :: "'f kv_env \<Rightarrow> svc_ctx \<Rightarrow> string \<Rightarrow> (json, 'f) app_world \<Rightarrow> string list" where
  "legacy_keys env c pre w =
     (let root = legacy_kv_path c [];
          entries = (case ke_list env (aw_files w) (cx_ws c) (if ends_with root ''/'' then drop_end 1 root else root) of
            Inr es \<Rightarrow> es | Inl e \<Rightarrow> [])
      in filter (\<lambda>k. starts_with k pre)
           (map (\<lambda>p. drop (length root) p) (filter (\<lambda>p. starts_with p root) (map fe_path entries))))"

definition kv_list :: "'f kv_env \<Rightarrow> svc_ctx \<Rightarrow> json \<Rightarrow> ((json, 'f) app_world, string list) prog" where
  "kv_list env c args =
     bindM (liftE (instance_opt args)) (\<lambda>inst.
     bindM (resolve_record_scope (ke_inst env) c inst) (\<lambda>scope.
     let pre = (case jprop args ''prefix'' of JStr p \<Rightarrow> p | _ \<Rightarrow> []) in
     bindM (gets (\<lambda>w. rs_list (aw_now w) (aw_kv w) (cx_ws c) scope pre)) (\<lambda>recordKeys.
     if inst \<noteq> None then ret (sort recordKeys)
     else bindM (gets (legacy_keys env c pre)) (\<lambda>legacy. ret (sort (dedup (recordKeys @ legacy)))))))"

section \<open>The file backends\<close>

definition sqlite_kv_env :: "(string \<Rightarrow> string) \<Rightarrow> (fs_file list \<Rightarrow> fs_file) \<Rightarrow> (string \<Rightarrow> svc_error + json) \<Rightarrow> sqlite_fs inst_env \<Rightarrow> sqlite_fs kv_env" where
  "sqlite_kv_env sha pick parse inst =
     \<lparr>ke_inst = inst, ke_parse = parse, ke_read = (\<lambda>s ws p. fa_read (sqlite_api sha pick) s ws p None), ke_remove = sq_remove,
      ke_list = fa_list_all (sqlite_api sha pick)\<rparr>"

definition dsql_kv_env :: "(string \<Rightarrow> string) \<Rightarrow> (string \<Rightarrow> svc_error + json) \<Rightarrow> dsql_fs inst_env \<Rightarrow> dsql_fs kv_env" where
  "dsql_kv_env sha parse inst =
     \<lparr>ke_inst = inst, ke_parse = parse, ke_read = (\<lambda>s ws p. fa_read (dsql_api sha) s ws p None), ke_remove = ds_remove,
      ke_list = fa_list_all (dsql_api sha)\<rparr>"

end
