(* ===== verification/Keyvalue_Laws.thy ===== *)
theory Keyvalue_Laws
  imports Keyvalue Fs_Backends
begin

text \<open>
  The key-value service as a map: what a partition holds under a key is its record, or the value of
  the file an earlier version kept. Partitions never meet, and reading, writing and deleting act
  on one key of one partition; the file store is used through a locale, which both backends
  interpret.
\<close>

section \<open>Partitions\<close>

text \<open>A workspace, and within it the workspace's own keys or those of a user of an application.\<close>

type_synonym kv_part = "string \<times> (string \<times> string) option"

definition partition_of :: "svc_ctx \<Rightarrow> kv_part" where
  "partition_of c = (cx_ws c, map_option (\<lambda>s. (ap_id (sc_paths s), sc_user s)) (cx_scope c))"

definition part_scope :: "kv_part \<Rightarrow> string" where
  "part_scope p = (case snd p of None \<Rightarrow> ''ws'' | Some (i, u) \<Rightarrow> ''app#'' @ i @ ''#u#'' @ u)"

definition part_dir :: "kv_part \<Rightarrow> string" where
  "part_dir p = (case snd p of None \<Rightarrow> ''.services/keyvalue'' | Some (i, u) \<Rightarrow> app_data_dir i u)"

definition part_addr :: "kv_part \<Rightarrow> string \<Rightarrow> addr" where
  "part_addr p k = (fst p, part_scope p, k)"

definition part_path :: "kv_part \<Rightarrow> string \<Rightarrow> string" where
  "part_path p k = part_dir p @ ''/'' @ k"

text \<open>Identifiers hold no slash, those of applications no hash, and neither holds a backslash.\<close>

definition part_ok :: "kv_part \<Rightarrow> bool" where
  "part_ok p \<longleftrightarrow> CHR ''/'' \<notin> set (fst p) \<and>
     (case snd p of None \<Rightarrow> True | Some (i, u) \<Rightarrow> CHR ''#'' \<notin> set i \<and> CHR ''/'' \<notin> set i \<and> CHR ''/'' \<notin> set u \<and>
       backslash \<notin> set i \<and> backslash \<notin> set u)"

lemma kv_scope_run: "kv_scope c = Inr (part_scope (partition_of c))"
  by (simp add: kv_scope_def part_scope_def partition_of_def assert_caller_scope_def is_system_scope_def SVC_SCOPE_PREFIX_def
      str_simps Let_def starts_with_def split: option.split)

lemma legacy_path: "legacy_kv_path c k = part_path (partition_of c) k"
  by (simp add: legacy_kv_path_def KV_LEGACY_PREFIX_def part_path_def part_dir_def partition_of_def split: option.split)

lemma fst_partition [simp]: "fst (partition_of c) = cx_ws c"
  by (simp add: partition_of_def)

lemma scope_unshared: "part_ok p \<Longrightarrow> shared_scope_instance_id (part_scope p) = None"
  by (auto simp: part_scope_def part_ok_def shared_scope_instance_id_def split_on_free split_on_append
      split: option.splits list.splits)

lemma part_addr_ok: "part_ok p \<Longrightarrow> addr_ok db (part_addr p k)"
  by (auto simp: part_addr_def part_scope_def part_ok_def addr_ok_def slash_free_def split: option.splits)

lemma cut_at:
  assumes "a @ x # b = a' @ x # b'" and "x \<notin> set a" "x \<notin> set a'"
  shows "a = a' \<and> b = b'"
  using assms by (induction a arbitrary: a') (auto simp: Cons_eq_append_conv append_eq_Cons_conv split: if_splits)

lemma part_addr_inj:
  assumes "part_ok p" "part_ok q"
  shows "part_addr p k = part_addr q k' \<longleftrightarrow> p = q \<and> k = k'"
proof -
  have "snd p = snd q" if e: "part_scope p = part_scope q"
  proof (cases "snd p")
    case None
    with e show ?thesis by (cases "snd q") (auto simp: part_scope_def)
  next
    case (Some x)
    with e obtain y where y: "snd q = Some y" by (cases "snd q") (auto simp: part_scope_def split: prod.splits)
    have "fst x @ CHR ''#'' # ''u#'' @ snd x = fst y @ CHR ''#'' # ''u#'' @ snd y"
      using e Some y by (simp add: part_scope_def split: prod.splits)
    from cut_at [OF this] show ?thesis using assms Some y by (simp add: part_ok_def prod_eq_iff split: prod.splits)
  qed
  then show ?thesis unfolding part_addr_def by (metis prod_eqI prod.inject)
qed

lemma part_path_inj:
  assumes "part_ok p" "part_ok q"
  shows "fst p = fst q \<and> part_path p k = part_path q k' \<longleftrightarrow> p = q \<and> k = k'"
proof
  assume e: "fst p = fst q \<and> part_path p k = part_path q k'"
  note dirs = part_path_def part_dir_def app_data_dir_def app_data_root_def APP_DATA_ROOT_def
  have "snd p = snd q \<and> k = k'"
  proof (cases "snd p"; cases "snd q")
    fix x y assume s: "snd p = Some x" "snd q = Some y"
    have "fst x @ CHR ''/'' # ''data/'' @ snd x @ ''/'' @ k = fst y @ CHR ''/'' # ''data/'' @ snd y @ ''/'' @ k'"
      using e s by (simp add: dirs split: prod.splits)
    from cut_at [OF this] assms s have f: "fst x = fst y" "snd x @ CHR ''/'' # k = snd y @ CHR ''/'' # k'"
      by (simp_all add: part_ok_def split: prod.splits)
    from cut_at [OF f(2)] assms s f(1) show ?thesis by (simp add: part_ok_def prod_eq_iff split: prod.splits)
  qed (use e in \<open>auto simp: dirs split: prod.splits\<close>)
  with e show "p = q \<and> k = k'" by (simp add: prod_eq_iff)
qed simp

lemma part_dir_ok: "part_ok p \<Longrightarrow> backslash \<notin> set (part_dir p)"
  by (auto simp: part_ok_def part_dir_def app_data_dir_def app_data_root_def APP_DATA_ROOT_def split: option.splits)

section \<open>What a partition holds\<close>

definition kv_at ::
  "(string \<Rightarrow> svc_error + json) \<Rightarrow> ('f \<Rightarrow> string \<Rightarrow> string \<Rightarrow> fs_file option) \<Rightarrow> (json, 'f) app_world \<Rightarrow> kv_part \<times> string \<Rightarrow> (svc_error + json) option" where
  "kv_at parse latest w pk =
     (case abs_db (aw_kv w) (part_addr (fst pk) (snd pk)) of
        Some en \<Rightarrow> Some (Inr (ce_value en))
      | None \<Rightarrow> map_option (\<lambda>f. parse (ff_content f)) (latest (aw_files w) (fst (fst pk)) (part_path (fst pk) (snd pk))))"

text \<open>The records of the service are written without an expiry.\<close>

definition lasting :: "json db \<Rightarrow> bool" where
  "lasting db \<longleftrightarrow> (\<forall>p k c. part_ok p \<longrightarrow> abs_db db (part_addr p k) = Some c \<longrightarrow> ce_expires c = None)"

definition kv_ok :: "(int \<Rightarrow> 'f \<Rightarrow> bool) \<Rightarrow> (json, 'f) app_world \<Rightarrow> bool" where
  "kv_ok fok w \<longleftrightarrow> db_inv (aw_kv w) \<and> (\<forall>v. storable (aw_kv w) v) \<and> lasting (aw_kv w) \<and> fok (aw_now w) (aw_files w)"

lemma kv_okD: "kv_ok fok w \<Longrightarrow> db_inv (aw_kv w)" "kv_ok fok w \<Longrightarrow> storable (aw_kv w) v"
  "kv_ok fok w \<Longrightarrow> lasting (aw_kv w)" "kv_ok fok w \<Longrightarrow> fok (aw_now w) (aw_files w)"
  unfolding kv_ok_def by blast+

lemma lasting_get:
  assumes "lasting db" and "part_ok p"
  shows "map_option en_value (spec_get now (abs_db db) (part_addr p k)) = map_option ce_value (abs_db db (part_addr p k))"
proof (cases "abs_db db (part_addr p k)")
  case (Some c)
  with assms have "ce_expires c = None" unfolding lasting_def by blast
  with Some show ?thesis by (simp add: spec_get_def cell_live_def)
qed (simp add: spec_get_def)

text \<open>The records after a write and after a deletion.\<close>

lemma kv_set_run:
  assumes ok: "kv_ok fok w" and p: "part_ok p"
  obtains e d where "kv_set (part_addr p k) v u None w = (Inr e, w\<lparr>aw_kv := d\<rparr>)" "kv_ok fok (w\<lparr>aw_kv := d\<rparr>)"
    "db_backend d = db_backend (aw_kv w)"
    "\<And>a. map_option ce_value (abs_db d a) = (if a = part_addr p k then Some v else map_option ce_value (abs_db (aw_kv w) a))"
proof -
  let ?a = "part_addr p k"
  obtain d where set: "rs_set (reserve_instance_bytes (aw_now w)) (aw_now w) ?a v u None (aw_kv w, aw_instances w) =
      (Inr (mk_entry ?a v (aw_now w) u), (d, aw_instances w))"
    using rs_set_unshared [OF kv_okD(2) [OF ok] scope_unshared [OF p], of "reserve_instance_bytes (aw_now w)" "aw_now w" "fst p" k v u None "aw_instances w"]
    unfolding part_addr_def by blast
  note base = kv_okD(1) [OF ok] part_addr_ok [OF p]
  have "norm_expiry (aw_kv w) None = None" by (simp add: norm_expiry_def dsql_expiry_def split: backend.split)
  with rs_set_abs [OF base set] have abs: "abs_db d = spec_set (aw_now w) ?a v u None (abs_db (aw_kv w))" by simp
  have "db_inv d" by (rule rs_set_inv [OF base set])
  moreover have "storable d = storable (aw_kv w)" using rs_set_effect(1) [OF set] by (simp add: fun_eq_iff storable_def split_paired_all)
  moreover have "lasting d" using kv_okD(3) [OF ok] unfolding lasting_def abs spec_set_def by auto
  ultimately have ok': "kv_ok fok (w\<lparr>aw_kv := d\<rparr>)" using ok by (simp add: kv_ok_def)
  have "kv_set ?a v u None w = (Inr (mk_entry ?a v (aw_now w) u), w\<lparr>aw_kv := d\<rparr>)"
    by (simp add: kv_set_def zoom_run set)
  moreover have "db_backend d = db_backend (aw_kv w)" using rs_set_effect(1) [OF set] by simp
  moreover have "map_option ce_value (abs_db d a) = (if a = ?a then Some v else map_option ce_value (abs_db (aw_kv w) a))" for a
    by (simp add: abs spec_set_def)
  ultimately show thesis using ok' by (intro that)
qed

lemma kv_delete_run:
  assumes ok: "kv_ok fok w" and p: "part_ok p"
  obtains d where "kv_delete (part_addr p k) w = (Inr (abs_db (aw_kv w) (part_addr p k) \<noteq> None), w\<lparr>aw_kv := d\<rparr>)" "kv_ok fok (w\<lparr>aw_kv := d\<rparr>)"
    "db_backend d = db_backend (aw_kv w)"
    "\<And>a. map_option ce_value (abs_db d a) = (if a = part_addr p k then None else map_option ce_value (abs_db (aw_kv w) a))"
proof -
  let ?a = "part_addr p k"
  obtain r d m where del: "rs_delete (reserve_instance_bytes (aw_now w)) ?a (aw_kv w, aw_instances w) = (r, (d, m))"
    by (metis surj_pair)
  have m: "m = aw_instances w" and "\<exists>b. r = Inr b"
    using del scope_unshared [OF p] by (auto simp: part_addr_def elim!: rs_delete_meter)
  then obtain b where b: "r = Inr b" by blast
  have "b \<longleftrightarrow> abs_db (aw_kv w) ?a \<noteq> None"
    unfolding rs_delete_effect(2) [OF del b] by (cases "map_of (db_rows (aw_kv w)) ?a") (simp_all add: abs_db_def)
  with b have r: "r = Inr (abs_db (aw_kv w) ?a \<noteq> None)" by blast
  note base = kv_okD(1) [OF ok] part_addr_ok [OF p]
  have abs: "abs_db d = spec_delete ?a (abs_db (aw_kv w))" by (rule rs_delete_abs [OF base del])
  have "db_inv d" by (rule rs_delete_inv [OF base del])
  moreover have "storable d = storable (aw_kv w)" using rs_delete_effect(1) [OF del] by (simp add: fun_eq_iff storable_def split_paired_all)
  moreover have "lasting d" using kv_okD(3) [OF ok] unfolding lasting_def abs spec_delete_def by auto
  ultimately have ok': "kv_ok fok (w\<lparr>aw_kv := d\<rparr>)" using ok by (simp add: kv_ok_def)
  have "kv_delete ?a w = (Inr (abs_db (aw_kv w) ?a \<noteq> None), w\<lparr>aw_kv := d\<rparr>)" by (simp add: kv_delete_def zoom_run del m r)
  moreover have "db_backend d = db_backend (aw_kv w)" using rs_delete_effect(1) [OF del] by simp
  moreover have "map_option ce_value (abs_db d a) = (if a = ?a then None else map_option ce_value (abs_db (aw_kv w) a))" for a
    by (simp add: abs spec_delete_def)
  ultimately show thesis using ok' by (intro that)
qed

text \<open>The listing of records: the keys with the prefix, which the DSQL backend compares exactly.\<close>

lemma part_rows_listed:
  assumes ok: "kv_ok fok w" and p: "part_ok p" and pre: "pre = [] \<or> db_backend (aw_kv w) = Dsql"
  shows "k \<in> set (rs_list now (aw_kv w) (fst p) (part_scope p) pre) \<longleftrightarrow> starts_with k pre \<and> abs_db (aw_kv w) (part_addr p k) \<noteq> None"
proof -
  have match: "(case db_backend (aw_kv w) of Sqlite \<Rightarrow> like True backslash (sqlite_prefix_pattern pre) k | Dsql \<Rightarrow> starts_with k pre) \<longleftrightarrow> starts_with k pre"
    using pre by (auto simp: sqlite_prefix_pattern_def like_percent starts_with_def split: backend.split)
  have "(\<exists>r. map_of (db_rows (aw_kv w)) (fst p, part_scope p, k) = Some r \<and> row_live now r) \<longleftrightarrow>
      map_option en_value (spec_get now (abs_db (aw_kv w)) (part_addr p k)) \<noteq> None"
    unfolding part_addr_def spec_get_live [symmetric] by simp
  then show ?thesis
    unfolding rs_list_scan scan_keys_mem [OF db_inv_wf [OF kv_okD(1) [OF ok]]] match lasting_get [OF kv_okD(3) [OF ok] p] by simp
qed

end
