(* ===== verification/Keyvalue_Properties.thy ===== *)
theory Keyvalue_Properties
  imports Keyvalue_Laws Fs_Properties Instance_Properties
begin

text \<open>
  The key-value service refines a map from partitions and keys to values, on both backends of the
  file store: histories of its calls answer as the map does, whatever was kept as files before.
\<close>

section \<open>Histories of calls\<close>

text \<open>The four procedures, each after some time since the call before.\<close>

datatype kv_call = GetCall svc_ctx json | PutCall svc_ctx json | DeleteCall svc_ctx json | ListCall svc_ctx json

datatype kv_answer = ValueAnswer json | StoredAnswer string | DeletedAnswer string bool | KeysAnswer "string list"

fun call_ctx :: "kv_call \<Rightarrow> svc_ctx" where
  "call_ctx (GetCall c a) = c" | "call_ctx (PutCall c a) = c" | "call_ctx (DeleteCall c a) = c" | "call_ctx (ListCall c a) = c"

fun call_args :: "kv_call \<Rightarrow> json" where
  "call_args (GetCall c a) = a" | "call_args (PutCall c a) = a" | "call_args (DeleteCall c a) = a" | "call_args (ListCall c a) = a"

fun run_call :: "'f kv_env \<Rightarrow> kv_call \<Rightarrow> ((json, 'f) app_world, kv_answer) prog" where
  "run_call env (GetCall c a) w = map_prod (map_sum id ValueAnswer) id (kv_get env c a w)"
| "run_call env (PutCall c a) w = map_prod (map_sum id StoredAnswer) id (kv_put env c a w)"
| "run_call env (DeleteCall c a) w = map_prod (map_sum id (\<lambda>r. DeletedAnswer (fst r) (snd r))) id (kv_remove env c a w)"
| "run_call env (ListCall c a) w = map_prod (map_sum id KeysAnswer) id (kv_list env c a w)"

fun run_calls :: "'f kv_env \<Rightarrow> (nat \<times> kv_call) list \<Rightarrow> (json, 'f) app_world \<Rightarrow> (svc_error + kv_answer) list" where
  "run_calls env [] w = []"
| "run_calls env ((n, x) # xs) w = (case run_call env x (w\<lparr>aw_now := aw_now w + int n\<rparr>) of (r, w') \<Rightarrow> r # run_calls env xs w')"

text \<open>The specification.\<close>

type_synonym kv_map = "kv_part \<times> string \<Rightarrow> (svc_error + json) option"

definition list_prefix :: "json \<Rightarrow> string" where
  "list_prefix a = (case jprop a ''prefix'' of JStr p \<Rightarrow> p | _ \<Rightarrow> [])"

definition keyed_call :: "kv_call \<Rightarrow> kv_part \<times> string \<Rightarrow> kv_map \<Rightarrow> (svc_error + kv_answer) \<times> kv_map" where
  "keyed_call x at m =
     (case x of
        PutCall c a \<Rightarrow> (Inr (StoredAnswer (snd at)), m(at \<mapsto> Inr (kv_value a)))
      | DeleteCall c a \<Rightarrow> (Inr (DeletedAnswer (snd at) (m at \<noteq> None)), m(at := None))
      | _ \<Rightarrow> (map_sum id ValueAnswer (case m at of None \<Rightarrow> Inr JNull | Some v \<Rightarrow> v), m))"

definition spec_call :: "kv_call \<Rightarrow> kv_map \<Rightarrow> (svc_error + kv_answer) \<times> kv_map" where
  "spec_call x m =
     (case x of
        ListCall c a \<Rightarrow> (Inr (KeysAnswer (sorted_list_of_set {k. m (partition_of c, k) \<noteq> None \<and> starts_with k (list_prefix a)})), m)
      | _ \<Rightarrow> (case ident (jprop (call_args x) ''key'') ''key'' of
          Inl e \<Rightarrow> (Inl e, m)
        | Inr k \<Rightarrow> keyed_call x (partition_of (call_ctx x), k) m))"

fun spec_calls :: "kv_call list \<Rightarrow> kv_map \<Rightarrow> (svc_error + kv_answer) list" where
  "spec_calls [] m = []"
| "spec_calls (x # xs) m = (case spec_call x m of (r, m') \<Rightarrow> r # spec_calls xs m')"

text \<open>Calls without an instance, by members and sessions whose identifiers are well formed; a listing
  by a prefix where the records' backend compares prefixes exactly.\<close>

definition call_ok :: "backend \<Rightarrow> kv_call \<Rightarrow> bool" where
  "call_ok b x \<longleftrightarrow> part_ok (partition_of (call_ctx x)) \<and> instance_opt (call_args x) = Inr None \<and>
     (case x of ListCall c a \<Rightarrow> list_prefix a = [] \<or> b = Dsql | _ \<Rightarrow> True)"

section \<open>One call\<close>

lemma own_scope: "resolve_record_scope env c None w = (Inr (part_scope (partition_of c)), w)"
  by (simp add: resolve_record_scope_def kv_scope_run)

lemmas kv_front = own_scope bindM_run thenM_run catchM_run legacy_path

lemma kv_put_run:
  assumes "instance_opt a = Inr None" and "ident (jprop a ''key'') ''key'' = Inr k"
    and "kv_set (part_addr (partition_of c) k) (kv_value a) (cx_user c) None w = (Inr e, w1)"
    and "remove_file env (cx_ws c) (part_path (partition_of c) k) w1 = (Inr b, w')"
  shows "kv_put env c a w = (Inr k, w')"
  using assms by (simp add: kv_put_def kv_front part_addr_def)

lemma kv_remove_run:
  assumes "instance_opt a = Inr None" and "ident (jprop a ''key'') ''key'' = Inr k"
    and "kv_delete (part_addr (partition_of c) k) w = (Inr e, w1)"
    and "remove_file env (cx_ws c) (part_path (partition_of c) k) w1 = (Inr b, w')"
  shows "kv_remove env c a w = (Inr (k, e \<or> b), w')"
  using assms by (simp add: kv_remove_def kv_front part_addr_def)

lemma kv_get_run:
  assumes "instance_opt a = Inr None" and "ident (jprop a ''key'') ''key'' = Inr k" and ok: "kv_ok fok w" and p: "part_ok (partition_of c)"
  shows "kv_get env c a w =
    (case abs_db (aw_kv w) (part_addr (partition_of c) k) of
       Some en \<Rightarrow> (Inr (ce_value en), w)
     | None \<Rightarrow> (case ke_read env (aw_files w) (cx_ws c) (part_path (partition_of c) k) of
         Inl e \<Rightarrow> (Inl e, w)
       | Inr None \<Rightarrow> (Inr JNull, w)
       | Inr (Some f) \<Rightarrow> (case ke_parse env (ff_content f) of
           Inl e \<Rightarrow> (Inl e, w)
         | Inr v \<Rightarrow> thenM (kv_set (part_addr (partition_of c) k) v (cx_user c) None)
             (thenM (remove_file env (cx_ws c) (part_path (partition_of c) k)) (ret v)) w)))"
proof -
  have "live_kv (cx_ws c) (part_scope (partition_of c)) k w = (Inr (map_option ce_value (abs_db (aw_kv w) (part_addr (partition_of c) k))), w)"
    using lasting_get [OF kv_okD(3) [OF ok] p, of "aw_now w" k] by (simp add: live_kv_def rs_get_abs [OF kv_okD(1) [OF ok]] part_addr_def)
  with assms(1,2) show ?thesis by (simp add: kv_get_def kv_front part_addr_def split: option.split sum.split)
qed

locale legacy_files =
  fixes fok :: "int \<Rightarrow> 'f \<Rightarrow> bool" and latest :: "'f \<Rightarrow> string \<Rightarrow> string \<Rightarrow> fs_file option" and env :: "'f kv_env"
  assumes later: "fok now s \<Longrightarrow> now \<le> t \<Longrightarrow> fok t s"
    and rd: "fok now s \<Longrightarrow> ke_read env s ws p = Inr (latest s ws p)"
    and rm_ok: "fok now s \<Longrightarrow> fok now (snd (ke_remove env ws p s))"
    and rm_result: "fok now s \<Longrightarrow> fst (ke_remove env ws p s) \<longleftrightarrow> latest s ws p \<noteq> None"
    and rm_latest: "fok now s \<Longrightarrow> latest (snd (ke_remove env ws p s)) ws' p' =
      (if ws' = ws \<and> p' = p then None else latest s ws' p')"
    and ls: "fok now s \<Longrightarrow> backslash \<notin> set dir \<Longrightarrow> \<exists>es. ke_list env s ws dir = Inr es \<and>
      (\<forall>p. p \<in> fe_path ` set es \<and> starts_with p (dir @ ''/'') \<longleftrightarrow> latest s ws p \<noteq> None \<and> starts_with p (dir @ ''/''))"
begin

definition rel :: "kv_map \<Rightarrow> (json, 'f) app_world \<Rightarrow> bool" where
  "rel m w \<longleftrightarrow> (\<forall>q k. part_ok q \<longrightarrow> m (q, k) = kv_at (ke_parse env) latest w (q, k))"

text \<open>A record set or deleted, and its file removed: one key of one partition changes.\<close>

lemma key_changed:
  assumes ok: "kv_ok fok w" and p: "part_ok p" and m: "rel m w"
    and ok': "kv_ok fok (w\<lparr>aw_kv := d\<rparr>)"
    and d: "\<And>a. map_option ce_value (abs_db d a) = (if a = part_addr p k then v else map_option ce_value (abs_db (aw_kv w) a))"
  obtains w' where "remove_file env (fst p) (part_path p k) (w\<lparr>aw_kv := d\<rparr>) = (Inr (latest (aw_files w) (fst p) (part_path p k) \<noteq> None), w')" "kv_ok fok w'"
    "aw_kv w' = d" "rel (m((p, k) := map_option Inr v)) w'"
proof -
  note files = kv_okD(4) [OF ok]
  obtain b f where r: "ke_remove env (fst p) (part_path p k) (aw_files w) = (b, f)" by (cases "ke_remove env (fst p) (part_path p k) (aw_files w)")
  have b: "b \<longleftrightarrow> latest (aw_files w) (fst p) (part_path p k) \<noteq> None" using rm_result [OF files, of "fst p" "part_path p k"] r by simp
  let ?w = "w\<lparr>aw_kv := d, aw_files := f\<rparr>"
  have "kv_ok fok ?w" using ok' rm_ok [OF files, of "fst p" "part_path p k"] r by (simp add: kv_ok_def)
  moreover have "rel (m((p, k) := map_option Inr v)) ?w"
    unfolding rel_def
  proof (intro allI impI)
    fix q k' assume q: "part_ok q"
    let ?show = "\<lambda>r l. case r of Some v \<Rightarrow> Some (Inr v) | None \<Rightarrow> map_option (\<lambda>g. ke_parse env (ff_content g)) l"
    have old: "kv_at (ke_parse env) latest w (q, k') = ?show (map_option ce_value (abs_db (aw_kv w) (part_addr q k')))
        (latest (aw_files w) (fst q) (part_path q k'))"
      by (simp add: kv_at_def split: option.split)
    have new: "kv_at (ke_parse env) latest ?w (q, k') = ?show (map_option ce_value (abs_db d (part_addr q k')))
        (latest f (fst q) (part_path q k'))"
      by (simp add: kv_at_def split: option.split)
    have l: "latest f (fst q) (part_path q k') = (if q = p \<and> k' = k then None else latest (aw_files w) (fst q) (part_path q k'))"
      using rm_latest [OF files, of "fst p" "part_path p k" "fst q" "part_path q k'"] part_path_inj [OF q p] r by simp
    have mq: "m (q, k') = kv_at (ke_parse env) latest w (q, k')" using m q unfolding rel_def by blast
    note addr = part_addr_inj [OF q p]
    show "(m((p, k) := map_option Inr v)) (q, k') = kv_at (ke_parse env) latest ?w (q, k')"
    proof (cases "q = p \<and> k' = k")
      case True
      then show ?thesis unfolding new l d addr by (cases v) simp_all
    next
      case False
      have "kv_at (ke_parse env) latest ?w (q, k') = kv_at (ke_parse env) latest w (q, k')"
        unfolding new old l d addr by (simp only: False if_False)
      with mq False show ?thesis by auto
    qed
  qed
  moreover have "remove_file env (fst p) (part_path p k) (w\<lparr>aw_kv := d\<rparr>) = (Inr (latest (aw_files w) (fst p) (part_path p k) \<noteq> None), ?w)"
    using b by (simp add: remove_file_def r)
  ultimately show thesis by (intro that [of ?w]) simp_all
qed

text \<open>Each procedure, on well-formed identifiers.\<close>

definition simulates :: "kv_call \<Rightarrow> kv_map \<Rightarrow> (json, 'f) app_world \<Rightarrow> bool" where
  "simulates x m w \<longleftrightarrow> (\<exists>r w' m'. run_call env x w = (r, w') \<and> spec_call x m = (r, m') \<and> kv_ok fok w' \<and> rel m' w' \<and>
     db_backend (aw_kv w') = db_backend (aw_kv w))"

lemma set_then_remove:
  assumes ok: "kv_ok fok w" and p: "part_ok p" and m: "rel m w"
  obtains e w1 b w' where "kv_set (part_addr p k) v u None w = (Inr e, w1)" "remove_file env (fst p) (part_path p k) w1 = (Inr b, w')"
    "kv_ok fok w'" "rel (m((p, k) \<mapsto> Inr v)) w'" "db_backend (aw_kv w') = db_backend (aw_kv w)"
proof -
  obtain e d where set: "kv_set (part_addr p k) v u None w = (Inr e, w\<lparr>aw_kv := d\<rparr>)" and ok': "kv_ok fok (w\<lparr>aw_kv := d\<rparr>)"
    and b: "db_backend d = db_backend (aw_kv w)"
    and d: "\<And>a. map_option ce_value (abs_db d a) = (if a = part_addr p k then Some v else map_option ce_value (abs_db (aw_kv w) a))"
    by (rule kv_set_run [OF ok p, where k = k and v = v and u = u]) blast
  obtain w' where w': "remove_file env (fst p) (part_path p k) (w\<lparr>aw_kv := d\<rparr>) = (Inr (latest (aw_files w) (fst p) (part_path p k) \<noteq> None), w')"
    "kv_ok fok w'" "aw_kv w' = d" "rel (m((p, k) := map_option Inr (Some v))) w'"
    by (rule key_changed [OF ok p m ok' d])
  then show thesis by (intro that [OF set w'(1)]) (simp_all add: b)
qed

lemma delete_then_remove:
  assumes ok: "kv_ok fok w" and p: "part_ok p" and m: "rel m w"
  obtains e w1 b w' where "kv_delete (part_addr p k) w = (Inr e, w1)" "remove_file env (fst p) (part_path p k) w1 = (Inr b, w')"
    "e \<or> b \<longleftrightarrow> m (p, k) \<noteq> None" "kv_ok fok w'" "rel (m((p, k) := None)) w'" "db_backend (aw_kv w') = db_backend (aw_kv w)"
proof -
  obtain d where del: "kv_delete (part_addr p k) w = (Inr (abs_db (aw_kv w) (part_addr p k) \<noteq> None), w\<lparr>aw_kv := d\<rparr>)" and ok': "kv_ok fok (w\<lparr>aw_kv := d\<rparr>)"
    and b: "db_backend d = db_backend (aw_kv w)"
    and d: "\<And>a. map_option ce_value (abs_db d a) = (if a = part_addr p k then None else map_option ce_value (abs_db (aw_kv w) a))"
    by (rule kv_delete_run [OF ok p, where k = k]) blast
  have "m (p, k) = kv_at (ke_parse env) latest w (p, k)" using m p unfolding rel_def by blast
  then have flag: "abs_db (aw_kv w) (part_addr p k) \<noteq> None \<or> latest (aw_files w) (fst p) (part_path p k) \<noteq> None \<longleftrightarrow> m (p, k) \<noteq> None"
    by (simp add: kv_at_def split: option.split)
  obtain w' where w': "remove_file env (fst p) (part_path p k) (w\<lparr>aw_kv := d\<rparr>) = (Inr (latest (aw_files w) (fst p) (part_path p k) \<noteq> None), w')"
    "kv_ok fok w'" "aw_kv w' = d" "rel (m((p, k) := map_option Inr None)) w'"
    by (rule key_changed [OF ok p m ok' d])
  then show thesis by (intro that [OF del w'(1) flag]) (simp_all add: b)
qed

lemma put_simulates:
  assumes "kv_ok fok w" and "rel m w" and "part_ok (partition_of c)" "instance_opt a = Inr None" and k: "ident (jprop a ''key'') ''key'' = Inr k"
  shows "simulates (PutCall c a) m w"
proof -
  obtain e w1 b w' where run: "kv_set (part_addr (partition_of c) k) (kv_value a) (cx_user c) None w = (Inr e, w1)"
      "remove_file env (fst (partition_of c)) (part_path (partition_of c) k) w1 = (Inr b, w')"
    and w': "kv_ok fok w'" "rel (m((partition_of c, k) \<mapsto> Inr (kv_value a))) w'" "db_backend (aw_kv w') = db_backend (aw_kv w)"
    by (rule set_then_remove [OF assms(1,3,2)])
  have "kv_put env c a w = (Inr k, w')" using run by (intro kv_put_run [OF assms(4) k]) simp_all
  with w' show ?thesis by (simp add: simulates_def spec_call_def keyed_call_def k)
qed

lemma delete_simulates:
  assumes "kv_ok fok w" and "rel m w" and "part_ok (partition_of c)" "instance_opt a = Inr None" and k: "ident (jprop a ''key'') ''key'' = Inr k"
  shows "simulates (DeleteCall c a) m w"
proof -
  obtain e w1 b w' where run: "kv_delete (part_addr (partition_of c) k) w = (Inr e, w1)"
      "remove_file env (fst (partition_of c)) (part_path (partition_of c) k) w1 = (Inr b, w')"
    and w': "e \<or> b \<longleftrightarrow> m (partition_of c, k) \<noteq> None" "kv_ok fok w'" "rel (m((partition_of c, k) := None)) w'"
      "db_backend (aw_kv w') = db_backend (aw_kv w)"
    by (rule delete_then_remove [OF assms(1,3,2)])
  have "kv_remove env c a w = (Inr (k, e \<or> b), w')" using run by (intro kv_remove_run [OF assms(4) k]) simp_all
  with w' show ?thesis by (simp add: simulates_def spec_call_def keyed_call_def k)
qed

lemma get_simulates:
  assumes ok: "kv_ok fok w" and m: "rel m w" and p: "part_ok (partition_of c)" and a: "instance_opt a = Inr None"
    and k: "ident (jprop a ''key'') ''key'' = Inr k"
  shows "simulates (GetCall c a) m w"
proof -
  let ?p = "partition_of c"
  let ?entry = "abs_db (aw_kv w) (part_addr ?p k)" and ?file = "latest (aw_files w) (cx_ws c) (part_path ?p k)"
  note get = kv_get_run [OF a k ok p, of env, unfolded rd [OF kv_okD(4) [OF ok]]]
  have mk: "m (?p, k) = kv_at (ke_parse env) latest w (?p, k)" using m p unfolding rel_def by blast
  show ?thesis
  proof (cases "\<exists>f v. ?entry = None \<and> ?file = Some f \<and> ke_parse env (ff_content f) = Inr v")
    case False
    then have "kv_get env c a w = (case kv_at (ke_parse env) latest w (?p, k) of None \<Rightarrow> Inr JNull | Some v \<Rightarrow> v, w)"
      unfolding get by (auto simp: kv_at_def split: option.split sum.split)
    with ok m show ?thesis by (simp add: simulates_def spec_call_def keyed_call_def k mk)
  next
    case True
    then obtain f v where f: "?entry = None" "?file = Some f" "ke_parse env (ff_content f) = Inr v" by blast
    obtain e w1 b w' where run: "kv_set (part_addr ?p k) v (cx_user c) None w = (Inr e, w1)"
        "remove_file env (fst ?p) (part_path ?p k) w1 = (Inr b, w')"
      and w': "kv_ok fok w'" "rel (m((?p, k) \<mapsto> Inr v)) w'" "db_backend (aw_kv w') = db_backend (aw_kv w)"
      by (rule set_then_remove [OF ok p m])
    have at: "m (?p, k) = Some (Inr v)" using f mk by (simp add: kv_at_def)
    then have "m((?p, k) \<mapsto> Inr v) = m" by auto
    moreover have "kv_get env c a w = (Inr v, w')" unfolding get using f run by (simp add: thenM_run)
    ultimately show ?thesis using w' at by (simp add: simulates_def spec_call_def keyed_call_def k)
  qed
qed

text \<open>A listing shows the keys of the records and of the files.\<close>

lemma legacy_keys_mem:
  assumes ok: "kv_ok fok w" and p: "part_ok (partition_of c)"
  shows "k \<in> set (legacy_keys env c pre w) \<longleftrightarrow> starts_with k pre \<and> latest (aw_files w) (cx_ws c) (part_path (partition_of c) k) \<noteq> None"
proof -
  let ?dir = "part_dir (partition_of c)"
  have root: "legacy_kv_path c [] = ?dir @ ''/''" by (simp add: legacy_path part_path_def)
  have strip: "(if ends_with (?dir @ ''/'') ''/'' then drop_end 1 (?dir @ ''/'') else ?dir @ ''/'') = ?dir" by (simp add: ends_with_def drop_end_def)
  obtain es where es: "ke_list env (aw_files w) (cx_ws c) ?dir = Inr es"
    "\<And>p. p \<in> fe_path ` set es \<and> starts_with p (?dir @ ''/'') \<longleftrightarrow> latest (aw_files w) (cx_ws c) p \<noteq> None \<and> starts_with p (?dir @ ''/'')"
    using ls [OF kv_okD(4) [OF ok] part_dir_ok [OF p], of "cx_ws c"] by auto
  have "k \<in> set (legacy_keys env c pre w) \<longleftrightarrow>
      starts_with k pre \<and> (\<exists>p. p \<in> fe_path ` set es \<and> starts_with p (?dir @ ''/'') \<and> k = drop (length (?dir @ ''/'')) p)"
    unfolding legacy_keys_def Let_def root strip es(1) by auto
  also have "\<dots> \<longleftrightarrow> starts_with k pre \<and> (\<exists>p. latest (aw_files w) (cx_ws c) p \<noteq> None \<and> starts_with p (?dir @ ''/'') \<and> k = drop (length (?dir @ ''/'')) p)"
    using es(2) by blast
  also have "\<dots> \<longleftrightarrow> starts_with k pre \<and> latest (aw_files w) (cx_ws c) (?dir @ ''/'' @ k) \<noteq> None"
    by (auto simp: starts_with_iff)
  finally show ?thesis by (simp add: part_path_def)
qed

lemma list_simulates:
  assumes ok: "kv_ok fok w" and m: "rel m w" and p: "part_ok (partition_of c)" and a: "instance_opt a = Inr None"
    and pre: "list_prefix a = [] \<or> db_backend (aw_kv w) = Dsql"
  shows "simulates (ListCall c a) m w"
proof -
  let ?p = "partition_of c" and ?pre = "list_prefix a"
  let ?ks = "rs_list (aw_now w) (aw_kv w) (cx_ws c) (part_scope ?p) ?pre @ legacy_keys env c ?pre w"
  have mem: "k \<in> set ?ks \<longleftrightarrow> m (?p, k) \<noteq> None \<and> starts_with k ?pre" for k
  proof -
    have "m (?p, k) = kv_at (ke_parse env) latest w (?p, k)" using m p unfolding rel_def by blast
    then have "m (?p, k) \<noteq> None \<longleftrightarrow> abs_db (aw_kv w) (part_addr ?p k) \<noteq> None \<or> latest (aw_files w) (cx_ws c) (part_path ?p k) \<noteq> None"
      by (simp add: kv_at_def split: option.split)
    with part_rows_listed [OF ok p pre, of k "aw_now w"] legacy_keys_mem [OF ok p, of k ?pre] show ?thesis by auto
  qed
  have "sort (dedup ?ks) = sorted_list_of_set {k. m (?p, k) \<noteq> None \<and> starts_with k ?pre}"
  proof (rule sorted_distinct_set_unique)
    have "{k. m (?p, k) \<noteq> None \<and> starts_with k ?pre} = set ?ks" using mem by blast
    then show "set (sort (dedup ?ks)) = set (sorted_list_of_set {k. m (?p, k) \<noteq> None \<and> starts_with k ?pre})"
      by (simp only: set_sort set_dedup set_sorted_list_of_set finite_set)
  qed simp_all
  then have "kv_list env c a w = (Inr (sorted_list_of_set {k. m (?p, k) \<noteq> None \<and> starts_with k ?pre}), w)"
    using a by (simp add: kv_list_def kv_front list_prefix_def Let_def)
  with ok m show ?thesis by (simp add: simulates_def spec_call_def)
qed

lemma call_simulates:
  assumes ok: "kv_ok fok w" and x: "call_ok (db_backend (aw_kv w)) x" and m: "rel m w"
  shows "simulates x m w"
proof (cases "\<exists>c a. x = ListCall c a")
  case True
  then show ?thesis using assms list_simulates by (auto simp: call_ok_def)
next
  case False
  show ?thesis
  proof (cases "ident (jprop (call_args x) ''key'') ''key''")
    case (Inl e)
    with False assms show ?thesis
      by (cases x) (simp_all add: simulates_def spec_call_def call_ok_def kv_get_def kv_put_def kv_remove_def kv_front)
  next
    case (Inr k)
    with False show ?thesis
      using assms get_simulates put_simulates delete_simulates by (cases x) (simp_all add: call_ok_def)
  qed
qed

lemma time_passes:
  assumes "kv_ok fok w" and "rel m w"
  shows "kv_ok fok (w\<lparr>aw_now := aw_now w + int n\<rparr>)" "rel m (w\<lparr>aw_now := aw_now w + int n\<rparr>)"
proof -
  have "fok (aw_now w + int n) (aw_files w)" by (rule later [OF kv_okD(4) [OF assms(1)]]) simp
  with assms(1) show "kv_ok fok (w\<lparr>aw_now := aw_now w + int n\<rparr>)" by (simp add: kv_ok_def)
  show "rel m (w\<lparr>aw_now := aw_now w + int n\<rparr>)" using assms(2) by (simp add: rel_def kv_at_def cong: option.case_cong)
qed

lemma calls_simulate:
  assumes "kv_ok fok w" and "\<forall>(n, x) \<in> set xs. call_ok (db_backend (aw_kv w)) x" and "rel m w"
  shows "run_calls env xs w = spec_calls (map snd xs) m"
  using assms
proof (induction xs arbitrary: w m)
  case (Cons y xs)
  obtain n x where y: "y = (n, x)" by (cases y)
  let ?w = "w\<lparr>aw_now := aw_now w + int n\<rparr>"
  have "simulates x m ?w"
    using time_passes [OF Cons.prems(1,3), of n] Cons.prems(2) by (intro call_simulates) (simp_all add: y)
  then obtain r w' m' where "run_call env x ?w = (r, w')" "spec_call x m = (r, m')" "kv_ok fok w'" "rel m' w'"
    "db_backend (aw_kv w') = db_backend (aw_kv w)" by (auto simp: simulates_def)
  with Cons.IH [of w' m'] Cons.prems(2) show ?case by (simp add: y)
qed simp

lemma start: "rel (kv_at (ke_parse env) latest w) w"
  by (simp add: rel_def)

end

section \<open>The backends\<close>

lemma lists_exactly:
  assumes "list_spec latest hits [] es" and "\<And>p. starts_with p (dir @ ''/'') \<Longrightarrow> hits p"
  shows "p \<in> fe_path ` set es \<and> starts_with p (dir @ ''/'') \<longleftrightarrow> latest p \<noteq> None \<and> starts_with p (dir @ ''/'')"
  using assms by (auto simp: list_spec_def)

lemma sq_below:
  assumes "backslash \<notin> set dir" and "starts_with p (dir @ ''/'')"
  shows "sq_hits dir p"
  using assms by (auto simp: sq_hits_lower starts_with_iff)

interpretation kvs: legacy_files "sqfs_inv pick" sq_latest "sqlite_kv_env sha pick parse inst" for sha pick parse inst
proof unfold_locales
  show "ke_read (sqlite_kv_env sha pick parse inst) s ws p = Inr (sq_latest s ws p)" for s ws p
    by (simp add: sqlite_kv_env_def sqlite_api_def sq_latest_def)
  show "\<exists>es. ke_list (sqlite_kv_env sha pick parse inst) s ws dir = Inr es \<and>
      (\<forall>p. p \<in> fe_path ` set es \<and> starts_with p (dir @ ''/'') \<longleftrightarrow> sq_latest s ws p \<noteq> None \<and> starts_with p (dir @ ''/''))"
    if "sqfs_inv pick now s" "backslash \<notin> set dir" for now s dir ws
    using sq.unlimited [OF that(1), of ws dir] lists_exactly [OF _ sq_below [OF that(2)]]
    by (auto simp: sqlite_kv_env_def sqlite_api_def all_of_def)
qed (simp_all add: sqlite_kv_env_def sq.rm_inv sq.latest_rm sq.rm_result sq.later)

interpretation kvd: legacy_files "ds_inv sha" ds_latest "dsql_kv_env sha parse inst" for sha parse inst
proof unfold_locales
  show "ds_inv sha now s \<Longrightarrow> ke_read (dsql_kv_env sha parse inst) s ws p = Inr (ds_latest s ws p)" for now s ws p
    by (simp add: dsql_kv_env_def dsql_api_def ds_read_latest)
  show "\<exists>es. ke_list (dsql_kv_env sha parse inst) s ws dir = Inr es \<and>
      (\<forall>p. p \<in> fe_path ` set es \<and> starts_with p (dir @ ''/'') \<longleftrightarrow> ds_latest s ws p \<noteq> None \<and> starts_with p (dir @ ''/''))"
    if "ds_inv sha now s" for now s dir ws
  proof -
    have below: "ds_hits dir p" if "starts_with p (dir @ ''/'')" for p using that by (simp add: ds_hits_def in_prefix_def)
    show ?thesis using ds.unlimited [OF that, of ws dir] lists_exactly [OF _ below] by (auto simp: dsql_kv_env_def dsql_api_def all_of_def)
  qed
qed (simp_all add: dsql_kv_env_def ds.rm_inv ds.latest_rm ds.rm_result ds.later)

lemma env_parse [simp]: "ke_parse (sqlite_kv_env sha pick parse inst1) = parse" "ke_parse (dsql_kv_env sha parse inst2) = parse"
  by (simp_all add: sqlite_kv_env_def dsql_kv_env_def)

text \<open>
  C40: on both file backends, any history of the four key-value procedures, at any times, by members
  and application sessions whose identifiers hold no slash, hash or backslash, answers exactly as a map from partitions (the workspace, or a user of
  an application) and keys to values: what get gives, whether delete found something, the sorted
  keys of list. The map starts with the records, which carry no expiry, and with every file in the
  partition's legacy folder - for a session that is the folder of its own files too, so storing or
  deleting a key removes the file of that name -; a file that is not JSON fails the read and is
  left alone, and no call reaches another partition's keys. The calls address no instance, and list
  gives a prefix only where the records are on DSQL: SQLite compares the prefix of records without
  regard to case, that of files exactly.
\<close>

theorem keyvalue_histories_exact:
  assumes "kv_ok (sqfs_inv pick) v" and "\<forall>(n, x) \<in> set xs. call_ok (db_backend (aw_kv v)) x"
    and "kv_ok (ds_inv sha) w" and "\<forall>(n, x) \<in> set ys. call_ok (db_backend (aw_kv w)) x"
  shows "run_calls (sqlite_kv_env sha pick parse inst1) xs v = spec_calls (map snd xs) (kv_at parse sq_latest v) \<and>
    run_calls (dsql_kv_env sha parse inst2) ys w = spec_calls (map snd ys) (kv_at parse ds_latest w)"
  using kvs.calls_simulate [OF assms(1,2) kvs.start, of sha parse inst1] kvd.calls_simulate [OF assms(3,4) kvd.start, of parse inst2] by simp

text \<open>A session of an application finds a value kept as a file, a member does not see it.\<close>

definition kv_member :: svc_ctx where
  "kv_member = \<lparr>cx_ws = ''w'', cx_user = ''u'', cx_scope = None\<rparr>"

definition kv_session :: svc_ctx where
  "kv_session = \<lparr>cx_ws = ''w'', cx_user = ''u'',
     cx_scope = Some \<lparr>sc_paths = \<lparr>ap_id = ''A'', ap_root = Some ''apps/a'', ap_paths = None\<rparr>, sc_name = ''A'', sc_user = ''u'', sc_role = ''member''\<rparr>\<rparr>"

definition kv_args :: json where
  "kv_args = JObj [(''key'', JStr ''k''), (''value'', JBool True)]"

definition kv_demo_calls :: "(nat \<times> kv_call) list" where
  "kv_demo_calls = [(0, GetCall kv_member kv_args), (1, ListCall kv_session (JObj [])), (5, GetCall kv_session kv_args), (0, PutCall kv_member kv_args),
     (7, DeleteCall kv_session kv_args), (0, DeleteCall kv_session kv_args), (9, GetCall kv_member kv_args), (2, ListCall kv_session (JObj []))]"

definition kv_demo_inst :: "'f inst_env" where
  "kv_demo_inst = \<lparr>ie_install = (\<lambda>_ _. None), ie_member = (\<lambda>_ _. False), ie_file_sizes = (\<lambda>_ _ _. []), ie_remove_prefix = (\<lambda>_ _ f. f)\<rparr>"

definition kv_demo_world :: "'f \<Rightarrow> (json, 'f) app_world" where
  "kv_demo_world f = \<lparr>aw_now = 0, aw_instances = doc_db demo_instance [], aw_kv = doc_db JNull [], aw_files = f\<rparr>"

lemma kv_demo_ok: "fok 0 f \<Longrightarrow> kv_ok fok (kv_demo_world f)"
  using doc_db_ok [of "[]" JNull] by (simp add: kv_ok_def kv_demo_world_def doc_ok_def storable_def lasting_def abs_db_def doc_db_def)

lemma kv_demo_at: "kv_at parse latest (kv_demo_world f) (p, k) =
    map_option (\<lambda>g. parse (ff_content g)) (latest f (fst p) (part_path p k))"
  by (simp add: kv_at_def kv_demo_world_def abs_db_def doc_db_def)

lemma kv_demo_calls_ok: "\<forall>(n, x) \<in> set kv_demo_calls. call_ok b x"
  by (simp add: kv_demo_calls_def call_ok_def part_ok_def partition_of_def kv_member_def kv_session_def kv_args_def instance_opt_def list_prefix_def)

definition kv_demo_answers :: "(svc_error + kv_answer) list" where
  "kv_demo_answers = [Inr (ValueAnswer JNull), Inr (KeysAnswer [''k'']), Inr (ValueAnswer (JStr ''1'')), Inr (StoredAnswer ''k''),
     Inr (DeletedAnswer ''k'' True), Inr (DeletedAnswer ''k'' False), Inr (ValueAnswer (JBool True)), Inr (KeysAnswer [])]"

lemma kv_demo_spec:
  assumes "\<And>ws p. latest f ws p = (if ws = ''w'' \<and> p = ''.apps/A/data/u/k'' then Some (new_file demo_sha 0 ''.apps/A/data/u/k'' ''1'' ''text/plain'') else None)"
  shows "spec_calls (map snd kv_demo_calls) (kv_at (\<lambda>t. Inr (JStr t)) latest (kv_demo_world f)) = kv_demo_answers"
proof -
  let ?m = "kv_at (\<lambda>t. Inr (JStr t)) latest (kv_demo_world f)"
  note parts = kv_member_def kv_session_def partition_of_def
  have k: "ident (jprop kv_args ''key'') ''key'' = Inr ''k''" "kv_value kv_args = JBool True"
    by (simp_all add: kv_args_def ident_def ident_re_def ident_char_def kv_value_def)
  have m: "?m (p, k') = (if p = partition_of kv_session \<and> k' = ''k'' then Some (Inr (JStr ''1'')) else None)" if "part_ok p" for p k'
  proof -
    have ok: "part_ok (partition_of kv_session)" by (simp add: part_ok_def parts)
    have "part_path (partition_of kv_session) ''k'' = ''.apps/A/data/u/k''" "fst (partition_of kv_session) = ''w''"
      by (simp_all add: parts part_path_def part_dir_def app_data_dir_def app_data_root_def APP_DATA_ROOT_def)
    then show ?thesis using part_path_inj [OF that ok, of k' "''k''"] by (simp add: kv_demo_at assms new_file_def)
  qed
  have ok: "part_ok (partition_of kv_session)" "part_ok (partition_of kv_member)" "partition_of kv_session \<noteq> partition_of kv_member"
    by (simp_all add: part_ok_def parts)
  have l: "list_prefix (JObj []) = []" "starts_with x []" for x by (simp_all add: list_prefix_def starts_with_def)
  show ?thesis
    using ok by (simp add: kv_demo_calls_def kv_demo_answers_def spec_call_def keyed_call_def k m l)
qed

theorem keyvalue_histories_exact_witness:
  "run_calls (sqlite_kv_env demo_sha hd (\<lambda>t. Inr (JStr t)) kv_demo_inst) kv_demo_calls
      (kv_demo_world (snd (sq_write demo_sha 0 ''w'' ''.apps/A/data/u/k'' ''1'' ''text/plain'' None []))) = kv_demo_answers \<and>
   run_calls (dsql_kv_env demo_sha (\<lambda>t. Inr (JStr t)) kv_demo_inst) kv_demo_calls
      (kv_demo_world (snd (ds_write demo_sha 0 ''w'' ''.apps/A/data/u/k'' ''1'' ''text/plain'' None empty_dsql))) = kv_demo_answers"
  (is "run_calls ?env1 _ (kv_demo_world ?f1) = _ \<and> run_calls ?env2 _ (kv_demo_world ?f2) = _")
proof -
  note invs = empty_invs(1) [OF demo_pick, of 0] empty_invs(2) [OF demo_hash, of 0]
  have "kv_ok (sqfs_inv hd) (kv_demo_world ?f1)" "kv_ok (ds_inv demo_sha) (kv_demo_world ?f2)"
    by (rule kv_demo_ok, rule sq.wr_inv [OF invs(1)], rule kv_demo_ok, rule ds.wr_inv [OF invs(2)])
  from keyvalue_histories_exact [OF this(1) kv_demo_calls_ok this(2) kv_demo_calls_ok, of "\<lambda>t. Inr (JStr t)" kv_demo_inst kv_demo_inst]
  show ?thesis
    by (simp only: kv_demo_spec [of sq_latest, OF sq.latest_wr [OF invs(1), of demo_sha, unfolded empty_latest]]
      kv_demo_spec [of ds_latest, OF ds.latest_wr [OF invs(2), unfolded empty_latest]])
qed

text \<open>On SQLite the prefix of a listing shows the migration: a key kept as a file is not listed under a
  prefix that differs from it in case, and is listed once it has been read.\<close>

lemma migration_changes_listing:
  "run_calls (sqlite_kv_env demo_sha hd (\<lambda>t. Inr (JStr t)) kv_demo_inst)
      [(0, ListCall kv_session (JObj [(''prefix'', JStr ''K'')])), (0, GetCall kv_session kv_args), (0, ListCall kv_session (JObj [(''prefix'', JStr ''K'')]))]
      (kv_demo_world (snd (sq_write demo_sha 0 ''w'' ''.apps/A/data/u/k'' ''1'' ''text/plain'' None []))) =
    [Inr (KeysAnswer []), Inr (ValueAnswer (JStr ''1'')), Inr (KeysAnswer [''k''])]"
  by code_simp

text \<open>
  The place an earlier version kept a session's keys is the folder the session's own files live in:
  storing a key removes a file of the same name there.
\<close>

lemma key_write_removes_file:
  assumes "sqfs_inv pick 0 f"
  shows "\<exists>w. kv_put (sqlite_kv_env sha pick parse inst) kv_session kv_args (kv_demo_world f) = (Inr ''k'', w) \<and>
    sq_latest (aw_files w) ''w'' ''.apps/A/data/u/k'' = None"
proof -
  let ?env = "sqlite_kv_env sha pick parse inst" and ?w = "kv_demo_world f" and ?p = "partition_of kv_session"
  have k: "ident (jprop kv_args ''key'') ''key'' = Inr ''k''"
    by (simp add: kv_args_def ident_def ident_re_def ident_char_def)
  obtain e d where set: "kv_set (part_addr ?p ''k'') (kv_value kv_args) (cx_user kv_session) None ?w = (Inr e, ?w\<lparr>aw_kv := d\<rparr>)"
    by (rule kv_set_run [OF kv_demo_ok [of "sqfs_inv pick" f, OF assms], of ?p "''k''" "kv_value kv_args" "cx_user kv_session"])
      (auto simp: part_ok_def partition_of_def kv_session_def)
  obtain b g where rm: "sq_remove ''w'' ''.apps/A/data/u/k'' f = (b, g)" by fastforce
  have path: "part_path ?p ''k'' = ''.apps/A/data/u/k''" "cx_ws kv_session = ''w''"
    by (simp_all add: part_path_def part_dir_def partition_of_def kv_session_def app_data_dir_def app_data_root_def APP_DATA_ROOT_def)
  have "remove_file ?env (cx_ws kv_session) (part_path ?p ''k'') (?w\<lparr>aw_kv := d\<rparr>) = (Inr b, ?w\<lparr>aw_kv := d, aw_files := g\<rparr>)"
    by (simp add: remove_file_def path sqlite_kv_env_def kv_demo_world_def rm)
  from kv_put_run [OF _ k set this] have "kv_put ?env kv_session kv_args ?w = (Inr ''k'', ?w\<lparr>aw_kv := d, aw_files := g\<rparr>)"
    by (simp add: kv_args_def instance_opt_def)
  moreover have "sq_latest g ''w'' ''.apps/A/data/u/k'' = None"
    using sq.latest_rm [OF assms, of "''w''" "''.apps/A/data/u/k''"] rm by simp
  ultimately show ?thesis by simp
qed

end
