(* ===== verification/Spec2Isabelle.thy ===== *)
theory Spec2Isabelle
  imports Instance_Properties Patterns Grants_Properties Queue_Properties Dispatch_Properties
    Card_Properties Derived_Authority Sandbox_Properties Leader Cron Agent_Policy Auth_Cache Change_Journal Realtime_Properties
    Fs_Properties Vfs_Guard Relay_Properties Vcs_Properties Chat_Properties
    Diff_Properties Doc_Properties Identity_Types Notify_Properties Keyvalue_Properties
begin

text \<open>
  A verification of the server core of Aprovan, a workspace platform that runs user
  applications, agents and automations against shared data. All paths below are under \<^verbatim>\<open>src/\<close>,
  and \<^verbatim>\<open>W\<close> stands for \<^verbatim>\<open>src/server/workspace/src\<close>.

  \<^bold>\<open>The program and its parts.\<close> Every durable fact of a workspace is a row of the record store
  (\<^verbatim>\<open>W/records.ts\<close>): a value under a tenant, a scope and a key, kept by SQLite or by Aurora DSQL
  with large values spilled to S3. Platform services keep their documents in reserved \<^verbatim>\<open>svc#\<close>
  scopes (\<^verbatim>\<open>W/svc-records.ts\<close>); application data live in private or shared scopes, and the rows of
  a shared scope are metered against the cap of their instance (\<^verbatim>\<open>W/apps/instances.ts\<close>). A call
  of a tool passes the dispatch decision (\<^verbatim>\<open>W/grants.ts\<close>, \<^verbatim>\<open>W/profile-grants.ts\<close>), which allows it,
  denies it or queues it for review (\<^verbatim>\<open>W/action-queue.ts\<close>, \<^verbatim>\<open>W/capability-cards.ts\<close>). Standing
  automations are meant to act with an owner's authority (\<^verbatim>\<open>W/derived-authority.ts\<close>, which at this
  commit only its tests call) and schedules are fired by one elected process (\<^verbatim>\<open>W/runtime/leader.ts\<close>, \<^verbatim>\<open>W/runtime/cron.ts\<close>, \<^verbatim>\<open>W/workflows/cron.ts\<close>). Work for sandboxes is
  offered to hosts through a queue of runs and a relay of operations (\<^verbatim>\<open>W/sandboxes/queue.ts\<close>,
  \<^verbatim>\<open>W/sandboxes/relay.ts\<close>). Files are content-addressed versions in the file store (\<^verbatim>\<open>W/fs-store.ts\<close>)
  behind the partition guard (\<^verbatim>\<open>W/apps/store.ts\<close>, \<^verbatim>\<open>W/routes/fs.ts\<close>) and path shares (\<^verbatim>\<open>W/vfs/shares.ts\<close>,
  \<^verbatim>\<open>W/routes/share.ts\<close>); clients follow changes through a journal (\<^verbatim>\<open>W/change-journal.ts\<close>) and the
  realtime broker with its presence rosters (\<^verbatim>\<open>W/realtime\<close>). A workspace has a main line of
  snapshots (\<^verbatim>\<open>W/vcs/store.ts\<close>); a session stages its writes over the main line and is merged into
  it (\<^verbatim>\<open>W/vcs/chat-sessions.ts\<close>); a document opened by several editors lives as a CRDT with a log of
  updates, and a write of the plain file is reconciled with it (\<^verbatim>\<open>W/doc\<close>). Who may act at all is
  decided by the identity store (\<^verbatim>\<open>W/identity\<close>) and the middleware and routes over it
  (\<^verbatim>\<open>W/middleware/auth.ts\<close>, \<^verbatim>\<open>W/workspaces.ts\<close>, \<^verbatim>\<open>W/invites.ts\<close>, \<^verbatim>\<open>W/routes\<close>). Published applications call tools through
  a route of their own (\<^verbatim>\<open>W/routes/apps.ts\<close>) under budgets and the allow-list of their manifest
  (\<^verbatim>\<open>W/apps/usage.ts\<close>, \<^verbatim>\<open>W/apps/capabilities.ts\<close>); services among those tools are the key-value store
  (\<^verbatim>\<open>W/services.ts\<close>) and the feed of notifications (\<^verbatim>\<open>W/notifications/service.ts\<close>).

  \<^bold>\<open>How code is modelled.\<close> A handler is a program over an explicit world, of type \<^verbatim>\<open>prog\<close> in \<^verbatim>\<open>Base\<close>:
  it maps a world to an error or a value and a new world, so every throw, early return and catch
  of the source is a branch. Errors carry the HTTP status of \<^verbatim>\<open>ServiceError\<close>. Interfaces and classes are
  records, unions are datatypes, a JavaScript \<^verbatim>\<open>Map\<close> is an association list in insertion order,
  epoch times are integers in milliseconds. Code outside the repository (the registry, SHA-256,
  HMAC, random identifiers, the membership service) is an argument of the definitions that call
  it. A handler runs to its end before the next one starts; where the source leaves a window
  between two awaits that matters (\<^verbatim>\<open>Leader\<close>, \<^verbatim>\<open>Queue_Properties\<close>, \<^verbatim>\<open>Sandbox_Properties\<close>, \<^verbatim>\<open>Relay\<close>), the read
  and the write are separate steps, or what the others do in between is an argument.

  \<^bold>\<open>The theories.\<close>

  \<^item> Prelude. \<^verbatim>\<open>Base\<close> (programs, string operations, insertion-ordered maps, the collections of
    simplification rules), \<^verbatim>\<open>Json\<close>, \<^verbatim>\<open>Js_Number\<close> (\<^verbatim>\<open>Number\<close> on strings), \<^verbatim>\<open>Js_Date\<close> (calendar and ISO stamps).
  \<^item> Records. \<^verbatim>\<open>Records\<close> has one definition per method of the two selectable backends and of the
    metering; \<^verbatim>\<open>Record_Laws\<close> gives the abstract map of timestamped values, the locale \<^verbatim>\<open>record_store\<close>
    with the laws of the interface, and its interpretation \<^verbatim>\<open>rs\<close> on the model; \<^verbatim>\<open>Svc_Records\<close> and \<^verbatim>\<open>Doc_Store\<close>
    are the document helpers and the view of a store as documents; \<^verbatim>\<open>Store_Properties\<close> has the theorems:
    both backends refine the map, sequence keys read back and sort, the prefix scan is exact on
    DSQL and not on SQLite, reserved scopes are closed to callers.
  \<^item> Instances. \<^verbatim>\<open>Instances\<close> models every operation of \<^verbatim>\<open>apps/instances.ts\<close>; \<^verbatim>\<open>Metering\<close> ties its counters to
    the rows of \<^verbatim>\<open>records.ts\<close>; \<^verbatim>\<open>Instance_Properties\<close> shows access for participants only, complete
    deletion, exact counters and a cap no sequence of operations exceeds.
  \<^item> Dispatch. \<^verbatim>\<open>Dispatch\<close> has the data and the world, \<^verbatim>\<open>Grants\<close> and \<^verbatim>\<open>Profile_Grants\<close> the layers of the
    decision, \<^verbatim>\<open>Patterns\<close> the matcher of resource patterns of the client
    (\<^verbatim>\<open>src/client/web/src/features/capability-cards\<close>). \<^verbatim>\<open>Grants_Properties\<close> and
    \<^verbatim>\<open>Dispatch_Properties\<close>: an allowed call passed every layer, an application's ceiling that was given
    or read binds everyone (one that cannot be read binds nobody, a lemma), the longest prefix
    decides, a call is queued only for a missing resource grant.
  \<^item> Review. \<^verbatim>\<open>Queue_Store\<close> and \<^verbatim>\<open>Action_Queue\<close> are the queue, \<^verbatim>\<open>Queue_Laws\<close> how each operation changes the
    world, \<^verbatim>\<open>Queue_Properties\<close> that a release runs once, that terminal records are final along every
    run of the step relation, that expired actions never run, and what overlapping releases do.
    \<^verbatim>\<open>Capability_Cards\<close> and \<^verbatim>\<open>Card_Properties\<close> are the approval cards.
  \<^item> Automations. \<^verbatim>\<open>Derived_Authority\<close> (departure of an owner, a handler nothing calls yet), \<^verbatim>\<open>Leader\<close> (lease and tick, exclusion and
    handover, and the races), \<^verbatim>\<open>Cron\<close> (the five-field matcher), \<^verbatim>\<open>Agent_Policy\<close> (choice of a model).
  \<^item> Sandboxes. \<^verbatim>\<open>Sandbox_Queue\<close>, \<^verbatim>\<open>Sandbox_Properties\<close> (a claim returns suitable pending work, never
    twice in succession, within its wait); \<^verbatim>\<open>Relay\<close>, \<^verbatim>\<open>Relay_Properties\<close> (an operation always ends, with
    the agent's answer or a 504, and leaves the queue; a lease returns; an operation of which the
    agent learns by leasing it is answered with what the agent completed it with).
  \<^item> Files. \<^verbatim>\<open>Fs_Path\<close>, \<^verbatim>\<open>Fs_Store\<close> (both backends, batches of a bulk deletion), \<^verbatim>\<open>Fs_Laws\<close> (the locale
    \<^verbatim>\<open>file_tree\<close>), \<^verbatim>\<open>Fs_Backends\<close> (its interpretations \<^verbatim>\<open>sq\<close> and \<^verbatim>\<open>ds\<close>), \<^verbatim>\<open>Fs_Properties\<close> (a read gives the
    last write, paged listings end and are exact - on SQLite up to the case of letters -, prefix
    removal, batch bounds).
  \<^item> Access to files. \<^verbatim>\<open>Vfs_Shares\<close>, \<^verbatim>\<open>Vfs_Access\<close>, \<^verbatim>\<open>Vfs_Properties\<close> (life of a link, what the anonymous route
    serves), \<^verbatim>\<open>Vfs_Guard\<close> (whose a path is, whom the choke point admits, and the gaps found).
  \<^item> Realtime. \<^verbatim>\<open>Realtime\<close> (topics, messages, stores, broker), \<^verbatim>\<open>Realtime_Laws\<close> (the step relation, its
    invariant, the locale \<^verbatim>\<open>quiet_handlers\<close>), \<^verbatim>\<open>Presence\<close> (its handler, which interprets that locale),
    \<^verbatim>\<open>Presence_Laws\<close>, \<^verbatim>\<open>Realtime_Properties\<close> (mirrored subscriptions, fan-out to exactly the
    outgoing queues of the subscribers, exact rosters for topics and paths without a NUL).
    \<^verbatim>\<open>Auth_Cache\<close> and \<^verbatim>\<open>Change_Journal\<close> are the cache of principals and the ring of changes.
  \<^item> Version control. \<^verbatim>\<open>Json_Text\<close> (the text of the JSON values that are hashed), \<^verbatim>\<open>Vcs_Store\<close> (snapshots,
    trees, branches, diffs, restores), \<^verbatim>\<open>Vcs_Laws\<close> (the locale \<^verbatim>\<open>file_versions\<close>, which extends
    \<^verbatim>\<open>file_tree\<close>, and its interpretations \<^verbatim>\<open>sqv\<close> and \<^verbatim>\<open>dsv\<close> on the two file backends), \<^verbatim>\<open>Vcs_Properties\<close>: a
    commit's snapshot lists exactly the visible files with their hashes, restoring a snapshot brings its contents back, a diff applied
    to its base gives its target.
  \<^item> Sessions. \<^verbatim>\<open>Chat_Sessions\<close> (overlay, staged reads and writes, merges and conflicts), \<^verbatim>\<open>Chat_Laws\<close>
    (the locale \<^verbatim>\<open>file_drafts\<close> with its interpretations \<^verbatim>\<open>sqd\<close> and \<^verbatim>\<open>dsd\<close>), \<^verbatim>\<open>Chat_Properties\<close>: on the SQLite
    backend staged writes are invisible outside, closing applies exactly the draft, a merge with
    conflicts takes exactly the resolutions; on DSQL staged contents are lost, which is a lemma.
  \<^item> Documents. \<^verbatim>\<open>Text_Diff\<close> (the edit scripts of the server and of the editor), \<^verbatim>\<open>Diff_Laws\<close>,
    \<^verbatim>\<open>Diff_Properties\<close> (the script is as short as the longest common subsequence allows, its blocks
    apply, both copies agree); \<^verbatim>\<open>Doc_Live\<close> (log, snapshot, materialization, reconciliation), \<^verbatim>\<open>Doc_Laws\<close>,
    \<^verbatim>\<open>Doc_Properties\<close> (on the SQLite backend: a released document loads again, a reconciled write is
    applied or staged, and survives a restart when the file was not written directly). The CRDT itself is the yjs package: an argument \<^verbatim>\<open>ydoc\<close> with the laws
    \<^verbatim>\<open>text_laws\<close>, which the plain text with its list of edits satisfies.
  \<^item> Identity. \<^verbatim>\<open>Identity_Store\<close> (the tables and each statement of \<^verbatim>\<open>identity/sql.ts\<close>), \<^verbatim>\<open>Identity_Access\<close>
    (the wrapper that invalidates cached principals, the middleware, invites, members, groups,
    sessions), \<^verbatim>\<open>Identity_Laws\<close> (the locale \<^verbatim>\<open>kept_relation\<close> of relations every program composed
    of keeping programs keeps, with its interpretation \<^verbatim>\<open>coh\<close> for the coherence of the cache),
    \<^verbatim>\<open>Identity_Properties\<close> (the interpretation \<^verbatim>\<open>loc\<close>; a principal is current, removals keep an
    administrator, an invite to a workspace gives what it says once, the locus of a workspace is
    fixed) and \<^verbatim>\<open>Identity_Types\<close> (the interpretations \<^verbatim>\<open>rows\<close>: columns stay well-typed, \<^verbatim>\<open>pend\<close>: an
    invite is read back as it was made until it is accepted or revoked, and \<^verbatim>\<open>clock\<close>). The steps of the run in
    which principals stay current leave the deletion of a group out, because it does not
    invalidate: a lemma shows the stale principal.
  \<^item> Applications' calls. \<^verbatim>\<open>App_Usage\<close> (the daily budget, and that a day admits exactly what it
    allows to the users that share one key), \<^verbatim>\<open>App_Tools\<close> (allow-lists, requirements and what a manifest may call, of
    \<^verbatim>\<open>W/apps/capabilities.ts\<close>, with the checks of publishing), \<^verbatim>\<open>App_Calls\<close> (the routes of an application's
    session in \<^verbatim>\<open>W/routes/apps.ts\<close>), \<^verbatim>\<open>App_Tools_Properties\<close>: a published list reaches providers only
    through exact procedures with a held credential.
  \<^item> Services. \<^verbatim>\<open>Svc_Context\<close> (the context of a service call), \<^verbatim>\<open>Time_Ids\<close> (time-prefixed keys, which
    sort by time), \<^verbatim>\<open>Notifications\<close> with \<^verbatim>\<open>Notify_Properties\<close> (an application notifies its own user and
    embeds only calls that pass the dispatch check of its allow-list, which lets through more than
    the tool route, a lemma; seeing hides for the reader only, and expires for all);
    \<^verbatim>\<open>Keyvalue\<close>, \<^verbatim>\<open>Keyvalue_Laws\<close> and \<^verbatim>\<open>Keyvalue_Properties\<close>: histories of its four procedures refine a map
    per partition, through the locale \<^verbatim>\<open>legacy_files\<close> with its interpretations \<^verbatim>\<open>kvs\<close> and \<^verbatim>\<open>kvd\<close> on the two
    file backends; the map starts with the records and with every file of the legacy folder, so a
    session's own files are keys, and on SQLite a listing by a prefix shows what has migrated
    (both are lemmas).

  \<^bold>\<open>Loops and bounds.\<close> Every definition is total. Loops over data are structural; the polling loops
  (\<^verbatim>\<open>claim_loop\<close>, \<^verbatim>\<open>await_answer\<close>, \<^verbatim>\<open>lease_loop\<close>) and the scanners end by a measure, the time left or the
  text left. Only \<^verbatim>\<open>list_all_pages\<close>, the loop that follows cursors, has fuel: more than the number
  of files listed is always enough (\<^verbatim>\<open>follow\<close> in \<^verbatim>\<open>Fs_Laws\<close>), so the theorem on cursors gives a result,
  and one page is enough where the source asks without a limit. Sizes are those of the source: ten-digit sequence keys, the
  spill threshold, 3000 rows and 10 MB per DSQL transaction, as the constants say.

  \<^bold>\<open>Hypotheses.\<close> On DSQL scopes and tenants have no slash where blobs are addressed by a joined key
  (the collision otherwise is a lemma); the content hash is injective on the stored contents
  and free of slashes; the clock does not run backwards within a history; among rows with
  equal time stamps the SQL engine chooses by an arbitrary function. Generated identifiers are
  fresh, so an insertion of a group, an invite or a key is an update of its table.

  \<^bold>\<open>Simplifications.\<close> A string is a list of characters: limits on bytes (\<^verbatim>\<open>normalizeFsPath\<close>) and on UTF-16
  units (slices) count characters, which agrees on ASCII. The identity store does not fail, so the
  branches of \<^verbatim>\<open>routes/invites.ts\<close> that report or tolerate its failures (an error of a group) are left
  out. \<^verbatim>\<open>apply_loop\<close> is the loop of the editor's \<^verbatim>\<open>applyDiffs\<close> without the pass that removes stray
  markers and warns of them afterwards.

  \<^bold>\<open>Not modelled.\<close> The HTTP surface and the tables of procedures (framing around the modelled
  handlers); publishing and installing applications apart from their allow-lists, credentials, registry storage, agents and
  the execution of workflows (orchestration of packages or services outside the repository);
  remote mounts, webhooks, mail and audit (delivery to third parties, append-only logs); the CRDT and its synchronisation over sockets (the yjs package); the DynamoDB stores and
  the S3 file store, which the selectors no longer return; user interfaces, the desktop shell
  and infrastructure descriptions.
\<close>

end
